(* ===== verification/Dex_Prelude.thy ===== *)
theory Dex_Prelude
  imports Main "HOL-Library.Word"
begin

text \<open>
  Shared vocabulary of the development.

  \<^item> The machine types of the Rust sources: \<open>u8\<close> .. \<open>u64\<close> are words, the signed types
    \<open>i8\<close> .. \<open>i64\<close> are the same words read with \<open>sint\<close>, and \<open>usize\<close> is \<open>nat\<close> with the
    64-bit bound written out wherever the code checks for overflow.
  \<^item> Rust's \<open>Result\<close> is the sum type with the error on the left; \<open>bindE\<close> is the
    question-mark operator, \<open>ok_or\<close> turns an \<open>Option\<close> into a \<open>Result\<close>, and \<open>mapE\<close> is a
    loop that pushes one result per item and returns at the first error.
  \<^item> The little-endian codecs \<open>to_le_bytes\<close> and \<open>from_le_bytes\<close> of the standard library,
    with their round trips.
  \<^item> Lemma collections used by the component theories.
\<close>

unbundle bit_operations_syntax

type_synonym byte = "8 word"
type_synonym u16 = "16 word"
type_synonym u32 = "32 word"
type_synonym u64 = "64 word"

named_theorems le_simps "little-endian codecs"
named_theorems wf_intros "well-formedness of emitted and decoded values"

section \<open>Results\<close>

fun bindE :: "'e + 'a \<Rightarrow> ('a \<Rightarrow> 'e + 'b) \<Rightarrow> 'e + 'b" where
  "bindE (Inl e) f = Inl e"
| "bindE (Inr x) f = f x"

definition ok_or :: "'a option \<Rightarrow> 'e \<Rightarrow> 'e + 'a" where
  "ok_or r e = (case r of None \<Rightarrow> Inl e | Some x \<Rightarrow> Inr x)"

fun mapE :: "('a \<Rightarrow> 'e + 'b) \<Rightarrow> 'a list \<Rightarrow> 'e + 'b list" where
  "mapE f [] = Inr []"
| "mapE f (x # xs) = bindE (f x) (\<lambda>y. bindE (mapE f xs) (\<lambda>ys. Inr (y # ys)))"

lemma bindE_eq_Inr [simp]: "bindE m f = Inr y \<longleftrightarrow> (\<exists>x. m = Inr x \<and> f x = Inr y)"
  by (cases m) auto

lemma bindE_eq_Inl: "bindE m f = Inl e \<longleftrightarrow> m = Inl e \<or> (\<exists>x. m = Inr x \<and> f x = Inl e)"
  by (cases m) auto

lemma bindE_cong [fundef_cong]:
  "m = m' \<Longrightarrow> (\<And>x. m' = Inr x \<Longrightarrow> f x = f' x) \<Longrightarrow> bindE m f = bindE m' f'"
  by (cases m') auto

lemma bindE_assoc: "bindE (bindE m f) g = bindE m (\<lambda>x. bindE (f x) g)"
  by (cases m) auto

lemma ok_or_eq_Inr [simp]: "ok_or r e = Inr x \<longleftrightarrow> r = Some x"
  by (auto simp: ok_or_def split: option.splits)

lemma ok_or_simps [simp]: "ok_or None e = Inl e" "ok_or (Some x) e = Inr x"
  by (simp_all add: ok_or_def)

lemma mapE_cong [fundef_cong]:
  "xs = ys \<Longrightarrow> (\<And>x. x \<in> set ys \<Longrightarrow> f x = g x) \<Longrightarrow> mapE f xs = mapE g ys"
  by (induction ys arbitrary: xs) (auto intro: bindE_cong)

lemma mapE_Inr_iff: "mapE f xs = Inr ys \<longleftrightarrow> list_all2 (\<lambda>x y. f x = Inr y) xs ys"
  by (induction xs arbitrary: ys) (auto simp: list_all2_Cons1)

lemma mapE_length: "mapE f xs = Inr ys \<Longrightarrow> length ys = length xs"
  by (auto simp: mapE_Inr_iff dest: list_all2_lengthD)

lemma mapE_set: "mapE f xs = Inr ys \<Longrightarrow> y \<in> set ys \<Longrightarrow> \<exists>x \<in> set xs. f x = Inr y"
  by (induction xs arbitrary: ys) auto

lemma mapE_id: "(\<And>x. x \<in> set xs \<Longrightarrow> f x = Inr (g x)) \<Longrightarrow> mapE f xs = Inr (map g xs)"
  by (induction xs) auto

fun foldE :: "('s \<Rightarrow> 'a \<Rightarrow> 'e + 's) \<Rightarrow> 's \<Rightarrow> 'a list \<Rightarrow> 'e + 's" where
  "foldE f s [] = Inr s"
| "foldE f s (x # xs) = bindE (f s x) (\<lambda>s'. foldE f s' xs)"

lemma foldE_append: "foldE f s (xs @ ys) = bindE (foldE f s xs) (\<lambda>s'. foldE f s' ys)"
  by (induction xs arbitrary: s) (auto simp: bindE_assoc)

lemma foldE_inv:
  "foldE f s xs = Inr s' \<Longrightarrow> P s \<Longrightarrow> (\<And>s x s'. x \<in> set xs \<Longrightarrow> P s \<Longrightarrow> f s x = Inr s' \<Longrightarrow> P s') \<Longrightarrow> P s'"
proof (induction xs arbitrary: s)
  case (Cons x xs)
  from Cons.prems(1) obtain s1 where s1: "f s x = Inr s1" "foldE f s1 xs = Inr s'" by auto
  have "P s1" by (rule Cons.prems(3) [OF _ Cons.prems(2) s1(1)]) simp
  then show ?case by (rule Cons.IH [OF s1(2)]) (rule Cons.prems(3), auto)
qed simp

section \<open>Slices\<close>

text \<open>\<open>data.get(a..b)\<close>: a slice when \<open>a \<le> b\<close> and \<open>b\<close> is within the data.\<close>

definition get_range :: "'a list \<Rightarrow> nat \<Rightarrow> nat \<Rightarrow> 'a list option" where
  "get_range xs a b = (if a \<le> b \<and> b \<le> length xs then Some (take (b - a) (drop a xs)) else None)"

text \<open>A Rust slice has at most \<open>isize::MAX\<close> elements.\<close>

definition fits :: "'a list \<Rightarrow> bool" where
  "fits xs \<longleftrightarrow> length xs < 2 ^ 63"

definition get_at :: "'a list \<Rightarrow> nat \<Rightarrow> 'a option" where
  "get_at xs i = (if i < length xs then Some (xs ! i) else None)"

lemma get_at_append [simp]: "get_at (xs @ y # ys) (length xs) = Some y"
  by (simp add: get_at_def)

lemma get_range_append:
  "get_range (xs @ ys @ zs) (length xs) (length xs + length ys) = Some ys"
  by (simp add: get_range_def)

text \<open>\<open>at_off data off bs\<close>: the bytes \<open>bs\<close> stand at \<open>off\<close> in \<open>data\<close>.\<close>

definition at_off :: "'a list \<Rightarrow> nat \<Rightarrow> 'a list \<Rightarrow> bool" where
  "at_off data off bs \<longleftrightarrow> off + length bs \<le> length data \<and> take (length bs) (drop off data) = bs"

lemma at_offI [intro]: "at_off (pre @ bs @ post) (length pre) bs"
  by (simp add: at_off_def)

lemma at_off_Nil [simp]: "at_off data off [] \<longleftrightarrow> off \<le> length data"
  by (auto simp: at_off_def)

lemma at_off_split: "at_off data off bs \<longleftrightarrow> (\<exists>pre post. data = pre @ bs @ post \<and> length pre = off)"
proof
  assume *: "at_off data off bs"
  then have "data = take off data @ bs @ drop (off + length bs) data"
    by (metis at_off_def append_take_drop_id drop_drop add.commute)
  moreover have "length (take off data) = off"
    using * by (auto simp: at_off_def)
  ultimately show "\<exists>pre post. data = pre @ bs @ post \<and> length pre = off" by blast
qed auto

lemma at_off_append:
  "at_off data off (xs @ ys) \<longleftrightarrow> at_off data off xs \<and> at_off data (off + length xs) ys"
proof
  assume "at_off data off (xs @ ys)"
  then obtain pre post where d: "data = pre @ xs @ ys @ post" and off: "length pre = off"
    by (auto simp: at_off_split)
  have "at_off (pre @ xs @ (ys @ post)) (length pre) xs" by blast
  moreover have "at_off ((pre @ xs) @ ys @ post) (length (pre @ xs)) ys" by blast
  ultimately show "at_off data off xs \<and> at_off data (off + length xs) ys"
    by (simp add: d off)
next
  assume a: "at_off data off xs \<and> at_off data (off + length xs) ys"
  then have "take (length xs + length ys) (drop off data) = xs @ ys"
    by (simp add: at_off_def take_add add.commute)
  with a show "at_off data off (xs @ ys)" by (auto simp: at_off_def)
qed

lemma at_off_nth: "at_off data off bs \<Longrightarrow> i < length bs \<Longrightarrow> data ! (off + i) = bs ! i"
  by (metis at_off_def add_leD1 nth_drop nth_take)

lemma at_off_len: "at_off data off bs \<Longrightarrow> off + length bs \<le> length data"
  by (simp add: at_off_def)

section \<open>Bits of the constants of the sources\<close>

text \<open>\<open>bit_simps\<close> reduces the bits of a word numeral to those of the integer.\<close>

lemma bit_of_mask: "mask k = (m :: int) \<Longrightarrow> bit m n \<longleftrightarrow> n < k"
  by (auto simp: bit_mask_iff)

lemma bit_of_exp: "2 ^ k = (m :: int) \<Longrightarrow> bit m n \<longleftrightarrow> n = k"
  by (auto simp: bit_exp_iff)

lemma bit_masks [simp]:
  "bit (0x7 :: int) n \<longleftrightarrow> n < 3"
  "bit (0xF :: int) n \<longleftrightarrow> n < 4"
  "bit (0x1F :: int) n \<longleftrightarrow> n < 5"
  "bit (0x3F :: int) n \<longleftrightarrow> n < 6"
  "bit (0x7F :: int) n \<longleftrightarrow> n < 7"
  "bit (0xFF :: int) n \<longleftrightarrow> n < 8"
  "bit (0x3FF :: int) n \<longleftrightarrow> n < 10"
  "bit (0xFFFF :: int) n \<longleftrightarrow> n < 16"
  "bit (0xFFFFFFFF :: int) n \<longleftrightarrow> n < 32"
  "bit (0xFFFFFFFFFFFF :: int) n \<longleftrightarrow> n < 48"
  by (rule bit_of_mask, simp add: mask_eq_exp_minus_1)+

lemma bit_exps [simp]:
  "bit (0x8 :: int) n \<longleftrightarrow> n = 3"
  "bit (0x40 :: int) n \<longleftrightarrow> n = 6"
  "bit (0x80 :: int) n \<longleftrightarrow> n = 7"
  by (rule bit_of_exp, simp)+

lemma drop_bit_zeroD: "drop_bit k (v :: 'a :: len word) = 0 \<Longrightarrow> bit v n \<Longrightarrow> n < k"
  by (metis bit_0_eq bit_drop_bit_eq bot_apply bot_bool_def le_add_diff_inverse not_less comp_apply)

lemma and_exp_eq_0_iff: "(b :: 'a :: len word) AND 2 ^ k = 0 \<longleftrightarrow> \<not> bit b k"
  by (metis and_exp_eq_0_iff_not_bit)

lemma unat_ucast_up:
  assumes "LENGTH('a) \<le> LENGTH('b)"
  shows "unat (ucast (v :: 'a :: len word) :: 'b :: len word) = unat v"
proof -
  have "unat v < 2 ^ LENGTH('a)" by (rule unsigned_less)
  also have "(2 :: nat) ^ LENGTH('a) \<le> 2 ^ LENGTH('b)" using assms by simp
  finally show ?thesis by (simp add: unsigned_ucast_eq take_bit_nat_eq_self)
qed

lemma unat_u16_lt: "unat (v :: u16) < 65536"
  using unsigned_less [of v, where ?'a = nat] by simp

lemma unat_u32_lt: "unat (v :: u32) < 4294967296"
  using unsigned_less [of v, where ?'a = nat] by simp

lemma unat_byte_lt: "unat (v :: byte) < 256"
  using unsigned_less [of v, where ?'a = nat] by simp

section \<open>Little-endian codecs\<close>

definition u16_to_le :: "u16 \<Rightarrow> byte list" where
  "u16_to_le w = [ucast w, ucast (drop_bit 8 w)]"

definition u16_of_le :: "byte \<Rightarrow> byte \<Rightarrow> u16" where
  "u16_of_le b0 b1 = ucast b0 OR push_bit 8 (ucast b1)"

definition u32_to_le :: "u32 \<Rightarrow> byte list" where
  "u32_to_le w = [ucast w, ucast (drop_bit 8 w), ucast (drop_bit 16 w), ucast (drop_bit 24 w)]"

definition u32_of_le :: "byte \<Rightarrow> byte \<Rightarrow> byte \<Rightarrow> byte \<Rightarrow> u32" where
  "u32_of_le b0 b1 b2 b3 =
     ucast b0 OR push_bit 8 (ucast b1) OR push_bit 16 (ucast b2) OR push_bit 24 (ucast b3)"

text \<open>The little-endian word that stands at an offset.\<close>

definition u16_at :: "byte list \<Rightarrow> nat \<Rightarrow> u16" where
  "u16_at data off = u16_of_le (data ! off) (data ! (off + 1))"

definition u32_at :: "byte list \<Rightarrow> nat \<Rightarrow> u32" where
  "u32_at data off = u32_of_le (data ! off) (data ! (off + 1)) (data ! (off + 2)) (data ! (off + 3))"

lemma length_u16_to_le [simp]: "length (u16_to_le w) = 2"
  by (simp add: u16_to_le_def)

lemma length_u32_to_le [simp]: "length (u32_to_le w) = 4"
  by (simp add: u32_to_le_def)

lemma u16_le_roundtrip [simp, le_simps]: "u16_of_le (ucast w) (ucast (drop_bit 8 w)) = w"
  unfolding u16_of_le_def by (rule bit_word_eqI) (auto simp: bit_simps)

lemma u32_le_roundtrip [simp, le_simps]:
  "u32_of_le (ucast w) (ucast (drop_bit 8 w)) (ucast (drop_bit 16 w)) (ucast (drop_bit 24 w)) = w"
proof (rule bit_word_eqI)
  fix n :: nat
  assume "n < LENGTH(32)"
  then consider "n < 8" | "8 \<le> n" "n < 16" | "16 \<le> n" "n < 24" | "24 \<le> n" "n < 32" by fastforce
  then show "bit (u32_of_le (ucast w) (ucast (drop_bit 8 w)) (ucast (drop_bit 16 w)) (ucast (drop_bit 24 w))) n
      = bit w n"
    by cases (auto simp: u32_of_le_def bit_simps)
qed

text \<open>A list of 16-bit units written one after the other.\<close>

definition units_to_le :: "u16 list \<Rightarrow> byte list" where
  "units_to_le us = concat (map u16_to_le us)"

lemma length_units_to_le [simp]: "length (units_to_le us) = 2 * length us"
  by (induction us) (auto simp: units_to_le_def)

lemma units_to_le_simps [simp]:
  "units_to_le [] = []"
  "units_to_le (u # us) = u16_to_le u @ units_to_le us"
  "units_to_le (us @ vs) = units_to_le us @ units_to_le vs"
  by (simp_all add: units_to_le_def)

lemma at_off_units_nth:
  assumes "at_off data off (units_to_le us)" and "k < length us"
  shows "at_off data (off + 2 * k) (u16_to_le (us ! k))"
proof -
  have "units_to_le us = units_to_le (take k us) @ u16_to_le (us ! k) @ units_to_le (drop (Suc k) us)"
    using assms(2) by (metis id_take_nth_drop units_to_le_simps(2,3))
  then show ?thesis
    using assms by (simp add: at_off_append)
qed

section \<open>Narrow and signed values\<close>

lemma sint_word_of_int:
  "- (2 ^ (LENGTH('a) - 1)) \<le> x \<Longrightarrow> x < 2 ^ (LENGTH('a) - 1) \<Longrightarrow> sint (word_of_int x :: 'a :: len word) = x"
  by (simp add: sint_sbintrunc' signed_take_bit_int_eq_self)

lemma take_bit_small: "unat (w :: 'a :: len word) < 2 ^ k \<Longrightarrow> take_bit k w = w"
  by (metis take_bit_nat_eq_self unsigned_take_bit_eq word_unat_eq_iff)

lemma le_mask_bits: 
  "(w :: u16) \<le> 0xF \<Longrightarrow> bit w n \<Longrightarrow> n < 4"
  "(w :: u16) \<le> 0xFF \<Longrightarrow> bit w n \<Longrightarrow> n < 8"
proof -
  show "n < 4" if "w \<le> 0xF" "bit w n"
    using take_bit_small [of w 4] that(2) word_le_nat_alt [THEN iffD1, OF that(1)] bit_take_bit_iff [of 4 w n] by simp
  show "n < 8" if "w \<le> 0xFF" "bit w n"
    using take_bit_small [of w 8] that(2) word_le_nat_alt [THEN iffD1, OF that(1)] bit_take_bit_iff [of 8 w n] by simp
qed

lemma bit_byte_lt: "bit (b :: byte) n \<Longrightarrow> n < 8"
  using bit_imp_le_length [of b n] by simp

lemma nibble_high_bits: "(w :: u16) \<le> 0xF \<Longrightarrow> 4 \<le> n \<Longrightarrow> \<not> bit w n"
  using le_mask_bits(1) leD by blast

lemma ucast_byte_of_u16: "ucast (ucast b :: u16) = (b :: byte)"
  by (rule bit_word_eqI) (auto simp: bit_simps)

lemma ucast_le_FF: "(ucast (b :: byte) :: u16) \<le> 0xFF"
  using unat_byte_lt [of b] by (simp add: word_le_nat_alt unat_ucast_up)

lemma small_bits: "bit (w :: u32) n \<Longrightarrow> unat w < 65536 \<Longrightarrow> n < 16"
  using take_bit_small [of w 16] bit_take_bit_iff [of 16 w n] by simp

lemma ucast_u16_u32: "unat (w :: u32) < 65536 \<Longrightarrow> ucast (ucast w :: u16) = w"
  by (rule bit_word_eqI) (auto simp: bit_simps dest: small_bits)

lemma list5: "length xs = 5 \<Longrightarrow> \<exists>a b c d e. xs = [a, b, c, d, e]"
  by (auto simp: numeral_nat length_Suc_conv)

lemma small_count: "n \<le> 5 \<Longrightarrow> (of_nat n :: u16) \<le> 0xF \<and> unat (of_nat n :: u16) = n \<and> \<not> (of_nat n :: u16) > 5"
proof -
  assume "n \<le> 5"
  then have "n = 0 \<or> n = 1 \<or> n = 2 \<or> n = 3 \<or> n = 4 \<or> n = 5" by arith
  then show ?thesis by (elim disjE) simp_all
qed

lemma and_mask_le: "(w :: u16) AND 0xFF \<le> 0xFF" "w AND 0xF \<le> 0xF"
  by (auto simp: word_and_le1)

lemma u16_le_max: "(w :: u16) \<le> 0xFFFF"
  using unat_u16_lt [of w] by (simp add: word_le_nat_alt)

lemma sint_bounds:
  "- 128 \<le> sint (b :: byte)" "sint b \<le> 127"
  "- 32768 \<le> sint (u :: u16)" "sint u \<le> 32767"
  "- 2147483648 \<le> sint (w :: u32)" "sint w \<le> 2147483647"
  "- 9223372036854775808 \<le> sint (l :: u64)" "sint l \<le> 9223372036854775807"
  using sint_range_size [of b] sint_range_size [of u] sint_range_size [of w] sint_range_size [of l]
  by (auto simp: word_size)

section \<open>Tables of words\<close>

lemma mapE_upt: "(\<And>i. i < n \<Longrightarrow> f i = Inr (xs ! i)) \<Longrightarrow> length xs = n \<Longrightarrow> mapE f [0..<n] = Inr xs"
proof -
  assume f: "\<And>i. i < n \<Longrightarrow> f i = Inr (xs ! i)" and l: "length xs = n"
  have "mapE f [0..<n] = Inr (map (\<lambda>i. xs ! i) [0..<n])" by (rule mapE_id) (use f in auto)
  also have "map (\<lambda>i. xs ! i) [0..<n] = xs" using l by (metis map_nth)
  finally show ?thesis .
qed

definition words_to_le :: "u32 list \<Rightarrow> byte list" where
  "words_to_le ws = concat (map u32_to_le ws)"

lemma length_words_to_le [simp]: "length (words_to_le ws) = 4 * length ws"
  by (induction ws) (auto simp: words_to_le_def)

lemma at_off_words_nth:
  assumes "at_off data off (words_to_le ws)" and "k < length ws"
  shows "at_off data (off + 4 * k) (u32_to_le (ws ! k))"
proof -
  have "words_to_le ws = words_to_le (take k ws) @ u32_to_le (ws ! k) @ words_to_le (drop (Suc k) ws)"
    unfolding words_to_le_def using assms(2) by (metis concat.simps(2) concat_append id_take_nth_drop list.simps(9) map_append)
  then show ?thesis using assms by (simp add: at_off_append)
qed

lemma at_off_two_units:
  "at_off data off (units_to_le [u, v] @ rest) \<longleftrightarrow> at_off data off (units_to_le [u, v]) \<and> at_off data (off + 4) rest"
  by (simp only: at_off_append length_units_to_le) (simp add: numeral_eq_Suc del: units_to_le_simps)

section \<open>Ordered maps\<close>

text \<open>A \<open>BTreeMap\<close> is an association list in ascending order of its keys; \<open>map_of\<close> is \<open>get\<close>.\<close>

fun btree_insert :: "'k :: linorder \<Rightarrow> 'v \<Rightarrow> ('k \<times> 'v) list \<Rightarrow> ('k \<times> 'v) list" where
  "btree_insert k v [] = [(k, v)]"
| "btree_insert k v ((k', v') # m) =
     (if k < k' then (k, v) # (k', v') # m
      else if k = k' then (k, v) # m
      else (k', v') # btree_insert k v m)"

definition btree_ok :: "('k :: linorder \<times> 'v) list \<Rightarrow> bool" where
  "btree_ok m \<longleftrightarrow> sorted_wrt (<) (map fst m)"

lemma btree_insert_keys: "set (map fst (btree_insert k v m)) = insert k (set (map fst m))"
  by (induction k v m rule: btree_insert.induct) (simp_all, blast)

lemma btree_insert_ok: "btree_ok m \<Longrightarrow> btree_ok (btree_insert k v m)"
proof (induction k v m rule: btree_insert.induct)
  case (2 k v k' v' m)
  show ?case
  proof (cases "k' < k")
    case True
    then have "btree_ok (btree_insert k v m)" using 2 by (simp add: btree_ok_def)
    moreover have "\<forall>x \<in> set (map fst (btree_insert k v m)). k' < x"
      unfolding btree_insert_keys using True "2.prems" by (simp add: btree_ok_def)
    ultimately show ?thesis using True by (auto simp: btree_ok_def)
  next
    case False
    with "2.prems" show ?thesis by (cases "k = k'") (auto simp: btree_ok_def)
  qed
qed (simp add: btree_ok_def)

lemma btree_insert_set: "x \<in> set (btree_insert k v m) \<Longrightarrow> x = (k, v) \<or> x \<in> set m"
  by (induction k v m rule: btree_insert.induct) (auto split: if_splits)

lemma map_of_btree_insert: "map_of (btree_insert k v m) = (map_of m)(k \<mapsto> v)"
  by (induction k v m rule: btree_insert.induct) (auto simp: fun_eq_iff)

section \<open>Folds, slices and small words\<close>

lemma set_if_single: "x \<in> set (if b then [y] else []) \<longleftrightarrow> b \<and> x = y"
  by auto

lemma at_off_trans: "at_off data off bs \<Longrightarrow> at_off bs p xs \<Longrightarrow> at_off data (off + p) xs"
  by (auto simp: at_off_split) (metis append.assoc length_append)

lemma at_off_nthI:
  "off + length bs \<le> length data \<Longrightarrow> (\<And>i. i < length bs \<Longrightarrow> data ! (off + i) = bs ! i) \<Longrightarrow> at_off data off bs"
  unfolding at_off_def by (auto intro: nth_equalityI)

lemma slice_nth: "off + n \<le> length data \<Longrightarrow> at_off data' off' (take n (drop off data)) \<Longrightarrow>
    off' + n \<le> length data' \<and> (\<forall>i < n. data' ! (off' + i) = data ! (off + i))"
  using at_off_nth [of data' off' "take n (drop off data)"] at_off_len [of data' off' "take n (drop off data)"] by auto

lemma unat_of_nat_u32: "n < 2 ^ 32 \<Longrightarrow> unat (of_nat n :: u32) = n"
  by (simp add: unat_of_nat take_bit_nat_eq_self)

lemma unat_of_nat_u16: "n < 2 ^ 16 \<Longrightarrow> unat (of_nat n :: u16) = n"
  by (simp add: unat_of_nat take_bit_nat_eq_self)

lemma foldl_max:
  fixes g :: "'a \<Rightarrow> 'b :: linorder"
  shows "m \<le> foldl (\<lambda>m x. max m (g x)) m xs" "x \<in> set xs \<Longrightarrow> g x \<le> foldl (\<lambda>m x. max m (g x)) m xs"
    "m \<le> B \<Longrightarrow> (\<And>x. x \<in> set xs \<Longrightarrow> g x \<le> B) \<Longrightarrow> foldl (\<lambda>m x. max m (g x)) m xs \<le> B"
  by (induction xs arbitrary: m) (auto, metis max.bounded_iff, metis max.bounded_iff)

lemma foldE_total: "(\<And>m x. x \<in> set xs \<Longrightarrow> f m x = Inr (h m x)) \<Longrightarrow> foldE f m xs = Inr (foldl h m xs)"
  by (induction xs arbitrary: m) simp_all

lemma btree_ext: "btree_ok a \<Longrightarrow> btree_ok b \<Longrightarrow> map_of a = map_of b \<Longrightarrow> a = b"
proof -
  assume a: "btree_ok a" and b: "btree_ok b" and m: "map_of a = map_of b"
  have d: "sorted (map fst a)" "distinct (map fst a)" "sorted (map fst b)" "distinct (map fst b)"
    using a b unfolding btree_ok_def strict_sorted_iff by auto
  have s: "set a = set b" using d m by (metis map_of_eq_Some_iff pred_equals_eq2 subrelI subset_antisym)
  moreover have "inj_on fst (set a \<union> set b)" using d(2) s by (simp add: distinct_map)
  ultimately show "a = b" using d map_sorted_distinct_set_unique [of fst a b] by simp
qed

end
