(* ===== verification/Dex_Error.thy ===== *)
theory Dex_Error
  imports Dex_Prelude
begin

text \<open>
  The error type of the parser (\<open>src/src/error.rs\<close>) with its checked-arithmetic helpers, the
  wrappers over the external decoders (\<open>src/src/mutf8.rs\<close>), and the interface to the code that
  the crate only calls.

  The crate reads integers with the \<open>scroll\<close> crate, LEB128 numbers with \<open>droidsaw_common\<close>,
  bounds counts with \<open>droidsaw_common::guard\<close> and hashes with \<open>adler2\<close> and \<open>sha1\<close>. Those
  are the fields of the record \<open>deps\<close>, an argument of every definition that uses them, and what
  the crate relies on are the laws of the locales below. A formatted error text keeps the
  constant part of its format string.
\<close>

section \<open>Errors\<close>

datatype AccessFlagScope = Class | Field | Method

datatype DexError =
    BadMagic "byte list"
  | UnsupportedVersion "byte list"
  | BadEndianTag u32
  | ChecksumMismatch u32 u32
  | OffsetOutOfBounds u32 nat
  | SectionOverlap string u32 u64 string u32 u64 bool
  | ScrollRead nat
  | InvalidMutf8 nat
  | InvalidUleb128 nat
  | IndexOob string u32 u32
  | Truncated nat nat nat
  | UnknownOpcode byte u32
  | EncodedValueSize string nat
  | TruncatedInstruction u32 nat nat
  | InvalidInstruction u32 string
  | SsaVarOverflow
  | BoundCountExceeded string nat
  | ArithmeticOverflow string
  | WorkStackExhausted
  | EmitRecursionDepthExceeded nat nat
  | Budget string
  | InvalidDebugRegister u32 u16
  | InvalidHeaderSize u32
  | InvalidAccessFlags u32 AccessFlagScope
  | AnnotationDirectoryAllocationCap nat nat
  | ClassDefOffsetOutOfBounds string u32 nat
  | DetectorIndeterminate string
  | SectionLayoutGauge string string

text \<open>The failure classes of the emitter (\<open>src/src/emit_dex.rs\<close>). A recorded parse failure is
  kept as its kind's name and offset.\<close>

datatype DexEmitError =
    SizeOverflow string string
  | OffsetOverflow string string
  | ChecksumRecomputeFailed string
  | UnrepresentableIR string
  | InvariantViolated string
  | NotImplemented
  | PartialIR nat string u32

section \<open>Checked arithmetic\<close>

text \<open>\<open>usize\<close> has 64 bits on the supported targets.\<close>

definition safe_add :: "nat \<Rightarrow> nat \<Rightarrow> string \<Rightarrow> DexError + nat" where
  "safe_add a b context =
     (if a + b < 2 ^ 64 then Inr (a + b) else Inl (ArithmeticOverflow context))"

definition safe_mul :: "nat \<Rightarrow> nat \<Rightarrow> string \<Rightarrow> DexError + nat" where
  "safe_mul a b context =
     (if a * b < 2 ^ 64 then Inr (a * b) else Inl (ArithmeticOverflow context))"

definition safe_add_u32 :: "u32 \<Rightarrow> u32 \<Rightarrow> string \<Rightarrow> DexError + u32" where
  "safe_add_u32 a b context =
     (if unat a + unat b < 2 ^ 32 then Inr (a + b) else Inl (ArithmeticOverflow context))"

definition safe_mul_u32 :: "u32 \<Rightarrow> u32 \<Rightarrow> string \<Rightarrow> DexError + u32" where
  "safe_mul_u32 a b context =
     (if unat a * unat b < 2 ^ 32 then Inr (a * b) else Inl (ArithmeticOverflow context))"

lemma safe_add_ok [simp]: "a + b < 18446744073709551616 \<Longrightarrow> safe_add a b ctx = Inr (a + b)"
  by (simp add: safe_add_def)

lemma safe_mul_ok [simp]: "a * b < 18446744073709551616 \<Longrightarrow> safe_mul a b ctx = Inr (a * b)"
  by (simp add: safe_mul_def)

lemma safe_add_InrD: "safe_add a b ctx = Inr c \<Longrightarrow> c = a + b \<and> c < 2 ^ 64"
  by (auto simp: safe_add_def split: if_splits)

lemma safe_mul_InrD: "safe_mul a b ctx = Inr c \<Longrightarrow> c = a * b \<and> c < 2 ^ 64"
  by (auto simp: safe_mul_def split: if_splits)

lemma unat_add_no_wrap: "unat a + unat b < 2 ^ 32 \<Longrightarrow> unat (a + b :: u32) = unat a + unat b"
  by (simp add: unat_word_ariths)

lemma safe_add_u32_InrD:
  "safe_add_u32 a b ctx = Inr c \<Longrightarrow> c = a + b \<and> unat c = unat a + unat b"
  by (auto simp: safe_add_u32_def unat_add_no_wrap split: if_splits)

lemma safe_mul_u32_InrD:
  "safe_mul_u32 a b ctx = Inr c \<Longrightarrow> c = a * b \<and> unat c = unat a * unat b"
  by (auto simp: safe_mul_u32_def unat_word_ariths split: if_splits)

lemma safe_add_u32_Inr_iff:
  "safe_add_u32 a b ctx = Inr c \<longleftrightarrow> unat a + unat b < 2 ^ 32 \<and> c = a + b"
  by (auto simp: safe_add_u32_def)

lemma safe_mul_u32_nat: "unat a = x \<Longrightarrow> unat b = y \<Longrightarrow> x * y < 2 ^ 32 \<Longrightarrow> safe_mul_u32 a b c = Inr (of_nat (x * y))"
  and safe_add_u32_nat: "unat a = x \<Longrightarrow> unat b = y \<Longrightarrow> x + y < 2 ^ 32 \<Longrightarrow> safe_add_u32 a b c = Inr (of_nat (x + y))"
  by (auto simp: safe_mul_u32_def safe_add_u32_def)

section \<open>The interface to the crates that are called\<close>

text \<open>
  A failed external read carries nothing the crate keeps (\<open>map_err(|_| ..)\<close>, or the \<open>source\<close>
  field of \<open>ScrollRead\<close>), so a read is an option. LEB128 readers return the value and the
  number of bytes consumed; \<open>i32\<close> results are 32-bit words read with \<open>sint\<close>. The writers
  give the bytes they append.
\<close>

record deps =
  pread_u8 :: "byte list \<Rightarrow> nat \<Rightarrow> byte option"
  pread_u16 :: "byte list \<Rightarrow> nat \<Rightarrow> u16 option"
  pread_u32 :: "byte list \<Rightarrow> nat \<Rightarrow> u32 option"
  common_read_uleb128 :: "byte list \<Rightarrow> nat \<Rightarrow> (u32 \<times> nat) option"
  common_read_sleb128 :: "byte list \<Rightarrow> nat \<Rightarrow> (u32 \<times> nat) option"
  common_write_uleb128 :: "u32 \<Rightarrow> byte list"
  common_write_sleb128 :: "u32 \<Rightarrow> byte list"
  common_bound_count :: "nat \<Rightarrow> nat \<Rightarrow> nat \<Rightarrow> nat option"
  adler32_slice :: "byte list \<Rightarrow> u32"
  sha1_digest :: "byte list \<Rightarrow> byte list"

definition read_u8 :: "deps \<Rightarrow> byte list \<Rightarrow> nat \<Rightarrow> DexError + byte" where
  "read_u8 D data off = ok_or (pread_u8 D data off) (ScrollRead off)"

definition read_u16 :: "deps \<Rightarrow> byte list \<Rightarrow> nat \<Rightarrow> DexError + u16" where
  "read_u16 D data off = ok_or (pread_u16 D data off) (ScrollRead off)"

definition read_u32 :: "deps \<Rightarrow> byte list \<Rightarrow> nat \<Rightarrow> DexError + u32" where
  "read_u32 D data off = ok_or (pread_u32 D data off) (ScrollRead off)"

definition bound_count :: "deps \<Rightarrow> u32 \<Rightarrow> nat \<Rightarrow> nat \<Rightarrow> string \<Rightarrow> DexError + nat" where
  "bound_count D got stride data_len item =
     ok_or (common_bound_count D (unat got) stride data_len) (BoundCountExceeded item (unat got))"

definition read_uleb128 :: "deps \<Rightarrow> byte list \<Rightarrow> nat \<Rightarrow> DexError + (u32 \<times> nat)" where
  "read_uleb128 D data offset = ok_or (common_read_uleb128 D data offset) (InvalidUleb128 offset)"

definition read_sleb128 :: "deps \<Rightarrow> byte list \<Rightarrow> nat \<Rightarrow> DexError + (u32 \<times> nat)" where
  "read_sleb128 D data offset = ok_or (common_read_sleb128 D data offset) (InvalidUleb128 offset)"

text \<open>Little-endian integer reads: a value exactly when the bytes are there.\<close>

locale scroll_reader =
  fixes D :: deps
  assumes pread_u8_in: "fits data \<Longrightarrow> off < length data \<Longrightarrow> pread_u8 D data off = Some (data ! off)"
    and pread_u8_out: "length data \<le> off \<Longrightarrow> pread_u8 D data off = None"
    and pread_u16_in: "fits data \<Longrightarrow> off + 2 \<le> length data \<Longrightarrow>
      pread_u16 D data off = Some (u16_of_le (data ! off) (data ! (off + 1)))"
    and pread_u16_out: "length data < off + 2 \<Longrightarrow> pread_u16 D data off = None"
    and pread_u32_in: "fits data \<Longrightarrow> off + 4 \<le> length data \<Longrightarrow>
      pread_u32 D data off =
        Some (u32_of_le (data ! off) (data ! (off + 1)) (data ! (off + 2)) (data ! (off + 3)))"
    and pread_u32_out: "length data < off + 4 \<Longrightarrow> pread_u32 D data off = None"
begin

lemma read_u8_at: "fits data \<Longrightarrow> at_off data off (b # bs) \<Longrightarrow> read_u8 D data off = Inr b"
  using at_off_nth [of data off "b # bs" 0] at_off_len [of data off "b # bs"]
  by (simp add: read_u8_def pread_u8_in)

lemma read_u8_bound: "read_u8 D data off = Inr b \<Longrightarrow> off < length data"
  using pread_u8_out [of data off] by (cases "length data \<le> off") (auto simp: read_u8_def)

lemma read_u16_at: "fits data \<Longrightarrow> at_off data off (u16_to_le w) \<Longrightarrow> read_u16 D data off = Inr w"
  using at_off_nth [of data off "u16_to_le w" 0] at_off_nth [of data off "u16_to_le w" 1]
    at_off_len [of data off "u16_to_le w"]
  by (simp add: read_u16_def pread_u16_in u16_to_le_def)

lemma read_u32_at: "fits data \<Longrightarrow> at_off data off (u32_to_le w) \<Longrightarrow> read_u32 D data off = Inr w"
  using at_off_nth [of data off "u32_to_le w" 0] at_off_nth [of data off "u32_to_le w" 1]
    at_off_nth [of data off "u32_to_le w" 2] at_off_nth [of data off "u32_to_le w" 3]
    at_off_len [of data off "u32_to_le w"]
  by (simp add: read_u32_def pread_u32_in u32_to_le_def)

lemma read_u16_bound: "read_u16 D data off = Inr w \<Longrightarrow> off + 2 \<le> length data"
  using pread_u16_out [of data off] by (cases "length data < off + 2") (auto simp: read_u16_def)

lemma read_u32_bound: "read_u32 D data off = Inr w \<Longrightarrow> off + 4 \<le> length data"
  using pread_u32_out [of data off] by (cases "length data < off + 4") (auto simp: read_u32_def)

lemma read_u16_in: "fits data \<Longrightarrow> off + 2 \<le> length data \<Longrightarrow> read_u16 D data off = Inr (u16_at data off)"
  by (simp add: read_u16_def pread_u16_in u16_at_def)

lemma read_u32_in: "fits data \<Longrightarrow> off + 4 \<le> length data \<Longrightarrow> read_u32 D data off = Inr (u32_at data off)"
  by (simp add: read_u32_def pread_u32_in u32_at_def)

end

text \<open>The count guard: a count passes iff that many items of the stride fit into the data.\<close>

locale count_guard =
  fixes D :: deps
  assumes bound_count_in: "0 < stride \<Longrightarrow> len < 2 ^ 63 \<Longrightarrow> got * stride \<le> len \<Longrightarrow>
      common_bound_count D got stride len = Some got"
    and bound_count_out: "0 < stride \<Longrightarrow> len < got * stride \<Longrightarrow> common_bound_count D got stride len = None"
begin

lemma bound_count_fits:
  "0 < stride \<Longrightarrow> len < 2 ^ 63 \<Longrightarrow> unat got * stride \<le> len \<Longrightarrow> bound_count D got stride len item = Inr (unat got)"
  by (simp add: bound_count_def bound_count_in)

lemma bound_count_InrD:
  "bound_count D got stride len item = Inr n \<Longrightarrow> 0 < stride \<Longrightarrow> len < 2 ^ 63 \<Longrightarrow> n = unat got \<and> n * stride \<le> len"
  using bound_count_in [where got = "unat got" and stride = stride and len = len]
    bound_count_out [where got = "unat got" and stride = stride and len = len]
  by (cases "unat got * stride \<le> len") (auto simp: bound_count_def)

end

text \<open>
  The LEB128 codec: reading where a number was written gives it back with its encoded length;
  a read consumes at least one byte and stays inside the data, and its result depends on the consumed
  bytes only.
\<close>

locale leb128_codec =
  fixes D :: deps
  assumes read_write_uleb: "fits (pre @ common_write_uleb128 D v @ post) \<Longrightarrow>
      common_read_uleb128 D (pre @ common_write_uleb128 D v @ post) (length pre)
      = Some (v, length (common_write_uleb128 D v))"
    and read_write_sleb: "fits (pre @ common_write_sleb128 D v @ post) \<Longrightarrow>
      common_read_sleb128 D (pre @ common_write_sleb128 D v @ post) (length pre)
      = Some (v, length (common_write_sleb128 D v))"
    and write_uleb_length: "0 < length (common_write_uleb128 D v) \<and> length (common_write_uleb128 D v) \<le> 5"
    and write_sleb_length: "0 < length (common_write_sleb128 D v) \<and> length (common_write_sleb128 D v) \<le> 5"
    and read_uleb_bound: "common_read_uleb128 D data off = Some (v, n) \<Longrightarrow> 0 < n \<and> off + n \<le> length data"
    and read_sleb_bound: "common_read_sleb128 D data off = Some (v, n) \<Longrightarrow> 0 < n \<and> off + n \<le> length data"
    and read_uleb_local: "common_read_uleb128 D data off = Some (v, n) \<Longrightarrow> fits data' \<Longrightarrow>
      at_off data' off' (take n (drop off data)) \<Longrightarrow> common_read_uleb128 D data' off' = Some (v, n)"
    and read_sleb_local: "common_read_sleb128 D data off = Some (v, n) \<Longrightarrow> fits data' \<Longrightarrow>
      at_off data' off' (take n (drop off data)) \<Longrightarrow> common_read_sleb128 D data' off' = Some (v, n)"
begin

lemma read_uleb128_at:
  "fits data \<Longrightarrow> at_off data off (common_write_uleb128 D v) \<Longrightarrow>
   read_uleb128 D data off = Inr (v, length (common_write_uleb128 D v))"
  by (auto simp: at_off_split read_uleb128_def read_write_uleb)

lemma read_sleb128_at:
  "fits data \<Longrightarrow> at_off data off (common_write_sleb128 D v) \<Longrightarrow>
   read_sleb128 D data off = Inr (v, length (common_write_sleb128 D v))"
  by (auto simp: at_off_split read_sleb128_def read_write_sleb)

end

text \<open>Everything the parser relies on.\<close>

locale dex_deps = scroll_reader D + count_guard D + leb128_codec D for D :: deps

end
