(* ===== verification/Dex_Oracle_Io.thy ===== *)
theory Dex_Oracle_Io
  imports Dex_Error
begin

text \<open>
  The byte readers of the crate's differential oracles (\<open>src/src/parser_oracle.rs\<close> and
  \<open>src/src/cfg_oracle.rs\<close>), which are written without the external crates, and the ULEB128
  writer of the tests of \<open>src/src/debug.rs\<close>. Together with a signed writer they interpret the
  locales of \<open>Dex_Error\<close>: the laws that the parser relies on hold of the code the repository
  checks the parser against.
\<close>

section \<open>Fixed-width reads and the count guard\<close>

definition read_u16_le :: "byte list \<Rightarrow> nat \<Rightarrow> u16 option" where
  "read_u16_le bytes pos =
     (if pos + 1 < 2 ^ 64 then
        if pos + 1 \<ge> length bytes then None
        else Some (u16_of_le (bytes ! pos) (bytes ! (pos + 1)))
      else None)"

definition read_le_u32 :: "byte list \<Rightarrow> nat \<Rightarrow> u32 option" where
  "read_le_u32 data offset =
     (if offset + 4 < 2 ^ 64 then
        (case get_range data offset (offset + 4) of
           None \<Rightarrow> None
         | Some chunk \<Rightarrow> Some (u32_of_le (chunk ! 0) (chunk ! 1) (chunk ! 2) (chunk ! 3)))
      else None)"

definition oracle_bound_count :: "nat \<Rightarrow> nat \<Rightarrow> nat \<Rightarrow> nat option" where
  "oracle_bound_count count stride file_size =
     (if count * stride < 2 ^ 64 then
        if count * stride > file_size then None else Some count
      else None)"

section \<open>ULEB128\<close>

function uleb_loop :: "byte list \<Rightarrow> nat \<Rightarrow> u64 \<Rightarrow> nat \<Rightarrow> nat \<Rightarrow> (u64 \<times> nat) option" where
  "uleb_loop data offset result shift consumed =
     (if shift > 28 then None
      else if offset + consumed \<ge> 2 ^ 64 then None
      else case get_at data (offset + consumed) of
             None \<Rightarrow> None
           | Some b \<Rightarrow>
               (let result' = result OR push_bit shift (ucast (b AND 0x7F))
                in if b AND 0x80 = 0 then Some (result', consumed + 1)
                   else uleb_loop data offset result' (shift + 7) (consumed + 1)))"
  by pat_completeness auto
termination by (relation "measure (\<lambda>(data, offset, result, shift, consumed). 35 - shift)") auto

declare uleb_loop.simps [simp del]

definition oracle_read_uleb128 :: "byte list \<Rightarrow> nat \<Rightarrow> (u32 \<times> nat) option" where
  "oracle_read_uleb128 data offset =
     (case uleb_loop data offset 0 0 0 of
        None \<Rightarrow> None
      | Some (result, consumed) \<Rightarrow>
          if result > 0xFFFFFFFF then None else Some (ucast result, consumed))"

lemma unat_shift7: "x \<noteq> 0 \<Longrightarrow> unat (drop_bit 7 x) < unat (x :: u32)"
  by (simp add: drop_bit_eq_div unat_div unat_gt_0)

function push_uleb :: "u32 \<Rightarrow> byte list" where
  "push_uleb x =
     (let b = ucast (x AND 0x7F); y = drop_bit 7 x
      in if y \<noteq> 0 then (b OR 0x80) # push_uleb y else [b])"
  by pat_completeness auto
termination
proof (relation "measure unat")
  fix x y :: u32 and b :: byte
  assume "y = drop_bit 7 x" "y \<noteq> 0"
  then show "(y, x) \<in> measure unat" using unat_shift7 [of x] by (cases "x = 0") auto
qed simp

declare push_uleb.simps [simp del]

lemma low7_bits:
  "(ucast (x AND 0x7F) :: byte) AND 0x7F = ucast (x :: u32) AND 0x7F"
  "((ucast (x AND 0x7F) :: byte) OR 0x80) AND 0x7F = ucast x AND 0x7F"
  "(ucast (x AND 0x7F) :: byte) AND 0x80 = 0"
  by (rule bit_word_eqI, auto simp: bit_simps)+

lemma high_bit_set: "((b :: byte) OR 0x80) AND 0x80 \<noteq> 0"
proof -
  have "bit ((b OR 0x80) AND 0x80) 7" by (simp add: bit_simps)
  then show ?thesis by (metis bit_0_eq bot_apply bot_bool_def)
qed

lemma uleb_step:
  "take_bit s (ucast v) OR push_bit s (ucast ((ucast (drop_bit s v) :: byte) AND 0x7F))
     = take_bit (s + 7) (ucast (v :: u32) :: u64)"
  by (rule bit_word_eqI) (auto simp: bit_simps)

text \<open>Reading from inside an encoded number: \<open>s\<close> bits are read, the rest is still to come.\<close>

lemma uleb_loop_push_uleb:
  assumes "at_off data (offset + c) (push_uleb (drop_bit s v))" and "s \<le> 28" and "7 dvd s"
    and "fits data"
  shows "uleb_loop data offset (take_bit s (ucast v)) s c
           = Some (ucast v, c + length (push_uleb (drop_bit s v)))"
  using assms
proof (induction "35 - s" arbitrary: s c rule: less_induct)
  case less
  let ?x = "drop_bit s v"
  let ?b = "(ucast (?x AND 0x7F) :: byte)"
  have len: "offset + c < 2 ^ 64" using less.prems by (auto simp: at_off_def fits_def)
  show ?case
  proof (cases "drop_bit 7 ?x = 0")
    case True
    then have pu: "push_uleb ?x = [?b]" by (simp add: push_uleb.simps [of ?x])
    with less.prems have g: "get_at data (offset + c) = Some ?b"
      using at_off_nth [of data "offset + c" "[?b]" 0] by (auto simp: get_at_def at_off_def)
    have "bit v n \<Longrightarrow> n < s + 7" for n
      using True drop_bit_zeroD [of "s + 7" v n] by (simp add: add.commute)
    then have "take_bit (s + 7) (ucast v :: u64) = ucast v"
      by (intro bit_word_eqI) (auto simp: bit_simps)
    then show ?thesis
      using g len less.prems(2) uleb_step [of s v]
      by (simp add: uleb_loop.simps [of data offset _ s c] pu low7_bits Let_def)
  next
    case False
    then have pu: "push_uleb ?x = (?b OR 0x80) # push_uleb (drop_bit (s + 7) v)"
      by (simp add: push_uleb.simps [of ?x] Let_def add.commute)
    with less.prems have a: "at_off data (offset + Suc c) (push_uleb (drop_bit (s + 7) v))"
      using at_off_append [of data "offset + c" "[?b OR 0x80]" "push_uleb (drop_bit (s + 7) v)"] by simp
    have g: "get_at data (offset + c) = Some (?b OR 0x80)"
      using pu less.prems at_off_nth [of data "offset + c" "push_uleb ?x" 0]
      by (auto simp: get_at_def at_off_def)
    have s7: "s + 7 \<le> 28"
    proof (rule ccontr)
      assume "\<not> s + 7 \<le> 28"
      with less.prems(2,3) have "s = 28" by (elim dvdE) arith
      then have "drop_bit (s + 7) v = 0" by (intro bit_word_eqI) (auto simp: bit_simps dest: bit_imp_le_length)
      with False show False by (simp add: add.commute)
    qed
    have "uleb_loop data offset (take_bit (s + 7) (ucast v)) (s + 7) (Suc c)
           = Some (ucast v, Suc c + length (push_uleb (drop_bit (s + 7) v)))"
      using less.hyps [of "s + 7" "Suc c"] s7 a less.prems by simp
    then show ?thesis
      using g len less.prems(2) uleb_step [of s v]
      by (simp add: uleb_loop.simps [of data offset _ s c] pu low7_bits high_bit_set Let_def)
  qed
qed

lemma oracle_uleb_roundtrip:
  assumes "fits (pre @ push_uleb v @ post)"
  shows "oracle_read_uleb128 (pre @ push_uleb v @ post) (length pre) = Some (v, length (push_uleb v))"
proof -
  have "uleb_loop (pre @ push_uleb v @ post) (length pre) (take_bit 0 (ucast v)) 0 0
      = Some (ucast v, length (push_uleb v))"
    using uleb_loop_push_uleb [of "pre @ push_uleb v @ post" "length pre" 0 0 v] assms
    by (simp add: at_offI)
  moreover have "\<not> (ucast v :: u64) > 0xFFFFFFFF"
    using unat_u32_lt [of v] by (simp add: word_less_nat_alt unat_ucast_up)
  moreover have "ucast (ucast v :: u64) = v" by (rule bit_word_eqI) (simp add: bit_simps)
  ultimately show ?thesis by (simp add: oracle_read_uleb128_def)
qed

lemma uleb_loop_bound:
  "uleb_loop data offset r s c = Some (v, n) \<Longrightarrow> c < n \<and> offset + n \<le> length data"
proof (induction data offset r s c rule: uleb_loop.induct)
  case (1 data offset result shift consumed)
  from "1.prems" obtain b where s: "shift \<le> 28" "offset + consumed < 2 ^ 64"
    and b: "get_at data (offset + consumed) = Some b"
    by (subst (asm) uleb_loop.simps) (auto split: if_splits option.splits)
  show ?case
  proof (cases "b AND 0x80 = 0")
    case True
    with "1.prems" s b show ?thesis
      by (subst (asm) uleb_loop.simps) (auto simp: get_at_def Let_def split: if_splits)
  next
    case False
    with "1.prems" s b have "uleb_loop data offset (result OR push_bit shift (ucast (b AND 0x7F)))
        (shift + 7) (consumed + 1) = Some (v, n)"
      by (subst (asm) uleb_loop.simps) (simp add: Let_def)
    with "1.IH" [OF _ _ b refl False] s show ?thesis by force
  qed
qed

lemma push_uleb_length: "unat v < 2 ^ (7 * n) \<Longrightarrow> 0 < n \<Longrightarrow> length (push_uleb v) \<le> n"
proof (induction n arbitrary: v)
  case (Suc n)
  show ?case
  proof (cases "drop_bit 7 v = 0")
    case True
    then show ?thesis by (simp add: push_uleb.simps [of v] Let_def)
  next
    case False
    from Suc.prems(1) have d: "unat (drop_bit 7 v) < 2 ^ (7 * n)"
      by (simp add: drop_bit_eq_div unat_div less_mult_imp_div_less power_add mult.commute)
    with False have "0 < n" by (cases n) (auto simp: unat_eq_0)
    with d show ?thesis
      using Suc.IH [of "drop_bit 7 v"] by (simp add: push_uleb.simps [of v] Let_def)
  qed
qed simp

lemma push_uleb_bytes: "0 < length (push_uleb v) \<and> length (push_uleb v) \<le> 5"
proof
  show "0 < length (push_uleb v)" by (simp add: push_uleb.simps [of v] Let_def)
  have "unat v < 2 ^ (7 * 5)" using unat_u32_lt [of v] by simp
  then show "length (push_uleb v) \<le> 5" by (rule push_uleb_length) simp
qed

section \<open>SLEB128\<close>

text \<open>
  The loop keeps the bits read so far, the shift and the position; \<open>wrapping_shl\<close> never wraps
  because the loop stops at a shift of 35.
\<close>

function sleb_loop :: "byte list \<Rightarrow> u32 \<Rightarrow> nat \<Rightarrow> nat \<Rightarrow> (u32 \<times> nat \<times> nat \<times> byte) option" where
  "sleb_loop bytes result shift cur =
     (case get_at bytes cur of
        None \<Rightarrow> None
      | Some b \<Rightarrow>
          if cur + 1 \<ge> 2 ^ 64 then None
          else let result' = result OR push_bit (shift mod 32) (ucast (b AND 0x7F)); shift' = shift + 7
               in if b AND 0x80 = 0 \<or> shift' \<ge> 35 then Some (result', shift', cur + 1, b)
                  else sleb_loop bytes result' shift' (cur + 1))"
  by pat_completeness auto
termination by (relation "measure (\<lambda>(bytes, result, shift, cur). 35 - shift)") auto

declare sleb_loop.simps [simp del]

definition oracle_read_sleb128 :: "byte list \<Rightarrow> nat \<Rightarrow> (u32 \<times> nat) option" where
  "oracle_read_sleb128 bytes pos =
     (case sleb_loop bytes 0 0 pos of
        None \<Rightarrow> None
      | Some (result, shift, cur, terminal) \<Rightarrow>
          Some (if shift < 32 \<and> terminal AND 0x40 \<noteq> 0 then result OR push_bit shift (- 1) else result,
                cur))"

text \<open>The shortest signed encoding, from bit \<open>s\<close> on.\<close>

function sleb_bytes :: "u32 \<Rightarrow> nat \<Rightarrow> byte list" where
  "sleb_bytes v s =
     (let b = ucast (signed_drop_bit s v) AND 0x7F; r = signed_drop_bit (s + 7) v
      in if s \<ge> 28 \<or> r = 0 \<and> b AND 0x40 = 0 \<or> r = - 1 \<and> b AND 0x40 \<noteq> 0 then [b]
         else (b OR 0x80) # sleb_bytes v (s + 7))"
  by pat_completeness auto
termination by (relation "measure (\<lambda>(v, s). 35 - s)") auto

declare sleb_bytes.simps [simp del]

lemma sleb_low_bits:
  "((b :: byte) AND 0x7F) AND 0x7F = b AND 0x7F"
  "((b AND 0x7F) OR 0x80) AND 0x7F = b AND 0x7F"
  "(b AND 0x7F) AND 0x80 = 0"
  "((b AND 0x7F) OR 0x80) AND 0x40 = b AND 0x40"
  "(b AND 0x7F) AND 0x40 = b AND 0x40"
  by (rule bit_word_eqI, auto simp: bit_simps)+

lemma sleb_step:
  "s + 7 \<le> 35 \<Longrightarrow> take_bit s v OR push_bit s (ucast ((ucast (signed_drop_bit s v) :: byte) AND 0x7F))
     = take_bit (s + 7) (v :: u32)"
  by (rule bit_word_eqI) (auto simp: bit_simps)

lemma signed_drop_bit_cases:
  fixes v :: u32
  assumes "s \<le> 21"
  shows "signed_drop_bit (s + 7) v = 0 \<Longrightarrow> take_bit (s + 7) v = v"
    and "signed_drop_bit (s + 7) v = - 1 \<Longrightarrow> take_bit (s + 7) v OR push_bit (s + 7) (- 1) = v"
proof -
  have b: "bit v n = bit (signed_drop_bit (s + 7) v) (n - (s + 7))" if "s + 7 \<le> n" "n < 32" for n
    using that by (auto simp: bit_simps)
  show "take_bit (s + 7) v = v" if "signed_drop_bit (s + 7) v = 0"
  proof (rule bit_word_eqI)
    show "bit (take_bit (s + 7) v) n = bit v n" if "n < LENGTH(32)" for n
      using b [of n] that \<open>signed_drop_bit (s + 7) v = 0\<close>
      by (cases "n < s + 7") (simp_all add: bit_take_bit_iff)
  qed
  show "take_bit (s + 7) v OR push_bit (s + 7) (- 1) = v" if "signed_drop_bit (s + 7) v = - 1"
    by (rule bit_word_eqI) (use b that in \<open>auto simp: bit_simps not_less\<close>)
qed

text \<open>What the reader makes of its loop's result.\<close>

definition sleb_finish :: "u32 \<Rightarrow> nat \<Rightarrow> byte \<Rightarrow> u32" where
  "sleb_finish result shift terminal =
     (if shift < 32 \<and> terminal AND 0x40 \<noteq> 0 then result OR push_bit shift (- 1) else result)"

lemma multiple7_lt28: "7 dvd (s :: nat) \<Longrightarrow> \<not> 28 \<le> s \<Longrightarrow> s + 7 \<le> 28"
  by (elim dvdE) arith

lemma sleb_loop_sleb_bytes:
  assumes "at_off data cur (sleb_bytes v s)" and "s \<le> 28" and "7 dvd s" and "fits data"
  shows "\<exists>r sh t. sleb_loop data (take_bit s v) s cur = Some (r, sh, cur + length (sleb_bytes v s), t)
           \<and> sleb_finish r sh t = v"
  using assms
proof (induction "35 - s" arbitrary: s cur rule: less_induct)
  case less
  let ?b = "(ucast (signed_drop_bit s v) :: byte) AND 0x7F"
  let ?r = "signed_drop_bit (s + 7) v"
  let ?last = "s \<ge> 28 \<or> ?r = 0 \<and> ?b AND 0x40 = 0 \<or> ?r = - 1 \<and> ?b AND 0x40 \<noteq> 0"
  have ne: "sleb_bytes v s \<noteq> []" by (subst sleb_bytes.simps) (simp add: Let_def)
  then have len: "cur + 1 < 2 ^ 64" and hd: "get_at data cur = Some (sleb_bytes v s ! 0)"
    using less.prems(1,4) at_off_nth [OF less.prems(1), of 0]
    by (cases "sleb_bytes v s", auto simp: at_off_def fits_def get_at_def)+
  have s: "s mod 32 = s" "s < 32" using less.prems(2) by auto
  have step: "take_bit s v OR push_bit s (ucast ?b) = take_bit (s + 7) v"
    using sleb_step [of s v] less.prems(2) by simp
  show ?case
  proof (cases ?last)
    case True
    then have sb: "sleb_bytes v s = [?b]" by (subst sleb_bytes.simps) (simp only: Let_def if_True)
    have l: "sleb_loop data (take_bit s v) s cur = Some (take_bit (s + 7) v, s + 7, cur + 1, ?b)"
      using hd len s(1) step by (subst sleb_loop.simps) (simp add: sb sleb_low_bits Let_def)
    have "sleb_finish (take_bit (s + 7) v) (s + 7) ?b = v"
    proof (cases "s = 28")
      case True
      then show ?thesis by (simp add: sleb_finish_def take_bit_word_eq_self)
    next
      case False
      with less.prems(2,3) have "s \<le> 21" by (elim dvdE) arith
      with True False show ?thesis
        using signed_drop_bit_cases [of s v] by (auto simp: sleb_finish_def)
    qed
    with l show ?thesis by (simp add: sb)
  next
    case False
    with less.prems(2,3) have s7: "s + 7 \<le> 28" using multiple7_lt28 by blast
    from False have sb: "sleb_bytes v s = (?b OR 0x80) # sleb_bytes v (s + 7)"
      by (subst sleb_bytes.simps) (simp only: Let_def if_False)
    have l: "sleb_loop data (take_bit s v) s cur = sleb_loop data (take_bit (s + 7) v) (s + 7) (cur + 1)"
      using hd len s(1) step s7
      by (subst sleb_loop.simps) (simp add: sb sleb_low_bits high_bit_set Let_def)
    have "at_off data (cur + 1) (sleb_bytes v (s + 7))"
      using less.prems(1) at_off_append [of data cur "[?b OR 0x80]" "sleb_bytes v (s + 7)"] by (simp add: sb)
    then show ?thesis
      using less.hyps [of "s + 7" "cur + 1"] s7 less.prems by (simp add: l sb)
  qed
qed

lemma oracle_sleb_roundtrip:
  assumes "fits (pre @ sleb_bytes v 0 @ post)"
  shows "oracle_read_sleb128 (pre @ sleb_bytes v 0 @ post) (length pre)
           = Some (v, length pre + length (sleb_bytes v 0))"
  using sleb_loop_sleb_bytes [of "pre @ sleb_bytes v 0 @ post" "length pre" v 0] assms
  by (auto simp: oracle_read_sleb128_def sleb_finish_def at_offI)

lemma sleb_loop_bound:
  "sleb_loop data r s c = Some (v, sh, n, t) \<Longrightarrow> c < n \<and> n \<le> length data"
proof (induction data r s c rule: sleb_loop.induct)
  case (1 bytes result shift cur)
  from "1.prems" obtain b where s: "\<not> cur + 1 \<ge> 2 ^ 64" and b: "get_at bytes cur = Some b"
    by (subst (asm) sleb_loop.simps) (auto split: if_splits option.splits)
  let ?r = "result OR push_bit (shift mod 32) (ucast (b AND 0x7F))"
  show ?case
  proof (cases "b AND 0x80 = 0 \<or> shift + 7 \<ge> 35")
    case True
    with "1.prems" s b show ?thesis
      by (subst (asm) sleb_loop.simps) (auto simp: get_at_def Let_def split: if_splits)
  next
    case False
    with "1.prems" s b have "sleb_loop bytes ?r (shift + 7) (cur + 1) = Some (v, sh, n, t)"
      by (subst (asm) sleb_loop.simps) (simp add: Let_def)
    with "1.IH" [OF b s refl refl False] show ?thesis by force
  qed
qed

lemma uleb_loop_local:
  "uleb_loop data off r s c = Some (v, n) \<Longrightarrow> fits data' \<Longrightarrow> off' + n \<le> length data' \<Longrightarrow>
   (\<And>i. c \<le> i \<Longrightarrow> i < n \<Longrightarrow> data' ! (off' + i) = data ! (off + i)) \<Longrightarrow> uleb_loop data' off' r s c = Some (v, n)"
proof (induction data off r s c rule: uleb_loop.induct)
  case (1 data off result shift consumed)
  from "1.prems"(1) obtain b where s: "\<not> shift > 28" "\<not> off + consumed \<ge> 2 ^ 64"
    and b: "get_at data (off + consumed) = Some b"
    by (subst (asm) uleb_loop.simps) (auto split: if_splits option.splits)
  have c: "consumed < n" using uleb_loop_bound [OF "1.prems"(1)] by simp
  have b': "get_at data' (off' + consumed) = Some b" "\<not> off' + consumed \<ge> 2 ^ 64"
    using "1.prems"(2, 3) "1.prems"(4) [of consumed] c b by (auto simp: get_at_def fits_def split: if_splits)
  show ?case
  proof (cases "b AND 0x80 = 0")
    case True
    with "1.prems"(1) s b b' show ?thesis by (simp add: uleb_loop.simps Let_def)
  next
    case False
    let ?r = "result OR push_bit shift (ucast (b AND 0x7F))"
    have e: "uleb_loop data off result shift consumed = uleb_loop data off ?r (shift + 7) (consumed + 1)"
      "uleb_loop data' off' result shift consumed = uleb_loop data' off' ?r (shift + 7) (consumed + 1)"
      by (subst uleb_loop.simps, simp add: s b b' False Let_def)+
    show ?thesis unfolding e(2)
      by (rule "1.IH" [OF s b refl False "1.prems"(1) [unfolded e(1)] "1.prems"(2, 3)]) (use "1.prems"(4) in auto)
  qed
qed

lemma sleb_loop_local:
  "sleb_loop data r s (off + c) = Some (v, sh, off + n, t) \<Longrightarrow> fits data' \<Longrightarrow> off' + n \<le> length data' \<Longrightarrow>
   (\<And>i. c \<le> i \<Longrightarrow> i < n \<Longrightarrow> data' ! (off' + i) = data ! (off + i)) \<Longrightarrow> sleb_loop data' r s (off' + c) = Some (v, sh, off' + n, t)"
proof (induction data r s "off + c" arbitrary: c rule: sleb_loop.induct)
  case (1 data result shift)
  from "1.prems"(1) obtain b where s: "\<not> off + c + 1 \<ge> 2 ^ 64" and b: "get_at data (off + c) = Some b"
    by (subst (asm) sleb_loop.simps) (auto split: if_splits option.splits)
  have c: "c < n" using sleb_loop_bound [OF "1.prems"(1)] by simp
  have b': "get_at data' (off' + c) = Some b" "\<not> off' + c + 1 \<ge> 2 ^ 64"
    using "1.prems"(2, 3) "1.prems"(4) [of c] c b by (auto simp: get_at_def fits_def split: if_splits)
  let ?r = "result OR push_bit (shift mod 32) (ucast (b AND 0x7F))"
  show ?case
  proof (cases "b AND 0x80 = 0 \<or> shift + 7 \<ge> 35")
    case True
    have "sleb_loop data result shift (off + c) = Some (?r, shift + 7, off + c + 1, b)"
      "sleb_loop data' result shift (off' + c) = Some (?r, shift + 7, off' + c + 1, b)"
      by (subst sleb_loop.simps, simp only: b b' s Let_def option.case if_not_P [OF s] if_not_P [OF b'(2)] if_P [OF True] if_False)+
    with "1.prems"(1) show ?thesis by auto
  next
    case False
    have e: "sleb_loop data result shift (off + c) = sleb_loop data ?r (shift + 7) (off + (c + 1))"
      using s b False by (subst sleb_loop.simps) (simp add: Let_def)
    have e': "sleb_loop data' result shift (off' + c) = sleb_loop data' ?r (shift + 7) (off' + (c + 1))"
      using b' False by (subst sleb_loop.simps) (simp add: Let_def)
    show ?thesis unfolding e'
      by (rule "1.hyps" [OF b s refl refl False _ "1.prems"(1) [unfolded e] "1.prems"(2, 3)]) (use "1.prems"(4) in auto)
  qed
qed

lemma sleb_bytes_length: "s \<le> 28 \<Longrightarrow> 7 dvd s \<Longrightarrow> 0 < length (sleb_bytes v s) \<and> 7 * length (sleb_bytes v s) + s \<le> 35"
proof (induction v s rule: sleb_bytes.induct)
  case (1 v s)
  show ?case
  proof (cases "length (sleb_bytes v s) = 1")
    case True
    with "1.prems" show ?thesis by simp
  next
    case False
    then have n: "\<not> (s \<ge> 28 \<or> signed_drop_bit (s + 7) v = 0 \<and> (ucast (signed_drop_bit s v) AND 0x7F :: byte) AND 0x40 = 0
         \<or> signed_drop_bit (s + 7) v = - 1 \<and> (ucast (signed_drop_bit s v) AND 0x7F :: byte) AND 0x40 \<noteq> 0)"
      by (subst (asm) sleb_bytes.simps) (auto simp: Let_def split: if_splits)
    then have "length (sleb_bytes v s) = Suc (length (sleb_bytes v (s + 7)))"
      by (subst sleb_bytes.simps) (simp only: Let_def if_False list.size)
    moreover have "s + 7 \<le> 28" using n "1.prems" multiple7_lt28 by blast
    ultimately show ?thesis
      using "1.IH" [OF refl refl n] "1.prems" by simp
  qed
qed

section \<open>The interpretation\<close>

text \<open>Adler-32 of RFC 1950: two sums modulo 65521.\<close>

definition adler32 :: "byte list \<Rightarrow> u32" where
  "adler32 bs =
     (let (a, b) = foldl (\<lambda>(a, b) c. let a' = (a + unat c) mod 65521 in (a', (b + a') mod 65521)) (1, 0) bs
      in of_nat (b * 65536 + a))"

definition std_deps :: "(byte list \<Rightarrow> byte list) \<Rightarrow> deps" where
  "std_deps digest =
     \<lparr>pread_u8 = get_at, pread_u16 = read_u16_le, pread_u32 = read_le_u32,
      common_read_uleb128 = oracle_read_uleb128,
      common_read_sleb128 =
        (\<lambda>data pos. case oracle_read_sleb128 data pos of
                      None \<Rightarrow> None | Some (v, cur) \<Rightarrow> Some (v, cur - pos)),
      common_write_uleb128 = push_uleb,
      common_write_sleb128 = (\<lambda>v. sleb_bytes v 0),
      common_bound_count = oracle_bound_count,
      adler32_slice = adler32,
      sha1_digest = digest\<rparr>"

text \<open>The LEB128 readers look at the bytes they consume only.\<close>

lemma std_uleb_local:
  assumes "common_read_uleb128 (std_deps h) data off = Some (v, n)" "fits data'" "at_off data' off' (take n (drop off data))"
  shows "common_read_uleb128 (std_deps h) data' off' = Some (v, n)"
proof -
  obtain r where r: "uleb_loop data off 0 0 0 = Some (r, n)" "\<not> r > 0xFFFFFFFF" "v = ucast r"
    using assms(1) by (auto simp: std_deps_def oracle_read_uleb128_def split: option.splits if_splits)
  have "off + n \<le> length data" using uleb_loop_bound [OF r(1)] by simp
  from slice_nth [OF this assms(3)] uleb_loop_local [OF r(1) assms(2)] r show ?thesis
    by (simp add: std_deps_def oracle_read_uleb128_def)
qed

lemma std_sleb_local:
  assumes "common_read_sleb128 (std_deps h) data off = Some (v, n)" "fits data'" "at_off data' off' (take n (drop off data))"
  shows "common_read_sleb128 (std_deps h) data' off' = Some (v, n)"
proof -
  obtain r sh cur t where r: "sleb_loop data 0 0 off = Some (r, sh, cur, t)" "n = cur - off"
    "v = (if sh < 32 \<and> t AND 0x40 \<noteq> 0 then r OR push_bit sh (- 1) else r)"
    using assms(1) by (auto simp: std_deps_def oracle_read_sleb128_def split: option.splits if_splits)
  note b = sleb_loop_bound [OF r(1)]
  then have n: "cur = off + n" "off + n \<le> length data" using r(2) by auto
  have "sleb_loop data' 0 0 (off' + 0) = Some (r, sh, off' + n, t)"
    using slice_nth [OF n(2) assms(3)] sleb_loop_local [of data 0 0 off 0 r sh n t data' off'] r(1) [unfolded n(1)] assms(2) by simp
  then show ?thesis unfolding r(3) by (simp add: std_deps_def oracle_read_sleb128_def)
qed

interpretation std: dex_deps "std_deps digest" for digest
proof unfold_locales
  fix data :: "byte list" and off v n got stride len :: nat and w :: u32
  show "off < length data \<Longrightarrow> pread_u8 (std_deps digest) data off = Some (data ! off)"
    by (simp add: std_deps_def get_at_def)
  show "length data \<le> off \<Longrightarrow> pread_u8 (std_deps digest) data off = None"
    by (simp add: std_deps_def get_at_def)
  show "fits data \<Longrightarrow> off + 2 \<le> length data \<Longrightarrow>
      pread_u16 (std_deps digest) data off = Some (u16_of_le (data ! off) (data ! (off + 1)))"
    by (auto simp: std_deps_def read_u16_le_def fits_def)
  show "length data < off + 2 \<Longrightarrow> pread_u16 (std_deps digest) data off = None"
    by (auto simp: std_deps_def read_u16_le_def)
  show "fits data \<Longrightarrow> off + 4 \<le> length data \<Longrightarrow> pread_u32 (std_deps digest) data off
      = Some (u32_of_le (data ! off) (data ! (off + 1)) (data ! (off + 2)) (data ! (off + 3)))"
    by (auto simp: std_deps_def read_le_u32_def fits_def get_range_def)
  show "length data < off + 4 \<Longrightarrow> pread_u32 (std_deps digest) data off = None"
    by (auto simp: std_deps_def read_le_u32_def get_range_def)
  show "0 < stride \<Longrightarrow> len < 2 ^ 63 \<Longrightarrow> got * stride \<le> len \<Longrightarrow>
      common_bound_count (std_deps digest) got stride len = Some got"
    by (auto simp: std_deps_def oracle_bound_count_def)
  show "0 < stride \<Longrightarrow> len < got * stride \<Longrightarrow>
      common_bound_count (std_deps digest) got stride len = None"
    by (auto simp: std_deps_def oracle_bound_count_def)
next
  fix pre post data :: "byte list" and v :: u32 and off n :: nat
  show "fits (pre @ common_write_uleb128 (std_deps digest) v @ post) \<Longrightarrow>
      common_read_uleb128 (std_deps digest) (pre @ common_write_uleb128 (std_deps digest) v @ post) (length pre)
      = Some (v, length (common_write_uleb128 (std_deps digest) v))"
    by (simp add: std_deps_def oracle_uleb_roundtrip)
  show "fits (pre @ common_write_sleb128 (std_deps digest) v @ post) \<Longrightarrow>
      common_read_sleb128 (std_deps digest) (pre @ common_write_sleb128 (std_deps digest) v @ post) (length pre)
      = Some (v, length (common_write_sleb128 (std_deps digest) v))"
    by (simp add: std_deps_def oracle_sleb_roundtrip)
  show "0 < length (common_write_uleb128 (std_deps digest) v)
      \<and> length (common_write_uleb128 (std_deps digest) v) \<le> 5"
    using push_uleb_bytes by (simp add: std_deps_def)
  show "0 < length (common_write_sleb128 (std_deps digest) v)
      \<and> length (common_write_sleb128 (std_deps digest) v) \<le> 5"
    using sleb_bytes_length [of 0 v] by (simp add: std_deps_def)
  show "common_read_uleb128 (std_deps digest) data off = Some (v, n) \<Longrightarrow> 0 < n \<and> off + n \<le> length data"
    by (auto simp: std_deps_def oracle_read_uleb128_def dest: uleb_loop_bound split: option.splits if_splits)
  show "common_read_sleb128 (std_deps digest) data off = Some (v, n) \<Longrightarrow> 0 < n \<and> off + n \<le> length data"
    by (auto simp: std_deps_def oracle_read_sleb128_def dest!: sleb_loop_bound split: option.splits if_splits)
next
  fix data data' :: "byte list" and v :: u32 and off off' n :: nat
  show "common_read_uleb128 (std_deps digest) data off = Some (v, n) \<Longrightarrow> fits data' \<Longrightarrow>
      at_off data' off' (take n (drop off data)) \<Longrightarrow> common_read_uleb128 (std_deps digest) data' off' = Some (v, n)"
    by (rule std_uleb_local)
  show "common_read_sleb128 (std_deps digest) data off = Some (v, n) \<Longrightarrow> fits data' \<Longrightarrow>
      at_off data' off' (take n (drop off data)) \<Longrightarrow> common_read_sleb128 (std_deps digest) data' off' = Some (v, n)"
    by (rule std_sleb_local)
qed

end
