(* ===== verification/Dex_Header.thy ===== *)
theory Dex_Header
  imports Dex_Oracle_Io
begin

text \<open>
  The file header: the reader of \<open>src/src/header.rs\<close>, the writer \<open>emit_header\<close> and the hash
  step \<open>finalize_checksums\<close> of \<open>src/src/emit_dex.rs\<close>. The header that was written is the header
  that is read, a parsed header has the canonical magic, size and endian tag, and a finalized file
  passes the checksum verification.
\<close>

section \<open>Reading\<close>

definition HEADER_SIZE :: nat where "HEADER_SIZE = 112"
definition CANONICAL_HEADER_SIZE :: u32 where "CANONICAL_HEADER_SIZE = 0x70"
definition DEX_MAGIC :: "byte list" where "DEX_MAGIC = [0x64, 0x65, 0x78, 0x0A]"
definition ENDIAN_CONSTANT :: u32 where "ENDIAN_CONSTANT = 0x12345678"
definition SUPPORTED_VERSIONS :: "byte list list" where
  "SUPPORTED_VERSIONS =
     [[0x30, 0x33, 0x35], [0x30, 0x33, 0x37], [0x30, 0x33, 0x38],
      [0x30, 0x33, 0x39], [0x30, 0x34, 0x30], [0x30, 0x34, 0x31]]"

lemmas header_consts = HEADER_SIZE_def CANONICAL_HEADER_SIZE_def DEX_MAGIC_def ENDIAN_CONSTANT_def

definition validate_endian_tag :: "u32 \<Rightarrow> DexError + unit" where
  "validate_endian_tag tag = (if tag = ENDIAN_CONSTANT then Inr () else Inl (BadEndianTag tag))"

record DexHeader =
  magic :: "byte list"
  checksum :: u32
  signature :: "byte list"
  file_size :: u32
  header_size :: u32
  endian_tag :: u32
  link_size :: u32
  link_off :: u32
  map_off :: u32
  string_ids_size :: u32
  string_ids_off :: u32
  type_ids_size :: u32
  type_ids_off :: u32
  proto_ids_size :: u32
  proto_ids_off :: u32
  field_ids_size :: u32
  field_ids_off :: u32
  method_ids_size :: u32
  method_ids_off :: u32
  class_defs_size :: u32
  class_defs_off :: u32
  data_size :: u32
  data_off :: u32

text \<open>The section table, read after the gates have passed.\<close>

definition parse_sections ::
  "deps \<Rightarrow> byte list \<Rightarrow> byte list \<Rightarrow> u32 \<Rightarrow> byte list \<Rightarrow> u32 \<Rightarrow> u32 \<Rightarrow> u32 \<Rightarrow> DexError + DexHeader" where
  "parse_sections D data mg ck sg fsz hsz etag =
     bindE (read_u32 D data 44) (\<lambda>ls. bindE (read_u32 D data 48) (\<lambda>lo.
     bindE (read_u32 D data 52) (\<lambda>mo.
     bindE (read_u32 D data 56) (\<lambda>ss. bindE (read_u32 D data 60) (\<lambda>so.
     bindE (read_u32 D data 64) (\<lambda>ts. bindE (read_u32 D data 68) (\<lambda>to.
     bindE (read_u32 D data 72) (\<lambda>ps. bindE (read_u32 D data 76) (\<lambda>po.
     bindE (read_u32 D data 80) (\<lambda>fs. bindE (read_u32 D data 84) (\<lambda>fo.
     bindE (read_u32 D data 88) (\<lambda>ms. bindE (read_u32 D data 92) (\<lambda>mto.
     bindE (read_u32 D data 96) (\<lambda>cs. bindE (read_u32 D data 100) (\<lambda>co.
     bindE (read_u32 D data 104) (\<lambda>ds. bindE (read_u32 D data 108) (\<lambda>do'.
       Inr \<lparr>magic = mg, checksum = ck, signature = sg, file_size = fsz, header_size = hsz,
            endian_tag = etag, link_size = ls, link_off = lo, map_off = mo,
            string_ids_size = ss, string_ids_off = so, type_ids_size = ts, type_ids_off = to,
            proto_ids_size = ps, proto_ids_off = po, field_ids_size = fs, field_ids_off = fo,
            method_ids_size = ms, method_ids_off = mto, class_defs_size = cs, class_defs_off = co,
            data_size = ds, data_off = do'\<rparr>)))))))))))))))))"

definition parse :: "deps \<Rightarrow> byte list \<Rightarrow> DexError + DexHeader" where
  "parse D data =
     (if length data < HEADER_SIZE then Inl (Truncated 0 HEADER_SIZE (length data))
      else case get_range data 0 8 of
        None \<Rightarrow> Inl (Truncated 0 HEADER_SIZE (length data))
      | Some mg \<Rightarrow>
          if take 4 mg \<noteq> DEX_MAGIC then Inl (BadMagic (take 4 mg))
          else if take 3 (drop 4 mg) \<notin> set SUPPORTED_VERSIONS
            then Inl (UnsupportedVersion (take 3 (drop 4 mg)))
          else if mg ! 7 \<noteq> 0 then Inl (BadMagic (take 4 mg))
          else bindE (read_u32 D data 8) (\<lambda>ck.
            case get_range data 12 32 of
              None \<Rightarrow> Inl (Truncated 12 20 (length data - 12))
            | Some sg \<Rightarrow>
                bindE (read_u32 D data 32) (\<lambda>fsz.
                bindE (read_u32 D data 36) (\<lambda>hsz.
                if hsz \<noteq> CANONICAL_HEADER_SIZE then Inl (InvalidHeaderSize hsz)
                else bindE (read_u32 D data 40) (\<lambda>etag.
                bindE (validate_endian_tag etag) (\<lambda>_.
                parse_sections D data mg ck sg fsz hsz etag))))))"

definition version :: "DexHeader \<Rightarrow> byte list" where
  "version h = take 3 (drop 4 (magic h))"

definition verify_checksum :: "deps \<Rightarrow> DexHeader \<Rightarrow> byte list \<Rightarrow> DexError + unit" where
  "verify_checksum D h data =
     (let end = unat (file_size h)
      in if end > length data then Inl (Truncated 0 end (length data))
         else if end < 12 then Inl (Truncated 0 12 end)
         else case get_range data 12 end of
           None \<Rightarrow> Inl (Truncated 12 (end - 12) (length data - 12))
         | Some checksum_input \<Rightarrow>
             let computed = adler32_slice D checksum_input
             in if computed \<noteq> checksum h then Inl (ChecksumMismatch (checksum h) computed)
                else Inr ())"

section \<open>Writing\<close>

record HeaderLayout =
  hl_version :: "byte list"
  hl_file_size :: u32
  hl_map_off :: u32
  hl_string_ids_size :: u32
  hl_string_ids_off :: u32
  hl_type_ids_size :: u32
  hl_type_ids_off :: u32
  hl_proto_ids_size :: u32
  hl_proto_ids_off :: u32
  hl_field_ids_size :: u32
  hl_field_ids_off :: u32
  hl_method_ids_size :: u32
  hl_method_ids_off :: u32
  hl_class_defs_size :: u32
  hl_class_defs_off :: u32
  hl_data_size :: u32
  hl_data_off :: u32

definition DEX_HEADER_SIZE :: u32 where "DEX_HEADER_SIZE = 112"
definition DEX_ENDIAN_TAG :: u32 where "DEX_ENDIAN_TAG = 0x12345678"

definition emit_header :: "HeaderLayout \<Rightarrow> byte list" where
  "emit_header layout =
     [0x64, 0x65, 0x78, 0x0A] @ hl_version layout @ [0x00]
     @ replicate 4 0 @ replicate 20 0
     @ u32_to_le (hl_file_size layout) @ u32_to_le DEX_HEADER_SIZE @ u32_to_le DEX_ENDIAN_TAG
     @ u32_to_le 0 @ u32_to_le 0
     @ u32_to_le (hl_map_off layout)
     @ u32_to_le (hl_string_ids_size layout) @ u32_to_le (hl_string_ids_off layout)
     @ u32_to_le (hl_type_ids_size layout) @ u32_to_le (hl_type_ids_off layout)
     @ u32_to_le (hl_proto_ids_size layout) @ u32_to_le (hl_proto_ids_off layout)
     @ u32_to_le (hl_field_ids_size layout) @ u32_to_le (hl_field_ids_off layout)
     @ u32_to_le (hl_method_ids_size layout) @ u32_to_le (hl_method_ids_off layout)
     @ u32_to_le (hl_class_defs_size layout) @ u32_to_le (hl_class_defs_off layout)
     @ u32_to_le (hl_data_size layout) @ u32_to_le (hl_data_off layout)"

definition finalize_checksums :: "deps \<Rightarrow> byte list \<Rightarrow> DexEmitError + byte list" where
  "finalize_checksums D bytes =
     (if length bytes < 32
      then Inl (OffsetOverflow ''header'' ''finalize_checksums: file shorter than 32 bytes (can't fit magic + checksum + signature fields)'')
      else let digest = sha1_digest D (drop 32 bytes);
               signed = take 12 bytes @ digest @ drop 32 bytes;
               ck = adler32_slice D (drop 12 signed)
           in Inr (take 8 signed @ u32_to_le ck @ drop 12 signed))"

text \<open>The header a layout stands for, with given hash fields.\<close>

definition layout_header :: "HeaderLayout \<Rightarrow> u32 \<Rightarrow> byte list \<Rightarrow> DexHeader" where
  "layout_header l ck sg =
     \<lparr>magic = DEX_MAGIC @ hl_version l @ [0], checksum = ck, signature = sg,
      file_size = hl_file_size l, header_size = CANONICAL_HEADER_SIZE, endian_tag = ENDIAN_CONSTANT,
      link_size = 0, link_off = 0, map_off = hl_map_off l,
      string_ids_size = hl_string_ids_size l, string_ids_off = hl_string_ids_off l,
      type_ids_size = hl_type_ids_size l, type_ids_off = hl_type_ids_off l,
      proto_ids_size = hl_proto_ids_size l, proto_ids_off = hl_proto_ids_off l,
      field_ids_size = hl_field_ids_size l, field_ids_off = hl_field_ids_off l,
      method_ids_size = hl_method_ids_size l, method_ids_off = hl_method_ids_off l,
      class_defs_size = hl_class_defs_size l, class_defs_off = hl_class_defs_off l,
      data_size = hl_data_size l, data_off = hl_data_off l\<rparr>"

section \<open>What is written is read\<close>

lemma supported_version_length: "v \<in> set SUPPORTED_VERSIONS \<Longrightarrow> length v = 3"
  by (auto simp: SUPPORTED_VERSIONS_def)

lemma emit_header_length: "length (hl_version l) = 3 \<Longrightarrow> length (emit_header l) = 112"
  by (simp add: emit_header_def)

lemma get_range_at: "at_off data a xs \<Longrightarrow> b = a + length xs \<Longrightarrow> get_range data a b = Some xs"
  by (simp add: at_off_def get_range_def)

text \<open>The bytes of a header whose hash fields hold \<open>ck\<close> and \<open>sg\<close>, in the three pieces the
  parser looks at: magic, hash fields, section table.\<close>

definition header_tail :: "HeaderLayout \<Rightarrow> byte list" where
  "header_tail l = drop 32 (emit_header l)"

lemma emit_header_split:
  "length (hl_version l) = 3 \<Longrightarrow>
   emit_header l = (DEX_MAGIC @ hl_version l @ [0]) @ u32_to_le 0 @ replicate 20 0 @ header_tail l"
  by (simp add: header_tail_def emit_header_def DEX_MAGIC_def u32_to_le_def)
    (simp add: eval_nat_numeral)

lemma header_tail_at:
  assumes "at_off data 32 (header_tail l)" and "length (hl_version l) = 3"
  shows "at_off data 32 (u32_to_le (hl_file_size l)) \<and> at_off data 36 (u32_to_le DEX_HEADER_SIZE)
    \<and> at_off data 40 (u32_to_le DEX_ENDIAN_TAG) \<and> at_off data 44 (u32_to_le 0)
    \<and> at_off data 48 (u32_to_le 0) \<and> at_off data 52 (u32_to_le (hl_map_off l))
    \<and> at_off data 56 (u32_to_le (hl_string_ids_size l)) \<and> at_off data 60 (u32_to_le (hl_string_ids_off l))
    \<and> at_off data 64 (u32_to_le (hl_type_ids_size l)) \<and> at_off data 68 (u32_to_le (hl_type_ids_off l))
    \<and> at_off data 72 (u32_to_le (hl_proto_ids_size l)) \<and> at_off data 76 (u32_to_le (hl_proto_ids_off l))
    \<and> at_off data 80 (u32_to_le (hl_field_ids_size l)) \<and> at_off data 84 (u32_to_le (hl_field_ids_off l))
    \<and> at_off data 88 (u32_to_le (hl_method_ids_size l)) \<and> at_off data 92 (u32_to_le (hl_method_ids_off l))
    \<and> at_off data 96 (u32_to_le (hl_class_defs_size l)) \<and> at_off data 100 (u32_to_le (hl_class_defs_off l))
    \<and> at_off data 104 (u32_to_le (hl_data_size l)) \<and> at_off data 108 (u32_to_le (hl_data_off l))"
  using assms by (simp add: header_tail_def emit_header_def at_off_append)

text \<open>Hashing the file keeps everything from byte 32 on and the magic.\<close>

lemma finalize_bytes:
  assumes "length (sha1_digest D (drop 32 bytes)) = 20" and "32 \<le> length bytes"
    and "finalize_checksums D bytes = Inr out"
  shows "length out = length bytes \<and> take 8 out = take 8 bytes \<and> drop 32 out = drop 32 bytes
    \<and> at_off out 8 (u32_to_le (adler32_slice D (drop 12 out)))
    \<and> at_off out 12 (sha1_digest D (drop 32 out))"
  using assms by (auto simp: finalize_checksums_def Let_def at_off_def min_def)

context dex_deps
begin

lemma parse_layout:
  assumes fits: "fits data" and v: "hl_version l \<in> set SUPPORTED_VERSIONS"
    and at: "at_off data 0 (DEX_MAGIC @ hl_version l @ [0])" "at_off data 8 (u32_to_le ck)"
      "at_off data 12 sg" "at_off data 32 (header_tail l)"
    and sg: "length sg = 20"
  shows "parse D data = Inr (layout_header l ck sg)"
proof -
  note len3 = supported_version_length [OF v]
  note t = header_tail_at [OF at(4) len3, simplified]
  note r = read_u32_at [OF fits]
  have "length (header_tail l) = 80"
    by (simp add: header_tail_def emit_header_length [OF len3])
  with at(4) have "length data \<ge> 112" by (simp add: at_off_def)
  moreover have "get_range data 0 8 = Some (DEX_MAGIC @ hl_version l @ [0])"
    by (rule get_range_at [OF at(1)]) (simp add: DEX_MAGIC_def len3)
  moreover have "get_range data 12 32 = Some sg"
    by (rule get_range_at [OF at(3)]) (simp add: sg)
  moreover have "parse_sections D data mg ck sg' fsz hsz etag
      = Inr ((layout_header l ck sg')\<lparr>magic := mg, file_size := fsz, header_size := hsz, endian_tag := etag\<rparr>)"
    for mg sg' fsz hsz etag
    unfolding parse_sections_def layout_header_def using t by (simp add: r)
  ultimately show ?thesis
    using t v at(2) by (simp add: parse_def header_consts len3 r DEX_HEADER_SIZE_def DEX_ENDIAN_TAG_def
        validate_endian_tag_def layout_header_def nth_append)
qed

text \<open>On a buffer of at least the header's size only the gates decide.\<close>

lemma parse_gates:
  assumes "fits data"
  shows "(\<exists>h. parse D data = Inr h) \<longleftrightarrow>
    112 \<le> length data \<and> take 4 data = DEX_MAGIC \<and> take 3 (drop 4 data) \<in> set SUPPORTED_VERSIONS
    \<and> data ! 7 = 0 \<and> u32_at data 36 = CANONICAL_HEADER_SIZE \<and> u32_at data 40 = ENDIAN_CONSTANT"
proof (cases "112 \<le> length data")
  case True
  then have r: "off \<le> 108 \<Longrightarrow> read_u32 D data off = Inr (u32_at data off)" for off
    using read_u32_in [OF assms, of off] by simp
  have g: "get_range data 0 8 = Some (take 8 data)" "get_range data 12 32 = Some (take 20 (drop 12 data))"
    using True by (simp_all add: get_range_def)
  have "\<exists>h. parse_sections D data mg ck sg fsz hsz etag = Inr h" for mg ck sg fsz hsz etag
    by (simp add: parse_sections_def r)
  then show ?thesis
    using True by (auto simp: parse_def HEADER_SIZE_def g r validate_endian_tag_def take_drop min_def)
qed (simp add: parse_def HEADER_SIZE_def)

lemma header_words:
  assumes "fits data" and "parse D data = Inr h"
  shows "112 \<le> length data \<and> magic h = take 8 data \<and> checksum h = u32_at data 8
    \<and> signature h = take 20 (drop 12 data) \<and> file_size h = u32_at data 32
    \<and> header_size h = CANONICAL_HEADER_SIZE \<and> endian_tag h = ENDIAN_CONSTANT
    \<and> version h \<in> set SUPPORTED_VERSIONS"
proof -
  have len: "112 \<le> length data" using parse_gates [OF assms(1)] assms(2) by blast
  then have r: "off \<le> 108 \<Longrightarrow> read_u32 D data off = Inr (u32_at data off)" for off
    using read_u32_in [OF assms(1), of off] by simp
  have g: "get_range data 0 8 = Some (take 8 data)" "get_range data 12 32 = Some (take 20 (drop 12 data))"
    using len by (simp_all add: get_range_def)
  show ?thesis
    using assms(2) len by (auto simp: parse_def HEADER_SIZE_def g r validate_endian_tag_def
        parse_sections_def version_def split: if_splits)
qed

lemma finalized_header:
  assumes fits: "fits (emit_header l @ body)" and v: "hl_version l \<in> set SUPPORTED_VERSIONS"
    and size: "unat (hl_file_size l) = length (emit_header l @ body)"
    and sha: "\<And>bs. length (sha1_digest D bs) = 20"
  shows "\<exists>out. finalize_checksums D (emit_header l @ body) = Inr out
    \<and> drop 32 out = drop 32 (emit_header l @ body)
    \<and> parse D out = Inr (layout_header l (adler32_slice D (drop 12 out)) (sha1_digest D (drop 32 out)))
    \<and> verify_checksum D (layout_header l (adler32_slice D (drop 12 out)) (sha1_digest D (drop 32 out))) out = Inr ()"
proof -
  note len3 = supported_version_length [OF v]
  have len: "112 \<le> length (emit_header l @ body)" by (simp add: emit_header_length [OF len3])
  then obtain out where out: "finalize_checksums D (emit_header l @ body) = Inr out"
    by (simp add: finalize_checksums_def Let_def)
  have b: "length out = length (emit_header l @ body) \<and> take 8 out = take 8 (emit_header l @ body)
    \<and> drop 32 out = drop 32 (emit_header l @ body) \<and> at_off out 8 (u32_to_le (adler32_slice D (drop 12 out)))
    \<and> at_off out 12 (sha1_digest D (drop 32 out))"
    by (rule finalize_bytes [OF sha _ out]) (use len in simp)
  have "at_off out 0 (DEX_MAGIC @ hl_version l @ [0])"
    using b len by (simp add: at_off_def len3 DEX_MAGIC_def emit_header_def eval_nat_numeral)
  moreover have "at_off out 32 (header_tail l)"
    using b len by (simp add: at_off_def header_tail_def emit_header_length [OF len3])
  ultimately have p: "parse D out = Inr (layout_header l (adler32_slice D (drop 12 out)) (sha1_digest D (drop 32 out)))"
    using b fits v sha by (intro parse_layout) (auto simp: fits_def)
  moreover have "verify_checksum D (layout_header l (adler32_slice D (drop 12 out)) (sha1_digest D (drop 32 out))) out = Inr ()"
    using b len size by (simp add: verify_checksum_def layout_header_def get_range_def)
  ultimately show ?thesis using out b by blast
qed

end

section \<open>Properties\<close>

text \<open>C29 (header_finalize_roundtrip). A file that starts with an emitted header of a supported version and whose
  declared size is its length is finalized without error, reparses to the emitted layout with
  the SHA-1 of bytes 32.. and the Adler-32 of bytes 12.. in the hash fields, and passes the
  checksum verification.\<close>

theorem header_finalize_roundtrip:
  assumes "dex_deps D" and "fits (emit_header l @ body)" and "hl_version l \<in> set SUPPORTED_VERSIONS"
    and "unat (hl_file_size l) = length (emit_header l @ body)"
    and "\<And>bs. length (sha1_digest D bs) = 20"
  shows "\<exists>out. finalize_checksums D (emit_header l @ body) = Inr out
    \<and> drop 32 out = drop 32 (emit_header l @ body)
    \<and> parse D out = Inr (layout_header l (adler32_slice D (drop 12 out)) (sha1_digest D (drop 32 out)))
    \<and> verify_checksum D (layout_header l (adler32_slice D (drop 12 out)) (sha1_digest D (drop 32 out))) out = Inr ()"
  by (rule dex_deps.finalized_header [OF assms])

definition sample_layout :: HeaderLayout where
  "sample_layout =
     \<lparr>hl_version = [0x30, 0x33, 0x35], hl_file_size = 116, hl_map_off = 112,
      hl_string_ids_size = 0, hl_string_ids_off = 0, hl_type_ids_size = 0, hl_type_ids_off = 0,
      hl_proto_ids_size = 0, hl_proto_ids_off = 0, hl_field_ids_size = 0, hl_field_ids_off = 0,
      hl_method_ids_size = 0, hl_method_ids_off = 0, hl_class_defs_size = 0, hl_class_defs_off = 0,
      hl_data_size = 4, hl_data_off = 112\<rparr>"

theorem header_finalize_roundtrip_witness:
  "\<exists>out. finalize_checksums (std_deps (\<lambda>_. replicate 20 7)) (emit_header sample_layout @ [0, 0, 0, 0]) = Inr out
    \<and> (\<exists>h. parse (std_deps (\<lambda>_. replicate 20 7)) out = Inr h
          \<and> verify_checksum (std_deps (\<lambda>_. replicate 20 7)) h out = Inr ())"
proof -
  have "length (emit_header sample_layout @ [0, 0, 0, 0]) = 116"
    by (simp add: emit_header_length sample_layout_def)
  then show ?thesis
    using header_finalize_roundtrip [OF std.dex_deps_axioms, of sample_layout "[0, 0, 0, 0]" "\<lambda>_. replicate 20 7"]
    by (fastforce simp: fits_def std_deps_def SUPPORTED_VERSIONS_def sample_layout_def)
qed

text \<open>C30 (header_parse_gates). A buffer parses as a header exactly when it has 112 bytes, the magic \<open>dex\<close> and
  newline, one of the supported versions with its zero terminator, the canonical header size and
  the canonical endian tag; nothing else is checked and no further read fails.\<close>

theorem header_parse_gates:
  assumes "dex_deps D" and "fits data"
  shows "(\<exists>h. parse D data = Inr h) \<longleftrightarrow>
    112 \<le> length data \<and> take 4 data = DEX_MAGIC \<and> take 3 (drop 4 data) \<in> set SUPPORTED_VERSIONS
    \<and> data ! 7 = 0 \<and> u32_at data 36 = CANONICAL_HEADER_SIZE \<and> u32_at data 40 = ENDIAN_CONSTANT"
  by (rule dex_deps.parse_gates [OF assms])

theorem header_parse_gates_witness:
  "\<exists>h. parse (std_deps (\<lambda>_. [])) (emit_header sample_layout) = Inr h"
proof -
  have "emit_header sample_layout ! 7 = 0 \<and> u32_at (emit_header sample_layout) 36 = CANONICAL_HEADER_SIZE
    \<and> u32_at (emit_header sample_layout) 40 = ENDIAN_CONSTANT"
    by code_simp
  then show ?thesis
    using header_parse_gates [OF std.dex_deps_axioms, of "emit_header sample_layout" "\<lambda>_. []"]
    by (simp add: fits_def emit_header_def sample_layout_def header_consts SUPPORTED_VERSIONS_def)
qed

end
