(* ===== verification/Dex_Opcodes.thy ===== *)
theory Dex_Opcodes
  imports Dex_Prelude
begin

text \<open>
  The Dalvik opcodes of \<open>src/src/opcodes.rs\<close>. The 224 variants of the enum are twelve datatypes in
  the order of the enum (a single datatype of that size is not practical), summed by
  \<open>Opcode\<close>; every variant has its source name as an abbreviation. \<open>to_u8\<close> gives the declared
  discriminants, \<open>from_u8\<close> the arms of the match (independent of the discriminants), and the two
  mnemonic tables are those of \<open>src/src/opcodes.rs\<close> and \<open>src/src/smali.rs\<close>.
\<close>

section \<open>The variants\<close>

datatype op_base =
    Nop | Move | MoveFrom16 | Move16 | MoveWide
  | MoveWideFrom16 | MoveWide16 | MoveObject | MoveObjectFrom16 | MoveObject16
  | MoveResult | MoveResultWide | MoveResultObject | MoveException | ReturnVoid
  | Return | ReturnWide | ReturnObject

datatype op_const =
    Const4 | Const16 | Const | ConstHigh16 | ConstWide16
  | ConstWide32 | ConstWide | ConstWideHigh16 | ConstString | ConstStringJumbo
  | ConstClass | MonitorEnter | MonitorExit | CheckCast | InstanceOf
  | ArrayLength | NewInstance | NewArray | FilledNewArray | FilledNewArrayRange
  | FillArrayData | Throw | Goto | Goto16 | Goto32
  | PackedSwitch | SparseSwitch

datatype op_cmp =
    CmplFloat | CmpgFloat | CmplDouble | CmpgDouble | CmpLong
  | IfEq | IfNe | IfLt | IfGe | IfGt
  | IfLe | IfEqz | IfNez | IfLtz | IfGez
  | IfGtz | IfLez

datatype op_array =
    Aget | AgetWide | AgetObject | AgetBoolean | AgetByte
  | AgetChar | AgetShort | Aput | AputWide | AputObject
  | AputBoolean | AputByte | AputChar | AputShort

datatype op_ifield =
    Iget | IgetWide | IgetObject | IgetBoolean | IgetByte
  | IgetChar | IgetShort | Iput | IputWide | IputObject
  | IputBoolean | IputByte | IputChar | IputShort

datatype op_sfield =
    Sget | SgetWide | SgetObject | SgetBoolean | SgetByte
  | SgetChar | SgetShort | Sput | SputWide | SputObject
  | SputBoolean | SputByte | SputChar | SputShort

datatype op_invoke =
    InvokeVirtual | InvokeSuper | InvokeDirect | InvokeStatic | InvokeInterface
  | InvokeVirtualRange | InvokeSuperRange | InvokeDirectRange | InvokeStaticRange | InvokeInterfaceRange

datatype op_unary =
    NegInt | NotInt | NegLong | NotLong | NegFloat
  | NegDouble | IntToLong | IntToFloat | IntToDouble | LongToInt
  | LongToFloat | LongToDouble | FloatToInt | FloatToLong | FloatToDouble
  | DoubleToInt | DoubleToLong | DoubleToFloat | IntToByte | IntToChar
  | IntToShort

datatype op_binary =
    AddInt | SubInt | MulInt | DivInt | RemInt
  | AndInt | OrInt | XorInt | ShlInt | ShrInt
  | UshrInt | AddLong | SubLong | MulLong | DivLong
  | RemLong | AndLong | OrLong | XorLong | ShlLong
  | ShrLong | UshrLong | AddFloat | SubFloat | MulFloat
  | DivFloat | RemFloat | AddDouble | SubDouble | MulDouble
  | DivDouble | RemDouble

datatype op_binary2 =
    AddInt2Addr | SubInt2Addr | MulInt2Addr | DivInt2Addr | RemInt2Addr
  | AndInt2Addr | OrInt2Addr | XorInt2Addr | ShlInt2Addr | ShrInt2Addr
  | UshrInt2Addr | AddLong2Addr | SubLong2Addr | MulLong2Addr | DivLong2Addr
  | RemLong2Addr | AndLong2Addr | OrLong2Addr | XorLong2Addr | ShlLong2Addr
  | ShrLong2Addr | UshrLong2Addr | AddFloat2Addr | SubFloat2Addr | MulFloat2Addr
  | DivFloat2Addr | RemFloat2Addr | AddDouble2Addr | SubDouble2Addr | MulDouble2Addr
  | DivDouble2Addr | RemDouble2Addr

datatype op_lit =
    AddIntLit16 | RsubInt | MulIntLit16 | DivIntLit16 | RemIntLit16
  | AndIntLit16 | OrIntLit16 | XorIntLit16 | AddIntLit8 | RsubIntLit8
  | MulIntLit8 | DivIntLit8 | RemIntLit8 | AndIntLit8 | OrIntLit8
  | XorIntLit8 | ShlIntLit8 | ShrIntLit8 | UshrIntLit8

datatype op_handle =
    InvokePolymorphic | InvokePolymorphicRange | InvokeCustom | InvokeCustomRange | ConstMethodHandle
  | ConstMethodType

datatype Opcode =
    OBase op_base
  | OConst op_const
  | OCmp op_cmp
  | OArray op_array
  | OIfield op_ifield
  | OSfield op_sfield
  | OInvoke op_invoke
  | OUnary op_unary
  | OBinary op_binary
  | OBinary2 op_binary2
  | OLit op_lit
  | OHandle op_handle

abbreviation Nop :: Opcode where "Nop \<equiv> OBase op_base.Nop"
abbreviation Move :: Opcode where "Move \<equiv> OBase op_base.Move"
abbreviation MoveFrom16 :: Opcode where "MoveFrom16 \<equiv> OBase op_base.MoveFrom16"
abbreviation Move16 :: Opcode where "Move16 \<equiv> OBase op_base.Move16"
abbreviation MoveWide :: Opcode where "MoveWide \<equiv> OBase op_base.MoveWide"
abbreviation MoveWideFrom16 :: Opcode where "MoveWideFrom16 \<equiv> OBase op_base.MoveWideFrom16"
abbreviation MoveWide16 :: Opcode where "MoveWide16 \<equiv> OBase op_base.MoveWide16"
abbreviation MoveObject :: Opcode where "MoveObject \<equiv> OBase op_base.MoveObject"
abbreviation MoveObjectFrom16 :: Opcode where "MoveObjectFrom16 \<equiv> OBase op_base.MoveObjectFrom16"
abbreviation MoveObject16 :: Opcode where "MoveObject16 \<equiv> OBase op_base.MoveObject16"
abbreviation MoveResult :: Opcode where "MoveResult \<equiv> OBase op_base.MoveResult"
abbreviation MoveResultWide :: Opcode where "MoveResultWide \<equiv> OBase op_base.MoveResultWide"
abbreviation MoveResultObject :: Opcode where "MoveResultObject \<equiv> OBase op_base.MoveResultObject"
abbreviation MoveException :: Opcode where "MoveException \<equiv> OBase op_base.MoveException"
abbreviation ReturnVoid :: Opcode where "ReturnVoid \<equiv> OBase op_base.ReturnVoid"
abbreviation Return :: Opcode where "Return \<equiv> OBase op_base.Return"
abbreviation ReturnWide :: Opcode where "ReturnWide \<equiv> OBase op_base.ReturnWide"
abbreviation ReturnObject :: Opcode where "ReturnObject \<equiv> OBase op_base.ReturnObject"
abbreviation Const4 :: Opcode where "Const4 \<equiv> OConst op_const.Const4"
abbreviation Const16 :: Opcode where "Const16 \<equiv> OConst op_const.Const16"
abbreviation Const :: Opcode where "Const \<equiv> OConst op_const.Const"
abbreviation ConstHigh16 :: Opcode where "ConstHigh16 \<equiv> OConst op_const.ConstHigh16"
abbreviation ConstWide16 :: Opcode where "ConstWide16 \<equiv> OConst op_const.ConstWide16"
abbreviation ConstWide32 :: Opcode where "ConstWide32 \<equiv> OConst op_const.ConstWide32"
abbreviation ConstWide :: Opcode where "ConstWide \<equiv> OConst op_const.ConstWide"
abbreviation ConstWideHigh16 :: Opcode where "ConstWideHigh16 \<equiv> OConst op_const.ConstWideHigh16"
abbreviation ConstString :: Opcode where "ConstString \<equiv> OConst op_const.ConstString"
abbreviation ConstStringJumbo :: Opcode where "ConstStringJumbo \<equiv> OConst op_const.ConstStringJumbo"
abbreviation ConstClass :: Opcode where "ConstClass \<equiv> OConst op_const.ConstClass"
abbreviation MonitorEnter :: Opcode where "MonitorEnter \<equiv> OConst op_const.MonitorEnter"
abbreviation MonitorExit :: Opcode where "MonitorExit \<equiv> OConst op_const.MonitorExit"
abbreviation CheckCast :: Opcode where "CheckCast \<equiv> OConst op_const.CheckCast"
abbreviation InstanceOf :: Opcode where "InstanceOf \<equiv> OConst op_const.InstanceOf"
abbreviation ArrayLength :: Opcode where "ArrayLength \<equiv> OConst op_const.ArrayLength"
abbreviation NewInstance :: Opcode where "NewInstance \<equiv> OConst op_const.NewInstance"
abbreviation NewArray :: Opcode where "NewArray \<equiv> OConst op_const.NewArray"
abbreviation FilledNewArray :: Opcode where "FilledNewArray \<equiv> OConst op_const.FilledNewArray"
abbreviation FilledNewArrayRange :: Opcode where "FilledNewArrayRange \<equiv> OConst op_const.FilledNewArrayRange"
abbreviation FillArrayData :: Opcode where "FillArrayData \<equiv> OConst op_const.FillArrayData"
abbreviation Throw :: Opcode where "Throw \<equiv> OConst op_const.Throw"
abbreviation Goto :: Opcode where "Goto \<equiv> OConst op_const.Goto"
abbreviation Goto16 :: Opcode where "Goto16 \<equiv> OConst op_const.Goto16"
abbreviation Goto32 :: Opcode where "Goto32 \<equiv> OConst op_const.Goto32"
abbreviation PackedSwitch :: Opcode where "PackedSwitch \<equiv> OConst op_const.PackedSwitch"
abbreviation SparseSwitch :: Opcode where "SparseSwitch \<equiv> OConst op_const.SparseSwitch"
abbreviation CmplFloat :: Opcode where "CmplFloat \<equiv> OCmp op_cmp.CmplFloat"
abbreviation CmpgFloat :: Opcode where "CmpgFloat \<equiv> OCmp op_cmp.CmpgFloat"
abbreviation CmplDouble :: Opcode where "CmplDouble \<equiv> OCmp op_cmp.CmplDouble"
abbreviation CmpgDouble :: Opcode where "CmpgDouble \<equiv> OCmp op_cmp.CmpgDouble"
abbreviation CmpLong :: Opcode where "CmpLong \<equiv> OCmp op_cmp.CmpLong"
abbreviation IfEq :: Opcode where "IfEq \<equiv> OCmp op_cmp.IfEq"
abbreviation IfNe :: Opcode where "IfNe \<equiv> OCmp op_cmp.IfNe"
abbreviation IfLt :: Opcode where "IfLt \<equiv> OCmp op_cmp.IfLt"
abbreviation IfGe :: Opcode where "IfGe \<equiv> OCmp op_cmp.IfGe"
abbreviation IfGt :: Opcode where "IfGt \<equiv> OCmp op_cmp.IfGt"
abbreviation IfLe :: Opcode where "IfLe \<equiv> OCmp op_cmp.IfLe"
abbreviation IfEqz :: Opcode where "IfEqz \<equiv> OCmp op_cmp.IfEqz"
abbreviation IfNez :: Opcode where "IfNez \<equiv> OCmp op_cmp.IfNez"
abbreviation IfLtz :: Opcode where "IfLtz \<equiv> OCmp op_cmp.IfLtz"
abbreviation IfGez :: Opcode where "IfGez \<equiv> OCmp op_cmp.IfGez"
abbreviation IfGtz :: Opcode where "IfGtz \<equiv> OCmp op_cmp.IfGtz"
abbreviation IfLez :: Opcode where "IfLez \<equiv> OCmp op_cmp.IfLez"
abbreviation Aget :: Opcode where "Aget \<equiv> OArray op_array.Aget"
abbreviation AgetWide :: Opcode where "AgetWide \<equiv> OArray op_array.AgetWide"
abbreviation AgetObject :: Opcode where "AgetObject \<equiv> OArray op_array.AgetObject"
abbreviation AgetBoolean :: Opcode where "AgetBoolean \<equiv> OArray op_array.AgetBoolean"
abbreviation AgetByte :: Opcode where "AgetByte \<equiv> OArray op_array.AgetByte"
abbreviation AgetChar :: Opcode where "AgetChar \<equiv> OArray op_array.AgetChar"
abbreviation AgetShort :: Opcode where "AgetShort \<equiv> OArray op_array.AgetShort"
abbreviation Aput :: Opcode where "Aput \<equiv> OArray op_array.Aput"
abbreviation AputWide :: Opcode where "AputWide \<equiv> OArray op_array.AputWide"
abbreviation AputObject :: Opcode where "AputObject \<equiv> OArray op_array.AputObject"
abbreviation AputBoolean :: Opcode where "AputBoolean \<equiv> OArray op_array.AputBoolean"
abbreviation AputByte :: Opcode where "AputByte \<equiv> OArray op_array.AputByte"
abbreviation AputChar :: Opcode where "AputChar \<equiv> OArray op_array.AputChar"
abbreviation AputShort :: Opcode where "AputShort \<equiv> OArray op_array.AputShort"
abbreviation Iget :: Opcode where "Iget \<equiv> OIfield op_ifield.Iget"
abbreviation IgetWide :: Opcode where "IgetWide \<equiv> OIfield op_ifield.IgetWide"
abbreviation IgetObject :: Opcode where "IgetObject \<equiv> OIfield op_ifield.IgetObject"
abbreviation IgetBoolean :: Opcode where "IgetBoolean \<equiv> OIfield op_ifield.IgetBoolean"
abbreviation IgetByte :: Opcode where "IgetByte \<equiv> OIfield op_ifield.IgetByte"
abbreviation IgetChar :: Opcode where "IgetChar \<equiv> OIfield op_ifield.IgetChar"
abbreviation IgetShort :: Opcode where "IgetShort \<equiv> OIfield op_ifield.IgetShort"
abbreviation Iput :: Opcode where "Iput \<equiv> OIfield op_ifield.Iput"
abbreviation IputWide :: Opcode where "IputWide \<equiv> OIfield op_ifield.IputWide"
abbreviation IputObject :: Opcode where "IputObject \<equiv> OIfield op_ifield.IputObject"
abbreviation IputBoolean :: Opcode where "IputBoolean \<equiv> OIfield op_ifield.IputBoolean"
abbreviation IputByte :: Opcode where "IputByte \<equiv> OIfield op_ifield.IputByte"
abbreviation IputChar :: Opcode where "IputChar \<equiv> OIfield op_ifield.IputChar"
abbreviation IputShort :: Opcode where "IputShort \<equiv> OIfield op_ifield.IputShort"
abbreviation Sget :: Opcode where "Sget \<equiv> OSfield op_sfield.Sget"
abbreviation SgetWide :: Opcode where "SgetWide \<equiv> OSfield op_sfield.SgetWide"
abbreviation SgetObject :: Opcode where "SgetObject \<equiv> OSfield op_sfield.SgetObject"
abbreviation SgetBoolean :: Opcode where "SgetBoolean \<equiv> OSfield op_sfield.SgetBoolean"
abbreviation SgetByte :: Opcode where "SgetByte \<equiv> OSfield op_sfield.SgetByte"
abbreviation SgetChar :: Opcode where "SgetChar \<equiv> OSfield op_sfield.SgetChar"
abbreviation SgetShort :: Opcode where "SgetShort \<equiv> OSfield op_sfield.SgetShort"
abbreviation Sput :: Opcode where "Sput \<equiv> OSfield op_sfield.Sput"
abbreviation SputWide :: Opcode where "SputWide \<equiv> OSfield op_sfield.SputWide"
abbreviation SputObject :: Opcode where "SputObject \<equiv> OSfield op_sfield.SputObject"
abbreviation SputBoolean :: Opcode where "SputBoolean \<equiv> OSfield op_sfield.SputBoolean"
abbreviation SputByte :: Opcode where "SputByte \<equiv> OSfield op_sfield.SputByte"
abbreviation SputChar :: Opcode where "SputChar \<equiv> OSfield op_sfield.SputChar"
abbreviation SputShort :: Opcode where "SputShort \<equiv> OSfield op_sfield.SputShort"
abbreviation InvokeVirtual :: Opcode where "InvokeVirtual \<equiv> OInvoke op_invoke.InvokeVirtual"
abbreviation InvokeSuper :: Opcode where "InvokeSuper \<equiv> OInvoke op_invoke.InvokeSuper"
abbreviation InvokeDirect :: Opcode where "InvokeDirect \<equiv> OInvoke op_invoke.InvokeDirect"
abbreviation InvokeStatic :: Opcode where "InvokeStatic \<equiv> OInvoke op_invoke.InvokeStatic"
abbreviation InvokeInterface :: Opcode where "InvokeInterface \<equiv> OInvoke op_invoke.InvokeInterface"
abbreviation InvokeVirtualRange :: Opcode where "InvokeVirtualRange \<equiv> OInvoke op_invoke.InvokeVirtualRange"
abbreviation InvokeSuperRange :: Opcode where "InvokeSuperRange \<equiv> OInvoke op_invoke.InvokeSuperRange"
abbreviation InvokeDirectRange :: Opcode where "InvokeDirectRange \<equiv> OInvoke op_invoke.InvokeDirectRange"
abbreviation InvokeStaticRange :: Opcode where "InvokeStaticRange \<equiv> OInvoke op_invoke.InvokeStaticRange"
abbreviation InvokeInterfaceRange :: Opcode where "InvokeInterfaceRange \<equiv> OInvoke op_invoke.InvokeInterfaceRange"
abbreviation NegInt :: Opcode where "NegInt \<equiv> OUnary op_unary.NegInt"
abbreviation NotInt :: Opcode where "NotInt \<equiv> OUnary op_unary.NotInt"
abbreviation NegLong :: Opcode where "NegLong \<equiv> OUnary op_unary.NegLong"
abbreviation NotLong :: Opcode where "NotLong \<equiv> OUnary op_unary.NotLong"
abbreviation NegFloat :: Opcode where "NegFloat \<equiv> OUnary op_unary.NegFloat"
abbreviation NegDouble :: Opcode where "NegDouble \<equiv> OUnary op_unary.NegDouble"
abbreviation IntToLong :: Opcode where "IntToLong \<equiv> OUnary op_unary.IntToLong"
abbreviation IntToFloat :: Opcode where "IntToFloat \<equiv> OUnary op_unary.IntToFloat"
abbreviation IntToDouble :: Opcode where "IntToDouble \<equiv> OUnary op_unary.IntToDouble"
abbreviation LongToInt :: Opcode where "LongToInt \<equiv> OUnary op_unary.LongToInt"
abbreviation LongToFloat :: Opcode where "LongToFloat \<equiv> OUnary op_unary.LongToFloat"
abbreviation LongToDouble :: Opcode where "LongToDouble \<equiv> OUnary op_unary.LongToDouble"
abbreviation FloatToInt :: Opcode where "FloatToInt \<equiv> OUnary op_unary.FloatToInt"
abbreviation FloatToLong :: Opcode where "FloatToLong \<equiv> OUnary op_unary.FloatToLong"
abbreviation FloatToDouble :: Opcode where "FloatToDouble \<equiv> OUnary op_unary.FloatToDouble"
abbreviation DoubleToInt :: Opcode where "DoubleToInt \<equiv> OUnary op_unary.DoubleToInt"
abbreviation DoubleToLong :: Opcode where "DoubleToLong \<equiv> OUnary op_unary.DoubleToLong"
abbreviation DoubleToFloat :: Opcode where "DoubleToFloat \<equiv> OUnary op_unary.DoubleToFloat"
abbreviation IntToByte :: Opcode where "IntToByte \<equiv> OUnary op_unary.IntToByte"
abbreviation IntToChar :: Opcode where "IntToChar \<equiv> OUnary op_unary.IntToChar"
abbreviation IntToShort :: Opcode where "IntToShort \<equiv> OUnary op_unary.IntToShort"
abbreviation AddInt :: Opcode where "AddInt \<equiv> OBinary op_binary.AddInt"
abbreviation SubInt :: Opcode where "SubInt \<equiv> OBinary op_binary.SubInt"
abbreviation MulInt :: Opcode where "MulInt \<equiv> OBinary op_binary.MulInt"
abbreviation DivInt :: Opcode where "DivInt \<equiv> OBinary op_binary.DivInt"
abbreviation RemInt :: Opcode where "RemInt \<equiv> OBinary op_binary.RemInt"
abbreviation AndInt :: Opcode where "AndInt \<equiv> OBinary op_binary.AndInt"
abbreviation OrInt :: Opcode where "OrInt \<equiv> OBinary op_binary.OrInt"
abbreviation XorInt :: Opcode where "XorInt \<equiv> OBinary op_binary.XorInt"
abbreviation ShlInt :: Opcode where "ShlInt \<equiv> OBinary op_binary.ShlInt"
abbreviation ShrInt :: Opcode where "ShrInt \<equiv> OBinary op_binary.ShrInt"
abbreviation UshrInt :: Opcode where "UshrInt \<equiv> OBinary op_binary.UshrInt"
abbreviation AddLong :: Opcode where "AddLong \<equiv> OBinary op_binary.AddLong"
abbreviation SubLong :: Opcode where "SubLong \<equiv> OBinary op_binary.SubLong"
abbreviation MulLong :: Opcode where "MulLong \<equiv> OBinary op_binary.MulLong"
abbreviation DivLong :: Opcode where "DivLong \<equiv> OBinary op_binary.DivLong"
abbreviation RemLong :: Opcode where "RemLong \<equiv> OBinary op_binary.RemLong"
abbreviation AndLong :: Opcode where "AndLong \<equiv> OBinary op_binary.AndLong"
abbreviation OrLong :: Opcode where "OrLong \<equiv> OBinary op_binary.OrLong"
abbreviation XorLong :: Opcode where "XorLong \<equiv> OBinary op_binary.XorLong"
abbreviation ShlLong :: Opcode where "ShlLong \<equiv> OBinary op_binary.ShlLong"
abbreviation ShrLong :: Opcode where "ShrLong \<equiv> OBinary op_binary.ShrLong"
abbreviation UshrLong :: Opcode where "UshrLong \<equiv> OBinary op_binary.UshrLong"
abbreviation AddFloat :: Opcode where "AddFloat \<equiv> OBinary op_binary.AddFloat"
abbreviation SubFloat :: Opcode where "SubFloat \<equiv> OBinary op_binary.SubFloat"
abbreviation MulFloat :: Opcode where "MulFloat \<equiv> OBinary op_binary.MulFloat"
abbreviation DivFloat :: Opcode where "DivFloat \<equiv> OBinary op_binary.DivFloat"
abbreviation RemFloat :: Opcode where "RemFloat \<equiv> OBinary op_binary.RemFloat"
abbreviation AddDouble :: Opcode where "AddDouble \<equiv> OBinary op_binary.AddDouble"
abbreviation SubDouble :: Opcode where "SubDouble \<equiv> OBinary op_binary.SubDouble"
abbreviation MulDouble :: Opcode where "MulDouble \<equiv> OBinary op_binary.MulDouble"
abbreviation DivDouble :: Opcode where "DivDouble \<equiv> OBinary op_binary.DivDouble"
abbreviation RemDouble :: Opcode where "RemDouble \<equiv> OBinary op_binary.RemDouble"
abbreviation AddInt2Addr :: Opcode where "AddInt2Addr \<equiv> OBinary2 op_binary2.AddInt2Addr"
abbreviation SubInt2Addr :: Opcode where "SubInt2Addr \<equiv> OBinary2 op_binary2.SubInt2Addr"
abbreviation MulInt2Addr :: Opcode where "MulInt2Addr \<equiv> OBinary2 op_binary2.MulInt2Addr"
abbreviation DivInt2Addr :: Opcode where "DivInt2Addr \<equiv> OBinary2 op_binary2.DivInt2Addr"
abbreviation RemInt2Addr :: Opcode where "RemInt2Addr \<equiv> OBinary2 op_binary2.RemInt2Addr"
abbreviation AndInt2Addr :: Opcode where "AndInt2Addr \<equiv> OBinary2 op_binary2.AndInt2Addr"
abbreviation OrInt2Addr :: Opcode where "OrInt2Addr \<equiv> OBinary2 op_binary2.OrInt2Addr"
abbreviation XorInt2Addr :: Opcode where "XorInt2Addr \<equiv> OBinary2 op_binary2.XorInt2Addr"
abbreviation ShlInt2Addr :: Opcode where "ShlInt2Addr \<equiv> OBinary2 op_binary2.ShlInt2Addr"
abbreviation ShrInt2Addr :: Opcode where "ShrInt2Addr \<equiv> OBinary2 op_binary2.ShrInt2Addr"
abbreviation UshrInt2Addr :: Opcode where "UshrInt2Addr \<equiv> OBinary2 op_binary2.UshrInt2Addr"
abbreviation AddLong2Addr :: Opcode where "AddLong2Addr \<equiv> OBinary2 op_binary2.AddLong2Addr"
abbreviation SubLong2Addr :: Opcode where "SubLong2Addr \<equiv> OBinary2 op_binary2.SubLong2Addr"
abbreviation MulLong2Addr :: Opcode where "MulLong2Addr \<equiv> OBinary2 op_binary2.MulLong2Addr"
abbreviation DivLong2Addr :: Opcode where "DivLong2Addr \<equiv> OBinary2 op_binary2.DivLong2Addr"
abbreviation RemLong2Addr :: Opcode where "RemLong2Addr \<equiv> OBinary2 op_binary2.RemLong2Addr"
abbreviation AndLong2Addr :: Opcode where "AndLong2Addr \<equiv> OBinary2 op_binary2.AndLong2Addr"
abbreviation OrLong2Addr :: Opcode where "OrLong2Addr \<equiv> OBinary2 op_binary2.OrLong2Addr"
abbreviation XorLong2Addr :: Opcode where "XorLong2Addr \<equiv> OBinary2 op_binary2.XorLong2Addr"
abbreviation ShlLong2Addr :: Opcode where "ShlLong2Addr \<equiv> OBinary2 op_binary2.ShlLong2Addr"
abbreviation ShrLong2Addr :: Opcode where "ShrLong2Addr \<equiv> OBinary2 op_binary2.ShrLong2Addr"
abbreviation UshrLong2Addr :: Opcode where "UshrLong2Addr \<equiv> OBinary2 op_binary2.UshrLong2Addr"
abbreviation AddFloat2Addr :: Opcode where "AddFloat2Addr \<equiv> OBinary2 op_binary2.AddFloat2Addr"
abbreviation SubFloat2Addr :: Opcode where "SubFloat2Addr \<equiv> OBinary2 op_binary2.SubFloat2Addr"
abbreviation MulFloat2Addr :: Opcode where "MulFloat2Addr \<equiv> OBinary2 op_binary2.MulFloat2Addr"
abbreviation DivFloat2Addr :: Opcode where "DivFloat2Addr \<equiv> OBinary2 op_binary2.DivFloat2Addr"
abbreviation RemFloat2Addr :: Opcode where "RemFloat2Addr \<equiv> OBinary2 op_binary2.RemFloat2Addr"
abbreviation AddDouble2Addr :: Opcode where "AddDouble2Addr \<equiv> OBinary2 op_binary2.AddDouble2Addr"
abbreviation SubDouble2Addr :: Opcode where "SubDouble2Addr \<equiv> OBinary2 op_binary2.SubDouble2Addr"
abbreviation MulDouble2Addr :: Opcode where "MulDouble2Addr \<equiv> OBinary2 op_binary2.MulDouble2Addr"
abbreviation DivDouble2Addr :: Opcode where "DivDouble2Addr \<equiv> OBinary2 op_binary2.DivDouble2Addr"
abbreviation RemDouble2Addr :: Opcode where "RemDouble2Addr \<equiv> OBinary2 op_binary2.RemDouble2Addr"
abbreviation AddIntLit16 :: Opcode where "AddIntLit16 \<equiv> OLit op_lit.AddIntLit16"
abbreviation RsubInt :: Opcode where "RsubInt \<equiv> OLit op_lit.RsubInt"
abbreviation MulIntLit16 :: Opcode where "MulIntLit16 \<equiv> OLit op_lit.MulIntLit16"
abbreviation DivIntLit16 :: Opcode where "DivIntLit16 \<equiv> OLit op_lit.DivIntLit16"
abbreviation RemIntLit16 :: Opcode where "RemIntLit16 \<equiv> OLit op_lit.RemIntLit16"
abbreviation AndIntLit16 :: Opcode where "AndIntLit16 \<equiv> OLit op_lit.AndIntLit16"
abbreviation OrIntLit16 :: Opcode where "OrIntLit16 \<equiv> OLit op_lit.OrIntLit16"
abbreviation XorIntLit16 :: Opcode where "XorIntLit16 \<equiv> OLit op_lit.XorIntLit16"
abbreviation AddIntLit8 :: Opcode where "AddIntLit8 \<equiv> OLit op_lit.AddIntLit8"
abbreviation RsubIntLit8 :: Opcode where "RsubIntLit8 \<equiv> OLit op_lit.RsubIntLit8"
abbreviation MulIntLit8 :: Opcode where "MulIntLit8 \<equiv> OLit op_lit.MulIntLit8"
abbreviation DivIntLit8 :: Opcode where "DivIntLit8 \<equiv> OLit op_lit.DivIntLit8"
abbreviation RemIntLit8 :: Opcode where "RemIntLit8 \<equiv> OLit op_lit.RemIntLit8"
abbreviation AndIntLit8 :: Opcode where "AndIntLit8 \<equiv> OLit op_lit.AndIntLit8"
abbreviation OrIntLit8 :: Opcode where "OrIntLit8 \<equiv> OLit op_lit.OrIntLit8"
abbreviation XorIntLit8 :: Opcode where "XorIntLit8 \<equiv> OLit op_lit.XorIntLit8"
abbreviation ShlIntLit8 :: Opcode where "ShlIntLit8 \<equiv> OLit op_lit.ShlIntLit8"
abbreviation ShrIntLit8 :: Opcode where "ShrIntLit8 \<equiv> OLit op_lit.ShrIntLit8"
abbreviation UshrIntLit8 :: Opcode where "UshrIntLit8 \<equiv> OLit op_lit.UshrIntLit8"
abbreviation InvokePolymorphic :: Opcode where "InvokePolymorphic \<equiv> OHandle op_handle.InvokePolymorphic"
abbreviation InvokePolymorphicRange :: Opcode where "InvokePolymorphicRange \<equiv> OHandle op_handle.InvokePolymorphicRange"
abbreviation InvokeCustom :: Opcode where "InvokeCustom \<equiv> OHandle op_handle.InvokeCustom"
abbreviation InvokeCustomRange :: Opcode where "InvokeCustomRange \<equiv> OHandle op_handle.InvokeCustomRange"
abbreviation ConstMethodHandle :: Opcode where "ConstMethodHandle \<equiv> OHandle op_handle.ConstMethodHandle"
abbreviation ConstMethodType :: Opcode where "ConstMethodType \<equiv> OHandle op_handle.ConstMethodType"

section \<open>Discriminants and decoding\<close>

primrec base_to_u8 :: "op_base \<Rightarrow> byte" where
  "base_to_u8 op_base.Nop = 0x00"
| "base_to_u8 op_base.Move = 0x01"
| "base_to_u8 op_base.MoveFrom16 = 0x02"
| "base_to_u8 op_base.Move16 = 0x03"
| "base_to_u8 op_base.MoveWide = 0x04"
| "base_to_u8 op_base.MoveWideFrom16 = 0x05"
| "base_to_u8 op_base.MoveWide16 = 0x06"
| "base_to_u8 op_base.MoveObject = 0x07"
| "base_to_u8 op_base.MoveObjectFrom16 = 0x08"
| "base_to_u8 op_base.MoveObject16 = 0x09"
| "base_to_u8 op_base.MoveResult = 0x0A"
| "base_to_u8 op_base.MoveResultWide = 0x0B"
| "base_to_u8 op_base.MoveResultObject = 0x0C"
| "base_to_u8 op_base.MoveException = 0x0D"
| "base_to_u8 op_base.ReturnVoid = 0x0E"
| "base_to_u8 op_base.Return = 0x0F"
| "base_to_u8 op_base.ReturnWide = 0x10"
| "base_to_u8 op_base.ReturnObject = 0x11"

primrec const_to_u8 :: "op_const \<Rightarrow> byte" where
  "const_to_u8 op_const.Const4 = 0x12"
| "const_to_u8 op_const.Const16 = 0x13"
| "const_to_u8 op_const.Const = 0x14"
| "const_to_u8 op_const.ConstHigh16 = 0x15"
| "const_to_u8 op_const.ConstWide16 = 0x16"
| "const_to_u8 op_const.ConstWide32 = 0x17"
| "const_to_u8 op_const.ConstWide = 0x18"
| "const_to_u8 op_const.ConstWideHigh16 = 0x19"
| "const_to_u8 op_const.ConstString = 0x1A"
| "const_to_u8 op_const.ConstStringJumbo = 0x1B"
| "const_to_u8 op_const.ConstClass = 0x1C"
| "const_to_u8 op_const.MonitorEnter = 0x1D"
| "const_to_u8 op_const.MonitorExit = 0x1E"
| "const_to_u8 op_const.CheckCast = 0x1F"
| "const_to_u8 op_const.InstanceOf = 0x20"
| "const_to_u8 op_const.ArrayLength = 0x21"
| "const_to_u8 op_const.NewInstance = 0x22"
| "const_to_u8 op_const.NewArray = 0x23"
| "const_to_u8 op_const.FilledNewArray = 0x24"
| "const_to_u8 op_const.FilledNewArrayRange = 0x25"
| "const_to_u8 op_const.FillArrayData = 0x26"
| "const_to_u8 op_const.Throw = 0x27"
| "const_to_u8 op_const.Goto = 0x28"
| "const_to_u8 op_const.Goto16 = 0x29"
| "const_to_u8 op_const.Goto32 = 0x2A"
| "const_to_u8 op_const.PackedSwitch = 0x2B"
| "const_to_u8 op_const.SparseSwitch = 0x2C"

primrec cmp_to_u8 :: "op_cmp \<Rightarrow> byte" where
  "cmp_to_u8 op_cmp.CmplFloat = 0x2D"
| "cmp_to_u8 op_cmp.CmpgFloat = 0x2E"
| "cmp_to_u8 op_cmp.CmplDouble = 0x2F"
| "cmp_to_u8 op_cmp.CmpgDouble = 0x30"
| "cmp_to_u8 op_cmp.CmpLong = 0x31"
| "cmp_to_u8 op_cmp.IfEq = 0x32"
| "cmp_to_u8 op_cmp.IfNe = 0x33"
| "cmp_to_u8 op_cmp.IfLt = 0x34"
| "cmp_to_u8 op_cmp.IfGe = 0x35"
| "cmp_to_u8 op_cmp.IfGt = 0x36"
| "cmp_to_u8 op_cmp.IfLe = 0x37"
| "cmp_to_u8 op_cmp.IfEqz = 0x38"
| "cmp_to_u8 op_cmp.IfNez = 0x39"
| "cmp_to_u8 op_cmp.IfLtz = 0x3A"
| "cmp_to_u8 op_cmp.IfGez = 0x3B"
| "cmp_to_u8 op_cmp.IfGtz = 0x3C"
| "cmp_to_u8 op_cmp.IfLez = 0x3D"

primrec array_to_u8 :: "op_array \<Rightarrow> byte" where
  "array_to_u8 op_array.Aget = 0x44"
| "array_to_u8 op_array.AgetWide = 0x45"
| "array_to_u8 op_array.AgetObject = 0x46"
| "array_to_u8 op_array.AgetBoolean = 0x47"
| "array_to_u8 op_array.AgetByte = 0x48"
| "array_to_u8 op_array.AgetChar = 0x49"
| "array_to_u8 op_array.AgetShort = 0x4A"
| "array_to_u8 op_array.Aput = 0x4B"
| "array_to_u8 op_array.AputWide = 0x4C"
| "array_to_u8 op_array.AputObject = 0x4D"
| "array_to_u8 op_array.AputBoolean = 0x4E"
| "array_to_u8 op_array.AputByte = 0x4F"
| "array_to_u8 op_array.AputChar = 0x50"
| "array_to_u8 op_array.AputShort = 0x51"

primrec ifield_to_u8 :: "op_ifield \<Rightarrow> byte" where
  "ifield_to_u8 op_ifield.Iget = 0x52"
| "ifield_to_u8 op_ifield.IgetWide = 0x53"
| "ifield_to_u8 op_ifield.IgetObject = 0x54"
| "ifield_to_u8 op_ifield.IgetBoolean = 0x55"
| "ifield_to_u8 op_ifield.IgetByte = 0x56"
| "ifield_to_u8 op_ifield.IgetChar = 0x57"
| "ifield_to_u8 op_ifield.IgetShort = 0x58"
| "ifield_to_u8 op_ifield.Iput = 0x59"
| "ifield_to_u8 op_ifield.IputWide = 0x5A"
| "ifield_to_u8 op_ifield.IputObject = 0x5B"
| "ifield_to_u8 op_ifield.IputBoolean = 0x5C"
| "ifield_to_u8 op_ifield.IputByte = 0x5D"
| "ifield_to_u8 op_ifield.IputChar = 0x5E"
| "ifield_to_u8 op_ifield.IputShort = 0x5F"

primrec sfield_to_u8 :: "op_sfield \<Rightarrow> byte" where
  "sfield_to_u8 op_sfield.Sget = 0x60"
| "sfield_to_u8 op_sfield.SgetWide = 0x61"
| "sfield_to_u8 op_sfield.SgetObject = 0x62"
| "sfield_to_u8 op_sfield.SgetBoolean = 0x63"
| "sfield_to_u8 op_sfield.SgetByte = 0x64"
| "sfield_to_u8 op_sfield.SgetChar = 0x65"
| "sfield_to_u8 op_sfield.SgetShort = 0x66"
| "sfield_to_u8 op_sfield.Sput = 0x67"
| "sfield_to_u8 op_sfield.SputWide = 0x68"
| "sfield_to_u8 op_sfield.SputObject = 0x69"
| "sfield_to_u8 op_sfield.SputBoolean = 0x6A"
| "sfield_to_u8 op_sfield.SputByte = 0x6B"
| "sfield_to_u8 op_sfield.SputChar = 0x6C"
| "sfield_to_u8 op_sfield.SputShort = 0x6D"

primrec invoke_to_u8 :: "op_invoke \<Rightarrow> byte" where
  "invoke_to_u8 op_invoke.InvokeVirtual = 0x6E"
| "invoke_to_u8 op_invoke.InvokeSuper = 0x6F"
| "invoke_to_u8 op_invoke.InvokeDirect = 0x70"
| "invoke_to_u8 op_invoke.InvokeStatic = 0x71"
| "invoke_to_u8 op_invoke.InvokeInterface = 0x72"
| "invoke_to_u8 op_invoke.InvokeVirtualRange = 0x74"
| "invoke_to_u8 op_invoke.InvokeSuperRange = 0x75"
| "invoke_to_u8 op_invoke.InvokeDirectRange = 0x76"
| "invoke_to_u8 op_invoke.InvokeStaticRange = 0x77"
| "invoke_to_u8 op_invoke.InvokeInterfaceRange = 0x78"

primrec unary_to_u8 :: "op_unary \<Rightarrow> byte" where
  "unary_to_u8 op_unary.NegInt = 0x7B"
| "unary_to_u8 op_unary.NotInt = 0x7C"
| "unary_to_u8 op_unary.NegLong = 0x7D"
| "unary_to_u8 op_unary.NotLong = 0x7E"
| "unary_to_u8 op_unary.NegFloat = 0x7F"
| "unary_to_u8 op_unary.NegDouble = 0x80"
| "unary_to_u8 op_unary.IntToLong = 0x81"
| "unary_to_u8 op_unary.IntToFloat = 0x82"
| "unary_to_u8 op_unary.IntToDouble = 0x83"
| "unary_to_u8 op_unary.LongToInt = 0x84"
| "unary_to_u8 op_unary.LongToFloat = 0x85"
| "unary_to_u8 op_unary.LongToDouble = 0x86"
| "unary_to_u8 op_unary.FloatToInt = 0x87"
| "unary_to_u8 op_unary.FloatToLong = 0x88"
| "unary_to_u8 op_unary.FloatToDouble = 0x89"
| "unary_to_u8 op_unary.DoubleToInt = 0x8A"
| "unary_to_u8 op_unary.DoubleToLong = 0x8B"
| "unary_to_u8 op_unary.DoubleToFloat = 0x8C"
| "unary_to_u8 op_unary.IntToByte = 0x8D"
| "unary_to_u8 op_unary.IntToChar = 0x8E"
| "unary_to_u8 op_unary.IntToShort = 0x8F"

primrec binary_to_u8 :: "op_binary \<Rightarrow> byte" where
  "binary_to_u8 op_binary.AddInt = 0x90"
| "binary_to_u8 op_binary.SubInt = 0x91"
| "binary_to_u8 op_binary.MulInt = 0x92"
| "binary_to_u8 op_binary.DivInt = 0x93"
| "binary_to_u8 op_binary.RemInt = 0x94"
| "binary_to_u8 op_binary.AndInt = 0x95"
| "binary_to_u8 op_binary.OrInt = 0x96"
| "binary_to_u8 op_binary.XorInt = 0x97"
| "binary_to_u8 op_binary.ShlInt = 0x98"
| "binary_to_u8 op_binary.ShrInt = 0x99"
| "binary_to_u8 op_binary.UshrInt = 0x9A"
| "binary_to_u8 op_binary.AddLong = 0x9B"
| "binary_to_u8 op_binary.SubLong = 0x9C"
| "binary_to_u8 op_binary.MulLong = 0x9D"
| "binary_to_u8 op_binary.DivLong = 0x9E"
| "binary_to_u8 op_binary.RemLong = 0x9F"
| "binary_to_u8 op_binary.AndLong = 0xA0"
| "binary_to_u8 op_binary.OrLong = 0xA1"
| "binary_to_u8 op_binary.XorLong = 0xA2"
| "binary_to_u8 op_binary.ShlLong = 0xA3"
| "binary_to_u8 op_binary.ShrLong = 0xA4"
| "binary_to_u8 op_binary.UshrLong = 0xA5"
| "binary_to_u8 op_binary.AddFloat = 0xA6"
| "binary_to_u8 op_binary.SubFloat = 0xA7"
| "binary_to_u8 op_binary.MulFloat = 0xA8"
| "binary_to_u8 op_binary.DivFloat = 0xA9"
| "binary_to_u8 op_binary.RemFloat = 0xAA"
| "binary_to_u8 op_binary.AddDouble = 0xAB"
| "binary_to_u8 op_binary.SubDouble = 0xAC"
| "binary_to_u8 op_binary.MulDouble = 0xAD"
| "binary_to_u8 op_binary.DivDouble = 0xAE"
| "binary_to_u8 op_binary.RemDouble = 0xAF"

primrec binary2_to_u8 :: "op_binary2 \<Rightarrow> byte" where
  "binary2_to_u8 op_binary2.AddInt2Addr = 0xB0"
| "binary2_to_u8 op_binary2.SubInt2Addr = 0xB1"
| "binary2_to_u8 op_binary2.MulInt2Addr = 0xB2"
| "binary2_to_u8 op_binary2.DivInt2Addr = 0xB3"
| "binary2_to_u8 op_binary2.RemInt2Addr = 0xB4"
| "binary2_to_u8 op_binary2.AndInt2Addr = 0xB5"
| "binary2_to_u8 op_binary2.OrInt2Addr = 0xB6"
| "binary2_to_u8 op_binary2.XorInt2Addr = 0xB7"
| "binary2_to_u8 op_binary2.ShlInt2Addr = 0xB8"
| "binary2_to_u8 op_binary2.ShrInt2Addr = 0xB9"
| "binary2_to_u8 op_binary2.UshrInt2Addr = 0xBA"
| "binary2_to_u8 op_binary2.AddLong2Addr = 0xBB"
| "binary2_to_u8 op_binary2.SubLong2Addr = 0xBC"
| "binary2_to_u8 op_binary2.MulLong2Addr = 0xBD"
| "binary2_to_u8 op_binary2.DivLong2Addr = 0xBE"
| "binary2_to_u8 op_binary2.RemLong2Addr = 0xBF"
| "binary2_to_u8 op_binary2.AndLong2Addr = 0xC0"
| "binary2_to_u8 op_binary2.OrLong2Addr = 0xC1"
| "binary2_to_u8 op_binary2.XorLong2Addr = 0xC2"
| "binary2_to_u8 op_binary2.ShlLong2Addr = 0xC3"
| "binary2_to_u8 op_binary2.ShrLong2Addr = 0xC4"
| "binary2_to_u8 op_binary2.UshrLong2Addr = 0xC5"
| "binary2_to_u8 op_binary2.AddFloat2Addr = 0xC6"
| "binary2_to_u8 op_binary2.SubFloat2Addr = 0xC7"
| "binary2_to_u8 op_binary2.MulFloat2Addr = 0xC8"
| "binary2_to_u8 op_binary2.DivFloat2Addr = 0xC9"
| "binary2_to_u8 op_binary2.RemFloat2Addr = 0xCA"
| "binary2_to_u8 op_binary2.AddDouble2Addr = 0xCB"
| "binary2_to_u8 op_binary2.SubDouble2Addr = 0xCC"
| "binary2_to_u8 op_binary2.MulDouble2Addr = 0xCD"
| "binary2_to_u8 op_binary2.DivDouble2Addr = 0xCE"
| "binary2_to_u8 op_binary2.RemDouble2Addr = 0xCF"

primrec lit_to_u8 :: "op_lit \<Rightarrow> byte" where
  "lit_to_u8 op_lit.AddIntLit16 = 0xD0"
| "lit_to_u8 op_lit.RsubInt = 0xD1"
| "lit_to_u8 op_lit.MulIntLit16 = 0xD2"
| "lit_to_u8 op_lit.DivIntLit16 = 0xD3"
| "lit_to_u8 op_lit.RemIntLit16 = 0xD4"
| "lit_to_u8 op_lit.AndIntLit16 = 0xD5"
| "lit_to_u8 op_lit.OrIntLit16 = 0xD6"
| "lit_to_u8 op_lit.XorIntLit16 = 0xD7"
| "lit_to_u8 op_lit.AddIntLit8 = 0xD8"
| "lit_to_u8 op_lit.RsubIntLit8 = 0xD9"
| "lit_to_u8 op_lit.MulIntLit8 = 0xDA"
| "lit_to_u8 op_lit.DivIntLit8 = 0xDB"
| "lit_to_u8 op_lit.RemIntLit8 = 0xDC"
| "lit_to_u8 op_lit.AndIntLit8 = 0xDD"
| "lit_to_u8 op_lit.OrIntLit8 = 0xDE"
| "lit_to_u8 op_lit.XorIntLit8 = 0xDF"
| "lit_to_u8 op_lit.ShlIntLit8 = 0xE0"
| "lit_to_u8 op_lit.ShrIntLit8 = 0xE1"
| "lit_to_u8 op_lit.UshrIntLit8 = 0xE2"

primrec handle_to_u8 :: "op_handle \<Rightarrow> byte" where
  "handle_to_u8 op_handle.InvokePolymorphic = 0xFA"
| "handle_to_u8 op_handle.InvokePolymorphicRange = 0xFB"
| "handle_to_u8 op_handle.InvokeCustom = 0xFC"
| "handle_to_u8 op_handle.InvokeCustomRange = 0xFD"
| "handle_to_u8 op_handle.ConstMethodHandle = 0xFE"
| "handle_to_u8 op_handle.ConstMethodType = 0xFF"

primrec to_u8 :: "Opcode \<Rightarrow> byte" where
  "to_u8 (OBase x) = base_to_u8 x"
| "to_u8 (OConst x) = const_to_u8 x"
| "to_u8 (OCmp x) = cmp_to_u8 x"
| "to_u8 (OArray x) = array_to_u8 x"
| "to_u8 (OIfield x) = ifield_to_u8 x"
| "to_u8 (OSfield x) = sfield_to_u8 x"
| "to_u8 (OInvoke x) = invoke_to_u8 x"
| "to_u8 (OUnary x) = unary_to_u8 x"
| "to_u8 (OBinary x) = binary_to_u8 x"
| "to_u8 (OBinary2 x) = binary2_to_u8 x"
| "to_u8 (OLit x) = lit_to_u8 x"
| "to_u8 (OHandle x) = handle_to_u8 x"

text \<open>The arms of the match of \<open>from_u8\<close>, by group, tried in order.\<close>

definition base_arms :: "(nat \<times> Opcode) list" where
  "base_arms =
     [(0x00, Nop), (0x01, Move), (0x02, MoveFrom16), (0x03, Move16),
      (0x04, MoveWide), (0x05, MoveWideFrom16), (0x06, MoveWide16), (0x07, MoveObject),
      (0x08, MoveObjectFrom16), (0x09, MoveObject16), (0x0A, MoveResult), (0x0B, MoveResultWide),
      (0x0C, MoveResultObject), (0x0D, MoveException), (0x0E, ReturnVoid), (0x0F, Return),
      (0x10, ReturnWide), (0x11, ReturnObject)]"

definition const_arms :: "(nat \<times> Opcode) list" where
  "const_arms =
     [(0x12, Const4), (0x13, Const16), (0x14, Const), (0x15, ConstHigh16),
      (0x16, ConstWide16), (0x17, ConstWide32), (0x18, ConstWide), (0x19, ConstWideHigh16),
      (0x1A, ConstString), (0x1B, ConstStringJumbo), (0x1C, ConstClass), (0x1D, MonitorEnter),
      (0x1E, MonitorExit), (0x1F, CheckCast), (0x20, InstanceOf), (0x21, ArrayLength),
      (0x22, NewInstance), (0x23, NewArray), (0x24, FilledNewArray), (0x25, FilledNewArrayRange),
      (0x26, FillArrayData), (0x27, Throw), (0x28, Goto), (0x29, Goto16),
      (0x2A, Goto32), (0x2B, PackedSwitch), (0x2C, SparseSwitch)]"

definition cmp_arms :: "(nat \<times> Opcode) list" where
  "cmp_arms =
     [(0x2D, CmplFloat), (0x2E, CmpgFloat), (0x2F, CmplDouble), (0x30, CmpgDouble),
      (0x31, CmpLong), (0x32, IfEq), (0x33, IfNe), (0x34, IfLt),
      (0x35, IfGe), (0x36, IfGt), (0x37, IfLe), (0x38, IfEqz),
      (0x39, IfNez), (0x3A, IfLtz), (0x3B, IfGez), (0x3C, IfGtz),
      (0x3D, IfLez)]"

definition array_arms :: "(nat \<times> Opcode) list" where
  "array_arms =
     [(0x44, Aget), (0x45, AgetWide), (0x46, AgetObject), (0x47, AgetBoolean),
      (0x48, AgetByte), (0x49, AgetChar), (0x4A, AgetShort), (0x4B, Aput),
      (0x4C, AputWide), (0x4D, AputObject), (0x4E, AputBoolean), (0x4F, AputByte),
      (0x50, AputChar), (0x51, AputShort)]"

definition ifield_arms :: "(nat \<times> Opcode) list" where
  "ifield_arms =
     [(0x52, Iget), (0x53, IgetWide), (0x54, IgetObject), (0x55, IgetBoolean),
      (0x56, IgetByte), (0x57, IgetChar), (0x58, IgetShort), (0x59, Iput),
      (0x5A, IputWide), (0x5B, IputObject), (0x5C, IputBoolean), (0x5D, IputByte),
      (0x5E, IputChar), (0x5F, IputShort)]"

definition sfield_arms :: "(nat \<times> Opcode) list" where
  "sfield_arms =
     [(0x60, Sget), (0x61, SgetWide), (0x62, SgetObject), (0x63, SgetBoolean),
      (0x64, SgetByte), (0x65, SgetChar), (0x66, SgetShort), (0x67, Sput),
      (0x68, SputWide), (0x69, SputObject), (0x6A, SputBoolean), (0x6B, SputByte),
      (0x6C, SputChar), (0x6D, SputShort)]"

definition invoke_arms :: "(nat \<times> Opcode) list" where
  "invoke_arms =
     [(0x6E, InvokeVirtual), (0x6F, InvokeSuper), (0x70, InvokeDirect), (0x71, InvokeStatic),
      (0x72, InvokeInterface), (0x74, InvokeVirtualRange), (0x75, InvokeSuperRange), (0x76, InvokeDirectRange),
      (0x77, InvokeStaticRange), (0x78, InvokeInterfaceRange)]"

definition unary_arms :: "(nat \<times> Opcode) list" where
  "unary_arms =
     [(0x7B, NegInt), (0x7C, NotInt), (0x7D, NegLong), (0x7E, NotLong),
      (0x7F, NegFloat), (0x80, NegDouble), (0x81, IntToLong), (0x82, IntToFloat),
      (0x83, IntToDouble), (0x84, LongToInt), (0x85, LongToFloat), (0x86, LongToDouble),
      (0x87, FloatToInt), (0x88, FloatToLong), (0x89, FloatToDouble), (0x8A, DoubleToInt),
      (0x8B, DoubleToLong), (0x8C, DoubleToFloat), (0x8D, IntToByte), (0x8E, IntToChar),
      (0x8F, IntToShort)]"

definition binary_arms :: "(nat \<times> Opcode) list" where
  "binary_arms =
     [(0x90, AddInt), (0x91, SubInt), (0x92, MulInt), (0x93, DivInt),
      (0x94, RemInt), (0x95, AndInt), (0x96, OrInt), (0x97, XorInt),
      (0x98, ShlInt), (0x99, ShrInt), (0x9A, UshrInt), (0x9B, AddLong),
      (0x9C, SubLong), (0x9D, MulLong), (0x9E, DivLong), (0x9F, RemLong),
      (0xA0, AndLong), (0xA1, OrLong), (0xA2, XorLong), (0xA3, ShlLong),
      (0xA4, ShrLong), (0xA5, UshrLong), (0xA6, AddFloat), (0xA7, SubFloat),
      (0xA8, MulFloat), (0xA9, DivFloat), (0xAA, RemFloat), (0xAB, AddDouble),
      (0xAC, SubDouble), (0xAD, MulDouble), (0xAE, DivDouble), (0xAF, RemDouble)]"

definition binary2_arms :: "(nat \<times> Opcode) list" where
  "binary2_arms =
     [(0xB0, AddInt2Addr), (0xB1, SubInt2Addr), (0xB2, MulInt2Addr), (0xB3, DivInt2Addr),
      (0xB4, RemInt2Addr), (0xB5, AndInt2Addr), (0xB6, OrInt2Addr), (0xB7, XorInt2Addr),
      (0xB8, ShlInt2Addr), (0xB9, ShrInt2Addr), (0xBA, UshrInt2Addr), (0xBB, AddLong2Addr),
      (0xBC, SubLong2Addr), (0xBD, MulLong2Addr), (0xBE, DivLong2Addr), (0xBF, RemLong2Addr),
      (0xC0, AndLong2Addr), (0xC1, OrLong2Addr), (0xC2, XorLong2Addr), (0xC3, ShlLong2Addr),
      (0xC4, ShrLong2Addr), (0xC5, UshrLong2Addr), (0xC6, AddFloat2Addr), (0xC7, SubFloat2Addr),
      (0xC8, MulFloat2Addr), (0xC9, DivFloat2Addr), (0xCA, RemFloat2Addr), (0xCB, AddDouble2Addr),
      (0xCC, SubDouble2Addr), (0xCD, MulDouble2Addr), (0xCE, DivDouble2Addr), (0xCF, RemDouble2Addr)]"

definition lit_arms :: "(nat \<times> Opcode) list" where
  "lit_arms =
     [(0xD0, AddIntLit16), (0xD1, RsubInt), (0xD2, MulIntLit16), (0xD3, DivIntLit16),
      (0xD4, RemIntLit16), (0xD5, AndIntLit16), (0xD6, OrIntLit16), (0xD7, XorIntLit16),
      (0xD8, AddIntLit8), (0xD9, RsubIntLit8), (0xDA, MulIntLit8), (0xDB, DivIntLit8),
      (0xDC, RemIntLit8), (0xDD, AndIntLit8), (0xDE, OrIntLit8), (0xDF, XorIntLit8),
      (0xE0, ShlIntLit8), (0xE1, ShrIntLit8), (0xE2, UshrIntLit8)]"

definition handle_arms :: "(nat \<times> Opcode) list" where
  "handle_arms =
     [(0xFA, InvokePolymorphic), (0xFB, InvokePolymorphicRange), (0xFC, InvokeCustom), (0xFD, InvokeCustomRange),
      (0xFE, ConstMethodHandle), (0xFF, ConstMethodType)]"

definition opcode_arms :: "(nat \<times> Opcode) list" where
  "opcode_arms =
     base_arms @ const_arms @ cmp_arms @ array_arms @ ifield_arms @ sfield_arms
     @ invoke_arms @ unary_arms @ binary_arms @ binary2_arms @ lit_arms @ handle_arms"

primrec arm_lookup :: "(nat \<times> Opcode) list \<Rightarrow> nat \<Rightarrow> Opcode option" where
  "arm_lookup [] k = None"
| "arm_lookup (arm # arms) k = (if fst arm = k then Some (snd arm) else arm_lookup arms k)"

definition from_u8 :: "byte \<Rightarrow> Opcode option" where
  "from_u8 b = arm_lookup opcode_arms (unat b)"

section \<open>Mnemonics\<close>

primrec base_mnemonic :: "op_base \<Rightarrow> string" where
  "base_mnemonic op_base.Nop = ''nop''"
| "base_mnemonic op_base.Move = ''move''"
| "base_mnemonic op_base.MoveFrom16 = ''move/from16''"
| "base_mnemonic op_base.Move16 = ''move/16''"
| "base_mnemonic op_base.MoveWide = ''move-wide''"
| "base_mnemonic op_base.MoveWideFrom16 = ''move-wide/from16''"
| "base_mnemonic op_base.MoveWide16 = ''move-wide/16''"
| "base_mnemonic op_base.MoveObject = ''move-object''"
| "base_mnemonic op_base.MoveObjectFrom16 = ''move-object/from16''"
| "base_mnemonic op_base.MoveObject16 = ''move-object/16''"
| "base_mnemonic op_base.MoveResult = ''move-result''"
| "base_mnemonic op_base.MoveResultWide = ''move-result-wide''"
| "base_mnemonic op_base.MoveResultObject = ''move-result-object''"
| "base_mnemonic op_base.MoveException = ''move-exception''"
| "base_mnemonic op_base.ReturnVoid = ''return-void''"
| "base_mnemonic op_base.Return = ''return''"
| "base_mnemonic op_base.ReturnWide = ''return-wide''"
| "base_mnemonic op_base.ReturnObject = ''return-object''"

primrec const_mnemonic :: "op_const \<Rightarrow> string" where
  "const_mnemonic op_const.Const4 = ''const/4''"
| "const_mnemonic op_const.Const16 = ''const/16''"
| "const_mnemonic op_const.Const = ''const''"
| "const_mnemonic op_const.ConstHigh16 = ''const/high16''"
| "const_mnemonic op_const.ConstWide16 = ''const-wide/16''"
| "const_mnemonic op_const.ConstWide32 = ''const-wide/32''"
| "const_mnemonic op_const.ConstWide = ''const-wide''"
| "const_mnemonic op_const.ConstWideHigh16 = ''const-wide/high16''"
| "const_mnemonic op_const.ConstString = ''const-string''"
| "const_mnemonic op_const.ConstStringJumbo = ''const-string/jumbo''"
| "const_mnemonic op_const.ConstClass = ''const-class''"
| "const_mnemonic op_const.MonitorEnter = ''monitor-enter''"
| "const_mnemonic op_const.MonitorExit = ''monitor-exit''"
| "const_mnemonic op_const.CheckCast = ''check-cast''"
| "const_mnemonic op_const.InstanceOf = ''instance-of''"
| "const_mnemonic op_const.ArrayLength = ''array-length''"
| "const_mnemonic op_const.NewInstance = ''new-instance''"
| "const_mnemonic op_const.NewArray = ''new-array''"
| "const_mnemonic op_const.FilledNewArray = ''filled-new-array''"
| "const_mnemonic op_const.FilledNewArrayRange = ''filled-new-array/range''"
| "const_mnemonic op_const.FillArrayData = ''fill-array-data''"
| "const_mnemonic op_const.Throw = ''throw''"
| "const_mnemonic op_const.Goto = ''goto''"
| "const_mnemonic op_const.Goto16 = ''goto/16''"
| "const_mnemonic op_const.Goto32 = ''goto/32''"
| "const_mnemonic op_const.PackedSwitch = ''packed-switch''"
| "const_mnemonic op_const.SparseSwitch = ''sparse-switch''"

primrec cmp_mnemonic :: "op_cmp \<Rightarrow> string" where
  "cmp_mnemonic op_cmp.CmplFloat = ''cmpl-float''"
| "cmp_mnemonic op_cmp.CmpgFloat = ''cmpg-float''"
| "cmp_mnemonic op_cmp.CmplDouble = ''cmpl-double''"
| "cmp_mnemonic op_cmp.CmpgDouble = ''cmpg-double''"
| "cmp_mnemonic op_cmp.CmpLong = ''cmp-long''"
| "cmp_mnemonic op_cmp.IfEq = ''if-eq''"
| "cmp_mnemonic op_cmp.IfNe = ''if-ne''"
| "cmp_mnemonic op_cmp.IfLt = ''if-lt''"
| "cmp_mnemonic op_cmp.IfGe = ''if-ge''"
| "cmp_mnemonic op_cmp.IfGt = ''if-gt''"
| "cmp_mnemonic op_cmp.IfLe = ''if-le''"
| "cmp_mnemonic op_cmp.IfEqz = ''if-eqz''"
| "cmp_mnemonic op_cmp.IfNez = ''if-nez''"
| "cmp_mnemonic op_cmp.IfLtz = ''if-ltz''"
| "cmp_mnemonic op_cmp.IfGez = ''if-gez''"
| "cmp_mnemonic op_cmp.IfGtz = ''if-gtz''"
| "cmp_mnemonic op_cmp.IfLez = ''if-lez''"

primrec array_mnemonic :: "op_array \<Rightarrow> string" where
  "array_mnemonic op_array.Aget = ''aget''"
| "array_mnemonic op_array.AgetWide = ''aget-wide''"
| "array_mnemonic op_array.AgetObject = ''aget-object''"
| "array_mnemonic op_array.AgetBoolean = ''aget-boolean''"
| "array_mnemonic op_array.AgetByte = ''aget-byte''"
| "array_mnemonic op_array.AgetChar = ''aget-char''"
| "array_mnemonic op_array.AgetShort = ''aget-short''"
| "array_mnemonic op_array.Aput = ''aput''"
| "array_mnemonic op_array.AputWide = ''aput-wide''"
| "array_mnemonic op_array.AputObject = ''aput-object''"
| "array_mnemonic op_array.AputBoolean = ''aput-boolean''"
| "array_mnemonic op_array.AputByte = ''aput-byte''"
| "array_mnemonic op_array.AputChar = ''aput-char''"
| "array_mnemonic op_array.AputShort = ''aput-short''"

primrec ifield_mnemonic :: "op_ifield \<Rightarrow> string" where
  "ifield_mnemonic op_ifield.Iget = ''iget''"
| "ifield_mnemonic op_ifield.IgetWide = ''iget-wide''"
| "ifield_mnemonic op_ifield.IgetObject = ''iget-object''"
| "ifield_mnemonic op_ifield.IgetBoolean = ''iget-boolean''"
| "ifield_mnemonic op_ifield.IgetByte = ''iget-byte''"
| "ifield_mnemonic op_ifield.IgetChar = ''iget-char''"
| "ifield_mnemonic op_ifield.IgetShort = ''iget-short''"
| "ifield_mnemonic op_ifield.Iput = ''iput''"
| "ifield_mnemonic op_ifield.IputWide = ''iput-wide''"
| "ifield_mnemonic op_ifield.IputObject = ''iput-object''"
| "ifield_mnemonic op_ifield.IputBoolean = ''iput-boolean''"
| "ifield_mnemonic op_ifield.IputByte = ''iput-byte''"
| "ifield_mnemonic op_ifield.IputChar = ''iput-char''"
| "ifield_mnemonic op_ifield.IputShort = ''iput-short''"

primrec sfield_mnemonic :: "op_sfield \<Rightarrow> string" where
  "sfield_mnemonic op_sfield.Sget = ''sget''"
| "sfield_mnemonic op_sfield.SgetWide = ''sget-wide''"
| "sfield_mnemonic op_sfield.SgetObject = ''sget-object''"
| "sfield_mnemonic op_sfield.SgetBoolean = ''sget-boolean''"
| "sfield_mnemonic op_sfield.SgetByte = ''sget-byte''"
| "sfield_mnemonic op_sfield.SgetChar = ''sget-char''"
| "sfield_mnemonic op_sfield.SgetShort = ''sget-short''"
| "sfield_mnemonic op_sfield.Sput = ''sput''"
| "sfield_mnemonic op_sfield.SputWide = ''sput-wide''"
| "sfield_mnemonic op_sfield.SputObject = ''sput-object''"
| "sfield_mnemonic op_sfield.SputBoolean = ''sput-boolean''"
| "sfield_mnemonic op_sfield.SputByte = ''sput-byte''"
| "sfield_mnemonic op_sfield.SputChar = ''sput-char''"
| "sfield_mnemonic op_sfield.SputShort = ''sput-short''"

primrec invoke_mnemonic :: "op_invoke \<Rightarrow> string" where
  "invoke_mnemonic op_invoke.InvokeVirtual = ''invoke-virtual''"
| "invoke_mnemonic op_invoke.InvokeSuper = ''invoke-super''"
| "invoke_mnemonic op_invoke.InvokeDirect = ''invoke-direct''"
| "invoke_mnemonic op_invoke.InvokeStatic = ''invoke-static''"
| "invoke_mnemonic op_invoke.InvokeInterface = ''invoke-interface''"
| "invoke_mnemonic op_invoke.InvokeVirtualRange = ''invoke-virtual/range''"
| "invoke_mnemonic op_invoke.InvokeSuperRange = ''invoke-super/range''"
| "invoke_mnemonic op_invoke.InvokeDirectRange = ''invoke-direct/range''"
| "invoke_mnemonic op_invoke.InvokeStaticRange = ''invoke-static/range''"
| "invoke_mnemonic op_invoke.InvokeInterfaceRange = ''invoke-interface/range''"

primrec unary_mnemonic :: "op_unary \<Rightarrow> string" where
  "unary_mnemonic op_unary.NegInt = ''neg-int''"
| "unary_mnemonic op_unary.NotInt = ''not-int''"
| "unary_mnemonic op_unary.NegLong = ''neg-long''"
| "unary_mnemonic op_unary.NotLong = ''not-long''"
| "unary_mnemonic op_unary.NegFloat = ''neg-float''"
| "unary_mnemonic op_unary.NegDouble = ''neg-double''"
| "unary_mnemonic op_unary.IntToLong = ''int-to-long''"
| "unary_mnemonic op_unary.IntToFloat = ''int-to-float''"
| "unary_mnemonic op_unary.IntToDouble = ''int-to-double''"
| "unary_mnemonic op_unary.LongToInt = ''long-to-int''"
| "unary_mnemonic op_unary.LongToFloat = ''long-to-float''"
| "unary_mnemonic op_unary.LongToDouble = ''long-to-double''"
| "unary_mnemonic op_unary.FloatToInt = ''float-to-int''"
| "unary_mnemonic op_unary.FloatToLong = ''float-to-long''"
| "unary_mnemonic op_unary.FloatToDouble = ''float-to-double''"
| "unary_mnemonic op_unary.DoubleToInt = ''double-to-int''"
| "unary_mnemonic op_unary.DoubleToLong = ''double-to-long''"
| "unary_mnemonic op_unary.DoubleToFloat = ''double-to-float''"
| "unary_mnemonic op_unary.IntToByte = ''int-to-byte''"
| "unary_mnemonic op_unary.IntToChar = ''int-to-char''"
| "unary_mnemonic op_unary.IntToShort = ''int-to-short''"

primrec binary_mnemonic :: "op_binary \<Rightarrow> string" where
  "binary_mnemonic op_binary.AddInt = ''add-int''"
| "binary_mnemonic op_binary.SubInt = ''sub-int''"
| "binary_mnemonic op_binary.MulInt = ''mul-int''"
| "binary_mnemonic op_binary.DivInt = ''div-int''"
| "binary_mnemonic op_binary.RemInt = ''rem-int''"
| "binary_mnemonic op_binary.AndInt = ''and-int''"
| "binary_mnemonic op_binary.OrInt = ''or-int''"
| "binary_mnemonic op_binary.XorInt = ''xor-int''"
| "binary_mnemonic op_binary.ShlInt = ''shl-int''"
| "binary_mnemonic op_binary.ShrInt = ''shr-int''"
| "binary_mnemonic op_binary.UshrInt = ''ushr-int''"
| "binary_mnemonic op_binary.AddLong = ''add-long''"
| "binary_mnemonic op_binary.SubLong = ''sub-long''"
| "binary_mnemonic op_binary.MulLong = ''mul-long''"
| "binary_mnemonic op_binary.DivLong = ''div-long''"
| "binary_mnemonic op_binary.RemLong = ''rem-long''"
| "binary_mnemonic op_binary.AndLong = ''and-long''"
| "binary_mnemonic op_binary.OrLong = ''or-long''"
| "binary_mnemonic op_binary.XorLong = ''xor-long''"
| "binary_mnemonic op_binary.ShlLong = ''shl-long''"
| "binary_mnemonic op_binary.ShrLong = ''shr-long''"
| "binary_mnemonic op_binary.UshrLong = ''ushr-long''"
| "binary_mnemonic op_binary.AddFloat = ''add-float''"
| "binary_mnemonic op_binary.SubFloat = ''sub-float''"
| "binary_mnemonic op_binary.MulFloat = ''mul-float''"
| "binary_mnemonic op_binary.DivFloat = ''div-float''"
| "binary_mnemonic op_binary.RemFloat = ''rem-float''"
| "binary_mnemonic op_binary.AddDouble = ''add-double''"
| "binary_mnemonic op_binary.SubDouble = ''sub-double''"
| "binary_mnemonic op_binary.MulDouble = ''mul-double''"
| "binary_mnemonic op_binary.DivDouble = ''div-double''"
| "binary_mnemonic op_binary.RemDouble = ''rem-double''"

primrec binary2_mnemonic :: "op_binary2 \<Rightarrow> string" where
  "binary2_mnemonic op_binary2.AddInt2Addr = ''add-int/2addr''"
| "binary2_mnemonic op_binary2.SubInt2Addr = ''sub-int/2addr''"
| "binary2_mnemonic op_binary2.MulInt2Addr = ''mul-int/2addr''"
| "binary2_mnemonic op_binary2.DivInt2Addr = ''div-int/2addr''"
| "binary2_mnemonic op_binary2.RemInt2Addr = ''rem-int/2addr''"
| "binary2_mnemonic op_binary2.AndInt2Addr = ''and-int/2addr''"
| "binary2_mnemonic op_binary2.OrInt2Addr = ''or-int/2addr''"
| "binary2_mnemonic op_binary2.XorInt2Addr = ''xor-int/2addr''"
| "binary2_mnemonic op_binary2.ShlInt2Addr = ''shl-int/2addr''"
| "binary2_mnemonic op_binary2.ShrInt2Addr = ''shr-int/2addr''"
| "binary2_mnemonic op_binary2.UshrInt2Addr = ''ushr-int/2addr''"
| "binary2_mnemonic op_binary2.AddLong2Addr = ''add-long/2addr''"
| "binary2_mnemonic op_binary2.SubLong2Addr = ''sub-long/2addr''"
| "binary2_mnemonic op_binary2.MulLong2Addr = ''mul-long/2addr''"
| "binary2_mnemonic op_binary2.DivLong2Addr = ''div-long/2addr''"
| "binary2_mnemonic op_binary2.RemLong2Addr = ''rem-long/2addr''"
| "binary2_mnemonic op_binary2.AndLong2Addr = ''and-long/2addr''"
| "binary2_mnemonic op_binary2.OrLong2Addr = ''or-long/2addr''"
| "binary2_mnemonic op_binary2.XorLong2Addr = ''xor-long/2addr''"
| "binary2_mnemonic op_binary2.ShlLong2Addr = ''shl-long/2addr''"
| "binary2_mnemonic op_binary2.ShrLong2Addr = ''shr-long/2addr''"
| "binary2_mnemonic op_binary2.UshrLong2Addr = ''ushr-long/2addr''"
| "binary2_mnemonic op_binary2.AddFloat2Addr = ''add-float/2addr''"
| "binary2_mnemonic op_binary2.SubFloat2Addr = ''sub-float/2addr''"
| "binary2_mnemonic op_binary2.MulFloat2Addr = ''mul-float/2addr''"
| "binary2_mnemonic op_binary2.DivFloat2Addr = ''div-float/2addr''"
| "binary2_mnemonic op_binary2.RemFloat2Addr = ''rem-float/2addr''"
| "binary2_mnemonic op_binary2.AddDouble2Addr = ''add-double/2addr''"
| "binary2_mnemonic op_binary2.SubDouble2Addr = ''sub-double/2addr''"
| "binary2_mnemonic op_binary2.MulDouble2Addr = ''mul-double/2addr''"
| "binary2_mnemonic op_binary2.DivDouble2Addr = ''div-double/2addr''"
| "binary2_mnemonic op_binary2.RemDouble2Addr = ''rem-double/2addr''"

primrec lit_mnemonic :: "op_lit \<Rightarrow> string" where
  "lit_mnemonic op_lit.AddIntLit16 = ''add-int/lit16''"
| "lit_mnemonic op_lit.RsubInt = ''rsub-int''"
| "lit_mnemonic op_lit.MulIntLit16 = ''mul-int/lit16''"
| "lit_mnemonic op_lit.DivIntLit16 = ''div-int/lit16''"
| "lit_mnemonic op_lit.RemIntLit16 = ''rem-int/lit16''"
| "lit_mnemonic op_lit.AndIntLit16 = ''and-int/lit16''"
| "lit_mnemonic op_lit.OrIntLit16 = ''or-int/lit16''"
| "lit_mnemonic op_lit.XorIntLit16 = ''xor-int/lit16''"
| "lit_mnemonic op_lit.AddIntLit8 = ''add-int/lit8''"
| "lit_mnemonic op_lit.RsubIntLit8 = ''rsub-int/lit8''"
| "lit_mnemonic op_lit.MulIntLit8 = ''mul-int/lit8''"
| "lit_mnemonic op_lit.DivIntLit8 = ''div-int/lit8''"
| "lit_mnemonic op_lit.RemIntLit8 = ''rem-int/lit8''"
| "lit_mnemonic op_lit.AndIntLit8 = ''and-int/lit8''"
| "lit_mnemonic op_lit.OrIntLit8 = ''or-int/lit8''"
| "lit_mnemonic op_lit.XorIntLit8 = ''xor-int/lit8''"
| "lit_mnemonic op_lit.ShlIntLit8 = ''shl-int/lit8''"
| "lit_mnemonic op_lit.ShrIntLit8 = ''shr-int/lit8''"
| "lit_mnemonic op_lit.UshrIntLit8 = ''ushr-int/lit8''"

primrec handle_mnemonic :: "op_handle \<Rightarrow> string" where
  "handle_mnemonic op_handle.InvokePolymorphic = ''invoke-polymorphic''"
| "handle_mnemonic op_handle.InvokePolymorphicRange = ''invoke-polymorphic/range''"
| "handle_mnemonic op_handle.InvokeCustom = ''invoke-custom''"
| "handle_mnemonic op_handle.InvokeCustomRange = ''invoke-custom/range''"
| "handle_mnemonic op_handle.ConstMethodHandle = ''const-method-handle''"
| "handle_mnemonic op_handle.ConstMethodType = ''const-method-type''"

primrec mnemonic :: "Opcode \<Rightarrow> string" where
  "mnemonic (OBase x) = base_mnemonic x"
| "mnemonic (OConst x) = const_mnemonic x"
| "mnemonic (OCmp x) = cmp_mnemonic x"
| "mnemonic (OArray x) = array_mnemonic x"
| "mnemonic (OIfield x) = ifield_mnemonic x"
| "mnemonic (OSfield x) = sfield_mnemonic x"
| "mnemonic (OInvoke x) = invoke_mnemonic x"
| "mnemonic (OUnary x) = unary_mnemonic x"
| "mnemonic (OBinary x) = binary_mnemonic x"
| "mnemonic (OBinary2 x) = binary2_mnemonic x"
| "mnemonic (OLit x) = lit_mnemonic x"
| "mnemonic (OHandle x) = handle_mnemonic x"

primrec base_smali_mnemonic :: "op_base \<Rightarrow> string" where
  "base_smali_mnemonic op_base.Nop = ''nop''"
| "base_smali_mnemonic op_base.Move = ''move''"
| "base_smali_mnemonic op_base.MoveFrom16 = ''move/from16''"
| "base_smali_mnemonic op_base.Move16 = ''move/16''"
| "base_smali_mnemonic op_base.MoveWide = ''move-wide''"
| "base_smali_mnemonic op_base.MoveWideFrom16 = ''move-wide/from16''"
| "base_smali_mnemonic op_base.MoveWide16 = ''move-wide/16''"
| "base_smali_mnemonic op_base.MoveObject = ''move-object''"
| "base_smali_mnemonic op_base.MoveObjectFrom16 = ''move-object/from16''"
| "base_smali_mnemonic op_base.MoveObject16 = ''move-object/16''"
| "base_smali_mnemonic op_base.MoveResult = ''move-result''"
| "base_smali_mnemonic op_base.MoveResultWide = ''move-result-wide''"
| "base_smali_mnemonic op_base.MoveResultObject = ''move-result-object''"
| "base_smali_mnemonic op_base.MoveException = ''move-exception''"
| "base_smali_mnemonic op_base.ReturnVoid = ''return-void''"
| "base_smali_mnemonic op_base.Return = ''return''"
| "base_smali_mnemonic op_base.ReturnWide = ''return-wide''"
| "base_smali_mnemonic op_base.ReturnObject = ''return-object''"

primrec const_smali_mnemonic :: "op_const \<Rightarrow> string" where
  "const_smali_mnemonic op_const.Const4 = ''const/4''"
| "const_smali_mnemonic op_const.Const16 = ''const/16''"
| "const_smali_mnemonic op_const.Const = ''const''"
| "const_smali_mnemonic op_const.ConstHigh16 = ''const/high16''"
| "const_smali_mnemonic op_const.ConstWide16 = ''const-wide/16''"
| "const_smali_mnemonic op_const.ConstWide32 = ''const-wide/32''"
| "const_smali_mnemonic op_const.ConstWide = ''const-wide''"
| "const_smali_mnemonic op_const.ConstWideHigh16 = ''const-wide/high16''"
| "const_smali_mnemonic op_const.ConstString = ''const-string''"
| "const_smali_mnemonic op_const.ConstStringJumbo = ''const-string/jumbo''"
| "const_smali_mnemonic op_const.ConstClass = ''const-class''"
| "const_smali_mnemonic op_const.MonitorEnter = ''monitor-enter''"
| "const_smali_mnemonic op_const.MonitorExit = ''monitor-exit''"
| "const_smali_mnemonic op_const.CheckCast = ''check-cast''"
| "const_smali_mnemonic op_const.InstanceOf = ''instance-of''"
| "const_smali_mnemonic op_const.ArrayLength = ''array-length''"
| "const_smali_mnemonic op_const.NewInstance = ''new-instance''"
| "const_smali_mnemonic op_const.NewArray = ''new-array''"
| "const_smali_mnemonic op_const.FilledNewArray = ''filled-new-array''"
| "const_smali_mnemonic op_const.FilledNewArrayRange = ''filled-new-array/range''"
| "const_smali_mnemonic op_const.FillArrayData = ''fill-array-data''"
| "const_smali_mnemonic op_const.Throw = ''throw''"
| "const_smali_mnemonic op_const.Goto = ''goto''"
| "const_smali_mnemonic op_const.Goto16 = ''goto/16''"
| "const_smali_mnemonic op_const.Goto32 = ''goto/32''"
| "const_smali_mnemonic op_const.PackedSwitch = ''packed-switch''"
| "const_smali_mnemonic op_const.SparseSwitch = ''sparse-switch''"

primrec cmp_smali_mnemonic :: "op_cmp \<Rightarrow> string" where
  "cmp_smali_mnemonic op_cmp.CmplFloat = ''cmpl-float''"
| "cmp_smali_mnemonic op_cmp.CmpgFloat = ''cmpg-float''"
| "cmp_smali_mnemonic op_cmp.CmplDouble = ''cmpl-double''"
| "cmp_smali_mnemonic op_cmp.CmpgDouble = ''cmpg-double''"
| "cmp_smali_mnemonic op_cmp.CmpLong = ''cmp-long''"
| "cmp_smali_mnemonic op_cmp.IfEq = ''if-eq''"
| "cmp_smali_mnemonic op_cmp.IfNe = ''if-ne''"
| "cmp_smali_mnemonic op_cmp.IfLt = ''if-lt''"
| "cmp_smali_mnemonic op_cmp.IfGe = ''if-ge''"
| "cmp_smali_mnemonic op_cmp.IfGt = ''if-gt''"
| "cmp_smali_mnemonic op_cmp.IfLe = ''if-le''"
| "cmp_smali_mnemonic op_cmp.IfEqz = ''if-eqz''"
| "cmp_smali_mnemonic op_cmp.IfNez = ''if-nez''"
| "cmp_smali_mnemonic op_cmp.IfLtz = ''if-ltz''"
| "cmp_smali_mnemonic op_cmp.IfGez = ''if-gez''"
| "cmp_smali_mnemonic op_cmp.IfGtz = ''if-gtz''"
| "cmp_smali_mnemonic op_cmp.IfLez = ''if-lez''"

primrec array_smali_mnemonic :: "op_array \<Rightarrow> string" where
  "array_smali_mnemonic op_array.Aget = ''aget''"
| "array_smali_mnemonic op_array.AgetWide = ''aget-wide''"
| "array_smali_mnemonic op_array.AgetObject = ''aget-object''"
| "array_smali_mnemonic op_array.AgetBoolean = ''aget-boolean''"
| "array_smali_mnemonic op_array.AgetByte = ''aget-byte''"
| "array_smali_mnemonic op_array.AgetChar = ''aget-char''"
| "array_smali_mnemonic op_array.AgetShort = ''aget-short''"
| "array_smali_mnemonic op_array.Aput = ''aput''"
| "array_smali_mnemonic op_array.AputWide = ''aput-wide''"
| "array_smali_mnemonic op_array.AputObject = ''aput-object''"
| "array_smali_mnemonic op_array.AputBoolean = ''aput-boolean''"
| "array_smali_mnemonic op_array.AputByte = ''aput-byte''"
| "array_smali_mnemonic op_array.AputChar = ''aput-char''"
| "array_smali_mnemonic op_array.AputShort = ''aput-short''"

primrec ifield_smali_mnemonic :: "op_ifield \<Rightarrow> string" where
  "ifield_smali_mnemonic op_ifield.Iget = ''iget''"
| "ifield_smali_mnemonic op_ifield.IgetWide = ''iget-wide''"
| "ifield_smali_mnemonic op_ifield.IgetObject = ''iget-object''"
| "ifield_smali_mnemonic op_ifield.IgetBoolean = ''iget-boolean''"
| "ifield_smali_mnemonic op_ifield.IgetByte = ''iget-byte''"
| "ifield_smali_mnemonic op_ifield.IgetChar = ''iget-char''"
| "ifield_smali_mnemonic op_ifield.IgetShort = ''iget-short''"
| "ifield_smali_mnemonic op_ifield.Iput = ''iput''"
| "ifield_smali_mnemonic op_ifield.IputWide = ''iput-wide''"
| "ifield_smali_mnemonic op_ifield.IputObject = ''iput-object''"
| "ifield_smali_mnemonic op_ifield.IputBoolean = ''iput-boolean''"
| "ifield_smali_mnemonic op_ifield.IputByte = ''iput-byte''"
| "ifield_smali_mnemonic op_ifield.IputChar = ''iput-char''"
| "ifield_smali_mnemonic op_ifield.IputShort = ''iput-short''"

primrec sfield_smali_mnemonic :: "op_sfield \<Rightarrow> string" where
  "sfield_smali_mnemonic op_sfield.Sget = ''sget''"
| "sfield_smali_mnemonic op_sfield.SgetWide = ''sget-wide''"
| "sfield_smali_mnemonic op_sfield.SgetObject = ''sget-object''"
| "sfield_smali_mnemonic op_sfield.SgetBoolean = ''sget-boolean''"
| "sfield_smali_mnemonic op_sfield.SgetByte = ''sget-byte''"
| "sfield_smali_mnemonic op_sfield.SgetChar = ''sget-char''"
| "sfield_smali_mnemonic op_sfield.SgetShort = ''sget-short''"
| "sfield_smali_mnemonic op_sfield.Sput = ''sput''"
| "sfield_smali_mnemonic op_sfield.SputWide = ''sput-wide''"
| "sfield_smali_mnemonic op_sfield.SputObject = ''sput-object''"
| "sfield_smali_mnemonic op_sfield.SputBoolean = ''sput-boolean''"
| "sfield_smali_mnemonic op_sfield.SputByte = ''sput-byte''"
| "sfield_smali_mnemonic op_sfield.SputChar = ''sput-char''"
| "sfield_smali_mnemonic op_sfield.SputShort = ''sput-short''"

primrec invoke_smali_mnemonic :: "op_invoke \<Rightarrow> string" where
  "invoke_smali_mnemonic op_invoke.InvokeVirtual = ''invoke-virtual''"
| "invoke_smali_mnemonic op_invoke.InvokeSuper = ''invoke-super''"
| "invoke_smali_mnemonic op_invoke.InvokeDirect = ''invoke-direct''"
| "invoke_smali_mnemonic op_invoke.InvokeStatic = ''invoke-static''"
| "invoke_smali_mnemonic op_invoke.InvokeInterface = ''invoke-interface''"
| "invoke_smali_mnemonic op_invoke.InvokeVirtualRange = ''invoke-virtual/range''"
| "invoke_smali_mnemonic op_invoke.InvokeSuperRange = ''invoke-super/range''"
| "invoke_smali_mnemonic op_invoke.InvokeDirectRange = ''invoke-direct/range''"
| "invoke_smali_mnemonic op_invoke.InvokeStaticRange = ''invoke-static/range''"
| "invoke_smali_mnemonic op_invoke.InvokeInterfaceRange = ''invoke-interface/range''"

primrec unary_smali_mnemonic :: "op_unary \<Rightarrow> string" where
  "unary_smali_mnemonic op_unary.NegInt = ''neg-int''"
| "unary_smali_mnemonic op_unary.NotInt = ''not-int''"
| "unary_smali_mnemonic op_unary.NegLong = ''neg-long''"
| "unary_smali_mnemonic op_unary.NotLong = ''not-long''"
| "unary_smali_mnemonic op_unary.NegFloat = ''neg-float''"
| "unary_smali_mnemonic op_unary.NegDouble = ''neg-double''"
| "unary_smali_mnemonic op_unary.IntToLong = ''int-to-long''"
| "unary_smali_mnemonic op_unary.IntToFloat = ''int-to-float''"
| "unary_smali_mnemonic op_unary.IntToDouble = ''int-to-double''"
| "unary_smali_mnemonic op_unary.LongToInt = ''long-to-int''"
| "unary_smali_mnemonic op_unary.LongToFloat = ''long-to-float''"
| "unary_smali_mnemonic op_unary.LongToDouble = ''long-to-double''"
| "unary_smali_mnemonic op_unary.FloatToInt = ''float-to-int''"
| "unary_smali_mnemonic op_unary.FloatToLong = ''float-to-long''"
| "unary_smali_mnemonic op_unary.FloatToDouble = ''float-to-double''"
| "unary_smali_mnemonic op_unary.DoubleToInt = ''double-to-int''"
| "unary_smali_mnemonic op_unary.DoubleToLong = ''double-to-long''"
| "unary_smali_mnemonic op_unary.DoubleToFloat = ''double-to-float''"
| "unary_smali_mnemonic op_unary.IntToByte = ''int-to-byte''"
| "unary_smali_mnemonic op_unary.IntToChar = ''int-to-char''"
| "unary_smali_mnemonic op_unary.IntToShort = ''int-to-short''"

primrec binary_smali_mnemonic :: "op_binary \<Rightarrow> string" where
  "binary_smali_mnemonic op_binary.AddInt = ''add-int''"
| "binary_smali_mnemonic op_binary.SubInt = ''sub-int''"
| "binary_smali_mnemonic op_binary.MulInt = ''mul-int''"
| "binary_smali_mnemonic op_binary.DivInt = ''div-int''"
| "binary_smali_mnemonic op_binary.RemInt = ''rem-int''"
| "binary_smali_mnemonic op_binary.AndInt = ''and-int''"
| "binary_smali_mnemonic op_binary.OrInt = ''or-int''"
| "binary_smali_mnemonic op_binary.XorInt = ''xor-int''"
| "binary_smali_mnemonic op_binary.ShlInt = ''shl-int''"
| "binary_smali_mnemonic op_binary.ShrInt = ''shr-int''"
| "binary_smali_mnemonic op_binary.UshrInt = ''ushr-int''"
| "binary_smali_mnemonic op_binary.AddLong = ''add-long''"
| "binary_smali_mnemonic op_binary.SubLong = ''sub-long''"
| "binary_smali_mnemonic op_binary.MulLong = ''mul-long''"
| "binary_smali_mnemonic op_binary.DivLong = ''div-long''"
| "binary_smali_mnemonic op_binary.RemLong = ''rem-long''"
| "binary_smali_mnemonic op_binary.AndLong = ''and-long''"
| "binary_smali_mnemonic op_binary.OrLong = ''or-long''"
| "binary_smali_mnemonic op_binary.XorLong = ''xor-long''"
| "binary_smali_mnemonic op_binary.ShlLong = ''shl-long''"
| "binary_smali_mnemonic op_binary.ShrLong = ''shr-long''"
| "binary_smali_mnemonic op_binary.UshrLong = ''ushr-long''"
| "binary_smali_mnemonic op_binary.AddFloat = ''add-float''"
| "binary_smali_mnemonic op_binary.SubFloat = ''sub-float''"
| "binary_smali_mnemonic op_binary.MulFloat = ''mul-float''"
| "binary_smali_mnemonic op_binary.DivFloat = ''div-float''"
| "binary_smali_mnemonic op_binary.RemFloat = ''rem-float''"
| "binary_smali_mnemonic op_binary.AddDouble = ''add-double''"
| "binary_smali_mnemonic op_binary.SubDouble = ''sub-double''"
| "binary_smali_mnemonic op_binary.MulDouble = ''mul-double''"
| "binary_smali_mnemonic op_binary.DivDouble = ''div-double''"
| "binary_smali_mnemonic op_binary.RemDouble = ''rem-double''"

primrec binary2_smali_mnemonic :: "op_binary2 \<Rightarrow> string" where
  "binary2_smali_mnemonic op_binary2.AddInt2Addr = ''add-int/2addr''"
| "binary2_smali_mnemonic op_binary2.SubInt2Addr = ''sub-int/2addr''"
| "binary2_smali_mnemonic op_binary2.MulInt2Addr = ''mul-int/2addr''"
| "binary2_smali_mnemonic op_binary2.DivInt2Addr = ''div-int/2addr''"
| "binary2_smali_mnemonic op_binary2.RemInt2Addr = ''rem-int/2addr''"
| "binary2_smali_mnemonic op_binary2.AndInt2Addr = ''and-int/2addr''"
| "binary2_smali_mnemonic op_binary2.OrInt2Addr = ''or-int/2addr''"
| "binary2_smali_mnemonic op_binary2.XorInt2Addr = ''xor-int/2addr''"
| "binary2_smali_mnemonic op_binary2.ShlInt2Addr = ''shl-int/2addr''"
| "binary2_smali_mnemonic op_binary2.ShrInt2Addr = ''shr-int/2addr''"
| "binary2_smali_mnemonic op_binary2.UshrInt2Addr = ''ushr-int/2addr''"
| "binary2_smali_mnemonic op_binary2.AddLong2Addr = ''add-long/2addr''"
| "binary2_smali_mnemonic op_binary2.SubLong2Addr = ''sub-long/2addr''"
| "binary2_smali_mnemonic op_binary2.MulLong2Addr = ''mul-long/2addr''"
| "binary2_smali_mnemonic op_binary2.DivLong2Addr = ''div-long/2addr''"
| "binary2_smali_mnemonic op_binary2.RemLong2Addr = ''rem-long/2addr''"
| "binary2_smali_mnemonic op_binary2.AndLong2Addr = ''and-long/2addr''"
| "binary2_smali_mnemonic op_binary2.OrLong2Addr = ''or-long/2addr''"
| "binary2_smali_mnemonic op_binary2.XorLong2Addr = ''xor-long/2addr''"
| "binary2_smali_mnemonic op_binary2.ShlLong2Addr = ''shl-long/2addr''"
| "binary2_smali_mnemonic op_binary2.ShrLong2Addr = ''shr-long/2addr''"
| "binary2_smali_mnemonic op_binary2.UshrLong2Addr = ''ushr-long/2addr''"
| "binary2_smali_mnemonic op_binary2.AddFloat2Addr = ''add-float/2addr''"
| "binary2_smali_mnemonic op_binary2.SubFloat2Addr = ''sub-float/2addr''"
| "binary2_smali_mnemonic op_binary2.MulFloat2Addr = ''mul-float/2addr''"
| "binary2_smali_mnemonic op_binary2.DivFloat2Addr = ''div-float/2addr''"
| "binary2_smali_mnemonic op_binary2.RemFloat2Addr = ''rem-float/2addr''"
| "binary2_smali_mnemonic op_binary2.AddDouble2Addr = ''add-double/2addr''"
| "binary2_smali_mnemonic op_binary2.SubDouble2Addr = ''sub-double/2addr''"
| "binary2_smali_mnemonic op_binary2.MulDouble2Addr = ''mul-double/2addr''"
| "binary2_smali_mnemonic op_binary2.DivDouble2Addr = ''div-double/2addr''"
| "binary2_smali_mnemonic op_binary2.RemDouble2Addr = ''rem-double/2addr''"

primrec lit_smali_mnemonic :: "op_lit \<Rightarrow> string" where
  "lit_smali_mnemonic op_lit.AddIntLit16 = ''add-int/lit16''"
| "lit_smali_mnemonic op_lit.RsubInt = ''rsub-int''"
| "lit_smali_mnemonic op_lit.MulIntLit16 = ''mul-int/lit16''"
| "lit_smali_mnemonic op_lit.DivIntLit16 = ''div-int/lit16''"
| "lit_smali_mnemonic op_lit.RemIntLit16 = ''rem-int/lit16''"
| "lit_smali_mnemonic op_lit.AndIntLit16 = ''and-int/lit16''"
| "lit_smali_mnemonic op_lit.OrIntLit16 = ''or-int/lit16''"
| "lit_smali_mnemonic op_lit.XorIntLit16 = ''xor-int/lit16''"
| "lit_smali_mnemonic op_lit.AddIntLit8 = ''add-int/lit8''"
| "lit_smali_mnemonic op_lit.RsubIntLit8 = ''rsub-int/lit8''"
| "lit_smali_mnemonic op_lit.MulIntLit8 = ''mul-int/lit8''"
| "lit_smali_mnemonic op_lit.DivIntLit8 = ''div-int/lit8''"
| "lit_smali_mnemonic op_lit.RemIntLit8 = ''rem-int/lit8''"
| "lit_smali_mnemonic op_lit.AndIntLit8 = ''and-int/lit8''"
| "lit_smali_mnemonic op_lit.OrIntLit8 = ''or-int/lit8''"
| "lit_smali_mnemonic op_lit.XorIntLit8 = ''xor-int/lit8''"
| "lit_smali_mnemonic op_lit.ShlIntLit8 = ''shl-int/lit8''"
| "lit_smali_mnemonic op_lit.ShrIntLit8 = ''shr-int/lit8''"
| "lit_smali_mnemonic op_lit.UshrIntLit8 = ''ushr-int/lit8''"

primrec handle_smali_mnemonic :: "op_handle \<Rightarrow> string" where
  "handle_smali_mnemonic op_handle.InvokePolymorphic = ''invoke-polymorphic''"
| "handle_smali_mnemonic op_handle.InvokePolymorphicRange = ''invoke-polymorphic/range''"
| "handle_smali_mnemonic op_handle.InvokeCustom = ''invoke-custom''"
| "handle_smali_mnemonic op_handle.InvokeCustomRange = ''invoke-custom/range''"
| "handle_smali_mnemonic op_handle.ConstMethodHandle = ''const-method-handle''"
| "handle_smali_mnemonic op_handle.ConstMethodType = ''const-method-type''"

primrec smali_mnemonic :: "Opcode \<Rightarrow> string" where
  "smali_mnemonic (OBase x) = base_smali_mnemonic x"
| "smali_mnemonic (OConst x) = const_smali_mnemonic x"
| "smali_mnemonic (OCmp x) = cmp_smali_mnemonic x"
| "smali_mnemonic (OArray x) = array_smali_mnemonic x"
| "smali_mnemonic (OIfield x) = ifield_smali_mnemonic x"
| "smali_mnemonic (OSfield x) = sfield_smali_mnemonic x"
| "smali_mnemonic (OInvoke x) = invoke_smali_mnemonic x"
| "smali_mnemonic (OUnary x) = unary_smali_mnemonic x"
| "smali_mnemonic (OBinary x) = binary_smali_mnemonic x"
| "smali_mnemonic (OBinary2 x) = binary2_smali_mnemonic x"
| "smali_mnemonic (OLit x) = lit_smali_mnemonic x"
| "smali_mnemonic (OHandle x) = handle_smali_mnemonic x"

section \<open>The arms agree with the discriminants\<close>

lemmas arm_defs = base_arms_def const_arms_def cmp_arms_def array_arms_def ifield_arms_def sfield_arms_def invoke_arms_def unary_arms_def binary_arms_def binary2_arms_def lit_arms_def handle_arms_def

lemma base_arms_complete: "(unat (base_to_u8 x), OBase x) \<in> set base_arms"
  by (cases x) (simp_all add: base_arms_def)

lemma const_arms_complete: "(unat (const_to_u8 x), OConst x) \<in> set const_arms"
  by (cases x) (simp_all add: const_arms_def)

lemma cmp_arms_complete: "(unat (cmp_to_u8 x), OCmp x) \<in> set cmp_arms"
  by (cases x) (simp_all add: cmp_arms_def)

lemma array_arms_complete: "(unat (array_to_u8 x), OArray x) \<in> set array_arms"
  by (cases x) (simp_all add: array_arms_def)

lemma ifield_arms_complete: "(unat (ifield_to_u8 x), OIfield x) \<in> set ifield_arms"
  by (cases x) (simp_all add: ifield_arms_def)

lemma sfield_arms_complete: "(unat (sfield_to_u8 x), OSfield x) \<in> set sfield_arms"
  by (cases x) (simp_all add: sfield_arms_def)

lemma invoke_arms_complete: "(unat (invoke_to_u8 x), OInvoke x) \<in> set invoke_arms"
  by (cases x) (simp_all add: invoke_arms_def)

lemma unary_arms_complete: "(unat (unary_to_u8 x), OUnary x) \<in> set unary_arms"
  by (cases x) (simp_all add: unary_arms_def)

lemma binary_arms_complete: "(unat (binary_to_u8 x), OBinary x) \<in> set binary_arms"
  by (cases x) (simp_all add: binary_arms_def)

lemma binary2_arms_complete: "(unat (binary2_to_u8 x), OBinary2 x) \<in> set binary2_arms"
  by (cases x) (simp_all add: binary2_arms_def)

lemma lit_arms_complete: "(unat (lit_to_u8 x), OLit x) \<in> set lit_arms"
  by (cases x) (simp_all add: lit_arms_def)

lemma handle_arms_complete: "(unat (handle_to_u8 x), OHandle x) \<in> set handle_arms"
  by (cases x) (simp_all add: handle_arms_def)

lemma arms_sound:
  "list_all (\<lambda>(k, op). unat (to_u8 op) = k) base_arms"
  "list_all (\<lambda>(k, op). unat (to_u8 op) = k) const_arms"
  "list_all (\<lambda>(k, op). unat (to_u8 op) = k) cmp_arms"
  "list_all (\<lambda>(k, op). unat (to_u8 op) = k) array_arms"
  "list_all (\<lambda>(k, op). unat (to_u8 op) = k) ifield_arms"
  "list_all (\<lambda>(k, op). unat (to_u8 op) = k) sfield_arms"
  "list_all (\<lambda>(k, op). unat (to_u8 op) = k) invoke_arms"
  "list_all (\<lambda>(k, op). unat (to_u8 op) = k) unary_arms"
  "list_all (\<lambda>(k, op). unat (to_u8 op) = k) binary_arms"
  "list_all (\<lambda>(k, op). unat (to_u8 op) = k) binary2_arms"
  "list_all (\<lambda>(k, op). unat (to_u8 op) = k) lit_arms"
  "list_all (\<lambda>(k, op). unat (to_u8 op) = k) handle_arms"
  by (simp_all add: arm_defs)

lemma arms_keys:
  "map fst base_arms = [0x00..<0x12]"
  "map fst const_arms = [0x12..<0x2D]"
  "map fst cmp_arms = [0x2D..<0x3E]"
  "map fst array_arms = [0x44..<0x52]"
  "map fst ifield_arms = [0x52..<0x60]"
  "map fst sfield_arms = [0x60..<0x6E]"
  "map fst invoke_arms = [0x6E..<0x73] @ [0x74..<0x79]"
  "map fst unary_arms = [0x7B..<0x90]"
  "map fst binary_arms = [0x90..<0xB0]"
  "map fst binary2_arms = [0xB0..<0xD0]"
  "map fst lit_arms = [0xD0..<0xE3]"
  "map fst handle_arms = [0xFA..<0x100]"
  by (simp_all add: arm_defs upt_conv_Cons)

lemma opcode_arms_keys:
  "map fst opcode_arms = [0..<0x3E] @ [0x44..<0x73] @ [0x74..<0x79] @ [0x7B..<0xE3] @ [0xFA..<0x100]"
proof -
  have cat: "a \<le> b \<Longrightarrow> b \<le> c \<Longrightarrow> [a..<b] @ [b..<c] = [a..<c]" for a b c :: nat
    by (metis le_add_diff_inverse upt_add_eq_append)
  have cat': "a \<le> b \<Longrightarrow> b \<le> c \<Longrightarrow> [a..<b] @ [b..<c] @ xs = [a..<c] @ xs" for a b c :: nat and xs
    by (metis append_assoc cat)
  show ?thesis by (simp only: opcode_arms_def map_append arms_keys append_assoc cat cat' rel_simps le0)
qed

lemmas arms_complete = base_arms_complete const_arms_complete cmp_arms_complete array_arms_complete ifield_arms_complete sfield_arms_complete invoke_arms_complete unary_arms_complete binary_arms_complete binary2_arms_complete lit_arms_complete handle_arms_complete

lemma arm_lookup_Some: "arm_lookup arms k = Some op \<Longrightarrow> (k, op) \<in> set arms"
  by (induction arms) (auto split: if_splits)

lemma arm_lookup_None: "arm_lookup arms k = None \<longleftrightarrow> k \<notin> set (map fst arms)"
  by (induction arms) auto

lemma arm_lookup_distinct: "distinct (map fst arms) \<Longrightarrow> (k, op) \<in> set arms \<Longrightarrow> arm_lookup arms k = Some op"
  by (induction arms) (auto intro: rev_image_eqI)

lemma opcode_arms_distinct: "distinct (map fst opcode_arms)"
  unfolding opcode_arms_keys distinct_append set_append set_upt by auto

lemma opcode_arms_complete: "(unat (to_u8 op), op) \<in> set opcode_arms"
  using arms_complete by (cases op) (auto simp: opcode_arms_def)

lemma opcode_arms_sound: "(k, op) \<in> set opcode_arms \<Longrightarrow> unat (to_u8 op) = k"
  using arms_sound unfolding opcode_arms_def list_all_iff by auto

lemma from_u8_to_u8 [simp]: "from_u8 (to_u8 op) = Some op"
  unfolding from_u8_def by (rule arm_lookup_distinct [OF opcode_arms_distinct opcode_arms_complete])

lemma from_u8_Some: "from_u8 b = Some op \<Longrightarrow> to_u8 op = b"
  unfolding from_u8_def by (metis arm_lookup_Some opcode_arms_sound word_unat_eq_iff)

section \<open>Properties\<close>

text \<open>C27 (opcode_bijection). Decoding and encoding an opcode byte are inverse to each other: every variant is
  decoded from its own discriminant, and a byte that decodes is the discriminant of the variant
  it decodes to; in particular no two variants share a byte.\<close>

theorem opcode_bijection: "from_u8 b = Some op \<longleftrightarrow> to_u8 op = b"
  using from_u8_Some by auto

text \<open>The bytes that are no opcode are exactly those the module's tests list as gaps.\<close>

theorem opcode_gaps:
  "from_u8 b = None \<longleftrightarrow>
     unat b \<in> {0x3E..0x43} \<union> {0x73} \<union> {0x79..0x7A} \<union> {0xE3..0xF9}"
proof -
  have "from_u8 b = None \<longleftrightarrow> unat b \<notin> set (map fst opcode_arms)"
    unfolding from_u8_def by (rule arm_lookup_None)
  then show ?thesis
    using unat_byte_lt [of b] unfolding opcode_arms_keys set_append set_upt
    by (cases "unat b < 0x3E", force, cases "unat b < 0x44", force, cases "unat b < 0x73", force,
        cases "unat b < 0x74", force, cases "unat b < 0x79", force, cases "unat b < 0x7B", force,
        cases "unat b < 0xE3", force, cases "unat b < 0xFA", force, force)
qed

text \<open>C28 (mnemonic_tables_agree). The mnemonic table of the disassembler and that of the opcode module are the same.\<close>

theorem mnemonic_tables_agree: "smali_mnemonic op = mnemonic op"
proof (cases op)
  case (OBase x)
  then show ?thesis by (cases x) simp_all
next
  case (OConst x)
  then show ?thesis by (cases x) simp_all
next
  case (OCmp x)
  then show ?thesis by (cases x) simp_all
next
  case (OArray x)
  then show ?thesis by (cases x) simp_all
next
  case (OIfield x)
  then show ?thesis by (cases x) simp_all
next
  case (OSfield x)
  then show ?thesis by (cases x) simp_all
next
  case (OInvoke x)
  then show ?thesis by (cases x) simp_all
next
  case (OUnary x)
  then show ?thesis by (cases x) simp_all
next
  case (OBinary x)
  then show ?thesis by (cases x) simp_all
next
  case (OBinary2 x)
  then show ?thesis by (cases x) simp_all
next
  case (OLit x)
  then show ?thesis by (cases x) simp_all
next
  case (OHandle x)
  then show ?thesis by (cases x) simp_all
qed

end
