(* ===== verification/Dex_Ids.thy ===== *)
theory Dex_Ids
  imports Dex_Oracle_Io
begin

text \<open>
  The identifier types of \<open>src/src/ids.rs\<close>, each pool index a type of its own with the order of
  its number, and the access-flag gate of \<open>src/src/access_flags.rs\<close>.
\<close>

section \<open>Pool indices\<close>

definition NO_INDEX :: u32 where "NO_INDEX = 0xFFFFFFFF"

datatype StringIdx = StringIdx (un_StringIdx: u32)
datatype TypeIdx = TypeIdx (un_TypeIdx: u32)
datatype ProtoIdx = ProtoIdx (un_ProtoIdx: u32)
datatype FieldIdx = FieldIdx (un_FieldIdx: u32)
datatype MethodIdx = MethodIdx (un_MethodIdx: u32)
datatype MethodHandleIdx = MethodHandleIdx (un_MethodHandleIdx: u32)
datatype CallSiteIdx = CallSiteIdx (un_CallSiteIdx: u32)

instantiation StringIdx :: linorder
begin

definition less_eq_StringIdx :: "StringIdx \<Rightarrow> StringIdx \<Rightarrow> bool" where
  "less_eq_StringIdx a b \<longleftrightarrow> un_StringIdx a \<le> un_StringIdx b"

definition less_StringIdx :: "StringIdx \<Rightarrow> StringIdx \<Rightarrow> bool" where
  "less_StringIdx a b \<longleftrightarrow> un_StringIdx a < un_StringIdx b"

instance by standard (auto simp: less_eq_StringIdx_def less_StringIdx_def StringIdx.expand)

end

instantiation TypeIdx :: linorder
begin

definition less_eq_TypeIdx :: "TypeIdx \<Rightarrow> TypeIdx \<Rightarrow> bool" where
  "less_eq_TypeIdx a b \<longleftrightarrow> un_TypeIdx a \<le> un_TypeIdx b"

definition less_TypeIdx :: "TypeIdx \<Rightarrow> TypeIdx \<Rightarrow> bool" where
  "less_TypeIdx a b \<longleftrightarrow> un_TypeIdx a < un_TypeIdx b"

instance by standard (auto simp: less_eq_TypeIdx_def less_TypeIdx_def TypeIdx.expand)

end

instantiation ProtoIdx :: linorder
begin

definition less_eq_ProtoIdx :: "ProtoIdx \<Rightarrow> ProtoIdx \<Rightarrow> bool" where
  "less_eq_ProtoIdx a b \<longleftrightarrow> un_ProtoIdx a \<le> un_ProtoIdx b"

definition less_ProtoIdx :: "ProtoIdx \<Rightarrow> ProtoIdx \<Rightarrow> bool" where
  "less_ProtoIdx a b \<longleftrightarrow> un_ProtoIdx a < un_ProtoIdx b"

instance by standard (auto simp: less_eq_ProtoIdx_def less_ProtoIdx_def ProtoIdx.expand)

end

instantiation FieldIdx :: linorder
begin

definition less_eq_FieldIdx :: "FieldIdx \<Rightarrow> FieldIdx \<Rightarrow> bool" where
  "less_eq_FieldIdx a b \<longleftrightarrow> un_FieldIdx a \<le> un_FieldIdx b"

definition less_FieldIdx :: "FieldIdx \<Rightarrow> FieldIdx \<Rightarrow> bool" where
  "less_FieldIdx a b \<longleftrightarrow> un_FieldIdx a < un_FieldIdx b"

instance by standard (auto simp: less_eq_FieldIdx_def less_FieldIdx_def FieldIdx.expand)

end

instantiation MethodIdx :: linorder
begin

definition less_eq_MethodIdx :: "MethodIdx \<Rightarrow> MethodIdx \<Rightarrow> bool" where
  "less_eq_MethodIdx a b \<longleftrightarrow> un_MethodIdx a \<le> un_MethodIdx b"

definition less_MethodIdx :: "MethodIdx \<Rightarrow> MethodIdx \<Rightarrow> bool" where
  "less_MethodIdx a b \<longleftrightarrow> un_MethodIdx a < un_MethodIdx b"

instance by standard (auto simp: less_eq_MethodIdx_def less_MethodIdx_def MethodIdx.expand)

end

instantiation MethodHandleIdx :: linorder
begin

definition less_eq_MethodHandleIdx :: "MethodHandleIdx \<Rightarrow> MethodHandleIdx \<Rightarrow> bool" where
  "less_eq_MethodHandleIdx a b \<longleftrightarrow> un_MethodHandleIdx a \<le> un_MethodHandleIdx b"

definition less_MethodHandleIdx :: "MethodHandleIdx \<Rightarrow> MethodHandleIdx \<Rightarrow> bool" where
  "less_MethodHandleIdx a b \<longleftrightarrow> un_MethodHandleIdx a < un_MethodHandleIdx b"

instance by standard (auto simp: less_eq_MethodHandleIdx_def less_MethodHandleIdx_def MethodHandleIdx.expand)

end

instantiation CallSiteIdx :: linorder
begin

definition less_eq_CallSiteIdx :: "CallSiteIdx \<Rightarrow> CallSiteIdx \<Rightarrow> bool" where
  "less_eq_CallSiteIdx a b \<longleftrightarrow> un_CallSiteIdx a \<le> un_CallSiteIdx b"

definition less_CallSiteIdx :: "CallSiteIdx \<Rightarrow> CallSiteIdx \<Rightarrow> bool" where
  "less_CallSiteIdx a b \<longleftrightarrow> un_CallSiteIdx a < un_CallSiteIdx b"

instance by standard (auto simp: less_eq_CallSiteIdx_def less_CallSiteIdx_def CallSiteIdx.expand)

end

record StringIdItem =
  string_data_off :: u32

record TypeIdItem =
  descriptor_idx :: StringIdx

record ProtoIdItem =
  shorty_idx :: StringIdx
  return_type_idx :: TypeIdx
  parameters_off :: u32

record FieldIdItem =
  fi_class_idx :: TypeIdx
  fi_type_idx :: TypeIdx
  fi_name_idx :: StringIdx

record MethodIdItem =
  mi_class_idx :: TypeIdx
  mi_proto_idx :: ProtoIdx
  mi_name_idx :: StringIdx

record ClassDefItem =
  cd_class_idx :: TypeIdx
  cd_access_flags :: u32
  superclass_idx :: "TypeIdx option"
  interfaces_off :: u32
  source_file_idx :: "StringIdx option"
  annotations_off :: u32
  class_data_off :: u32
  static_values_off :: u32

definition optional_type_idx :: "u32 \<Rightarrow> TypeIdx option" where
  "optional_type_idx raw = (if raw = NO_INDEX then None else Some (TypeIdx raw))"

definition optional_string_idx :: "u32 \<Rightarrow> StringIdx option" where
  "optional_string_idx raw = (if raw = NO_INDEX then None else Some (StringIdx raw))"

section \<open>Access flags\<close>

primrec scope_mask :: "AccessFlagScope \<Rightarrow> u32" where
  "scope_mask AccessFlagScope.Class = 0x761F"
| "scope_mask AccessFlagScope.Field = 0x50DF"
| "scope_mask AccessFlagScope.Method = 0x31DFF"

primrec scope_as_str :: "AccessFlagScope \<Rightarrow> string" where
  "scope_as_str AccessFlagScope.Class = ''class''"
| "scope_as_str AccessFlagScope.Field = ''field''"
| "scope_as_str AccessFlagScope.Method = ''method''"

definition validate :: "u32 \<Rightarrow> AccessFlagScope \<Rightarrow> DexError + u32" where
  "validate raw scope =
     (if raw AND NOT (scope_mask scope) \<noteq> 0 then Inl (InvalidAccessFlags raw scope) else Inr raw)"

text \<open>
  The flags that the format defines for each scope, by bit number: public 0, private 1,
  protected 2, static 3, final 4, synchronized 5, volatile or bridge 6, transient or varargs 7,
  native 8, interface 9, abstract 10, strict 11, synthetic 12, annotation 13, enum 14,
  constructor 16, declared-synchronized 17.
\<close>

primrec spec_flag_bits :: "AccessFlagScope \<Rightarrow> nat list" where
  "spec_flag_bits AccessFlagScope.Class = [0, 1, 2, 3, 4, 9, 10, 12, 13, 14]"
| "spec_flag_bits AccessFlagScope.Field = [0, 1, 2, 3, 4, 6, 7, 12, 14]"
| "spec_flag_bits AccessFlagScope.Method = [0, 1, 2, 3, 4, 5, 6, 7, 8, 10, 11, 12, 16, 17]"

lemma mask_as_flags:
  "scope_mask scope = fold (\<lambda>i m. m OR 2 ^ i) (spec_flag_bits scope) 0"
  by (cases scope) simp_all

lemma bit_or_flags: "bit (fold (\<lambda>i m. m OR 2 ^ i) is (m :: u32)) n \<longleftrightarrow> bit m n \<or> n \<in> set is \<and> n < 32"
  by (induction "is" arbitrary: m) (auto simp: bit_simps)

lemma bit_scope_mask: "bit (scope_mask scope) n \<longleftrightarrow> n \<in> set (spec_flag_bits scope)"
proof -
  have "n \<in> set (spec_flag_bits scope) \<Longrightarrow> n < 32" by (cases scope) auto
  then show ?thesis by (auto simp: mask_as_flags bit_or_flags)
qed

section \<open>Properties\<close>

text \<open>C31 (validate_flags_iff). A flags word passes the gate, unchanged, exactly when every bit that is set is a
  flag the format defines for the scope; otherwise the error carries the word and the scope.\<close>

theorem validate_flags_iff:
  "validate raw scope =
     (if list_all (\<lambda>i. bit raw i \<longrightarrow> i \<in> set (spec_flag_bits scope)) [0..<32] then Inr raw
      else Inl (InvalidAccessFlags raw scope))"
proof -
  have "raw AND NOT (scope_mask scope) = 0 \<longleftrightarrow> (\<forall>i<32. bit raw i \<longrightarrow> bit (scope_mask scope) i)"
    by (auto simp: bit_eq_iff bit_simps dest: bit_imp_le_length)
  then show ?thesis by (simp add: validate_def bit_scope_mask list_all_iff atLeast0LessThan lessThan_def)
qed

theorem validate_flags_iff_witness:
  "validate 0x21 AccessFlagScope.Method = Inr 0x21
   \<and> validate 0x20 AccessFlagScope.Field = Inl (InvalidAccessFlags 0x20 AccessFlagScope.Field)"
  unfolding validate_flags_iff by code_simp

end
