(* ===== verification/Dex_Insn.thy ===== *)
theory Dex_Insn
  imports Dex_Opcodes Dex_Ids
begin

text \<open>
  The instruction model of \<open>src/src/decode.rs\<close>: instruction formats, register lists, pool
  references, decoded instructions, switch payloads, exception tables and the invariant
  violations a tolerant parse records. An \<open>i64\<close> literal is an \<open>int\<close>: the code computes with it
  only through range checks, masks and narrowing casts, which are written out where they occur.
\<close>

section \<open>Formats\<close>

datatype InsnFormat =
    F10x | F12x | F11n | F11x | F10t
  | F20t | F22x | F21t | F21s | F21h | F21c | F23x | F22t | F22s | F22c | F22b
  | F30t | F32x | F31i | F31t | F31c | F35c | F3rc
  | F45cc | F4rcc | F51l

definition insn_format :: "Opcode \<Rightarrow> InsnFormat" where
  "insn_format op =
    (if op \<in> set [Nop, ReturnVoid] then F10x
     else if op \<in> set [Move, MoveWide, MoveObject] then F12x
     else if op \<in> set [NegInt, NotInt, NegLong, NotLong, NegFloat, NegDouble, IntToLong, IntToFloat,
        IntToDouble, LongToInt, LongToFloat, LongToDouble, FloatToInt, FloatToLong,
        FloatToDouble, DoubleToInt, DoubleToLong, DoubleToFloat, IntToByte, IntToChar,
        IntToShort] then F12x
     else if op \<in> set [AddInt2Addr, SubInt2Addr, MulInt2Addr, DivInt2Addr, RemInt2Addr, AndInt2Addr,
        OrInt2Addr, XorInt2Addr, ShlInt2Addr, ShrInt2Addr, UshrInt2Addr, AddLong2Addr,
        SubLong2Addr, MulLong2Addr, DivLong2Addr, RemLong2Addr, AndLong2Addr,
        OrLong2Addr, XorLong2Addr, ShlLong2Addr, ShrLong2Addr, UshrLong2Addr,
        AddFloat2Addr, SubFloat2Addr, MulFloat2Addr, DivFloat2Addr, RemFloat2Addr,
        AddDouble2Addr, SubDouble2Addr, MulDouble2Addr, DivDouble2Addr, RemDouble2Addr] then F12x
     else if op = ArrayLength then F12x
     else if op = Const4 then F11n
     else if op \<in> set [MoveResult, MoveResultWide, MoveResultObject, MoveException, Return, ReturnWide,
        ReturnObject, MonitorEnter, MonitorExit, Throw] then F11x
     else if op = Goto then F10t
     else if op = Goto16 then F20t
     else if op \<in> set [MoveFrom16, MoveWideFrom16, MoveObjectFrom16] then F22x
     else if op \<in> set [IfEqz, IfNez, IfLtz, IfGez, IfGtz, IfLez] then F21t
     else if op \<in> set [Const16, ConstWide16] then F21s
     else if op \<in> set [ConstHigh16, ConstWideHigh16] then F21h
     else if op \<in> set [ConstString, ConstClass, CheckCast, NewInstance] then F21c
     else if op \<in> set [Sget, SgetWide, SgetObject, SgetBoolean, SgetByte, SgetChar, SgetShort, Sput,
        SputWide, SputObject, SputBoolean, SputByte, SputChar, SputShort] then F21c
     else if op \<in> set [ConstMethodHandle, ConstMethodType] then F21c
     else if op \<in> set [CmplFloat, CmpgFloat, CmplDouble, CmpgDouble, CmpLong] then F23x
     else if op \<in> set [Aget, AgetWide, AgetObject, AgetBoolean, AgetByte, AgetChar, AgetShort, Aput,
        AputWide, AputObject, AputBoolean, AputByte, AputChar, AputShort] then F23x
     else if op \<in> set [AddInt, SubInt, MulInt, DivInt, RemInt, AndInt, OrInt, XorInt, ShlInt, ShrInt,
        UshrInt, AddLong, SubLong, MulLong, DivLong, RemLong, AndLong, OrLong,
        XorLong, ShlLong, ShrLong, UshrLong, AddFloat, SubFloat, MulFloat, DivFloat,
        RemFloat, AddDouble, SubDouble, MulDouble, DivDouble, RemDouble] then F23x
     else if op \<in> set [IfEq, IfNe, IfLt, IfGe, IfGt, IfLe] then F22t
     else if op \<in> set [AddIntLit16, RsubInt, MulIntLit16, DivIntLit16, RemIntLit16, AndIntLit16,
        OrIntLit16, XorIntLit16] then F22s
     else if op \<in> set [InstanceOf, NewArray] then F22c
     else if op \<in> set [Iget, IgetWide, IgetObject, IgetBoolean, IgetByte, IgetChar, IgetShort, Iput,
        IputWide, IputObject, IputBoolean, IputByte, IputChar, IputShort] then F22c
     else if op \<in> set [AddIntLit8, RsubIntLit8, MulIntLit8, DivIntLit8, RemIntLit8, AndIntLit8,
        OrIntLit8, XorIntLit8, ShlIntLit8, ShrIntLit8, UshrIntLit8] then F22b
     else if op = Goto32 then F30t
     else if op \<in> set [Move16, MoveWide16, MoveObject16] then F32x
     else if op \<in> set [Const, ConstWide32] then F31i
     else if op \<in> set [PackedSwitch, SparseSwitch, FillArrayData] then F31t
     else if op = ConstStringJumbo then F31c
     else if op \<in> set [FilledNewArray, InvokeVirtual, InvokeSuper, InvokeDirect, InvokeStatic,
        InvokeInterface, InvokeCustom] then F35c
     else if op = InvokePolymorphic then F45cc
     else if op \<in> set [FilledNewArrayRange, InvokeVirtualRange, InvokeSuperRange, InvokeDirectRange,
        InvokeStaticRange, InvokeInterfaceRange, InvokeCustomRange] then F3rc
     else if op = InvokePolymorphicRange then F4rcc
     else F51l)"

definition sign_extend_4bit_to_i64 :: "u16 \<Rightarrow> int" where
  "sign_extend_4bit_to_i64 nibble =
     (let b = (ucast nibble :: byte);
          extended = (if b AND 0x8 \<noteq> 0 then b OR NOT 0xF else b)
      in sint extended)"

primrec format_size :: "InsnFormat \<Rightarrow> nat" where
  "format_size F10x = 1" | "format_size F12x = 1" | "format_size F11n = 1" | "format_size F11x = 1"
| "format_size F10t = 1"
| "format_size F20t = 2" | "format_size F22x = 2" | "format_size F21t = 2" | "format_size F21s = 2"
| "format_size F21h = 2" | "format_size F21c = 2" | "format_size F23x = 2" | "format_size F22t = 2"
| "format_size F22s = 2" | "format_size F22c = 2" | "format_size F22b = 2"
| "format_size F30t = 3" | "format_size F32x = 3" | "format_size F31i = 3" | "format_size F31t = 3"
| "format_size F31c = 3" | "format_size F35c = 3" | "format_size F3rc = 3"
| "format_size F45cc = 4" | "format_size F4rcc = 4"
| "format_size F51l = 5"

section \<open>Register lists\<close>

text \<open>The array \<open>[u16; 5]\<close> is a list of length five; \<open>len\<close> is at most five in every constructor.\<close>

record RegList =
  regs :: "u16 list"
  reg_len :: nat

definition reg_empty :: RegList where "reg_empty = \<lparr>regs = [0, 0, 0, 0, 0], reg_len = 0\<rparr>"
definition reg_one :: "u16 \<Rightarrow> RegList" where "reg_one r = \<lparr>regs = [r, 0, 0, 0, 0], reg_len = 1\<rparr>"
definition reg_two :: "u16 \<Rightarrow> u16 \<Rightarrow> RegList" where
  "reg_two a b = \<lparr>regs = [a, b, 0, 0, 0], reg_len = 2\<rparr>"
definition reg_from_slice :: "u16 list \<Rightarrow> RegList" where
  "reg_from_slice s = \<lparr>regs = take 5 s @ replicate (5 - min (length s) 5) 0, reg_len = min (length s) 5\<rparr>"
definition reg_as_slice :: "RegList \<Rightarrow> u16 list" where
  "reg_as_slice r = (case get_range (regs r) 0 (reg_len r) of Some s \<Rightarrow> s | None \<Rightarrow> [])"
definition reg_is_empty :: "RegList \<Rightarrow> bool" where "reg_is_empty r \<longleftrightarrow> reg_len r = 0"
definition reg_raw_at :: "RegList \<Rightarrow> nat \<Rightarrow> u16" where
  "reg_raw_at r idx = (case get_at (regs r) idx of Some v \<Rightarrow> v | None \<Rightarrow> 0)"

lemmas reg_defs = reg_empty_def reg_one_def reg_two_def reg_from_slice_def reg_as_slice_def
  reg_is_empty_def reg_raw_at_def

section \<open>Instructions\<close>

datatype PoolIndex =
    PString StringIdx
  | PType TypeIdx
  | PField FieldIdx
  | PMethod MethodIdx
  | PMethodAndProto MethodIdx ProtoIdx
  | PCallSite CallSiteIdx

record Instruction =
  addr :: u32
  insn_op :: Opcode
  insn_size :: nat
  dst :: "u16 option"
  src :: RegList
  literal :: int
  target :: "u32 option"
  pool_idx :: "PoolIndex option"

text \<open>Switch keys are \<open>i32\<close>: 32-bit words read with \<open>sint\<close>.\<close>

datatype PayloadData =
    PackedSwitchData u32 "u32 list"
  | SparseSwitchData "u32 list" "u32 list"
  | FillArrayDataPayload u16 "byte list"

record TryItem =
  start_addr :: u32
  insn_count :: u16
  handler_idx :: nat

record TypedCatch =
  exception_type :: TypeIdx
  handler_addr :: u32

record CatchHandler =
  catches :: "TypedCatch list"
  catch_all_addr :: "u32 option"

datatype CodeItemInvariantViolation =
    TryItemRangeInvalid u16 u32 u16 u32
  | EmptyTryRegion u16 u32
  | TryItemsUnsortedOrOverlapping u16 u32 u32
  | RegisterCountInverted u16 u16
  | OpcodeArgCountOutOfRange Opcode u32 byte byte
  | BranchTargetOutOfRange Opcode u32 u32 u32
  | PayloadIdentMismatch Opcode u32 u32 u16 u16
  | UnknownOpcodeByte u32 byte
  | BranchOffsetZero Opcode u32
  | BranchTargetMidInstruction Opcode u32 u32 u32
  | BranchTargetIsMoveResultOrMoveException Opcode u32 u32 Opcode
  | UnalignedTableDexPc Opcode u32 u32
  | TailBytesAfterLastInstruction u32 u32
  | NonStaticInvokeArgCountZero Opcode u32

text \<open>The \<open>BTreeMap\<close> of payloads is an association list ordered by its key.\<close>

record CodeItem =
  registers_size :: u16
  ins_size :: u16
  outs_size :: u16
  debug_info_off :: u32
  instructions :: "Instruction list"
  tries :: "TryItem list"
  catch_handlers :: "CatchHandler list"
  payloads :: "(u32 \<times> PayloadData) list"
  invariant_violations :: "CodeItemInvariantViolation list"

record EncodedField =
  ef_field_idx :: FieldIdx
  ef_access_flags :: u32

record EncodedMethod =
  em_method_idx :: MethodIdx
  em_access_flags :: u32
  em_code_off :: u32

record ClassData =
  static_fields :: "EncodedField list"
  instance_fields :: "EncodedField list"
  direct_methods :: "EncodedMethod list"
  virtual_methods :: "EncodedMethod list"

section \<open>Facts\<close>

lemma format_size_pos: "0 < format_size f \<and> format_size f \<le> 5"
  by (cases f) simp_all

lemma insn_format_F21h: "insn_format op = F21h \<longleftrightarrow> op = ConstHigh16 \<or> op = ConstWideHigh16"
  by (auto simp: insn_format_def)

lemma insn_format_F51l: "insn_format op = F51l \<longleftrightarrow> op = ConstWide"
proof (cases op)
  case (OBase x) then show ?thesis by (cases x) (simp_all add: insn_format_def)
next
  case (OConst x) then show ?thesis by (cases x) (simp_all add: insn_format_def)
next
  case (OCmp x) then show ?thesis by (cases x) (simp_all add: insn_format_def)
next
  case (OArray x) then show ?thesis by (cases x) (simp_all add: insn_format_def)
next
  case (OIfield x) then show ?thesis by (cases x) (simp_all add: insn_format_def)
next
  case (OSfield x) then show ?thesis by (cases x) (simp_all add: insn_format_def)
next
  case (OInvoke x) then show ?thesis by (cases x) (simp_all add: insn_format_def)
next
  case (OUnary x) then show ?thesis by (cases x) (simp_all add: insn_format_def)
next
  case (OBinary x) then show ?thesis by (cases x) (simp_all add: insn_format_def)
next
  case (OBinary2 x) then show ?thesis by (cases x) (simp_all add: insn_format_def)
next
  case (OLit x) then show ?thesis by (cases x) (simp_all add: insn_format_def)
next
  case (OHandle x) then show ?thesis by (cases x) (simp_all add: insn_format_def)
qed

end
