(* ===== verification/Dex_Cfg.thy ===== *)
theory Dex_Cfg
  imports Dex_Insn
begin

text \<open>
  The control flow graph of a method: \<open>src/src/cfg.rs\<close>. Ordered sets are sorted lists without
  duplicates (\<open>insort_insert\<close>), ordered maps the association lists of the prelude. Address sums wrap
  as in a release build; an index out of bounds is the value \<open>Inl IndexOutOfBounds\<close>.
\<close>

section \<open>Data\<close>

datatype panic = IndexOutOfBounds

datatype BlockIdx = BlockIdx (un_BlockIdx: u32)

instantiation BlockIdx :: linorder
begin

definition less_eq_BlockIdx :: "BlockIdx \<Rightarrow> BlockIdx \<Rightarrow> bool" where
  "less_eq_BlockIdx a b \<longleftrightarrow> un_BlockIdx a \<le> un_BlockIdx b"

definition less_BlockIdx :: "BlockIdx \<Rightarrow> BlockIdx \<Rightarrow> bool" where
  "less_BlockIdx a b \<longleftrightarrow> un_BlockIdx a < un_BlockIdx b"

instance by standard (auto simp: less_eq_BlockIdx_def less_BlockIdx_def BlockIdx.expand)

end

text \<open>The key of a switch case is an \<open>i32\<close>: a 32-bit word read with \<open>sint\<close>.\<close>

datatype EdgeKind =
    FallThrough
  | Branch
  | SwitchCase u32
  | SwitchDefault
  | ExceptionHandler TypeIdx
  | ExceptionCatchAll

record Edge =
  edge_target :: BlockIdx
  edge_kind :: EdgeKind

record BasicBlock =
  bb_id :: BlockIdx
  bb_start :: u32
  bb_insns :: "Instruction list"
  successors :: "Edge list"
  predecessors :: "BlockIdx list"

record ExceptionRegion =
  er_start :: u32
  er_end :: u32
  handler_blocks :: "(EdgeKind \<times> BlockIdx) list"

record Cfg =
  blocks :: "BasicBlock list"
  cfg_entry :: BlockIdx
  exception_regions :: "ExceptionRegion list"
  addr_to_block :: "(u32 \<times> BlockIdx) list"

section \<open>Control-flow opcodes\<close>

definition is_branch :: "Opcode \<Rightarrow> bool" where
  "is_branch op \<longleftrightarrow> op \<in> set [Goto, Goto16, Goto32, IfEq, IfNe, IfLt, IfGe, IfGt, IfLe,
     IfEqz, IfNez, IfLtz, IfGez, IfGtz, IfLez, PackedSwitch, SparseSwitch]"

definition is_unconditional_branch :: "Opcode \<Rightarrow> bool" where
  "is_unconditional_branch op \<longleftrightarrow> op \<in> set [Goto, Goto16, Goto32]"

definition is_terminal :: "Opcode \<Rightarrow> bool" where
  "is_terminal op \<longleftrightarrow> op \<in> set [Throw, ReturnVoid, Return, ReturnWide, ReturnObject]"

definition is_switch :: "Opcode \<Rightarrow> bool" where
  "is_switch op \<longleftrightarrow> op \<in> set [PackedSwitch, SparseSwitch]"

section \<open>Leaders and blocks\<close>

definition next_addr :: "Instruction \<Rightarrow> u32" where
  "next_addr insn = addr insn + of_nat (insn_size insn)"

primrec switch_targets :: "PayloadData \<Rightarrow> u32 list" where
  "switch_targets (PackedSwitchData _ ts) = ts"
| "switch_targets (SparseSwitchData _ ts) = ts"
| "switch_targets (FillArrayDataPayload _ _) = []"

text \<open>The addresses one instruction makes leaders.\<close>

definition insn_leaders :: "CodeItem \<Rightarrow> Instruction \<Rightarrow> u32 list" where
  "insn_leaders code insn =
     (if is_branch (insn_op insn) \<or> is_terminal (insn_op insn) then [next_addr insn] else [])
     @ (case target insn of
          None \<Rightarrow> []
        | Some t \<Rightarrow>
            if is_switch (insn_op insn) then
              (case map_of (payloads code) t of Some p \<Rightarrow> switch_targets p | None \<Rightarrow> [])
            else if is_branch (insn_op insn) then [t]
            else [])"

definition handler_leaders :: "CatchHandler \<Rightarrow> u32 list" where
  "handler_leaders h =
     map handler_addr (catches h) @ (case catch_all_addr h of Some a \<Rightarrow> [a] | None \<Rightarrow> [])"

definition insert_all :: "'a :: linorder list \<Rightarrow> 'a list \<Rightarrow> 'a list" where
  "insert_all s xs = foldl (\<lambda>s x. insort_insert x s) s xs"

definition find_leaders :: "CodeItem \<Rightarrow> u32 list" where
  "find_leaders code =
     (let s0 = insort_insert 0 [];
          s1 = foldl (\<lambda>s insn. insert_all s (insn_leaders code insn)) s0 (instructions code)
      in foldl (\<lambda>s h. insert_all s (handler_leaders h)) s1 (catch_handlers code))"

text \<open>\<open>leader_vec.get(i + 1).copied().unwrap_or(u32::MAX)\<close>.\<close>

definition next_leader :: "u32 list \<Rightarrow> nat \<Rightarrow> u32" where
  "next_leader leaders i = (case get_at leaders (i + 1) of Some l \<Rightarrow> l | None \<Rightarrow> - 1)"

definition block_of :: "CodeItem \<Rightarrow> u32 list \<Rightarrow> nat \<Rightarrow> u32 \<Rightarrow> BasicBlock" where
  "block_of code leaders i leader =
     \<lparr>bb_id = BlockIdx (of_nat i), bb_start = leader,
      bb_insns = filter (\<lambda>insn. leader \<le> addr insn \<and> addr insn < next_leader leaders i) (instructions code),
      successors = [], predecessors = []\<rparr>"

definition build_blocks :: "CodeItem \<Rightarrow> u32 list \<Rightarrow> BasicBlock list \<times> (u32 \<times> BlockIdx) list" where
  "build_blocks code leaders =
     foldl (\<lambda>(bs, m) (i, leader). (bs @ [block_of code leaders i leader], btree_insert leader (BlockIdx (of_nat i)) m))
       ([], []) (zip [0..<length leaders] leaders)"

section \<open>Edges\<close>

text \<open>\<open>if let Some(&idx) = addr_to_block.get(&a)\<close>: an edge to the block that starts at \<open>a\<close>, if there is one.\<close>

definition edge_to :: "(u32 \<times> BlockIdx) list \<Rightarrow> u32 \<Rightarrow> EdgeKind \<Rightarrow> Edge list" where
  "edge_to m a kind = (case map_of m a of Some idx \<Rightarrow> [\<lparr>edge_target = idx, edge_kind = kind\<rparr>] | None \<Rightarrow> [])"

primrec payload_edges :: "(u32 \<times> BlockIdx) list \<Rightarrow> PayloadData \<Rightarrow> Edge list" where
  "payload_edges m (PackedSwitchData first_key ts) =
     concat (map (\<lambda>(j, t). edge_to m t (SwitchCase (first_key + of_nat j))) (zip [0..<length ts] ts))"
| "payload_edges m (SparseSwitchData keys ts) =
     concat (map (\<lambda>(key, t). edge_to m t (SwitchCase key)) (zip keys ts))"
| "payload_edges m (FillArrayDataPayload _ _) = []"

definition block_edges :: "(u32 \<times> BlockIdx) list \<Rightarrow> CodeItem \<Rightarrow> BasicBlock \<Rightarrow> Edge list" where
  "block_edges m code block =
     (if bb_insns block = [] then []
      else
        let lst = last (bb_insns block); nxt = next_addr lst
        in if is_terminal (insn_op lst) then []
           else if is_unconditional_branch (insn_op lst) then
             (case target lst of Some t \<Rightarrow> edge_to m t Branch | None \<Rightarrow> [])
           else if is_switch (insn_op lst) then
             edge_to m nxt SwitchDefault
             @ (case target lst of
                  Some t \<Rightarrow> (case map_of (payloads code) t of Some p \<Rightarrow> payload_edges m p | None \<Rightarrow> [])
                | None \<Rightarrow> [])
           else if is_branch (insn_op lst) then
             edge_to m nxt FallThrough @ (case target lst of Some t \<Rightarrow> edge_to m t Branch | None \<Rightarrow> [])
           else edge_to m nxt FallThrough)"

definition add_edges :: "(u32 \<times> BlockIdx) list \<Rightarrow> CodeItem \<Rightarrow> BasicBlock list \<Rightarrow> BasicBlock list" where
  "add_edges m code bs = map (\<lambda>b. b\<lparr>successors := block_edges m code b\<rparr>) bs"

text \<open>\<open>&code.catch_handlers[try_item.handler_idx]\<close>.\<close>

definition handler_of :: "CodeItem \<Rightarrow> TryItem \<Rightarrow> panic + CatchHandler" where
  "handler_of code t = ok_or (get_at (catch_handlers code) (handler_idx t)) IndexOutOfBounds"

definition handler_edges :: "(u32 \<times> BlockIdx) list \<Rightarrow> CatchHandler \<Rightarrow> Edge list" where
  "handler_edges m h =
     concat (map (\<lambda>c. edge_to m (handler_addr c) (ExceptionHandler (exception_type c))) (catches h))
     @ (case catch_all_addr h of Some a \<Rightarrow> edge_to m a ExceptionCatchAll | None \<Rightarrow> [])"

definition try_end :: "TryItem \<Rightarrow> u32" where
  "try_end t = start_addr t + ucast (insn_count t)"

definition covers :: "TryItem \<Rightarrow> BasicBlock \<Rightarrow> bool" where
  "covers t block \<longleftrightarrow> bb_insns block \<noteq> [] \<and> bb_start block < try_end t
     \<and> next_addr (last (bb_insns block)) > start_addr t"

definition add_exception_edges ::
  "(u32 \<times> BlockIdx) list \<Rightarrow> CodeItem \<Rightarrow> BasicBlock list \<Rightarrow> panic + BasicBlock list" where
  "add_exception_edges m code bs =
     foldE (\<lambda>bs t. bindE (handler_of code t) (\<lambda>h.
        Inr (map (\<lambda>b. if covers t b then b\<lparr>successors := successors b @ handler_edges m h\<rparr> else b) bs)))
       bs (tries code)"

definition fill_predecessors :: "BasicBlock list \<Rightarrow> panic + BasicBlock list" where
  "fill_predecessors bs =
     foldE (\<lambda>bs (s, d). let k = unat (un_BlockIdx d)
            in bindE (ok_or (get_at bs k) IndexOutOfBounds) (\<lambda>b.
               Inr (bs[k := b\<lparr>predecessors := insort_insert s (predecessors b)\<rparr>])))
       bs (concat (map (\<lambda>b. map (\<lambda>e. (bb_id b, edge_target e)) (successors b)) bs))"

definition handler_targets :: "(u32 \<times> BlockIdx) list \<Rightarrow> CatchHandler \<Rightarrow> (EdgeKind \<times> BlockIdx) list" where
  "handler_targets m h = map (\<lambda>e. (edge_kind e, edge_target e)) (handler_edges m h)"

definition build_exception_regions ::
  "CodeItem \<Rightarrow> (u32 \<times> BlockIdx) list \<Rightarrow> panic + ExceptionRegion list" where
  "build_exception_regions code m =
     mapE (\<lambda>t. bindE (handler_of code t) (\<lambda>h.
       Inr \<lparr>er_start = start_addr t, er_end = try_end t, handler_blocks = handler_targets m h\<rparr>)) (tries code)"

definition build :: "CodeItem \<Rightarrow> panic + Cfg" where
  "build code =
     (if instructions code = []
      then Inr \<lparr>blocks = [], cfg_entry = BlockIdx 0, exception_regions = [], addr_to_block = []\<rparr>
      else
        let leaders = find_leaders code; (bs0, m) = build_blocks code leaders; bs1 = add_edges m code bs0
        in bindE (add_exception_edges m code bs1) (\<lambda>bs2.
           bindE (fill_predecessors bs2) (\<lambda>bs3.
           bindE (build_exception_regions code m) (\<lambda>regions.
           Inr \<lparr>blocks = bs3, cfg_entry = BlockIdx 0, exception_regions = regions, addr_to_block = m\<rparr>))))"

section \<open>Queries\<close>

definition block :: "Cfg \<Rightarrow> BlockIdx \<Rightarrow> panic + BasicBlock" where
  "block cfg idx = ok_or (get_at (blocks cfg) (unat (un_BlockIdx idx))) IndexOutOfBounds"

text \<open>\<open>range(..=addr).next_back()\<close>.\<close>

definition block_at :: "Cfg \<Rightarrow> u32 \<Rightarrow> BlockIdx option" where
  "block_at cfg a =
     (case filter (\<lambda>(k, _). k \<le> a) (addr_to_block cfg) of [] \<Rightarrow> None | es \<Rightarrow> Some (snd (last es)))"

definition cfg_nodes :: "Cfg \<Rightarrow> BlockIdx list" where
  "cfg_nodes cfg = map (BlockIdx \<circ> of_nat) [0..<unat (of_nat (length (blocks cfg)) :: u32)]"

definition cfg_successors :: "Cfg \<Rightarrow> BlockIdx \<Rightarrow> panic + BlockIdx list" where
  "cfg_successors cfg n = bindE (block cfg n) (\<lambda>b. Inr (map edge_target (successors b)))"

definition cfg_predecessors :: "Cfg \<Rightarrow> BlockIdx \<Rightarrow> panic + BlockIdx list" where
  "cfg_predecessors cfg n = bindE (block cfg n) (\<lambda>b. Inr (predecessors b))"

primrec is_exception_kind :: "EdgeKind \<Rightarrow> bool" where
  "is_exception_kind FallThrough \<longleftrightarrow> False"
| "is_exception_kind Branch \<longleftrightarrow> False"
| "is_exception_kind (SwitchCase _) \<longleftrightarrow> False"
| "is_exception_kind SwitchDefault \<longleftrightarrow> False"
| "is_exception_kind (ExceptionHandler _) \<longleftrightarrow> True"
| "is_exception_kind ExceptionCatchAll \<longleftrightarrow> True"

text \<open>The view without exception edges.\<close>

definition normal_successors :: "Cfg \<Rightarrow> BlockIdx \<Rightarrow> panic + BlockIdx list" where
  "normal_successors cfg n =
     bindE (block cfg n) (\<lambda>b.
       Inr (map edge_target (filter (\<lambda>e. \<not> is_exception_kind (edge_kind e)) (successors b))))"

definition normal_predecessors :: "Cfg \<Rightarrow> BlockIdx \<Rightarrow> panic + BlockIdx list" where
  "normal_predecessors cfg n =
     bindE (block cfg n) (\<lambda>b.
     bindE (mapE (\<lambda>p. bindE (block cfg p) (\<lambda>pb.
        Inr (p, \<exists>e \<in> set (successors pb). edge_target e = n \<and> \<not> is_exception_kind (edge_kind e)))) (predecessors b)) (\<lambda>ps.
     Inr (map fst (filter snd ps))))"

end
