(* ===== verification/Dex_Cfg_Graph.thy ===== *)
theory Dex_Cfg_Graph
  imports Dex_Cfg
begin

text \<open>
  What \<open>Cfg::build\<close> (\<open>src/src/cfg.rs\<close>) gives: leaders and blocks, the partition of the stream,
  edges and predecessor sets, the \<open>Graph\<close> interface with its two views, and the simulation of the
  instruction-level control flow.
\<close>

section \<open>Leaders\<close>

definition ordset :: "'a :: linorder list \<Rightarrow> bool" where
  "ordset xs \<longleftrightarrow> sorted xs \<and> distinct xs"

lemma insert_all_set: "set (insert_all s xs) = set s \<union> set xs"
  unfolding insert_all_def by (induction xs arbitrary: s) (auto simp: set_insort_insert)

lemma insert_all_ordset: "ordset s \<Longrightarrow> ordset (insert_all s xs)"
  unfolding insert_all_def ordset_def
  by (induction xs arbitrary: s) (auto simp: sorted_insort_insert distinct_insort_insert)

lemma foldl_insert_all:
  "ordset s \<Longrightarrow> ordset (foldl (\<lambda>s x. insert_all s (f x)) s xs)
     \<and> set (foldl (\<lambda>s x. insert_all s (f x)) s xs) = set s \<union> (\<Union>x \<in> set xs. set (f x))"
  by (induction xs arbitrary: s) (auto simp: insert_all_set insert_all_ordset)

lemma find_leaders_ordset: "ordset (find_leaders code)"
  and find_leaders_set: "set (find_leaders code) = {0} \<union> (\<Union>i \<in> set (instructions code). set (insn_leaders code i))
     \<union> (\<Union>h \<in> set (catch_handlers code). set (handler_leaders h))"
proof -
  have "ordset [0 :: u32]" by (simp add: ordset_def)
  note 1 = foldl_insert_all [OF this, of "insn_leaders code" "instructions code"]
  note 2 = foldl_insert_all [OF 1 [THEN conjunct1], of handler_leaders "catch_handlers code"]
  have z: "insort_insert 0 [] = [0 :: u32]" by (simp add: insort_insert_key_def)
  show "ordset (find_leaders code)" using 2 by (simp add: find_leaders_def Let_def z)
  show "set (find_leaders code) = {0} \<union> (\<Union>i \<in> set (instructions code). set (insn_leaders code i))
     \<union> (\<Union>h \<in> set (catch_handlers code). set (handler_leaders h))"
    using 1 2 by (auto simp: find_leaders_def Let_def z)
qed

lemma distinct_u32_length: "distinct (xs :: u32 list) \<Longrightarrow> length xs \<le> 2 ^ 32"
proof -
  assume "distinct xs"
  then have "length xs = card (set xs)" by (simp add: distinct_card)
  also have "\<dots> \<le> card (UNIV :: u32 set)" by (intro card_mono) simp_all
  finally show ?thesis by (simp add: card_word)
qed

section \<open>Blocks and the address map\<close>

lemma ordset_strict: "ordset ls \<Longrightarrow> sorted_wrt (<) ls"
  by (simp add: ordset_def strict_sorted_iff)

lemma btree_insert_last:
  "\<forall>x \<in> set m. fst x < k \<Longrightarrow> btree_insert k v m = m @ [(k, v)]"
  by (induction k v m rule: btree_insert.induct) auto

lemma build_blocks_eq:
  assumes "sorted_wrt (<) leaders"
  shows "build_blocks code leaders = (map (\<lambda>(i, l). block_of code leaders i l) (zip [0..<length leaders] leaders),
     zip leaders (map (\<lambda>k. BlockIdx (of_nat k)) [0..<length leaders]))"
proof -
  let ?f = "\<lambda>(bs, m) (i, leader). (bs @ [block_of code leaders i leader], btree_insert leader (BlockIdx (of_nat i)) m)"
  have "foldl ?f ([], []) (zip [0..<k] (take k leaders)) = (map (\<lambda>(i, l). block_of code leaders i l) (zip [0..<k] (take k leaders)),
     zip (take k leaders) (map (\<lambda>k. BlockIdx (of_nat k)) [0..<k]))" if "k \<le> length leaders" for k
    using that
  proof (induction k)
    case (Suc k)
    then have k: "k < length leaders" by simp
    have lt: "\<forall>x \<in> set (zip (take k leaders) (map (\<lambda>k. BlockIdx (of_nat k)) [0..<k])). fst x < leaders ! k"
      using assms k by (auto simp: sorted_wrt_iff_nth_less in_set_zip)
    show ?case using Suc.IH k btree_insert_last [OF lt]
      by (simp add: take_Suc_conv_app_nth zip_append)
  qed simp
  from this [of "length leaders"] show ?thesis by (simp add: build_blocks_def)
qed

text \<open>The blocks of a code item before edges are added.\<close>

definition blocks0 :: "CodeItem \<Rightarrow> BasicBlock list" where
  "blocks0 code = fst (build_blocks code (find_leaders code))"

definition addr_map :: "CodeItem \<Rightarrow> (u32 \<times> BlockIdx) list" where
  "addr_map code = snd (build_blocks code (find_leaders code))"

lemma blocks0_nth:
  "length (blocks0 code) = length (find_leaders code)"
  "k < length (find_leaders code) \<Longrightarrow> blocks0 code ! k = block_of code (find_leaders code) k (find_leaders code ! k)"
  using build_blocks_eq [OF ordset_strict [OF find_leaders_ordset]] by (simp_all add: blocks0_def)

lemma addr_map_lookup:
  "map_of (addr_map code) a = Some idx \<longleftrightarrow>
     (\<exists>k < length (find_leaders code). find_leaders code ! k = a \<and> idx = BlockIdx (of_nat k))"
proof -
  have d: "distinct (find_leaders code)" using find_leaders_ordset [of code] by (simp add: ordset_def)
  have "distinct (map fst (addr_map code))"
    using d build_blocks_eq [OF ordset_strict [OF find_leaders_ordset], of code] by (simp add: addr_map_def)
  then have "map_of (addr_map code) a = Some idx \<longleftrightarrow> (a, idx) \<in> set (addr_map code)" by (rule map_of_eq_Some_iff)
  also have "\<dots> \<longleftrightarrow> (\<exists>k < length (find_leaders code). find_leaders code ! k = a \<and> idx = BlockIdx (of_nat k))"
    using build_blocks_eq [OF ordset_strict [OF find_leaders_ordset], of code] by (auto simp: addr_map_def in_set_zip)
  finally show ?thesis .
qed

lemma leaders_len: "length (find_leaders code) \<le> 2 ^ 32"
  using distinct_u32_length find_leaders_ordset unfolding ordset_def by blast

definition idx_ok :: "nat \<Rightarrow> BlockIdx \<Rightarrow> bool" where
  "idx_ok n idx \<longleftrightarrow> unat (un_BlockIdx idx) < n"

lemma addr_map_ok: "map_of (addr_map code) a = Some idx \<Longrightarrow> idx_ok (length (find_leaders code)) idx"
  using leaders_len [of code] by (auto simp: addr_map_lookup idx_ok_def unat_of_nat_u32)

lemma edge_to_ok: "e \<in> set (edge_to (addr_map code) a k) \<Longrightarrow> idx_ok (length (find_leaders code)) (edge_target e)"
  using addr_map_ok [of code a] by (cases "map_of (addr_map code) a") (auto simp: edge_to_def)

lemma block_edges_ok: "e \<in> set (block_edges (addr_map code) code b) \<Longrightarrow> idx_ok (length (find_leaders code)) (edge_target e)"
proof -
  have "e \<in> set (payload_edges (addr_map code) p) \<Longrightarrow> idx_ok (length (find_leaders code)) (edge_target e)" for p
    by (cases p) (auto dest: edge_to_ok)
  then show "e \<in> set (block_edges (addr_map code) code b) \<Longrightarrow> idx_ok (length (find_leaders code)) (edge_target e)"
    by (auto simp: block_edges_def Let_def split: if_splits option.splits dest: edge_to_ok)
qed

lemma handler_edges_ok: "e \<in> set (handler_edges (addr_map code) h) \<Longrightarrow> idx_ok (length (find_leaders code)) (edge_target e)"
  by (auto simp: handler_edges_def split: option.splits dest: edge_to_ok)

section \<open>Exception edges and predecessors\<close>

text \<open>Blocks that differ in their edges only.\<close>

definition same_body :: "BasicBlock \<Rightarrow> BasicBlock \<Rightarrow> bool" where
  "same_body a b \<longleftrightarrow> bb_id a = bb_id b \<and> bb_start a = bb_start b \<and> bb_insns a = bb_insns b"

definition edges_ok :: "nat \<Rightarrow> BasicBlock list \<Rightarrow> bool" where
  "edges_ok n bs \<longleftrightarrow> (\<forall>b \<in> set bs. predecessors b = [] \<and> (\<forall>e \<in> set (successors b). idx_ok n (edge_target e)))"

lemma same_body_refl [simp]: "same_body b b"
  by (simp add: same_body_def)

lemma same_body_trans: "same_body a b \<Longrightarrow> same_body b c \<Longrightarrow> same_body a c"
  by (simp add: same_body_def)

lemma list_all2_same_body_trans: "list_all2 same_body as bs \<Longrightarrow> list_all2 same_body bs cs \<Longrightarrow> list_all2 same_body as cs"
  by (rule list_all2_trans) (auto intro: same_body_trans)

lemma add_exception_edges_inv:
  assumes "add_exception_edges (addr_map code) code bs = Inr bs'" and "edges_ok (length (find_leaders code)) bs"
  shows "list_all2 same_body bs bs' \<and> edges_ok (length (find_leaders code)) bs'"
proof -
  let ?P = "\<lambda>bs'. list_all2 same_body bs bs' \<and> edges_ok (length (find_leaders code)) bs'"
  show ?thesis
  proof (rule foldE_inv [OF assms(1) [unfolded add_exception_edges_def], where P = ?P])
    show "?P bs" using assms(2) by (simp add: list_all2_refl)
  next
    fix c t c'
    assume p: "?P c" and s: "bindE (handler_of code t) (\<lambda>h. Inr (map (\<lambda>b. if covers t b
        then b\<lparr>successors := successors b @ handler_edges (addr_map code) h\<rparr> else b) c)) = Inr c'"
    then obtain h where c': "c' = map (\<lambda>b. if covers t b then b\<lparr>successors := successors b @ handler_edges (addr_map code) h\<rparr> else b) c"
      by auto
    have "list_all2 same_body c c'" unfolding c' by (auto simp: list_all2_conv_all_nth same_body_def)
    then have "list_all2 same_body bs c'" using p list_all2_same_body_trans by blast
    moreover have "edges_ok (length (find_leaders code)) c'"
      using p handler_edges_ok unfolding c' edges_ok_def by auto
    ultimately show "?P c'" ..
  qed
qed

lemma add_exception_edges_total:
  assumes "list_all (\<lambda>t. handler_idx t < length (catch_handlers code)) (tries code)"
  shows "\<exists>bs'. add_exception_edges m code bs = Inr bs'"
proof -
  have "handler_of code t = Inr (catch_handlers code ! handler_idx t)" if "t \<in> set (tries code)" for t
    using assms that by (auto simp: handler_of_def get_at_def ok_or_def list_all_iff)
  then show ?thesis unfolding add_exception_edges_def by (subst foldE_total) auto
qed

text \<open>The edge list that is turned into predecessor sets.\<close>

definition edge_pairs :: "BasicBlock list \<Rightarrow> (BlockIdx \<times> BlockIdx) list" where
  "edge_pairs bs = concat (map (\<lambda>b. map (\<lambda>e. (bb_id b, edge_target e)) (successors b)) bs)"

definition add_pred :: "BasicBlock list \<Rightarrow> BlockIdx \<times> BlockIdx \<Rightarrow> BasicBlock list" where
  "add_pred bs sd = (let k = unat (un_BlockIdx (snd sd))
     in bs[k := (bs ! k)\<lparr>predecessors := insort_insert (fst sd) (predecessors (bs ! k))\<rparr>])"

lemma foldl_add_pred:
  "\<forall>(s, d) \<in> set ps. idx_ok (length bs) d \<Longrightarrow> k < length bs \<Longrightarrow>
   length (foldl add_pred bs ps) = length bs
   \<and> same_body (bs ! k) (foldl add_pred bs ps ! k) \<and> successors (foldl add_pred bs ps ! k) = successors (bs ! k)
   \<and> set (predecessors (foldl add_pred bs ps ! k))
       = set (predecessors (bs ! k)) \<union> {s. \<exists>d. (s, d) \<in> set ps \<and> unat (un_BlockIdx d) = k}
   \<and> (ordset (predecessors (bs ! k)) \<longrightarrow> ordset (predecessors (foldl add_pred bs ps ! k)))"
proof (induction ps arbitrary: bs)
  case (Cons p ps)
  obtain s d where p: "p = (s, d)" by (cases p)
  let ?bs = "add_pred bs p"
  have l: "length ?bs = length bs" by (simp add: add_pred_def Let_def)
  have d: "unat (un_BlockIdx d) < length bs" using Cons.prems p by (simp add: idx_ok_def)
  have "\<forall>(s, d) \<in> set ps. idx_ok (length ?bs) d" "k < length ?bs" using Cons.prems l by simp_all
  note IH = Cons.IH [OF this]
  have k: "?bs ! k = (if unat (un_BlockIdx d) = k then (bs ! k)\<lparr>predecessors := insort_insert s (predecessors (bs ! k))\<rparr> else bs ! k)"
    using d Cons.prems(2) by (auto simp: add_pred_def Let_def p)
  show ?case
    using IH l k by (auto simp: p same_body_def set_insort_insert ordset_def sorted_insort_insert distinct_insort_insert)
qed (simp add: ordset_def)

lemma fill_predecessors_eq:
  assumes "edges_ok (length bs) bs"
  shows "fill_predecessors bs = Inr (foldl add_pred bs (edge_pairs bs))"
proof -
  have "foldE (\<lambda>bs (s, d). let k = unat (un_BlockIdx d)
            in bindE (ok_or (get_at bs k) IndexOutOfBounds) (\<lambda>b.
               Inr (bs[k := b\<lparr>predecessors := insort_insert s (predecessors b)\<rparr>]))) bs' ps = Inr (foldl add_pred bs' ps)"
    if "\<forall>(s, d) \<in> set ps. idx_ok (length bs') d" for bs' ps
    using that
  proof (induction ps arbitrary: bs')
    case (Cons p ps)
    then show ?case by (cases p) (simp add: Let_def ok_or_def get_at_def idx_ok_def add_pred_def)
  qed simp
  moreover have "\<forall>(s, d) \<in> set (edge_pairs bs). idx_ok (length bs) d"
    using assms by (auto simp: edges_ok_def edge_pairs_def)
  ultimately show ?thesis unfolding fill_predecessors_def edge_pairs_def by blast
qed

section \<open>The graph\<close>

text \<open>The contract of a graph: every block has its position as index, successors are blocks, and the
  predecessor sets are ordered and are exactly the inverse of the successor lists.\<close>

definition cfg_wf :: "Cfg \<Rightarrow> bool" where
  "cfg_wf cfg \<longleftrightarrow> length (blocks cfg) \<le> 2 ^ 32
     \<and> (\<forall>k < length (blocks cfg). bb_id (blocks cfg ! k) = BlockIdx (of_nat k))
     \<and> (\<forall>b \<in> set (blocks cfg). \<forall>e \<in> set (successors b). idx_ok (length (blocks cfg)) (edge_target e))
     \<and> (\<forall>b \<in> set (blocks cfg). ordset (predecessors b)
          \<and> set (predecessors b) = {bb_id a | a e. a \<in> set (blocks cfg) \<and> e \<in> set (successors a) \<and> edge_target e = bb_id b})"

lemma build_parts:
  assumes "build code = Inr cfg" and "instructions code \<noteq> []"
  obtains bs where "list_all2 same_body (blocks0 code) bs" "edges_ok (length bs) bs"
    "add_exception_edges (addr_map code) code (add_edges (addr_map code) code (blocks0 code)) = Inr bs"
    "blocks cfg = foldl add_pred bs (edge_pairs bs)" "addr_to_block cfg = addr_map code" "cfg_entry cfg = BlockIdx 0"
proof -
  let ?bs1 = "add_edges (addr_map code) code (blocks0 code)"
  obtain bs where bs: "add_exception_edges (addr_map code) code ?bs1 = Inr bs"
    and f: "fill_predecessors bs = Inr (blocks cfg)" and m: "addr_to_block cfg = addr_map code" "cfg_entry cfg = BlockIdx 0"
    using assms unfolding build_def Let_def blocks0_def addr_map_def by (auto split: prod.splits)
  have "predecessors b = []" if "b \<in> set (blocks0 code)" for b
    using that by (auto simp: in_set_conv_nth blocks0_nth block_of_def)
  then have "edges_ok (length (find_leaders code)) ?bs1"
    using block_edges_ok unfolding edges_ok_def add_edges_def by auto
  from add_exception_edges_inv [OF bs this] have i: "list_all2 same_body ?bs1 bs" "edges_ok (length (find_leaders code)) bs" by simp_all
  have "list_all2 same_body (blocks0 code) ?bs1" by (simp add: add_edges_def list_all2_conv_all_nth same_body_def)
  then have l: "list_all2 same_body (blocks0 code) bs" using i(1) list_all2_same_body_trans by blast
  then have "length bs = length (find_leaders code)" using blocks0_nth(1) [of code] list_all2_lengthD by fastforce
  with i(2) have e: "edges_ok (length bs) bs" by simp
  show thesis using that [OF l e bs] fill_predecessors_eq [OF e] f m by simp
qed

lemma build_wf:
  assumes "build code = Inr cfg"
  shows "cfg_wf cfg"
proof (cases "instructions code = []")
  case True
  with assms show ?thesis by (auto simp: build_def cfg_wf_def)
next
  case False
  with assms obtain bs where bs: "list_all2 same_body (blocks0 code) bs" "edges_ok (length bs) bs"
      "blocks cfg = foldl add_pred bs (edge_pairs bs)" by (rule build_parts)
  let ?cs = "blocks cfg"
  have ps: "\<forall>(s, d) \<in> set (edge_pairs bs). idx_ok (length bs) d" using bs(2) by (auto simp: edges_ok_def edge_pairs_def)
  have len: "length ?cs = length bs"
    by (cases "bs = []") (use foldl_add_pred [OF ps, of 0] bs(3) in \<open>auto simp: edge_pairs_def\<close>)
  have n: "length bs = length (find_leaders code)" using bs(1) blocks0_nth(1) [of code] list_all2_lengthD by fastforce
  have fill: "same_body (bs ! k) (?cs ! k)" "successors (?cs ! k) = successors (bs ! k)" "ordset (predecessors (?cs ! k))"
    "set (predecessors (?cs ! k)) = {s. \<exists>d. (s, d) \<in> set (edge_pairs bs) \<and> unat (un_BlockIdx d) = k}" if "k < length bs" for k
    using foldl_add_pred [OF ps that] bs(2) that unfolding bs(3) edges_ok_def by (auto simp: ordset_def)
  have id: "bb_id (?cs ! k) = BlockIdx (of_nat k)" if "k < length bs" for k
    using fill(1) [OF that] bs(1) blocks0_nth(2) [of k code] that n by (auto simp: same_body_def list_all2_conv_all_nth block_of_def)
  have le: "length bs \<le> 2 ^ 32" using leaders_len [of code] n by simp
  have un: "unat (un_BlockIdx (bb_id (?cs ! k))) = k" if "k < length bs" for k
    using id [OF that] that le by (simp add: unat_of_nat_u32)
  have eq: "d = bb_id (?cs ! k) \<longleftrightarrow> unat (un_BlockIdx d) = k" if "k < length bs" for d k
    using un [OF that] by (metis BlockIdx.expand unsigned_word_eqI)
  have "set (predecessors (?cs ! k)) = {bb_id a | a e. a \<in> set ?cs \<and> e \<in> set (successors a) \<and> edge_target e = bb_id (?cs ! k)}"
    if k: "k < length bs" for k
  proof -
    have "map (\<lambda>b. map (\<lambda>e. (bb_id b, edge_target e)) (successors b)) bs = map (\<lambda>b. map (\<lambda>e. (bb_id b, edge_target e)) (successors b)) ?cs"
      by (rule nth_equalityI) (use len fill(1,2) in \<open>simp_all add: same_body_def\<close>)
    then have "edge_pairs bs = edge_pairs ?cs" by (simp add: edge_pairs_def)
    then have "(s, d) \<in> set (edge_pairs bs) \<longleftrightarrow> (\<exists>a e. a \<in> set ?cs \<and> e \<in> set (successors a) \<and> s = bb_id a \<and> d = edge_target e)" for s d
      by (auto simp: edge_pairs_def)
    then show ?thesis unfolding fill(4) [OF k] using eq [OF k] by auto
  qed
  moreover have "\<forall>b \<in> set ?cs. \<forall>e \<in> set (successors b). idx_ok (length ?cs) (edge_target e)"
    using bs(2) fill(2) len by (fastforce simp: edges_ok_def in_set_conv_nth)
  ultimately show ?thesis using le len id fill(3) unfolding cfg_wf_def all_set_conv_all_nth by simp
qed

section \<open>Blocks partition the stream\<close>

text \<open>What the decoder guarantees of the instructions: ordered, disjoint, non-empty, without wrap-around.\<close>

definition stream_ok :: "CodeItem \<Rightarrow> bool" where
  "stream_ok code \<longleftrightarrow> sorted_wrt (\<lambda>i j. unat (addr i) + insn_size i \<le> unat (addr j)) (instructions code)
     \<and> (\<forall>i \<in> set (instructions code). 0 < insn_size i \<and> unat (addr i) + insn_size i < 2 ^ 32)"

lemma filter_split:
  fixes f :: "'a \<Rightarrow> 'b :: linorder"
  assumes "sorted_wrt (\<lambda>x y. f x \<le> f y) xs" and "a \<le> b"
  shows "filter (\<lambda>x. f x < a) xs @ filter (\<lambda>x. a \<le> f x \<and> f x < b) xs = filter (\<lambda>x. f x < b) xs"
  using assms
proof (induction xs)
  case (Cons x xs)
  show ?case
  proof (cases "f x < a")
    case True
    with Cons show ?thesis by auto
  next
    case False
    then have "filter (\<lambda>x. f x < a) xs = []" using Cons.prems by (force simp: filter_empty_conv)
    with Cons False show ?thesis by auto
  qed
qed simp

lemma interval_concat:
  fixes f :: "'a \<Rightarrow> 'b :: linorder"
  assumes "sorted_wrt (\<lambda>x y. f x \<le> f y) xs" and "sorted_wrt (<) ls" and "\<forall>x \<in> set xs. ls ! 0 \<le> f x" and "k < length ls"
  shows "concat (map (\<lambda>k. filter (\<lambda>x. ls ! k \<le> f x \<and> f x < ls ! Suc k) xs) [0..<k]) = filter (\<lambda>x. f x < ls ! k) xs"
  using assms(4)
proof (induction k)
  case 0
  then show ?case using assms(3) by (auto simp: filter_empty_conv not_less)
next
  case (Suc k)
  then have "ls ! k \<le> ls ! Suc k" using assms(2) by (auto simp: sorted_wrt_iff_nth_less intro: less_imp_le)
  with Suc filter_split [OF assms(1), of "ls ! k" "ls ! Suc k"] show ?case by simp
qed

lemma stream_sorted: "stream_ok code \<Longrightarrow> sorted_wrt (\<lambda>i j. addr i \<le> addr j) (instructions code)"
  unfolding stream_ok_def by (auto elim!: sorted_wrt_mono_rel [rotated] simp: word_le_nat_alt)

lemma stream_below_max: "stream_ok code \<Longrightarrow> i \<in> set (instructions code) \<Longrightarrow> addr i < - 1"
proof -
  assume "stream_ok code" "i \<in> set (instructions code)"
  then have "unat (addr i) < 2 ^ 32 - 1" by (fastforce simp: stream_ok_def)
  then show ?thesis by (simp add: word_less_nat_alt unsigned_minus_1_eq_mask mask_eq_exp_minus_1)
qed

lemma leader_zero: "find_leaders code ! 0 = 0" "0 < length (find_leaders code)"
proof -
  have z: "0 \<in> set (find_leaders code)" by (simp add: find_leaders_set)
  then show p: "0 < length (find_leaders code)" by (cases "find_leaders code") auto
  obtain k where k: "k < length (find_leaders code)" "find_leaders code ! k = 0" using z by (auto simp: in_set_conv_nth)
  have "find_leaders code ! 0 \<le> find_leaders code ! k"
    using find_leaders_ordset [of code] k(1) by (simp add: ordset_def sorted_nth_mono)
  with k(2) show "find_leaders code ! 0 = 0" by simp
qed

lemma next_leader_nth: "Suc k < length ls \<Longrightarrow> next_leader ls k = ls ! Suc k" "length ls \<le> Suc k \<Longrightarrow> next_leader ls k = - 1"
  by (simp_all add: next_leader_def get_at_def)

lemma blocks0_partition:
  assumes ok: "stream_ok code"
  shows "concat (map bb_insns (blocks0 code)) = instructions code"
proof -
  let ?ls = "find_leaders code" and ?xs = "instructions code"
  obtain k where n: "length ?ls = Suc k" using leader_zero(2) [of code] gr0_implies_Suc by blast
  note st = ordset_strict [OF find_leaders_ordset, of code]
  let ?blk = "\<lambda>k. filter (\<lambda>x. ?ls ! k \<le> addr x \<and> addr x < next_leader ?ls k) ?xs"
  have "map bb_insns (blocks0 code) = map ?blk [0..<length ?ls]"
    by (rule nth_equalityI) (simp_all add: blocks0_nth block_of_def)
  also have "\<dots> = map ?blk [0..<k] @ [?blk k]" unfolding n by simp
  also have "map ?blk [0..<k] = map (\<lambda>k. filter (\<lambda>x. ?ls ! k \<le> addr x \<and> addr x < ?ls ! Suc k) ?xs) [0..<k]"
    using n by (intro map_cong refl) (auto simp: next_leader_nth)
  also have "concat (\<dots> @ [?blk k]) = filter (\<lambda>x. addr x < ?ls ! k) ?xs @ ?blk k"
    using interval_concat [OF stream_sorted [OF ok] st, of k] n leader_zero(1) [of code] by simp
  also have "\<dots> = filter (\<lambda>x. addr x < - 1) ?xs"
  proof -
    have "next_leader ?ls k = - 1" using n by (intro next_leader_nth(2)) simp
    moreover have "?ls ! k \<le> - 1" by simp
    ultimately show ?thesis using filter_split [OF stream_sorted [OF ok], of "?ls ! k" "- 1"] by simp
  qed
  also have "\<dots> = ?xs" using stream_below_max [OF ok] by (simp add: filter_id_conv)
  finally show ?thesis by simp
qed

section \<open>Instruction-level control flow\<close>

text \<open>The control flow of the Dalvik instruction set by opcode byte, independent of the opcode classes of
  the code: \<open>0x0E\<close> to \<open>0x11\<close> return and \<open>0x27\<close> throws; \<open>0x28\<close> to \<open>0x2A\<close> jump; \<open>0x2B\<close> and \<open>0x2C\<close> switch;
  \<open>0x32\<close> to \<open>0x3D\<close> are the conditional jumps; everything else goes on with the next instruction.\<close>

definition ends_byte :: "byte \<Rightarrow> bool" where
  "ends_byte b \<longleftrightarrow> 0x0E \<le> b \<and> b \<le> 0x11 \<or> b = 0x27"

definition jump_byte :: "byte \<Rightarrow> bool" where
  "jump_byte b \<longleftrightarrow> 0x28 \<le> b \<and> b \<le> 0x2A"

definition switch_byte :: "byte \<Rightarrow> bool" where
  "switch_byte b \<longleftrightarrow> b = 0x2B \<or> b = 0x2C"

definition cond_byte :: "byte \<Rightarrow> bool" where
  "cond_byte b \<longleftrightarrow> 0x32 \<le> b \<and> b \<le> 0x3D"

lemmas byte_class_defs = ends_byte_def jump_byte_def switch_byte_def cond_byte_def
  is_terminal_def is_unconditional_branch_def is_switch_def is_branch_def word_le_nat_alt

lemma op_class_bytes:
  "is_terminal op = ends_byte (to_u8 op) \<and> is_unconditional_branch op = jump_byte (to_u8 op)
   \<and> is_switch op = switch_byte (to_u8 op)
   \<and> is_branch op = (jump_byte (to_u8 op) \<or> switch_byte (to_u8 op) \<or> cond_byte (to_u8 op))"
proof (cases op)
  case (OBase x) then show ?thesis by (cases x) (simp_all add: byte_class_defs)
next
  case (OConst x) then show ?thesis by (cases x) (simp_all add: byte_class_defs)
next
  case (OCmp x) then show ?thesis by (cases x) (simp_all add: byte_class_defs)
next
  case (OArray x) then show ?thesis by (cases x) (simp_all add: byte_class_defs)
next
  case (OIfield x) then show ?thesis by (cases x) (simp_all add: byte_class_defs)
next
  case (OSfield x) then show ?thesis by (cases x) (simp_all add: byte_class_defs)
next
  case (OInvoke x) then show ?thesis by (cases x) (simp_all add: byte_class_defs)
next
  case (OUnary x) then show ?thesis by (cases x) (simp_all add: byte_class_defs)
next
  case (OBinary x) then show ?thesis by (cases x) (simp_all add: byte_class_defs)
next
  case (OBinary2 x) then show ?thesis by (cases x) (simp_all add: byte_class_defs)
next
  case (OLit x) then show ?thesis by (cases x) (simp_all add: byte_class_defs)
next
  case (OHandle x) then show ?thesis by (cases x) (simp_all add: byte_class_defs)
qed

lemma byte_classes_disjoint:
  "ends_byte b \<Longrightarrow> \<not> jump_byte b \<and> \<not> switch_byte b \<and> \<not> cond_byte b"
  "jump_byte b \<Longrightarrow> \<not> switch_byte b \<and> \<not> cond_byte b" "switch_byte b \<Longrightarrow> \<not> cond_byte b"
  by (auto simp: ends_byte_def jump_byte_def switch_byte_def cond_byte_def word_le_nat_alt)

abbreviation op_byte :: "Instruction \<Rightarrow> byte" where
  "op_byte i \<equiv> to_u8 (insn_op i)"

text \<open>The addresses at which a block starts.\<close>

inductive starts_block :: "CodeItem \<Rightarrow> u32 \<Rightarrow> bool" for code where
  entry: "starts_block code 0"
| after: "i \<in> set (instructions code) \<Longrightarrow>
    ends_byte (op_byte i) \<or> jump_byte (op_byte i) \<or> switch_byte (op_byte i) \<or> cond_byte (op_byte i) \<Longrightarrow>
    starts_block code (addr i + of_nat (insn_size i))"
| jump: "i \<in> set (instructions code) \<Longrightarrow> jump_byte (op_byte i) \<or> cond_byte (op_byte i) \<Longrightarrow> target i = Some a \<Longrightarrow>
    starts_block code a"
| packed: "i \<in> set (instructions code) \<Longrightarrow> switch_byte (op_byte i) \<Longrightarrow> target i = Some k \<Longrightarrow>
    map_of (payloads code) k = Some (PackedSwitchData key ts) \<Longrightarrow> a \<in> set ts \<Longrightarrow> starts_block code a"
| sparse: "i \<in> set (instructions code) \<Longrightarrow> switch_byte (op_byte i) \<Longrightarrow> target i = Some k \<Longrightarrow>
    map_of (payloads code) k = Some (SparseSwitchData keys ts) \<Longrightarrow> a \<in> set ts \<Longrightarrow> starts_block code a"
| handler: "h \<in> set (catch_handlers code) \<Longrightarrow> c \<in> set (catches h) \<Longrightarrow> starts_block code (handler_addr c)"
| catch_all: "h \<in> set (catch_handlers code) \<Longrightarrow> catch_all_addr h = Some a \<Longrightarrow> starts_block code a"

lemma insn_leaders_starts:
  assumes i: "i \<in> set (instructions code)" and a: "a \<in> set (insn_leaders code i)"
  shows "starts_block code a"
proof -
  note c = op_class_bytes [of "insn_op i"]
  have "(is_branch (insn_op i) \<or> is_terminal (insn_op i)) \<and> a = next_addr i
    \<or> (\<exists>t p. target i = Some t \<and> is_switch (insn_op i) \<and> map_of (payloads code) t = Some p \<and> a \<in> set (switch_targets p))
    \<or> target i = Some a \<and> is_branch (insn_op i) \<and> \<not> is_switch (insn_op i)"
    using a by (cases "target i"; cases "map_of (payloads code) (the (target i))") (auto simp: insn_leaders_def split: if_splits)
  then show ?thesis
  proof (elim disjE exE conjE)
    fix t p assume t: "target i = Some t" "is_switch (insn_op i)" "map_of (payloads code) t = Some p" "a \<in> set (switch_targets p)"
    show ?thesis using t c starts_block.packed [OF i _ t(1)] starts_block.sparse [OF i _ t(1)] by (cases p) auto
  qed (use starts_block.after [OF i] starts_block.jump [OF i] c in \<open>auto simp: next_addr_def\<close>)
qed

lemma leaders_start: "set (find_leaders code) = {a. starts_block code a}"
proof (intro set_eqI iffI; unfold mem_Collect_eq)
  fix a assume "a \<in> set (find_leaders code)"
  then show "starts_block code a" unfolding find_leaders_set
    by (auto simp: handler_leaders_def split: option.splits
        intro: starts_block.entry starts_block.handler starts_block.catch_all insn_leaders_starts)
next
  fix a assume "starts_block code a"
  then show "a \<in> set (find_leaders code)"
  proof cases
    case (after i)
    then show ?thesis using op_class_bytes [of "insn_op i"] unfolding find_leaders_set
      by (intro UnI1 UnI2 UN_I [of i]) (auto simp: insn_leaders_def next_addr_def)
  next
    case (jump i)
    then show ?thesis using op_class_bytes [of "insn_op i"] byte_classes_disjoint [of "op_byte i"] unfolding find_leaders_set
      by (intro UnI1 UnI2 UN_I [of i]) (auto simp: insn_leaders_def)
  next
    case (packed i k key ts)
    then show ?thesis using op_class_bytes [of "insn_op i"] unfolding find_leaders_set
      by (intro UnI1 UnI2 UN_I [of i]) (auto simp: insn_leaders_def)
  next
    case (sparse i k keys ts)
    then show ?thesis using op_class_bytes [of "insn_op i"] unfolding find_leaders_set
      by (intro UnI1 UnI2 UN_I [of i]) (auto simp: insn_leaders_def)
  next
    case (handler h c)
    then show ?thesis unfolding find_leaders_set by (intro UnI2 UN_I [of h]) (auto simp: handler_leaders_def)
  next
    case (catch_all h)
    then show ?thesis unfolding find_leaders_set by (intro UnI2 UN_I [of h]) (auto simp: handler_leaders_def)
  qed (simp add: find_leaders_set)
qed

text \<open>Where a handler goes on: at the address of a clause for the type it catches, or at the catch-all.\<close>

definition catches_to :: "CatchHandler \<Rightarrow> EdgeKind \<Rightarrow> u32 \<Rightarrow> bool" where
  "catches_to h kind a \<longleftrightarrow> (\<exists>c \<in> set (catches h). kind = ExceptionHandler (exception_type c) \<and> a = handler_addr c)
     \<or> kind = ExceptionCatchAll \<and> catch_all_addr h = Some a"

text \<open>Control transfers from an instruction, with the kind of edge that stands for each. A thrown
  exception may leave any instruction of a try range for any of its handlers.\<close>

inductive flow :: "CodeItem \<Rightarrow> Instruction \<Rightarrow> EdgeKind \<Rightarrow> u32 \<Rightarrow> bool" for code i where
  fall: "\<not> ends_byte (op_byte i) \<Longrightarrow> \<not> jump_byte (op_byte i) \<Longrightarrow> \<not> switch_byte (op_byte i) \<Longrightarrow>
    flow code i FallThrough (addr i + of_nat (insn_size i))"
| jump: "jump_byte (op_byte i) \<or> cond_byte (op_byte i) \<Longrightarrow> target i = Some a \<Longrightarrow> flow code i Branch a"
| default: "switch_byte (op_byte i) \<Longrightarrow> flow code i SwitchDefault (addr i + of_nat (insn_size i))"
| packed: "switch_byte (op_byte i) \<Longrightarrow> target i = Some k \<Longrightarrow> map_of (payloads code) k = Some (PackedSwitchData key ts) \<Longrightarrow>
    n < length ts \<Longrightarrow> flow code i (SwitchCase (key + of_nat n)) (ts ! n)"
| sparse: "switch_byte (op_byte i) \<Longrightarrow> target i = Some k \<Longrightarrow> map_of (payloads code) k = Some (SparseSwitchData keys ts) \<Longrightarrow>
    n < length keys \<Longrightarrow> n < length ts \<Longrightarrow> flow code i (SwitchCase (keys ! n)) (ts ! n)"
| raise: "t \<in> set (tries code) \<Longrightarrow> unat (start_addr t) \<le> unat (addr i) \<Longrightarrow>
    unat (addr i) < unat (start_addr t) + unat (insn_count t) \<Longrightarrow> handler_idx t < length (catch_handlers code) \<Longrightarrow>
    catches_to (catch_handlers code ! handler_idx t) kind a \<Longrightarrow> flow code i kind a"

definition by_exception :: "EdgeKind \<Rightarrow> bool" where
  "by_exception k \<longleftrightarrow> k = ExceptionCatchAll \<or> (\<exists>t. k = ExceptionHandler t)"

lemma catches_to_exception: "catches_to h kind a \<Longrightarrow> by_exception kind"
  by (auto simp: catches_to_def by_exception_def)

lemma catches_to_starts: "h \<in> set (catch_handlers code) \<Longrightarrow> catches_to h kind a \<Longrightarrow> starts_block code a"
  by (auto simp: catches_to_def intro: starts_block.handler starts_block.catch_all)

text \<open>The transfers other than by exceptions, as the edge builder lists them.\<close>

primrec case_flow :: "PayloadData \<Rightarrow> (EdgeKind \<times> u32) list" where
  "case_flow (PackedSwitchData key ts) = map (\<lambda>(j, t). (SwitchCase (key + of_nat j), t)) (zip [0..<length ts] ts)"
| "case_flow (SparseSwitchData keys ts) = map (\<lambda>(k, t). (SwitchCase k, t)) (zip keys ts)"
| "case_flow (FillArrayDataPayload _ _) = []"

definition flow_list :: "CodeItem \<Rightarrow> Instruction \<Rightarrow> (EdgeKind \<times> u32) list" where
  "flow_list code i =
     (if is_terminal (insn_op i) then []
      else if is_unconditional_branch (insn_op i) then (case target i of Some t \<Rightarrow> [(Branch, t)] | None \<Rightarrow> [])
      else if is_switch (insn_op i) then
        (SwitchDefault, next_addr i) # (case target i of
            Some t \<Rightarrow> (case map_of (payloads code) t of Some p \<Rightarrow> case_flow p | None \<Rightarrow> [])
          | None \<Rightarrow> [])
      else if is_branch (insn_op i) then (FallThrough, next_addr i) # (case target i of Some t \<Rightarrow> [(Branch, t)] | None \<Rightarrow> [])
      else [(FallThrough, next_addr i)])"

lemma flow_list_sound: "(kind, a) \<in> set (flow_list code i) \<Longrightarrow> flow code i kind a \<and> \<not> by_exception kind"
proof -
  assume l: "(kind, a) \<in> set (flow_list code i)"
  note c = op_class_bytes [of "insn_op i"]
  have sw: "flow code i kind a \<and> \<not> by_exception kind"
    if "switch_byte (op_byte i)" "target i = Some t" "map_of (payloads code) t = Some p" "(kind, a) \<in> set (case_flow p)" for t p
    using that flow.packed [OF that(1,2)] flow.sparse [OF that(1,2)] by (cases p) (auto simp: in_set_zip by_exception_def)
  show ?thesis
    using l c byte_classes_disjoint [of "op_byte i"] sw unfolding flow_list_def next_addr_def
    by (cases "target i"; cases "map_of (payloads code) (the (target i))")
      (auto simp: by_exception_def split: if_splits intro: flow.fall flow.jump flow.default)
qed

lemma flow_list_complete: "flow code i kind a \<Longrightarrow> \<not> by_exception kind \<Longrightarrow> (kind, a) \<in> set (flow_list code i)"
proof -
  assume f: "flow code i kind a" and n: "\<not> by_exception kind"
  note c = op_class_bytes [of "insn_op i"] and d = byte_classes_disjoint [of "op_byte i"]
  from f show ?thesis
  proof cases
    case (packed k key ts m)
    then have "(kind, a) \<in> set (case_flow (PackedSwitchData key ts))" by (force simp: in_set_zip)
    with packed c d show ?thesis by (auto simp: flow_list_def)
  next
    case (sparse k keys ts m)
    then have "(kind, a) \<in> set (case_flow (SparseSwitchData keys ts))" by (force simp: in_set_zip)
    with sparse c d show ?thesis by (auto simp: flow_list_def)
  next
    case (raise t)
    then show ?thesis using n catches_to_exception by blast
  qed (use c d n in \<open>auto simp: flow_list_def next_addr_def by_exception_def\<close>)
qed

lemma flow_starts:
  assumes "i \<in> set (instructions code)" and "flow code i kind a"
  shows "starts_block code a \<or> kind = FallThrough \<and> a = next_addr i \<and> \<not> is_branch (insn_op i) \<and> \<not> is_terminal (insn_op i)"
  using assms(2)
proof cases
  case fall
  then show ?thesis using starts_block.after [OF assms(1)] op_class_bytes [of "insn_op i"] by (auto simp: next_addr_def)
next
  case (raise t)
  then show ?thesis using catches_to_starts [OF nth_mem] by blast
qed (use assms(1) in \<open>auto intro: starts_block.after starts_block.jump starts_block.packed starts_block.sparse\<close>)

section \<open>Edges\<close>

definition blocks_at :: "CodeItem \<Rightarrow> u32 \<Rightarrow> BlockIdx set" where
  "blocks_at code a = {BlockIdx (of_nat k) | k. k < length (find_leaders code) \<and> find_leaders code ! k = a}"

lemma edge_to_iff: "e \<in> set (edge_to (addr_map code) a kind) \<longleftrightarrow> edge_kind e = kind \<and> edge_target e \<in> blocks_at code a"
proof (cases "map_of (addr_map code) a")
  case None
  then have "blocks_at code a = {}" using addr_map_lookup [of code a] by (auto simp: blocks_at_def)
  with None show ?thesis by (simp add: edge_to_def)
next
  case (Some idx)
  then have "blocks_at code a = {idx}"
    using addr_map_lookup [of code a] find_leaders_ordset [of code] by (auto simp: blocks_at_def ordset_def nth_eq_iff_index_eq)
  with Some show ?thesis by (cases e) (auto simp: edge_to_def)
qed

lemma payload_edges_flow: "payload_edges m p = concat (map (\<lambda>(kind, a). edge_to m a kind) (case_flow p))"
  by (cases p) (simp_all add: case_prod_unfold comp_def)

lemma block_edges_flow:
  "bb_insns b \<noteq> [] \<Longrightarrow> block_edges m code b = concat (map (\<lambda>(kind, a). edge_to m a kind) (flow_list code (last (bb_insns b))))"
  by (cases "target (last (bb_insns b))"; cases "map_of (payloads code) (the (target (last (bb_insns b))))")
    (simp_all add: block_edges_def flow_list_def Let_def payload_edges_flow)

lemma block_edges_iff:
  "bb_insns b \<noteq> [] \<Longrightarrow> e \<in> set (block_edges (addr_map code) code b) \<longleftrightarrow>
   (\<exists>a. flow code (last (bb_insns b)) (edge_kind e) a \<and> \<not> by_exception (edge_kind e) \<and> edge_target e \<in> blocks_at code a)"
proof -
  have "e \<in> set (concat (map (\<lambda>(kind, a). edge_to (addr_map code) a kind) xs)) \<longleftrightarrow>
      (\<exists>a. (edge_kind e, a) \<in> set xs \<and> edge_target e \<in> blocks_at code a)" for xs
    by (auto simp: edge_to_iff)
  moreover have "(edge_kind e, a) \<in> set (flow_list code i) \<longleftrightarrow> flow code i (edge_kind e) a \<and> \<not> by_exception (edge_kind e)" for a i
    using flow_list_sound flow_list_complete by blast
  ultimately show "bb_insns b \<noteq> [] \<Longrightarrow> ?thesis" unfolding block_edges_flow by simp
qed

lemma handler_edges_iff:
  "e \<in> set (handler_edges (addr_map code) h) \<longleftrightarrow> (\<exists>a. catches_to h (edge_kind e) a \<and> edge_target e \<in> blocks_at code a)"
  by (cases "catch_all_addr h") (auto simp: handler_edges_def edge_to_iff catches_to_def)

lemma block_edges_normal: "e \<in> set (block_edges m code b) \<Longrightarrow> \<not> is_exception_kind (edge_kind e)"
proof -
  have t: "e \<in> set (edge_to m a k) \<Longrightarrow> edge_kind e = k" for a k by (auto simp: edge_to_def split: option.splits)
  have "e \<in> set (payload_edges m p) \<Longrightarrow> \<not> is_exception_kind (edge_kind e)" for p by (cases p) (auto dest!: t)
  then show "e \<in> set (block_edges m code b) \<Longrightarrow> \<not> is_exception_kind (edge_kind e)"
    by (auto simp: block_edges_def Let_def dest!: t split: if_splits option.splits)
qed

lemma handler_edges_exn: "e \<in> set (handler_edges m h) \<Longrightarrow> is_exception_kind (edge_kind e)"
proof -
  have t: "e \<in> set (edge_to m a k) \<Longrightarrow> edge_kind e = k" for a k by (auto simp: edge_to_def split: option.splits)
  show "e \<in> set (handler_edges m h) \<Longrightarrow> is_exception_kind (edge_kind e)"
    by (auto simp: handler_edges_def dest!: t split: option.splits)
qed

abbreviation normal_edges :: "BasicBlock \<Rightarrow> Edge list" where
  "normal_edges b \<equiv> filter (\<lambda>e. \<not> is_exception_kind (edge_kind e)) (successors b)"

lemma add_exception_edges_normal:
  assumes "add_exception_edges m code bs = Inr bs'"
  shows "list_all2 (\<lambda>a b. normal_edges a = normal_edges b) bs bs'"
proof (rule foldE_inv [OF assms [unfolded add_exception_edges_def], where P = "list_all2 (\<lambda>a b. normal_edges a = normal_edges b) bs"])
  show "list_all2 (\<lambda>a b. normal_edges a = normal_edges b) bs bs" by (simp add: list_all2_refl)
next
  fix c t c'
  assume p: "list_all2 (\<lambda>a b. normal_edges a = normal_edges b) bs c" and s: "bindE (handler_of code t) (\<lambda>h. Inr (map (\<lambda>b. if covers t b
      then b\<lparr>successors := successors b @ handler_edges m h\<rparr> else b) c)) = Inr c'"
  then obtain h where c': "c' = map (\<lambda>b. if covers t b then b\<lparr>successors := successors b @ handler_edges m h\<rparr> else b) c" by auto
  have "filter (\<lambda>e. \<not> is_exception_kind (edge_kind e)) (handler_edges m h) = []" using handler_edges_exn by (auto simp: filter_empty_conv)
  then show "list_all2 (\<lambda>a b. normal_edges a = normal_edges b) bs c'" using p unfolding c' by (auto simp: list_all2_conv_all_nth)
qed

text \<open>The blocks of the result, by position.\<close>

lemma build_block:
  assumes "build code = Inr cfg" and "instructions code \<noteq> []"
  shows "length (blocks cfg) = length (find_leaders code)"
    "k < length (find_leaders code) \<Longrightarrow> same_body (blocks0 code ! k) (blocks cfg ! k)
       \<and> normal_edges (blocks cfg ! k) = block_edges (addr_map code) code (blocks0 code ! k)"
proof -
  obtain bs where bs: "list_all2 same_body (blocks0 code) bs" "edges_ok (length bs) bs"
    "add_exception_edges (addr_map code) code (add_edges (addr_map code) code (blocks0 code)) = Inr bs"
    "blocks cfg = foldl add_pred bs (edge_pairs bs)" using assms by (rule build_parts)
  have ps: "\<forall>(s, d) \<in> set (edge_pairs bs). idx_ok (length bs) d" using bs(2) by (auto simp: edges_ok_def edge_pairs_def)
  have n: "length bs = length (find_leaders code)" using bs(1) blocks0_nth(1) [of code] list_all2_lengthD by fastforce
  then show "length (blocks cfg) = length (find_leaders code)"
    using foldl_add_pred [OF ps, of 0] leader_zero(2) [of code] bs(4) by simp
  assume k: "k < length (find_leaders code)"
  note f = foldl_add_pred [OF ps, of k, folded bs(4)]
  have "same_body (blocks0 code ! k) (blocks cfg ! k)"
    using f bs(1) k n by (auto simp: list_all2_conv_all_nth same_body_def)
  moreover have "normal_edges (bs ! k) = normal_edges (add_edges (addr_map code) code (blocks0 code) ! k)"
    using add_exception_edges_normal [OF bs(3)] k n by (simp add: list_all2_conv_all_nth)
  moreover have "normal_edges (add_edges (addr_map code) code (blocks0 code) ! k) = block_edges (addr_map code) code (blocks0 code ! k)"
    using k block_edges_normal by (auto simp: add_edges_def blocks0_nth filter_id_conv)
  ultimately show "same_body (blocks0 code ! k) (blocks cfg ! k)
       \<and> normal_edges (blocks cfg ! k) = block_edges (addr_map code) code (blocks0 code ! k)"
    using f k n by simp
qed

lemma covers_body: "same_body a b \<Longrightarrow> covers t a = covers t b"
  by (simp add: same_body_def covers_def)

text \<open>The edges the tries of a code item give a block.\<close>

definition raise_edges :: "(u32 \<times> BlockIdx) list \<Rightarrow> CodeItem \<Rightarrow> TryItem list \<Rightarrow> BasicBlock \<Rightarrow> Edge list" where
  "raise_edges m code ts b =
     concat (map (\<lambda>t. if covers t b then handler_edges m (catch_handlers code ! handler_idx t) else []) ts)"

lemma raise_edges_body: "same_body a b \<Longrightarrow> raise_edges m code ts a = raise_edges m code ts b"
  unfolding raise_edges_def by (simp add: covers_body)

lemma add_exception_edges_eq:
  "foldE (\<lambda>bs t. bindE (handler_of code t) (\<lambda>h.
      Inr (map (\<lambda>b. if covers t b then b\<lparr>successors := successors b @ handler_edges m h\<rparr> else b) bs))) bs ts = Inr bs' \<Longrightarrow>
   bs' = map (\<lambda>b. b\<lparr>successors := successors b @ raise_edges m code ts b\<rparr>) bs
   \<and> (\<forall>t \<in> set ts. handler_idx t < length (catch_handlers code))"
proof (induction ts arbitrary: bs)
  case Nil
  then show ?case by (simp add: raise_edges_def map_idI)
next
  case (Cons t ts)
  let ?f = "\<lambda>b. if covers t b then b\<lparr>successors := successors b @ handler_edges m (catch_handlers code ! handler_idx t)\<rparr> else b"
  from Cons.prems have h: "handler_idx t < length (catch_handlers code)" "handler_of code t = Inr (catch_handlers code ! handler_idx t)"
    by (auto simp: handler_of_def ok_or_def get_at_def split: if_splits)
  note IH = Cons.IH [of "map ?f bs"]
  have "raise_edges m code ts (b\<lparr>successors := es\<rparr>) = raise_edges m code ts b" for b es
    by (rule raise_edges_body) (simp add: same_body_def)
  then have "(\<lambda>b. b\<lparr>successors := successors b @ raise_edges m code ts b\<rparr>) (?f b)
      = b\<lparr>successors := successors b @ raise_edges m code (t # ts) b\<rparr>" for b
    by (simp add: raise_edges_def)
  with IH Cons.prems h show ?case by (simp add: comp_def)
qed

lemma build_successors:
  assumes "build code = Inr cfg" and "instructions code \<noteq> []" and "k < length (find_leaders code)"
  shows "successors (blocks cfg ! k) = block_edges (addr_map code) code (blocks0 code ! k)
      @ raise_edges (addr_map code) code (tries code) (blocks0 code ! k)"
    "\<forall>t \<in> set (tries code). handler_idx t < length (catch_handlers code)"
proof -
  obtain bs where bs: "list_all2 same_body (blocks0 code) bs" "edges_ok (length bs) bs"
    "add_exception_edges (addr_map code) code (add_edges (addr_map code) code (blocks0 code)) = Inr bs"
    "blocks cfg = foldl add_pred bs (edge_pairs bs)" using assms(1,2) by (rule build_parts)
  have ps: "\<forall>(s, d) \<in> set (edge_pairs bs). idx_ok (length bs) d" using bs(2) by (auto simp: edges_ok_def edge_pairs_def)
  have n: "length bs = length (find_leaders code)" using bs(1) blocks0_nth(1) [of code] list_all2_lengthD by fastforce
  note eq = add_exception_edges_eq [OF bs(3) [unfolded add_exception_edges_def]]
  then show "\<forall>t \<in> set (tries code). handler_idx t < length (catch_handlers code)" by blast
  let ?b = "blocks0 code ! k"
  have "raise_edges (addr_map code) code (tries code) (?b\<lparr>successors := es\<rparr>) = raise_edges (addr_map code) code (tries code) ?b" for es
    by (rule raise_edges_body) (simp add: same_body_def)
  then have "successors (bs ! k) = block_edges (addr_map code) code ?b @ raise_edges (addr_map code) code (tries code) ?b"
    using eq assms(3) by (simp add: add_edges_def blocks0_nth(1))
  then show "successors (blocks cfg ! k) = block_edges (addr_map code) code ?b @ raise_edges (addr_map code) code (tries code) ?b"
    using foldl_add_pred [OF ps, of k] bs(4) n assms(3) by simp
qed

section \<open>The graph simulates the instructions\<close>

text \<open>No block starts inside an instruction.\<close>

definition aligned :: "CodeItem \<Rightarrow> bool" where
  "aligned code \<longleftrightarrow>
     (\<forall>i \<in> set (instructions code). \<forall>a. starts_block code a \<longrightarrow> \<not> (addr i < a \<and> a < addr i + of_nat (insn_size i)))"

text \<open>No try range wraps around.\<close>

definition tries_fit :: "CodeItem \<Rightarrow> bool" where
  "tries_fit code \<longleftrightarrow> (\<forall>t \<in> set (tries code). unat (start_addr t) + unat (insn_count t) < 2 ^ 32)"

lemma try_end_nat: "tries_fit code \<Longrightarrow> t \<in> set (tries code) \<Longrightarrow> unat (try_end t) = unat (start_addr t) + unat (insn_count t)"
  by (auto simp: tries_fit_def try_end_def unat_add_no_wrap unat_ucast_up)

lemma next_addr_nat: "stream_ok code \<Longrightarrow> i \<in> set (instructions code) \<Longrightarrow> unat (next_addr i) = unat (addr i) + insn_size i"
proof -
  assume "stream_ok code" "i \<in> set (instructions code)"
  then have "unat (addr i) + insn_size i < 2 ^ 32" by (simp add: stream_ok_def)
  then show ?thesis by (simp add: next_addr_def unat_add_no_wrap unat_of_nat_u32)
qed

lemma next_addr_gt: "stream_ok code \<Longrightarrow> i \<in> set (instructions code) \<Longrightarrow> addr i < next_addr i"
  using next_addr_nat [of code i] by (simp add: word_less_nat_alt stream_ok_def)

lemma block_split:
  assumes ok: "stream_ok code" and k: "k < length (find_leaders code)" and b: "bb_insns (blocks0 code ! k) = xs @ i # ys"
  shows "\<forall>x \<in> set xs. next_addr x \<le> addr i" "\<forall>y \<in> set ys. next_addr i \<le> addr y"
    "x \<in> set (xs @ i # ys) \<Longrightarrow> x \<in> set (instructions code) \<and> find_leaders code ! k \<le> addr x \<and> addr x < next_leader (find_leaders code) k"
proof -
  have m: "x \<in> set (xs @ i # ys) \<Longrightarrow> x \<in> set (instructions code) \<and> find_leaders code ! k \<le> addr x \<and> addr x < next_leader (find_leaders code) k" for x
    using k b by (auto simp: blocks0_nth block_of_def simp flip: b)
  then show "x \<in> set (xs @ i # ys) \<Longrightarrow> x \<in> set (instructions code) \<and> find_leaders code ! k \<le> addr x \<and> addr x < next_leader (find_leaders code) k" .
  have "sorted_wrt (\<lambda>i j. unat (addr i) + insn_size i \<le> unat (addr j)) (xs @ i # ys)"
    using ok k b by (simp add: stream_ok_def blocks0_nth block_of_def sorted_wrt_filter flip: b)
  then show "\<forall>x \<in> set xs. next_addr x \<le> addr i" "\<forall>y \<in> set ys. next_addr i \<le> addr y"
    using m next_addr_nat [OF ok] by (auto simp: sorted_wrt_append word_le_nat_alt)
qed

lemma leader_between:
  assumes "k < length (find_leaders code)" and "l \<in> set (find_leaders code)" and "find_leaders code ! k < l"
  shows "next_leader (find_leaders code) k \<le> l"
proof -
  obtain m where m: "m < length (find_leaders code)" "find_leaders code ! m = l" using assms(2) by (auto simp: in_set_conv_nth)
  have s: "sorted (find_leaders code)" using find_leaders_ordset [of code] by (simp add: ordset_def)
  have "k < m" using assms m sorted_nth_mono [OF s, of m k] by (metis leD linorder_not_le)
  then show ?thesis using m sorted_nth_mono [OF s, of "Suc k" m] by (simp add: next_leader_nth)
qed

lemma branch_ends_block:
  assumes ok: "stream_ok code" and k: "k < length (find_leaders code)" and b: "bb_insns (blocks0 code ! k) = xs @ i # ys"
    and op: "is_branch (insn_op i) \<or> is_terminal (insn_op i)"
  shows "ys = []"
proof (rule ccontr)
  assume "ys \<noteq> []"
  then obtain y where y: "y \<in> set ys" by (cases ys) auto
  note s = block_split [OF ok k b]
  have i: "i \<in> set (instructions code)" "find_leaders code ! k \<le> addr i" using s(3) [of i] by simp_all
  have "next_addr i \<in> set (find_leaders code)" unfolding find_leaders_set using i(1) op by (auto simp: insn_leaders_def)
  moreover have "find_leaders code ! k < next_addr i" using i next_addr_gt [OF ok i(1)] by simp
  ultimately have "next_leader (find_leaders code) k \<le> next_addr i" using leader_between [OF k] by blast
  also have "\<dots> \<le> addr y" using s(2) y by blast
  also have "\<dots> < next_leader (find_leaders code) k" using s(3) [of y] y by simp
  finally show False by simp
qed

lemma block_starts_with:
  assumes ok: "stream_ok code" and k: "k < length (find_leaders code)" and j: "j \<in> set (instructions code)" "addr j = find_leaders code ! k"
  shows "\<exists>ys. bb_insns (blocks0 code ! k) = j # ys"
proof -
  have "addr j < next_leader (find_leaders code) k"
  proof (cases "Suc k < length (find_leaders code)")
    case True
    then show ?thesis using j ordset_strict [OF find_leaders_ordset, of code] by (simp add: next_leader_nth sorted_wrt_iff_nth_less)
  next
    case False
    then show ?thesis using stream_below_max [OF ok j(1)] by (simp add: next_leader_nth)
  qed
  then have "j \<in> set (bb_insns (blocks0 code ! k))" using j k by (simp add: blocks0_nth block_of_def)
  then obtain xs ys where b: "bb_insns (blocks0 code ! k) = xs @ j # ys" by (meson split_list)
  note s = block_split [OF ok k b]
  have "xs = []"
  proof (rule ccontr)
    assume "xs \<noteq> []"
    then obtain x where x: "x \<in> set xs" by (cases xs) auto
    then have "next_addr x \<le> addr j" "find_leaders code ! k \<le> addr x" "x \<in> set (instructions code)" using s by auto
    with next_addr_gt [OF ok, of x] j(2) show False by simp
  qed
  with b show ?thesis by simp
qed

text \<open>How the graph takes a step of some kind from one instruction to another: by falling through inside a
  block, or along an edge of that kind to the start of a block, from the end of a block or, for
  exceptions, from anywhere in it.\<close>

definition graph_step :: "Cfg \<Rightarrow> Instruction \<Rightarrow> EdgeKind \<Rightarrow> Instruction \<Rightarrow> bool" where
  "graph_step cfg i kind j \<longleftrightarrow> (\<exists>b \<in> set (blocks cfg).
     kind = FallThrough \<and> (\<exists>xs ys. bb_insns b = xs @ i # j # ys)
     \<or> i \<in> set (bb_insns b) \<and> (by_exception kind \<or> i = last (bb_insns b))
       \<and> (\<exists>e \<in> set (successors b). edge_kind e = kind
            \<and> (\<exists>b' ys. block cfg (edge_target e) = Inr b' \<and> bb_insns b' = j # ys)))"

text \<open>What an edge of a block stands for: a transfer from its last instruction, or a handler of a try whose
  range meets the block.\<close>

definition edge_justified :: "CodeItem \<Rightarrow> BasicBlock \<Rightarrow> EdgeKind \<Rightarrow> u32 \<Rightarrow> bool" where
  "edge_justified code b kind a \<longleftrightarrow> bb_insns b \<noteq> [] \<and>
     (if by_exception kind
      then \<exists>t \<in> set (tries code). catches_to (catch_handlers code ! handler_idx t) kind a
        \<and> unat (bb_start b) < unat (start_addr t) + unat (insn_count t)
        \<and> unat (start_addr t) < unat (addr (last (bb_insns b))) + insn_size (last (bb_insns b))
      else flow code (last (bb_insns b)) kind a)"

lemma inner_next:
  assumes ok: "stream_ok code" and k: "k < length (find_leaders code)" and split: "bb_insns (blocks0 code ! k) = xs @ i # y # ys"
    and j: "j \<in> set (instructions code)" "addr j = next_addr i"
  shows "j = y"
proof -
  note s = block_split [OF ok k split]
  have i: "i \<in> set (instructions code)" using s(3) [of i] by simp
  have ij: "addr i < next_addr i" by (rule next_addr_gt [OF ok i])
  have y: "next_addr i \<le> addr y" "addr y < next_leader (find_leaders code) k" "y \<in> set (instructions code)" using s(2,3) by auto
  have "j \<in> set (bb_insns (blocks0 code ! k))"
    using j y ij s(3) [of i] k by (auto simp: blocks0_nth block_of_def)
  then have "j \<in> set xs \<or> j = i \<or> j = y \<or> j \<in> set ys" using split by auto
  moreover have "j \<notin> set xs" using s(1) s(3) [of j] next_addr_gt [OF ok j(1)] j(2) ij by force
  moreover have "j \<noteq> i" using j(2) ij by auto
  moreover have "j \<notin> set ys"
  proof
    assume "j \<in> set ys"
    moreover have "bb_insns (blocks0 code ! k) = (xs @ [i]) @ y # ys" using split by simp
    ultimately have "next_addr y \<le> addr j" using block_split(2) [OF ok k] by blast
    with next_addr_gt [OF ok y(3)] y(1) j(2) show False by simp
  qed
  ultimately show ?thesis by blast
qed

lemma last_flow_leader:
  assumes ok: "stream_ok code" and al: "aligned code" and k: "k < length (find_leaders code)"
    and split: "bb_insns (blocks0 code ! k) = xs @ [i]"
    and j: "j \<in> set (instructions code)" and fl: "flow code i kind (addr j)"
  shows "addr j \<in> set (find_leaders code)"
proof (rule ccontr)
  let ?ls = "find_leaders code"
  assume n: "addr j \<notin> set ?ls"
  note s = block_split [OF ok k split]
  have i: "i \<in> set (instructions code)" using s(3) [of i] by simp
  have ij: "addr i < next_addr i" by (rule next_addr_gt [OF ok i])
  from n flow_starts [OF i fl] have a: "addr j = next_addr i" by (auto simp: leaders_start)
  have "\<not> addr j < next_leader ?ls k"
  proof
    assume "addr j < next_leader ?ls k"
    then have "j \<in> set (bb_insns (blocks0 code ! k))"
      using a ij s(3) [of i] j k by (auto simp: blocks0_nth block_of_def)
    then have "j \<in> set xs \<or> j = i" using split by auto
    then show False using s(1) next_addr_gt [OF ok j] a ij by force
  qed
  then have nl: "next_leader ?ls k \<le> next_addr i" using a by simp
  then have "Suc k < length ?ls"
    using stream_below_max [OF ok j] a next_leader_nth(2) [of ?ls k] by (metis leD leI Suc_leI)
  then have m: "next_leader ?ls k \<in> set ?ls" by (simp add: next_leader_nth)
  then have "next_leader ?ls k = next_addr i"
    using al i nl s(3) [of i] unfolding aligned_def next_addr_def leaders_start mem_Collect_eq
    by (metis in_set_conv_decomp order_le_less)
  with m n a show False by simp
qed

lemma block_index:
  "build code = Inr cfg \<Longrightarrow> instructions code \<noteq> [] \<Longrightarrow> m < length (find_leaders code) \<Longrightarrow>
   block cfg (BlockIdx (of_nat m)) = Inr (blocks cfg ! m)"
  using build_block(1) [of code cfg] leaders_len [of code] by (simp add: block_def get_at_def ok_or_def unat_of_nat_u32)

lemma step_to_leader:
  assumes b: "build code = Inr cfg" and ok: "stream_ok code" and ne: "instructions code \<noteq> []"
    and j: "j \<in> set (instructions code)" "addr j \<in> set (find_leaders code)"
  obtains m where "BlockIdx (of_nat m) \<in> blocks_at code (addr j)"
    "\<exists>b' ys. block cfg (BlockIdx (of_nat m)) = Inr b' \<and> bb_insns b' = j # ys"
proof -
  note bb = build_block [OF b ne]
  obtain m where m: "m < length (find_leaders code)" "find_leaders code ! m = addr j"
    using j(2) by (auto simp: in_set_conv_nth)
  obtain ys where ys: "bb_insns (blocks0 code ! m) = j # ys" using block_starts_with [OF ok m(1) j(1)] m(2) by auto
  have "bb_insns (blocks cfg ! m) = j # ys" using bb(2) [OF m(1)] ys by (simp add: same_body_def)
  then show thesis using that [of m] m block_index [OF b ne m(1)] by (auto simp: blocks_at_def)
qed

lemma try_covers:
  assumes ok: "stream_ok code" and fit: "tries_fit code" and k: "k < length (find_leaders code)"
    and i: "i \<in> set (bb_insns (blocks0 code ! k))" and t: "t \<in> set (tries code)"
    and rng: "unat (start_addr t) \<le> unat (addr i)" "unat (addr i) < unat (start_addr t) + unat (insn_count t)"
  shows "covers t (blocks0 code ! k)"
proof -
  let ?b = "blocks0 code ! k"
  obtain xs l where x: "bb_insns ?b = xs @ [l]" using i by (cases "bb_insns ?b" rule: rev_cases) auto
  note s = block_split [OF ok k x]
  have l: "l \<in> set (instructions code)" using s(3) [of l] by simp
  have "addr i < next_addr l"
    using i x s(1,3) next_addr_gt [OF ok, of i] next_addr_gt [OF ok l] by fastforce
  then have "start_addr t < next_addr (last (bb_insns ?b))" using rng(1) by (simp add: x word_less_nat_alt)
  moreover have "bb_start ?b \<le> addr i" using i x s(3) [of i] k by (auto simp: blocks0_nth block_of_def)
  then have "bb_start ?b < try_end t" using rng(2) try_end_nat [OF fit t] by (simp add: word_less_nat_alt word_le_nat_alt)
  ultimately show ?thesis using x by (simp add: covers_def)
qed

lemma edge_step:
  assumes b: "build code = Inr cfg" and ok: "stream_ok code" and k: "k < length (find_leaders code)"
    and split: "bb_insns (blocks0 code ! k) = xs @ i # ys" and at_end: "by_exception kind \<or> ys = []"
    and j: "j \<in> set (instructions code)" "addr j \<in> set (find_leaders code)"
    and e: "\<And>idx. idx \<in> blocks_at code (addr j) \<Longrightarrow> \<lparr>edge_target = idx, edge_kind = kind\<rparr> \<in> set (successors (blocks cfg ! k))"
  shows "graph_step cfg i kind j"
proof -
  have ne: "instructions code \<noteq> []" using j by auto
  note bb = build_block [OF b ne]
  have body: "bb_insns (blocks cfg ! k) = xs @ i # ys" "blocks cfg ! k \<in> set (blocks cfg)"
    using bb(2) [OF k] split k bb(1) by (simp_all add: same_body_def)
  obtain m where m: "BlockIdx (of_nat m) \<in> blocks_at code (addr j)"
    "\<exists>b' ys. block cfg (BlockIdx (of_nat m)) = Inr b' \<and> bb_insns b' = j # ys"
    using step_to_leader [OF b ok ne j] by blast
  have "\<exists>e \<in> set (successors (blocks cfg ! k)). edge_kind e = kind
      \<and> (\<exists>b' ys. block cfg (edge_target e) = Inr b' \<and> bb_insns b' = j # ys)"
    by (rule bexI [OF _ e [OF m(1)]]) (use m(2) in simp)
  moreover have "i \<in> set (bb_insns (blocks cfg ! k))" "by_exception kind \<or> i = last (bb_insns (blocks cfg ! k))"
    using body(1) at_end by auto
  ultimately show ?thesis unfolding graph_step_def using body(2) by blast
qed

lemma raise_step:
  assumes b: "build code = Inr cfg" and ok: "stream_ok code" and fit: "tries_fit code"
    and k: "k < length (find_leaders code)" and split: "bb_insns (blocks0 code ! k) = xs @ i # ys"
    and j: "j \<in> set (instructions code)" and fl: "flow code i kind (addr j)" and kind: "by_exception kind"
  shows "graph_step cfg i kind j"
proof -
  have ne: "instructions code \<noteq> []" using j by auto
  from fl obtain t where t: "t \<in> set (tries code)" "unat (start_addr t) \<le> unat (addr i)"
    "unat (addr i) < unat (start_addr t) + unat (insn_count t)" "handler_idx t < length (catch_handlers code)"
    "catches_to (catch_handlers code ! handler_idx t) kind (addr j)"
    by cases (use kind in \<open>auto simp: by_exception_def\<close>)
  have "covers t (blocks0 code ! k)" by (rule try_covers [OF ok fit k _ t(1-3)]) (simp add: split)
  then have "\<lparr>edge_target = idx, edge_kind = kind\<rparr> \<in> set (successors (blocks cfg ! k))" if "idx \<in> blocks_at code (addr j)" for idx
    using that t(1,5) unfolding build_successors(1) [OF b ne k] raise_edges_def by (auto simp: handler_edges_iff)
  moreover have "addr j \<in> set (find_leaders code)"
    using catches_to_starts [OF nth_mem [OF t(4)] t(5)] by (simp add: leaders_start)
  ultimately show ?thesis using edge_step [OF b ok k split _ j] kind by blast
qed

lemma graph_simulates:
  assumes b: "build code = Inr cfg" and ok: "stream_ok code" and al: "aligned code" and fit: "tries_fit code"
    and i: "i \<in> set (instructions code)" and j: "j \<in> set (instructions code)" and fl: "flow code i kind (addr j)"
  shows "graph_step cfg i kind j"
proof -
  have ne: "instructions code \<noteq> []" using i by auto
  note bb = build_block [OF b ne]
  have "i \<in> set (concat (map bb_insns (blocks0 code)))" using i blocks0_partition [OF ok] by simp
  then obtain b0 where "b0 \<in> set (blocks0 code)" "i \<in> set (bb_insns b0)" by auto
  then obtain k where k: "k < length (find_leaders code)" "i \<in> set (bb_insns (blocks0 code ! k))"
    by (metis blocks0_nth(1) in_set_conv_nth)
  then obtain xs ys where split: "bb_insns (blocks0 code ! k) = xs @ i # ys" by (meson split_list)
  consider "by_exception kind" | y ys' where "\<not> by_exception kind" "ys = y # ys'" | "\<not> by_exception kind" "ys = []"
    by (cases ys) auto
  then show ?thesis
  proof cases
    case 1
    then show ?thesis by (rule raise_step [OF b ok fit k(1) split j fl])
  next
    case (2 y ys')
    then have "\<not> is_branch (insn_op i) \<and> \<not> is_terminal (insn_op i)" using branch_ends_block [OF ok k(1) split] by auto
    then have "kind = FallThrough \<and> addr j = next_addr i"
      using flow_list_complete [OF fl 2(1)]
      by (auto simp: flow_list_def is_unconditional_branch_def is_branch_def is_switch_def split: if_splits)
    moreover from this have "j = y" using inner_next [OF ok k(1) split [unfolded 2(2)] j] by blast
    moreover have "bb_insns (blocks cfg ! k) = xs @ i # ys" "blocks cfg ! k \<in> set (blocks cfg)"
      using bb(2) [OF k(1)] split k(1) bb(1) by (simp_all add: same_body_def)
    ultimately show ?thesis using 2(2) unfolding graph_step_def by blast
  next
    case 3
    have "\<lparr>edge_target = idx, edge_kind = kind\<rparr> \<in> set (successors (blocks cfg ! k))" if "idx \<in> blocks_at code (addr j)" for idx
      using that fl 3 split unfolding build_successors(1) [OF b ne k(1)] by (auto simp: block_edges_iff)
    then show ?thesis
      using edge_step [OF b ok k(1) split _ j] last_flow_leader [OF ok al k(1) split [unfolded 3(2)] j fl] 3(2) by blast
  qed
qed

lemma edges_justified:
  assumes b: "build code = Inr cfg" and ok: "stream_ok code" and fit: "tries_fit code"
    and blk: "blk \<in> set (blocks cfg)" and e: "e \<in> set (successors blk)"
  shows "\<exists>b'. block cfg (edge_target e) = Inr b' \<and> edge_justified code blk (edge_kind e) (bb_start b')"
proof -
  have ne: "instructions code \<noteq> []" using b blk by (auto simp: build_def)
  note bb = build_block [OF b ne]
  obtain k where k: "k < length (find_leaders code)" "blk = blocks cfg ! k" using blk bb(1) by (auto simp: in_set_conv_nth)
  let ?b = "blocks0 code ! k"
  have body: "bb_insns blk = bb_insns ?b" "bb_start blk = bb_start ?b" using bb(2) [OF k(1)] k(2) by (simp_all add: same_body_def)
  have tgt: "\<exists>b'. block cfg (edge_target e) = Inr b' \<and> bb_start b' = a" if "edge_target e \<in> blocks_at code a" for a
  proof -
    obtain m where m: "m < length (find_leaders code)" "find_leaders code ! m = a" "edge_target e = BlockIdx (of_nat m)"
      using \<open>edge_target e \<in> blocks_at code a\<close> by (auto simp: blocks_at_def)
    have "bb_start (blocks cfg ! m) = a" using m bb(2) [OF m(1)] by (simp add: same_body_def blocks0_nth block_of_def)
    then show ?thesis using block_index [OF b ne m(1)] m(3) by simp
  qed
  from e consider "e \<in> set (block_edges (addr_map code) code ?b)"
    | t where "t \<in> set (tries code)" "covers t ?b" "e \<in> set (handler_edges (addr_map code) (catch_handlers code ! handler_idx t))"
    unfolding k(2) build_successors(1) [OF b ne k(1)] raise_edges_def by (auto split: if_splits)
  then show ?thesis
  proof cases
    case 1
    then have ins: "bb_insns ?b \<noteq> []" by (auto simp: block_edges_def)
    from 1 obtain a where "flow code (last (bb_insns ?b)) (edge_kind e) a" "\<not> by_exception (edge_kind e)" "edge_target e \<in> blocks_at code a"
      unfolding block_edges_iff [OF ins] by blast
    then show ?thesis using tgt [of a] ins body by (auto simp: edge_justified_def)
  next
    case (2 t)
    then obtain a where a: "catches_to (catch_handlers code ! handler_idx t) (edge_kind e) a" "edge_target e \<in> blocks_at code a"
      unfolding handler_edges_iff by blast
    obtain xs l where x: "bb_insns ?b = xs @ [l]" using 2(2) by (cases "bb_insns ?b" rule: rev_cases) (auto simp: covers_def)
    have "l \<in> set (instructions code)" using block_split(3) [OF ok k(1) x, of l] by simp
    then have "unat (bb_start ?b) < unat (start_addr t) + unat (insn_count t)" "unat (start_addr t) < unat (addr l) + insn_size l"
      using 2(2) x try_end_nat [OF fit 2(1)] next_addr_nat [OF ok] by (simp_all add: covers_def word_less_nat_alt)
    then show ?thesis using tgt [OF a(2)] a(1) 2(1) x body catches_to_exception [OF a(1)] by (auto simp: edge_justified_def)
  qed
qed

section \<open>The graph views\<close>

text \<open>The \<open>Graph\<close> interface: a set of nodes with successor and predecessor lists that are inverse to each
  other.\<close>

locale graph_view =
  fixes node :: "'n \<Rightarrow> bool" and succ :: "'n \<Rightarrow> 'n list" and pred :: "'n \<Rightarrow> 'n list"
  assumes succ_node: "node n \<Longrightarrow> m \<in> set (succ n) \<Longrightarrow> node m"
    and pred_node: "node n \<Longrightarrow> m \<in> set (pred n) \<Longrightarrow> node m"
    and pred_succ: "node n \<Longrightarrow> node m \<Longrightarrow> m \<in> set (pred n) \<longleftrightarrow> n \<in> set (succ m)"
begin

lemma step_reverse: "node a \<and> b \<in> set (succ a) \<longleftrightarrow> node b \<and> a \<in> set (pred b)"
  using succ_node pred_node pred_succ by blast

lemma reach_reverse:
  "(a, b) \<in> {(a, b). node a \<and> b \<in> set (succ a)}\<^sup>* \<longleftrightarrow> (b, a) \<in> {(b, a). node b \<and> a \<in> set (pred b)}\<^sup>*"
proof -
  have "{(b, a). node b \<and> a \<in> set (pred b)} = {(a, b). node a \<and> b \<in> set (succ a)}\<inverse>" using step_reverse by auto
  then show ?thesis by (simp add: rtrancl_converse)
qed

end

text \<open>The views of a code item's graph; empty where it cannot be built.\<close>

definition is_node :: "CodeItem \<Rightarrow> BlockIdx \<Rightarrow> bool" where
  "is_node code n \<longleftrightarrow> (case build code of Inl _ \<Rightarrow> False | Inr cfg \<Rightarrow> idx_ok (length (blocks cfg)) n)"

definition view_of :: "(Cfg \<Rightarrow> BlockIdx \<Rightarrow> panic + BlockIdx list) \<Rightarrow> CodeItem \<Rightarrow> BlockIdx \<Rightarrow> BlockIdx list" where
  "view_of f code n = (case bindE (build code) (\<lambda>cfg. f cfg n) of Inl _ \<Rightarrow> [] | Inr ns \<Rightarrow> ns)"

lemma wf_block:
  assumes "cfg_wf cfg" and "idx_ok (length (blocks cfg)) n"
  shows "\<exists>b \<in> set (blocks cfg). block cfg n = Inr b \<and> bb_id b = n"
proof -
  have "unat (un_BlockIdx n) < length (blocks cfg)" using assms(2) by (simp add: idx_ok_def)
  then show ?thesis
    using assms(1) by (auto simp: cfg_wf_def block_def get_at_def ok_or_def intro!: bexI [of _ "blocks cfg ! unat (un_BlockIdx n)"])
qed

lemma wf_block_id:
  assumes "cfg_wf cfg" and "b \<in> set (blocks cfg)"
  shows "block cfg (bb_id b) = Inr b \<and> idx_ok (length (blocks cfg)) (bb_id b)"
proof -
  obtain k where k: "k < length (blocks cfg)" "b = blocks cfg ! k" using assms(2) by (auto simp: in_set_conv_nth)
  then have "unat (un_BlockIdx (bb_id b)) = k" using assms(1) by (auto simp: cfg_wf_def unat_of_nat_u32)
  with k show ?thesis by (simp add: block_def get_at_def ok_or_def idx_ok_def)
qed

lemma wf_views:
  assumes wf: "cfg_wf cfg" and b: "block cfg n = Inr b" "bb_id b = n" "b \<in> set (blocks cfg)"
  shows "cfg_successors cfg n = Inr (map edge_target (successors b))" "cfg_predecessors cfg n = Inr (predecessors b)"
    "normal_successors cfg n = Inr (map edge_target (normal_edges b))"
    "\<exists>ps. normal_predecessors cfg n = Inr ps
       \<and> set ps = {bb_id a | a e. a \<in> set (blocks cfg) \<and> e \<in> set (normal_edges a) \<and> edge_target e = n}"
proof -
  show "cfg_successors cfg n = Inr (map edge_target (successors b))" "cfg_predecessors cfg n = Inr (predecessors b)"
    "normal_successors cfg n = Inr (map edge_target (normal_edges b))"
    using b(1) by (simp_all add: cfg_successors_def cfg_predecessors_def normal_successors_def)
  define blk where "blk p = projr (block cfg p)" for p
  define has where "has p = (\<exists>e \<in> set (successors (blk p)). edge_target e = n \<and> \<not> is_exception_kind (edge_kind e))" for p
  have preds: "set (predecessors b) = {bb_id a | a e. a \<in> set (blocks cfg) \<and> e \<in> set (successors a) \<and> edge_target e = n}"
    using wf b by (auto simp: cfg_wf_def)
  have pb: "block cfg (bb_id a) = Inr a" "blk (bb_id a) = a" if "a \<in> set (blocks cfg)" for a
    using wf_block_id [OF wf that] by (simp_all add: blk_def)
  have "block cfg p = Inr (blk p)" if "p \<in> set (predecessors b)" for p using that preds pb by auto
  then have "mapE (\<lambda>p. bindE (block cfg p) (\<lambda>pb. Inr (p, \<exists>e \<in> set (successors pb). edge_target e = n \<and> \<not> is_exception_kind (edge_kind e))))
      (predecessors b) = Inr (map (\<lambda>p. (p, has p)) (predecessors b))"
    by (intro mapE_id) (simp add: has_def)
  then have "normal_predecessors cfg n = Inr (map fst (filter snd (map (\<lambda>p. (p, has p)) (predecessors b))))"
    using b(1) by (simp add: normal_predecessors_def)
  moreover have "set (map fst (filter snd (map (\<lambda>p. (p, has p)) (predecessors b)))) = {p \<in> set (predecessors b). has p}" by force
  moreover have "{p \<in> set (predecessors b). has p}
      = {bb_id a | a e. a \<in> set (blocks cfg) \<and> e \<in> set (normal_edges a) \<and> edge_target e = n}"
    using preds pb unfolding has_def by (auto; fastforce)
  ultimately show "\<exists>ps. normal_predecessors cfg n = Inr ps
       \<and> set ps = {bb_id a | a e. a \<in> set (blocks cfg) \<and> e \<in> set (normal_edges a) \<and> edge_target e = n}" by simp
qed

lemma view_cases:
  assumes "is_node code n"
  obtains cfg b where "build code = Inr cfg" "cfg_wf cfg" "block cfg n = Inr b" "bb_id b = n" "b \<in> set (blocks cfg)"
proof -
  obtain cfg where c: "build code = Inr cfg" "idx_ok (length (blocks cfg)) n" using assms by (auto simp: is_node_def split: sum.splits)
  with wf_block [OF build_wf [OF c(1)] c(2)] build_wf [OF c(1)] that show thesis by blast
qed

lemma view_laws:
  assumes n: "is_node code n"
  shows "m \<in> set (view_of cfg_successors code n) \<Longrightarrow> is_node code m"
    "m \<in> set (view_of cfg_predecessors code n) \<Longrightarrow> is_node code m"
    "m \<in> set (view_of normal_successors code n) \<Longrightarrow> is_node code m"
    "m \<in> set (view_of normal_predecessors code n) \<Longrightarrow> is_node code m"
    "is_node code m \<Longrightarrow> m \<in> set (view_of cfg_predecessors code n) \<longleftrightarrow> n \<in> set (view_of cfg_successors code m)"
    "is_node code m \<Longrightarrow> m \<in> set (view_of normal_predecessors code n) \<longleftrightarrow> n \<in> set (view_of normal_successors code m)"
proof -
  from n obtain cfg b where c: "build code = Inr cfg" "cfg_wf cfg" "block cfg n = Inr b" "bb_id b = n" "b \<in> set (blocks cfg)"
    by (rule view_cases)
  note v = wf_views [OF c(2-5)]
  obtain ps where ps: "normal_predecessors cfg n = Inr ps"
    "set ps = {bb_id a | a e. a \<in> set (blocks cfg) \<and> e \<in> set (normal_edges a) \<and> edge_target e = n}" using v(4) by blast
  have preds: "set (predecessors b) = {bb_id a | a e. a \<in> set (blocks cfg) \<and> e \<in> set (successors a) \<and> edge_target e = n}"
    using c by (auto simp: cfg_wf_def)
  have nd: "is_node code (bb_id a)" "\<And>e. e \<in> set (successors a) \<Longrightarrow> is_node code (edge_target e)" if "a \<in> set (blocks cfg)" for a
    using wf_block_id [OF c(2) that] c(1,2) that by (auto simp: is_node_def cfg_wf_def)
  show "m \<in> set (view_of cfg_successors code n) \<Longrightarrow> is_node code m" "m \<in> set (view_of cfg_predecessors code n) \<Longrightarrow> is_node code m"
    "m \<in> set (view_of normal_successors code n) \<Longrightarrow> is_node code m" "m \<in> set (view_of normal_predecessors code n) \<Longrightarrow> is_node code m"
    using c(1,5) v(1-3) ps preds nd by (auto simp: view_of_def)
  assume m: "is_node code m"
  then obtain cfg' b' where c': "build code = Inr cfg'" "block cfg' m = Inr b'" "bb_id b' = m" "b' \<in> set (blocks cfg')" by (rule view_cases)
  then have b': "block cfg m = Inr b'" "bb_id b' = m" "b' \<in> set (blocks cfg)" using c(1) by simp_all
  note v' = wf_views [OF c(2) b']
  have u: "a \<in> set (blocks cfg) \<and> bb_id a = m \<longleftrightarrow> a = b'" for a
    using b' wf_block_id [OF c(2), of a] by (metis sum.inject(2))
  have "m \<in> set (predecessors b) \<longleftrightarrow> (\<exists>e \<in> set (successors b'). edge_target e = n)" unfolding preds mem_Collect_eq by (metis u)
  also have "\<dots> \<longleftrightarrow> n \<in> set (map edge_target (successors b'))" by auto
  finally show "m \<in> set (view_of cfg_predecessors code n) \<longleftrightarrow> n \<in> set (view_of cfg_successors code m)"
    unfolding view_of_def c(1) bindE.simps v(2) v'(1) sum.case .
  have "m \<in> set ps \<longleftrightarrow> (\<exists>e \<in> set (normal_edges b'). edge_target e = n)" unfolding ps(2) mem_Collect_eq by (metis u)
  also have "\<dots> \<longleftrightarrow> n \<in> set (map edge_target (normal_edges b'))" by auto
  finally show "m \<in> set (view_of normal_predecessors code n) \<longleftrightarrow> n \<in> set (view_of normal_successors code m)"
    unfolding view_of_def c(1) bindE.simps ps(1) v'(3) sum.case .
qed

interpretation full: graph_view "is_node code" "view_of cfg_successors code" "view_of cfg_predecessors code" for code
  by unfold_locales ((rule view_laws(1,2,5), assumption+) +)

interpretation normal: graph_view "is_node code" "view_of normal_successors code" "view_of normal_predecessors code" for code
  by unfold_locales ((rule view_laws(3,4,6), assumption+) +)

lemma build_ok:
  assumes "list_all (\<lambda>t. handler_idx t < length (catch_handlers code)) (tries code)"
  shows "\<exists>cfg. build code = Inr cfg \<and> cfg_wf cfg"
proof -
  have "\<exists>cfg. build code = Inr cfg"
  proof (cases "instructions code = []")
    case False
    let ?bs1 = "add_edges (addr_map code) code (blocks0 code)"
    obtain bs where bs: "add_exception_edges (addr_map code) code ?bs1 = Inr bs"
      using add_exception_edges_total [OF assms] by blast
    have "predecessors b = []" if "b \<in> set (blocks0 code)" for b
      using that by (auto simp: in_set_conv_nth blocks0_nth block_of_def)
    then have e1: "edges_ok (length (find_leaders code)) ?bs1"
      using block_edges_ok unfolding edges_ok_def add_edges_def by auto
    note i = add_exception_edges_inv [OF bs e1]
    then have "length bs = length (find_leaders code)" using list_all2_lengthD by (fastforce simp: add_edges_def blocks0_nth)
    then have f: "fill_predecessors bs = Inr (foldl add_pred bs (edge_pairs bs))" using i fill_predecessors_eq [of bs] by simp
    have "handler_of code t = Inr (catch_handlers code ! handler_idx t)" if "t \<in> set (tries code)" for t
      using assms that by (auto simp: handler_of_def get_at_def ok_or_def list_all_iff)
    then have "\<exists>rs. build_exception_regions code (addr_map code) = Inr rs"
      unfolding build_exception_regions_def by (subst mapE_id) auto
    then show ?thesis using False bs f unfolding build_def Let_def blocks0_def addr_map_def by (auto split: prod.splits)
  qed (simp add: build_def)
  then show ?thesis using build_wf by blast
qed

lemma case_snoc: "(case xs @ [y] of [] \<Rightarrow> None | e # es \<Rightarrow> Some (snd (last (e # es)))) = Some (snd y)"
  by (cases xs) auto

lemma filter_le_take:
  assumes "sorted_wrt (<) ls" and "length vs = length ls" and "k < length ls" and "ls ! k \<le> a"
    and "Suc k < length ls \<Longrightarrow> a < ls ! Suc k"
  shows "filter (\<lambda>(l, _). l \<le> (a :: 'a :: linorder)) (zip ls vs) = take (Suc k) (zip ls vs)"
proof -
  let ?z = "zip ls vs"
  have s: "sorted ls" using assms(1) by (simp add: strict_sorted_iff)
  have "filter (\<lambda>(l, _). l \<le> a) (take (Suc k) ?z) = take (Suc k) ?z"
    unfolding filter_id_conv
    using assms(2-4) sorted_nth_mono [OF s] by (fastforce simp: in_set_conv_nth less_Suc_eq_le intro: order_trans)
  moreover have "\<not> ls ! j \<le> a" if "Suc k \<le> j" "j < length ls" for j
  proof -
    have "ls ! Suc k \<le> ls ! j" using sorted_nth_mono [OF s that] by simp
    moreover have "a < ls ! Suc k" using assms(5) that by simp
    ultimately show ?thesis by simp
  qed
  then have "filter (\<lambda>(l, _). l \<le> a) (drop (Suc k) ?z) = []"
    unfolding filter_empty_conv by (auto simp: in_set_conv_nth assms(2))
  ultimately show ?thesis by (metis append_Nil2 append_take_drop_id filter_append)
qed

lemma build_partition:
  assumes "build code = Inr cfg" and "stream_ok code"
  shows "concat (map bb_insns (blocks cfg)) = instructions code
    \<and> (\<forall>b \<in> set (blocks cfg). \<forall>i \<in> set (butlast (bb_insns b)). \<not> is_branch (insn_op i) \<and> \<not> is_terminal (insn_op i))"
proof (cases "instructions code = []")
  case True
  with assms(1) show ?thesis by (auto simp: build_def)
next
  case False
  note bb = build_block [OF assms(1) False]
  have "map bb_insns (blocks cfg) = map bb_insns (blocks0 code)"
    by (rule nth_equalityI) (use bb in \<open>simp_all add: blocks0_nth(1) same_body_def\<close>)
  moreover have "\<not> is_branch (insn_op i) \<and> \<not> is_terminal (insn_op i)"
    if k: "k < length (blocks cfg)" and i: "i \<in> set (butlast (bb_insns (blocks cfg ! k)))" for k i
  proof -
    from i obtain xs ys where x: "butlast (bb_insns (blocks cfg ! k)) = xs @ i # ys" by (meson split_list)
    then have "bb_insns (blocks cfg ! k) = xs @ i # ys @ [last (bb_insns (blocks cfg ! k))]"
      by (metis append.assoc append_Cons append_butlast_last_id butlast.simps(1) list.distinct(1) append_is_Nil_conv)
    then have "bb_insns (blocks0 code ! k) = xs @ i # ys @ [last (bb_insns (blocks cfg ! k))]"
      using bb k by (simp add: same_body_def)
    from branch_ends_block [OF assms(2) _ this] show ?thesis using bb(1) k by auto
  qed
  ultimately show ?thesis using blocks0_partition [OF assms(2)] by (simp add: all_set_conv_all_nth)
qed

text \<open>The blocks of the graph are the stretches between consecutive block starts.\<close>

lemma build_starts:
  assumes "build code = Inr cfg" and "instructions code \<noteq> []"
  shows "map bb_start (blocks cfg) = find_leaders code"
proof (rule nth_equalityI)
  note bb = build_block [OF assms]
  then show "length (map bb_start (blocks cfg)) = length (find_leaders code)" by simp
  show "map bb_start (blocks cfg) ! k = find_leaders code ! k" if "k < length (map bb_start (blocks cfg))" for k
    using bb that by (simp add: same_body_def blocks0_nth block_of_def)
qed

lemma below_next_leader:
  assumes ok: "stream_ok code" and k: "k < length (find_leaders code)" and i: "i \<in> set (instructions code)"
  shows "addr i < next_leader (find_leaders code) k \<longleftrightarrow> (\<forall>a \<in> set (find_leaders code). a \<le> addr i \<longrightarrow> a \<le> find_leaders code ! k)"
proof
  assume lt: "addr i < next_leader (find_leaders code) k"
  show "\<forall>a \<in> set (find_leaders code). a \<le> addr i \<longrightarrow> a \<le> find_leaders code ! k"
  proof (intro ballI impI)
    fix a assume "a \<in> set (find_leaders code)" "a \<le> addr i"
    then show "a \<le> find_leaders code ! k" using leader_between [OF k, of a] lt by (meson leD leI order_trans)
  qed
next
  assume a: "\<forall>a \<in> set (find_leaders code). a \<le> addr i \<longrightarrow> a \<le> find_leaders code ! k"
  show "addr i < next_leader (find_leaders code) k"
  proof (cases "Suc k < length (find_leaders code)")
    case True
    then have "find_leaders code ! k < find_leaders code ! Suc k"
      using ordset_strict [OF find_leaders_ordset, of code] by (simp add: sorted_wrt_iff_nth_less)
    then show ?thesis using a True by (metis leD leI next_leader_nth(1) nth_mem)
  next
    case False
    then show ?thesis using stream_below_max [OF ok i] by (simp add: next_leader_nth)
  qed
qed

lemma build_cuts:
  assumes b: "build code = Inr cfg" and ok: "stream_ok code" and blk: "blk \<in> set (blocks cfg)"
  shows "bb_insns blk = filter (\<lambda>i. bb_start blk \<le> addr i \<and> (\<forall>a. starts_block code a \<longrightarrow> a \<le> addr i \<longrightarrow> a \<le> bb_start blk))
    (instructions code)"
proof -
  have ne: "instructions code \<noteq> []" using b blk by (auto simp: build_def)
  note bb = build_block [OF b ne]
  obtain k where k: "k < length (find_leaders code)" "blk = blocks cfg ! k" using blk bb(1) by (auto simp: in_set_conv_nth)
  then have body: "bb_start blk = find_leaders code ! k" "bb_insns blk = filter (\<lambda>i. find_leaders code ! k \<le> addr i
      \<and> addr i < next_leader (find_leaders code) k) (instructions code)"
    using bb(2) [OF k(1), THEN conjunct1, unfolded blocks0_nth(2) [OF k(1)]] by (auto simp: same_body_def block_of_def)
  show ?thesis unfolding body
    by (rule filter_cong [OF refl]) (simp add: below_next_leader [OF ok k(1)] leaders_start)
qed

section \<open>Properties\<close>

text \<open>C20 (cfg_build_total). Building the graph never indexes out of bounds when every try names a handler that
  exists: the handler look-ups and the predecessor updates all stay in range.\<close>

theorem cfg_build_total:
  assumes "list_all (\<lambda>t. handler_idx t < length (catch_handlers code)) (tries code)"
  shows "\<exists>cfg. build code = Inr cfg \<and> cfg_wf cfg"
  by (rule build_ok [OF assms])

text \<open>C21 (cfg_partition). The graph of a decoded method cuts the instruction list exactly where the instruction set
  says a block starts: the start addresses of the blocks, in strictly ascending order, are address 0, the
  addresses after returns, throws, jumps, switches and conditional jumps, the targets of jumps and of
  switch tables, and the handler addresses; each block holds the instructions from its start up to
  the next start, and the blocks in order are the instruction list.\<close>

theorem cfg_partition:
  assumes "build code = Inr cfg" and "stream_ok code" and "instructions code \<noteq> []"
  shows "sorted_wrt (<) (map bb_start (blocks cfg)) \<and> set (map bb_start (blocks cfg)) = {a. starts_block code a}
    \<and> (\<forall>b \<in> set (blocks cfg). bb_insns b = filter (\<lambda>i. bb_start b \<le> addr i
         \<and> (\<forall>a. starts_block code a \<longrightarrow> a \<le> addr i \<longrightarrow> a \<le> bb_start b)) (instructions code))
    \<and> concat (map bb_insns (blocks cfg)) = instructions code"
  unfolding build_starts [OF assms(1,3)] leaders_start
  using ordset_strict [OF find_leaders_ordset] build_cuts [OF assms(1,2)] build_partition [OF assms(1,2)] by simp

text \<open>C19 (cfg_simulates_flow). The graph is the control flow of the instructions, provided that no block starts
  inside an instruction and no try range wraps: wherever execution can go from one instruction
  to another by falling through, jumping, a switch case, the switch default, a typed handler or a
  catch-all, the graph takes a step of that kind, inside a block or along an edge to a block that
  starts with the target; and every edge of the graph stands for such a transfer from the last
  instruction of its block, or for a handler of a try range that meets the block.\<close>

theorem cfg_simulates_flow:
  assumes "build code = Inr cfg" and "stream_ok code" and "aligned code" and "tries_fit code"
  shows "(\<forall>i \<in> set (instructions code). \<forall>j \<in> set (instructions code). \<forall>kind.
        flow code i kind (addr j) \<longrightarrow> graph_step cfg i kind j)
    \<and> (\<forall>b \<in> set (blocks cfg). \<forall>e \<in> set (successors b). \<exists>b'. block cfg (edge_target e) = Inr b'
        \<and> edge_justified code b (edge_kind e) (bb_start b'))"
  using graph_simulates [OF assms] edges_justified [OF assms(1,2,4)] by blast

text \<open>C22 (cfg_views_inverse). In both views of the graph, with and without exception edges, the predecessor lists are
  the inverse of the successor lists, edge by edge: a block lists another as a successor exactly
  when that one lists it as a predecessor.\<close>

theorem cfg_views_inverse:
  "{(a, b). is_node code a \<and> b \<in> set (view_of cfg_successors code a)}
     = {(a, b). is_node code b \<and> a \<in> set (view_of cfg_predecessors code b)}
   \<and> {(a, b). is_node code a \<and> b \<in> set (view_of normal_successors code a)}
     = {(a, b). is_node code b \<and> a \<in> set (view_of normal_predecessors code b)}"
  using full.step_reverse normal.step_reverse by auto

text \<open>Looking up the address of an instruction gives the block that contains it.\<close>

theorem cfg_block_at:
  assumes "build code = Inr cfg" and "stream_ok code" and "i \<in> set (instructions code)"
  shows "\<exists>idx b. block_at cfg (addr i) = Some idx \<and> block cfg idx = Inr b \<and> i \<in> set (bb_insns b)"
proof -
  let ?ls = "find_leaders code"
  have ne: "instructions code \<noteq> []" using assms(3) by auto
  note bb = build_block [OF assms(1) ne]
  obtain m where m: "addr_to_block cfg = addr_map code" using build_parts [OF assms(1) ne] by metis
  have "i \<in> set (concat (map bb_insns (blocks0 code)))" using assms(3) blocks0_partition [OF assms(2)] by simp
  then obtain b0 where "b0 \<in> set (blocks0 code)" "i \<in> set (bb_insns b0)" by auto
  then obtain k where k: "k < length ?ls" "i \<in> set (bb_insns (blocks0 code ! k))" by (metis blocks0_nth(1) in_set_conv_nth)
  have r: "?ls ! k \<le> addr i" "addr i < next_leader ?ls k" using k by (simp_all add: blocks0_nth block_of_def)
  let ?z = "zip ?ls (map (\<lambda>k. BlockIdx (of_nat k)) [0..<length ?ls])"
  have z: "addr_map code = ?z" using build_blocks_eq [OF ordset_strict [OF find_leaders_ordset], of code] by (simp add: addr_map_def)
  have "filter (\<lambda>(l, _). l \<le> addr i) ?z = take (Suc k) ?z"
    by (rule filter_le_take) (use k r ordset_strict [OF find_leaders_ordset] in \<open>auto simp: next_leader_nth\<close>)
  also have "\<dots> = take k ?z @ [?z ! k]" using k by (simp add: take_Suc_conv_app_nth)
  finally have "block_at cfg (addr i) = Some (BlockIdx (of_nat k))"
    using k by (simp add: block_at_def m z case_snoc)
  moreover have "unat (of_nat k :: u32) = k" using k leaders_len [of code] by (simp add: unat_of_nat_u32)
  then have "block cfg (BlockIdx (of_nat k)) = Inr (blocks cfg ! k)" using k bb(1) by (simp add: block_def get_at_def ok_or_def)
  moreover have "i \<in> set (bb_insns (blocks cfg ! k))" using bb(2) [OF k(1)] k(2) by (simp add: same_body_def)
  ultimately show ?thesis by blast
qed

text \<open>A loop with a handler: \<open>const/4\<close>, \<open>if-eqz\<close> back to it, \<open>return-void\<close>, \<open>return-void\<close>.\<close>

definition plain_insn :: "u32 \<Rightarrow> Opcode \<Rightarrow> nat \<Rightarrow> u32 option \<Rightarrow> Instruction" where
  "plain_insn a op n t = \<lparr>addr = a, insn_op = op, insn_size = n, dst = None, src = reg_empty, literal = 0, target = t, pool_idx = None\<rparr>"

definition sample_code :: CodeItem where
  "sample_code = \<lparr>registers_size = 1, ins_size = 0, outs_size = 0, debug_info_off = 0,
     instructions = [plain_insn 0 Const4 1 None, plain_insn 1 IfEqz 2 (Some 0), plain_insn 3 ReturnVoid 1 None, plain_insn 4 ReturnVoid 1 None],
     tries = [\<lparr>start_addr = 0, insn_count = 3, handler_idx = 0\<rparr>],
     catch_handlers = [\<lparr>catches = [], catch_all_addr = Some 4\<rparr>], payloads = [], invariant_violations = []\<rparr>"

lemma sample_code_ok:
  "list_all (\<lambda>t. handler_idx t < length (catch_handlers sample_code)) (tries sample_code)" "stream_ok sample_code" "aligned sample_code"
  "tries_fit sample_code"
proof -
  show "list_all (\<lambda>t. handler_idx t < length (catch_handlers sample_code)) (tries sample_code)" "stream_ok sample_code"
    by (simp_all add: sample_code_def stream_ok_def plain_insn_def)
  have "find_leaders sample_code = [0, 3, 4, 5]"
    by (simp add: sample_code_def find_leaders_def insert_all_def insn_leaders_def handler_leaders_def plain_insn_def
        is_branch_def is_terminal_def is_switch_def next_addr_def insort_insert_key_def)
  then have "starts_block sample_code a \<longleftrightarrow> a \<in> {0, 3, 4, 5}" for a using leaders_start [of sample_code] by auto
  then show "aligned sample_code" by (auto simp: aligned_def sample_code_def plain_insn_def)
  show "tries_fit sample_code" by (simp add: tries_fit_def sample_code_def)
qed

theorem cfg_build_total_witness: "\<exists>cfg. build sample_code = Inr cfg \<and> cfg_wf cfg"
  by (rule cfg_build_total [OF sample_code_ok(1)])

theorem cfg_partition_witness:
  "\<exists>cfg. build sample_code = Inr cfg \<and> set (map bb_start (blocks cfg)) = {a. starts_block sample_code a}
     \<and> concat (map bb_insns (blocks cfg)) = instructions sample_code"
proof -
  obtain cfg where c: "build sample_code = Inr cfg" using build_ok [OF sample_code_ok(1)] by blast
  have "instructions sample_code \<noteq> []" by (simp add: sample_code_def)
  from cfg_partition [OF c sample_code_ok(2) this] c show ?thesis by blast
qed

theorem cfg_simulates_flow_witness:
  "\<exists>cfg. build sample_code = Inr cfg
     \<and> graph_step cfg (plain_insn 1 IfEqz 2 (Some 0)) Branch (plain_insn 0 Const4 1 None)
     \<and> graph_step cfg (plain_insn 0 Const4 1 None) ExceptionCatchAll (plain_insn 4 ReturnVoid 1 None)"
proof -
  obtain cfg where c: "build sample_code = Inr cfg" using build_ok [OF sample_code_ok(1)] by blast
  note sim = cfg_simulates_flow [OF c sample_code_ok(2-4), THEN conjunct1, rule_format]
  have "flow sample_code (plain_insn 1 IfEqz 2 (Some 0)) Branch 0"
    by (rule flow.jump) (simp_all add: plain_insn_def cond_byte_def)
  moreover have "flow sample_code (plain_insn 0 Const4 1 None) ExceptionCatchAll 4"
    by (rule flow.raise [of "\<lparr>start_addr = 0, insn_count = 3, handler_idx = 0\<rparr>"])
      (simp_all add: sample_code_def plain_insn_def catches_to_def)
  moreover have "plain_insn 1 IfEqz 2 (Some 0) \<in> set (instructions sample_code)" "plain_insn 0 Const4 1 None \<in> set (instructions sample_code)"
    "plain_insn 4 ReturnVoid 1 None \<in> set (instructions sample_code)" by (simp_all add: sample_code_def)
  ultimately have "graph_step cfg (plain_insn 1 IfEqz 2 (Some 0)) Branch (plain_insn 0 Const4 1 None)"
    "graph_step cfg (plain_insn 0 Const4 1 None) ExceptionCatchAll (plain_insn 4 ReturnVoid 1 None)"
    using sim [of "plain_insn 1 IfEqz 2 (Some 0)" "plain_insn 0 Const4 1 None" Branch]
      sim [of "plain_insn 0 Const4 1 None" "plain_insn 4 ReturnVoid 1 None" ExceptionCatchAll]
    by (simp_all add: plain_insn_def)
  with c show ?thesis by blast
qed

theorem cfg_block_at_witness: "\<exists>cfg idx. build sample_code = Inr cfg \<and> block_at cfg 1 = Some idx"
proof -
  obtain cfg where c: "build sample_code = Inr cfg" using build_ok [OF sample_code_ok(1)] by blast
  have "plain_insn 1 IfEqz 2 (Some 0) \<in> set (instructions sample_code)" by (simp add: sample_code_def)
  from cfg_block_at [OF c sample_code_ok(2) this] c show ?thesis by (auto simp: plain_insn_def)
qed

end
