(* ===== verification/Dex_String.thy ===== *)
theory Dex_String
  imports Dex_Error Dex_Ids
begin

text \<open>
  The string pool entries of \<open>src/src/dex_string.rs\<close> and the pool lookups of \<open>src/src/parser/mod.rs\<close>.
  A Rust \<open>String\<close> is the list of its UTF-8 bytes. The MUTF-8 decoder is in another crate: its result for
  the raw bytes is an argument, and its error type is a number.
\<close>

section \<open>Rust strings\<close>

type_synonym rstring = "byte list"

text \<open>\<open>String::from_utf8_lossy\<close> of the standard library: the length of the next well-formed character or
  ill-formed chunk, and which of the two it is. Reading past the end gives 0.\<close>

definition safe_get :: "byte list \<Rightarrow> nat \<Rightarrow> byte" where
  "safe_get bs i = (if i < length bs then bs ! i else 0)"

definition is_cont :: "byte \<Rightarrow> bool" where
  "is_cont b \<longleftrightarrow> b AND 0xC0 = 0x80"

definition second_of_three :: "byte \<Rightarrow> byte \<Rightarrow> bool" where
  "second_of_three b0 b1 \<longleftrightarrow>
     (b0 = 0xE0 \<and> 0xA0 \<le> b1 \<and> b1 \<le> 0xBF) \<or> (0xE1 \<le> b0 \<and> b0 \<le> 0xEC \<and> 0x80 \<le> b1 \<and> b1 \<le> 0xBF)
     \<or> (b0 = 0xED \<and> 0x80 \<le> b1 \<and> b1 \<le> 0x9F) \<or> (0xEE \<le> b0 \<and> b0 \<le> 0xEF \<and> 0x80 \<le> b1 \<and> b1 \<le> 0xBF)"

definition second_of_four :: "byte \<Rightarrow> byte \<Rightarrow> bool" where
  "second_of_four b0 b1 \<longleftrightarrow>
     (b0 = 0xF0 \<and> 0x90 \<le> b1 \<and> b1 \<le> 0xBF) \<or> (0xF1 \<le> b0 \<and> b0 \<le> 0xF3 \<and> 0x80 \<le> b1 \<and> b1 \<le> 0xBF)
     \<or> (b0 = 0xF4 \<and> 0x80 \<le> b1 \<and> b1 \<le> 0x8F)"

definition utf8_chunk :: "byte list \<Rightarrow> nat \<times> bool" where
  "utf8_chunk bs =
     (let b0 = safe_get bs 0 in
      if b0 < 0x80 then (1, True)
      else if 0xC2 \<le> b0 \<and> b0 \<le> 0xDF then (if is_cont (safe_get bs 1) then (2, True) else (1, False))
      else if 0xE0 \<le> b0 \<and> b0 \<le> 0xEF then
        (if \<not> second_of_three b0 (safe_get bs 1) then (1, False)
         else if \<not> is_cont (safe_get bs 2) then (2, False) else (3, True))
      else if 0xF0 \<le> b0 \<and> b0 \<le> 0xF4 then
        (if \<not> second_of_four b0 (safe_get bs 1) then (1, False)
         else if \<not> is_cont (safe_get bs 2) then (2, False)
         else if \<not> is_cont (safe_get bs 3) then (3, False) else (4, True))
      else (1, False))"

lemma utf8_chunk_pos: "0 < fst (utf8_chunk bs)"
  by (simp add: utf8_chunk_def Let_def)

function from_utf8_lossy :: "byte list \<Rightarrow> rstring" where
  "from_utf8_lossy bs =
     (if bs = [] then []
      else (if snd (utf8_chunk bs) then take (fst (utf8_chunk bs)) bs else [0xEF, 0xBF, 0xBD])
           @ from_utf8_lossy (drop (fst (utf8_chunk bs)) bs))"
  by pat_completeness auto
termination by (relation "measure length") (auto simp: utf8_chunk_pos)

declare from_utf8_lossy.simps [simp del]

section \<open>Entries of the string pool\<close>

datatype DexString =
    Decoded (str_raw: "byte list") (str_s: rstring) (str_declared: u32) (str_term: bool)
  | MalformedMutf8 (str_raw: "byte list") (str_s: rstring) (str_error: nat) (str_declared: u32) (str_term: bool)

definition new_malformed_mutf8 :: "byte list \<Rightarrow> nat \<Rightarrow> u32 \<Rightarrow> bool \<Rightarrow> DexString" where
  "new_malformed_mutf8 raw_bytes decode_error declared had_term =
     MalformedMutf8 raw_bytes (from_utf8_lossy raw_bytes) decode_error declared had_term"

fun raw_bytes :: "DexString \<Rightarrow> byte list" where
  "raw_bytes (Decoded raw _ _ _) = raw"
| "raw_bytes (MalformedMutf8 raw _ _ _ _) = raw"

fun decoded :: "DexString \<Rightarrow> nat + rstring" where
  "decoded (Decoded _ s _ _) = Inr s"
| "decoded (MalformedMutf8 _ _ e _ _) = Inl e"

fun as_str_lossy :: "DexString \<Rightarrow> rstring" where
  "as_str_lossy (Decoded _ s _ _) = s"
| "as_str_lossy (MalformedMutf8 _ lossy _ _ _) = lossy"

fun declared_chars :: "DexString \<Rightarrow> u32" where
  "declared_chars (Decoded _ _ d _) = d"
| "declared_chars (MalformedMutf8 _ _ _ d _) = d"

fun had_terminator :: "DexString \<Rightarrow> bool" where
  "had_terminator (Decoded _ _ _ t) = t"
| "had_terminator (MalformedMutf8 _ _ _ _ t) = t"

fun is_lossy :: "DexString \<Rightarrow> bool" where
  "is_lossy (Decoded _ _ _ _) = False"
| "is_lossy (MalformedMutf8 _ _ _ _ _) = True"

section \<open>Lookups\<close>

definition get_string :: "DexString list \<Rightarrow> StringIdx \<Rightarrow> DexError + rstring" where
  "get_string strs idx =
     (case get_at strs (unat (un_StringIdx idx)) of
        None \<Rightarrow> Inl (IndexOob ''String'' (un_StringIdx idx) (of_nat (length strs)))
      | Some s \<Rightarrow> Inr (as_str_lossy s))"

definition get_string_raw :: "DexString list \<Rightarrow> StringIdx \<Rightarrow> byte list option" where
  "get_string_raw strs idx = map_option raw_bytes (get_at strs (unat (un_StringIdx idx)))"

definition string_has_lossy_decode :: "DexString list \<Rightarrow> StringIdx \<Rightarrow> bool option" where
  "string_has_lossy_decode strs idx = map_option is_lossy (get_at strs (unat (un_StringIdx idx)))"

definition get_type_descriptor :: "rstring list \<Rightarrow> TypeIdx \<Rightarrow> DexError + rstring" where
  "get_type_descriptor types idx =
     (case get_at types (unat (un_TypeIdx idx)) of
        None \<Rightarrow> Inl (IndexOob ''Type'' (un_TypeIdx idx) (of_nat (length types)))
      | Some s \<Rightarrow> Inr s)"

definition result_ok :: "'e + 'a \<Rightarrow> 'a option" where
  "result_ok r = (case r of Inl _ \<Rightarrow> None | Inr x \<Rightarrow> Some x)"

end
