(* ===== verification/Dex_Seq.thy ===== *)
theory Dex_Seq
  imports Dex_Prelude
begin

text \<open>
  Sequences of variable-length items, as the parser reads them and the emitter writes them, and the
  interface \<open>seq_codec\<close> between an item writer and an item reader, with the facts that lift it to
  sequences.
\<close>

section \<open>Sequential items\<close>

text \<open>The loops \<open>for _ in 0..n\<close> that read one item after the other: the reader of an item gets the
  state carried between items and the position, and gives the item, the next state and the next position.
  The writing loops carry a state too.\<close>

primrec read_seq :: "('s \<Rightarrow> nat \<Rightarrow> 'e + ('a \<times> 's \<times> nat)) \<Rightarrow> nat \<Rightarrow> 's \<Rightarrow> nat \<Rightarrow> 'e + ('a list \<times> nat)" where
  "read_seq rd 0 s pos = Inr ([], pos)"
| "read_seq rd (Suc n) s pos =
     bindE (rd s pos) (\<lambda>(x, s', pos'). bindE (read_seq rd n s' pos') (\<lambda>(xs, pos''). Inr (x # xs, pos'')))"

primrec write_seq :: "('s \<Rightarrow> 'a \<Rightarrow> 'e + (byte list \<times> 's)) \<Rightarrow> 's \<Rightarrow> 'a list \<Rightarrow> 'e + byte list" where
  "write_seq wr s [] = Inr []"
| "write_seq wr s (x # xs) =
     bindE (wr s x) (\<lambda>(b, s'). bindE (write_seq wr s' xs) (\<lambda>bs. Inr (b @ bs)))"

text \<open>A pair of an item writer and an item reader, with related states; every item has a least size.\<close>

locale seq_codec =
  fixes rd :: "byte list \<Rightarrow> 'r \<Rightarrow> nat \<Rightarrow> 'e + ('a \<times> 'r \<times> nat)"
    and wr :: "'w \<Rightarrow> 'a \<Rightarrow> 'f + (byte list \<times> 'w)"
    and rel :: "'w \<Rightarrow> 'r \<Rightarrow> bool"
    and valid :: "'a \<Rightarrow> bool"
    and stride :: nat
  assumes item_codec: "rel w r \<Longrightarrow> valid x \<Longrightarrow> wr w x = Inr (b, w') \<Longrightarrow> fits data \<Longrightarrow> at_off data pos b \<Longrightarrow>
      \<exists>r'. rd data r pos = Inr (x, r', pos + length b) \<and> rel w' r'"
    and item_size: "wr w x = Inr (b, w') \<Longrightarrow> stride \<le> length b"
begin

lemma seq_roundtrip:
  "rel w r \<Longrightarrow> list_all valid xs \<Longrightarrow> write_seq wr w xs = Inr bs \<Longrightarrow> fits data \<Longrightarrow> at_off data pos bs \<Longrightarrow>
   read_seq (rd data) (length xs) r pos = Inr (xs, pos + length bs)"
proof (induction xs arbitrary: w r pos bs)
  case (Cons x xs)
  then obtain b w' bs' where w: "wr w x = Inr (b, w')" "write_seq wr w' xs = Inr bs'" "bs = b @ bs'" by auto
  with Cons.prems have at: "at_off data pos b" "at_off data (pos + length b) bs'" by (simp_all add: at_off_append)
  obtain r' where r: "rd data r pos = Inr (x, r', pos + length b)" "rel w' r'"
    using item_codec [OF Cons.prems(1) _ w(1) Cons.prems(4) at(1)] Cons.prems(2) by auto
  from Cons.IH [OF r(2) _ w(2) Cons.prems(4) at(2)] Cons.prems(2) r(1) w(3) show ?case by (simp add: add.assoc)
qed simp

lemma seq_size: "write_seq wr w xs = Inr bs \<Longrightarrow> length xs * stride \<le> length bs"
  by (induction xs arbitrary: w bs) (auto dest!: item_size, fastforce)

end

text \<open>What a reading loop keeps: the number of items, the order of their keys when the carried state is
  the last key, a property of every item, and the position inside the data.\<close>

lemma read_seq_inv:
  fixes key :: "'a \<Rightarrow> 's :: linorder"
  assumes "read_seq rd n s pos = Inr (xs, pos')"
    and "\<And>s pos x s' pos'. rd s pos = Inr (x, s', pos') \<Longrightarrow> key x = s' \<and> s \<le> s' \<and> ok x \<and> pos \<le> pos' \<and> pos' \<le> N"
  shows "length xs = n \<and> sorted (map key xs) \<and> list_all ok xs \<and> (\<forall>x \<in> set xs. s \<le> key x) \<and> pos \<le> pos' \<and> (pos \<le> N \<longrightarrow> pos' \<le> N)"
  using assms
proof (induction n arbitrary: s pos xs)
  case (Suc n)
  then obtain x s1 pos1 xs' where r: "rd s pos = Inr (x, s1, pos1)" "read_seq rd n s1 pos1 = Inr (xs', pos')" "xs = x # xs'"
    by auto
  from Suc.IH [OF r(2) Suc.prems(2)] Suc.prems(2) [OF r(1)] r(3) show ?case by force
qed simp

text \<open>A writing loop succeeds iff every item does, given the state left by the one before.\<close>

lemma write_seq_ok:
  assumes "\<And>w x. (\<exists>r. wr w x = Inr r) \<longleftrightarrow> good w x" and "\<And>w x b w'. wr w x = Inr (b, w') \<Longrightarrow> w' = nxt x"
  shows "(\<exists>bs. write_seq wr w xs = Inr bs) \<longleftrightarrow>
    (case xs of [] \<Rightarrow> True | x # _ \<Rightarrow> good w x) \<and> (\<forall>i. Suc i < length xs \<longrightarrow> good (nxt (xs ! i)) (xs ! Suc i))"
proof (induction xs arbitrary: w)
  case (Cons x xs)
  have "(\<exists>bs. write_seq wr w (x # xs) = Inr bs) \<longleftrightarrow> (\<exists>b w'. wr w x = Inr (b, w') \<and> (\<exists>bs. write_seq wr w' xs = Inr bs))"
    by auto
  also have "\<dots> \<longleftrightarrow> good w x \<and> (\<exists>bs. write_seq wr (nxt x) xs = Inr bs)"
    using assms(1) [of w x] assms(2) [of w x] by (metis surj_pair)
  also have "\<dots> \<longleftrightarrow> good w x \<and> (case xs of [] \<Rightarrow> True | y # _ \<Rightarrow> good (nxt x) y)
      \<and> (\<forall>i. Suc i < length xs \<longrightarrow> good (nxt (xs ! i)) (xs ! Suc i))"
    unfolding Cons.IH ..
  also have "(case xs of [] \<Rightarrow> True | y # _ \<Rightarrow> good (nxt x) y) \<and> (\<forall>i. Suc i < length xs \<longrightarrow> good (nxt (xs ! i)) (xs ! Suc i))
      \<longleftrightarrow> (\<forall>i. Suc i < length (x # xs) \<longrightarrow> good (nxt ((x # xs) ! i)) ((x # xs) ! Suc i))"
    by (cases xs) (auto simp: less_Suc_eq_0_disj nth_Cons split: nat.split)
  finally show ?case by simp
qed simp

end
