(* ===== verification/Dex_Class_Data.thy ===== *)
theory Dex_Class_Data
  imports Dex_Seq Dex_Insn Dex_Oracle_Io
begin

text \<open>
  The \<open>class_data_item\<close>: \<open>parse_class_data\<close> of \<open>src/src/decode.rs\<close> and \<open>emit_class_data_item\<close> of
  \<open>src/src/emit_dex.rs\<close>. Field and method lists are delta-coded sequences of LEB128 numbers.
\<close>

section \<open>Parsing\<close>

text \<open>Read a number and advance the position.\<close>

definition take_uleb :: "deps \<Rightarrow> byte list \<Rightarrow> string \<Rightarrow> nat \<Rightarrow> DexError + (u32 \<times> nat)" where
  "take_uleb D data context pos =
     bindE (read_uleb128 D data pos) (\<lambda>(v, len). bindE (safe_add pos len context) (\<lambda>pos'. Inr (v, pos')))"

definition ENCODED_FIELD_MIN_SIZE :: nat where "ENCODED_FIELD_MIN_SIZE = 2"

definition ENCODED_METHOD_MIN_SIZE :: nat where "ENCODED_METHOD_MIN_SIZE = 3"

text \<open>The index accumulator of a list.\<close>

definition advance_idx :: "u32 \<Rightarrow> string \<Rightarrow> u32 \<Rightarrow> u32 \<Rightarrow> DexError + u32" where
  "advance_idx cd_off list acc diff =
     (if unat acc + unat diff < 2 ^ 32 then Inr (acc + diff)
      else Inl (InvalidInstruction cd_off (list @ '' idx_diff accumulator overflow'')))"

definition read_field ::
  "deps \<Rightarrow> u32 \<Rightarrow> string \<Rightarrow> byte list \<Rightarrow> u32 \<Rightarrow> nat \<Rightarrow> DexError + (EncodedField \<times> u32 \<times> nat)" where
  "read_field D cd_off list data field_idx_acc pos =
     bindE (take_uleb D data (''parse_class_data:'' @ list @ '':diff_len'') pos) (\<lambda>(diff, pos).
     bindE (advance_idx cd_off list field_idx_acc diff) (\<lambda>field_idx_acc.
     bindE (take_uleb D data (''parse_class_data:'' @ list @ '':access_flags_len'') pos) (\<lambda>(access_flags, pos).
     bindE (validate access_flags AccessFlagScope.Field) (\<lambda>access_flags.
     Inr (\<lparr>ef_field_idx = FieldIdx field_idx_acc, ef_access_flags = access_flags\<rparr>, field_idx_acc, pos)))))"

definition read_method ::
  "deps \<Rightarrow> u32 \<Rightarrow> string \<Rightarrow> byte list \<Rightarrow> u32 \<Rightarrow> nat \<Rightarrow> DexError + (EncodedMethod \<times> u32 \<times> nat)" where
  "read_method D cd_off list data method_idx_acc pos =
     bindE (take_uleb D data (''parse_class_data:'' @ list @ '':diff_len'') pos) (\<lambda>(diff, pos).
     bindE (advance_idx cd_off list method_idx_acc diff) (\<lambda>method_idx_acc.
     bindE (take_uleb D data (''parse_class_data:'' @ list @ '':access_flags_len'') pos) (\<lambda>(access_flags, pos).
     bindE (validate access_flags AccessFlagScope.Method) (\<lambda>access_flags.
     bindE (take_uleb D data (''parse_class_data:'' @ list @ '':code_off_len'') pos) (\<lambda>(code_off, pos).
     Inr (\<lparr>em_method_idx = MethodIdx method_idx_acc, em_access_flags = access_flags, em_code_off = code_off\<rparr>,
          method_idx_acc, pos))))))"

definition parse_class_data_with_consumed :: "deps \<Rightarrow> byte list \<Rightarrow> u32 \<Rightarrow> DexError + (ClassData \<times> nat)" where
  "parse_class_data_with_consumed D data cd_off =
     (let start = unat cd_off
      in bindE (take_uleb D data ''parse_class_data:static_fields_size'' start) (\<lambda>(static_sz, pos).
         bindE (take_uleb D data ''parse_class_data:instance_fields_size'' pos) (\<lambda>(instance_sz, pos).
         bindE (take_uleb D data ''parse_class_data:direct_methods_size'' pos) (\<lambda>(direct_sz, pos).
         bindE (take_uleb D data ''parse_class_data:virtual_methods_size'' pos) (\<lambda>(virtual_sz, pos).
         bindE (bound_count D static_sz ENCODED_FIELD_MIN_SIZE (length data) ''static_fields'') (\<lambda>n_static.
         bindE (bound_count D instance_sz ENCODED_FIELD_MIN_SIZE (length data) ''instance_fields'') (\<lambda>n_instance.
         bindE (bound_count D direct_sz ENCODED_METHOD_MIN_SIZE (length data) ''direct_methods'') (\<lambda>n_direct.
         bindE (bound_count D virtual_sz ENCODED_METHOD_MIN_SIZE (length data) ''virtual_methods'') (\<lambda>n_virtual.
         bindE (read_seq (read_field D cd_off ''static_fields'' data) n_static 0 pos) (\<lambda>(sfs, pos).
         bindE (read_seq (read_field D cd_off ''instance_fields'' data) n_instance 0 pos) (\<lambda>(ifs, pos).
         bindE (read_seq (read_method D cd_off ''direct_methods'' data) n_direct 0 pos) (\<lambda>(dms, pos).
         bindE (read_seq (read_method D cd_off ''virtual_methods'' data) n_virtual 0 pos) (\<lambda>(vms, pos).
         Inr (\<lparr>static_fields = sfs, instance_fields = ifs, direct_methods = dms, virtual_methods = vms\<rparr>,
              pos - start))))))))))))))"

definition parse_class_data :: "deps \<Rightarrow> byte list \<Rightarrow> u32 \<Rightarrow> DexError + ClassData" where
  "parse_class_data D data cd_off =
     bindE (parse_class_data_with_consumed D data cd_off) (\<lambda>(cd, _). Inr cd)"

section \<open>Emission\<close>

text \<open>The difference to the previous index; the first entry carries its index.\<close>

definition idx_diff :: "string \<Rightarrow> u32 option \<Rightarrow> u32 \<Rightarrow> DexEmitError + u32" where
  "idx_diff why prev idx =
     (case prev of
        None \<Rightarrow> Inr idx
      | Some p \<Rightarrow> if p < idx then Inr (idx - p) else Inl (UnrepresentableIR why))"

definition write_field :: "deps \<Rightarrow> u32 option \<Rightarrow> EncodedField \<Rightarrow> DexEmitError + (byte list \<times> u32 option)" where
  "write_field D prev f =
     (let idx = un_FieldIdx (ef_field_idx f)
      in bindE (idx_diff ''class_data_item: encoded_field list must be strictly ascending by field_idx'' prev idx) (\<lambda>diff.
         Inr (common_write_uleb128 D diff @ common_write_uleb128 D (ef_access_flags f), Some idx)))"

definition write_method :: "deps \<Rightarrow> u32 option \<Rightarrow> EncodedMethod \<Rightarrow> DexEmitError + (byte list \<times> u32 option)" where
  "write_method D prev m =
     (let idx = un_MethodIdx (em_method_idx m)
      in bindE (idx_diff ''class_data_item: encoded_method list must be strictly ascending by method_idx'' prev idx) (\<lambda>diff.
         Inr (common_write_uleb128 D diff @ common_write_uleb128 D (em_access_flags m)
              @ common_write_uleb128 D (em_code_off m), Some idx)))"

definition emit_encoded_field_list :: "deps \<Rightarrow> EncodedField list \<Rightarrow> DexEmitError + byte list" where
  "emit_encoded_field_list D fs = write_seq (write_field D) None fs"

definition emit_encoded_method_list :: "deps \<Rightarrow> EncodedMethod list \<Rightarrow> DexEmitError + byte list" where
  "emit_encoded_method_list D ms = write_seq (write_method D) None ms"

definition list_size :: "string \<Rightarrow> 'a list \<Rightarrow> DexEmitError + u32" where
  "list_size context xs =
     (if length xs < 2 ^ 32 then Inr (of_nat (length xs)) else Inl (SizeOverflow ''class_data_item'' context))"

definition emit_class_data_item ::
  "deps \<Rightarrow> EncodedField list \<Rightarrow> EncodedField list \<Rightarrow> EncodedMethod list \<Rightarrow> EncodedMethod list \<Rightarrow>
   DexEmitError + byte list" where
  "emit_class_data_item D sfs ifs dms vms =
     bindE (list_size ''static_fields_size exceeds u32'' sfs) (\<lambda>static_sz.
     bindE (list_size ''instance_fields_size exceeds u32'' ifs) (\<lambda>instance_sz.
     bindE (list_size ''direct_methods_size exceeds u32'' dms) (\<lambda>direct_sz.
     bindE (list_size ''virtual_methods_size exceeds u32'' vms) (\<lambda>virtual_sz.
     bindE (emit_encoded_field_list D sfs) (\<lambda>b1.
     bindE (emit_encoded_field_list D ifs) (\<lambda>b2.
     bindE (emit_encoded_method_list D dms) (\<lambda>b3.
     bindE (emit_encoded_method_list D vms) (\<lambda>b4.
     Inr (common_write_uleb128 D static_sz @ common_write_uleb128 D instance_sz
          @ common_write_uleb128 D direct_sz @ common_write_uleb128 D virtual_sz @ b1 @ b2 @ b3 @ b4)))))))))"

section \<open>The item codecs\<close>

context dex_deps
begin

lemma take_uleb_at:
  assumes "fits data" and at: "at_off data pos (common_write_uleb128 D v @ rest)"
  shows "take_uleb D data c pos = Inr (v, pos + length (common_write_uleb128 D v))"
    "at_off data (pos + length (common_write_uleb128 D v)) rest"
proof -
  have a: "at_off data pos (common_write_uleb128 D v)" "at_off data (pos + length (common_write_uleb128 D v)) rest"
    using at by (simp_all add: at_off_append)
  then show "at_off data (pos + length (common_write_uleb128 D v)) rest" by simp
  have "pos + length (common_write_uleb128 D v) < 2 ^ 64"
    using at_off_len [OF a(1)] assms(1) by (simp add: fits_def)
  then show "take_uleb D data c pos = Inr (v, pos + length (common_write_uleb128 D v))"
    by (simp add: take_uleb_def read_uleb128_at [OF assms(1) a(1)])
qed

end

definition idx_rel :: "u32 option \<Rightarrow> u32 \<Rightarrow> bool" where
  "idx_rel prev acc \<longleftrightarrow> acc = (case prev of None \<Rightarrow> 0 | Some p \<Rightarrow> p)"

lemma idx_codec:
  "idx_rel prev acc \<Longrightarrow> idx_diff why prev idx = Inr diff \<Longrightarrow> advance_idx off l acc diff = Inr idx"
proof (cases prev)
  case (Some p)
  assume r: "idx_rel prev acc" and d: "idx_diff why prev idx = Inr diff"
  with Some have p: "p < idx" "diff = idx - p" "acc = p" by (auto simp: idx_diff_def idx_rel_def split: if_splits)
  then have "unat p + unat (idx - p) = unat idx" by (simp add: unat_sub word_less_nat_alt word_le_nat_alt)
  moreover have "unat idx < 2 ^ 32" using unat_u32_lt [of idx] by simp
  ultimately show ?thesis using p by (simp add: advance_idx_def)
qed (use unat_u32_lt [of idx] in \<open>auto simp: idx_diff_def idx_rel_def advance_idx_def\<close>)

sublocale dex_deps \<subseteq> fields: seq_codec "read_field D cd_off l" "write_field D" idx_rel
  "\<lambda>f. validate (ef_access_flags f) AccessFlagScope.Field = Inr (ef_access_flags f)" ENCODED_FIELD_MIN_SIZE
  for cd_off l
proof
  fix w r x b w' data pos
  assume rel: "idx_rel w r" and v: "validate (ef_access_flags x) AccessFlagScope.Field = Inr (ef_access_flags x)"
    and wr: "write_field D w x = Inr (b, w')" and f: "fits data" and at: "at_off data pos b"
  from wr obtain diff where d: "idx_diff ''class_data_item: encoded_field list must be strictly ascending by field_idx'' w
      (un_FieldIdx (ef_field_idx x)) = Inr diff"
    and b: "b = common_write_uleb128 D diff @ common_write_uleb128 D (ef_access_flags x) @ []"
    and w': "w' = Some (un_FieldIdx (ef_field_idx x))" by (auto simp: write_field_def Let_def)
  note t1 = take_uleb_at [OF f at [unfolded b]]
  note t2 = take_uleb_at [OF f t1(2)]
  show "\<exists>r'. read_field D cd_off l data r pos = Inr (x, r', pos + length b) \<and> idx_rel w' r'"
    by (simp add: read_field_def t1(1) t2(1) idx_codec [OF rel d] v b w' idx_rel_def)
next
  fix w x b w'
  assume "write_field D w x = Inr (b, w')"
  then obtain u v where "b = common_write_uleb128 D u @ common_write_uleb128 D v"
    by (auto simp: write_field_def Let_def)
  then show "ENCODED_FIELD_MIN_SIZE \<le> length b"
    using write_uleb_length [of u] write_uleb_length [of v]
    by (simp only: ENCODED_FIELD_MIN_SIZE_def length_append) linarith
qed

sublocale dex_deps \<subseteq> methods: seq_codec "read_method D cd_off l" "write_method D" idx_rel
  "\<lambda>m. validate (em_access_flags m) AccessFlagScope.Method = Inr (em_access_flags m)" ENCODED_METHOD_MIN_SIZE
  for cd_off l
proof
  fix w r x b w' data pos
  assume rel: "idx_rel w r" and v: "validate (em_access_flags x) AccessFlagScope.Method = Inr (em_access_flags x)"
    and wr: "write_method D w x = Inr (b, w')" and f: "fits data" and at: "at_off data pos b"
  from wr obtain diff where d: "idx_diff ''class_data_item: encoded_method list must be strictly ascending by method_idx'' w
      (un_MethodIdx (em_method_idx x)) = Inr diff"
    and b: "b = common_write_uleb128 D diff @ common_write_uleb128 D (em_access_flags x)
      @ common_write_uleb128 D (em_code_off x) @ []"
    and w': "w' = Some (un_MethodIdx (em_method_idx x))" by (auto simp: write_method_def Let_def)
  note t1 = take_uleb_at [OF f at [unfolded b]]
  note t2 = take_uleb_at [OF f t1(2)]
  note t3 = take_uleb_at [OF f t2(2)]
  show "\<exists>r'. read_method D cd_off l data r pos = Inr (x, r', pos + length b) \<and> idx_rel w' r'"
    by (simp add: read_method_def t1(1) t2(1) t3(1) idx_codec [OF rel d] v b w' idx_rel_def)
next
  fix w x b w'
  assume "write_method D w x = Inr (b, w')"
  then obtain u v t where "b = common_write_uleb128 D u @ common_write_uleb128 D v @ common_write_uleb128 D t"
    by (auto simp: write_method_def Let_def)
  then show "ENCODED_METHOD_MIN_SIZE \<le> length b"
    using write_uleb_length [of u] write_uleb_length [of v] write_uleb_length [of t]
    by (simp only: ENCODED_METHOD_MIN_SIZE_def length_append) linarith
qed

section \<open>Properties\<close>

definition flags_ok :: "ClassData \<Rightarrow> bool" where
  "flags_ok cd \<longleftrightarrow>
     list_all (\<lambda>f. validate (ef_access_flags f) AccessFlagScope.Field = Inr (ef_access_flags f))
       (static_fields cd @ instance_fields cd)
     \<and> list_all (\<lambda>m. validate (em_access_flags m) AccessFlagScope.Method = Inr (em_access_flags m))
       (direct_methods cd @ virtual_methods cd)"

lemma list_size_Inr: "list_size c xs = Inr w \<longleftrightarrow> length xs < 2 ^ 32 \<and> w = of_nat (length xs)"
  by (auto simp: list_size_def)

context dex_deps
begin

lemma bound_count_list:
  "0 < stride \<Longrightarrow> length xs < 2 ^ 32 \<Longrightarrow> fits data \<Longrightarrow> length xs * stride \<le> length data \<Longrightarrow>
   bound_count D (of_nat (length xs)) stride (length data) item = Inr (length xs)"
  using bound_count_fits [of stride "length data" "of_nat (length xs)" item] by (simp add: unat_of_nat_u32 fits_def)

lemma class_data_codec:
  assumes e: "emit_class_data_item D sfs ifs dms vms = Inr bytes" and f: "fits data" and at: "at_off data (unat off) bytes"
    and ok: "flags_ok \<lparr>static_fields = sfs, instance_fields = ifs, direct_methods = dms, virtual_methods = vms\<rparr>"
  shows "parse_class_data_with_consumed D data off
    = Inr (\<lparr>static_fields = sfs, instance_fields = ifs, direct_methods = dms, virtual_methods = vms\<rparr>, length bytes)"
proof -
  from e obtain b1 b2 b3 b4 where w: "write_seq (write_field D) None sfs = Inr b1" "write_seq (write_field D) None ifs = Inr b2"
      "write_seq (write_method D) None dms = Inr b3" "write_seq (write_method D) None vms = Inr b4"
    and n: "length sfs < 2 ^ 32" "length ifs < 2 ^ 32" "length dms < 2 ^ 32" "length vms < 2 ^ 32"
    and b: "bytes = common_write_uleb128 D (of_nat (length sfs)) @ common_write_uleb128 D (of_nat (length ifs))
      @ common_write_uleb128 D (of_nat (length dms)) @ common_write_uleb128 D (of_nat (length vms)) @ b1 @ b2 @ b3 @ b4"
    by (auto simp: emit_class_data_item_def emit_encoded_field_list_def emit_encoded_method_list_def list_size_Inr)
  have len: "length bytes \<le> length data" using at_off_len [OF at] by simp
  have c: "length sfs * 2 \<le> length data" "length ifs * 2 \<le> length data" "length dms * 3 \<le> length data" "length vms * 3 \<le> length data"
    using fields.seq_size [OF w(1)] fields.seq_size [OF w(2)] methods.seq_size [OF w(3)] methods.seq_size [OF w(4)] len
    by (simp_all add: b ENCODED_FIELD_MIN_SIZE_def ENCODED_METHOD_MIN_SIZE_def)
  note cnt = bound_count_list [OF _ n(1) f, of 2] bound_count_list [OF _ n(2) f, of 2]
    bound_count_list [OF _ n(3) f, of 3] bound_count_list [OF _ n(4) f, of 3]
  note t1 = take_uleb_at [OF f at [unfolded b]]
  note t2 = take_uleb_at [OF f t1(2)]
  note t3 = take_uleb_at [OF f t2(2)]
  note t4 = take_uleb_at [OF f t3(2)]
  note at4 = t4(2) [unfolded at_off_append]
  have r: "idx_rel None 0" by (simp add: idx_rel_def)
  note s1 = fields.seq_roundtrip [OF r _ w(1) f at4 [THEN conjunct1]]
  note s2 = fields.seq_roundtrip [OF r _ w(2) f at4 [THEN conjunct2, THEN conjunct1]]
  note s3 = methods.seq_roundtrip [OF r _ w(3) f at4 [THEN conjunct2, THEN conjunct2, THEN conjunct1]]
  note s4 = methods.seq_roundtrip [OF r _ w(4) f at4 [THEN conjunct2, THEN conjunct2, THEN conjunct2]]
  have v: "list_all (\<lambda>f. validate (ef_access_flags f) AccessFlagScope.Field = Inr (ef_access_flags f)) sfs"
    "list_all (\<lambda>f. validate (ef_access_flags f) AccessFlagScope.Field = Inr (ef_access_flags f)) ifs"
    "list_all (\<lambda>m. validate (em_access_flags m) AccessFlagScope.Method = Inr (em_access_flags m)) dms"
    "list_all (\<lambda>m. validate (em_access_flags m) AccessFlagScope.Method = Inr (em_access_flags m)) vms"
    using ok by (simp_all add: flags_ok_def)
  have "parse_class_data_with_consumed D data off
    = Inr (\<lparr>static_fields = sfs, instance_fields = ifs, direct_methods = dms, virtual_methods = vms\<rparr>,
        unat off + length bytes - unat off)"
    unfolding parse_class_data_with_consumed_def Let_def t1(1) t2(1) t3(1) t4(1) bindE.simps prod.case
      ENCODED_FIELD_MIN_SIZE_def ENCODED_METHOD_MIN_SIZE_def
    using cnt c s1 [OF v(1)] s2 [OF v(2)] s3 [OF v(3)] s4 [OF v(4)]
    by (simp add: b add.assoc)
  then show ?thesis by simp
qed

end

lemma field_list_iff:
  "(\<exists>b. write_seq (write_field D) None fs = Inr b) \<longleftrightarrow> sorted_wrt (<) (map ef_field_idx fs)"
proof -
  have good: "(\<exists>r. write_field D p x = Inr r) \<longleftrightarrow> (case p of None \<Rightarrow> True | Some p \<Rightarrow> p < un_FieldIdx (ef_field_idx x))" for p x
    by (cases p) (auto simp: write_field_def Let_def idx_diff_def)
  have nxt: "write_field D p x = Inr (b, w') \<Longrightarrow> w' = Some (un_FieldIdx (ef_field_idx x))" for p x b w'
    by (auto simp: write_field_def Let_def)
  have "(\<exists>b. write_seq (write_field D) None fs = Inr b) \<longleftrightarrow>
      (\<forall>i. Suc i < length fs \<longrightarrow> un_FieldIdx (ef_field_idx (fs ! i)) < un_FieldIdx (ef_field_idx (fs ! Suc i)))"
    using write_seq_ok [where wr = "write_field D" and nxt = "\<lambda>x. Some (un_FieldIdx (ef_field_idx x))" and w = None and xs = fs, OF good nxt]
    by (simp split: list.split)
  then show ?thesis by (simp add: sorted_wrt_iff_nth_Suc_transp less_FieldIdx_def)
qed

lemma method_list_iff:
  "(\<exists>b. write_seq (write_method D) None ms = Inr b) \<longleftrightarrow> sorted_wrt (<) (map em_method_idx ms)"
proof -
  have good: "(\<exists>r. write_method D p x = Inr r) \<longleftrightarrow> (case p of None \<Rightarrow> True | Some p \<Rightarrow> p < un_MethodIdx (em_method_idx x))" for p x
    by (cases p) (auto simp: write_method_def Let_def idx_diff_def)
  have nxt: "write_method D p x = Inr (b, w') \<Longrightarrow> w' = Some (un_MethodIdx (em_method_idx x))" for p x b w'
    by (auto simp: write_method_def Let_def)
  have "(\<exists>b. write_seq (write_method D) None ms = Inr b) \<longleftrightarrow>
      (\<forall>i. Suc i < length ms \<longrightarrow> un_MethodIdx (em_method_idx (ms ! i)) < un_MethodIdx (em_method_idx (ms ! Suc i)))"
    using write_seq_ok [where wr = "write_method D" and nxt = "\<lambda>x. Some (un_MethodIdx (em_method_idx x))" and w = None and xs = ms, OF good nxt]
    by (simp split: list.split)
  then show ?thesis by (simp add: sorted_wrt_iff_nth_Suc_transp less_MethodIdx_def)
qed

context dex_deps
begin

lemma take_uleb_inside: "take_uleb D data c pos = Inr (v, pos') \<Longrightarrow> pos < pos' \<and> pos' \<le> length data"
  using read_uleb_bound by (fastforce simp: take_uleb_def read_uleb128_def safe_add_def split: if_splits)

lemma read_field_inv:
  "read_field D cd_off l data acc pos = Inr (x, acc', pos') \<Longrightarrow>
   un_FieldIdx (ef_field_idx x) = acc' \<and> acc \<le> acc'
   \<and> validate (ef_access_flags x) AccessFlagScope.Field = Inr (ef_access_flags x) \<and> pos \<le> pos' \<and> pos' \<le> length data"
  by (auto simp: read_field_def advance_idx_def validate_def word_le_nat_alt unat_add_no_wrap
      split: if_splits dest!: take_uleb_inside)

lemma read_method_inv:
  "read_method D cd_off l data acc pos = Inr (x, acc', pos') \<Longrightarrow>
   un_MethodIdx (em_method_idx x) = acc' \<and> acc \<le> acc'
   \<and> validate (em_access_flags x) AccessFlagScope.Method = Inr (em_access_flags x) \<and> pos \<le> pos' \<and> pos' \<le> length data"
  by (auto simp: read_method_def advance_idx_def validate_def word_le_nat_alt unat_add_no_wrap
      split: if_splits dest!: take_uleb_inside)

lemma read_fields_inv:
  "read_seq (read_field D cd_off l data) n acc pos = Inr (xs, pos') \<Longrightarrow>
   length xs = n \<and> sorted (map (\<lambda>x. un_FieldIdx (ef_field_idx x)) xs)
   \<and> list_all (\<lambda>x. validate (ef_access_flags x) AccessFlagScope.Field = Inr (ef_access_flags x)) xs
   \<and> (\<forall>x \<in> set xs. acc \<le> un_FieldIdx (ef_field_idx x)) \<and> pos \<le> pos' \<and> (pos \<le> length data \<longrightarrow> pos' \<le> length data)"
  by (rule read_seq_inv) (assumption, rule read_field_inv)

lemma read_methods_inv:
  "read_seq (read_method D cd_off l data) n acc pos = Inr (xs, pos') \<Longrightarrow>
   length xs = n \<and> sorted (map (\<lambda>x. un_MethodIdx (em_method_idx x)) xs)
   \<and> list_all (\<lambda>x. validate (em_access_flags x) AccessFlagScope.Method = Inr (em_access_flags x)) xs
   \<and> (\<forall>x \<in> set xs. acc \<le> un_MethodIdx (em_method_idx x)) \<and> pos \<le> pos' \<and> (pos \<le> length data \<longrightarrow> pos' \<le> length data)"
  by (rule read_seq_inv) (assumption, rule read_method_inv)

lemma class_data_bounds:
  assumes f: "fits data" and p: "parse_class_data_with_consumed D data off = Inr (cd, n)"
  shows "unat off + n \<le> length data \<and> flags_ok cd
    \<and> sorted (map ef_field_idx (static_fields cd)) \<and> sorted (map ef_field_idx (instance_fields cd))
    \<and> sorted (map em_method_idx (direct_methods cd)) \<and> sorted (map em_method_idx (virtual_methods cd))
    \<and> 2 * length (static_fields cd) \<le> length data \<and> 2 * length (instance_fields cd) \<le> length data
    \<and> 3 * length (direct_methods cd) \<le> length data \<and> 3 * length (virtual_methods cd) \<le> length data"
proof -
  from p obtain w1 w2 w3 w4 p1 p2 p3 p4 n1 n2 n3 n4 c1 c2 c3 c4 sfs ifs dms vms q1 q2 q3 q4 where
    t: "take_uleb D data c1 (unat off) = Inr (w1, p1)" "take_uleb D data c2 p1 = Inr (w2, p2)"
      "take_uleb D data c3 p2 = Inr (w3, p3)" "take_uleb D data c4 p3 = Inr (w4, p4)"
    and c: "bound_count D w1 2 (length data) ''static_fields'' = Inr n1" "bound_count D w2 2 (length data) ''instance_fields'' = Inr n2"
      "bound_count D w3 3 (length data) ''direct_methods'' = Inr n3" "bound_count D w4 3 (length data) ''virtual_methods'' = Inr n4"
    and s: "read_seq (read_field D off ''static_fields'' data) n1 0 p4 = Inr (sfs, q1)"
      "read_seq (read_field D off ''instance_fields'' data) n2 0 q1 = Inr (ifs, q2)"
      "read_seq (read_method D off ''direct_methods'' data) n3 0 q2 = Inr (dms, q3)"
      "read_seq (read_method D off ''virtual_methods'' data) n4 0 q3 = Inr (vms, q4)"
    and cd: "cd = \<lparr>static_fields = sfs, instance_fields = ifs, direct_methods = dms, virtual_methods = vms\<rparr>" and n: "n = q4 - unat off"
    unfolding parse_class_data_with_consumed_def Let_def ENCODED_FIELD_MIN_SIZE_def ENCODED_METHOD_MIN_SIZE_def by auto
  have pos: "unat off \<le> p4" "p4 \<le> length data" using t [THEN take_uleb_inside] by simp_all
  note r = read_fields_inv [OF s(1)] read_fields_inv [OF s(2)] read_methods_inv [OF s(3)] read_methods_inv [OF s(4)]
  have "length data < 2 ^ 63" using f by (simp add: fits_def)
  then have "n1 * 2 \<le> length data" "n2 * 2 \<le> length data" "n3 * 3 \<le> length data" "n4 * 3 \<le> length data"
    using c [THEN bound_count_InrD] by simp_all
  moreover have "unat off + n \<le> length data" using pos r n by linarith
  moreover have "flags_ok cd" using r cd by (simp add: flags_ok_def)
  moreover have "sorted (map ef_field_idx sfs)" "sorted (map ef_field_idx ifs)" "sorted (map em_method_idx dms)" "sorted (map em_method_idx vms)"
    using r by (simp_all add: sorted_map less_eq_FieldIdx_def less_eq_MethodIdx_def)
  ultimately show ?thesis using r cd by (simp add: mult.commute)
qed

end

text \<open>C14 (class_data_roundtrip). Class data with access flags the format allows that is emitted is parsed back:
  the four member lists, with absolute indices rebuilt from the differences, and exactly the emitted
  bytes consumed.\<close>

theorem class_data_roundtrip:
  assumes "dex_deps D" and "emit_class_data_item D (static_fields cd) (instance_fields cd) (direct_methods cd) (virtual_methods cd) = Inr bytes"
    and "flags_ok cd" and "fits data" and "at_off data (unat off) bytes"
  shows "parse_class_data_with_consumed D data off = Inr (cd, length bytes)"
  using dex_deps.class_data_codec [OF assms(1,2,4,5)] assms(3) by (cases cd) simp

definition sample_class_data :: ClassData where
  "sample_class_data = \<lparr>static_fields = [\<lparr>ef_field_idx = FieldIdx 3, ef_access_flags = 0x19\<rparr>, \<lparr>ef_field_idx = FieldIdx 300, ef_access_flags = 2\<rparr>],
     instance_fields = [], direct_methods = [\<lparr>em_method_idx = MethodIdx 7, em_access_flags = 0x10001, em_code_off = 0x200\<rparr>],
     virtual_methods = []\<rparr>"

theorem class_data_roundtrip_witness:
  "\<exists>bytes. emit_class_data_item (std_deps (\<lambda>_. [])) (static_fields sample_class_data) (instance_fields sample_class_data)
       (direct_methods sample_class_data) (virtual_methods sample_class_data) = Inr bytes
     \<and> parse_class_data_with_consumed (std_deps (\<lambda>_. [])) bytes 0 = Inr (sample_class_data, length bytes)"
proof -
  let ?D = "std_deps (\<lambda>_. [])" and ?c = sample_class_data
  let ?w = "common_write_uleb128 ?D"
  define bytes where "bytes = ?w 2 @ ?w 0 @ ?w 1 @ ?w 0 @ ?w 3 @ ?w 0x19 @ ?w 297 @ ?w 2 @ ?w 7 @ ?w 0x10001 @ ?w 0x200"
  have b: "emit_class_data_item ?D (static_fields ?c) (instance_fields ?c) (direct_methods ?c) (virtual_methods ?c) = Inr bytes"
    by (simp add: sample_class_data_def emit_class_data_item_def emit_encoded_field_list_def emit_encoded_method_list_def
        write_field_def write_method_def idx_diff_def list_size_def Let_def bytes_def)
  have wl: "\<And>v. length (?w v) \<le> 5" using std.write_uleb_length by blast
  note le = wl [of 2] wl [of 0] wl [of 1] wl [of 3] wl [of "0x19"] wl [of 297] wl [of 7] wl [of "0x10001"] wl [of "0x200"]
  have l: "length bytes < 2 ^ 63" using le by (simp add: bytes_def)
  have "flags_ok ?c" by (simp add: flags_ok_def sample_class_data_def validate_def scope_mask_def)
  from class_data_roundtrip [OF std.dex_deps_axioms b this, of bytes 0] l b show ?thesis
    by (simp add: fits_def at_off_def)
qed

text \<open>C15 (class_data_parse_bounds). Class data that parses lies inside the file, has access flags the format
  allows, member lists ordered by index, and no more members than the file has room for.\<close>

theorem class_data_parse_bounds:
  assumes "dex_deps D" and "fits data" and "parse_class_data_with_consumed D data off = Inr (cd, n)"
  shows "unat off + n \<le> length data \<and> flags_ok cd
    \<and> sorted (map ef_field_idx (static_fields cd)) \<and> sorted (map ef_field_idx (instance_fields cd))
    \<and> sorted (map em_method_idx (direct_methods cd)) \<and> sorted (map em_method_idx (virtual_methods cd))
    \<and> 2 * length (static_fields cd) \<le> length data \<and> 2 * length (instance_fields cd) \<le> length data
    \<and> 3 * length (direct_methods cd) \<le> length data \<and> 3 * length (virtual_methods cd) \<le> length data"
  by (rule dex_deps.class_data_bounds [OF assms])

theorem class_data_parse_bounds_witness:
  "\<exists>cd n. parse_class_data_with_consumed (std_deps (\<lambda>_. [])) [0, 0, 0, 0] 0 = Inr (cd, n) \<and> n \<le> 4"
proof -
  have f: "fits [0, 0, 0, 0 :: byte]" by (simp add: fits_def)
  have "emit_class_data_item (std_deps (\<lambda>_. [])) [] [] [] [] = Inr [0, 0, 0, 0]"
    by (simp add: emit_class_data_item_def emit_encoded_field_list_def emit_encoded_method_list_def list_size_def std_deps_def
        push_uleb.simps [of 0])
  then have p: "parse_class_data_with_consumed (std_deps (\<lambda>_. [])) [0, 0, 0, 0] 0
     = Inr (\<lparr>static_fields = [], instance_fields = [], direct_methods = [], virtual_methods = []\<rparr>, 4)"
    using std.class_data_codec [where off = 0 and data = "[0, 0, 0, 0]"] f by (fastforce simp: flags_ok_def at_off_def)
  from class_data_parse_bounds [OF std.dex_deps_axioms f p] p show ?thesis by auto
qed

text \<open>C16 (class_data_emit_iff). Emission of class data fails on exactly the lists that are not strictly ascending
  by index: in particular every duplicate index is rejected.\<close>

theorem class_data_emit_iff:
  assumes "length (static_fields cd) < 2 ^ 32" "length (instance_fields cd) < 2 ^ 32"
    "length (direct_methods cd) < 2 ^ 32" "length (virtual_methods cd) < 2 ^ 32"
  shows "(\<exists>bytes. emit_class_data_item D (static_fields cd) (instance_fields cd) (direct_methods cd) (virtual_methods cd) = Inr bytes)
    \<longleftrightarrow> sorted_wrt (<) (map ef_field_idx (static_fields cd)) \<and> sorted_wrt (<) (map ef_field_idx (instance_fields cd))
      \<and> sorted_wrt (<) (map em_method_idx (direct_methods cd)) \<and> sorted_wrt (<) (map em_method_idx (virtual_methods cd))"
proof -
  have "(\<exists>bytes. emit_class_data_item D (static_fields cd) (instance_fields cd) (direct_methods cd) (virtual_methods cd) = Inr bytes)
    \<longleftrightarrow> (\<exists>b. write_seq (write_field D) None (static_fields cd) = Inr b) \<and> (\<exists>b. write_seq (write_field D) None (instance_fields cd) = Inr b)
      \<and> (\<exists>b. write_seq (write_method D) None (direct_methods cd) = Inr b) \<and> (\<exists>b. write_seq (write_method D) None (virtual_methods cd) = Inr b)"
    using assms by (auto simp: emit_class_data_item_def emit_encoded_field_list_def emit_encoded_method_list_def list_size_def)
  then show ?thesis unfolding field_list_iff method_list_iff .
qed

theorem class_data_emit_iff_witness:
  "\<not> (\<exists>bytes. emit_class_data_item (std_deps (\<lambda>_. [])) [] [] [] [\<lparr>em_method_idx = MethodIdx 1, em_access_flags = 1, em_code_off = 0\<rparr>,
     \<lparr>em_method_idx = MethodIdx 1, em_access_flags = 1, em_code_off = 0\<rparr>] = Inr bytes)"
  using class_data_emit_iff [of "\<lparr>static_fields = [], instance_fields = [], direct_methods = [], virtual_methods =
      [\<lparr>em_method_idx = MethodIdx 1, em_access_flags = 1, em_code_off = 0\<rparr>,
       \<lparr>em_method_idx = MethodIdx 1, em_access_flags = 1, em_code_off = 0\<rparr>]\<rparr>" "std_deps (\<lambda>_. [])"]
  by simp

end
