(* ===== verification/Dex_Decode.thy ===== *)
theory Dex_Decode
  imports Dex_Insn
begin

text \<open>
  Decoding of one instruction and of the payload tables (\<open>src/src/decode.rs\<close>, from
  \<open>branch_target\<close> to \<open>decode_fill_array_data\<close>). The arms of \<open>decode_single\<close> are grouped by the
  number of code units; each reads further units through the same reader as the code.
  \<open>decode_single\<close> appends to the caller's list of violations, so a decoded instruction comes with
  the violations it adds; when it fails the caller drops the list.
\<close>

section \<open>Units and branch targets\<close>

text \<open>\<open>checked_add_signed\<close>: the sum of an unsigned and a signed 32-bit number, if it is a \<open>u32\<close>.\<close>

definition branch_target :: "u32 \<Rightarrow> int \<Rightarrow> DexError + u32" where
  "branch_target pc offset =
     (let t = uint pc + offset
      in if 0 \<le> t \<and> t < 2 ^ 32 then Inr (word_of_int t)
         else Inl (InvalidInstruction pc ''branch target overflow''))"

definition read_unit :: "deps \<Rightarrow> byte list \<Rightarrow> nat \<Rightarrow> u32 \<Rightarrow> nat \<Rightarrow> DexError + u16" where
  "read_unit D data insns_off pc unit_idx =
     (if unat pc + unit_idx < 2 ^ 32 then
        let unit = unat pc + unit_idx
        in if unit * 2 < 2 ^ 64 \<and> insns_off + unit * 2 < 2 ^ 64
           then read_u16 D data (insns_off + unit * 2)
           else Inl (ArithmeticOverflow ''code-unit offset'')
      else Inl (InvalidInstruction pc ''code-unit index overflow''))"

text \<open>\<open>u32::from(u1) | u32::from(u2) << 16\<close>.\<close>

definition join_units :: "u16 \<Rightarrow> u16 \<Rightarrow> u32" where
  "join_units u1 u2 = ucast u1 OR push_bit 16 (ucast u2)"

definition join_long :: "u16 \<Rightarrow> u16 \<Rightarrow> u16 \<Rightarrow> u16 \<Rightarrow> u64" where
  "join_long u1 u2 u3 u4 =
     ucast u1 OR push_bit 16 (ucast u2) OR push_bit 32 (ucast u3) OR push_bit 48 (ucast u4)"

section \<open>Pool classification\<close>

definition classify_pool_21c :: "Opcode \<Rightarrow> u32 \<Rightarrow> PoolIndex" where
  "classify_pool_21c op idx =
     (if op = ConstString then PString (StringIdx idx)
      else if op \<in> set [ConstClass, CheckCast, NewInstance] then PType (TypeIdx idx)
      else if op \<in> set [Sget, SgetWide, SgetObject, SgetBoolean, SgetByte, SgetChar, SgetShort,
                        Sput, SputWide, SputObject, SputBoolean, SputByte, SputChar, SputShort]
        then PField (FieldIdx idx)
      else if op = ConstMethodHandle then PMethod (MethodIdx idx)
      else if op = ConstMethodType then PMethod (MethodIdx idx)
      else PType (TypeIdx idx))"

definition classify_pool_22c :: "Opcode \<Rightarrow> u32 \<Rightarrow> PoolIndex" where
  "classify_pool_22c op idx =
     (if op \<in> set [InstanceOf, NewArray] then PType (TypeIdx idx) else PField (FieldIdx idx))"

definition classify_pool_35c :: "Opcode \<Rightarrow> u32 \<Rightarrow> PoolIndex" where
  "classify_pool_35c op idx =
     (if op = FilledNewArray then PType (TypeIdx idx)
      else if op = InvokePolymorphic then PMethod (MethodIdx idx)
      else if op = InvokeCustom then PCallSite (CallSiteIdx idx)
      else PMethod (MethodIdx idx))"

definition classify_pool_3rc :: "Opcode \<Rightarrow> u32 \<Rightarrow> PoolIndex" where
  "classify_pool_3rc op idx =
     (if op = FilledNewArrayRange then PType (TypeIdx idx)
      else if op = InvokeCustomRange then PCallSite (CallSiteIdx idx)
      else PMethod (MethodIdx idx))"

section \<open>One instruction\<close>

type_synonym decoded = "DexError + (Instruction \<times> CodeItemInvariantViolation list)"

text \<open>The fields of the first unit: \<open>AA\<close>, and the nibbles \<open>A\<close> and \<open>B\<close>.\<close>

definition unit_aa :: "u16 \<Rightarrow> u16" where "unit_aa u0 = drop_bit 8 u0 AND 0xFF"
definition unit_a :: "u16 \<Rightarrow> u16" where "unit_a u0 = drop_bit 8 u0 AND 0x0F"
definition unit_b :: "u16 \<Rightarrow> u16" where "unit_b u0 = drop_bit 12 u0 AND 0x0F"

text \<open>The two bytes and the four nibbles of a later unit.\<close>

definition low8 :: "u16 \<Rightarrow> u16" where "low8 u = u AND 0xFF"
definition high8 :: "u16 \<Rightarrow> u16" where "high8 u = drop_bit 8 u AND 0xFF"
definition nibble :: "nat \<Rightarrow> u16 \<Rightarrow> u16" where "nibble k u = drop_bit (4 * k) u AND 0x0F"

definition blank_insn :: "u32 \<Rightarrow> Opcode \<Rightarrow> Instruction" where
  "blank_insn pc op =
     \<lparr>addr = pc, insn_op = op, insn_size = format_size (insn_format op), dst = None, src = reg_empty,
      literal = 0, target = None, pool_idx = None\<rparr>"

text \<open>One unit: \<open>10x\<close>, \<open>12x\<close>, \<open>11n\<close>, \<open>11x\<close>, \<open>10t\<close>.\<close>

definition decode_units1 :: "InsnFormat \<Rightarrow> u32 \<Rightarrow> u16 \<Rightarrow> Instruction \<Rightarrow> decoded" where
  "decode_units1 fmt pc u0 insn =
     (let aa = unit_aa u0; a_nibble = unit_a u0; b_nibble = unit_b u0
      in case fmt of
           F10x \<Rightarrow> Inr (insn, [])
         | F12x \<Rightarrow> Inr (insn\<lparr>dst := Some a_nibble, src := reg_one b_nibble\<rparr>, [])
         | F11n \<Rightarrow> Inr (insn\<lparr>dst := Some a_nibble, literal := sign_extend_4bit_to_i64 b_nibble\<rparr>, [])
         | F11x \<Rightarrow> Inr (insn\<lparr>dst := Some aa\<rparr>, [])
         | _ \<Rightarrow> bindE (branch_target pc (sint (ucast aa :: byte)))
                   (\<lambda>t. Inr (insn\<lparr>target := Some t\<rparr>, [])))"

text \<open>The literal of \<open>const/high16\<close> and \<open>const-wide/high16\<close>.\<close>

definition high16_literal :: "Opcode \<Rightarrow> u16 \<Rightarrow> int" where
  "high16_literal op u1 =
     (if op = ConstHigh16 then sint (push_bit 16 (ucast u1 :: u32))
      else if op = ConstWideHigh16 then sint (push_bit 48 (ucast u1 :: u64))
      else uint u1)"

text \<open>Two units: \<open>20t\<close>, \<open>22x\<close>, \<open>21t\<close>, \<open>21s\<close>, \<open>21h\<close>, \<open>21c\<close>, \<open>23x\<close>, \<open>22t\<close>, \<open>22s\<close>, \<open>22c\<close>, \<open>22b\<close>.\<close>

definition decode_units2 ::
  "(nat \<Rightarrow> DexError + u16) \<Rightarrow> InsnFormat \<Rightarrow> u32 \<Rightarrow> Opcode \<Rightarrow> u16 \<Rightarrow> Instruction \<Rightarrow> decoded" where
  "decode_units2 rd fmt pc op u0 insn =
     bindE (rd 1) (\<lambda>u1.
      let aa = unit_aa u0; a_nibble = unit_a u0; b_nibble = unit_b u0
      in case fmt of
           F20t \<Rightarrow> bindE (branch_target pc (sint u1)) (\<lambda>t. Inr (insn\<lparr>target := Some t\<rparr>, []))
         | F22x \<Rightarrow> Inr (insn\<lparr>dst := Some aa, src := reg_one u1\<rparr>, [])
         | F21t \<Rightarrow> bindE (branch_target pc (sint u1))
                    (\<lambda>t. Inr (insn\<lparr>dst := Some aa, target := Some t\<rparr>, []))
         | F21s \<Rightarrow> Inr (insn\<lparr>dst := Some aa, literal := sint u1\<rparr>, [])
         | F21h \<Rightarrow> Inr (insn\<lparr>dst := Some aa, literal := high16_literal op u1\<rparr>, [])
         | F21c \<Rightarrow> Inr (insn\<lparr>dst := Some aa, pool_idx := Some (classify_pool_21c op (ucast u1))\<rparr>, [])
         | F23x \<Rightarrow> Inr (insn\<lparr>dst := Some aa, src := reg_two (low8 u1) (high8 u1)\<rparr>, [])
         | F22t \<Rightarrow> bindE (branch_target pc (sint u1))
                    (\<lambda>t. Inr (insn\<lparr>src := reg_two a_nibble b_nibble, target := Some t\<rparr>, []))
         | F22s \<Rightarrow> Inr (insn\<lparr>dst := Some a_nibble, src := reg_one b_nibble, literal := sint u1\<rparr>, [])
         | F22c \<Rightarrow> Inr (insn\<lparr>dst := Some a_nibble, src := reg_one b_nibble,
                           pool_idx := Some (classify_pool_22c op (ucast u1))\<rparr>, [])
         | _ \<Rightarrow> Inr (insn\<lparr>dst := Some aa, src := reg_one (low8 u1),
                        literal := sint (ucast (high8 u1) :: byte)\<rparr>, []))"

text \<open>Three units without registers in the third: \<open>30t\<close>, \<open>32x\<close>, \<open>31i\<close>, \<open>31t\<close>, \<open>31c\<close>.\<close>

definition decode_units3 ::
  "(nat \<Rightarrow> DexError + u16) \<Rightarrow> InsnFormat \<Rightarrow> u32 \<Rightarrow> u16 \<Rightarrow> Instruction \<Rightarrow> decoded" where
  "decode_units3 rd fmt pc u0 insn =
     bindE (rd 1) (\<lambda>u1. bindE (rd 2) (\<lambda>u2.
      let aa = unit_aa u0; w = join_units u1 u2
      in case fmt of
           F30t \<Rightarrow> bindE (branch_target pc (sint w)) (\<lambda>t. Inr (insn\<lparr>target := Some t\<rparr>, []))
         | F32x \<Rightarrow> Inr (insn\<lparr>dst := Some u1, src := reg_one u2\<rparr>, [])
         | F31i \<Rightarrow> Inr (insn\<lparr>dst := Some aa, literal := sint w\<rparr>, [])
         | F31t \<Rightarrow> bindE (branch_target pc (sint w))
                    (\<lambda>t. Inr (insn\<lparr>dst := Some aa, target := Some t\<rparr>, []))
         | _ \<Rightarrow> Inr (insn\<lparr>dst := Some aa, pool_idx := Some (PString (StringIdx w))\<rparr>, [])))"

text \<open>The register set of \<open>35c\<close> and \<open>45cc\<close>: at most five of \<open>C D E F G\<close>.\<close>

definition vararg_regs :: "u16 \<Rightarrow> u16 \<Rightarrow> RegList" where
  "vararg_regs u0 u2 =
     (let count = min (unat (unit_b u0)) 5;
          all = [nibble 0 u2, nibble 1 u2, nibble 2 u2, nibble 3 u2, unit_a u0]
      in \<lparr>regs = take count all @ drop count (regs reg_empty), reg_len = count\<rparr>)"

definition vararg_violations :: "Opcode \<Rightarrow> u32 \<Rightarrow> u16 \<Rightarrow> CodeItemInvariantViolation list" where
  "vararg_violations op pc u0 =
     (if unit_b u0 > 5 then [OpcodeArgCountOutOfRange op pc (ucast (unit_b u0)) 5] else [])"

definition decode_35c ::
  "(nat \<Rightarrow> DexError + u16) \<Rightarrow> u32 \<Rightarrow> Opcode \<Rightarrow> u16 \<Rightarrow> Instruction \<Rightarrow> decoded" where
  "decode_35c rd pc op u0 insn =
     bindE (rd 1) (\<lambda>u1. bindE (rd 2) (\<lambda>u2.
       Inr (insn\<lparr>src := vararg_regs u0 u2, pool_idx := Some (classify_pool_35c op (ucast u1))\<rparr>,
            vararg_violations op pc u0)))"

definition decode_45cc ::
  "(nat \<Rightarrow> DexError + u16) \<Rightarrow> u32 \<Rightarrow> Opcode \<Rightarrow> u16 \<Rightarrow> Instruction \<Rightarrow> decoded" where
  "decode_45cc rd pc op u0 insn =
     bindE (rd 1) (\<lambda>u1. bindE (rd 2) (\<lambda>u2. bindE (rd 3) (\<lambda>u3.
       Inr (insn\<lparr>src := vararg_regs u0 u2,
                 pool_idx := Some (PMethodAndProto (MethodIdx (ucast u1)) (ProtoIdx (ucast u3)))\<rparr>,
            vararg_violations op pc u0))))"

text \<open>The loop that fills the register list of a range: \<open>start_reg.checked_add(i)\<close> for each slot.\<close>

primrec fill_range :: "u32 \<Rightarrow> string \<Rightarrow> u16 \<Rightarrow> nat \<Rightarrow> u16 list \<Rightarrow> DexError + u16 list" where
  "fill_range pc what start_reg 0 rs = Inr rs"
| "fill_range pc what start_reg (Suc i) rs =
     bindE (fill_range pc what start_reg i rs) (\<lambda>rs'.
       if unat start_reg + i < 2 ^ 16 then Inr (rs'[i := start_reg + of_nat i])
       else Inl (InvalidInstruction pc what))"

definition decode_3rc ::
  "(nat \<Rightarrow> DexError + u16) \<Rightarrow> u32 \<Rightarrow> Opcode \<Rightarrow> u16 \<Rightarrow> Instruction \<Rightarrow> decoded" where
  "decode_3rc rd pc op u0 insn =
     bindE (rd 1) (\<lambda>u1. bindE (rd 2) (\<lambda>u2.
       let arg_count = unit_aa u0; count = min (unat arg_count) 5
       in bindE (fill_range pc ''start_reg overflow in F3rc'' u2 count ((regs reg_empty)[0 := u2]))
            (\<lambda>rs. Inr (insn\<lparr>src := \<lparr>regs = rs, reg_len = count\<rparr>, literal := uint arg_count,
                           pool_idx := Some (classify_pool_3rc op (ucast u1))\<rparr>, []))))"

definition decode_4rcc ::
  "(nat \<Rightarrow> DexError + u16) \<Rightarrow> u32 \<Rightarrow> u16 \<Rightarrow> Instruction \<Rightarrow> decoded" where
  "decode_4rcc rd pc u0 insn =
     bindE (rd 1) (\<lambda>u1. bindE (rd 2) (\<lambda>u2. bindE (rd 3) (\<lambda>u3.
       let arg_count = unit_aa u0; count = min (unat arg_count) 5
       in bindE (fill_range pc ''start_reg overflow in F4rcc'' u2 count (regs reg_empty))
            (\<lambda>rs. Inr (insn\<lparr>src := \<lparr>regs = rs, reg_len = count\<rparr>, literal := uint arg_count,
                 pool_idx := Some (PMethodAndProto (MethodIdx (ucast u1)) (ProtoIdx (ucast u3)))\<rparr>, [])))))"

definition decode_51l :: "(nat \<Rightarrow> DexError + u16) \<Rightarrow> u16 \<Rightarrow> Instruction \<Rightarrow> decoded" where
  "decode_51l rd u0 insn =
     bindE (rd 1) (\<lambda>u1. bindE (rd 2) (\<lambda>u2. bindE (rd 3) (\<lambda>u3. bindE (rd 4) (\<lambda>u4.
       Inr (insn\<lparr>dst := Some (unit_aa u0), literal := sint (join_long u1 u2 u3 u4)\<rparr>, [])))))"

definition decode_format ::
  "(nat \<Rightarrow> DexError + u16) \<Rightarrow> u32 \<Rightarrow> Opcode \<Rightarrow> u16 \<Rightarrow> decoded" where
  "decode_format rd pc op u0 =
     (let fmt = insn_format op; insn = blank_insn pc op
      in if fmt \<in> set [F10x, F12x, F11n, F11x, F10t] then decode_units1 fmt pc u0 insn
         else if fmt \<in> set [F20t, F22x, F21t, F21s, F21h, F21c, F23x, F22t, F22s, F22c, F22b]
           then decode_units2 rd fmt pc op u0 insn
         else if fmt \<in> set [F30t, F32x, F31i, F31t, F31c] then decode_units3 rd fmt pc u0 insn
         else if fmt = F35c then decode_35c rd pc op u0 insn
         else if fmt = F3rc then decode_3rc rd pc op u0 insn
         else if fmt = F45cc then decode_45cc rd pc op u0 insn
         else if fmt = F4rcc then decode_4rcc rd pc u0 insn
         else decode_51l rd u0 insn)"

definition decode_single :: "deps \<Rightarrow> byte list \<Rightarrow> nat \<Rightarrow> u32 \<Rightarrow> Opcode \<Rightarrow> decoded" where
  "decode_single D data insns_off pc op =
     bindE (read_unit D data insns_off pc 0)
       (decode_format (read_unit D data insns_off pc) pc op)"

section \<open>Payload tables\<close>

definition SWITCH_TARGET_SIZE :: nat where "SWITCH_TARGET_SIZE = 4"

text \<open>The loops over a table: one 32-bit word per entry, from \<open>base\<close>.\<close>

definition read_word_at :: "deps \<Rightarrow> byte list \<Rightarrow> nat \<Rightarrow> string \<Rightarrow> string \<Rightarrow> nat \<Rightarrow> DexError + u32" where
  "read_word_at D data base mul_ctx add_ctx i =
     bindE (safe_mul i 4 mul_ctx) (\<lambda>i4. bindE (safe_add base i4 add_ctx) (read_u32 D data))"

definition decode_packed_switch :: "deps \<Rightarrow> byte list \<Rightarrow> nat \<Rightarrow> u32 \<Rightarrow> u32 \<Rightarrow> DexError + PayloadData" where
  "decode_packed_switch D data insns_off payload_pc switch_pc =
     bindE (read_unit D data insns_off payload_pc 1) (\<lambda>size_raw.
     bindE (bound_count D (ucast size_raw) SWITCH_TARGET_SIZE (length data) ''packed_switch_targets'') (\<lambda>size.
     bindE (safe_mul (unat payload_pc) 2 ''decode_packed_switch:payload_pc*2'') (\<lambda>payload_off.
     bindE (safe_add insns_off payload_off ''decode_packed_switch:base'') (\<lambda>base.
     bindE (safe_add base 4 ''decode_packed_switch:first_key_off'') (\<lambda>key_off.
     bindE (read_u32 D data key_off) (\<lambda>first_key.
     bindE (safe_add base 8 ''decode_packed_switch:base+8'') (\<lambda>base8.
     bindE (mapE (\<lambda>i. bindE (read_word_at D data base8 ''decode_packed_switch:i*4'' ''decode_packed_switch:off'' i)
                   (\<lambda>rel. branch_target switch_pc (sint rel))) [0..<size]) (\<lambda>targets.
     Inr (PackedSwitchData first_key targets)))))))))"

definition decode_sparse_switch :: "deps \<Rightarrow> byte list \<Rightarrow> nat \<Rightarrow> u32 \<Rightarrow> u32 \<Rightarrow> DexError + PayloadData" where
  "decode_sparse_switch D data insns_off payload_pc switch_pc =
     bindE (read_unit D data insns_off payload_pc 1) (\<lambda>size_raw.
     bindE (bound_count D (ucast size_raw) (SWITCH_TARGET_SIZE * 2) (length data) ''sparse_switch_entries'') (\<lambda>size.
     bindE (safe_mul (unat payload_pc) 2 ''decode_sparse_switch:payload_pc*2'') (\<lambda>payload_off.
     bindE (safe_add insns_off payload_off ''decode_sparse_switch:base'') (\<lambda>base.
     bindE (safe_add base 4 ''decode_sparse_switch:base+4'') (\<lambda>base4.
     bindE (mapE (read_word_at D data base4 ''decode_sparse_switch:keys_i*4'' ''decode_sparse_switch:keys_off'')
             [0..<size]) (\<lambda>keys.
     bindE (safe_mul size 4 ''decode_sparse_switch:size*4'') (\<lambda>size4.
     bindE (safe_add base4 size4 ''decode_sparse_switch:targets_base'') (\<lambda>targets_base.
     bindE (mapE (\<lambda>i. bindE (read_word_at D data targets_base ''decode_sparse_switch:targets_i*4''
                               ''decode_sparse_switch:targets_off'' i)
                   (\<lambda>rel. branch_target switch_pc (sint rel))) [0..<size]) (\<lambda>targets.
     Inr (SparseSwitchData keys targets))))))))))"

definition decode_fill_array_data :: "deps \<Rightarrow> byte list \<Rightarrow> nat \<Rightarrow> u32 \<Rightarrow> DexError + PayloadData" where
  "decode_fill_array_data D data insns_off payload_pc =
     bindE (read_unit D data insns_off payload_pc 1) (\<lambda>element_width.
     if element_width \<notin> {1, 2, 4, 8}
     then Inl (InvalidInstruction payload_pc ''fill-array-data: element_width'')
     else
     bindE (safe_mul (unat payload_pc) 2 ''decode_fill_array_data:payload_pc*2'') (\<lambda>payload_off.
     bindE (safe_add insns_off payload_off ''decode_fill_array_data:base'') (\<lambda>base.
     bindE (safe_add base 4 ''decode_fill_array_data:size_off'') (\<lambda>size_off.
     bindE (read_u32 D data size_off) (\<lambda>size.
     bindE (safe_add base 8 ''decode_fill_array_data:data_off'') (\<lambda>data_off.
     bindE (safe_mul (unat size) (unat element_width) ''decode_fill_array_data:byte_count'') (\<lambda>byte_count.
     bindE (safe_add data_off byte_count ''decode_fill_array_data:end'') (\<lambda>end.
     if end > length data then Inl (Truncated data_off byte_count (length data - data_off))
     else Inr (FillArrayDataPayload element_width
            (case get_range data data_off end of Some p \<Rightarrow> p | None \<Rightarrow> []))))))))))"

end
