(* ===== verification/Dex_Emit_Insn.thy ===== *)
theory Dex_Emit_Insn
  imports Dex_Decode
begin

text \<open>
  Emission of one instruction and of the payload tables (\<open>src/src/emit_dex.rs\<close>, from \<open>push_u16\<close> to
  \<open>emit_payload\<close>). Every arm of
  \<open>emit_instruction\<close> makes its checks before it writes, so an instruction is given by the code
  units it appends.
\<close>

section \<open>Operand fields\<close>

definition branch_offset :: "u32 \<Rightarrow> u32 \<Rightarrow> int" where
  "branch_offset tgt pc = uint tgt - uint pc"

definition dst_u4 :: "Instruction \<Rightarrow> DexEmitError + u16" where
  "dst_u4 insn =
     bindE (ok_or (dst insn) (UnrepresentableIR ''instruction format requires dst register but IR has none'')) (\<lambda>d.
     if d > 0x0F then Inl (UnrepresentableIR ''4-bit register field overflow: dst > 0x0F (instruction format violation)'')
     else Inr d)"

definition dst_u8 :: "Instruction \<Rightarrow> DexEmitError + u16" where
  "dst_u8 insn =
     bindE (ok_or (dst insn) (UnrepresentableIR ''instruction format requires dst register but IR has none'')) (\<lambda>d.
     if d > 0xFF then Inl (UnrepresentableIR ''8-bit register field overflow: dst > 0xFF'') else Inr d)"

definition src_u16 :: "Instruction \<Rightarrow> nat \<Rightarrow> DexEmitError + u16" where
  "src_u16 insn slot =
     ok_or (get_at (reg_as_slice (src insn)) slot)
       (UnrepresentableIR ''instruction format requires src register that IR RegList does not provide'')"

definition src_u4 :: "Instruction \<Rightarrow> nat \<Rightarrow> DexEmitError + u16" where
  "src_u4 insn slot =
     bindE (ok_or (get_at (reg_as_slice (src insn)) slot)
       (UnrepresentableIR ''instruction format requires src register that IR RegList does not provide'')) (\<lambda>s.
     if s > 0x0F then Inl (UnrepresentableIR ''4-bit register field overflow: src > 0x0F'') else Inr s)"

definition src_u8 :: "Instruction \<Rightarrow> nat \<Rightarrow> DexEmitError + u16" where
  "src_u8 insn slot =
     bindE (ok_or (get_at (reg_as_slice (src insn)) slot)
       (UnrepresentableIR ''instruction format requires src register that IR RegList does not provide'')) (\<lambda>s.
     if s > 0xFF then Inl (UnrepresentableIR ''8-bit register field overflow: src > 0xFF'') else Inr s)"

definition literal_i4 :: "Instruction \<Rightarrow> DexEmitError + u16" where
  "literal_i4 insn =
     (if literal insn < - 8 \<or> literal insn > 7
      then Inl (UnrepresentableIR ''const/4: literal out of 4-bit signed range (-8..=7)'')
      else Inr (ucast ((word_of_int (literal insn) :: byte) AND 0x0F)))"

definition literal_i8_as_u8 :: "Instruction \<Rightarrow> DexEmitError + byte" where
  "literal_i8_as_u8 insn =
     (if literal insn < - 128 \<or> literal insn > 127
      then Inl (UnrepresentableIR ''8-bit signed literal out of range (i8::MIN..=i8::MAX)'')
      else Inr (word_of_int (literal insn)))"

definition literal_i16_as_u16 :: "Instruction \<Rightarrow> DexEmitError + u16" where
  "literal_i16_as_u16 insn =
     (if literal insn < - 32768 \<or> literal insn > 32767
      then Inl (UnrepresentableIR ''16-bit signed literal out of range (i16::MIN..=i16::MAX)'')
      else Inr (word_of_int (literal insn)))"

definition literal_i32 :: "Instruction \<Rightarrow> DexEmitError + u32" where
  "literal_i32 insn =
     (if literal insn < - 2147483648 \<or> literal insn > 2147483647
      then Inl (UnrepresentableIR ''32-bit signed literal out of range (i32::MIN..=i32::MAX)'')
      else Inr (word_of_int (literal insn)))"

primrec pool_number :: "PoolIndex \<Rightarrow> u32" where
  "pool_number (PString s) = un_StringIdx s"
| "pool_number (PType t) = un_TypeIdx t"
| "pool_number (PField f) = un_FieldIdx f"
| "pool_number (PMethod m) = un_MethodIdx m"
| "pool_number (PMethodAndProto m p) = un_MethodIdx m"
| "pool_number (PCallSite c) = un_CallSiteIdx c"

definition pool_u32 :: "Instruction \<Rightarrow> DexEmitError + u32" where
  "pool_u32 insn =
     bindE (ok_or (pool_idx insn) (UnrepresentableIR ''instruction format requires pool index but IR has none''))
       (\<lambda>p. Inr (pool_number p))"

text \<open>\<open>u16::try_from\<close> on a \<open>u32\<close>.\<close>

definition try_u16 :: "u32 \<Rightarrow> 'e \<Rightarrow> 'e + u16" where
  "try_u16 w e = (if unat w < 2 ^ 16 then Inr (ucast w) else Inl e)"

definition pool_u16 :: "Instruction \<Rightarrow> DexEmitError + u16" where
  "pool_u16 insn =
     bindE (pool_u32 insn) (\<lambda>idx. try_u16 idx
       (UnrepresentableIR ''pool index exceeds u16 but instruction format is 16-bit (use jumbo form?)''))"

definition pool_proto_u16 :: "Instruction \<Rightarrow> DexEmitError + u16" where
  "pool_proto_u16 insn =
     bindE (ok_or (pool_idx insn) (UnrepresentableIR ''F45cc/F4rcc instruction missing pool index'')) (\<lambda>p.
     case p of PMethodAndProto _ proto \<Rightarrow>
         try_u16 (un_ProtoIdx proto) (UnrepresentableIR ''call-site proto_idx exceeds u16'')
     | _ \<Rightarrow> Inl (UnrepresentableIR ''F45cc/F4rcc instruction must carry MethodAndProto pool index''))"

definition branch_i8_as_u8 :: "u32 \<Rightarrow> u32 \<Rightarrow> DexEmitError + byte" where
  "branch_i8_as_u8 tgt pc =
     (let diff = branch_offset tgt pc
      in if \<not> (- 128 \<le> diff \<and> diff \<le> 127)
         then Inl (OffsetOverflow ''instruction_branch'' ''8-bit branch offset out of range (use goto/16 or goto/32)'')
         else Inr (word_of_int diff))"

definition branch_i16_as_u16 :: "u32 \<Rightarrow> u32 \<Rightarrow> DexEmitError + u16" where
  "branch_i16_as_u16 tgt pc =
     (let diff = branch_offset tgt pc
      in if \<not> (- 32768 \<le> diff \<and> diff \<le> 32767)
         then Inl (OffsetOverflow ''instruction_branch'' ''16-bit branch offset out of range (use goto/32)'')
         else Inr (word_of_int diff))"

definition branch_i32 :: "u32 \<Rightarrow> u32 \<Rightarrow> DexEmitError + u32" where
  "branch_i32 tgt pc =
     (let diff = branch_offset tgt pc
      in if - 2147483648 \<le> diff \<and> diff \<le> 2147483647 then Inr (word_of_int diff)
         else Inl (OffsetOverflow ''instruction_branch''
           ''32-bit branch offset overflow (target and pc more than 2^31 code units apart)''))"

definition target_or :: "Instruction \<Rightarrow> string \<Rightarrow> DexEmitError + u32" where
  "target_or insn why = ok_or (target insn) (UnrepresentableIR why)"

section \<open>One instruction\<close>

type_synonym units = "DexEmitError + u16 list"

text \<open>First units: an opcode byte alone, with \<open>AA\<close>, and with the nibbles \<open>A\<close> and \<open>B\<close>.\<close>

definition op_aa :: "byte \<Rightarrow> u16 \<Rightarrow> u16" where
  "op_aa op_byte aa = ucast op_byte OR push_bit 8 aa"

definition op_a_b :: "byte \<Rightarrow> u16 \<Rightarrow> u16 \<Rightarrow> u16" where
  "op_a_b op_byte a b = ucast op_byte OR push_bit 8 a OR push_bit 12 b"

text \<open>Two bytes, and four nibbles, in one unit.\<close>

definition byte_pair :: "u16 \<Rightarrow> u16 \<Rightarrow> u16" where "byte_pair x y = x OR push_bit 8 y"
definition nibbles4 :: "u16 \<Rightarrow> u16 \<Rightarrow> u16 \<Rightarrow> u16 \<Rightarrow> u16" where
  "nibbles4 c d e f = c OR push_bit 4 d OR push_bit 8 e OR push_bit 12 f"

definition lo16 :: "u32 \<Rightarrow> u16" where "lo16 w = ucast (w AND 0xFFFF)"
definition hi16 :: "u32 \<Rightarrow> u16" where "hi16 w = ucast (drop_bit 16 w AND 0xFFFF)"

definition emit_units1 :: "InsnFormat \<Rightarrow> Instruction \<Rightarrow> units" where
  "emit_units1 fmt insn =
     (let op_byte = to_u8 (insn_op insn); pc = addr insn
      in case fmt of
           F10x \<Rightarrow> Inr [ucast op_byte]
         | F12x \<Rightarrow> bindE (dst_u4 insn) (\<lambda>a. bindE (src_u4 insn 0) (\<lambda>b. Inr [op_a_b op_byte a b]))
         | F11n \<Rightarrow> bindE (dst_u4 insn) (\<lambda>a. bindE (literal_i4 insn) (\<lambda>b. Inr [op_a_b op_byte a b]))
         | F11x \<Rightarrow> bindE (dst_u8 insn) (\<lambda>aa. Inr [op_aa op_byte aa])
         | _ \<Rightarrow> bindE (target_or insn ''goto: missing branch target'') (\<lambda>t.
                bindE (branch_i8_as_u8 t pc) (\<lambda>off. Inr [op_aa op_byte (ucast off)])))"

text \<open>The significant unit of \<open>const/high16\<close> and \<open>const-wide/high16\<close>.\<close>

definition high16_unit :: "Instruction \<Rightarrow> DexEmitError + u16" where
  "high16_unit insn =
     (if insn_op insn = ConstHigh16 then
        if (literal insn AND 0xFFFF) \<noteq> 0 then Inl (UnrepresentableIR ''const/high16: low 16 bits must be zero'')
        else if literal insn < - 2147483648 \<or> literal insn > 2147483647
          then Inl (UnrepresentableIR ''const/high16: literal out of i32 range'')
        else Inr (word_of_int (drop_bit 16 (literal insn)))
      else if insn_op insn = ConstWideHigh16 then
        if (literal insn AND 0xFFFFFFFFFFFF) \<noteq> 0
        then Inl (UnrepresentableIR ''const-wide/high16: low 48 bits must be zero'')
        else Inr (word_of_int (drop_bit 48 (literal insn)))
      else Inl (UnrepresentableIR ''F21h format reached for opcode that isn't const/high16 or const-wide/high16''))"

definition emit_units2 :: "InsnFormat \<Rightarrow> Instruction \<Rightarrow> units" where
  "emit_units2 fmt insn =
     (let op_byte = to_u8 (insn_op insn); pc = addr insn
      in case fmt of
           F20t \<Rightarrow> bindE (target_or insn ''goto/16: missing branch target'') (\<lambda>t.
                   bindE (branch_i16_as_u16 t pc) (\<lambda>off. Inr [ucast op_byte, off]))
         | F22x \<Rightarrow> bindE (dst_u8 insn) (\<lambda>aa. bindE (src_u16 insn 0) (\<lambda>b. Inr [op_aa op_byte aa, b]))
         | F21t \<Rightarrow> bindE (dst_u8 insn) (\<lambda>aa. bindE (target_or insn ''21t: missing branch target'') (\<lambda>t.
                   bindE (branch_i16_as_u16 t pc) (\<lambda>off. Inr [op_aa op_byte aa, off])))
         | F21s \<Rightarrow> bindE (dst_u8 insn) (\<lambda>aa. bindE (literal_i16_as_u16 insn) (\<lambda>lit. Inr [op_aa op_byte aa, lit]))
         | F21h \<Rightarrow> bindE (dst_u8 insn) (\<lambda>aa. bindE (high16_unit insn) (\<lambda>u. Inr [op_aa op_byte aa, u]))
         | F21c \<Rightarrow> bindE (dst_u8 insn) (\<lambda>aa. bindE (pool_u16 insn) (\<lambda>idx. Inr [op_aa op_byte aa, idx]))
         | F23x \<Rightarrow> bindE (dst_u8 insn) (\<lambda>aa. bindE (src_u8 insn 0) (\<lambda>bb. bindE (src_u8 insn 1) (\<lambda>cc.
                   Inr [op_aa op_byte aa, byte_pair bb cc])))
         | F22t \<Rightarrow> bindE (src_u4 insn 0) (\<lambda>a. bindE (src_u4 insn 1) (\<lambda>b.
                   bindE (target_or insn ''22t: missing branch target'') (\<lambda>t.
                   bindE (branch_i16_as_u16 t pc) (\<lambda>off. Inr [op_a_b op_byte a b, off]))))
         | F22s \<Rightarrow> bindE (dst_u4 insn) (\<lambda>a. bindE (src_u4 insn 0) (\<lambda>b. bindE (literal_i16_as_u16 insn) (\<lambda>lit.
                   Inr [op_a_b op_byte a b, lit])))
         | F22c \<Rightarrow> bindE (dst_u4 insn) (\<lambda>a. bindE (src_u4 insn 0) (\<lambda>b. bindE (pool_u16 insn) (\<lambda>idx.
                   Inr [op_a_b op_byte a b, idx])))
         | _ \<Rightarrow> bindE (dst_u8 insn) (\<lambda>aa. bindE (src_u8 insn 0) (\<lambda>bb. bindE (literal_i8_as_u8 insn) (\<lambda>cc.
                   Inr [op_aa op_byte aa, byte_pair bb (ucast cc)]))))"

definition emit_units3 :: "InsnFormat \<Rightarrow> Instruction \<Rightarrow> units" where
  "emit_units3 fmt insn =
     (let op_byte = to_u8 (insn_op insn); pc = addr insn
      in case fmt of
           F30t \<Rightarrow> bindE (target_or insn ''goto/32: missing branch target'') (\<lambda>t.
                   bindE (branch_i32 t pc) (\<lambda>off. Inr [ucast op_byte, lo16 off, hi16 off]))
         | F32x \<Rightarrow> bindE (ok_or (dst insn) (UnrepresentableIR ''F32x: missing dst register'')) (\<lambda>d.
                   bindE (src_u16 insn 0) (\<lambda>s. Inr [ucast op_byte, d, s]))
         | F31i \<Rightarrow> bindE (dst_u8 insn) (\<lambda>aa. bindE (literal_i32 insn) (\<lambda>lit.
                   Inr [op_aa op_byte aa, lo16 lit, hi16 lit]))
         | F31t \<Rightarrow> bindE (dst_u8 insn) (\<lambda>aa. bindE (target_or insn ''31t: missing payload target'') (\<lambda>t.
                   bindE (branch_i32 t pc) (\<lambda>off. Inr [op_aa op_byte aa, lo16 off, hi16 off])))
         | _ \<Rightarrow> bindE (dst_u8 insn) (\<lambda>aa. bindE (pool_u32 insn) (\<lambda>idx.
                   Inr [op_aa op_byte aa, lo16 idx, hi16 idx])))"

text \<open>The registers of \<open>35c\<close> and \<open>45cc\<close>: the nibble \<open>G\<close>, checked first, then \<open>C D E F\<close>.\<close>

definition slot_u4 :: "Instruction \<Rightarrow> bool \<Rightarrow> nat \<Rightarrow> DexEmitError + u16" where
  "slot_u4 insn present slot = (if present then src_u4 insn slot else Inr 0)"

definition cdef_unit :: "Instruction \<Rightarrow> nat \<Rightarrow> DexEmitError + u16" where
  "cdef_unit insn arg_count =
     bindE (slot_u4 insn (arg_count > 0) 0) (\<lambda>c. bindE (slot_u4 insn (arg_count > 1) 1) (\<lambda>d.
     bindE (slot_u4 insn (arg_count > 2) 2) (\<lambda>e. bindE (slot_u4 insn (arg_count > 3) 3) (\<lambda>f.
     Inr (nibbles4 c d e f)))))"

definition emit_35c :: "Instruction \<Rightarrow> units" where
  "emit_35c insn =
     (let op_byte = to_u8 (insn_op insn); arg_count = reg_len (src insn)
      in if arg_count > 5 then Inl (UnrepresentableIR ''F35c: arg_count > 5 (use invoke/range for > 5 args)'')
         else bindE (slot_u4 insn (arg_count = 5) 4) (\<lambda>g. bindE (pool_u16 insn) (\<lambda>idx.
              bindE (cdef_unit insn arg_count) (\<lambda>u2.
              Inr [op_a_b op_byte g (of_nat arg_count), idx, u2]))))"

definition emit_45cc :: "Instruction \<Rightarrow> units" where
  "emit_45cc insn =
     (let op_byte = to_u8 (insn_op insn); arg_count = reg_len (src insn)
      in if arg_count > 5
         then Inl (UnrepresentableIR ''F45cc: arg_count > 5 (use invoke-polymorphic/range for > 5 args)'')
         else bindE (slot_u4 insn (arg_count = 5) 4) (\<lambda>g. bindE (pool_u16 insn) (\<lambda>method_idx.
              bindE (pool_proto_u16 insn) (\<lambda>proto_idx. bindE (cdef_unit insn arg_count) (\<lambda>u2.
              Inr [op_a_b op_byte g (of_nat arg_count), method_idx, u2, proto_idx])))))"

definition emit_3rc :: "Instruction \<Rightarrow> units" where
  "emit_3rc insn =
     (if literal insn < 0 \<or> literal insn > 255
      then Inl (UnrepresentableIR ''F3rc: arg_count out of u8 range (stored in insn.literal)'')
      else bindE (pool_u16 insn) (\<lambda>idx.
        Inr [op_aa (to_u8 (insn_op insn)) (word_of_int (literal insn)), idx, reg_raw_at (src insn) 0]))"

definition emit_4rcc :: "Instruction \<Rightarrow> units" where
  "emit_4rcc insn =
     (if literal insn < 0 \<or> literal insn > 255
      then Inl (UnrepresentableIR ''F4rcc: arg_count out of u8 range (stored in insn.literal)'')
      else bindE (pool_u16 insn) (\<lambda>method_idx. bindE (pool_proto_u16 insn) (\<lambda>proto_idx.
           bindE (if reg_is_empty (src insn) then Inr 0 else src_u16 insn 0) (\<lambda>start_reg.
           Inr [op_aa (to_u8 (insn_op insn)) (word_of_int (literal insn)), method_idx, start_reg, proto_idx]))))"

definition emit_51l :: "Instruction \<Rightarrow> units" where
  "emit_51l insn =
     bindE (dst_u8 insn) (\<lambda>aa.
       let lit = (word_of_int (literal insn) :: u64)
       in Inr [op_aa (to_u8 (insn_op insn)) aa, ucast (lit AND 0xFFFF), ucast (drop_bit 16 lit AND 0xFFFF),
               ucast (drop_bit 32 lit AND 0xFFFF), ucast (drop_bit 48 lit AND 0xFFFF)])"

definition emit_units :: "Instruction \<Rightarrow> units" where
  "emit_units insn =
     (let fmt = insn_format (insn_op insn)
      in if fmt \<in> set [F10x, F12x, F11n, F11x, F10t] then emit_units1 fmt insn
         else if fmt \<in> set [F20t, F22x, F21t, F21s, F21h, F21c, F23x, F22t, F22s, F22c, F22b]
           then emit_units2 fmt insn
         else if fmt \<in> set [F30t, F32x, F31i, F31t, F31c] then emit_units3 fmt insn
         else if fmt = F35c then emit_35c insn
         else if fmt = F3rc then emit_3rc insn
         else if fmt = F45cc then emit_45cc insn
         else if fmt = F4rcc then emit_4rcc insn
         else emit_51l insn)"

definition push_u16 :: "byte list \<Rightarrow> u16 \<Rightarrow> byte list" where
  "push_u16 out val = out @ u16_to_le val"

definition emit_instruction :: "byte list \<Rightarrow> Instruction \<Rightarrow> DexEmitError + byte list" where
  "emit_instruction out insn = bindE (emit_units insn) (\<lambda>us. Inr (foldl push_u16 out us))"

section \<open>Payload tables\<close>

fun first_violation :: "('a \<Rightarrow> 'a \<Rightarrow> bool) \<Rightarrow> nat \<Rightarrow> 'a list \<Rightarrow> nat option" where
  "first_violation bad i (x # y # zs) = (if bad x y then Some (i + 1) else first_violation bad (i + 1) (y # zs))"
| "first_violation bad i _ = None"

text \<open>\<open>StrictlyAscending::from_verified\<close> at \<open>i32\<close>: the index of the first pair out of order, or the keys.\<close>

definition strictly_ascending_from_verified :: "u32 list \<Rightarrow> nat + u32 list" where
  "strictly_ascending_from_verified inner =
     (case first_violation (\<lambda>a b. sint a \<ge> sint b) 0 inner of
        Some i \<Rightarrow> Inl i | None \<Rightarrow> Inr inner)"

definition emit_packed_switch_payload :: "u32 \<Rightarrow> u32 list \<Rightarrow> u32 \<Rightarrow> DexEmitError + byte list" where
  "emit_packed_switch_payload first_key targets switch_pc =
     (if length targets < 2 ^ 16 then
        bindE (mapE (\<lambda>t. branch_i32 t switch_pc) targets) (\<lambda>rels.
        Inr (u16_to_le 0x0100 @ u16_to_le (of_nat (length targets)) @ u32_to_le first_key
             @ words_to_le rels))
      else Inl (SizeOverflow ''packed_switch_payload'' ''target count exceeds u16''))"

definition emit_sparse_switch_payload :: "u32 list \<Rightarrow> u32 list \<Rightarrow> u32 \<Rightarrow> DexEmitError + byte list" where
  "emit_sparse_switch_payload keys targets switch_pc =
     (if length keys \<noteq> length targets
      then Inl (UnrepresentableIR ''sparse_switch_payload: keys.len() != targets.len()'')
      else if length keys < 2 ^ 16 then
        bindE (mapE (\<lambda>t. branch_i32 t switch_pc) targets) (\<lambda>rels.
        Inr (u16_to_le 0x0200 @ u16_to_le (of_nat (length keys)) @ words_to_le keys
             @ words_to_le rels))
      else Inl (SizeOverflow ''sparse_switch_payload'' ''entry count exceeds u16''))"

definition emit_fill_array_data_payload :: "u16 \<Rightarrow> byte list \<Rightarrow> DexEmitError + byte list" where
  "emit_fill_array_data_payload element_width data =
     (if element_width \<notin> {1, 2, 4, 8}
      then Inl (UnrepresentableIR ''fill_array_data_payload: element_width must be 1, 2, 4, or 8'')
      else if length data mod unat element_width \<noteq> 0
      then Inl (UnrepresentableIR ''fill_array_data_payload: data length is not a multiple of element_width'')
      else if length data div unat element_width < 2 ^ 32 then
        Inr (u16_to_le 0x0300 @ u16_to_le element_width
             @ u32_to_le (of_nat (length data div unat element_width))
             @ data @ (if length data mod 2 \<noteq> 0 then [0] else []))
      else Inl (SizeOverflow ''fill_array_data_payload'' ''element count exceeds u32''))"

definition emit_payload :: "PayloadData \<Rightarrow> u32 \<Rightarrow> DexEmitError + byte list" where
  "emit_payload payload switch_pc =
     (case payload of
        PackedSwitchData first_key targets \<Rightarrow> emit_packed_switch_payload first_key targets switch_pc
      | SparseSwitchData keys targets \<Rightarrow>
          (case strictly_ascending_from_verified keys of
             Inl _ \<Rightarrow> Inl (UnrepresentableIR ''sparse_switch payload: keys not strictly ascending'')
           | Inr keys' \<Rightarrow> emit_sparse_switch_payload keys' targets switch_pc)
      | FillArrayDataPayload element_width data \<Rightarrow> emit_fill_array_data_payload element_width data)"

end
