(* ===== verification/Dex_Insn_Codec.thy ===== *)
theory Dex_Insn_Codec
  imports Dex_Emit_Insn Dex_Header
begin

text \<open>
  The laws that connect the decoder of \<open>Dex_Decode\<close> with the emitter of \<open>Dex_Emit_Insn\<close>.
  \<open>insn_wf\<close> says which fields an instruction of each format has and how wide they are. The
  decoder only yields well-formed instructions, a well-formed instruction is emitted, and what is
  emitted is decoded back; likewise for the three payload tables.
\<close>

section \<open>Well-formed instructions\<close>

definition dst_in :: "u16 \<Rightarrow> Instruction \<Rightarrow> bool" where
  "dst_in k i = (case dst i of Some d \<Rightarrow> d \<le> k | None \<Rightarrow> False)"

definition src_one_in :: "u16 \<Rightarrow> Instruction \<Rightarrow> bool" where
  "src_one_in k i = (src i = reg_one (reg_raw_at (src i) 0) \<and> reg_raw_at (src i) 0 \<le> k)"

definition src_two_in :: "u16 \<Rightarrow> Instruction \<Rightarrow> bool" where
  "src_two_in k i = (src i = reg_two (reg_raw_at (src i) 0) (reg_raw_at (src i) 1)
     \<and> reg_raw_at (src i) 0 \<le> k \<and> reg_raw_at (src i) 1 \<le> k)"

definition target_in :: "int \<Rightarrow> int \<Rightarrow> Instruction \<Rightarrow> bool" where
  "target_in lo hi i = (case target i of Some t \<Rightarrow> lo \<le> branch_offset t (addr i) \<and> branch_offset t (addr i) \<le> hi
                        | None \<Rightarrow> False)"

definition pool_from :: "(Opcode \<Rightarrow> u32 \<Rightarrow> PoolIndex) \<Rightarrow> Instruction \<Rightarrow> bool" where
  "pool_from f i = (case pool_idx i of
      Some p \<Rightarrow> p = f (insn_op i) (pool_number p) \<and> unat (pool_number p) < 2 ^ 16 | None \<Rightarrow> False)"

definition pool_poly :: "Instruction \<Rightarrow> bool" where
  "pool_poly i = (case pool_idx i of
      Some (PMethodAndProto m p) \<Rightarrow> unat (un_MethodIdx m) < 2 ^ 16 \<and> unat (un_ProtoIdx p) < 2 ^ 16
    | _ \<Rightarrow> False)"

definition varargs_in :: "Instruction \<Rightarrow> bool" where
  "varargs_in i = (reg_len (src i) \<le> 5 \<and> length (regs (src i)) = 5
     \<and> list_all (\<lambda>r. r \<le> 0xF) (take (reg_len (src i)) (regs (src i)))
     \<and> drop (reg_len (src i)) (regs (src i)) = drop (reg_len (src i)) [0, 0, 0, 0, 0])"

text \<open>The register list of a range of \<open>n\<close> registers from \<open>r\<close>: the first five of them.\<close>

definition range_list :: "u16 \<Rightarrow> nat \<Rightarrow> u16 list \<Rightarrow> u16 list" where
  "range_list r n rs = map (\<lambda>i. r + of_nat i) [0..<n] @ drop n rs"

definition range_in :: "bool \<Rightarrow> Instruction \<Rightarrow> bool" where
  "range_in keep_start i = (0 \<le> literal i \<and> literal i \<le> 255
     \<and> reg_len (src i) = min (nat (literal i)) 5
     \<and> (let r = reg_raw_at (src i) 0; n = reg_len (src i)
        in unat r + (n - 1) < 2 ^ 16
         \<and> regs (src i) = range_list r n (if keep_start then [r, 0, 0, 0, 0] else [0, 0, 0, 0, 0])))"

definition insn_wf :: "Instruction \<Rightarrow> bool" where
  "insn_wf i =
    (insn_size i = format_size (insn_format (insn_op i)) \<and>
     (let no_dst = (dst i = None); no_src = (src i = reg_empty); no_lit = (literal i = 0);
          no_tgt = (target i = None); no_pool = (pool_idx i = None);
          lit = (\<lambda>lo hi. lo \<le> literal i \<and> literal i \<le> hi)
      in case insn_format (insn_op i) of
           F10x \<Rightarrow> no_dst \<and> no_src \<and> no_lit \<and> no_tgt \<and> no_pool
         | F12x \<Rightarrow> dst_in 0xF i \<and> src_one_in 0xF i \<and> no_lit \<and> no_tgt \<and> no_pool
         | F11n \<Rightarrow> dst_in 0xF i \<and> no_src \<and> lit (- 8) 7 \<and> no_tgt \<and> no_pool
         | F11x \<Rightarrow> dst_in 0xFF i \<and> no_src \<and> no_lit \<and> no_tgt \<and> no_pool
         | F10t \<Rightarrow> no_dst \<and> no_src \<and> no_lit \<and> target_in (- 128) 127 i \<and> no_pool
         | F20t \<Rightarrow> no_dst \<and> no_src \<and> no_lit \<and> target_in (- 32768) 32767 i \<and> no_pool
         | F22x \<Rightarrow> dst_in 0xFF i \<and> src_one_in 0xFFFF i \<and> no_lit \<and> no_tgt \<and> no_pool
         | F21t \<Rightarrow> dst_in 0xFF i \<and> no_src \<and> no_lit \<and> target_in (- 32768) 32767 i \<and> no_pool
         | F21s \<Rightarrow> dst_in 0xFF i \<and> no_src \<and> lit (- 32768) 32767 \<and> no_tgt \<and> no_pool
         | F21h \<Rightarrow> dst_in 0xFF i \<and> no_src \<and> no_tgt \<and> no_pool
                  \<and> (if insn_op i = ConstHigh16 then (literal i AND 0xFFFF) = 0 \<and> lit (- 2147483648) 2147483647
                     else (literal i AND 0xFFFFFFFFFFFF) = 0 \<and> lit (- (2 ^ 63)) (2 ^ 63 - 1))
         | F21c \<Rightarrow> dst_in 0xFF i \<and> no_src \<and> no_lit \<and> no_tgt \<and> pool_from classify_pool_21c i
         | F23x \<Rightarrow> dst_in 0xFF i \<and> src_two_in 0xFF i \<and> no_lit \<and> no_tgt \<and> no_pool
         | F22t \<Rightarrow> no_dst \<and> src_two_in 0xF i \<and> no_lit \<and> target_in (- 32768) 32767 i \<and> no_pool
         | F22s \<Rightarrow> dst_in 0xF i \<and> src_one_in 0xF i \<and> lit (- 32768) 32767 \<and> no_tgt \<and> no_pool
         | F22c \<Rightarrow> dst_in 0xF i \<and> src_one_in 0xF i \<and> no_lit \<and> no_tgt \<and> pool_from classify_pool_22c i
         | F22b \<Rightarrow> dst_in 0xFF i \<and> src_one_in 0xFF i \<and> lit (- 128) 127 \<and> no_tgt \<and> no_pool
         | F30t \<Rightarrow> no_dst \<and> no_src \<and> no_lit \<and> target_in (- 2147483648) 2147483647 i \<and> no_pool
         | F32x \<Rightarrow> dst_in 0xFFFF i \<and> src_one_in 0xFFFF i \<and> no_lit \<and> no_tgt \<and> no_pool
         | F31i \<Rightarrow> dst_in 0xFF i \<and> no_src \<and> lit (- 2147483648) 2147483647 \<and> no_tgt \<and> no_pool
         | F31t \<Rightarrow> dst_in 0xFF i \<and> no_src \<and> no_lit \<and> target_in (- 2147483648) 2147483647 i \<and> no_pool
         | F31c \<Rightarrow> dst_in 0xFF i \<and> no_src \<and> no_lit \<and> no_tgt
                  \<and> (case pool_idx i of Some (PString s) \<Rightarrow> True | _ \<Rightarrow> False)
         | F35c \<Rightarrow> no_dst \<and> varargs_in i \<and> no_lit \<and> no_tgt \<and> pool_from classify_pool_35c i
         | F3rc \<Rightarrow> no_dst \<and> range_in True i \<and> no_tgt \<and> pool_from classify_pool_3rc i
         | F45cc \<Rightarrow> no_dst \<and> varargs_in i \<and> no_lit \<and> no_tgt \<and> pool_poly i
         | F4rcc \<Rightarrow> no_dst \<and> range_in False i \<and> no_tgt \<and> pool_poly i
         | F51l \<Rightarrow> dst_in 0xFF i \<and> no_src \<and> lit (- (2 ^ 63)) (2 ^ 63 - 1) \<and> no_tgt \<and> no_pool))"

section \<open>Fields of a unit\<close>

lemma unit_fields:
  "aa \<le> 0xFF \<Longrightarrow> unit_aa (op_aa b aa) = aa"
  "x \<le> 0xF \<Longrightarrow> y \<le> 0xF \<Longrightarrow> unit_a (op_a_b b x y) = x"
  "x \<le> 0xF \<Longrightarrow> y \<le> 0xF \<Longrightarrow> unit_b (op_a_b b x y) = y"
  "op_aa b aa AND 0xFF = ucast b"
  "op_a_b b x y AND 0xFF = ucast b"
  "(ucast b :: u16) AND 0xFF = ucast b"
  by (rule bit_word_eqI; auto simp: unit_aa_def op_aa_def unit_a_def unit_b_def op_a_b_def bit_simps dest: le_mask_bits bit_byte_lt)+

lemma join_units_split [simp]: "join_units (lo16 w) (hi16 w) = w"
  by (rule bit_word_eqI) (auto simp: join_units_def lo16_def hi16_def bit_simps)

lemma join_long_split:
  "join_long (ucast (w AND 0xFFFF)) (ucast (drop_bit 16 w AND 0xFFFF))
     (ucast (drop_bit 32 w AND 0xFFFF)) (ucast (drop_bit 48 w AND 0xFFFF)) = w"
proof (rule bit_word_eqI)
  fix n assume "n < LENGTH(64)"
  then consider "n < 16" | "16 \<le> n" "n < 32" | "32 \<le> n" "n < 48" | "48 \<le> n" "n < 64" by fastforce
  then show "bit (join_long (ucast (w AND 0xFFFF)) (ucast (drop_bit 16 w AND 0xFFFF))
     (ucast (drop_bit 32 w AND 0xFFFF)) (ucast (drop_bit 48 w AND 0xFFFF))) n = bit w n"
    by cases (auto simp: join_long_def bit_simps)
qed

lemma two_bytes:
  "x \<le> 0xFF \<Longrightarrow> y \<le> 0xFF \<Longrightarrow> low8 (byte_pair x y) = x"
  "x \<le> 0xFF \<Longrightarrow> y \<le> 0xFF \<Longrightarrow> high8 (byte_pair x y) = y"
  by (rule bit_word_eqI; auto simp: low8_def high8_def byte_pair_def bit_simps dest: le_mask_bits)+

lemma four_nibbles:
  assumes "c \<le> 0xF" "d \<le> 0xF" "e \<le> 0xF" "f \<le> 0xF"
  shows "nibble 0 (nibbles4 c d e f) = c" "nibble 1 (nibbles4 c d e f) = d"
    "nibble 2 (nibbles4 c d e f) = e" "nibble 3 (nibbles4 c d e f) = f"
  by (rule bit_word_eqI;
      use assms in \<open>auto simp: nibble_def nibbles4_def bit_simps nibble_high_bits intro: le_mask_bits(1)\<close>)+

lemma branch_target_offset [simp]: "branch_target pc (branch_offset t pc) = Inr t"
  using uint_lt2p [of t] by (simp add: branch_target_def branch_offset_def)

lemma nibble_roundtrip:
  "- 8 \<le> l \<Longrightarrow> l \<le> 7 \<Longrightarrow> sign_extend_4bit_to_i64 (ucast ((word_of_int l :: byte) AND 0xF)) = l"
proof -
  assume "- 8 \<le> l" "l \<le> 7"
  then have "l = - 8 \<or> l = - 7 \<or> l = - 6 \<or> l = - 5 \<or> l = - 4 \<or> l = - 3 \<or> l = - 2 \<or> l = - 1
      \<or> l = 0 \<or> l = 1 \<or> l = 2 \<or> l = 3 \<or> l = 4 \<or> l = 5 \<or> l = 6 \<or> l = 7" by presburger
  then show ?thesis by (elim disjE) (simp_all add: sign_extend_4bit_to_i64_def)
qed

lemma high16_roundtrip:
  "- 2147483648 \<le> l \<Longrightarrow> l \<le> 2147483647 \<Longrightarrow> l AND 0xFFFF = 0 \<Longrightarrow>
   sint (push_bit 16 (ucast (word_of_int (drop_bit 16 l) :: u16) :: u32)) = l"
proof -
  assume r: "- 2147483648 \<le> l" "l \<le> 2147483647" and z: "l AND 0xFFFF = 0"
  have "bit l n \<Longrightarrow> 16 \<le> n" for n
    using z by (metis bit_0_eq bit_and_iff bit_masks(8) bot_apply bot_bool_def not_le)
  then have "push_bit 16 (ucast (word_of_int (drop_bit 16 l) :: u16) :: u32) = word_of_int l"
    by (intro bit_word_eqI) (auto simp: bit_simps)
  then show ?thesis using r by (simp add: sint_word_of_int)
qed


lemma wide_high16_roundtrip:
  "- (2 ^ 63) \<le> l \<Longrightarrow> l < 2 ^ 63 \<Longrightarrow> l AND 0xFFFFFFFFFFFF = 0 \<Longrightarrow>
   sint (push_bit 48 (ucast (word_of_int (drop_bit 48 l) :: u16) :: u64)) = l"
proof -
  assume r: "- (2 ^ 63) \<le> l" "l < 2 ^ 63" and z: "l AND 0xFFFFFFFFFFFF = 0"
  have "bit l n \<Longrightarrow> 48 \<le> n" for n
    using z by (metis bit_0_eq bit_and_iff bit_masks(10) bot_apply bot_bool_def not_le)
  then have "push_bit 48 (ucast (word_of_int (drop_bit 48 l) :: u16) :: u64) = word_of_int l"
    by (intro bit_word_eqI) (auto simp: bit_simps)
  then show ?thesis using r by (simp add: sint_word_of_int)
qed

definition reads :: "(nat \<Rightarrow> DexError + u16) \<Rightarrow> u16 list \<Rightarrow> bool" where
  "reads rd us \<longleftrightarrow> (\<forall>k < length us. rd k = Inr (us ! k))"

definition codec_ok :: "Instruction \<Rightarrow> u16 list \<Rightarrow> bool" where
  "codec_ok i us \<longleftrightarrow> length us = insn_size i \<and> us \<noteq> [] \<and> hd us AND 0xFF = ucast (to_u8 (insn_op i))
     \<and> (\<forall>rd. reads rd us \<longrightarrow> decode_format rd (addr i) (insn_op i) (hd us) = Inr (i, []))"

lemma reads_simps [simp]:
  "reads rd [] \<longleftrightarrow> True"
  "reads rd [u0] \<longleftrightarrow> rd 0 = Inr u0"
  "reads rd [u0, u1] \<longleftrightarrow> rd 0 = Inr u0 \<and> rd 1 = Inr u1"
  "reads rd [u0, u1, u2] \<longleftrightarrow> rd 0 = Inr u0 \<and> rd 1 = Inr u1 \<and> rd 2 = Inr u2"
  "reads rd [u0, u1, u2, u3] \<longleftrightarrow> rd 0 = Inr u0 \<and> rd 1 = Inr u1 \<and> rd 2 = Inr u2 \<and> rd 3 = Inr u3"
  "reads rd [u0, u1, u2, u3, u4] \<longleftrightarrow>
     rd 0 = Inr u0 \<and> rd 1 = Inr u1 \<and> rd 2 = Inr u2 \<and> rd 3 = Inr u3 \<and> rd 4 = Inr u4"
  by (auto simp: reads_def All_less_Suc numeral_nat less_Suc_eq_0_disj)

lemma branch_back:
  "- 128 \<le> branch_offset t pc \<Longrightarrow> branch_offset t pc \<le> 127 \<Longrightarrow>
     branch_target pc (sint (word_of_int (branch_offset t pc) :: byte)) = Inr t"
  "- 32768 \<le> branch_offset t pc \<Longrightarrow> branch_offset t pc \<le> 32767 \<Longrightarrow>
     branch_target pc (sint (word_of_int (branch_offset t pc) :: u16)) = Inr t"
  "- 2147483648 \<le> branch_offset t pc \<Longrightarrow> branch_offset t pc \<le> 2147483647 \<Longrightarrow>
     branch_target pc (sint (word_of_int (branch_offset t pc) :: u32)) = Inr t"
  by (simp_all add: sint_word_of_int)

lemmas codec_simps = codec_ok_def decode_format_def blank_insn_def emit_units_def Let_def
  dst_in_def dst_u4_def dst_u8_def src_one_in_def src_two_in_def src_u4_def src_u8_def src_u16_def
  target_in_def target_or_def unit_fields ucast_le_FF ucast_byte_of_u16 branch_back
  reg_one_def reg_two_def reg_as_slice_def get_range_def get_at_def reg_raw_at_def


definition encodes :: "Instruction \<Rightarrow> bool" where
  "encodes i = (case emit_units i of Inl e \<Rightarrow> False | Inr us \<Rightarrow> codec_ok i us)"

lemma nibble_le: "ucast ((b :: byte) AND 0xF) \<le> (0xF :: u16)"
proof -
  have "ucast (b AND 0xF) = (take_bit 4 (ucast b) :: u16)"
    by (rule bit_word_eqI) (auto simp: bit_simps)
  moreover have "unat (take_bit 4 (ucast b :: u16)) < 2 ^ 4"
    unfolding unsigned_take_bit_eq by (rule take_bit_nat_less_exp)
  ultimately show ?thesis by (simp add: word_le_nat_alt)
qed

lemma codec_units1:
  assumes "insn_wf i" "insn_format (insn_op i) \<in> set [F10x, F12x, F11n, F11x, F10t]"
  shows "encodes i"
  using assms
  by (cases i) (auto simp: encodes_def insn_wf_def emit_units1_def decode_units1_def literal_i4_def nibble_roundtrip
     branch_i8_as_u8_def codec_simps leD nibble_le split: option.splits)

lemmas pool_simps = pool_u16_def pool_u32_def pool_from_def try_u16_def ucast_u16_u32

lemma high16_codec:
  assumes "insn_format (insn_op i) = F21h" and "insn_wf i"
  shows "\<exists>u. high16_unit i = Inr u \<and> high16_literal (insn_op i) u = literal i"
proof (cases "insn_op i = ConstHigh16")
  case True
  with assms show ?thesis
    by (simp add: insn_wf_def high16_unit_def high16_literal_def high16_roundtrip)
next
  case False
  with assms have "insn_op i = ConstWideHigh16" by (simp add: insn_format_F21h)
  with assms show ?thesis
    by (simp add: insn_wf_def high16_unit_def high16_literal_def wide_high16_roundtrip)
qed

lemma codec_units2:
  assumes "insn_wf i" "insn_format (insn_op i) \<in> set [F20t, F22x, F21t, F21s, F21h, F21c, F23x, F22t, F22s, F22c, F22b]"
  shows "encodes i"
proof (cases "insn_format (insn_op i)")
  case F20t
  with assms show ?thesis
    by (cases i) (auto simp: encodes_def insn_wf_def emit_units2_def decode_units2_def codec_simps leD branch_i16_as_u16_def
        split: option.splits)
next
  case F22x
  with assms show ?thesis
    by (cases i) (auto simp: encodes_def insn_wf_def emit_units2_def decode_units2_def codec_simps leD 
        split: option.splits)
next
  case F21t
  with assms show ?thesis
    by (cases i) (auto simp: encodes_def insn_wf_def emit_units2_def decode_units2_def codec_simps leD branch_i16_as_u16_def
        split: option.splits)
next
  case F21s
  with assms show ?thesis
    by (cases i) (auto simp: encodes_def insn_wf_def emit_units2_def decode_units2_def codec_simps leD literal_i16_as_u16_def sint_word_of_int
        split: option.splits)
next
  case F21h
  then obtain u where "high16_unit i = Inr u" "high16_literal (insn_op i) u = literal i"
    using high16_codec assms(1) by blast
  with F21h assms show ?thesis
    by (cases i) (auto simp: encodes_def insn_wf_def emit_units2_def decode_units2_def codec_simps leD
        split: option.splits)
next
  case F21c
  with assms show ?thesis
    by (cases i) (auto simp: encodes_def insn_wf_def emit_units2_def decode_units2_def codec_simps leD pool_simps
        split: option.splits)
next
  case F23x
  with assms show ?thesis
    by (cases i) (auto simp: encodes_def insn_wf_def emit_units2_def decode_units2_def codec_simps leD two_bytes
        split: option.splits)
next
  case F22t
  with assms show ?thesis
    by (cases i) (auto simp: encodes_def insn_wf_def emit_units2_def decode_units2_def codec_simps leD branch_i16_as_u16_def
        split: option.splits)
next
  case F22s
  with assms show ?thesis
    by (cases i) (auto simp: encodes_def insn_wf_def emit_units2_def decode_units2_def codec_simps leD literal_i16_as_u16_def sint_word_of_int
        split: option.splits)
next
  case F22c
  with assms show ?thesis
    by (cases i) (auto simp: encodes_def insn_wf_def emit_units2_def decode_units2_def codec_simps leD pool_simps
        split: option.splits)
next
  case F22b
  with assms show ?thesis
    by (cases i) (auto simp: encodes_def insn_wf_def emit_units2_def decode_units2_def codec_simps leD two_bytes literal_i8_as_u8_def sint_word_of_int
        split: option.splits)
qed (use assms in auto)

lemma codec_units3:
  assumes "insn_wf i" "insn_format (insn_op i) \<in> set [F30t, F32x, F31i, F31t, F31c]"
  shows "encodes i"
proof (cases "insn_format (insn_op i)")
  case F30t
  with assms show ?thesis
    by (cases i) (auto simp: encodes_def insn_wf_def emit_units3_def decode_units3_def codec_simps leD branch_i32_def
        split: option.splits)
next
  case F32x
  with assms show ?thesis
    by (cases i) (auto simp: encodes_def insn_wf_def emit_units3_def decode_units3_def codec_simps leD 
        split: option.splits)
next
  case F31i
  with assms show ?thesis
    by (cases i) (auto simp: encodes_def insn_wf_def emit_units3_def decode_units3_def codec_simps leD literal_i32_def sint_word_of_int
        split: option.splits)
next
  case F31t
  with assms show ?thesis
    by (cases i) (auto simp: encodes_def insn_wf_def emit_units3_def decode_units3_def codec_simps leD branch_i32_def
        split: option.splits)
next
  case F31c
  with assms show ?thesis
    by (cases i) (auto simp: encodes_def insn_wf_def emit_units3_def decode_units3_def codec_simps leD pool_u32_def
        split: option.splits PoolIndex.splits)
qed (use assms in auto)


lemma vararg_codec:
  assumes "varargs_in i"
  shows "\<exists>g u2. slot_u4 i (reg_len (src i) = 5) 4 = Inr g \<and> cdef_unit i (reg_len (src i)) = Inr u2
    \<and> vararg_regs (op_a_b b g (of_nat (reg_len (src i)))) u2 = src i
    \<and> vararg_violations op pc (op_a_b b g (of_nat (reg_len (src i)))) = []
    \<and> op_a_b b g (of_nat (reg_len (src i))) AND 0xFF = ucast b"
proof -
  let ?n = "reg_len (src i)"
  obtain r0 r1 r2 r3 r4 where r: "regs (src i) = [r0, r1, r2, r3, r4]"
    using assms list5 unfolding varargs_in_def by blast
  have si: "src i = \<lparr>regs = [r0, r1, r2, r3, r4], reg_len = ?n\<rparr>" using r by (cases "src i") simp
  from assms have n: "?n \<le> 5" by (simp add: varargs_in_def)
  then consider "?n = 0" | "?n = 1" | "?n = 2" | "?n = 3" | "?n = 4" | "?n = 5" by linarith
  then show ?thesis
    using assms si small_count [OF n]
    by cases (auto simp: varargs_in_def slot_u4_def cdef_unit_def src_u4_def reg_as_slice_def get_range_def get_at_def
        vararg_regs_def vararg_violations_def unit_fields four_nibbles [unfolded One_nat_def] reg_empty_def leD)
qed

lemma fill_range_eq:
  "n \<le> length rs \<Longrightarrow>
   fill_range pc w r n rs = (if n = 0 \<or> unat r + (n - 1) < 2 ^ 16 then Inr (range_list r n rs)
                             else Inl (InvalidInstruction pc w))"
proof (induction n)
  case (Suc n)
  then have "(range_list r n rs)[n := r + of_nat n] = range_list r (Suc n) rs"
    by (auto simp: range_list_def list_update_append upd_conv_take_nth_drop Cons_nth_drop_Suc[symmetric])
  with Suc show ?case by auto
qed (simp add: range_list_def)


lemma codec_35c:
  assumes "insn_wf i" "insn_format (insn_op i) = F35c"
  shows "encodes i"
proof -
  from assms have v: "varargs_in i" by (simp add: insn_wf_def)
  obtain g u2 where gu: "slot_u4 i (reg_len (src i) = 5) 4 = Inr g" "cdef_unit i (reg_len (src i)) = Inr u2"
    "vararg_regs (op_a_b (to_u8 (insn_op i)) g (of_nat (reg_len (src i)))) u2 = src i"
    "vararg_violations (insn_op i) (addr i) (op_a_b (to_u8 (insn_op i)) g (of_nat (reg_len (src i)))) = []"
    "op_a_b (to_u8 (insn_op i)) g (of_nat (reg_len (src i))) AND 0xFF = ucast (to_u8 (insn_op i))"
    using vararg_codec [OF v] by blast
  from assms gu v show ?thesis
    by (cases i) (auto simp: encodes_def insn_wf_def emit_35c_def decode_35c_def codec_ok_def decode_format_def
        blank_insn_def emit_units_def Let_def pool_simps varargs_in_def split: option.splits)
qed

lemma codec_45cc:
  assumes "insn_wf i" "insn_format (insn_op i) = F45cc"
  shows "encodes i"
proof -
  from assms have v: "varargs_in i" by (simp add: insn_wf_def)
  obtain g u2 where gu: "slot_u4 i (reg_len (src i) = 5) 4 = Inr g" "cdef_unit i (reg_len (src i)) = Inr u2"
    "vararg_regs (op_a_b (to_u8 (insn_op i)) g (of_nat (reg_len (src i)))) u2 = src i"
    "vararg_violations (insn_op i) (addr i) (op_a_b (to_u8 (insn_op i)) g (of_nat (reg_len (src i)))) = []"
    "op_a_b (to_u8 (insn_op i)) g (of_nat (reg_len (src i))) AND 0xFF = ucast (to_u8 (insn_op i))"
    using vararg_codec [OF v] by blast
  from assms gu v show ?thesis
    by (cases i) (auto simp: encodes_def insn_wf_def emit_45cc_def decode_45cc_def codec_ok_def decode_format_def
        blank_insn_def emit_units_def Let_def pool_simps pool_proto_u16_def pool_poly_def varargs_in_def
        split: option.splits PoolIndex.splits)
qed

lemma range_codec:
  assumes "range_in keep i"
  shows "op_aa b (word_of_int (literal i)) AND 0xFF = ucast b"
    and "uint (unit_aa (op_aa b (word_of_int (literal i)))) = literal i"
    and "min (unat (unit_aa (op_aa b (word_of_int (literal i))))) 5 = reg_len (src i)"
    and "keep \<Longrightarrow> fill_range pc w (reg_raw_at (src i) 0) (reg_len (src i))
           ((regs reg_empty)[0 := reg_raw_at (src i) 0]) = Inr (regs (src i))"
    and "\<not> keep \<Longrightarrow> fill_range pc w (if reg_is_empty (src i) then 0 else reg_raw_at (src i) 0) (reg_len (src i))
           (regs reg_empty) = Inr (regs (src i))"
proof -
  from assms have l: "0 \<le> literal i" "literal i \<le> 255" and len: "reg_len (src i) = min (nat (literal i)) 5"
    unfolding range_in_def by blast+
  then have u: "uint (word_of_int (literal i) :: u16) = literal i"
    by (simp add: uint_word_of_int_eq take_bit_int_eq_self)
  then have le: "(word_of_int (literal i) :: u16) \<le> 0xFF" using l by (simp add: word_le_def)
  show "op_aa b (word_of_int (literal i)) AND 0xFF = ucast b" by (rule unit_fields)
  show uu: "uint (unit_aa (op_aa b (word_of_int (literal i)))) = literal i"
    using u by (simp add: unit_fields(1) [OF le])
  then show "min (unat (unit_aa (op_aa b (word_of_int (literal i))))) 5 = reg_len (src i)"
    using len by (simp add: unat_eq_nat_uint)
  let ?r = "reg_raw_at (src i) 0" and ?n = "reg_len (src i)"
  have n: "?n \<le> 5" "unat ?r + (?n - 1) < 2 ^ 16"
    using assms len unfolding range_in_def Let_def by (simp, blast)
  have eq: "range_list ?r ?n (if keep then [?r, 0, 0, 0, 0] else [0, 0, 0, 0, 0]) = regs (src i)"
    using assms unfolding range_in_def Let_def by (elim conjE) (erule sym)
  show "keep \<Longrightarrow> fill_range pc w ?r ?n ((regs reg_empty)[0 := ?r]) = Inr (regs (src i))"
    using n eq by (simp add: fill_range_eq reg_empty_def)
  show "\<not> keep \<Longrightarrow> fill_range pc w (if reg_is_empty (src i) then 0 else ?r) ?n (regs reg_empty)
      = Inr (regs (src i))"
    using n eq by (cases "?n = 0") (simp_all add: fill_range_eq reg_empty_def reg_is_empty_def range_list_def)
qed

lemma range_in_length: "range_in keep i \<Longrightarrow> length (regs (src i)) = 5 \<and> reg_len (src i) \<le> 5"
proof
  assume r: "range_in keep i"
  then have "reg_len (src i) = min (nat (literal i)) 5" unfolding range_in_def by blast
  then show n: "reg_len (src i) \<le> 5" by simp
  from r have "regs (src i) = range_list (reg_raw_at (src i) 0) (reg_len (src i))
      (if keep then [reg_raw_at (src i) 0, 0, 0, 0, 0] else [0, 0, 0, 0, 0])"
    unfolding range_in_def Let_def by blast
  from arg_cong [OF this, of length] n show "length (regs (src i)) = 5" by (simp add: range_list_def)
qed

lemma codec_3rc:
  assumes "insn_wf i" "insn_format (insn_op i) = F3rc"
  shows "encodes i"
proof -
  from assms have v: "range_in True i" by (simp add: insn_wf_def)
  have "0 \<le> literal i" "literal i \<le> 255" using v by (simp_all add: range_in_def)
  with assms range_codec(1-3) [OF v] range_codec(4) [OF v] show ?thesis
    by (cases i) (auto simp: encodes_def insn_wf_def emit_3rc_def decode_3rc_def codec_ok_def decode_format_def
        blank_insn_def emit_units_def Let_def pool_simps split: option.splits)
qed

lemma codec_4rcc:
  assumes "insn_wf i" "insn_format (insn_op i) = F4rcc"
  shows "encodes i"
proof -
  from assms have v: "range_in False i" by (simp add: insn_wf_def)
  have l: "0 \<le> literal i" "literal i \<le> 255" using v by (simp_all add: range_in_def)
  have s: "src_u16 i 0 = Inr (reg_raw_at (src i) 0)" if "\<not> reg_is_empty (src i)"
    using that range_in_length [OF v]
    by (simp add: src_u16_def reg_as_slice_def get_range_def get_at_def reg_raw_at_def reg_is_empty_def)
  with l assms range_codec(1-3) [OF v] range_codec(5) [OF v] show ?thesis
    by (cases i) (auto simp: encodes_def insn_wf_def emit_4rcc_def decode_4rcc_def codec_ok_def decode_format_def
        blank_insn_def emit_units_def Let_def pool_simps pool_proto_u16_def pool_poly_def
        split: option.splits PoolIndex.splits)
qed

lemma codec_51l:
  assumes "insn_wf i" "insn_format (insn_op i) = F51l"
  shows "encodes i"
  using assms by (cases i) (auto simp: encodes_def insn_wf_def emit_51l_def decode_51l_def codec_simps leD
      join_long_split sint_word_of_int split: option.splits)

lemma insn_encodes: "insn_wf i \<Longrightarrow> encodes i"
  using codec_units1 codec_units2 codec_units3 codec_35c codec_45cc codec_3rc codec_4rcc codec_51l
  by (cases "insn_format (insn_op i)") auto


lemma unit_bounds:
  "unit_aa u \<le> 0xFF" "unit_a u \<le> 0xF" "unit_b u \<le> 0xF" "low8 u \<le> 0xFF" "high8 u \<le> 0xFF" "nibble k u \<le> 0xF"
  by (simp_all add: unit_aa_def unit_a_def unit_b_def low8_def high8_def nibble_def and_mask_le)

lemma branch_target_InrD:
  assumes "branch_target pc off = Inr t" shows "branch_offset t pc = off"
proof -
  from assms have r: "0 \<le> uint pc + off" "uint pc + off < 2 ^ 32" and t: "t = word_of_int (uint pc + off)"
    unfolding branch_target_def Let_def by (auto split: if_splits)
  from r have "uint t = uint pc + off"
    unfolding t uint_word_of_int_eq by (intro take_bit_int_eq_self) simp_all
  then show ?thesis by (simp add: branch_offset_def)
qed

lemma branch_target_bounds:
  "branch_target pc (sint (b :: byte)) = Inr t \<Longrightarrow> - 128 \<le> branch_offset t pc \<and> branch_offset t pc \<le> 127"
  "branch_target pc (sint (u :: u16)) = Inr t \<Longrightarrow> - 32768 \<le> branch_offset t pc \<and> branch_offset t pc \<le> 32767"
  "branch_target pc (sint (w :: u32)) = Inr t \<Longrightarrow>
     - 2147483648 \<le> branch_offset t pc \<and> branch_offset t pc \<le> 2147483647"
  using sint_bounds by (auto dest!: branch_target_InrD)

lemma pool_number_classify [simp]:
  "pool_number (classify_pool_21c op w) = w" "pool_number (classify_pool_22c op w) = w"
  "pool_number (classify_pool_35c op w) = w" "pool_number (classify_pool_3rc op w) = w"
  by (simp_all add: classify_pool_21c_def classify_pool_22c_def classify_pool_35c_def classify_pool_3rc_def)

lemma sign_extend_4bit_range: "- 8 \<le> sign_extend_4bit_to_i64 (unit_b u) \<and> sign_extend_4bit_to_i64 (unit_b u) \<le> 7"
proof -
  have "unat (unit_b u) < 16" using unit_bounds(3) [of u] by (simp add: word_le_nat_alt)
  moreover have "list_all (\<lambda>n. - 8 \<le> sign_extend_4bit_to_i64 (of_nat n) \<and> sign_extend_4bit_to_i64 (of_nat n) \<le> 7) [0..<16]"
    by code_simp
  ultimately have "- 8 \<le> sign_extend_4bit_to_i64 (of_nat (unat (unit_b u)))
      \<and> sign_extend_4bit_to_i64 (of_nat (unat (unit_b u))) \<le> 7"
    unfolding list_all_iff set_upt by (meson atLeastLessThan_iff le0)
  then show ?thesis by simp
qed

lemma high16_literal_wf:
  "insn_format op = F21h \<Longrightarrow>
   (if op = ConstHigh16 then (high16_literal op u AND 0xFFFF) = 0 \<and> - 2147483648 \<le> high16_literal op u \<and> high16_literal op u \<le> 2147483647
    else (high16_literal op u AND 0xFFFFFFFFFFFF) = 0 \<and> - (2 ^ 63) \<le> high16_literal op u \<and> high16_literal op u \<le> 2 ^ 63 - 1)"
proof -
  have a: "sint (push_bit 16 (ucast u :: u32)) AND 0xFFFF = 0"
    by (rule bit_eqI) (auto simp: bit_simps)
  have b: "sint (push_bit 48 (ucast u :: u64)) AND 0xFFFFFFFFFFFF = 0"
    by (rule bit_eqI) (auto simp: bit_simps)
  assume "insn_format op = F21h"
  then show ?thesis using a b sint_bounds(5-8) by (auto simp: insn_format_F21h high16_literal_def)
qed

lemma range_of_fill:
  assumes "fill_range pc w r n rs = Inr rs'" and "n \<le> 5" and "rs = (if keep then [r, 0, 0, 0, 0] else [0, 0, 0, 0, 0])"
    and "src i = \<lparr>regs = rs', reg_len = n\<rparr>" and "n = min (nat (literal i)) 5" "0 \<le> literal i" "literal i \<le> 255"
  shows "range_in keep i"
proof -
  have rs: "rs' = range_list r n rs" "n = 0 \<or> unat r + (n - 1) < 2 ^ 16"
    using assms(1-3) by (auto simp: fill_range_eq split: if_splits)
  have hd: "reg_raw_at (src i) 0 = (if keep \<or> 0 < n then r else 0)"
    using assms(3,4) by (auto simp: rs reg_raw_at_def get_at_def range_list_def nth_append)
  show ?thesis
  proof (cases "n = 0")
    case True
    with assms(3-7) hd rs unat_u16_lt [of r] show ?thesis
      by (auto simp: range_in_def range_list_def)
  next
    case False
    with assms(3-7) hd rs show ?thesis by (auto simp: range_in_def)
  qed
qed

lemmas decoded_simps = insn_wf_def blank_insn_def dst_in_def src_one_in_def src_two_in_def target_in_def
  reg_one_def reg_two_def reg_raw_at_def get_at_def unit_bounds sint_bounds pool_from_def unat_ucast_up unat_u16_lt u16_le_max

lemma decode_units1_wf:
  assumes "decode_units1 (insn_format op) pc u0 (blank_insn pc op) = Inr (i, vs)"
    and "insn_format op \<in> set [F10x, F12x, F11n, F11x, F10t]"
  shows "insn_wf i \<and> addr i = pc \<and> insn_op i = op"
proof (cases "insn_format op")
  case F10x
  with assms show ?thesis
    by (auto simp: decode_units1_def Let_def decoded_simps dest: branch_target_bounds)
next
  case F12x
  with assms show ?thesis
    by (auto simp: decode_units1_def Let_def decoded_simps dest: branch_target_bounds)
next
  case F11n
  with assms sign_extend_4bit_range [of u0] show ?thesis
    by (auto simp: decode_units1_def Let_def decoded_simps)
next
  case F11x
  with assms show ?thesis
    by (auto simp: decode_units1_def Let_def decoded_simps dest: branch_target_bounds)
next
  case F10t
  with assms show ?thesis
    by (auto simp: decode_units1_def Let_def decoded_simps dest: branch_target_bounds)
qed (use assms in auto)

lemma decode_units2_wf:
  assumes "decode_units2 rd (insn_format op) pc op u0 (blank_insn pc op) = Inr (i, vs)"
    and "insn_format op \<in> set [F20t, F22x, F21t, F21s, F21h, F21c, F23x, F22t, F22s, F22c, F22b]"
  shows "insn_wf i \<and> addr i = pc \<and> insn_op i = op"
proof (cases "insn_format op")
  case F20t
  with assms show ?thesis
    by (auto simp: decode_units2_def Let_def decoded_simps dest: branch_target_bounds)
next
  case F22x
  with assms show ?thesis
    by (auto simp: decode_units2_def Let_def decoded_simps dest: branch_target_bounds)
next
  case F21t
  with assms show ?thesis
    by (auto simp: decode_units2_def Let_def decoded_simps dest: branch_target_bounds)
next
  case F21s
  with assms show ?thesis
    by (auto simp: decode_units2_def Let_def decoded_simps dest: branch_target_bounds)
next
  case F21h
  with assms high16_literal_wf [OF F21h] show ?thesis
    by (auto simp: decode_units2_def Let_def insn_wf_def blank_insn_def dst_in_def unit_bounds)
next
  case F21c
  with assms show ?thesis
    by (auto simp: decode_units2_def Let_def decoded_simps dest: branch_target_bounds)
next
  case F23x
  with assms show ?thesis
    by (auto simp: decode_units2_def Let_def decoded_simps dest: branch_target_bounds)
next
  case F22t
  with assms show ?thesis
    by (auto simp: decode_units2_def Let_def decoded_simps dest: branch_target_bounds)
next
  case F22s
  with assms show ?thesis
    by (auto simp: decode_units2_def Let_def decoded_simps dest: branch_target_bounds)
next
  case F22c
  with assms show ?thesis
    by (auto simp: decode_units2_def Let_def decoded_simps dest: branch_target_bounds)
next
  case F22b
  with assms show ?thesis
    by (auto simp: decode_units2_def Let_def decoded_simps dest: branch_target_bounds)
qed (use assms in auto)

lemma decode_units3_wf:
  assumes "decode_units3 rd (insn_format op) pc u0 (blank_insn pc op) = Inr (i, vs)"
    and "insn_format op \<in> set [F30t, F32x, F31i, F31t, F31c]"
  shows "insn_wf i \<and> addr i = pc \<and> insn_op i = op"
proof (cases "insn_format op")
  case F30t
  with assms show ?thesis
    by (auto simp: decode_units3_def Let_def decoded_simps dest: branch_target_bounds)
next
  case F32x
  with assms show ?thesis
    by (auto simp: decode_units3_def Let_def decoded_simps dest: branch_target_bounds)
next
  case F31i
  with assms show ?thesis
    by (auto simp: decode_units3_def Let_def decoded_simps dest: branch_target_bounds)
next
  case F31t
  with assms show ?thesis
    by (auto simp: decode_units3_def Let_def decoded_simps dest: branch_target_bounds)
next
  case F31c
  with assms show ?thesis
    by (auto simp: decode_units3_def Let_def decoded_simps dest: branch_target_bounds)
qed (use assms in auto)

lemma vararg_regs_wf: "src i = vararg_regs u0 u2 \<Longrightarrow> varargs_in i"
proof -
  let ?n = "min (unat (unit_b u0)) 5"
  assume s: "src i = vararg_regs u0 u2"
  have "?n = 0 \<or> ?n = 1 \<or> ?n = 2 \<or> ?n = 3 \<or> ?n = 4 \<or> ?n = 5" by arith
  with s show ?thesis
    by (elim disjE) (auto simp: varargs_in_def vararg_regs_def Let_def reg_empty_def unit_bounds)
qed

lemma range_src_wf:
  assumes "fill_range pc w r (min (unat (unit_aa u0)) 5) rs = Inr rs'"
    and "rs = (if keep then [r, 0, 0, 0, 0] else [0, 0, 0, 0, 0])"
    and "src i = \<lparr>regs = rs', reg_len = min (unat (unit_aa u0)) 5\<rparr>" and "literal i = uint (unit_aa u0)"
  shows "range_in keep i"
proof (rule range_of_fill [OF assms(1) _ assms(2,3)])
  show "literal i \<le> 255" using unit_bounds(1) [of u0] assms(4) by (simp add: word_le_def)
  show "min (unat (unit_aa u0)) 5 = min (nat (literal i)) 5" by (simp add: assms(4))
qed (simp_all add: assms(4))

lemma decode_format_wf:
  assumes d: "decode_format rd pc op u0 = Inr (i, vs)"
  shows "insn_wf i \<and> addr i = pc \<and> insn_op i = op"
proof (cases "insn_format op")
  case F35c
  with d obtain u1 u2 where i: "i = (blank_insn pc op)\<lparr>src := vararg_regs u0 u2, pool_idx := Some (classify_pool_35c op (ucast (u1 :: u16)))\<rparr>"
    by (auto simp: decode_format_def decode_35c_def)
  then have "varargs_in i" by (intro vararg_regs_wf) simp
  with i F35c show ?thesis by (simp add: decoded_simps unat_ucast_up unat_u16_lt)
next
  case F45cc
  with d obtain u1 u2 u3 where i: "i = (blank_insn pc op)\<lparr>src := vararg_regs u0 u2,
      pool_idx := Some (PMethodAndProto (MethodIdx (ucast (u1 :: u16))) (ProtoIdx (ucast (u3 :: u16))))\<rparr>"
    by (auto simp: decode_format_def decode_45cc_def)
  then have "varargs_in i" by (intro vararg_regs_wf) simp
  with i F45cc show ?thesis by (simp add: decoded_simps pool_poly_def unat_ucast_up unat_u16_lt)
next
  case F3rc
  with d obtain u1 u2 rs where i: "i = (blank_insn pc op)\<lparr>src := \<lparr>regs = rs, reg_len = min (unat (unit_aa u0)) 5\<rparr>,
      literal := uint (unit_aa u0), pool_idx := Some (classify_pool_3rc op (ucast (u1 :: u16)))\<rparr>"
    and f: "fill_range pc ''start_reg overflow in F3rc'' u2 (min (unat (unit_aa u0)) 5) ((regs reg_empty)[0 := u2]) = Inr rs"
    by (auto simp: decode_format_def decode_3rc_def Let_def)
  have "range_in True i" by (rule range_src_wf [OF f]) (simp_all add: i reg_empty_def)
  with i F3rc show ?thesis by (simp add: decoded_simps unat_ucast_up unat_u16_lt)
next
  case F4rcc
  with d obtain u1 u2 u3 rs where i: "i = (blank_insn pc op)\<lparr>src := \<lparr>regs = rs, reg_len = min (unat (unit_aa u0)) 5\<rparr>,
      literal := uint (unit_aa u0),
      pool_idx := Some (PMethodAndProto (MethodIdx (ucast (u1 :: u16))) (ProtoIdx (ucast (u3 :: u16))))\<rparr>"
    and f: "fill_range pc ''start_reg overflow in F4rcc'' u2 (min (unat (unit_aa u0)) 5) (regs reg_empty) = Inr rs"
    by (auto simp: decode_format_def decode_4rcc_def Let_def)
  have "range_in False i" by (rule range_src_wf [OF f]) (simp_all add: i reg_empty_def)
  with i F4rcc show ?thesis by (simp add: decoded_simps pool_poly_def unat_ucast_up unat_u16_lt)
next
  case F51l
  with d show ?thesis by (auto simp: decode_format_def decode_51l_def decoded_simps)
qed (use d decode_units1_wf [of op pc u0 i vs] decode_units2_wf [of rd op pc u0 i vs]
  decode_units3_wf [of rd op pc u0 i vs] in \<open>simp_all add: decode_format_def Let_def\<close>)

text \<open>The units of an instruction, where they stand in the stream.\<close>

lemma foldl_push_u16: "foldl push_u16 out us = out @ units_to_le us"
  by (induction us arbitrary: out) (auto simp: push_u16_def)

context dex_deps
begin

lemma read_unit_at:
  assumes "fits data" and "at_off data (insns_off + 2 * unat pc) (units_to_le us)"
    and "unat pc + length us \<le> 2 ^ 32" and "k < length us"
  shows "read_unit D data insns_off pc k = Inr (us ! k)"
proof -
  have at: "at_off data (insns_off + (unat pc + k) * 2) (u16_to_le (us ! k))"
    using at_off_units_nth [OF assms(2,4)] by (simp add: algebra_simps)
  then have "insns_off + (unat pc + k) * 2 < 2 ^ 64"
    using at_off_len [OF at] assms(1) by (simp add: fits_def)
  then show ?thesis
    using read_u16_at [OF assms(1) at] assms(3,4) by (simp add: read_unit_def)
qed

lemma decode_emitted:
  assumes "insn_wf i" and "fits data" and "emit_units i = Inr us"
    and "at_off data (insns_off + 2 * unat (addr i)) (units_to_le us)"
    and "unat (addr i) + insn_size i \<le> 2 ^ 32"
  shows "decode_single D data insns_off (addr i) (insn_op i) = Inr (i, [])"
proof -
  have c: "codec_ok i us" using insn_encodes [OF assms(1)] assms(3) by (simp add: encodes_def)
  then have "reads (read_unit D data insns_off (addr i)) us"
    using read_unit_at [OF assms(2,4)] assms(5) by (simp add: reads_def codec_ok_def)
  with c show ?thesis
    by (cases us) (auto simp: decode_single_def codec_ok_def reads_def)
qed

end

section \<open>Payload tables\<close>

lemma branch_i32_back: "branch_i32 t pc = Inr r \<Longrightarrow> branch_target pc (sint r) = Inr t"
  by (auto simp: branch_i32_def Let_def sint_word_of_int split: if_splits)

lemma branch_i32s_back:
  assumes "mapE (\<lambda>t. branch_i32 t pc) ts = Inr rels" and "i < length rels"
  shows "branch_target pc (sint (rels ! i)) = Inr (ts ! i)" "length rels = length ts"
  using assms branch_i32_back by (auto simp: mapE_Inr_iff list_all2_conv_all_nth)

context dex_deps
begin

lemma read_word_at_words:
  assumes "fits data" and "at_off data base (words_to_le ws)" and "i < length ws"
  shows "read_word_at D data base m a i = Inr (ws ! i)"
proof -
  have at: "at_off data (base + i * 4) (u32_to_le (ws ! i))"
    using at_off_words_nth [OF assms(2,3)] by (simp add: mult.commute)
  then have "base + i * 4 < 2 ^ 63" using at_off_len [OF at] assms(1) by (simp add: fits_def)
  then show ?thesis by (simp add: read_word_at_def read_u32_at [OF assms(1) at])
qed

lemma read_words_at:
  "fits data \<Longrightarrow> at_off data base (words_to_le ws) \<Longrightarrow> mapE (read_word_at D data base m a) [0..<length ws] = Inr ws"
  by (rule mapE_upt) (simp_all add: read_word_at_words)

lemma read_targets_at:
  assumes "fits data" and "at_off data base (words_to_le rels)" and "mapE (\<lambda>t. branch_i32 t pc) ts = Inr rels"
  shows "mapE (\<lambda>i. bindE (read_word_at D data base m a i) (\<lambda>rel. branch_target pc (sint rel))) [0..<length rels] = Inr ts"
proof (rule mapE_upt)
  show "length ts = length rels" using mapE_length [OF assms(3)] by simp
  show "bindE (read_word_at D data base m a i) (\<lambda>rel. branch_target pc (sint rel)) = Inr (ts ! i)"
    if "i < length rels" for i
    using branch_i32s_back(1) [OF assms(3) that] by (simp add: read_word_at_words [OF assms(1,2) that])
qed

lemma packed_switch_roundtrip:
  assumes "fits data" and "emit_packed_switch_payload k ts switch_pc = Inr bytes"
    and at: "at_off data (insns_off + 2 * unat payload_pc) bytes" and "unat payload_pc + 2 \<le> 2 ^ 32"
  shows "decode_packed_switch D data insns_off payload_pc switch_pc = Inr (PackedSwitchData k ts)"
proof -
  obtain rels where rels: "mapE (\<lambda>t. branch_i32 t switch_pc) ts = Inr rels" and n: "length ts < 2 ^ 16"
    and b: "bytes = units_to_le [0x0100, of_nat (length ts)] @ u32_to_le k @ words_to_le rels"
    using assms(2) by (auto simp: emit_packed_switch_payload_def words_to_le_def split: if_splits)
  have len: "length rels = length ts" using mapE_length [OF rels] .
  have u: "unat (of_nat (length ts) :: u16) = length ts" using n by (simp add: unat_of_nat take_bit_nat_eq_self)
  have at': "at_off data (insns_off + 2 * unat payload_pc) (units_to_le [0x0100, of_nat (length ts)])"
    "at_off data (insns_off + 2 * unat payload_pc + 4) (u32_to_le k)"
    "at_off data (insns_off + 2 * unat payload_pc + 8) (words_to_le rels)"
    using at unfolding b at_off_two_units by (simp_all add: at_off_append add_ac del: units_to_le_simps)
  have sz: "insns_off + 2 * unat payload_pc + 8 + 4 * length ts \<le> length data" "length data < 2 ^ 63"
    using at_off_len [OF at] assms(1) by (simp_all add: b len fits_def)
  have "read_unit D data insns_off payload_pc 1 = Inr (of_nat (length ts))"
    using read_unit_at [OF assms(1) at'(1), of 1] assms(4) by simp
  moreover have "bound_count D (ucast (of_nat (length ts) :: u16)) SWITCH_TARGET_SIZE (length data) it = Inr (length ts)" for it
    using bound_count_fits [of SWITCH_TARGET_SIZE "length data" "ucast (of_nat (length ts) :: u16)"] sz u
    by (simp add: SWITCH_TARGET_SIZE_def unat_ucast_up)
  ultimately show ?thesis
    using sz read_u32_at [OF assms(1) at'(2)] read_targets_at [OF assms(1) at'(3) rels]
    by (simp add: decode_packed_switch_def len mult.commute)
qed

lemma sparse_switch_roundtrip:
  assumes "fits data" and "emit_sparse_switch_payload ks ts switch_pc = Inr bytes"
    and at: "at_off data (insns_off + 2 * unat payload_pc) bytes" and "unat payload_pc + 2 \<le> 2 ^ 32"
  shows "decode_sparse_switch D data insns_off payload_pc switch_pc = Inr (SparseSwitchData ks ts)"
proof -
  obtain rels where rels: "mapE (\<lambda>t. branch_i32 t switch_pc) ts = Inr rels" and n: "length ks < 2 ^ 16" "length ks = length ts"
    and b: "bytes = units_to_le [0x0200, of_nat (length ks)] @ words_to_le ks @ words_to_le rels"
    using assms(2) by (auto simp: emit_sparse_switch_payload_def words_to_le_def split: if_splits)
  have len: "length rels = length ks" using mapE_length [OF rels] n(2) by simp
  have u: "unat (of_nat (length ks) :: u16) = length ks" using n by (simp add: unat_of_nat take_bit_nat_eq_self)
  have at': "at_off data (insns_off + 2 * unat payload_pc) (units_to_le [0x0200, of_nat (length ks)])"
    "at_off data (insns_off + 2 * unat payload_pc + 4) (words_to_le ks)"
    "at_off data (insns_off + 2 * unat payload_pc + 4 + length ks * 4) (words_to_le rels)"
    using at unfolding b at_off_two_units by (simp_all add: at_off_append algebra_simps del: units_to_le_simps)
  have sz: "insns_off + 2 * unat payload_pc + 4 + 8 * length ks \<le> length data" "length data < 2 ^ 63"
    using at_off_len [OF at] assms(1) by (simp_all add: b len fits_def)
  have "read_unit D data insns_off payload_pc 1 = Inr (of_nat (length ks))"
    using read_unit_at [OF assms(1) at'(1), of 1] assms(4) by simp
  moreover have "bound_count D (ucast (of_nat (length ks) :: u16)) (SWITCH_TARGET_SIZE * 2) (length data) it = Inr (length ks)" for it
    using bound_count_fits [of "SWITCH_TARGET_SIZE * 2" "length data" "ucast (of_nat (length ks) :: u16)"] sz u
    by (simp add: SWITCH_TARGET_SIZE_def unat_ucast_up)
  ultimately show ?thesis
    using sz read_words_at [OF assms(1) at'(2)] read_targets_at [OF assms(1) at'(3) rels]
    by (simp add: decode_sparse_switch_def len mult.commute)
qed

lemma fill_array_roundtrip:
  assumes "fits data" and "emit_fill_array_data_payload w xs = Inr bytes"
    and at: "at_off data (insns_off + 2 * unat payload_pc) bytes" and "unat payload_pc + 2 \<le> 2 ^ 32"
  shows "decode_fill_array_data D data insns_off payload_pc = Inr (FillArrayDataPayload w xs)"
proof -
  let ?n = "length xs div unat w"
  obtain pad where w: "w \<in> {1, 2, 4, 8}" and m: "length xs mod unat w = 0" and n: "?n < 2 ^ 32"
    and b: "bytes = units_to_le [0x0300, w] @ u32_to_le (of_nat ?n) @ xs @ pad"
    using assms(2) by (auto simp: emit_fill_array_data_payload_def split: if_splits)
  have u: "unat (of_nat ?n :: u32) = ?n" using n by (simp add: unat_of_nat take_bit_nat_eq_self)
  have cnt: "?n * unat w = length xs" using m by (metis add.right_neutral div_mult_mod_eq)
  let ?base = "insns_off + 2 * unat payload_pc"
  have at': "at_off data ?base (units_to_le [0x0300, w])" "at_off data (?base + 4) (u32_to_le (of_nat ?n))"
    "at_off data (?base + 8) xs"
    using at unfolding b at_off_two_units by (simp_all add: at_off_append add_ac del: units_to_le_simps)
  have sz: "?base + 8 + length xs \<le> length data" "length data < 2 ^ 63"
    using at_off_len [OF at] assms(1) by (simp_all add: b fits_def)
  have "read_unit D data insns_off payload_pc 1 = Inr w"
    using read_unit_at [OF assms(1) at'(1), of 1] assms(4) by simp
  moreover have "get_range data (?base + 8) (?base + 8 + length xs) = Some xs"
    using at'(3) by (simp add: at_off_def get_range_def)
  ultimately show ?thesis
    using sz w read_u32_at [OF assms(1) at'(2)] cnt
    by (simp add: decode_fill_array_data_def u mult.commute)
qed

end

section \<open>Properties\<close>

context dex_deps
begin

lemma emitted_bytes:
  assumes "insn_wf i" and "unat (addr i) + insn_size i \<le> 2 ^ 32"
  shows "\<exists>bytes. emit_instruction out i = Inr (out @ bytes) \<and> length bytes = 2 * insn_size i
    \<and> from_u8 (hd bytes) = Some (insn_op i)
    \<and> (\<forall>data insns_off. fits data \<longrightarrow> at_off data (insns_off + 2 * unat (addr i)) bytes \<longrightarrow>
          decode_single D data insns_off (addr i) (insn_op i) = Inr (i, []))"
proof -
  obtain us where us: "emit_units i = Inr us" and c: "codec_ok i us"
    using insn_encodes [OF assms(1)] by (auto simp: encodes_def split: sum.splits)
  have low: "ucast (u AND 0xFF) = (ucast u :: byte)" for u :: u16
    by (rule bit_word_eqI) (auto simp: bit_simps)
  have "(ucast (hd us) :: byte) = ucast (hd us AND 0xFF)" by (simp only: low)
  also have "\<dots> = to_u8 (insn_op i)" using c by (simp add: codec_ok_def ucast_byte_of_u16)
  finally have "from_u8 (hd (units_to_le us)) = Some (insn_op i)"
    using c by (cases us) (auto simp: codec_ok_def u16_to_le_def)
  moreover have "length (units_to_le us) = 2 * insn_size i"
    using c by (simp add: codec_ok_def)
  ultimately show ?thesis
    using us decode_emitted [OF assms(1) _ us _ assms(2)]
    by (intro exI [of _ "units_to_le us"]) (simp add: emit_instruction_def foldl_push_u16)
qed

end

text \<open>C25 (instruction_roundtrip). Every well-formed instruction of every format is emitted; the emitted bytes are
  twice its size in code units and start with its opcode byte; and wherever these bytes stand at
  the instruction's address, the decoder gives back the instruction, without a violation.\<close>

theorem instruction_roundtrip:
  assumes "dex_deps D" and "insn_wf i" and "unat (addr i) + insn_size i \<le> 2 ^ 32"
  shows "\<exists>bytes. emit_instruction out i = Inr (out @ bytes) \<and> length bytes = 2 * insn_size i
    \<and> from_u8 (hd bytes) = Some (insn_op i)
    \<and> (\<forall>data insns_off. fits data \<longrightarrow> at_off data (insns_off + 2 * unat (addr i)) bytes \<longrightarrow>
          decode_single D data insns_off (addr i) (insn_op i) = Inr (i, []))"
  by (rule dex_deps.emitted_bytes [OF assms])

definition sample_insn :: Instruction where
  "sample_insn = (blank_insn 2 IfLt)\<lparr>src := reg_two 3 4, target := Some 0\<rparr>"

theorem instruction_roundtrip_witness:
  "\<exists>bytes. emit_instruction [] sample_insn = Inr bytes \<and> length bytes = 4
     \<and> decode_single (std_deps (\<lambda>_. [])) ([0, 0, 0, 0] @ bytes) 0 2 IfLt = Inr (sample_insn, [])"
proof -
  have wf: "insn_wf sample_insn" by (simp add: sample_insn_def insn_wf_def blank_insn_def insn_format_def
     src_two_in_def reg_two_def reg_raw_at_def get_at_def target_in_def branch_offset_def)
  have s: "addr sample_insn = 2" "insn_size sample_insn = 2" "insn_op sample_insn = IfLt"
    by (simp_all add: sample_insn_def blank_insn_def insn_format_def)
  obtain bytes where b: "emit_instruction [] sample_insn = Inr bytes" "length bytes = 4"
    and d: "\<And>data off. fits data \<Longrightarrow> at_off data (off + 4) bytes \<Longrightarrow>
      decode_single (std_deps (\<lambda>_. [])) data off 2 IfLt = Inr (sample_insn, [])"
    using instruction_roundtrip [OF std.dex_deps_axioms wf, of "[]" "\<lambda>_. []"] s by auto
  have "at_off ([0, 0, 0, 0] @ bytes) (0 + 4) bytes" by (simp add: at_off_def)
  with b d show ?thesis by (simp add: fits_def)
qed

text \<open>C26 (decode_reencode). Whatever bytes are decoded, the result is a well-formed instruction at the given
  address, it is emitted without error, and its own bytes decode to it again: decoding after
  emitting after decoding loses nothing.\<close>

theorem decode_reencode:
  assumes "dex_deps D" and "decode_single D data insns_off pc op = Inr (i, vs)"
    and "unat pc + format_size (insn_format op) \<le> 2 ^ 32"
  shows "insn_wf i \<and> addr i = pc \<and> insn_op i = op \<and>
    (\<exists>bytes. emit_instruction [] i = Inr bytes \<and>
      (\<forall>data' off'. fits data' \<longrightarrow> at_off data' (off' + 2 * unat pc) bytes \<longrightarrow>
         decode_single D data' off' pc op = Inr (i, [])))"
proof -
  have wf: "insn_wf i \<and> addr i = pc \<and> insn_op i = op"
    using assms(2) decode_format_wf by (auto simp: decode_single_def)
  then have "unat (addr i) + insn_size i \<le> 2 ^ 32" using assms(3) by (simp add: insn_wf_def)
  then show ?thesis using dex_deps.emitted_bytes [OF assms(1), of i "[]"] wf by fastforce
qed

theorem decode_reencode_witness:
  "\<exists>i. decode_single (std_deps (\<lambda>_. [])) [0x12, 0xD1] 0 0 Const4 = Inr (i, []) \<and> literal i = - 3
     \<and> insn_wf i \<and> (\<exists>bytes. emit_instruction [] i = Inr bytes)"
proof -
  define i where "i = (blank_insn 0 Const4)\<lparr>dst := Some 1, literal := - 3\<rparr>"
  have d: "decode_single (std_deps (\<lambda>_. [])) [0x12, 0xD1] 0 0 Const4 = Inr (i, [])"
    by (simp add: decode_single_def read_unit_def read_u16_def std_deps_def read_u16_le_def u16_of_le_def
        decode_format_def insn_format_def decode_units1_def Let_def unit_a_def unit_b_def i_def
        sign_extend_4bit_to_i64_def)
  show ?thesis
    using decode_reencode [OF std.dex_deps_axioms d] d by (auto simp: i_def insn_format_def blank_insn_def)
qed

text \<open>A switch or array payload that is emitted is decoded back to the same payload: keys,
  branch targets (relative to the switch instruction), element width and data.\<close>

theorem payload_roundtrip:
  assumes "dex_deps D" and "fits data" and "emit_payload p switch_pc = Inr bytes"
    and "at_off data (insns_off + 2 * unat payload_pc) bytes" and "unat payload_pc + 2 \<le> 2 ^ 32"
  shows "(case p of
            PackedSwitchData _ _ \<Rightarrow> decode_packed_switch D data insns_off payload_pc switch_pc
          | SparseSwitchData _ _ \<Rightarrow> decode_sparse_switch D data insns_off payload_pc switch_pc
          | FillArrayDataPayload _ _ \<Rightarrow> decode_fill_array_data D data insns_off payload_pc) = Inr p"
  using assms dex_deps.packed_switch_roundtrip [OF assms(1,2) _ assms(4,5)]
    dex_deps.sparse_switch_roundtrip [OF assms(1,2) _ assms(4,5)]
    dex_deps.fill_array_roundtrip [OF assms(1,2) _ assms(4,5)]
  by (cases p) (auto simp: emit_payload_def strictly_ascending_from_verified_def split: sum.splits option.splits)

theorem payload_roundtrip_witness:
  "\<exists>bytes. emit_payload (SparseSwitchData [- 1, 5] [3, 7]) 2 = Inr bytes
     \<and> decode_sparse_switch (std_deps (\<lambda>_. [])) bytes 0 0 2 = Inr (SparseSwitchData [- 1, 5] [3, 7])"
proof -
  define bytes where "bytes = u16_to_le 0x0200 @ u16_to_le 2 @ words_to_le [- 1, 5] @ words_to_le [1, 5]"
  have e: "emit_payload (SparseSwitchData [- 1, 5] [3, 7]) 2 = Inr bytes"
    by (simp add: emit_payload_def strictly_ascending_from_verified_def emit_sparse_switch_payload_def
        branch_i32_def branch_offset_def bytes_def Let_def)
  moreover have "at_off bytes (0 + 2 * unat (0 :: u32)) bytes" by (simp add: at_off_def)
  moreover have "fits bytes" by (simp add: fits_def bytes_def)
  ultimately show ?thesis
    using payload_roundtrip [OF std.dex_deps_axioms, of bytes "SparseSwitchData [- 1, 5] [3, 7]" 2 bytes 0 0 "\<lambda>_. []"]
    by simp
qed

end
