(* ===== verification/Dex_Stream.thy ===== *)
theory Dex_Stream
  imports Dex_Insn_Codec
begin

text \<open>
  The instruction stream of a method: the decode loop \<open>decode_insns\<close> of \<open>src/src/decode.rs\<close> with
  its per-instruction and post-loop checks and the resolution of payload tables, and the inverse,
  \<open>assemble_insn_stream\<close> with \<open>compute_insns_size\<close>, of \<open>src/src/emit_dex.rs\<close>. The loop is a state
  machine over the record \<open>dstate\<close>; its step relation, its reachable states and their invariants
  are given before the properties.
\<close>

section \<open>The decode loop\<close>

text \<open>The mutable locals of the loop. \<open>opcode_starts\<close> is a map to unit.\<close>

record dstate =
  d_insns :: "Instruction list"
  d_viols :: "CodeItemInvariantViolation list"
  d_pending :: "(u32 \<times> u32 \<times> Opcode) list"
  d_starts :: "(u32 \<times> unit) list"
  d_pc :: u32

text \<open>The number of units of the payload that starts at \<open>pc\<close>, by its kind.\<close>

definition div_ceil2 :: "u32 \<Rightarrow> u32" where
  "div_ceil2 w = of_nat ((unat w + 1) div 2)"

definition payload_size :: "deps \<Rightarrow> byte list \<Rightarrow> nat \<Rightarrow> u32 \<Rightarrow> byte \<Rightarrow> DexError + u32" where
  "payload_size D data insns_off pc ident =
     (if ident = 0x01 then
        bindE (read_unit D data insns_off pc 1) (\<lambda>size.
        bindE (safe_mul_u32 (ucast size) 2 ''decode_insns:packed_switch:size*2'') (\<lambda>s2.
        safe_add_u32 s2 4 ''decode_insns:packed_switch:payload_size''))
      else if ident = 0x02 then
        bindE (read_unit D data insns_off pc 1) (\<lambda>size.
        bindE (safe_mul_u32 (ucast size) 4 ''decode_insns:sparse_switch:size*4'') (\<lambda>s4.
        safe_add_u32 s4 2 ''decode_insns:sparse_switch:payload_size''))
      else if ident = 0x03 then
        bindE (read_unit D data insns_off pc 1) (\<lambda>width.
        bindE (safe_mul (unat pc) 2 ''decode_insns:fill_array:pc*2'') (\<lambda>pc2.
        bindE (safe_add insns_off pc2 ''decode_insns:fill_array:base'') (\<lambda>base.
        bindE (safe_add base 4 ''decode_insns:fill_array:size_off'') (\<lambda>size_off.
        bindE (read_u32 D data size_off) (\<lambda>size.
        bindE (safe_mul_u32 size (ucast width) ''decode_insns:fill_array:bytes'') (\<lambda>bytes.
        safe_add_u32 4 (div_ceil2 bytes) ''decode_insns:fill_array:payload_size''))))))
      else Inl (InvalidInstruction pc ''payload ident reached dispatch match after outer guard''))"

definition oob_violations :: "Opcode \<Rightarrow> u32 \<Rightarrow> Instruction \<Rightarrow> u32 \<Rightarrow> CodeItemInvariantViolation list" where
  "oob_violations op pc insn insns_size =
     (case target insn of
        Some t \<Rightarrow> if t \<ge> insns_size then [BranchTargetOutOfRange op pc t insns_size] else []
      | None \<Rightarrow> [])"

definition is_branch_op :: "Opcode \<Rightarrow> bool" where
  "is_branch_op op \<longleftrightarrow>
     op \<in> set [Goto, Goto16, IfEq, IfNe, IfLt, IfGe, IfGt, IfLe, IfEqz, IfNez, IfLtz, IfGez, IfGtz, IfLez]"

definition zero_offset_violations :: "Opcode \<Rightarrow> u32 \<Rightarrow> Instruction \<Rightarrow> CodeItemInvariantViolation list" where
  "zero_offset_violations op pc insn =
     (if is_branch_op op then
        (case target insn of Some t \<Rightarrow> if t = pc then [BranchOffsetZero op pc] else [] | None \<Rightarrow> [])
      else [])"

definition is_payload_op :: "Opcode \<Rightarrow> bool" where
  "is_payload_op op \<longleftrightarrow> op \<in> set [PackedSwitch, SparseSwitch, FillArrayData]"

text \<open>The alignment check: a violation, or an entry for the payload resolution.\<close>

definition payload_request ::
  "Opcode \<Rightarrow> u32 \<Rightarrow> Instruction \<Rightarrow> CodeItemInvariantViolation list \<times> (u32 \<times> u32 \<times> Opcode) list" where
  "payload_request op pc insn =
     (if is_payload_op op then
        (case target insn of
           Some t \<Rightarrow> if t mod 2 \<noteq> 0 then ([UnalignedTableDexPc op pc t], []) else ([], [(pc, t, op)])
         | None \<Rightarrow> ([], []))
      else ([], []))"

definition is_non_static_invoke :: "Opcode \<Rightarrow> bool" where
  "is_non_static_invoke op \<longleftrightarrow>
     op \<in> set [InvokeVirtual, InvokeSuper, InvokeDirect, InvokeInterface, InvokePolymorphic,
       InvokeVirtualRange, InvokeSuperRange, InvokeDirectRange, InvokeInterfaceRange, InvokePolymorphicRange]"

definition receiver_violations :: "Opcode \<Rightarrow> u32 \<Rightarrow> Instruction \<Rightarrow> CodeItemInvariantViolation list" where
  "receiver_violations op pc insn =
     (if is_non_static_invoke op then
        let fmt = insn_format op;
            arg_count = (if fmt = F35c \<or> fmt = F45cc then int (reg_len (src insn))
                         else if fmt = F3rc \<or> fmt = F4rcc then literal insn mod 2 ^ 64
                         else 1)
        in if arg_count = 0 then [NonStaticInvokeArgCountZero op pc] else []
      else [])"

definition insn_violations :: "Opcode \<Rightarrow> u32 \<Rightarrow> Instruction \<Rightarrow> u32 \<Rightarrow> CodeItemInvariantViolation list" where
  "insn_violations op pc insn insns_size =
     oob_violations op pc insn insns_size @ zero_offset_violations op pc insn
     @ fst (payload_request op pc insn) @ receiver_violations op pc insn"

text \<open>One turn of the loop.\<close>

definition decode_step :: "deps \<Rightarrow> byte list \<Rightarrow> nat \<Rightarrow> u32 \<Rightarrow> dstate \<Rightarrow> DexError + dstate" where
  "decode_step D data insns_off insns_size st =
     (let pc = d_pc st
      in bindE (read_unit D data insns_off pc 0) (\<lambda>u0.
         let op_byte = (ucast (u0 AND 0xFF) :: byte); ident = (ucast (drop_bit 8 u0) :: byte)
         in if op_byte = 0x00 \<and> (ident = 0x01 \<or> ident = 0x02 \<or> ident = 0x03) then
              bindE (payload_size D data insns_off pc ident) (\<lambda>n.
              bindE (safe_add_u32 pc n ''decode_insns:pc+=payload_size'') (\<lambda>pc'.
              Inr (st\<lparr>d_pc := pc'\<rparr>)))
            else
              let starts = btree_insert pc () (d_starts st)
              in case from_u8 op_byte of
                   None \<Rightarrow>
                     bindE (safe_add_u32 pc 1 ''decode_insns:pc+=1_unknown_op'') (\<lambda>pc'.
                     Inr (st\<lparr>d_starts := starts, d_viols := d_viols st @ [UnknownOpcodeByte pc op_byte],
                              d_pc := pc'\<rparr>))
                 | Some op \<Rightarrow>
                     bindE (decode_single D data insns_off pc op) (\<lambda>(insn, vs).
                     bindE (safe_add_u32 pc (of_nat (insn_size insn)) ''decode_insns:pc+=insn.size'') (\<lambda>pc'.
                     Inr (st\<lparr>d_insns := d_insns st @ [insn],
                              d_viols := d_viols st @ vs @ insn_violations op pc insn insns_size,
                              d_pending := d_pending st @ snd (payload_request op pc insn),
                              d_starts := starts, d_pc := pc'\<rparr>)))))"

definition decode_init :: dstate where
  "decode_init = \<lparr>d_insns = [], d_viols = [], d_pending = [], d_starts = [], d_pc = 0\<rparr>"

lemma payload_size_pos: "payload_size D data insns_off pc ident = Inr n \<Longrightarrow> 0 < unat n"
  by (auto simp: payload_size_def split: if_splits dest!: safe_add_u32_InrD)

lemma decode_single_size:
  assumes "decode_single D data insns_off pc op = Inr (insn, vs)"
  shows "insn_size insn = format_size (insn_format op) \<and> addr insn = pc \<and> insn_op insn = op \<and> insn_wf insn"
proof -
  obtain u0 where "decode_format (read_unit D data insns_off pc) pc op u0 = Inr (insn, vs)"
    using assms unfolding decode_single_def bindE_eq_Inr by blast
  then have "insn_wf insn \<and> addr insn = pc \<and> insn_op insn = op" by (rule decode_format_wf)
  then show ?thesis unfolding insn_wf_def by metis
qed

text \<open>What a turn does: it skips a payload, skips an unknown opcode, or decodes an instruction.\<close>

lemma decode_step_cases:
  assumes "decode_step D data insns_off insns_size st = Inr st'"
  obtains (payload) pc' where "unat (d_pc st) < unat pc'" "st' = st\<lparr>d_pc := pc'\<rparr>"
  | (unknown) b pc' where "from_u8 b = None" "unat pc' = unat (d_pc st) + 1"
      "st' = st\<lparr>d_starts := btree_insert (d_pc st) () (d_starts st),
                d_viols := d_viols st @ [UnknownOpcodeByte (d_pc st) b], d_pc := pc'\<rparr>"
  | (insn) op i vs pc' where "decode_single D data insns_off (d_pc st) op = Inr (i, vs)"
      "unat pc' = unat (d_pc st) + insn_size i"
      "st' = st\<lparr>d_insns := d_insns st @ [i],
                d_viols := d_viols st @ vs @ insn_violations op (d_pc st) i insns_size,
                d_pending := d_pending st @ snd (payload_request op (d_pc st) i),
                d_starts := btree_insert (d_pc st) () (d_starts st), d_pc := pc'\<rparr>"
proof -
  let ?pc = "d_pc st"
  obtain u0 where u0: "read_unit D data insns_off ?pc 0 = Inr u0"
    using assms by (auto simp: decode_step_def Let_def)
  define b where "b = (ucast (u0 AND 0xFF) :: byte)"
  define t where "t = (ucast (drop_bit 8 u0) :: byte)"
  show thesis
  proof (cases "b = 0 \<and> (t = 1 \<or> t = 2 \<or> t = 3)")
    case True
    with assms u0 obtain n pc' where n: "payload_size D data insns_off ?pc t = Inr n"
      and p: "safe_add_u32 ?pc n ''decode_insns:pc+=payload_size'' = Inr pc'" and st': "st' = st\<lparr>d_pc := pc'\<rparr>"
      by (simp add: decode_step_def Let_def b_def [symmetric] t_def [symmetric]) (elim exE conjE; simp)
    have "unat ?pc < unat pc'"
      using payload_size_pos [OF n] safe_add_u32_InrD [OF p, THEN conjunct2] by linarith
    then show thesis using st' by (rule payload)
  next
    case False
    show thesis
    proof (cases "from_u8 b")
      case None
      with False assms u0 obtain pc' where p: "safe_add_u32 ?pc 1 ''decode_insns:pc+=1_unknown_op'' = Inr pc'"
        and st': "st' = st\<lparr>d_starts := btree_insert ?pc () (d_starts st),
                d_viols := d_viols st @ [UnknownOpcodeByte ?pc b], d_pc := pc'\<rparr>"
        unfolding decode_step_def Let_def u0 bindE.simps b_def [symmetric] t_def [symmetric]
        by (auto simp del: de_Morgan_conj de_Morgan_disj)
      have "unat pc' = unat ?pc + 1" using safe_add_u32_InrD [OF p, THEN conjunct2] by simp
      then show thesis using None st' by (intro unknown)
    next
      case (Some op)
      with False assms u0 obtain i vs pc' where d: "decode_single D data insns_off ?pc op = Inr (i, vs)"
        and p: "safe_add_u32 ?pc (of_nat (insn_size i)) ''decode_insns:pc+=insn.size'' = Inr pc'"
        and st': "st' = st\<lparr>d_insns := d_insns st @ [i],
                d_viols := d_viols st @ vs @ insn_violations op ?pc i insns_size,
                d_pending := d_pending st @ snd (payload_request op ?pc i),
                d_starts := btree_insert ?pc () (d_starts st), d_pc := pc'\<rparr>"
        unfolding decode_step_def Let_def u0 bindE.simps b_def [symmetric] t_def [symmetric]
        by (auto simp del: de_Morgan_conj de_Morgan_disj)
      have "insn_size i \<le> 5" using decode_single_size [OF d] format_size_pos by simp
      then have "unat (of_nat (insn_size i) :: u32) = insn_size i"
        by (simp add: unat_of_nat take_bit_nat_eq_self)
      then have "unat pc' = unat ?pc + insn_size i" using safe_add_u32_InrD [OF p, THEN conjunct2] by simp
      then show thesis using d st' by (intro insn)
    qed
  qed
qed

lemma decode_step_progress:
  assumes "decode_step D data insns_off insns_size st = Inr st'"
  shows "unat (d_pc st) < unat (d_pc st')"
  using assms
proof (cases rule: decode_step_cases)
  case (insn op i vs pc')
  then show ?thesis using decode_single_size [OF insn(1)] format_size_pos [of "insn_format op"] by simp
qed simp_all

function decode_loop :: "deps \<Rightarrow> byte list \<Rightarrow> nat \<Rightarrow> u32 \<Rightarrow> dstate \<Rightarrow> DexError + dstate" where
  "decode_loop D data insns_off insns_size st =
     (if d_pc st < insns_size then
        bindE (decode_step D data insns_off insns_size st) (decode_loop D data insns_off insns_size)
      else Inr st)"
  by pat_completeness auto
termination
proof (relation "measure (\<lambda>(D, data, insns_off, insns_size, st). unat insns_size - unat (d_pc st))")
  fix D data insns_off insns_size st st'
  assume "d_pc st < insns_size" "decode_step D data insns_off insns_size st = Inr st'"
  then show "((D, data, insns_off, insns_size, st'), D, data, insns_off, insns_size, st)
    \<in> measure (\<lambda>(D, data, insns_off, insns_size, st). unat insns_size - unat (d_pc st))"
    using decode_step_progress [of D data insns_off insns_size st st'] by (simp add: word_less_nat_alt)
qed simp

declare decode_loop.simps [simp del]

section \<open>After the loop\<close>

definition pc_to_opcode :: "Instruction list \<Rightarrow> (u32 \<times> Opcode) list" where
  "pc_to_opcode insns = foldl (\<lambda>m i. btree_insert (addr i) (insn_op i) m) [] insns"

text \<open>\<open>range(..=target).next_back()\<close>: the last key not above the target, or 0.\<close>

definition owner_pc :: "(u32 \<times> unit) list \<Rightarrow> u32 \<Rightarrow> u32" where
  "owner_pc starts tgt =
     (case filter (\<lambda>k. k \<le> tgt) (map fst starts) of [] \<Rightarrow> 0 | ks \<Rightarrow> last ks)"

definition target_violations ::
  "(u32 \<times> unit) list \<Rightarrow> (u32 \<times> Opcode) list \<Rightarrow> u32 \<Rightarrow> Instruction \<Rightarrow> CodeItemInvariantViolation list" where
  "target_violations starts ops insns_size insn =
     (case target insn of
        None \<Rightarrow> []
      | Some t \<Rightarrow>
          if t \<ge> insns_size then []
          else if is_payload_op (insn_op insn) then []
          else (if map_of starts t = None
                then [BranchTargetMidInstruction (insn_op insn) (addr insn) t (owner_pc starts t)] else [])
             @ (case map_of ops t of
                  Some target_op \<Rightarrow>
                    if target_op \<in> set [MoveResult, MoveResultWide, MoveResultObject, MoveException]
                    then [BranchTargetIsMoveResultOrMoveException (insn_op insn) (addr insn) t target_op]
                    else []
                | None \<Rightarrow> []))"

text \<open>The resolution of one pending payload, on the payload map and the violations.\<close>

definition expected_ident :: "Opcode \<Rightarrow> u16 option" where
  "expected_ident op =
     (if op = PackedSwitch then Some 0x0100 else if op = SparseSwitch then Some 0x0200
      else if op = FillArrayData then Some 0x0300 else None)"

definition decode_payload_for ::
  "deps \<Rightarrow> byte list \<Rightarrow> nat \<Rightarrow> u32 \<Rightarrow> u32 \<Rightarrow> Opcode \<Rightarrow> DexError + PayloadData" where
  "decode_payload_for D data insns_off payload_pc switch_pc op =
     (if op = PackedSwitch then decode_packed_switch D data insns_off payload_pc switch_pc
      else if op = SparseSwitch then decode_sparse_switch D data insns_off payload_pc switch_pc
      else if op = FillArrayData then decode_fill_array_data D data insns_off payload_pc
      else Inl (InvalidInstruction switch_pc ''payload dispatch reached for non-switch/fill op''))"

primrec payload_targets :: "PayloadData \<Rightarrow> u32 list" where
  "payload_targets (PackedSwitchData k ts) = ts"
| "payload_targets (SparseSwitchData ks ts) = ts"
| "payload_targets (FillArrayDataPayload w d) = []"

type_synonym resolved = "(u32 \<times> PayloadData) list \<times> CodeItemInvariantViolation list"

definition resolve_payload ::
  "deps \<Rightarrow> byte list \<Rightarrow> nat \<Rightarrow> u32 \<Rightarrow> resolved \<Rightarrow> u32 \<times> u32 \<times> Opcode \<Rightarrow> DexError + resolved" where
  "resolve_payload D data insns_off insns_size acc entry =
     (case (acc, entry) of ((pls, viols), (switch_pc, payload_pc, op)) \<Rightarrow>
        bindE (ok_or (expected_ident op)
          (InvalidInstruction switch_pc ''payload dispatch reached for non-switch/fill op'')) (\<lambda>expected.
        bindE (read_unit D data insns_off payload_pc 0) (\<lambda>observed.
        if observed \<noteq> expected
        then Inr (pls, viols @ [PayloadIdentMismatch op switch_pc payload_pc expected observed])
        else bindE (decode_payload_for D data insns_off payload_pc switch_pc op) (\<lambda>payload.
          Inr (btree_insert payload_pc payload pls,
               viols @ map (\<lambda>t. BranchTargetOutOfRange op switch_pc t insns_size)
                         (filter (\<lambda>t. t \<ge> insns_size) (payload_targets payload)))))))"

type_synonym DecodedInsnStream =
  "Instruction list \<times> (u32 \<times> PayloadData) list \<times> CodeItemInvariantViolation list"

definition decode_insns :: "deps \<Rightarrow> byte list \<Rightarrow> nat \<Rightarrow> u32 \<Rightarrow> DexError + DecodedInsnStream" where
  "decode_insns D data insns_off insns_size =
     bindE (decode_loop D data insns_off insns_size decode_init) (\<lambda>st.
     let tail = (if d_pc st > insns_size then [TailBytesAfterLastInstruction insns_size (d_pc st)] else []);
         ops = pc_to_opcode (d_insns st);
         post = concat (map (target_violations (d_starts st) ops insns_size) (d_insns st))
     in bindE (foldE (resolve_payload D data insns_off insns_size) ([], d_viols st @ tail @ post) (d_pending st))
          (\<lambda>(pls, viols). Inr (d_insns st, pls, viols)))"

section \<open>Assembling a stream\<close>

text \<open>\<open>stream[byte_off..end].copy_from_slice(&buf)\<close>, with the check that precedes it.\<close>

definition write_at :: "string \<Rightarrow> byte list \<Rightarrow> nat \<Rightarrow> byte list \<Rightarrow> DexEmitError + byte list" where
  "write_at what stream byte_off buf =
     (let end = byte_off + length buf
      in if end \<ge> 2 ^ 64 then Inl (OffsetOverflow ''insn_stream'' (what @ '' end offset overflowed usize''))
         else if end > length stream
           then Inl (OffsetOverflow ''insn_stream'' (what @ '' would write past declared insns_size''))
         else Inr (take byte_off stream @ buf @ drop end stream))"

definition write_insn :: "byte list \<Rightarrow> Instruction \<Rightarrow> DexEmitError + byte list" where
  "write_insn stream insn =
     bindE (emit_instruction [] insn) (\<lambda>buf. write_at ''instruction'' stream (unat (addr insn) * 2) buf)"

definition switch_pc_of :: "Instruction list \<Rightarrow> u32 \<Rightarrow> PayloadData \<Rightarrow> DexEmitError + u32" where
  "switch_pc_of insns payload_pc payload =
     (case payload of
        FillArrayDataPayload _ _ \<Rightarrow> Inr 0
      | _ \<Rightarrow> ok_or (map_option addr (find (\<lambda>i. insn_op i \<in> set [PackedSwitch, SparseSwitch]
                                             \<and> target i = Some payload_pc) insns))
               (UnrepresentableIR ''switch payload in code_item has no matching switch instruction''))"

definition write_payload ::
  "Instruction list \<Rightarrow> byte list \<Rightarrow> u32 \<times> PayloadData \<Rightarrow> DexEmitError + byte list" where
  "write_payload insns stream entry =
     (case entry of (payload_pc, payload) \<Rightarrow>
        bindE (switch_pc_of insns payload_pc payload) (\<lambda>switch_pc.
        bindE (emit_payload payload switch_pc) (\<lambda>buf.
        write_at ''payload'' stream (unat payload_pc * 2) buf)))"

definition assemble_insn_stream ::
  "Instruction list \<Rightarrow> (u32 \<times> PayloadData) list \<Rightarrow> u32 \<Rightarrow> DexEmitError + byte list" where
  "assemble_insn_stream insns pls insns_size =
     bindE (foldE write_insn (replicate (unat insns_size * 2) 0) insns) (\<lambda>stream.
     foldE (write_payload insns) stream pls)"

text \<open>Saturating \<open>u32\<close> arithmetic.\<close>

definition sat_add :: "u32 \<Rightarrow> nat \<Rightarrow> u32" where
  "sat_add a b = of_nat (min (unat a + b) (2 ^ 32 - 1))"

definition sat_mul :: "u32 \<Rightarrow> nat \<Rightarrow> u32" where
  "sat_mul a b = of_nat (min (unat a * b) (2 ^ 32 - 1))"

definition payload_units :: "PayloadData \<Rightarrow> DexEmitError + u32" where
  "payload_units payload =
     (case payload of
        PackedSwitchData _ ts \<Rightarrow>
          if length ts < 2 ^ 32 then Inr (sat_add 4 (unat (sat_mul (of_nat (length ts)) 2)))
          else Inl (SizeOverflow ''compute_insns_size'' ''packed-switch target count exceeds u32'')
      | SparseSwitchData ks _ \<Rightarrow>
          if length ks < 2 ^ 32 then Inr (sat_add 2 (unat (sat_mul (of_nat (length ks)) 4)))
          else Inl (SizeOverflow ''compute_insns_size'' ''sparse-switch key count exceeds u32'')
      | FillArrayDataPayload _ d \<Rightarrow>
          if length d < 2 ^ 32 then Inr (sat_add 4 (unat (sat_add (of_nat (length d)) 1) div 2))
          else Inl (SizeOverflow ''compute_insns_size'' ''fill-array-data byte length exceeds u32''))"

definition compute_insns_size :: "Instruction list \<Rightarrow> (u32 \<times> PayloadData) list \<Rightarrow> DexEmitError + u32" where
  "compute_insns_size insns pls =
     (let m0 = foldl (\<lambda>m i. max m (sat_add (addr i) (insn_size i))) 0 insns
      in foldE (\<lambda>m (pc, p). bindE (payload_units p) (\<lambda>sz. Inr (max m (sat_add pc (unat sz))))) m0 pls)"

section \<open>Reachable states of the loop\<close>

inductive decode_reach :: "deps \<Rightarrow> byte list \<Rightarrow> nat \<Rightarrow> u32 \<Rightarrow> dstate \<Rightarrow> bool"
  for D data insns_off insns_size where
  init: "decode_reach D data insns_off insns_size decode_init"
| step: "decode_reach D data insns_off insns_size st \<Longrightarrow> d_pc st < insns_size \<Longrightarrow>
    decode_step D data insns_off insns_size st = Inr st' \<Longrightarrow> decode_reach D data insns_off insns_size st'"

lemma decode_loop_reach:
  "decode_reach D data insns_off insns_size st \<Longrightarrow> decode_loop D data insns_off insns_size st = Inr st' \<Longrightarrow>
   decode_reach D data insns_off insns_size st' \<and> insns_size \<le> d_pc st'"
proof (induction D data insns_off insns_size st rule: decode_loop.induct)
  case (1 D data insns_off insns_size st)
  show ?case
  proof (cases "d_pc st < insns_size")
    case True
    with "1.prems"(2) obtain st1 where s: "decode_step D data insns_off insns_size st = Inr st1"
      and l: "decode_loop D data insns_off insns_size st1 = Inr st'"
      by (subst (asm) decode_loop.simps) auto
    then show ?thesis using "1.IH" [OF True s] decode_reach.step [OF "1.prems"(1) True s] by blast
  next
    case False
    with "1.prems" show ?thesis by (subst (asm) decode_loop.simps) auto
  qed
qed

text \<open>An instruction of the state, with what its turn recorded.\<close>

definition recorded :: "deps \<Rightarrow> byte list \<Rightarrow> nat \<Rightarrow> u32 \<Rightarrow> dstate \<Rightarrow> Instruction \<Rightarrow> bool" where
  "recorded D data insns_off insns_size st i \<longleftrightarrow>
     addr i < insns_size \<and> unat (addr i) + insn_size i \<le> unat (d_pc st) \<and> insn_wf i
     \<and> addr i \<in> fst ` set (d_starts st)
     \<and> (\<exists>vs. decode_single D data insns_off (addr i) (insn_op i) = Inr (i, vs) \<and> set vs \<subseteq> set (d_viols st))
     \<and> set (insn_violations (insn_op i) (addr i) i insns_size) \<subseteq> set (d_viols st)
     \<and> set (snd (payload_request (insn_op i) (addr i) i)) \<subseteq> set (d_pending st)"

text \<open>A violation of the loop and where it comes from.\<close>

definition justified :: "deps \<Rightarrow> byte list \<Rightarrow> nat \<Rightarrow> u32 \<Rightarrow> dstate \<Rightarrow> CodeItemInvariantViolation \<Rightarrow> bool" where
  "justified D data insns_off insns_size st v \<longleftrightarrow>
     (\<exists>pc b. v = UnknownOpcodeByte pc b \<and> from_u8 b = None)
     \<or> (\<exists>i \<in> set (d_insns st). \<exists>vs. decode_single D data insns_off (addr i) (insn_op i) = Inr (i, vs)
          \<and> (v \<in> set vs \<or> v \<in> set (insn_violations (insn_op i) (addr i) i insns_size)))"

definition stream_inv :: "deps \<Rightarrow> byte list \<Rightarrow> nat \<Rightarrow> u32 \<Rightarrow> dstate \<Rightarrow> bool" where
  "stream_inv D data insns_off insns_size st \<longleftrightarrow>
     sorted_wrt (\<lambda>i j. unat (addr i) + insn_size i \<le> unat (addr j)) (d_insns st)
     \<and> (\<forall>i \<in> set (d_insns st). recorded D data insns_off insns_size st i)
     \<and> (\<forall>v \<in> set (d_viols st). justified D data insns_off insns_size st v)
     \<and> (\<forall>e \<in> set (d_pending st). \<exists>i \<in> set (d_insns st). e \<in> set (snd (payload_request (insn_op i) (addr i) i)))
     \<and> (\<forall>k \<in> fst ` set (d_starts st). (\<exists>i \<in> set (d_insns st). addr i = k) \<or> (\<exists>b. UnknownOpcodeByte k b \<in> set (d_viols st)))
     \<and> btree_ok (d_starts st)"

lemma recorded_mono:
  "recorded D data insns_off insns_size st i \<Longrightarrow> unat (d_pc st) \<le> unat (d_pc st') \<Longrightarrow>
   set (d_viols st) \<subseteq> set (d_viols st') \<Longrightarrow> set (d_pending st) \<subseteq> set (d_pending st') \<Longrightarrow>
   fst ` set (d_starts st) \<subseteq> fst ` set (d_starts st') \<Longrightarrow> recorded D data insns_off insns_size st' i"
  unfolding recorded_def by (meson order_trans subset_iff)

lemma justified_mono:
  "justified D data insns_off insns_size st v \<Longrightarrow> set (d_insns st) \<subseteq> set (d_insns st') \<Longrightarrow>
   justified D data insns_off insns_size st' v"
  unfolding justified_def by blast

lemma stream_inv_init: "stream_inv D data insns_off insns_size decode_init"
  by (simp add: stream_inv_def decode_init_def btree_ok_def)

lemma starts_insert: "fst ` set (btree_insert k v m) = insert k (fst ` set m)"
  using btree_insert_keys [of k v m] by simp

lemma stream_inv_step:
  assumes inv: "stream_inv D data insns_off insns_size st" and pc: "d_pc st < insns_size"
    and step: "decode_step D data insns_off insns_size st = Inr st'"
  shows "stream_inv D data insns_off insns_size st'"
  using step
proof (cases rule: decode_step_cases)
  case (payload pc')
  have "recorded D data insns_off insns_size st i \<Longrightarrow> recorded D data insns_off insns_size st' i" for i
    by (rule recorded_mono) (use payload in auto)
  moreover have "justified D data insns_off insns_size st v \<Longrightarrow> justified D data insns_off insns_size st' v" for v
    by (rule justified_mono) (use payload in auto)
  ultimately show ?thesis using inv payload by (auto simp: stream_inv_def)
next
  case (unknown b pc')
  have "recorded D data insns_off insns_size st i \<Longrightarrow> recorded D data insns_off insns_size st' i" for i
    by (rule recorded_mono) (use unknown in \<open>auto simp: starts_insert\<close>)
  moreover have "justified D data insns_off insns_size st v \<Longrightarrow> justified D data insns_off insns_size st' v" for v
    by (rule justified_mono) (use unknown in auto)
  moreover have "justified D data insns_off insns_size st' (UnknownOpcodeByte (d_pc st) b)"
    using unknown by (auto simp: justified_def)
  ultimately show ?thesis
    using inv unknown by (auto simp: stream_inv_def starts_insert btree_insert_ok)
next
  case (insn op i vs pc')
  note d = decode_single_size [OF insn(1)]
  have r: "recorded D data insns_off insns_size st j \<Longrightarrow> recorded D data insns_off insns_size st' j" for j
    by (rule recorded_mono) (use insn in \<open>auto simp: starts_insert\<close>)
  have j: "justified D data insns_off insns_size st v \<Longrightarrow> justified D data insns_off insns_size st' v" for v
    by (rule justified_mono) (use insn in auto)
  have ri: "recorded D data insns_off insns_size st' i"
    using d insn pc by (auto simp: recorded_def starts_insert)
  have ji: "v \<in> set vs \<union> set (insn_violations op (d_pc st) i insns_size) \<Longrightarrow> justified D data insns_off insns_size st' v" for v
    using d insn unfolding justified_def by auto
  have "\<forall>j \<in> set (d_insns st). unat (addr j) + insn_size j \<le> unat (addr i)"
    using inv d by (auto simp: stream_inv_def recorded_def)
  then show ?thesis
    using inv insn d r j ri ji
    by (auto simp: stream_inv_def sorted_wrt_append starts_insert btree_insert_ok)
qed

lemma reach_inv: "decode_reach D data insns_off insns_size st \<Longrightarrow> stream_inv D data insns_off insns_size st"
  by (induction rule: decode_reach.induct) (auto intro: stream_inv_init stream_inv_step)

lemma decode_insns_parts:
  assumes "decode_insns D data insns_off insns_size = Inr (ins, pls, viols)"
  obtains st where "decode_reach D data insns_off insns_size st" "insns_size \<le> d_pc st" "d_insns st = ins"
    "foldE (resolve_payload D data insns_off insns_size)
       ([], d_viols st @ (if d_pc st > insns_size then [TailBytesAfterLastInstruction insns_size (d_pc st)] else [])
            @ concat (map (target_violations (d_starts st) (pc_to_opcode ins) insns_size) ins))
       (d_pending st) = Inr (pls, viols)"
proof -
  obtain st where l: "decode_loop D data insns_off insns_size decode_init = Inr st"
    and f: "foldE (resolve_payload D data insns_off insns_size)
       ([], d_viols st @ (if d_pc st > insns_size then [TailBytesAfterLastInstruction insns_size (d_pc st)] else [])
            @ concat (map (target_violations (d_starts st) (pc_to_opcode (d_insns st)) insns_size) (d_insns st)))
       (d_pending st) = Inr (pls, viols)" and i: "d_insns st = ins"
    using assms unfolding decode_insns_def Let_def by (auto split: prod.splits)
  from decode_loop_reach [OF decode_reach.init l] f i show thesis by (intro that) auto
qed

text \<open>The table of a request, read where it stands: its first unit is the one its opcode expects.\<close>

definition table_read :: "deps \<Rightarrow> byte list \<Rightarrow> nat \<Rightarrow> u32 \<times> u32 \<times> Opcode \<Rightarrow> PayloadData \<Rightarrow> bool" where
  "table_read D data insns_off request p \<longleftrightarrow>
     (case request of (s, k, op) \<Rightarrow>
        (\<exists>e. expected_ident op = Some e \<and> read_unit D data insns_off k 0 = Inr e)
        \<and> decode_payload_for D data insns_off k s op = Inr p)"

lemma resolve_payload_cases:
  assumes "resolve_payload D data insns_off insns_size (pl, v) (s, k, op) = Inr acc'"
  obtains (mismatch) ex ob where "acc' = (pl, v @ [PayloadIdentMismatch op s k ex ob])"
      "\<And>p. \<not> table_read D data insns_off (s, k, op) p"
  | (decoded) q where "\<And>p. table_read D data insns_off (s, k, op) p \<longleftrightarrow> p = q"
      "acc' = (btree_insert k q pl, v @ map (\<lambda>t. BranchTargetOutOfRange op s t insns_size)
         (filter (\<lambda>t. t \<ge> insns_size) (payload_targets q)))"
proof -
  obtain e ob where e: "expected_ident op = Some e" "read_unit D data insns_off k 0 = Inr ob"
    using assms by (auto simp: resolve_payload_def)
  show thesis
  proof (cases "ob = e")
    case True
    with assms e obtain q where q: "decode_payload_for D data insns_off k s op = Inr q"
      "acc' = (btree_insert k q pl, v @ map (\<lambda>t. BranchTargetOutOfRange op s t insns_size)
         (filter (\<lambda>t. t \<ge> insns_size) (payload_targets q)))"
      by (auto simp: resolve_payload_def)
    then show thesis using e True by (intro decoded [of q]) (auto simp: table_read_def)
  next
    case False
    with assms e have "acc' = (pl, v @ [PayloadIdentMismatch op s k e ob])" by (simp add: resolve_payload_def)
    then show thesis using e False by (intro mismatch [of e ob]) (simp_all add: table_read_def)
  qed
qed

text \<open>The resolution only adds violations; every table it keeps was requested and read, and the
  out-of-range violations it adds are those of the tables that were read.\<close>

lemma resolve_step:
  assumes "resolve_payload D data insns_off insns_size acc x = Inr acc'"
  shows "set (snd acc) \<subseteq> set (snd acc')"
    "kp \<in> set (fst acc') \<Longrightarrow> kp \<in> set (fst acc) \<or> fst kp = fst (snd x) \<and> table_read D data insns_off x (snd kp)"
    "BranchTargetOutOfRange op' s' t n \<in> set (snd acc') \<longleftrightarrow> BranchTargetOutOfRange op' s' t n \<in> set (snd acc)
      \<or> n = insns_size \<and> insns_size \<le> t \<and> s' = fst x \<and> op' = snd (snd x)
        \<and> (\<exists>p. table_read D data insns_off x p \<and> t \<in> set (payload_targets p))"
proof -
  obtain pl v s k op where acc: "acc = (pl, v)" and x: "x = (s, k, op)" by (cases acc; cases x) auto
  from assms have "resolve_payload D data insns_off insns_size (pl, v) (s, k, op) = Inr acc'" unfolding acc x .
  then have "set (snd acc) \<subseteq> set (snd acc')
    \<and> (kp \<in> set (fst acc') \<longrightarrow> kp \<in> set (fst acc) \<or> fst kp = fst (snd x) \<and> table_read D data insns_off x (snd kp))
    \<and> (BranchTargetOutOfRange op' s' t n \<in> set (snd acc') \<longleftrightarrow> BranchTargetOutOfRange op' s' t n \<in> set (snd acc)
      \<or> n = insns_size \<and> insns_size \<le> t \<and> s' = fst x \<and> op' = snd (snd x)
        \<and> (\<exists>p. table_read D data insns_off x p \<and> t \<in> set (payload_targets p)))"
  proof (cases rule: resolve_payload_cases)
    case (mismatch ex ob)
    then show ?thesis by (auto simp: acc x)
  next
    case (decoded q)
    have 1: "set (snd acc') = set v \<union> (\<lambda>t. BranchTargetOutOfRange op s t insns_size) ` {t \<in> set (payload_targets q). insns_size \<le> t}"
      using decoded(2) by simp
    have 2: "kp \<in> set (fst acc') \<longrightarrow> kp = (k, q) \<or> kp \<in> set pl"
      using decoded(2) btree_insert_set [of kp k q pl] by auto
    show ?thesis unfolding acc x fst_conv snd_conv 1 decoded(1) using 2 by (intro conjI) auto
  qed
  then show "set (snd acc) \<subseteq> set (snd acc')"
    "kp \<in> set (fst acc') \<Longrightarrow> kp \<in> set (fst acc) \<or> fst kp = fst (snd x) \<and> table_read D data insns_off x (snd kp)"
    "BranchTargetOutOfRange op' s' t n \<in> set (snd acc') \<longleftrightarrow> BranchTargetOutOfRange op' s' t n \<in> set (snd acc)
      \<or> n = insns_size \<and> insns_size \<le> t \<and> s' = fst x \<and> op' = snd (snd x)
        \<and> (\<exists>p. table_read D data insns_off x p \<and> t \<in> set (payload_targets p))" by simp_all
qed

lemma resolve_inv:
  assumes "foldE (resolve_payload D data insns_off insns_size) acc pend = Inr (pls, viols)"
  shows "set (snd acc) \<subseteq> set viols"
    "kp \<in> set pls \<Longrightarrow> kp \<in> set (fst acc) \<or> (\<exists>x \<in> set pend. fst kp = fst (snd x) \<and> table_read D data insns_off x (snd kp))"
    "BranchTargetOutOfRange op s t n \<in> set viols \<longleftrightarrow> BranchTargetOutOfRange op s t n \<in> set (snd acc)
       \<or> (\<exists>x \<in> set pend. n = insns_size \<and> insns_size \<le> t \<and> s = fst x \<and> op = snd (snd x)
            \<and> (\<exists>p. table_read D data insns_off x p \<and> t \<in> set (payload_targets p)))"
  using assms
proof (induction pend arbitrary: acc)
  case (Cons x pend)
  {
    case 1
    then obtain acc' where "resolve_payload D data insns_off insns_size acc x = Inr acc'"
      "foldE (resolve_payload D data insns_off insns_size) acc' pend = Inr (pls, viols)" by auto
    then show ?case using Cons.IH(1) resolve_step(1) by blast
  next
    case 2
    then obtain acc' where f: "resolve_payload D data insns_off insns_size acc x = Inr acc'"
      and r: "foldE (resolve_payload D data insns_off insns_size) acc' pend = Inr (pls, viols)" by auto
    show ?case using Cons.IH(2) [OF 2(1) r] resolve_step(2) [OF f, of kp] by auto
  next
    case 3
    then obtain acc' where "resolve_payload D data insns_off insns_size acc x = Inr acc'"
      and r: "foldE (resolve_payload D data insns_off insns_size) acc' pend = Inr (pls, viols)" by auto
    then show ?case unfolding Cons.IH(3) [OF r] list.set by (simp add: resolve_step(3)) blast
  }
qed simp_all

lemma target_violations_no_oob: "BranchTargetOutOfRange op s t n \<notin> set (target_violations starts ops sz i)"
  by (auto simp: target_violations_def split: option.splits if_splits)

lemma units_quiet:
  "decode_units1 fmt pc u0 insn = Inr (i, vs) \<Longrightarrow> vs = []"
  "decode_units2 rd fmt pc op u0 insn = Inr (i, vs) \<Longrightarrow> vs = []"
  "decode_units3 rd fmt pc u0 insn = Inr (i, vs) \<Longrightarrow> vs = []"
  unfolding decode_units1_def decode_units2_def decode_units3_def Let_def
  by (cases fmt; auto)+

lemma decode_single_violations:
  assumes "decode_single D data insns_off pc op = Inr (i, vs)" and "v \<in> set vs"
  shows "\<exists>n. v = OpcodeArgCountOutOfRange op pc n 5"
proof -
  obtain u0 where d: "decode_format (read_unit D data insns_off pc) pc op u0 = Inr (i, vs)"
    using assms(1) unfolding decode_single_def bindE_eq_Inr by blast
  have "vs = [] \<or> vs = vararg_violations op pc u0"
    using d units_quiet unfolding decode_format_def Let_def
    by (auto simp: decode_35c_def decode_45cc_def decode_3rc_def decode_4rcc_def decode_51l_def Let_def split: if_splits)
  with assms(2) show ?thesis by (auto simp: vararg_violations_def split: if_splits)
qed

lemma receiver_violations_set: "v \<in> set (receiver_violations op pc i) \<Longrightarrow> v = NonStaticInvokeArgCountZero op pc"
  unfolding receiver_violations_def Let_def
  by (cases "is_non_static_invoke op") (simp_all only: if_True if_False set_if_single list.set empty_iff)

lemma insn_violations_oob:
  "BranchTargetOutOfRange op s t n \<in> set (insn_violations op' pc i insns_size) \<longleftrightarrow>
   op = op' \<and> s = pc \<and> n = insns_size \<and> insns_size \<le> t \<and> target i = Some t"
proof -
  have "BranchTargetOutOfRange op s t n \<notin> set (zero_offset_violations op' pc i)"
    by (cases "is_branch_op op'"; cases "target i"; simp add: zero_offset_violations_def)
  moreover have "BranchTargetOutOfRange op s t n \<notin> set (fst (payload_request op' pc i))"
    by (cases "is_payload_op op'"; cases "target i"; simp add: payload_request_def)
  moreover have "BranchTargetOutOfRange op s t n \<notin> set (receiver_violations op' pc i)"
    using receiver_violations_set by blast
  ultimately have "BranchTargetOutOfRange op s t n \<in> set (insn_violations op' pc i insns_size) \<longleftrightarrow>
      BranchTargetOutOfRange op s t n \<in> set (oob_violations op' pc i insns_size)"
    by (simp add: insn_violations_def)
  then show ?thesis by (cases "target i") (auto simp: oob_violations_def)
qed

text \<open>The out-of-range violations of the loop are those of the targets of its instructions.\<close>

lemma loop_oob:
  assumes "stream_inv D data insns_off insns_size st"
  shows "BranchTargetOutOfRange op s t n \<in> set (d_viols st) \<longleftrightarrow> n = insns_size \<and> insns_size \<le> t
    \<and> (\<exists>i \<in> set (d_insns st). insn_op i = op \<and> addr i = s \<and> target i = Some t)"
proof
  assume "BranchTargetOutOfRange op s t n \<in> set (d_viols st)"
  then have "justified D data insns_off insns_size st (BranchTargetOutOfRange op s t n)"
    using assms by (simp add: stream_inv_def)
  then obtain i vs where i: "i \<in> set (d_insns st)" "decode_single D data insns_off (addr i) (insn_op i) = Inr (i, vs)"
    "BranchTargetOutOfRange op s t n \<in> set vs \<union> set (insn_violations (insn_op i) (addr i) i insns_size)"
    unfolding justified_def by auto
  then have "BranchTargetOutOfRange op s t n \<in> set (insn_violations (insn_op i) (addr i) i insns_size)"
    using decode_single_violations [OF i(2)] by auto
  with i(1) show "n = insns_size \<and> insns_size \<le> t
      \<and> (\<exists>i \<in> set (d_insns st). insn_op i = op \<and> addr i = s \<and> target i = Some t)"
    unfolding insn_violations_oob by blast
next
  assume "n = insns_size \<and> insns_size \<le> t \<and> (\<exists>i \<in> set (d_insns st). insn_op i = op \<and> addr i = s \<and> target i = Some t)"
  then obtain i where "i \<in> set (d_insns st)" "BranchTargetOutOfRange op s t n \<in> set (insn_violations (insn_op i) (addr i) i insns_size)"
    unfolding insn_violations_oob by blast
  with assms show "BranchTargetOutOfRange op s t n \<in> set (d_viols st)" by (auto simp: stream_inv_def recorded_def)
qed

lemma resolve_complete:
  "foldE (resolve_payload D data insns_off insns_size) acc pend = Inr (pls, viols) \<Longrightarrow>
   fst ` set (fst acc) \<subseteq> fst ` set pls \<and> set (snd acc) \<subseteq> set viols
   \<and> (\<forall>(s, k, op) \<in> set pend. k \<in> fst ` set pls \<or> (\<exists>ex ob. PayloadIdentMismatch op s k ex ob \<in> set viols))"
proof (induction pend arbitrary: acc)
  case (Cons x pend)
  obtain pl v s k op where acc: "acc = (pl, v)" and x: "x = (s, k, op)" by (cases acc; cases x) auto
  from Cons.prems obtain acc' where f: "resolve_payload D data insns_off insns_size acc x = Inr acc'"
    and r: "foldE (resolve_payload D data insns_off insns_size) acc' pend = Inr (pls, viols)" by auto
  have "fst ` set pl \<subseteq> fst ` set (fst acc') \<and> set v \<subseteq> set (snd acc')
    \<and> (k \<in> fst ` set (fst acc') \<or> (\<exists>ex ob. PayloadIdentMismatch op s k ex ob \<in> set (snd acc')))"
    using f unfolding acc x by (cases rule: resolve_payload_cases) (simp_all add: starts_insert, blast+)
  then show ?case using Cons.IH [OF r] acc x by auto
qed simp

lemma pc_to_opcode_lookup:
  assumes "sorted_wrt (\<lambda>i j. unat (addr i) + insn_size i \<le> unat (addr j)) ins" and "\<forall>i \<in> set ins. 0 < insn_size i"
    and "j \<in> set ins"
  shows "map_of (pc_to_opcode ins) (addr j) = Some (insn_op j)"
  using assms
proof (induction ins rule: rev_induct)
  case (snoc i ins)
  have e: "map_of (pc_to_opcode (ins @ [i])) = (map_of (pc_to_opcode ins))(addr i \<mapsto> insn_op i)"
    by (simp add: pc_to_opcode_def map_of_btree_insert)
  show ?case
  proof (cases "j = i")
    case False
    with snoc.prems have "j \<in> set ins" "unat (addr j) + insn_size j \<le> unat (addr i)" "0 < insn_size j"
      by (auto simp: sorted_wrt_append)
    then have "addr j \<noteq> addr i" by auto
    with e \<open>j \<in> set ins\<close> snoc show ?thesis by (auto simp: sorted_wrt_append)
  qed (simp add: e)
qed simp

lemma payload_op_target: "insn_wf i \<Longrightarrow> is_payload_op (insn_op i) \<Longrightarrow> \<exists>t. target i = Some t"
  by (auto simp: insn_wf_def is_payload_op_def insn_format_def target_in_def Let_def split: option.splits)

lemma payload_request_aligned:
  assumes "is_payload_op op" and "target i = Some t" and "fst (payload_request op pc i) = []"
  shows "t mod 2 = 0 \<and> (pc, t, op) \<in> set (snd (payload_request op pc i))"
proof (cases "t mod 2 = 0")
  case True
  then have "payload_request op pc i = ([], [(pc, t, op)])"
    unfolding payload_request_def assms(2) using assms(1) by (simp only: if_True option.case refl not_True_eq_False if_False)
  with True show ?thesis by simp
next
  case False
  then have "payload_request op pc i = ([UnalignedTableDexPc op pc t], [])"
    unfolding payload_request_def assms(2) using assms(1) by (simp only: if_True option.case not_False_eq_True)
  with assms(3) show ?thesis by simp
qed

lemma insns_laid:
  assumes "decode_insns D data insns_off insns_size = Inr (ins, pls, viols)"
  shows "sorted_wrt (\<lambda>i j. unat (addr i) + insn_size i \<le> unat (addr j)) ins
    \<and> (\<forall>i \<in> set ins. addr i < insns_size \<and> insn_wf i \<and> unat (addr i) + insn_size i < 2 ^ 32
         \<and> (\<exists>vs. decode_single D data insns_off (addr i) (insn_op i) = Inr (i, vs) \<and> set vs \<subseteq> set viols))"
proof -
  from assms obtain st where st: "decode_reach D data insns_off insns_size st" "d_insns st = ins"
    "foldE (resolve_payload D data insns_off insns_size)
       ([], d_viols st @ (if d_pc st > insns_size then [TailBytesAfterLastInstruction insns_size (d_pc st)] else [])
            @ concat (map (target_violations (d_starts st) (pc_to_opcode ins) insns_size) ins))
       (d_pending st) = Inr (pls, viols)"
    by (rule decode_insns_parts)
  have v: "set (d_viols st) \<subseteq> set viols" using resolve_inv [OF st(3)] by auto
  have "unat (d_pc st) < 2 ^ 32" using unat_u32_lt by simp
  then show ?thesis
    using reach_inv [OF st(1)] st(2) v unfolding stream_inv_def recorded_def by fastforce
qed

text \<open>The requests of the loop are the aligned table addresses of its switch and array-data instructions.\<close>

lemma request_shape:
  "(s, k, op) \<in> set (snd (if c then (case tg of Some t \<Rightarrow> if \<not> P t then (u t, []) else (v, [(pc, t, op')]) | None \<Rightarrow> (v, [])) else (v, [])))
   \<longleftrightarrow> s = pc \<and> op = op' \<and> c \<and> tg = Some k \<and> P k"
  by (cases tg) auto

lemma payload_request_iff:
  "(s, k, op) \<in> set (snd (payload_request op' pc i)) \<longleftrightarrow>
   s = pc \<and> op = op' \<and> is_payload_op op' \<and> target i = Some k \<and> k mod 2 = 0"
  unfolding payload_request_def by (rule request_shape [where P = "\<lambda>t. t mod 2 = 0"])

lemma loop_requests:
  assumes "stream_inv D data insns_off insns_size st"
  shows "set (d_pending st) = (\<Union>i \<in> set (d_insns st). set (snd (payload_request (insn_op i) (addr i) i)))"
proof -
  have "\<forall>e \<in> set (d_pending st). \<exists>i \<in> set (d_insns st). e \<in> set (snd (payload_request (insn_op i) (addr i) i))"
    using assms unfolding stream_inv_def by (elim conjE)
  moreover have "\<forall>i \<in> set (d_insns st). set (snd (payload_request (insn_op i) (addr i) i)) \<subseteq> set (d_pending st)"
    using assms by (simp add: stream_inv_def recorded_def)
  ultimately show ?thesis by blast
qed

section \<open>Properties\<close>

text \<open>C23 (decode_insns_layout). The decode loop returns for every input (it is a total function); when it succeeds,
  the instructions stand in ascending order and do not overlap, each starts inside the declared
  stream, is well-formed, and is what decoding at its own address gives.\<close>

theorem decode_insns_layout:
  assumes "decode_insns D data insns_off insns_size = Inr (ins, pls, viols)"
  shows "sorted_wrt (\<lambda>i j. unat (addr i) + insn_size i \<le> unat (addr j)) ins
    \<and> (\<forall>i \<in> set ins. addr i < insns_size \<and> insn_wf i \<and> unat (addr i) + insn_size i < 2 ^ 32
         \<and> (\<exists>vs. decode_single D data insns_off (addr i) (insn_op i) = Inr (i, vs) \<and> set vs \<subseteq> set viols))"
  by (rule insns_laid [OF assms])

text \<open>The table a switch instruction names: at an even address, introduced by the ident of its kind
  (\<open>0x0100\<close> packed, \<open>0x0200\<close> sparse), its targets taken relative to the switch.\<close>

definition switch_table :: "deps \<Rightarrow> byte list \<Rightarrow> nat \<Rightarrow> Instruction \<Rightarrow> PayloadData \<Rightarrow> bool" where
  "switch_table D data insns_off i p \<longleftrightarrow> (\<exists>k. target i = Some k \<and> k mod 2 = 0
     \<and> (insn_op i = PackedSwitch \<and> read_unit D data insns_off k 0 = Inr 0x0100
          \<and> decode_packed_switch D data insns_off k (addr i) = Inr p
        \<or> insn_op i = SparseSwitch \<and> read_unit D data insns_off k 0 = Inr 0x0200
          \<and> decode_sparse_switch D data insns_off k (addr i) = Inr p))"

lemma fill_array_no_targets: "decode_fill_array_data D data insns_off k = Inr p \<Longrightarrow> payload_targets p = []"
  by (auto simp: decode_fill_array_data_def Let_def split: if_splits prod.splits option.splits sum.splits)

lemma ex_shuffle:
  "(\<And>k p. P \<and> R k p \<and> T p \<longleftrightarrow> S k p \<and> T p) \<Longrightarrow>
   (\<exists>p. (\<exists>k. A k \<and> B k \<and> S k p) \<and> T p) \<longleftrightarrow> (\<exists>k p. P \<and> A k \<and> B k \<and> R k p \<and> T p)"
  by blast

lemma switch_table_iff:
  "(\<exists>p. switch_table D data insns_off i p \<and> t \<in> set (payload_targets p)) \<longleftrightarrow>
   (\<exists>k p. is_payload_op (insn_op i) \<and> target i = Some k \<and> k mod 2 = 0
      \<and> table_read D data insns_off (addr i, k, insn_op i) p \<and> t \<in> set (payload_targets p))"
proof -
  have "(is_payload_op op \<and> table_read D data insns_off (s, k, op) p \<and> t \<in> set (payload_targets p)) \<longleftrightarrow>
     (op = PackedSwitch \<and> read_unit D data insns_off k 0 = Inr 0x0100 \<and> decode_packed_switch D data insns_off k s = Inr p
      \<or> op = SparseSwitch \<and> read_unit D data insns_off k 0 = Inr 0x0200 \<and> decode_sparse_switch D data insns_off k s = Inr p)
     \<and> t \<in> set (payload_targets p)" for op s k p
    using fill_array_no_targets [of D data insns_off k p]
    by (auto simp: is_payload_op_def table_read_def expected_ident_def decode_payload_for_def)
  then show ?thesis unfolding switch_table_def by (intro ex_shuffle)
qed

lemma request_targets:
  "(\<exists>x \<in> set (snd (payload_request op' pc i)). s = fst x \<and> op = snd (snd x) \<and> (\<exists>p. Q x p)) \<longleftrightarrow>
   op' = op \<and> pc = s \<and> (\<exists>k p. is_payload_op op' \<and> target i = Some k \<and> k mod 2 = 0 \<and> Q (pc, k, op') p)"
proof -
  have "set (snd (payload_request op' pc i)) = {(pc, k, op') | k. is_payload_op op' \<and> target i = Some k \<and> k mod 2 = 0}"
    by (rule set_eqI) (use payload_request_iff [of _ _ _ op' pc i] in \<open>simp only: mem_Collect_eq split: prod.split; force\<close>)
  moreover have "(\<exists>x \<in> {(pc, k, op') | k. A k}. s = fst x \<and> op = snd (snd x) \<and> (\<exists>p. Q x p)) \<longleftrightarrow>
      op' = op \<and> pc = s \<and> (\<exists>k p. A k \<and> Q (pc, k, op') p)" for A by auto
  ultimately show ?thesis unfolding conj_assoc by (simp only: conj_assoc)
qed

lemma pending_targets:
  assumes "stream_inv D data insns_off insns_size st"
  shows "(\<exists>x \<in> set (d_pending st). s = fst x \<and> op = snd (snd x)
      \<and> (\<exists>p. table_read D data insns_off x p \<and> t \<in> set (payload_targets p)))
    \<longleftrightarrow> (\<exists>i \<in> set (d_insns st). insn_op i = op \<and> addr i = s
      \<and> (\<exists>p. switch_table D data insns_off i p \<and> t \<in> set (payload_targets p)))"
  unfolding loop_requests [OF assms] bex_UN request_targets switch_table_iff by (rule refl)


text \<open>C18 (decode_insns_clean). A stream decoded without a violation is closed: every instruction ends inside the
  declared stream; every branch lands on the first unit of a decoded instruction that is not a
  \<open>move-result\<close> or \<open>move-exception\<close>; every switch and \<open>fill-array-data\<close> points to an aligned payload
  that was decoded and kept.\<close>

theorem decode_insns_clean:
  assumes "decode_insns D data insns_off insns_size = Inr (ins, pls, [])"
  shows "\<forall>i \<in> set ins. unat (addr i) + insn_size i \<le> unat insns_size
    \<and> (\<forall>t. target i = Some t \<longrightarrow>
          (if is_payload_op (insn_op i) then t mod 2 = 0 \<and> t \<in> fst ` set pls
           else \<exists>j \<in> set ins. addr j = t \<and> t < insns_size
             \<and> insn_op j \<notin> set [MoveResult, MoveResultWide, MoveResultObject, MoveException]))"
proof -
  from assms obtain st where st: "decode_reach D data insns_off insns_size st" "d_insns st = ins"
    "foldE (resolve_payload D data insns_off insns_size)
       ([], d_viols st @ (if d_pc st > insns_size then [TailBytesAfterLastInstruction insns_size (d_pc st)] else [])
            @ concat (map (target_violations (d_starts st) (pc_to_opcode ins) insns_size) ins))
       (d_pending st) = Inr (pls, [])" (is "foldE _ ([], ?v0) _ = _")
    by (rule decode_insns_parts)
  note r = resolve_complete [OF st(3)]
  note inv = reach_inv [OF st(1), unfolded stream_inv_def st(2)]
  have "?v0 = []" using r by simp
  then have quiet: "d_viols st = []" "d_pc st \<le> insns_size"
    and post: "\<And>i. i \<in> set ins \<Longrightarrow> target_violations (d_starts st) (pc_to_opcode ins) insns_size i = []"
    by (auto simp: not_less split: if_splits)
  have pos: "\<forall>i \<in> set ins. 0 < insn_size i"
    using inv format_size_pos unfolding recorded_def insn_wf_def by metis
  show ?thesis
  proof
    fix i assume i: "i \<in> set ins"
    then have rec: "recorded D data insns_off insns_size st i" using inv by blast
    then have "unat (addr i) + insn_size i \<le> unat insns_size"
      using quiet(2) unfolding recorded_def word_le_nat_alt by linarith
    moreover have "t mod 2 = 0 \<and> t \<in> fst ` set pls" if t: "target i = Some t" and p: "is_payload_op (insn_op i)" for t
    proof -
      have "set (insn_violations (insn_op i) (addr i) i insns_size) \<subseteq> {}" using rec quiet(1) unfolding recorded_def by simp
      then have "fst (payload_request (insn_op i) (addr i) i) = []" unfolding insn_violations_def by simp
      then have e: "t mod 2 = 0" "(addr i, t, insn_op i) \<in> set (snd (payload_request (insn_op i) (addr i) i))"
        using payload_request_aligned [OF p t] by blast+
      then have "(addr i, t, insn_op i) \<in> set (d_pending st)" using rec unfolding recorded_def by blast
      from r [THEN conjunct2, THEN conjunct2, rule_format, OF this] e(1) show ?thesis by auto
    qed
    moreover have "\<exists>j \<in> set ins. addr j = t \<and> t < insns_size
        \<and> insn_op j \<notin> set [MoveResult, MoveResultWide, MoveResultObject, MoveException]"
      if t: "target i = Some t" and p: "\<not> is_payload_op (insn_op i)" for t
    proof -
      have "set (insn_violations (insn_op i) (addr i) i insns_size) \<subseteq> {}" using rec quiet(1) unfolding recorded_def by simp
      then have "oob_violations (insn_op i) (addr i) i insns_size = []" unfolding insn_violations_def by simp
      then have lt: "t < insns_size" using t by (simp add: oob_violations_def split: if_splits)
      then have m: "map_of (d_starts st) t \<noteq> None"
        and op: "\<And>p. map_of (pc_to_opcode ins) t = Some p \<Longrightarrow> p \<notin> set [MoveResult, MoveResultWide, MoveResultObject, MoveException]"
        using post [OF i] t p by (auto simp: target_violations_def not_le split: if_splits)
      from m have "t \<in> fst ` set (d_starts st)" by (simp add: map_of_eq_None_iff)
      then obtain j where j: "j \<in> set ins" "addr j = t" using inv quiet(1) by auto
      have "map_of (pc_to_opcode ins) t = Some (insn_op j)"
        using pc_to_opcode_lookup [OF _ pos j(1)] inv j(2) by blast
      with op j lt show ?thesis by blast
    qed
    ultimately show "unat (addr i) + insn_size i \<le> unat insns_size
      \<and> (\<forall>t. target i = Some t \<longrightarrow>
          (if is_payload_op (insn_op i) then t mod 2 = 0 \<and> t \<in> fst ` set pls
           else \<exists>j \<in> set ins. addr j = t \<and> t < insns_size
             \<and> insn_op j \<notin> set [MoveResult, MoveResultWide, MoveResultObject, MoveException]))"
      by simp
  qed
qed

lemma from_u8_at: "b = to_u8 op \<Longrightarrow> from_u8 b = Some op"
  by simp

text \<open>A loop: \<open>const/4 v0, 0\<close>, then \<open>if-eqz v0\<close> back to it, then \<open>return-void\<close>.\<close>

definition sample_stream :: "byte list" where
  "sample_stream = [0x12, 0x00, 0x38, 0x00, 0xFF, 0xFF, 0x0E, 0x00]"

definition sample_insns :: "Instruction list" where
  "sample_insns =
     [(blank_insn 0 Const4)\<lparr>dst := Some 0\<rparr>, (blank_insn 1 IfEqz)\<lparr>dst := Some 0, target := Some 0\<rparr>, blank_insn 3 ReturnVoid]"
lemmas decode_eval = safe_add_u32_def decode_step_def decode_single_def read_unit_def read_u16_def std_deps_def read_u16_le_def u16_of_le_def
        decode_format_def insn_format_def decode_units1_def decode_units2_def Let_def unit_a_def unit_b_def unit_aa_def branch_target_def
  insn_violations_def oob_violations_def zero_offset_violations_def is_branch_op_def payload_request_def is_payload_op_def receiver_violations_def is_non_static_invoke_def

lemma sample_decodes: "decode_insns (std_deps (\<lambda>_. [])) sample_stream 0 4 = Inr (sample_insns, [], [])"
proof -
  let ?D = "std_deps (\<lambda>_. [])"
  have ops: "from_u8 0x12 = Some Const4" "from_u8 0x38 = Some IfEqz" "from_u8 0x0E = Some ReturnVoid"
    by (rule from_u8_at, simp)+
  define s1 where "s1 = decode_init\<lparr>d_insns := take 1 sample_insns, d_starts := [(0, ())], d_pc := 1\<rparr>"
  define s2 where "s2 = s1\<lparr>d_insns := take 2 sample_insns, d_starts := [(0, ()), (1, ())], d_pc := 3\<rparr>"
  define s3 where "s3 = s2\<lparr>d_insns := sample_insns, d_starts := [(0, ()), (1, ()), (3, ())], d_pc := 4\<rparr>"
  have 1: "decode_step ?D sample_stream 0 4 decode_init = Inr s1"
    by (simp add: decode_eval ops decode_init_def sample_stream_def s1_def sample_insns_def sign_extend_4bit_to_i64_def blank_insn_def)
  have 2: "decode_step ?D sample_stream 0 4 s1 = Inr s2"
    by (simp add: decode_eval ops decode_init_def sample_stream_def s1_def s2_def sample_insns_def sign_extend_4bit_to_i64_def blank_insn_def)
  have 3: "decode_step ?D sample_stream 0 4 s2 = Inr s3"
    by (simp add: decode_eval ops decode_init_def sample_stream_def s1_def s2_def s3_def sample_insns_def sign_extend_4bit_to_i64_def blank_insn_def)
  have "d_pc decode_init = 0" "d_pc s1 = 1" "d_pc s2 = 3" "d_pc s3 = 4" by (simp_all add: decode_init_def s1_def s2_def s3_def)
  then have l: "decode_loop ?D sample_stream 0 4 decode_init = Inr s3"
    using 1 2 3 by (simp add: decode_loop.simps)
  have "d_insns s3 = sample_insns" "d_viols s3 = []" "d_pending s3 = []" "d_starts s3 = [(0, ()), (1, ()), (3, ())]"
    by (simp_all add: decode_init_def s1_def s2_def s3_def)
  with l \<open>d_pc s3 = 4\<close> show ?thesis
    by (simp add: decode_insns_def target_violations_def sample_insns_def blank_insn_def is_payload_op_def pc_to_opcode_def)
qed


theorem decode_insns_layout_witness:
  "sorted_wrt (\<lambda>i j. unat (addr i) + insn_size i \<le> unat (addr j)) sample_insns \<and> list_all insn_wf sample_insns"
  using decode_insns_layout [OF sample_decodes] by (simp add: list_all_iff)


theorem decode_insns_clean_witness:
  "\<exists>j \<in> set sample_insns. addr j = 0 \<and> insn_op j \<noteq> MoveException"
proof -
  have "sample_insns ! 1 \<in> set sample_insns" "target (sample_insns ! 1) = Some 0" "insn_op (sample_insns ! 1) = IfEqz"
    by (simp_all add: sample_insns_def blank_insn_def)
  with decode_insns_clean [OF sample_decodes] show ?thesis by (fastforce simp: is_payload_op_def)
qed

end
