(* ===== verification/Dex_Assemble.thy ===== *)
theory Dex_Assemble
  imports Dex_Stream
begin

text \<open>
  The instruction stream as a whole: layouts of instructions and payload tables, what
  \<open>assemble_insn_stream\<close> and \<open>compute_insns_size\<close> (\<open>src/src/emit_dex.rs\<close>) make of them, and that
  \<open>decode_insns\<close> (\<open>src/src/decode.rs\<close>) reads them back.
\<close>

section \<open>Layouts\<close>

text \<open>The units of a method in order: instructions and payload tables.\<close>

datatype item = Code Instruction | Table u32 PayloadData

primrec payload_len :: "PayloadData \<Rightarrow> nat" where
  "payload_len (PackedSwitchData k ts) = 4 + 2 * length ts"
| "payload_len (SparseSwitchData ks ts) = 2 + 4 * length ks"
| "payload_len (FillArrayDataPayload w d) = 4 + (length d + 1) div 2"

primrec item_pc :: "item \<Rightarrow> u32" where
  "item_pc (Code i) = addr i"
| "item_pc (Table k p) = k"

primrec item_len :: "item \<Rightarrow> nat" where
  "item_len (Code i) = insn_size i"
| "item_len (Table k p) = payload_len p"

fun codes :: "item list \<Rightarrow> Instruction list" where
  "codes [] = []"
| "codes (Code i # xs) = i # codes xs"
| "codes (Table k p # xs) = codes xs"

fun tables :: "item list \<Rightarrow> (u32 \<times> PayloadData) list" where
  "tables [] = []"
| "tables (Code i # xs) = tables xs"
| "tables (Table k p # xs) = (k, p) # tables xs"

fun laid :: "nat \<Rightarrow> item list \<Rightarrow> nat \<Rightarrow> bool" where
  "laid pc [] n \<longleftrightarrow> pc = n"
| "laid pc (x # xs) n \<longleftrightarrow> unat (item_pc x) = pc \<and> 0 < item_len x \<and> laid (pc + item_len x) xs n"

primrec kind_ok :: "Opcode \<Rightarrow> PayloadData \<Rightarrow> bool" where
  "kind_ok op (PackedSwitchData k ts) \<longleftrightarrow> op = PackedSwitch"
| "kind_ok op (SparseSwitchData ks ts) \<longleftrightarrow> op = SparseSwitch"
| "kind_ok op (FillArrayDataPayload w d) \<longleftrightarrow> op = FillArrayData"

text \<open>Array data whose byte length plus one still fits a \<open>u32\<close>: \<open>saturating_add(1)\<close> on a longer
  length gives the wrong number of units.\<close>

primrec payload_small :: "PayloadData \<Rightarrow> bool" where
  "payload_small (PackedSwitchData k ts) \<longleftrightarrow> True"
| "payload_small (SparseSwitchData ks ts) \<longleftrightarrow> True"
| "payload_small (FillArrayDataPayload w d) \<longleftrightarrow> length d + 1 < 2 ^ 32"

text \<open>A layout the assembler accepts: gapless from 0 to the declared size, its instructions
  well-formed, every table request aligned and answered by a table of the right kind, and every table
  emitted for the one instruction that requests it (tables of array data may have several).\<close>

definition requests :: "item list \<Rightarrow> Instruction \<Rightarrow> u32 \<Rightarrow> PayloadData \<Rightarrow> bool" where
  "requests items i k p \<longleftrightarrow> i \<in> set (codes items) \<and> target i = Some k \<and> kind_ok (insn_op i) p"

definition layout_ok :: "item list \<Rightarrow> u32 \<Rightarrow> bool" where
  "layout_ok items n \<longleftrightarrow> laid 0 items (unat n) \<and> (\<forall>i \<in> set (codes items). insn_wf i)
     \<and> (\<forall>i \<in> set (codes items). \<forall>k. is_payload_op (insn_op i) \<longrightarrow> target i = Some k \<longrightarrow>
          k mod 2 = 0 \<and> (\<exists>p. (k, p) \<in> set (tables items) \<and> kind_ok (insn_op i) p))
     \<and> (\<forall>(k, p) \<in> set (tables items). payload_small p \<and>
          (\<exists>i. requests items i k p) \<and> (\<forall>i. requests items i k p \<longrightarrow>
             (\<exists>bytes. emit_payload p (addr i) = Inr bytes)
             \<and> (insn_op i \<noteq> FillArrayData \<longrightarrow>
                 (\<forall>j \<in> set (codes items). is_payload_op (insn_op j) \<longrightarrow> target j = Some k \<longrightarrow> j = i))))"

lemma items_set: "set items = Code ` set (codes items) \<union> (\<lambda>(k, p). Table k p) ` set (tables items)"
  by (induction items rule: codes.induct) auto

lemma in_codes [simp]: "i \<in> set (codes items) \<longleftrightarrow> Code i \<in> set items"
  and in_tables [simp]: "(k, p) \<in> set (tables items) \<longleftrightarrow> Table k p \<in> set items"
  by (auto simp: items_set)

lemma laid_sorted:
  "laid pc items n \<Longrightarrow> sorted_wrt (\<lambda>x y. unat (item_pc x) + item_len x \<le> unat (item_pc y)) items
     \<and> (\<forall>x \<in> set items. pc \<le> unat (item_pc x) \<and> 0 < item_len x \<and> unat (item_pc x) + item_len x \<le> n) \<and> pc \<le> n"
proof (induction items arbitrary: pc)
  case (Cons x xs)
  then have "laid (pc + item_len x) xs n" "unat (item_pc x) = pc" "0 < item_len x" by simp_all
  with Cons.IH [of "pc + item_len x"] show ?case by fastforce
qed simp

lemma laid_disjoint:
  assumes "laid pc items n" "x \<in> set items" "y \<in> set items" "x \<noteq> y"
  shows "unat (item_pc x) + item_len x \<le> unat (item_pc y) \<or> unat (item_pc y) + item_len y \<le> unat (item_pc x)"
proof -
  note s = laid_sorted [OF assms(1), THEN conjunct1]
  obtain i j where ij: "i < length items" "x = items ! i" "j < length items" "y = items ! j"
    using assms(2,3) by (metis in_set_conv_nth)
  with assms(4) consider "i < j" | "j < i" by (metis linorder_neqE_nat)
  then show ?thesis
    using sorted_wrt_nth_less [OF s, of i j] sorted_wrt_nth_less [OF s, of j i] ij by cases simp_all
qed

lemma laid_distinct: "laid pc items n \<Longrightarrow> distinct items"
proof (induction items arbitrary: pc)
  case (Cons x xs)
  then have l: "laid (pc + item_len x) xs n" "unat (item_pc x) = pc" "0 < item_len x" by simp_all
  then have "x \<notin> set xs" using laid_sorted [OF l(1)] by fastforce
  with Cons.IH [OF l(1)] show ?case by simp
qed simp

lemma distinct_parts: "distinct items \<Longrightarrow> distinct (codes items) \<and> distinct (tables items)"
  by (induction items rule: codes.induct) auto

lemma laid_tables_sorted: "laid pc items n \<Longrightarrow> btree_ok (tables items)"
proof (induction items arbitrary: pc rule: codes.induct)
  case (3 k p xs)
  then have l: "laid (pc + payload_len p) xs n" "unat k = pc" "0 < payload_len p" by simp_all
  have "k < k'" if "(k', q) \<in> set (tables xs)" for k' q
    using laid_sorted [OF l(1)] that l(2,3) by (fastforce simp: word_less_nat_alt)
  with 3 l(1) show ?case by (fastforce simp: btree_ok_def)
qed (auto simp: btree_ok_def)

section \<open>Writing a layout\<close>

lemma write_at_ok:
  assumes "off + length buf \<le> length s" and "length s < 2 ^ 64"
  shows "\<exists>s'. write_at w s off buf = Inr s' \<and> length s' = length s \<and> at_off s' off buf
    \<and> (\<forall>p b. at_off s p b \<longrightarrow> p + length b \<le> off \<or> off + length buf \<le> p \<longrightarrow> at_off s' p b)"
proof -
  let ?s = "take off s @ buf @ drop (off + length buf) s"
  have len: "length ?s = length s" using assms(1) by simp
  have "write_at w s off buf = Inr ?s" using assms by (simp add: write_at_def)
  moreover have "at_off ?s off buf" using at_offI [of "take off s" buf] assms(1) by simp
  moreover have "at_off ?s p b" if at: "at_off s p b" and d: "p + length b \<le> off \<or> off + length buf \<le> p" for p b
  proof (rule at_off_nthI)
    show "p + length b \<le> length ?s" using len at_off_len [OF at] by simp
    show "?s ! (p + i) = b ! i" if i: "i < length b" for i
    proof -
      have "?s ! (p + i) = s ! (p + i)"
        using d i assms(1) at_off_len [OF at] by (auto simp: nth_append)
      then show ?thesis using at_off_nth [OF at i] by simp
    qed
  qed
  ultimately show ?thesis using len by blast
qed

lemma writes_ok:
  assumes "\<And>s x. x \<in> set xs \<Longrightarrow> f s x = write_at w s (pos x) (buf x)"
    and "\<forall>x \<in> set xs. pos x + length (buf x) \<le> N" and "N < 2 ^ 64"
    and "distinct xs"
    and "\<forall>x \<in> set xs. \<forall>y \<in> set xs. x \<noteq> y \<longrightarrow> pos x + length (buf x) \<le> pos y \<or> pos y + length (buf y) \<le> pos x"
    and "\<forall>(p, b) \<in> W. at_off s p b"
    and "\<forall>(p, b) \<in> W. \<forall>x \<in> set xs. p + length b \<le> pos x \<or> pos x + length (buf x) \<le> p"
    and "length s = N"
  shows "\<exists>s'. foldE f s xs = Inr s' \<and> length s' = N \<and> (\<forall>x \<in> set xs. at_off s' (pos x) (buf x)) \<and> (\<forall>(p, b) \<in> W. at_off s' p b)"
  using assms
proof (induction xs arbitrary: s W)
  case (Cons x xs)
  obtain s1 where s1: "write_at w s (pos x) (buf x) = Inr s1" "length s1 = N" "at_off s1 (pos x) (buf x)"
    "\<forall>p b. at_off s p b \<longrightarrow> p + length b \<le> pos x \<or> pos x + length (buf x) \<le> p \<longrightarrow> at_off s1 p b"
    using write_at_ok [of "pos x" "buf x" s w] Cons.prems by auto
  have "\<exists>s'. foldE f s1 xs = Inr s' \<and> length s' = N \<and> (\<forall>x \<in> set xs. at_off s' (pos x) (buf x))
      \<and> (\<forall>(p, b) \<in> insert (pos x, buf x) W. at_off s' p b)"
  proof (rule Cons.IH)
    show "\<forall>(p, b) \<in> insert (pos x, buf x) W. at_off s1 p b"
      using Cons.prems(6,7) s1(3,4) by (simp add: split_beta) blast
    show "\<forall>(p, b) \<in> insert (pos x, buf x) W. \<forall>y \<in> set xs. p + length b \<le> pos y \<or> pos y + length (buf y) \<le> p"
      using Cons.prems(4,5,7) by auto
  qed (use Cons.prems s1(2) in auto)
  then show ?case using Cons.prems(1) s1(1) by auto
qed simp

primrec item_bytes :: "item list \<Rightarrow> item \<Rightarrow> DexEmitError + byte list" where
  "item_bytes items (Code i) = emit_instruction [] i"
| "item_bytes items (Table k p) = bindE (switch_pc_of (codes items) k p) (emit_payload p)"

lemma emit_payload_len: "emit_payload p s = Inr bs \<Longrightarrow> length bs = 2 * payload_len p"
proof (cases p)
  case (PackedSwitchData k ts)
  then show "emit_payload p s = Inr bs \<Longrightarrow> length bs = 2 * payload_len p"
    by (auto simp: emit_payload_def emit_packed_switch_payload_def split: if_splits dest!: mapE_length)
next
  case (SparseSwitchData ks ts)
  then show "emit_payload p s = Inr bs \<Longrightarrow> length bs = 2 * payload_len p"
    by (auto simp: emit_payload_def emit_sparse_switch_payload_def strictly_ascending_from_verified_def
        split: if_splits sum.splits option.splits dest!: mapE_length)
next
  case (FillArrayDataPayload w d)
  have "length d mod 2 = 0 \<Longrightarrow> 2 * ((length d + 1) div 2) = length d" "length d mod 2 \<noteq> 0 \<Longrightarrow> 2 * ((length d + 1) div 2) = length d + 1"
    by presburger+
  with FillArrayDataPayload show "emit_payload p s = Inr bs \<Longrightarrow> length bs = 2 * payload_len p"
    by (auto simp: emit_payload_def emit_fill_array_data_payload_def split: if_splits)
qed

lemma layout_laid: "layout_ok items n \<Longrightarrow> laid 0 items (unat n)"
  by (simp add: layout_ok_def)

text \<open>The requester the assembler finds for a switch table is the one the table was laid out for.\<close>

lemma table_requester:
  assumes "layout_ok items n" and "Table k p \<in> set items"
  obtains i where "requests items i k p" "\<exists>bytes. emit_payload p (addr i) = Inr bytes"
    "item_bytes items (Table k p) = emit_payload p (addr i)"
proof -
  from assms obtain i where i: "requests items i k p" "\<exists>bytes. emit_payload p (addr i) = Inr bytes"
    and u: "insn_op i \<noteq> FillArrayData \<Longrightarrow> Code j \<in> set items \<Longrightarrow> is_payload_op (insn_op j) \<Longrightarrow> target j = Some k \<Longrightarrow> j = i" for j
    unfolding layout_ok_def by fastforce
  have "item_bytes items (Table k p) = emit_payload p (addr i)"
  proof (cases "\<exists>w d. p = FillArrayDataPayload w d")
    case True
    then show ?thesis by (auto simp: switch_pc_of_def emit_payload_def)
  next
    case False
    then have sw: "insn_op i \<in> set [PackedSwitch, SparseSwitch]" using i(1) by (cases p) (auto simp: requests_def)
    let ?P = "\<lambda>j. insn_op j \<in> set [PackedSwitch, SparseSwitch] \<and> target j = Some k"
    have "find ?P (codes items) = Some i"
    proof (cases "find ?P (codes items)")
      case None
      then show ?thesis using i(1) sw unfolding find_None_iff requests_def by blast
    next
      case (Some j)
      then have "?P j" "j \<in> set (codes items)" by (metis (mono_tags, lifting) find_Some_iff nth_mem)+
      with u [of j] sw Some show ?thesis by (auto simp: is_payload_op_def)
    qed
    with False show ?thesis by (cases p) (auto simp: switch_pc_of_def)
  qed
  with i that show thesis by blast
qed

lemma item_bytes_ok:
  assumes "layout_ok items n" and "x \<in> set items"
  shows "\<exists>bs. item_bytes items x = Inr bs \<and> length bs = 2 * item_len x"
proof (cases x)
  case (Code i)
  have "unat (addr i) + insn_size i \<le> unat n" using laid_sorted [OF layout_laid [OF assms(1)]] assms(2) Code by fastforce
  then have "unat (addr i) + insn_size i \<le> 2 ^ 32" using unat_u32_lt [of n] by simp
  moreover have "insn_wf i" using assms Code unfolding layout_ok_def in_codes [symmetric] by simp
  ultimately show ?thesis using std.emitted_bytes [of i "[]", where digest = "\<lambda>_. []"] Code by auto
next
  case (Table k p)
  then obtain i where i: "requests items i k p" "\<exists>bytes. emit_payload p (addr i) = Inr bytes"
      "item_bytes items (Table k p) = emit_payload p (addr i)"
    using table_requester [OF assms(1)] assms(2) by metis
  then show ?thesis using emit_payload_len [of p "addr i"] Table by auto
qed

lemma layout_disjoint:
  assumes "layout_ok items n" "x \<in> set items" "y \<in> set items" "x \<noteq> y"
  shows "unat (item_pc x) * 2 + 2 * item_len x \<le> unat (item_pc y) * 2 \<or> unat (item_pc y) * 2 + 2 * item_len y \<le> unat (item_pc x) * 2"
  using laid_disjoint [OF layout_laid [OF assms(1)] assms(2-4)] by linarith

lemma assemble_ok:
  assumes ok: "layout_ok items n"
  shows "\<exists>bytes. assemble_insn_stream (codes items) (tables items) n = Inr bytes \<and> length bytes = 2 * unat n
    \<and> (\<forall>x \<in> set items. at_off bytes (2 * unat (item_pc x)) (projr (item_bytes items x)))"
proof -
  define buf where "buf x = projr (item_bytes items x)" for x
  have len: "length (buf x) = 2 * item_len x" and ib: "item_bytes items x = Inr (buf x)" if "x \<in> set items" for x
    using item_bytes_ok [OF ok that] by (auto simp: buf_def)
  have fit: "unat (item_pc x) * 2 + 2 * item_len x \<le> unat n * 2" if "x \<in> set items" for x
    using laid_sorted [OF layout_laid [OF ok]] that by fastforce
  have N: "unat n * 2 < 2 ^ 64" using unat_u32_lt [of n] by simp
  have d: "distinct (codes items)" "distinct (tables items)"
    using distinct_parts [OF laid_distinct [OF layout_laid [OF ok]]] by simp_all
  have "\<exists>s. foldE write_insn (replicate (unat n * 2) 0) (codes items) = Inr s \<and> length s = unat n * 2
      \<and> (\<forall>i \<in> set (codes items). at_off s (unat (addr i) * 2) (buf (Code i))) \<and> (\<forall>(p, b) \<in> {}. at_off s p b)"
  proof (rule writes_ok [where w = "''instruction''"])
    show "write_insn s i = write_at ''instruction'' s (unat (addr i) * 2) (buf (Code i))" if "i \<in> set (codes items)" for s i
      using ib [of "Code i"] that by (simp add: write_insn_def)
    show "\<forall>i \<in> set (codes items). \<forall>j \<in> set (codes items). i \<noteq> j \<longrightarrow>
        unat (addr i) * 2 + length (buf (Code i)) \<le> unat (addr j) * 2 \<or> unat (addr j) * 2 + length (buf (Code j)) \<le> unat (addr i) * 2"
      using layout_disjoint [OF ok] len by fastforce
  qed (use fit [of "Code _"] len N d in \<open>auto simp: mult.commute\<close>)
  then obtain s where s: "foldE write_insn (replicate (unat n * 2) 0) (codes items) = Inr s" "length s = unat n * 2"
    "\<forall>i \<in> set (codes items). at_off s (unat (addr i) * 2) (buf (Code i))" by blast
  let ?W = "(\<lambda>i. (unat (addr i) * 2, buf (Code i))) ` set (codes items)"
  have "\<exists>s'. foldE (write_payload (codes items)) s (tables items) = Inr s' \<and> length s' = unat n * 2
      \<and> (\<forall>x \<in> set (tables items). at_off s' (unat (fst x) * 2) (buf (Table (fst x) (snd x)))) \<and> (\<forall>(p, b) \<in> ?W. at_off s' p b)"
  proof (rule writes_ok [where w = "''payload''"])
    show "write_payload (codes items) s x = write_at ''payload'' s (unat (fst x) * 2) (buf (Table (fst x) (snd x)))"
      if "x \<in> set (tables items)" for s x
      using ib [of "Table (fst x) (snd x)"] that by (cases x) (auto simp: write_payload_def)
    show "\<forall>x \<in> set (tables items). \<forall>y \<in> set (tables items). x \<noteq> y \<longrightarrow>
        unat (fst x) * 2 + length (buf (Table (fst x) (snd x))) \<le> unat (fst y) * 2
        \<or> unat (fst y) * 2 + length (buf (Table (fst y) (snd y))) \<le> unat (fst x) * 2"
      using layout_disjoint [OF ok] len by fastforce
    show "\<forall>(p, b) \<in> ?W. \<forall>x \<in> set (tables items). p + length b \<le> unat (fst x) * 2
        \<or> unat (fst x) * 2 + length (buf (Table (fst x) (snd x))) \<le> p"
      using layout_disjoint [OF ok, of "Code _" "Table _ _"] len by fastforce
    show "\<forall>x \<in> set (tables items). unat (fst x) * 2 + length (buf (Table (fst x) (snd x))) \<le> unat n * 2"
      using fit [of "Table _ _"] len by fastforce
  qed (use s N d in auto)
  then obtain s' where s': "foldE (write_payload (codes items)) s (tables items) = Inr s'" "length s' = unat n * 2"
    "\<forall>x \<in> set (tables items). at_off s' (unat (fst x) * 2) (buf (Table (fst x) (snd x)))" "\<forall>(p, b) \<in> ?W. at_off s' p b" by blast
  have "at_off s' (2 * unat (item_pc x)) (buf x)" if "x \<in> set items" for x
  proof (cases x)
    case (Code i)
    then show ?thesis using s'(4) that by (auto simp: mult.commute)
  next
    case (Table k p)
    then show ?thesis using s'(3) [rule_format, of "(k, p)"] that by (simp add: mult.commute)
  qed
  with s(1) s'(1,2) show ?thesis by (simp add: assemble_insn_stream_def buf_def mult.commute)
qed

section \<open>Decoding a layout\<close>

lemma nop_units: "insn_op i = Nop \<Longrightarrow> emit_units i = Inr us \<Longrightarrow> us = [0]"
  by (auto simp: emit_units_def emit_units1_def insn_format_def)

lemma low_byte: "ucast (u AND 0xFF) = (ucast (u :: u16) :: byte)"
  by (rule bit_word_eqI) (auto simp: bit_simps)

lemma ucast_ucast_byte: "ucast (ucast (b :: byte) :: u16) = b"
  by (rule bit_word_eqI) (auto simp: bit_simps)

context dex_deps
begin

lemma decode_step_code:
  assumes "fits data" and "insn_wf i" and bs: "emit_instruction [] i = Inr bs"
    and at: "at_off data (insns_off + 2 * unat (addr i)) bs"
    and sz: "unat (addr i) + insn_size i < 2 ^ 32" and pc: "d_pc st = addr i"
  shows "decode_step D data insns_off n st = Inr (st\<lparr>d_insns := d_insns st @ [i],
      d_viols := d_viols st @ insn_violations (insn_op i) (addr i) i n,
      d_pending := d_pending st @ snd (payload_request (insn_op i) (addr i) i),
      d_starts := btree_insert (addr i) () (d_starts st), d_pc := addr i + of_nat (insn_size i)\<rparr>)"
proof -
  obtain us where us: "emit_units i = Inr us" and c: "codec_ok i us"
    using insn_encodes [OF assms(2)] by (auto simp: encodes_def split: sum.splits)
  have at': "at_off data (insns_off + 2 * unat (addr i)) (units_to_le us)"
    using at bs us by (simp add: emit_instruction_def foldl_push_u16)
  have d: "decode_single D data insns_off (addr i) (insn_op i) = Inr (i, [])"
    using decode_emitted [OF assms(2,1) us at'] sz by simp
  have u0: "read_unit D data insns_off (addr i) 0 = Inr (hd us)"
    using read_unit_at [OF assms(1) at', of 0] c sz by (simp add: codec_ok_def hd_conv_nth)
  have op: "ucast (hd us AND 0xFF) = to_u8 (insn_op i)" using c by (simp add: codec_ok_def ucast_ucast_byte)
  have np: "\<not> (to_u8 (insn_op i) = 0 \<and> ((ucast (drop_bit 8 (hd us)) :: byte) = 1
      \<or> (ucast (drop_bit 8 (hd us)) :: byte) = 2 \<or> (ucast (drop_bit 8 (hd us)) :: byte) = 3))"
  proof
    assume a: "to_u8 (insn_op i) = 0 \<and> ((ucast (drop_bit 8 (hd us)) :: byte) = 1
      \<or> (ucast (drop_bit 8 (hd us)) :: byte) = 2 \<or> (ucast (drop_bit 8 (hd us)) :: byte) = 3)"
    then have "to_u8 (insn_op i) = to_u8 Nop" by simp
    then have "insn_op i = Nop" by (metis from_u8_to_u8 option.inject)
    from nop_units [OF this us] a show False by simp
  qed
  have "unat (of_nat (insn_size i) :: u32) = insn_size i"
    using sz by (simp add: unat_of_nat take_bit_nat_eq_self)
  then have "safe_add_u32 (addr i) (of_nat (insn_size i)) m = Inr (addr i + of_nat (insn_size i))" for m
    using sz by (simp add: safe_add_u32_def)
  then show ?thesis
    unfolding decode_step_def Let_def pc u0 bindE.simps op if_not_P [OF np] from_u8_to_u8 option.case d by simp
qed

end

primrec ident_byte :: "PayloadData \<Rightarrow> byte" where
  "ident_byte (PackedSwitchData k ts) = 1"
| "ident_byte (SparseSwitchData ks ts) = 2"
| "ident_byte (FillArrayDataPayload w d) = 3"

context dex_deps
begin

lemma payload_head:
  assumes "fits data" and "at_off data (insns_off + 2 * unat k) (units_to_le [u0, u1] @ rest)" and "unat k + 2 \<le> 2 ^ 32"
  shows "read_unit D data insns_off k 0 = Inr u0" "read_unit D data insns_off k 1 = Inr u1"
    "at_off data (insns_off + 2 * unat k + 4) rest"
  using assms read_unit_at [OF assms(1), of insns_off k "[u0, u1]"] unfolding at_off_two_units by simp_all

lemma payload_size_emitted:
  assumes f: "fits data" and e: "emit_payload p s = Inr bs" and at: "at_off data (insns_off + 2 * unat k) bs"
    and sz: "unat k + payload_len p < 2 ^ 32" and small: "payload_small p"
  shows "payload_size D data insns_off k (ident_byte p) = Inr (of_nat (payload_len p))
    \<and> read_unit D data insns_off k 0 = Inr (push_bit 8 (ucast (ident_byte p)))"
proof (cases p)
  case (PackedSwitchData key ts)
  obtain rest where b: "bs = units_to_le [0x0100, of_nat (length ts)] @ rest" and n: "length ts < 2 ^ 16"
    using e PackedSwitchData by (auto simp: emit_payload_def emit_packed_switch_payload_def split: if_splits)
  note h = payload_head [OF f at [unfolded b]]
  have u: "unat (ucast (of_nat (length ts) :: u16) :: u32) = length ts" using n by (simp add: unat_ucast_up unat_of_nat_u16)
  have "safe_add_u32 (of_nat (length ts * 2)) 4 c = Inr (of_nat (length ts * 2 + 4))" for c
    using n by (intro safe_add_u32_nat unat_of_nat_u32) simp_all
  then have "payload_size D data insns_off k 1 = Inr (of_nat (length ts * 2 + 4))"
    using h sz n PackedSwitchData by (simp add: payload_size_def safe_mul_u32_nat [OF u, where b = 2 and y = 2])
  then show ?thesis using h(1) sz PackedSwitchData by (simp add: mult.commute add.commute)
next
  case (SparseSwitchData ks ts)
  obtain rest where b: "bs = units_to_le [0x0200, of_nat (length ks)] @ rest" and n: "length ks < 2 ^ 16"
    using e SparseSwitchData by (auto simp: emit_payload_def emit_sparse_switch_payload_def strictly_ascending_from_verified_def
        split: if_splits sum.splits option.splits)
  note h = payload_head [OF f at [unfolded b]]
  have u: "unat (ucast (of_nat (length ks) :: u16) :: u32) = length ks" using n by (simp add: unat_ucast_up unat_of_nat_u16)
  have "safe_add_u32 (of_nat (length ks * 4)) 2 c = Inr (of_nat (length ks * 4 + 2))" for c
    using n by (intro safe_add_u32_nat unat_of_nat_u32) simp_all
  then have "payload_size D data insns_off k 2 = Inr (of_nat (length ks * 4 + 2))"
    using h sz n SparseSwitchData by (simp add: payload_size_def safe_mul_u32_nat [OF u, where b = 4 and y = 4])
  then show ?thesis using h(1) sz SparseSwitchData by (simp add: mult.commute add.commute)
next
  case (FillArrayDataPayload w d)
  let ?m = "length d div unat w"
  obtain rest where b: "bs = units_to_le [0x0300, w] @ u32_to_le (of_nat ?m) @ rest" and n: "?m < 2 ^ 32"
    and w: "length d mod unat w = 0"
    using e FillArrayDataPayload by (auto simp: emit_payload_def emit_fill_array_data_payload_def split: if_splits)
  note h = payload_head [OF f at [unfolded b]]
  have k: "unat k + 2 \<le> 2 ^ 32" using sz FillArrayDataPayload by simp
  have r: "read_u32 D data (insns_off + 2 * unat k + 4) = Inr (of_nat ?m)"
    using h(3) [OF k] read_u32_at [OF f] unfolding at_off_append by blast
  have off: "insns_off + 2 * unat k + 4 < 2 ^ 63" using at_off_len [OF h(3) [OF k]] f by (simp add: fits_def)
  have lt: "length d < 2 ^ 32" using small FillArrayDataPayload by simp
  have cnt: "?m * unat w = length d" using w by (metis add.right_neutral div_mult_mod_eq)
  have m: "safe_mul_u32 (of_nat ?m) (ucast w) c = Inr (of_nat (length d))" for c
    using safe_mul_u32_nat [OF unat_of_nat_u32 [OF n], of "ucast w" "unat w" c] lt by (simp add: cnt unat_ucast_up)
  have "unat (div_ceil2 (of_nat (length d))) = (length d + 1) div 2"
    using lt unfolding div_ceil2_def unat_of_nat_u32 [OF lt] by (intro unat_of_nat_u32) simp
  then have "safe_add_u32 4 (div_ceil2 (of_nat (length d))) c = Inr (of_nat (4 + (length d + 1) div 2))" for c
    using sz FillArrayDataPayload by (intro safe_add_u32_nat) simp_all
  then have "payload_size D data insns_off k 3 = Inr (of_nat (4 + (length d + 1) div 2))"
    using h(2) [OF k] r m off by (simp add: payload_size_def mult.commute)
  then show ?thesis using h(1) [OF k] FillArrayDataPayload by simp
qed

lemma decode_step_table:
  assumes "fits data" and "emit_payload p s = Inr bs" and "at_off data (insns_off + 2 * unat k) bs"
    and sz: "unat k + payload_len p < 2 ^ 32" and "payload_small p" and pc: "d_pc st = k"
  shows "decode_step D data insns_off n st = Inr (st\<lparr>d_pc := k + of_nat (payload_len p)\<rparr>)"
proof -
  note e = payload_size_emitted [OF assms(1-5)]
  have i: "ident_byte p = 1 \<or> ident_byte p = 2 \<or> ident_byte p = 3" by (cases p) simp_all
  have b: "ucast (push_bit 8 (ucast (ident_byte p) :: u16) AND 0xFF) = (0 :: byte)"
    "ucast (drop_bit 8 (push_bit 8 (ucast (ident_byte p) :: u16))) = ident_byte p"
    using i by auto
  have "safe_add_u32 k (of_nat (payload_len p)) m = Inr (k + of_nat (payload_len p))" for m
    using sz by (simp add: safe_add_u32_def unat_of_nat_u32)
  then show ?thesis unfolding decode_step_def Let_def pc using e b i by simp
qed

end

text \<open>An item, emitted, where it stands in a file.\<close>

definition placed :: "byte list \<Rightarrow> nat \<Rightarrow> item \<Rightarrow> bool" where
  "placed data off x \<longleftrightarrow>
     (case x of
        Code i \<Rightarrow> insn_wf i \<and> (\<exists>bs. emit_instruction [] i = Inr bs \<and> at_off data (off + 2 * unat (addr i)) bs)
      | Table k p \<Rightarrow> (\<exists>s bs. emit_payload p s = Inr bs \<and> at_off data (off + 2 * unat k) bs) \<and> payload_small p)"

definition wanted :: "Instruction list \<Rightarrow> (u32 \<times> u32 \<times> Opcode) list" where
  "wanted insns = concat (map (\<lambda>i. snd (payload_request (insn_op i) (addr i) i)) insns)"

context dex_deps
begin

lemma decode_loop_layout:
  assumes "fits data" and "laid (unat (d_pc st)) items (unat n)" and "\<forall>x \<in> set items. placed data off x"
  shows "\<exists>st'. decode_loop D data off n st = Inr st' \<and> d_pc st' = n \<and> d_insns st' = d_insns st @ codes items
    \<and> d_pending st' = d_pending st @ wanted (codes items)"
  using assms(2,3)
proof (induction items arbitrary: st)
  case Nil
  then have "d_pc st = n" by (simp add: word_unat_eq_iff)
  then show ?case by (subst decode_loop.simps) (simp add: wanted_def)
next
  case (Cons x items)
  let ?pc = "d_pc st"
  have x: "item_pc x = ?pc" "0 < item_len x" and l: "laid (unat ?pc + item_len x) items (unat n)"
    using Cons.prems(1) by (simp_all add: word_unat_eq_iff)
  have le: "unat ?pc + item_len x \<le> unat n" using laid_sorted [OF l] by simp
  then have lt: "unat ?pc + item_len x < 2 ^ 32" using unat_u32_lt [of n] by simp
  have pc': "unat (?pc + of_nat (item_len x)) = unat ?pc + item_len x"
    using lt by (simp add: unat_of_nat_u32 unat_add_no_wrap)
  have go: "?pc < n" using le x(2) by (simp add: word_less_nat_alt)
  obtain st1 where st1: "decode_step D data off n st = Inr st1" "d_pc st1 = ?pc + of_nat (item_len x)"
    "d_insns st1 = d_insns st @ codes [x]" "d_pending st1 = d_pending st @ wanted (codes [x])"
  proof (cases x)
    case (Code i)
    then obtain bs where "insn_wf i" "emit_instruction [] i = Inr bs" "at_off data (off + 2 * unat (addr i)) bs"
      using Cons.prems(2) by (auto simp: placed_def)
    note step = decode_step_code [OF assms(1) this]
    from Code x lt have "unat (addr i) + insn_size i < 2 ^ 32" "d_pc st = addr i" by simp_all
    from that [OF step [OF this]] this(2) show thesis by (simp add: wanted_def Code)
  next
    case (Table k p)
    then obtain s bs where "emit_payload p s = Inr bs" "at_off data (off + 2 * unat k) bs" "payload_small p"
      using Cons.prems(2) by (auto simp: placed_def)
    note step = decode_step_table [OF assms(1) this(1,2) _ this(3)]
    from Table x lt have "unat k + payload_len p < 2 ^ 32" "d_pc st = k" by simp_all
    from that [OF step [OF this]] this(2) show thesis by (simp add: wanted_def Table)
  qed
  have "codes (x # items) = codes [x] @ codes items" by (cases x) simp_all
  moreover have "laid (unat (d_pc st1)) items (unat n)" using l pc' st1(2) by simp
  ultimately show ?case
    using Cons.IH [of st1] Cons.prems(2) st1 go by (subst decode_loop.simps) (auto simp: wanted_def)
qed

lemma decode_requested:
  assumes "fits data" and "emit_payload p (addr i) = Inr bs" and "at_off data (off + 2 * unat k) bs"
    and "unat k + payload_len p < 2 ^ 32" and "kind_ok op p" and "payload_small p"
    and "s = addr i \<or> op = FillArrayData"
  shows "\<exists>vs. resolve_payload D data off n (pls, viols) (s, k, op) = Inr (btree_insert k p pls, vs)"
proof -
  have k: "unat k + 2 \<le> 2 ^ 32" using assms(4) by (cases p) auto
  have "decode_payload_for D data off k s op = Inr p"
    using assms(2,5,7) packed_switch_roundtrip [OF assms(1) _ assms(3) k] sparse_switch_roundtrip [OF assms(1) _ assms(3) k]
      fill_array_roundtrip [OF assms(1) _ assms(3) k]
    by (cases p) (auto simp: decode_payload_for_def emit_payload_def strictly_ascending_from_verified_def
        split: sum.splits option.splits)
  moreover have "expected_ident op = Some (push_bit 8 (ucast (ident_byte p)))"
    using assms(5) by (cases p) (auto simp: expected_ident_def)
  ultimately show ?thesis
    using payload_size_emitted [OF assms(1-4) assms(6)] by (simp add: resolve_payload_def)
qed

end

lemma foldE_resolve:
  assumes "\<And>pls viols x. x \<in> set pend \<Longrightarrow> \<exists>vs. f (pls, viols) x = Inr (btree_insert (key x) (val (key x)) pls, vs)"
  shows "\<exists>vs. foldE f (pls, viols) pend = Inr (foldl (\<lambda>m x. btree_insert (key x) (val (key x)) m) pls pend, vs)"
  using assms
proof (induction pend arbitrary: pls viols)
  case (Cons x pend)
  obtain vs where "f (pls, viols) x = Inr (btree_insert (key x) (val (key x)) pls, vs)" using Cons.prems [of x] by auto
  then show ?case using Cons by simp
qed simp

lemma foldl_btree_insert:
  "map_of (foldl (\<lambda>m x. btree_insert (key x) (val (key x)) m) m xs)
     = (\<lambda>k. if k \<in> key ` set xs then Some (val k) else map_of m k)
   \<and> (btree_ok m \<longrightarrow> btree_ok (foldl (\<lambda>m x. btree_insert (key x) (val (key x)) m) m xs))"
  by (induction xs arbitrary: m) (auto simp: map_of_btree_insert btree_insert_ok fun_eq_iff)

lemma layout_placed:
  assumes "layout_ok items n" and "x \<in> set items" and "at_off data (off + 2 * unat (item_pc x)) (projr (item_bytes items x))"
  shows "placed data off x"
proof (cases x)
  case (Code i)
  with assms item_bytes_ok [OF assms(1,2)] show ?thesis unfolding placed_def layout_ok_def in_codes [symmetric] by auto
next
  case (Table k p)
  then obtain i bs where i: "requests items i k p" "emit_payload p (addr i) = Inr bs"
      "item_bytes items (Table k p) = emit_payload p (addr i)"
    using table_requester [OF assms(1)] assms(2) by metis
  moreover have "payload_small p"
    using assms(1,2) Table unfolding layout_ok_def in_tables [symmetric] by auto
  moreover have "at_off data (off + 2 * unat k) bs" using assms(3) unfolding Table i(2,3) by simp
  ultimately show ?thesis unfolding placed_def Table item.case by blast
qed

lemma wanted_iff:
  assumes "layout_ok items n"
  shows "(s, k, op) \<in> set (wanted (codes items)) \<longleftrightarrow>
    (\<exists>j \<in> set (codes items). addr j = s \<and> insn_op j = op \<and> is_payload_op op \<and> target j = Some k)"
proof -
  have "(s, k, op) \<in> set (snd (payload_request (insn_op j) (addr j) j)) \<longleftrightarrow>
      addr j = s \<and> insn_op j = op \<and> is_payload_op op \<and> target j = Some k" if j: "j \<in> set (codes items)" for j
  proof (cases "is_payload_op (insn_op j)")
    case True
    show ?thesis
    proof (cases "target j")
      case (Some t)
      then have "t mod 2 = 0" using assms j True unfolding layout_ok_def by blast
      then have "payload_request (insn_op j) (addr j) j = ([], [(addr j, t, insn_op j)])"
        unfolding payload_request_def Some using True by (simp only: if_True option.case refl not_True_eq_False if_False)
      then show ?thesis using True Some by auto
    qed (simp add: payload_request_def)
  qed (auto simp: payload_request_def)
  then show ?thesis unfolding wanted_def by auto
qed

context dex_deps
begin

lemma decode_layout:
  assumes f: "fits data" and ok: "layout_ok items n"
    and at: "\<forall>x \<in> set items. at_off data (off + 2 * unat (item_pc x)) (projr (item_bytes items x))"
  shows "\<exists>viols. decode_insns D data off n = Inr (codes items, tables items, viols)"
proof -
  note l = layout_laid [OF ok]
  have pl: "\<forall>x \<in> set items. placed data off x" using layout_placed [OF ok] at by blast
  obtain st where st: "decode_loop D data off n decode_init = Inr st" "d_insns st = codes items" "d_pending st = wanted (codes items)"
    using decode_loop_layout [OF f _ pl, of decode_init n] l by (auto simp: decode_init_def)
  define val where "val k = the (map_of (tables items) k)" for k
  have bt: "btree_ok (tables items)" by (rule laid_tables_sorted [OF l])
  then have dist: "distinct (map fst (tables items))" unfolding btree_ok_def strict_sorted_iff by simp
  have val: "Table k p \<in> set items \<Longrightarrow> val k = p" for k p using dist by (simp add: val_def map_of_eq_Some_iff)
  have res: "\<exists>vs. resolve_payload D data off n (pls, viols) x = Inr (btree_insert (fst (snd x)) (val (fst (snd x))) pls, vs)"
    if x: "x \<in> set (wanted (codes items))" for pls viols x
  proof -
    obtain s k op where e: "x = (s, k, op)" by (cases x)
    obtain j where j: "j \<in> set (codes items)" "addr j = s" "insn_op j = op" "is_payload_op op" "target j = Some k"
      using x e wanted_iff [OF ok] by blast
    then obtain p where p: "Table k p \<in> set items" "kind_ok op p" using ok unfolding layout_ok_def in_tables by blast
    then obtain i bs where i: "requests items i k p" "emit_payload p (addr i) = Inr bs"
        "item_bytes items (Table k p) = emit_payload p (addr i)"
      using table_requester [OF ok] by metis
    have u: "payload_small p"
      and one: "insn_op i \<noteq> FillArrayData \<longrightarrow> j = i"
      using ok p(1) i(1) j unfolding layout_ok_def in_tables [symmetric] by blast+
    have "insn_op i = op" using i(1) p(2) unfolding requests_def by (cases p) simp_all
    then have s: "s = addr i \<or> op = FillArrayData" using one j by auto
    have "unat k + payload_len p \<le> unat n" using laid_sorted [OF l] p(1) by fastforce
    then have sz: "unat k + payload_len p < 2 ^ 32" using unat_u32_lt [of n] by simp
    have "at_off data (off + 2 * unat k) bs" using at p(1) i(2,3) by fastforce
    from decode_requested [OF f i(2) this sz p(2) u s] show ?thesis by (simp add: e val [OF p(1)])
  qed
  have vs: "\<exists>vs. foldE (resolve_payload D data off n) ([], v0) (wanted (codes items))
      = Inr (foldl (\<lambda>m x. btree_insert (fst (snd x)) (val (fst (snd x))) m) [] (wanted (codes items)), vs)" for v0
    by (rule foldE_resolve) (rule res)
  have "foldl (\<lambda>m x. btree_insert (fst (snd x)) (val (fst (snd x))) m) [] (wanted (codes items)) = tables items"
  proof (rule btree_ext [OF _ bt])
    note fb = foldl_btree_insert [where key = "\<lambda>x. fst (snd x)" and val = val and m = "[]" and xs = "wanted (codes items)"]
    then show "btree_ok (foldl (\<lambda>m x. btree_insert (fst (snd x)) (val (fst (snd x))) m) [] (wanted (codes items)))"
      by (simp add: btree_ok_def)
    have "k \<in> (\<lambda>x. fst (snd x)) ` set (wanted (codes items)) \<longleftrightarrow> (\<exists>p. Table k p \<in> set items)" for k
    proof
      assume "k \<in> (\<lambda>x. fst (snd x)) ` set (wanted (codes items))"
      then obtain s op where "(s, k, op) \<in> set (wanted (codes items))" by force
      then show "\<exists>p. Table k p \<in> set items"
        using ok unfolding wanted_iff [OF ok] layout_ok_def in_tables by blast
    next
      assume "\<exists>p. Table k p \<in> set items"
      then obtain p where "Table k p \<in> set items" ..
      then obtain i where "requests items i k p" using table_requester [OF ok] by metis
      moreover then have "is_payload_op (insn_op i)" by (cases p) (simp_all add: requests_def is_payload_op_def)
      ultimately have "(addr i, k, insn_op i) \<in> set (wanted (codes items))"
        unfolding wanted_iff [OF ok] requests_def by blast
      then show "k \<in> (\<lambda>x. fst (snd x)) ` set (wanted (codes items))" by force
    qed
    moreover have "map_of (tables items) k = (if \<exists>p. Table k p \<in> set items then Some (val k) else None)" for k
      using dist val by (cases "map_of (tables items) k") (auto simp: map_of_eq_Some_iff map_of_eq_None_iff image_iff dest: map_of_SomeD)
    ultimately have "(if k \<in> (\<lambda>x. fst (snd x)) ` set (wanted (codes items)) then Some (val k) else None) = map_of (tables items) k" for k
      by simp
    then show "map_of (foldl (\<lambda>m x. btree_insert (fst (snd x)) (val (fst (snd x))) m) [] (wanted (codes items))) = map_of (tables items)"
      unfolding fb [THEN conjunct1] by (intro ext) (simp only: map_of.simps)
  qed
  with vs have "\<exists>vs. foldE (resolve_payload D data off n) ([], v0) (wanted (codes items)) = Inr (tables items, vs)" for v0
    by simp
  then obtain vs where "foldE (resolve_payload D data off n)
      ([], d_viols st @ (if d_pc st > n then [TailBytesAfterLastInstruction n (d_pc st)] else [])
         @ concat (map (target_violations (d_starts st) (pc_to_opcode (d_insns st)) n) (d_insns st)))
      (d_pending st) = Inr (tables items, vs)" unfolding st(3) by blast
  then show ?thesis using st(1,2) unfolding decode_insns_def Let_def by simp
qed

end

section \<open>The computed size\<close>

lemma sat_add_exact: "unat a + b < 2 ^ 32 \<Longrightarrow> sat_add a b = a + of_nat b"
  by (simp add: sat_add_def min_def)

lemma laid_last: "laid pc items n \<Longrightarrow> pc = n \<or> (\<exists>x \<in> set items. unat (item_pc x) + item_len x = n)"
  by (induction items arbitrary: pc) auto

lemma sat_mul_exact: "unat a * b < 2 ^ 32 \<Longrightarrow> sat_mul a b = of_nat (unat a * b)"
  by (simp add: sat_mul_def min_def)

text \<open>The size \<open>compute_insns_size\<close> gives a table is the number of units its layout has.\<close>

lemma payload_units_len:
  assumes "payload_small p" and "payload_len p < 2 ^ 32"
  shows "payload_units p = Inr (of_nat (payload_len p))"
proof (cases p)
  case (PackedSwitchData k ts)
  then have n: "length ts < 2 ^ 32" "length ts * 2 < 2 ^ 32" "4 + length ts * 2 < 2 ^ 32" using assms(2) by simp_all
  then have "sat_mul (of_nat (length ts)) 2 = of_nat (length ts * 2)" by (simp add: sat_mul_exact unat_of_nat_u32 del: of_nat_mult)
  then show ?thesis
    using n PackedSwitchData sat_add_exact [of 4 "length ts * 2"]
    by (simp add: payload_units_def unat_of_nat_u32 mult.commute del: of_nat_mult)
next
  case (SparseSwitchData ks ts)
  then have n: "length ks < 2 ^ 32" "length ks * 4 < 2 ^ 32" "2 + length ks * 4 < 2 ^ 32" using assms(2) by simp_all
  then have "sat_mul (of_nat (length ks)) 4 = of_nat (length ks * 4)" by (simp add: sat_mul_exact unat_of_nat_u32 del: of_nat_mult)
  then show ?thesis
    using n SparseSwitchData sat_add_exact [of 2 "length ks * 4"]
    by (simp add: payload_units_def unat_of_nat_u32 mult.commute del: of_nat_mult)
next
  case (FillArrayDataPayload w d)
  then have n: "length d < 2 ^ 32" "length d + 1 < 2 ^ 32" "4 + (length d + 1) div 2 < 2 ^ 32" using assms by simp_all
  then have "unat (sat_add (of_nat (length d)) 1) = length d + 1" using sat_add_exact [of "of_nat (length d)" 1] unat_add_no_wrap [of "of_nat (length d)" 1] by (simp add: unat_of_nat_u32 add.commute)
  then show ?thesis
    using n FillArrayDataPayload by (simp add: payload_units_def sat_add_exact)
qed

lemma compute_layout_size:
  assumes ok: "layout_ok items n"
  shows "compute_insns_size (codes items) (tables items) = Inr n"
proof -
  note l = layout_laid [OF ok]
  define end_of where "end_of x = item_pc x + of_nat (item_len x)" for x
  have fit: "unat (item_pc x) + item_len x \<le> unat n" if "x \<in> set items" for x
    using laid_sorted [OF l] that by blast
  have lt: "unat (item_pc x) + item_len x < 2 ^ 32" if "x \<in> set items" for x
    using fit [OF that] unat_u32_lt [of n] by simp
  have sat: "sat_add (item_pc x) (item_len x) = end_of x" if "x \<in> set items" for x
    using sat_add_exact [OF lt [OF that]] by (simp add: end_of_def)
  have u: "unat (end_of x) = unat (item_pc x) + item_len x" if "x \<in> set items" for x
    using lt [OF that] by (simp add: end_of_def unat_of_nat_u32 unat_add_no_wrap)
  then have le: "end_of x \<le> n" if "x \<in> set items" for x using fit that by (simp add: word_le_nat_alt)
  define m0 where "m0 = foldl (\<lambda>m i. max m (sat_add (addr i) (insn_size i))) 0 (codes items)"
  define m1 where "m1 = foldl (\<lambda>m t. max m (end_of (Table (fst t) (snd t)))) m0 (tables items)"
  have c: "sat_add (addr i) (insn_size i) = end_of (Code i)" if "i \<in> set (codes items)" for i
    using sat [of "Code i"] that by simp
  have step: "bindE (payload_units p) (\<lambda>sz. Inr (max m (sat_add k (unat sz)))) = Inr (max m (end_of (Table k p)))"
    if "(k, p) \<in> set (tables items)" for m k p
  proof -
    have "payload_small p" using ok that unfolding layout_ok_def by blast
    then have "payload_units p = Inr (of_nat (payload_len p))"
      using lt [of "Table k p"] that by (intro payload_units_len) simp_all
    then show ?thesis using sat [of "Table k p"] lt [of "Table k p"] that by (simp add: unat_of_nat_u32)
  qed
  have r: "compute_insns_size (codes items) (tables items) = Inr m1"
    unfolding compute_insns_size_def Let_def m0_def [symmetric] m1_def
    by (rule foldE_total) (use step in \<open>auto simp del: in_tables\<close>)
  have "m1 \<le> n"
    unfolding m1_def m0_def using c le by (intro foldl_max(3)) auto
  moreover have "n \<le> m1"
  proof (cases "n = 0")
    case False
    then obtain x where x: "x \<in> set items" "unat (item_pc x) + item_len x = unat n"
      using laid_last [OF l] by (auto simp: unat_eq_0)
    then have e: "end_of x = n" using u by (simp add: word_unat_eq_iff)
    show ?thesis
    proof (cases x)
      case (Code i)
      then have "n \<le> m0" unfolding m0_def using foldl_max(2) [of i "codes items" "\<lambda>i. sat_add (addr i) (insn_size i)" 0] c [of i] x e by simp
      also have "m0 \<le> m1" unfolding m1_def by (rule foldl_max(1))
      finally show ?thesis .
    next
      case (Table k p)
      then show ?thesis unfolding m1_def using foldl_max(2) [of "(k, p)" "tables items" "\<lambda>t. end_of (Table (fst t) (snd t))" m0] x e by simp
    qed
  qed simp
  ultimately show ?thesis using r by simp
qed

section \<open>Properties\<close>

text \<open>C17 (stream_roundtrip). A laid-out method body (instructions and payload tables without gaps, every switch
  with its own table, array data shorter than \<open>2 ^ 32 - 1\<close> bytes) is given its size by \<open>compute_insns_size\<close>, is assembled without error into
  exactly that many units, and wherever the bytes stand in a file the decoder gives back the same
  instructions and the same payload map.\<close>

theorem stream_roundtrip:
  assumes "dex_deps D" and "layout_ok items n"
  shows "compute_insns_size (codes items) (tables items) = Inr n
    \<and> (\<exists>bytes. assemble_insn_stream (codes items) (tables items) n = Inr bytes \<and> length bytes = 2 * unat n
      \<and> (\<forall>data off. fits data \<longrightarrow> at_off data off bytes \<longrightarrow>
            (\<exists>viols. decode_insns D data off n = Inr (codes items, tables items, viols))))"
proof -
  obtain bytes where b: "assemble_insn_stream (codes items) (tables items) n = Inr bytes" "length bytes = 2 * unat n"
    "\<forall>x \<in> set items. at_off bytes (2 * unat (item_pc x)) (projr (item_bytes items x))"
    using assemble_ok [OF assms(2)] by blast
  have "\<exists>viols. decode_insns D data off n = Inr (codes items, tables items, viols)"
    if "fits data" "at_off data off bytes" for data off
    using dex_deps.decode_layout [OF assms(1) that(1) assms(2)] b(3) at_off_trans [OF that(2)] by blast
  with b compute_layout_size [OF assms(2)] show ?thesis by blast
qed

definition sample_items :: "item list" where
  "sample_items = [Code ((blank_insn 0 PackedSwitch)\<lparr>dst := Some 1, target := Some 4\<rparr>),
     Code (blank_insn 3 ReturnVoid), Table 4 (PackedSwitchData 7 [3])]"

lemma sample_layout: "layout_ok sample_items 10"
proof -
  have e: "emit_payload (PackedSwitchData 7 [3]) 0 = Inr (u16_to_le 0x0100 @ u16_to_le 1 @ u32_to_le 7 @ words_to_le [3])"
    by (simp add: emit_payload_def emit_packed_switch_payload_def branch_i32_def branch_offset_def Let_def)
  define sw where "sw = (blank_insn 0 PackedSwitch)\<lparr>dst := Some 1, target := Some 4\<rparr>"
  define rt where "rt = blank_insn 3 ReturnVoid"
  have wf: "insn_wf sw" "insn_wf rt"
    by (simp_all add: sw_def rt_def insn_wf_def blank_insn_def insn_format_def dst_in_def target_in_def branch_offset_def)
  have f: "addr sw = 0" "insn_size sw = 3" "target sw = Some 4" "insn_op sw = PackedSwitch"
    "addr rt = 3" "insn_size rt = 1" "target rt = None" by (simp_all add: sw_def rt_def blank_insn_def insn_format_def)
  have it: "sample_items = [Code sw, Code rt, Table 4 (PackedSwitchData 7 [3])]" by (simp add: sample_items_def sw_def rt_def)
  have req: "requests sample_items i 4 (PackedSwitchData 7 [3]) \<longleftrightarrow> i = sw" for i
    unfolding requests_def it using f by auto
  show ?thesis
    unfolding layout_ok_def using f wf e req
    by (simp add: it is_payload_op_def)
qed

theorem stream_roundtrip_witness:
  "\<exists>bytes viols. assemble_insn_stream (codes sample_items) (tables sample_items) 10 = Inr bytes
     \<and> decode_insns (std_deps (\<lambda>_. [])) bytes 0 10 = Inr (codes sample_items, tables sample_items, viols)"
proof -
  from stream_roundtrip [OF std.dex_deps_axioms sample_layout, where digest1 = "\<lambda>_. []"]
  obtain bytes where "assemble_insn_stream (codes sample_items) (tables sample_items) 10 = Inr bytes" "length bytes = 20"
    "\<And>data off. fits data \<Longrightarrow> at_off data off bytes \<Longrightarrow>
       \<exists>viols. decode_insns (std_deps (\<lambda>_. [])) data off 10 = Inr (codes sample_items, tables sample_items, viols)" by auto
  moreover then have "fits bytes" "at_off bytes 0 bytes" by (simp_all add: fits_def at_off_def)
  ultimately show ?thesis by blast
qed

end
