(* ===== verification/Dex_Code_Item.thy ===== *)
theory Dex_Code_Item
  imports Dex_Assemble Dex_Class_Data
begin

text \<open>
  The \<open>code_item\<close> of a method: \<open>parse_code_item\<close> of \<open>src/src/decode.rs\<close> with the try table, the
  catch-handler list and the recorded violations, and \<open>emit_code_item_container\<close> and
  \<open>emit_encoded_catch_handler\<close> of \<open>src/src/emit_dex.rs\<close>.
\<close>

section \<open>The try table\<close>

definition TRY_ITEM_SIZE :: nat where "TRY_ITEM_SIZE = 8"

definition CATCH_HANDLER_ITEM_MIN_SIZE :: nat where "CATCH_HANDLER_ITEM_MIN_SIZE = 2"

text \<open>The loop state: the kept tries, the violations, the end of the previous try and whether an
  ordering violation was recorded.\<close>

record tstate =
  t_tries :: "TryItem list"
  t_viols :: "CodeItemInvariantViolation list"
  t_prev_end :: "u32 option"
  t_recorded :: bool

definition read_try :: "deps \<Rightarrow> byte list \<Rightarrow> nat \<Rightarrow> nat \<Rightarrow> DexError + (u32 \<times> u16 \<times> u16)" where
  "read_try D data tries_off i =
     bindE (safe_mul i 8 ''parse_code_item:try:i*8'') (\<lambda>i8.
     bindE (safe_add tries_off i8 ''parse_code_item:try:t_off'') (\<lambda>t_off.
     bindE (read_u32 D data t_off) (\<lambda>start.
     bindE (safe_add t_off 4 ''parse_code_item:try:t_off+4'') (\<lambda>off_insn.
     bindE (read_u16 D data off_insn) (\<lambda>cnt.
     bindE (safe_add t_off 6 ''parse_code_item:try:t_off+6'') (\<lambda>off_handler.
     bindE (read_u16 D data off_handler) (\<lambda>handler_off.
     Inr (start, cnt, handler_off))))))))"

text \<open>\<open>u16::try_from(i).unwrap_or(u16::MAX)\<close>.\<close>

definition try_idx_u16 :: "nat \<Rightarrow> u16" where
  "try_idx_u16 i = (if i < 2 ^ 16 then of_nat i else - 1)"

text \<open>\<open>saturating_sub\<close>, cut to 16 bits.\<close>

definition max_valid :: "u32 \<Rightarrow> u32 \<Rightarrow> u16" where
  "max_valid insns_size start = of_nat (min (unat insns_size - unat start) 65535)"

definition order_check :: "nat \<Rightarrow> u32 \<Rightarrow> u16 \<Rightarrow> tstate \<Rightarrow> tstate" where
  "order_check i start cnt st =
     (let this_end = sat_add start (unat cnt);
          st' = (case t_prev_end st of
                   Some prev_end \<Rightarrow>
                     if start < prev_end \<and> \<not> t_recorded st
                     then st\<lparr>t_viols := t_viols st @ [TryItemsUnsortedOrOverlapping (try_idx_u16 i) prev_end start],
                             t_recorded := True\<rparr>
                     else st
                 | None \<Rightarrow> st)
      in st'\<lparr>t_prev_end := Some this_end\<rparr>)"

definition try_step :: "deps \<Rightarrow> byte list \<Rightarrow> nat \<Rightarrow> u32 \<Rightarrow> tstate \<Rightarrow> nat \<Rightarrow> DexError + tstate" where
  "try_step D data tries_off insns_size st i =
     bindE (read_try D data tries_off i) (\<lambda>(start, cnt, handler_off).
       let st1 = order_check i start cnt st
       in if cnt = 0 then Inr (st1\<lparr>t_viols := t_viols st1 @ [EmptyTryRegion (try_idx_u16 i) start]\<rparr>)
          else if unat start + unat cnt \<le> unat insns_size
          then Inr (st1\<lparr>t_tries := t_tries st1 @ [\<lparr>start_addr = start, insn_count = cnt, handler_idx = unat handler_off\<rparr>]\<rparr>)
          else Inr (st1\<lparr>t_viols := t_viols st1 @ [TryItemRangeInvalid (try_idx_u16 i) start cnt insns_size],
                         t_tries := t_tries st1 @ [\<lparr>start_addr = start, insn_count = max_valid insns_size start,
                                                     handler_idx = unat handler_off\<rparr>]\<rparr>))"

section \<open>Catch handlers\<close>

definition take_sleb :: "deps \<Rightarrow> byte list \<Rightarrow> string \<Rightarrow> nat \<Rightarrow> DexError + (u32 \<times> nat)" where
  "take_sleb D data context pos =
     bindE (read_sleb128 D data pos) (\<lambda>(v, len). bindE (safe_add pos len context) (\<lambda>pos'. Inr (v, pos')))"

definition read_typed_catch :: "deps \<Rightarrow> byte list \<Rightarrow> unit \<Rightarrow> nat \<Rightarrow> DexError + (TypedCatch \<times> unit \<times> nat)" where
  "read_typed_catch D data u pos =
     bindE (take_uleb D data ''parse_code_item:catch:type_len'' pos) (\<lambda>(type_idx, pos).
     bindE (take_uleb D data ''parse_code_item:catch:addr_len'' pos) (\<lambda>(a, pos).
     Inr (\<lparr>exception_type = TypeIdx type_idx, handler_addr = a\<rparr>, (), pos)))"

text \<open>\<open>unsigned_abs\<close> of an \<open>i32\<close>.\<close>

definition unsigned_abs :: "u32 \<Rightarrow> u32" where
  "unsigned_abs w = of_int \<bar>sint w\<bar>"

definition read_catch_handler :: "deps \<Rightarrow> byte list \<Rightarrow> unit \<Rightarrow> nat \<Rightarrow> DexError + (CatchHandler \<times> unit \<times> nat)" where
  "read_catch_handler D data u pos =
     bindE (take_sleb D data ''parse_code_item:catch:size_len'' pos) (\<lambda>(size_raw, pos).
     bindE (bound_count D (unsigned_abs size_raw) CATCH_HANDLER_ITEM_MIN_SIZE (length data) ''typed_catches'') (\<lambda>catch_count.
     bindE (read_seq (read_typed_catch D data) catch_count () pos) (\<lambda>(cs, pos).
     if sint size_raw \<le> 0 then
       bindE (take_uleb D data ''parse_code_item:catch:catch_all_len'' pos) (\<lambda>(a, pos).
       Inr (\<lparr>catches = cs, catch_all_addr = Some a\<rparr>, (), pos))
     else Inr (\<lparr>catches = cs, catch_all_addr = None\<rparr>, (), pos))))"

text \<open>The handler loop also records the offset of every handler.\<close>

definition read_handler_entry ::
  "deps \<Rightarrow> byte list \<Rightarrow> nat \<Rightarrow> unit \<Rightarrow> nat \<Rightarrow> DexError + ((nat \<times> CatchHandler) \<times> unit \<times> nat)" where
  "read_handler_entry D data handlers_off u pos =
     bindE (read_catch_handler D data u pos) (\<lambda>(h, u, pos'). Inr ((pos - handlers_off, h), u, pos'))"

definition handler_offset_to_idx :: "(nat \<times> CatchHandler) list \<Rightarrow> (nat \<times> nat) list" where
  "handler_offset_to_idx entries =
     foldl (\<lambda>m (i, e). btree_insert (fst e) i m) [] (zip [0..<length entries] entries)"

definition resolve_handler :: "(nat \<times> nat) list \<Rightarrow> TryItem \<Rightarrow> DexError + TryItem" where
  "resolve_handler m t =
     bindE (ok_or (map_of m (handler_idx t)) (InvalidInstruction 0 ''try handler_off not found in handler list'')) (\<lambda>i.
     Inr (t\<lparr>handler_idx := i\<rparr>))"

definition parse_tries ::
  "deps \<Rightarrow> byte list \<Rightarrow> nat \<Rightarrow> u32 \<Rightarrow> u16 \<Rightarrow> CodeItemInvariantViolation list \<Rightarrow>
   DexError + (TryItem list \<times> CatchHandler list \<times> CodeItemInvariantViolation list)" where
  "parse_tries D data insns_off insns_size tries_size viols =
     (if tries_size = 0 then Inr ([], [], viols)
      else
        bindE (bound_count D (ucast tries_size) TRY_ITEM_SIZE (length data) ''tries'') (\<lambda>tries_count.
        let padding = (if insns_size mod 2 \<noteq> 0 then 2 else 0);
            tries_off = insns_off + unat insns_size * 2 + padding
        in if tries_off \<ge> 2 ^ 64 then Inl (ArithmeticOverflow ''try-table offset'')
        else
          bindE (foldE (try_step D data tries_off insns_size)
             \<lparr>t_tries = [], t_viols = viols, t_prev_end = None, t_recorded = False\<rparr> [0..<tries_count]) (\<lambda>st.
          let handlers_off = tries_off + unat tries_size * 8
          in if handlers_off \<ge> 2 ^ 64 then Inl (ArithmeticOverflow ''catch-handlers offset'')
          else
            bindE (read_uleb128 D data handlers_off) (\<lambda>(handler_count_raw, hc_len).
            bindE (bound_count D handler_count_raw 1 (length data) ''catch_handlers'') (\<lambda>handler_count.
            bindE (safe_add handlers_off hc_len ''parse_code_item:handler_pos'') (\<lambda>pos.
            bindE (read_seq (read_handler_entry D data handlers_off) handler_count () pos) (\<lambda>(entries, pos).
            bindE (mapE (resolve_handler (handler_offset_to_idx entries)) (t_tries st)) (\<lambda>ts.
            Inr (ts, map snd entries, t_viols st)))))))))"

section \<open>The code item\<close>

definition parse_code_item :: "deps \<Rightarrow> byte list \<Rightarrow> u32 \<Rightarrow> DexError + CodeItem" where
  "parse_code_item D data code_off =
     (let base = unat code_off
      in bindE (read_u16 D data base) (\<lambda>regs_n.
         bindE (safe_add base 2 ''parse_code_item:base+2'') (\<lambda>off_ins.
         bindE (read_u16 D data off_ins) (\<lambda>ins_n.
         bindE (safe_add base 4 ''parse_code_item:base+4'') (\<lambda>off_outs.
         bindE (read_u16 D data off_outs) (\<lambda>outs_n.
         bindE (safe_add base 6 ''parse_code_item:base+6'') (\<lambda>off_tries.
         bindE (read_u16 D data off_tries) (\<lambda>tries_n.
         bindE (safe_add base 8 ''parse_code_item:base+8'') (\<lambda>off_debug.
         bindE (read_u32 D data off_debug) (\<lambda>debug_off.
         bindE (safe_add base 12 ''parse_code_item:base+12'') (\<lambda>off_insns_size.
         bindE (read_u32 D data off_insns_size) (\<lambda>insns_size.
         bindE (safe_add base 16 ''parse_code_item:insns_off'') (\<lambda>insns_off.
         bindE (decode_insns D data insns_off insns_size) (\<lambda>(ins, pls, dviols).
         bindE (parse_tries D data insns_off insns_size tries_n dviols) (\<lambda>(ts, hs, viols).
         Inr \<lparr>registers_size = regs_n, ins_size = ins_n, outs_size = outs_n, debug_info_off = debug_off,
              instructions = ins, tries = ts, catch_handlers = hs, payloads = pls,
              invariant_violations =
                viols @ (if ins_n > regs_n then [RegisterCountInverted regs_n ins_n] else [])\<rparr>)))))))))))))))"

section \<open>Emission\<close>

definition write_typed_catch :: "deps \<Rightarrow> unit \<Rightarrow> TypedCatch \<Rightarrow> DexEmitError + (byte list \<times> unit)" where
  "write_typed_catch D u c =
     Inr (common_write_uleb128 D (un_TypeIdx (exception_type c)) @ common_write_uleb128 D (handler_addr c), ())"

definition emit_encoded_catch_handler :: "deps \<Rightarrow> CatchHandler \<Rightarrow> DexEmitError + byte list" where
  "emit_encoded_catch_handler D h =
     (if length (catches h) \<ge> 2 ^ 31 then Inl (SizeOverflow ''encoded_catch_handler'' ''typed-catch count exceeds i32'')
      else if catches h = [] \<and> catch_all_addr h = None
      then Inl (UnrepresentableIR ''encoded_catch_handler: no typed catches AND no catch_all_addr'')
      else
        let size_field = (case catch_all_addr h of Some _ \<Rightarrow> - of_nat (length (catches h)) | None \<Rightarrow> of_nat (length (catches h)))
        in bindE (write_seq (write_typed_catch D) () (catches h)) (\<lambda>cs.
           Inr (common_write_sleb128 D size_field @ cs
                @ (case catch_all_addr h of Some a \<Rightarrow> common_write_uleb128 D a | None \<Rightarrow> []))))"

text \<open>The handler list and the offset of each of its handlers.\<close>

definition emit_handler_list :: "deps \<Rightarrow> CatchHandler list \<Rightarrow> DexEmitError + (byte list \<times> nat list)" where
  "emit_handler_list D handlers =
     (if length handlers < 2 ^ 32 then
        foldE (\<lambda>(blob, starts) h. bindE (emit_encoded_catch_handler D h) (\<lambda>b. Inr (blob @ b, starts @ [length blob])))
          (common_write_uleb128 D (of_nat (length handlers)), []) handlers
      else Inl (SizeOverflow ''code_item'' ''catch_handlers count exceeds u32''))"

definition try_handler_off :: "nat list \<Rightarrow> TryItem \<Rightarrow> DexEmitError + u16" where
  "try_handler_off starts t =
     (let off = starts ! handler_idx t
      in if off < 2 ^ 16 then Inr (of_nat off)
         else Inl (OffsetOverflow ''code_item'' ''try_item.handler_off exceeds u16 (catch-handler list > 64 KiB)''))"

definition try_bytes :: "TryItem \<times> u16 \<Rightarrow> byte list" where
  "try_bytes e = (case e of (t, handler_off) \<Rightarrow>
     u32_to_le (start_addr t) @ u16_to_le (insn_count t) @ u16_to_le handler_off)"

definition emit_code_item_container ::
  "deps \<Rightarrow> u16 \<Rightarrow> u16 \<Rightarrow> u16 \<Rightarrow> u32 \<Rightarrow> byte list \<Rightarrow> TryItem list \<Rightarrow> CatchHandler list \<Rightarrow> DexEmitError + byte list" where
  "emit_code_item_container D regs_n ins_n outs_n debug_off insn_bytes ts handlers =
     (if length insn_bytes mod 2 \<noteq> 0
      then Inl (UnrepresentableIR ''code_item: insn_bytes must be a whole number of u16 code units'')
      else if length insn_bytes div 2 \<ge> 2 ^ 32
      then Inl (SizeOverflow ''code_item'' ''insns_size exceeds u32'')
      else if length ts \<ge> 2 ^ 16
      then Inl (SizeOverflow ''code_item'' ''tries_size exceeds u16'')
      else if ts = [] \<and> handlers \<noteq> []
      then Inl (UnrepresentableIR ''code_item: catch_handlers non-empty but tries is empty'')
      else if \<not> list_all (\<lambda>t. handler_idx t < length handlers) ts
      then Inl (UnrepresentableIR ''code_item: try_item.handler_idx out of range for catch_handlers list'')
      else
        bindE (if ts = [] then Inr ([], []) else emit_handler_list D handlers) (\<lambda>(blob, starts).
        bindE (mapE (try_handler_off starts) ts) (\<lambda>offs.
        let insns_size = (of_nat (length insn_bytes div 2) :: u32)
        in Inr (u16_to_le regs_n @ u16_to_le ins_n @ u16_to_le outs_n @ u16_to_le (of_nat (length ts))
                @ u32_to_le debug_off @ u32_to_le insns_size @ insn_bytes
                @ (if ts = [] then []
                   else (if insns_size mod 2 \<noteq> 0 then [0, 0] else [])
                        @ concat (map try_bytes (zip ts offs)) @ blob)))))"

section \<open>The handler codec\<close>

context dex_deps
begin

lemma take_sleb_at:
  assumes "fits data" and at: "at_off data pos (common_write_sleb128 D v @ rest)"
  shows "take_sleb D data c pos = Inr (v, pos + length (common_write_sleb128 D v))"
    "at_off data (pos + length (common_write_sleb128 D v)) rest"
proof -
  have a: "at_off data pos (common_write_sleb128 D v)" "at_off data (pos + length (common_write_sleb128 D v)) rest"
    using at by (simp_all add: at_off_append)
  then show "at_off data (pos + length (common_write_sleb128 D v)) rest" by simp
  have "pos + length (common_write_sleb128 D v) < 2 ^ 64"
    using at_off_len [OF a(1)] assms(1) by (simp add: fits_def)
  then show "take_sleb D data c pos = Inr (v, pos + length (common_write_sleb128 D v))"
    by (simp add: take_sleb_def read_sleb128_at [OF assms(1) a(1)])
qed

end

sublocale dex_deps \<subseteq> typed: seq_codec "read_typed_catch D" "write_typed_catch D" "\<lambda>_ _. True" "\<lambda>_. True" CATCH_HANDLER_ITEM_MIN_SIZE
proof
  fix w r x b w' data pos
  assume wr: "write_typed_catch D w x = Inr (b, w')" and f: "fits data" and at: "at_off data pos b"
  from wr have b: "b = common_write_uleb128 D (un_TypeIdx (exception_type x)) @ common_write_uleb128 D (handler_addr x) @ []"
    by (simp add: write_typed_catch_def)
  note t1 = take_uleb_at [OF f at [unfolded b]]
  note t2 = take_uleb_at [OF f t1(2)]
  show "\<exists>r'. read_typed_catch D data r pos = Inr (x, r', pos + length b) \<and> True"
    by (simp add: read_typed_catch_def t1(1) t2(1) b)
next
  fix w x b w'
  assume "write_typed_catch D w x = Inr (b, w')"
  then have "b = common_write_uleb128 D (un_TypeIdx (exception_type x)) @ common_write_uleb128 D (handler_addr x)"
    by (simp add: write_typed_catch_def)
  then show "CATCH_HANDLER_ITEM_MIN_SIZE \<le> length b"
    using write_uleb_length [of "un_TypeIdx (exception_type x)"] write_uleb_length [of "handler_addr x"]
    by (simp only: CATCH_HANDLER_ITEM_MIN_SIZE_def length_append) linarith
qed

lemma size_field:
  assumes "n < 2 ^ 31"
  shows "sint (of_nat n :: u32) = int n" "sint (- of_nat n :: u32) = - int n"
    "unsigned_abs (of_nat n) = of_nat n" "unsigned_abs (- of_nat n) = of_nat n"
proof -
  show a: "sint (of_nat n :: u32) = int n"
    using assms sint_word_of_int [of "int n", where ?'a = 32] by simp
  show b: "sint (- of_nat n :: u32) = - int n"
    using assms sint_word_of_int [of "- int n", where ?'a = 32] by simp
  show "unsigned_abs (of_nat n) = of_nat n" "unsigned_abs (- of_nat n) = of_nat n"
    by (simp_all add: unsigned_abs_def a b)
qed

context dex_deps
begin

lemma emit_handler_nonempty:
  assumes "emit_encoded_catch_handler D h = Inr b"
  shows "1 \<le> length b"
proof -
  obtain sz rest where "b = common_write_sleb128 D sz @ rest"
    using assms by (auto simp: emit_encoded_catch_handler_def Let_def split: if_splits)
  then show ?thesis using write_sleb_length [of sz] by (simp only: length_append) linarith
qed

lemma handler_codec:
  assumes e: "emit_encoded_catch_handler D h = Inr b" and f: "fits data" and at: "at_off data pos b"
  shows "read_catch_handler D data u pos = Inr (h, (), pos + length b)"
proof -
  let ?n = "length (catches h)"
  define sz :: u32 where "sz = (case catch_all_addr h of Some _ \<Rightarrow> - of_nat ?n | None \<Rightarrow> of_nat ?n)"
  define tail where "tail = (case catch_all_addr h of Some a \<Rightarrow> common_write_uleb128 D a | None \<Rightarrow> [])"
  from e obtain cs where n: "?n < 2 ^ 31" and cs: "write_seq (write_typed_catch D) () (catches h) = Inr cs"
    and ne: "catches h \<noteq> [] \<or> catch_all_addr h \<noteq> None" and b: "b = common_write_sleb128 D sz @ cs @ tail"
    by (auto simp: emit_encoded_catch_handler_def Let_def sz_def tail_def split: if_splits)
  note t = take_sleb_at [OF f at [unfolded b]]
  have at2: "at_off data (pos + length (common_write_sleb128 D sz)) cs"
    "at_off data (pos + length (common_write_sleb128 D sz) + length cs) tail" using t(2) by (simp_all add: at_off_append)
  have "?n * 2 \<le> length cs" using typed.seq_size [OF cs] by (simp add: CATCH_HANDLER_ITEM_MIN_SIZE_def)
  then have "?n * 2 \<le> length data" using at_off_len [OF at2(1)] by simp
  then have bc: "bound_count D (unsigned_abs sz) CATCH_HANDLER_ITEM_MIN_SIZE (length data) i = Inr ?n" for i
    using bound_count_list [of 2 "catches h" data i] n f size_field [OF n]
    by (simp add: CATCH_HANDLER_ITEM_MIN_SIZE_def sz_def split: option.split)
  have sq: "read_seq (read_typed_catch D data) ?n () (pos + length (common_write_sleb128 D sz))
      = Inr (catches h, pos + length (common_write_sleb128 D sz) + length cs)"
    by (rule typed.seq_roundtrip [OF _ _ cs f at2(1)]) (simp_all add: list_all_iff)
  show "read_catch_handler D data u pos = Inr (h, (), pos + length b)"
  proof (cases "catch_all_addr h")
    case None
    then have "0 < sint sz" using ne size_field(1) [OF n] by (simp add: sz_def)
    with None t(1) bc sq show ?thesis by (simp add: read_catch_handler_def b tail_def)
  next
    case (Some a)
    then have "sint sz \<le> 0" using size_field(2) [OF n] by (simp add: sz_def)
    with Some t(1) bc sq take_uleb_at(1) [OF f, of _ a "[]"] at2(2) show ?thesis
      by (simp add: read_catch_handler_def b tail_def add.assoc)
  qed
qed

end

section \<open>The handler list and its offsets\<close>

lemma emit_handlers_fold:
  "foldE (\<lambda>(blob, starts) h. bindE (emit_encoded_catch_handler D h) (\<lambda>b. Inr (blob @ b, starts @ [length blob]))) (b0, s0) hs = Inr (blob, starts) \<Longrightarrow>
   \<exists>bss. mapE (emit_encoded_catch_handler D) hs = Inr bss \<and> blob = b0 @ concat bss
     \<and> starts = s0 @ map (\<lambda>k. length b0 + length (concat (take k bss))) [0..<length hs]"
proof (induction hs arbitrary: b0 s0)
  case (Cons h hs)
  then obtain b where b: "emit_encoded_catch_handler D h = Inr b"
    and r: "foldE (\<lambda>(blob, starts) h. bindE (emit_encoded_catch_handler D h) (\<lambda>b. Inr (blob @ b, starts @ [length blob])))
      (b0 @ b, s0 @ [length b0]) hs = Inr (blob, starts)" by auto
  from Cons.IH [OF r] obtain bss where i: "mapE (emit_encoded_catch_handler D) hs = Inr bss" "blob = (b0 @ b) @ concat bss"
    "starts = (s0 @ [length b0]) @ map (\<lambda>k. length (b0 @ b) + length (concat (take k bss))) [0..<length hs]" by blast
  have "map (\<lambda>k. length b0 + length (concat (take k (b # bss)))) [0..<length (h # hs)]
      = length b0 # map (\<lambda>k. length (b0 @ b) + length (concat (take k bss))) [0..<length hs]"
    by (simp add: upt_conv_Cons map_Suc_upt [symmetric] o_def add.assoc del: upt_Suc)
  with b i show ?case by (intro exI [of _ "b # bss"]) simp
qed simp

context dex_deps
begin

lemma read_entries:
  "mapE (emit_encoded_catch_handler D) hs = Inr bss \<Longrightarrow> fits data \<Longrightarrow> at_off data pos (concat bss) \<Longrightarrow> hoff \<le> pos \<Longrightarrow>
   \<exists>pos'. read_seq (read_handler_entry D data hoff) (length hs) () pos
     = Inr (zip (map (\<lambda>k. pos - hoff + length (concat (take k bss))) [0..<length hs]) hs, pos')"
proof (induction hs arbitrary: bss pos)
  case (Cons h hs)
  then obtain b bss' where e: "emit_encoded_catch_handler D h = Inr b" "mapE (emit_encoded_catch_handler D) hs = Inr bss'" "bss = b # bss'"
    by auto
  have at: "at_off data pos b" "at_off data (pos + length b) (concat bss')" using Cons.prems(3) e(3) by (simp_all add: at_off_append)
  have r: "read_handler_entry D data hoff () pos = Inr ((pos - hoff, h), (), pos + length b)"
    by (simp add: read_handler_entry_def handler_codec [OF e(1) Cons.prems(2) at(1)])
  obtain pos' where i: "read_seq (read_handler_entry D data hoff) (length hs) () (pos + length b)
     = Inr (zip (map (\<lambda>k. pos + length b - hoff + length (concat (take k bss'))) [0..<length hs]) hs, pos')"
    using Cons.IH [OF e(2) Cons.prems(2) at(2)] Cons.prems(4) by auto
  have "map (\<lambda>k. pos - hoff + length (concat (take k bss))) [0..<length (h # hs)]
      = (pos - hoff) # map (\<lambda>k. pos + length b - hoff + length (concat (take k bss'))) [0..<length hs]"
    using Cons.prems(4) by (simp add: upt_conv_Cons map_Suc_upt [symmetric] o_def e(3) add.assoc del: upt_Suc)
  with r i show ?case by simp
qed simp

lemma starts_strict:
  assumes "mapE (emit_encoded_catch_handler D) hs = Inr bss" and "i < j" and "j < length hs"
  shows "length (concat (take i bss)) < length (concat (take j bss))"
proof -
  have l: "length bss = length hs" using mapE_length [OF assms(1)] .
  have "emit_encoded_catch_handler D (hs ! i) = Inr (bss ! i)"
    using assms by (simp add: mapE_Inr_iff list_all2_conv_all_nth)
  then have "1 \<le> length (bss ! i)" by (rule emit_handler_nonempty)
  moreover have "take j bss = take i bss @ bss ! i # drop (Suc i) (take j bss)"
    using id_take_nth_drop [of i "take j bss"] assms l by simp
  then have "length (concat (take j bss)) = length (concat (take i bss)) + length (bss ! i) + length (concat (drop (Suc i) (take j bss)))"
    by (metis concat.simps(2) concat_append length_append add.assoc)
  ultimately show ?thesis by linarith
qed

end

lemma handler_offset_to_idx_snoc:
  "handler_offset_to_idx (es @ [e]) = btree_insert (fst e) (length es) (handler_offset_to_idx es)"
  by (simp add: handler_offset_to_idx_def)

lemma handler_offset_lookup:
  "distinct (map fst es) \<Longrightarrow> i < length es \<Longrightarrow> map_of (handler_offset_to_idx es) (fst (es ! i)) = Some i"
proof (induction es rule: rev_induct)
  case (snoc e es)
  show ?case
  proof (cases "i = length es")
    case False
    with snoc.prems have i: "i < length es" by simp
    then have "fst (es ! i) \<noteq> fst e" using snoc.prems(1) by (metis (no_types, lifting) distinct_append distinct_map imageI list.set_map list.simps(9) map_append not_distinct_conv_prefix nth_mem set_append)
    with snoc i show ?thesis by (simp add: handler_offset_to_idx_snoc map_of_btree_insert nth_append)
  qed (simp add: handler_offset_to_idx_snoc map_of_btree_insert)
qed simp

section \<open>The try table\<close>

lemma order_check_simps [simp]:
  "t_tries (order_check i start cnt st) = t_tries st"
  by (simp add: order_check_def Let_def split: option.split)

lemma length_try_bytes: "length (try_bytes e) = 8"
  by (simp add: try_bytes_def split: prod.split)

lemma concat_try_nth:
  assumes "at_off data off (concat (map try_bytes es))" and "i < length es"
  shows "at_off data (off + i * 8) (try_bytes (es ! i))"
proof -
  have "concat (map try_bytes es) = concat (map try_bytes (take i es)) @ try_bytes (es ! i) @ concat (map try_bytes (drop (Suc i) es))"
    using assms(2) by (metis concat.simps(2) concat_append id_take_nth_drop list.simps(9) map_append)
  moreover have "length (concat (map try_bytes (take i es))) = i * 8"
    using assms(2) by (simp add: length_concat o_def length_try_bytes sum_list_triv)
  ultimately show ?thesis using assms(1) by (simp add: at_off_append)
qed

lemma length_concat_ge: "\<forall>b \<in> set bss. 1 \<le> length b \<Longrightarrow> length bss \<le> length (concat bss)"
proof (induction bss)
  case (Cons b bss)
  then have "1 \<le> length b" "length bss \<le> length (concat bss)" by simp_all
  then show ?case by (simp only: list.size concat.simps length_append)
qed simp

definition try_ok :: "u32 \<Rightarrow> TryItem \<Rightarrow> bool" where
  "try_ok n t \<longleftrightarrow> insn_count t \<noteq> 0 \<and> unat (start_addr t) + unat (insn_count t) \<le> unat n"

context dex_deps
begin

lemma read_try_at:
  assumes f: "fits data" and at: "at_off data (tries_off + i * 8) (try_bytes (t, h))"
  shows "read_try D data tries_off i = Inr (start_addr t, insn_count t, h)"
proof -
  have a: "at_off data (tries_off + i * 8) (u32_to_le (start_addr t))" "at_off data (tries_off + i * 8 + 4) (u16_to_le (insn_count t))"
    "at_off data (tries_off + i * 8 + 6) (u16_to_le h)"
    using at by (simp_all add: try_bytes_def at_off_append add_ac)
  have "tries_off + i * 8 + 8 < 2 ^ 63"
    using at_off_len [OF at] f by (simp add: length_try_bytes fits_def)
  then show ?thesis
    using read_u32_at [OF f a(1)] read_u16_at [OF f a(2)] read_u16_at [OF f a(3)] by (simp add: read_try_def)
qed

lemma tries_codec:
  assumes f: "fits data" and at: "at_off data tries_off (concat (map try_bytes (zip ts offs)))" and l: "length offs = length ts"
    and ok: "list_all (try_ok n) ts" and "k \<le> length ts" and "t_tries st0 = []"
  shows "\<exists>st. foldE (try_step D data tries_off n) st0 [0..<k] = Inr st
    \<and> t_tries st = map (\<lambda>(t, h). t\<lparr>handler_idx := unat h\<rparr>) (zip (take k ts) (take k offs))"
  using assms(5)
proof (induction k)
  case 0
  then show ?case using assms(6) by simp
next
  case (Suc k)
  then obtain st where st: "foldE (try_step D data tries_off n) st0 [0..<k] = Inr st"
    "t_tries st = map (\<lambda>(t, h). t\<lparr>handler_idx := unat h\<rparr>) (zip (take k ts) (take k offs))" by auto
  have k: "k < length ts" "k < length offs" using Suc.prems l by simp_all
  have r: "read_try D data tries_off k = Inr (start_addr (ts ! k), insn_count (ts ! k), offs ! k)"
    using read_try_at [OF f] concat_try_nth [OF at, of k] k by simp
  have "try_ok n (ts ! k)" using ok k(1) by (simp add: list_all_length)
  then have s: "try_step D data tries_off n st k = Inr ((order_check k (start_addr (ts ! k)) (insn_count (ts ! k)) st)
      \<lparr>t_tries := t_tries st @ [(ts ! k)\<lparr>handler_idx := unat (offs ! k)\<rparr>]\<rparr>)"
    by (cases "ts ! k") (simp add: try_step_def r Let_def try_ok_def)
  show ?case using st s k by (simp add: foldE_append take_Suc_conv_app_nth zip_append)
qed

lemma parse_tries_codec:
  assumes f: "fits data" and ts: "ts \<noteq> []" "length ts < 2 ^ 16" and ok: "list_all (try_ok n) ts"
    and idx: "list_all (\<lambda>t. handler_idx t < length hs) ts"
    and e: "emit_handler_list D hs = Inr (blob, starts)" and o: "mapE (try_handler_off starts) ts = Inr offs"
    and at: "at_off data (insns_off + unat n * 2 + (if n mod 2 \<noteq> 0 then 2 else 0)) (concat (map try_bytes (zip ts offs)) @ blob)"
  shows "\<exists>vs. parse_tries D data insns_off n (of_nat (length ts)) viols = Inr (ts, hs, vs)"
proof -
  define toff where "toff = insns_off + unat n * 2 + (if n mod 2 \<noteq> 0 then 2 else 0)"
  define hoff where "hoff = toff + length ts * 8"
  define cnt where "cnt = common_write_uleb128 D (of_nat (length hs))"
  have ol: "length offs = length ts" using mapE_length [OF o] .
  have n: "length hs < 2 ^ 32" using e by (simp add: emit_handler_list_def split: if_splits)
  obtain bss where bss: "mapE (emit_encoded_catch_handler D) hs = Inr bss" "blob = cnt @ concat bss"
    "starts = map (\<lambda>k. length cnt + length (concat (take k bss))) [0..<length hs]"
    using e n emit_handlers_fold [of D cnt "[]" hs blob starts] by (auto simp: emit_handler_list_def cnt_def)
  have ut: "unat (of_nat (length ts) :: u16) = length ts" using ts(2) by (simp add: unat_of_nat_u16)
  have len: "length (concat (map try_bytes (zip ts offs))) = length ts * 8"
    using ol by (simp add: length_concat o_def length_try_bytes sum_list_triv)
  have at': "at_off data toff (concat (map try_bytes (zip ts offs)))" "at_off data hoff cnt" "at_off data (hoff + length cnt) (concat bss)"
    using at unfolding toff_def [symmetric] bss(2) at_off_append len hoff_def by simp_all
  have sz: "hoff + length cnt + length (concat bss) \<le> length data" "length data < 2 ^ 63"
    using at_off_len [OF at'(3)] f by (simp_all add: fits_def)
  have "\<forall>b \<in> set bss. 1 \<le> length b" using mapE_set [OF bss(1)] emit_handler_nonempty by blast
  then have hl: "length hs \<le> length (concat bss)" using length_concat_ge [of bss] mapE_length [OF bss(1)] by simp
  have bc1: "bound_count D (ucast (of_nat (length ts) :: u16)) TRY_ITEM_SIZE (length data) i = Inr (length ts)" for i
    using bound_count_fits [of 8 "length data" "ucast (of_nat (length ts) :: u16)"] sz ut
    by (simp add: TRY_ITEM_SIZE_def unat_ucast_up hoff_def)
  have bc2: "bound_count D (of_nat (length hs)) 1 (length data) i = Inr (length hs)" for i
    using bound_count_list [of 1 hs data] n f hl sz by simp
  obtain st where st: "foldE (try_step D data toff n) \<lparr>t_tries = [], t_viols = viols, t_prev_end = None, t_recorded = False\<rparr>
      [0..<length ts] = Inr st" "t_tries st = map (\<lambda>(t, h). t\<lparr>handler_idx := unat h\<rparr>) (zip ts offs)"
    using tries_codec [OF f at'(1) ol ok, of "length ts" "\<lparr>t_tries = [], t_viols = viols, t_prev_end = None, t_recorded = False\<rparr>"] ol
    by auto
  obtain pos' where rs: "read_seq (read_handler_entry D data hoff) (length hs) () (hoff + length cnt) = Inr (zip starts hs, pos')"
    using read_entries [OF bss(1) f at'(3), of hoff] by (auto simp: bss(3))
  have sl: "length starts = length hs" by (simp add: bss(3))
  have "sorted_wrt (<) starts"
    unfolding sorted_wrt_iff_nth_less using starts_strict [OF bss(1)] by (simp add: bss(3))
  then have "distinct starts" by (simp add: strict_sorted_iff)
  then have look: "map_of (handler_offset_to_idx (zip starts hs)) (starts ! i) = Some i" if "i < length hs" for i
    using handler_offset_lookup [of "zip starts hs" i] that sl by simp
  have res: "mapE (resolve_handler (handler_offset_to_idx (zip starts hs))) (map (\<lambda>(t, h). t\<lparr>handler_idx := unat h\<rparr>) (zip ts offs)) = Inr ts"
    unfolding mapE_Inr_iff list_all2_conv_all_nth
  proof (intro conjI allI impI)
    fix i assume "i < length (map (\<lambda>(t, h). t\<lparr>handler_idx := unat h\<rparr>) (zip ts offs))"
    then have i: "i < length ts" "i < length offs" by simp_all
    have h: "handler_idx (ts ! i) < length hs" using idx i(1) by (simp add: list_all_length)
    have "try_handler_off starts (ts ! i) = Inr (offs ! i)" using o i by (simp add: mapE_Inr_iff list_all2_conv_all_nth)
    then have "unat (offs ! i) = starts ! handler_idx (ts ! i)"
      using unat_of_nat_u16 [of "starts ! handler_idx (ts ! i)"] by (auto simp: try_handler_off_def Let_def split: if_splits)
    with look [OF h] i show "resolve_handler (handler_offset_to_idx (zip starts hs)) (map (\<lambda>(t, h). t\<lparr>handler_idx := unat h\<rparr>) (zip ts offs) ! i) = Inr (ts ! i)"
      by (simp add: resolve_handler_def)
  qed (simp add: ol)
  have nz: "(of_nat (length ts) :: u16) \<noteq> 0" using ut ts(1) by (metis length_0_conv unat_0)
  have ru: "read_uleb128 D data hoff = Inr (of_nat (length hs), length cnt)"
    unfolding cnt_def by (rule read_uleb128_at [OF f]) (use at'(2) in \<open>simp add: cnt_def\<close>)
  have "parse_tries D data insns_off n (of_nat (length ts)) viols = Inr (ts, map snd (zip starts hs), t_viols st)"
    unfolding parse_tries_def Let_def toff_def [symmetric] if_not_P [OF nz] bc1 bindE.simps ut st(1) hoff_def [symmetric]
    using sz ru bc2 rs res st(2) by (simp add: hoff_def)
  then show ?thesis using sl by simp
qed

end

section \<open>Properties\<close>

context dex_deps
begin

lemma code_item_codec:
  assumes lay: "layout_ok items n" and ok: "list_all (try_ok n) ts"
    and a: "assemble_insn_stream (codes items) (tables items) n = Inr insn_bytes"
    and e: "emit_code_item_container D regs_n ins_n outs_n debug_off insn_bytes ts hs = Inr bytes"
    and f: "fits data" and at: "at_off data (unat off) bytes"
  shows "\<exists>vs. parse_code_item D data off = Inr \<lparr>registers_size = regs_n, ins_size = ins_n, outs_size = outs_n,
    debug_info_off = debug_off, instructions = codes items, tries = ts, catch_handlers = hs, payloads = tables items,
    invariant_violations = vs\<rparr>"
proof -
  obtain bytes' where b': "assemble_insn_stream (codes items) (tables items) n = Inr bytes'" "length bytes' = 2 * unat n"
    "\<forall>x \<in> set items. at_off bytes' (2 * unat (item_pc x)) (projr (item_bytes items x))"
    using assemble_ok [OF lay] by blast
  have ib: "bytes' = insn_bytes" using a b'(1) by simp
  note len = b'(2) [unfolded ib]
  have n: "of_nat (length insn_bytes div 2) = n" using len by simp
  from e obtain blob starts offs where g: "length ts < 2 ^ 16" "ts = [] \<Longrightarrow> hs = []" "list_all (\<lambda>t. handler_idx t < length hs) ts"
    and l: "ts \<noteq> [] \<Longrightarrow> emit_handler_list D hs = Inr (blob, starts)" and o: "mapE (try_handler_off starts) ts = Inr offs"
    and b: "bytes = u16_to_le regs_n @ u16_to_le ins_n @ u16_to_le outs_n @ u16_to_le (of_nat (length ts))
        @ u32_to_le debug_off @ u32_to_le n @ insn_bytes
        @ (if ts = [] then [] else (if n mod 2 \<noteq> 0 then [0, 0] else []) @ concat (map try_bytes (zip ts offs)) @ blob)"
    unfolding emit_code_item_container_def Let_def n by (auto split: if_splits)
  let ?base = "unat off"
  have h: "at_off data ?base (u16_to_le regs_n)" "at_off data (?base + 2) (u16_to_le ins_n)" "at_off data (?base + 4) (u16_to_le outs_n)"
    "at_off data (?base + 6) (u16_to_le (of_nat (length ts)))" "at_off data (?base + 8) (u32_to_le debug_off)"
    "at_off data (?base + 12) (u32_to_le n)" "at_off data (?base + 16) insn_bytes"
    "at_off data (?base + 16 + length insn_bytes)
       (if ts = [] then [] else (if n mod 2 \<noteq> 0 then [0, 0] else []) @ concat (map try_bytes (zip ts offs)) @ blob)"
    using at unfolding b by (simp_all only: at_off_append length_u16_to_le length_u32_to_le add.assoc) simp_all
  have sz: "?base + 16 < 2 ^ 63" using at_off_len [OF h(7)] f by (simp add: fits_def)
  obtain dv where d: "decode_insns D data (?base + 16) n = Inr (codes items, tables items, dv)"
    using decode_layout [OF f lay] b'(3) at_off_trans [OF h(7)] unfolding ib by blast
  obtain vs where t: "parse_tries D data (?base + 16) n (of_nat (length ts)) dv = Inr (ts, hs, vs)"
  proof (cases "ts = []")
    case True
    then show thesis using that g(2) by (simp add: parse_tries_def)
  next
    case False
    have "at_off data (?base + 16 + unat n * 2 + (if n mod 2 \<noteq> 0 then 2 else 0)) (concat (map try_bytes (zip ts offs)) @ blob)"
      using h(8) unfolding if_not_P [OF False] len at_off_append by (cases "n mod 2 \<noteq> 0") (simp_all add: ac_simps)
    from parse_tries_codec [OF f False g(1) ok g(3) l [OF False] o this, of dv] that show thesis by blast
  qed
  have "safe_add ?base k c = Inr (?base + k)" if "k \<le> 16" for k c using sz that by (simp add: safe_add_def)
  then show ?thesis
    using read_u16_at [OF f h(1)] read_u16_at [OF f h(2)] read_u16_at [OF f h(3)] read_u16_at [OF f h(4)]
      read_u32_at [OF f h(5)] read_u32_at [OF f h(6)] d t
    by (simp add: parse_code_item_def)
qed

end

text \<open>C12 (code_item_roundtrip). A method body with its try table survives emission: the assembled stream put into
  a \<open>code_item\<close> together with non-empty try ranges inside the stream and any representable handler list
  parses back to the same register counts, instructions, payloads, tries (with their handler indices
  recovered from byte offsets) and handlers.\<close>

theorem code_item_roundtrip:
  assumes "dex_deps D" and "layout_ok items n" and "list_all (try_ok n) ts"
    and "assemble_insn_stream (codes items) (tables items) n = Inr insn_bytes"
    and "emit_code_item_container D regs_n ins_n outs_n debug_off insn_bytes ts hs = Inr bytes"
    and "fits data" and "at_off data (unat off) bytes"
  shows "\<exists>vs. parse_code_item D data off = Inr \<lparr>registers_size = regs_n, ins_size = ins_n, outs_size = outs_n,
    debug_info_off = debug_off, instructions = codes items, tries = ts, catch_handlers = hs, payloads = tables items,
    invariant_violations = vs\<rparr>"
  by (rule dex_deps.code_item_codec [OF assms])

definition sample_tries :: "TryItem list" where
  "sample_tries = [\<lparr>start_addr = 0, insn_count = 3, handler_idx = 1\<rparr>, \<lparr>start_addr = 3, insn_count = 1, handler_idx = 0\<rparr>]"

definition sample_handlers :: "CatchHandler list" where
  "sample_handlers = [\<lparr>catches = [], catch_all_addr = Some 3\<rparr>,
     \<lparr>catches = [\<lparr>exception_type = TypeIdx 5, handler_addr = 3\<rparr>], catch_all_addr = None\<rparr>]"

text \<open>What a kept try satisfies.\<close>

definition try_kept :: "u32 \<Rightarrow> TryItem \<Rightarrow> bool" where
  "try_kept n t \<longleftrightarrow> unat (start_addr t) + unat (insn_count t) \<le> max (unat (start_addr t)) (unat n)"

lemma max_valid_kept: "unat start + unat (max_valid n start) \<le> max (unat start) (unat n)"
proof -
  have "unat (max_valid n start) = min (unat n - unat start) 65535" by (simp add: max_valid_def unat_of_nat_u16)
  then show ?thesis by linarith
qed

definition table_quiet :: "CodeItemInvariantViolation list \<Rightarrow> bool" where
  "table_quiet vs \<longleftrightarrow> list_all (\<lambda>v. case v of
     TryItemRangeInvalid _ _ _ _ \<Rightarrow> False | EmptyTryRegion _ _ \<Rightarrow> False | TryItemsUnsortedOrOverlapping _ _ _ \<Rightarrow> False | _ \<Rightarrow> True) vs"

text \<open>The invariant of the try loop: kept ranges do not wrap; and without a violation of the table the tries
  are non-empty, inside the stream, ordered and disjoint, and the previous end bounds them.\<close>

definition try_inv :: "u32 \<Rightarrow> tstate \<Rightarrow> bool" where
  "try_inv n st \<longleftrightarrow> (\<forall>t \<in> set (t_tries st). try_kept n t) \<and>
     (table_quiet (t_viols st) \<longrightarrow>
        list_all (try_ok n) (t_tries st) \<and> \<not> t_recorded st
        \<and> sorted_wrt (\<lambda>a b. unat (start_addr a) + unat (insn_count a) \<le> unat (start_addr b)) (t_tries st)
        \<and> (case t_prev_end st of
             None \<Rightarrow> t_tries st = []
           | Some e \<Rightarrow> \<forall>t \<in> set (t_tries st). unat (start_addr t) + unat (insn_count t) \<le> unat e))"

lemma quiet_append [simp]: "table_quiet (vs @ ws) \<longleftrightarrow> table_quiet vs \<and> table_quiet ws"
  by (simp add: table_quiet_def)

lemma sat_add_ge: "unat a + b < 2 ^ 32 \<Longrightarrow> unat (sat_add a b) = unat a + b"
  using sat_add_exact [of a b] by (simp add: unat_add_no_wrap unat_of_nat_u32)

lemma order_check_cases:
  assumes "order_check i start cnt st = st1"
  obtains (quiet) "st1 = st\<lparr>t_prev_end := Some (sat_add start (unat cnt))\<rparr>"
      "\<And>e. t_prev_end st = Some e \<Longrightarrow> \<not> t_recorded st \<Longrightarrow> e \<le> start"
  | (viol) e where "t_viols st1 = t_viols st @ [TryItemsUnsortedOrOverlapping (try_idx_u16 i) e start]" "t_tries st1 = t_tries st"
proof (cases "t_prev_end st")
  case None
  with assms quiet show thesis by (simp add: order_check_def Let_def)
next
  case (Some e)
  show thesis
  proof (cases "start < e \<and> \<not> t_recorded st")
    case True
    with Some assms viol [of e] show thesis by (auto simp: order_check_def Let_def)
  next
    case False
    with Some assms have "st1 = st\<lparr>t_prev_end := Some (sat_add start (unat cnt))\<rparr>" by (auto simp: order_check_def Let_def)
    then show thesis using Some False by (intro quiet) (auto simp: not_less)
  qed
qed

lemma try_step_inv:
  assumes inv: "try_inv n st" and s: "try_step D data off n st i = Inr st'"
  shows "try_inv n st'"
proof -
  obtain start cnt h where r: "read_try D data off i = Inr (start, cnt, h)" using s by (auto simp: try_step_def)
  define st1 where "st1 = order_check i start cnt st"
  have tr: "t_tries st1 = t_tries st" by (simp add: st1_def)
  have keep: "\<forall>t \<in> set (t_tries st). try_kept n t" using inv by (simp add: try_inv_def)
  consider (empty) "cnt = 0" "st' = st1\<lparr>t_viols := t_viols st1 @ [EmptyTryRegion (try_idx_u16 i) start]\<rparr>"
    | (ok) "cnt \<noteq> 0" "unat start + unat cnt \<le> unat n"
        "st' = st1\<lparr>t_tries := t_tries st1 @ [\<lparr>start_addr = start, insn_count = cnt, handler_idx = unat h\<rparr>]\<rparr>"
    | (bad) "st' = st1\<lparr>t_viols := t_viols st1 @ [TryItemRangeInvalid (try_idx_u16 i) start cnt n],
        t_tries := t_tries st1 @ [\<lparr>start_addr = start, insn_count = max_valid n start, handler_idx = unat h\<rparr>]\<rparr>"
    using s by (auto simp: try_step_def r Let_def st1_def split: if_splits)
  then show ?thesis
  proof cases
    case empty
    then show ?thesis using keep tr by (simp add: try_inv_def table_quiet_def)
  next
    case bad
    then show ?thesis using keep tr max_valid_kept [of start n] by (auto simp: try_inv_def table_quiet_def try_kept_def)
  next
    case ok
    have k: "try_kept n \<lparr>start_addr = start, insn_count = cnt, handler_idx = unat h\<rparr>"
      using ok(2) by (simp add: try_kept_def)
    have "unat start + unat cnt < 2 ^ 32" using ok(2) unat_u32_lt [of n] by simp
    then have e: "unat (sat_add start (unat cnt)) = unat start + unat cnt" by (rule sat_add_ge)
    from st1_def [symmetric] show ?thesis
    proof (cases rule: order_check_cases)
      case quiet
      have "\<forall>t \<in> set (t_tries st). unat (start_addr t) + unat (insn_count t) \<le> unat start" if q: "table_quiet (t_viols st)"
        using inv q quiet(2) by (cases "t_prev_end st") (fastforce simp: try_inv_def word_le_nat_alt)+
      then show ?thesis
        using inv ok k keep e quiet(1) by (auto simp: try_inv_def try_ok_def sorted_wrt_append intro: trans_le_add1)
    next
      case (viol x)
      then show ?thesis using ok(3) k keep tr by (auto simp: try_inv_def table_quiet_def)
    qed
  qed
qed

lemma try_init_inv: "try_inv n \<lparr>t_tries = [], t_viols = vs, t_prev_end = None, t_recorded = False\<rparr>"
  by (simp add: try_inv_def)

lemma handler_offset_bound: "map_of (handler_offset_to_idx es) k = Some i \<Longrightarrow> i < length es"
proof (induction es rule: rev_induct)
  case (snoc e es)
  then show ?case by (auto simp: handler_offset_to_idx_snoc map_of_btree_insert less_Suc_eq split: if_splits)
qed (simp add: handler_offset_to_idx_def)

lemma resolve_handler_same:
  "resolve_handler (handler_offset_to_idx es) t = Inr t' \<Longrightarrow>
   start_addr t' = start_addr t \<and> insn_count t' = insn_count t \<and> handler_idx t' < length es"
  by (auto simp: resolve_handler_def dest: handler_offset_bound)

definition tries_sorted :: "TryItem list \<Rightarrow> bool" where
  "tries_sorted ts \<longleftrightarrow> sorted_wrt (\<lambda>a b. unat (start_addr a) + unat (insn_count a) \<le> unat (start_addr b)) ts"

lemma parse_tries_inv:
  assumes "parse_tries D data insns_off n tries_n viols = Inr (ts, hs, vs)"
  shows "(\<forall>t \<in> set ts. try_kept n t \<and> handler_idx t < length hs)
    \<and> (table_quiet vs \<longrightarrow> list_all (try_ok n) ts \<and> tries_sorted ts)"
proof (cases "tries_n = 0")
  case True
  with assms show ?thesis by (auto simp: parse_tries_def tries_sorted_def)
next
  case False
  with assms obtain k toff st es where
    f: "foldE (try_step D data toff n) \<lparr>t_tries = [], t_viols = viols, t_prev_end = None, t_recorded = False\<rparr> [0..<k] = Inr st"
    and m: "mapE (resolve_handler (handler_offset_to_idx es)) (t_tries st) = Inr ts" and hs: "hs = map snd es" "vs = t_viols st"
    unfolding parse_tries_def Let_def by (auto split: if_splits)
  have inv: "try_inv n st"
    by (rule foldE_inv [OF f, where P = "try_inv n"]) (rule try_init_inv, erule (1) try_step_inv)
  have l: "length ts = length (t_tries st)" using mapE_length [OF m] .
  have t: "start_addr (ts ! i) = start_addr (t_tries st ! i)" "insn_count (ts ! i) = insn_count (t_tries st ! i)"
    "handler_idx (ts ! i) < length hs" if "i < length ts" for i
    using m that l hs resolve_handler_same [of es "t_tries st ! i" "ts ! i"] by (auto simp: mapE_Inr_iff list_all2_conv_all_nth)
  have "try_kept n (t_tries st ! i)" if "i < length ts" for i using inv l that by (simp add: try_inv_def)
  then have "\<forall>t \<in> set ts. try_kept n t \<and> handler_idx t < length hs"
    using t unfolding all_set_conv_all_nth try_kept_def by simp
  moreover have "list_all (try_ok n) ts \<and> tries_sorted ts" if "table_quiet vs"
    using inv that hs(2) l t(1,2) by (simp add: try_inv_def list_all_length try_ok_def tries_sorted_def sorted_wrt_iff_nth_less)
  ultimately show ?thesis by blast
qed

lemma parse_code_item_parts:
  assumes "parse_code_item D data off = Inr c"
  shows "\<exists>n tn dv pv ws. read_u32 D data (unat off + 12) = Inr n
    \<and> decode_insns D data (unat off + 16) n = Inr (instructions c, payloads c, dv)
    \<and> parse_tries D data (unat off + 16) n tn dv = Inr (tries c, catch_handlers c, pv)
    \<and> invariant_violations c = pv @ ws"
proof -
  have sa: "safe_add a b x = Inr y \<longleftrightarrow> a + b < 2 ^ 64 \<and> y = a + b" for a b x y by (auto simp: safe_add_def)
  from assms show ?thesis unfolding parse_code_item_def Let_def bindE_eq_Inr sa by fastforce
qed

text \<open>C13 (code_item_tries_safe). Every try that a parsed code item carries names an existing handler, and its range
  ends inside the declared stream (a range that starts beyond it is empty), so that \<open>start + count\<close> never
  wraps; when no violation of the try table is recorded, the ranges are non-empty, inside the stream,
  ordered and disjoint.\<close>

theorem code_item_tries_safe:
  assumes "parse_code_item D data off = Inr c"
  shows "\<exists>n. read_u32 D data (unat off + 12) = Inr n
    \<and> (\<forall>t \<in> set (tries c). handler_idx t < length (catch_handlers c)
          \<and> unat (start_addr t) + unat (insn_count t) \<le> max (unat (start_addr t)) (unat n))
    \<and> (table_quiet (invariant_violations c) \<longrightarrow> list_all (try_ok n) (tries c) \<and> tries_sorted (tries c))"
proof -
  obtain n tn dv pv ws where p: "read_u32 D data (unat off + 12) = Inr n"
    "parse_tries D data (unat off + 16) n tn dv = Inr (tries c, catch_handlers c, pv)" "invariant_violations c = pv @ ws"
    using parse_code_item_parts [OF assms] by blast
  with parse_tries_inv [OF p(2)] show ?thesis unfolding try_kept_def by auto
qed

lemma sample_emits:
  "\<exists>bytes. emit_code_item_container (std_deps (\<lambda>_. [])) 2 0 0 0 insn_bytes sample_tries sample_handlers = Inr bytes
     \<and> length bytes \<le> 100 + length insn_bytes"
  if "length insn_bytes = 20"
proof -
  let ?D = "std_deps (\<lambda>_. [])"
  have wl: "\<And>v. length (common_write_uleb128 ?D v) \<le> 5" "\<And>v. length (common_write_sleb128 ?D v) \<le> 5"
    using std.write_uleb_length std.write_sleb_length by blast+
  define b0 where "b0 = common_write_sleb128 ?D 0 @ common_write_uleb128 ?D 3"
  define b1 where "b1 = common_write_sleb128 ?D 1 @ common_write_uleb128 ?D 5 @ common_write_uleb128 ?D 3"
  have l: "length b0 \<le> 10" "length b1 \<le> 15"
    using wl(2) [of 0] wl(2) [of 1] wl(1) [of 3] wl(1) [of 5] by (simp_all add: b0_def b1_def)
  have h: "emit_encoded_catch_handler ?D \<lparr>catches = [], catch_all_addr = Some 3\<rparr> = Inr b0"
    "emit_encoded_catch_handler ?D \<lparr>catches = [\<lparr>exception_type = TypeIdx 5, handler_addr = 3\<rparr>], catch_all_addr = None\<rparr> = Inr b1"
    by (simp_all add: emit_encoded_catch_handler_def b0_def b1_def write_typed_catch_def)
  have e: "emit_handler_list ?D sample_handlers = Inr (common_write_uleb128 ?D 2 @ b0 @ b1,
      [length (common_write_uleb128 ?D 2), length (common_write_uleb128 ?D 2) + length b0])"
    by (simp add: emit_handler_list_def sample_handlers_def h)
  have "length (common_write_uleb128 ?D 2) < 65536" "length (common_write_uleb128 ?D 2) + length b0 < 65536"
    using wl(1) [of 2] l by simp_all
  then show ?thesis
    using that e wl(1) [of 2] l
    by (simp add: emit_code_item_container_def sample_tries_def sample_handlers_def try_handler_off_def length_try_bytes)
qed

lemma sample_tries_ok: "list_all (try_ok 10) sample_tries"
  by (simp add: sample_tries_def try_ok_def)

theorem code_item_roundtrip_witness:
  "\<exists>bytes vs. parse_code_item (std_deps (\<lambda>_. [])) bytes 0 = Inr \<lparr>registers_size = 2, ins_size = 0, outs_size = 0,
    debug_info_off = 0, instructions = codes sample_items, tries = sample_tries, catch_handlers = sample_handlers,
    payloads = tables sample_items, invariant_violations = vs\<rparr>"
proof -
  obtain insn_bytes where a: "assemble_insn_stream (codes sample_items) (tables sample_items) 10 = Inr insn_bytes" "length insn_bytes = 20"
    using assemble_ok [OF sample_layout] by auto
  obtain bytes where b: "emit_code_item_container (std_deps (\<lambda>_. [])) 2 0 0 0 insn_bytes sample_tries sample_handlers = Inr bytes"
    "length bytes \<le> 120" using sample_emits [OF a(2)] a(2) by auto
  then have "fits bytes" "at_off bytes (unat 0) bytes" by (simp_all add: fits_def at_off_def)
  from code_item_roundtrip [OF std.dex_deps_axioms sample_layout sample_tries_ok a(1) b(1) this] show ?thesis by blast
qed

theorem code_item_tries_safe_witness:
  "\<exists>bytes c. parse_code_item (std_deps (\<lambda>_. [])) bytes 0 = Inr c \<and> tries c = sample_tries
     \<and> handler_idx (tries c ! 0) < length (catch_handlers c)"
proof -
  obtain insn_bytes where a: "assemble_insn_stream (codes sample_items) (tables sample_items) 10 = Inr insn_bytes" "length insn_bytes = 20"
    using assemble_ok [OF sample_layout] by auto
  obtain bytes where b: "emit_code_item_container (std_deps (\<lambda>_. [])) 2 0 0 0 insn_bytes sample_tries sample_handlers = Inr bytes"
    "length bytes \<le> 120" using sample_emits [OF a(2)] a(2) by auto
  then have "fits bytes" "at_off bytes (unat 0) bytes" by (simp_all add: fits_def at_off_def)
  from std.code_item_codec [OF sample_layout sample_tries_ok a(1) b(1) this]
  obtain c where c: "parse_code_item (std_deps (\<lambda>_. [])) bytes 0 = Inr c" "tries c = sample_tries" by auto
  have "tries c ! 0 \<in> set (tries c)" using c(2) by (simp add: sample_tries_def)
  with code_item_tries_safe [OF c(1)] c show ?thesis by blast
qed

end
