(* ===== verification/Dex_Value.thy ===== *)
theory Dex_Value
  imports Dex_Ids
begin

text \<open>
  Encoded values without their nesting: the value type and the primitive decoder of
  \<open>src/src/annotation.rs\<close>, and the minimal-width and fixed-width emitters of
  \<open>src/src/emit_dex.rs\<close>, with the round trips between them. Signed integers and floats are the
  words of their bits; \<open>as\<close> casts are \<open>ucast\<close> and \<open>scast\<close>.
\<close>

section \<open>Data\<close>

datatype EncodedValue =
    EV_Byte byte
  | EV_Short u16
  | EV_Char u16
  | EV_Int u32
  | EV_Long u64
  | EV_Float u32
  | EV_Double u64
  | EV_String StringIdx
  | EV_Type TypeIdx
  | EV_Field FieldIdx
  | EV_Method MethodIdx
  | EV_Enum FieldIdx
  | EV_Array "EncodedValue list"
  | EV_Annotation EncodedAnnotation
  | EV_Null
  | EV_Boolean bool
  | EV_MethodType ProtoIdx
  | EV_MethodHandle MethodHandleIdx
and EncodedAnnotation = EncodedAnnotation (ann_type_idx: TypeIdx) (elements: "(StringIdx \<times> EncodedValue) list")

record AnnotationItem =
  visibility :: byte
  item_annotation :: EncodedAnnotation

section \<open>Minimal widths\<close>

text \<open>\<open>u64::leading_zeros\<close>, \<open>u32::div_ceil\<close> and \<open>clamp\<close> of the standard library.\<close>

primrec zeros_from :: "nat \<Rightarrow> u64 \<Rightarrow> nat" where
  "zeros_from 0 w = 0"
| "zeros_from (Suc n) w = (if bit w n then 0 else Suc (zeros_from n w))"

definition leading_zeros :: "u64 \<Rightarrow> nat" where
  "leading_zeros w = zeros_from 64 w"

definition div_ceil :: "nat \<Rightarrow> nat \<Rightarrow> nat" where
  "div_ceil a b = (if a mod b = 0 then a div b else a div b + 1)"

definition clamp :: "nat \<Rightarrow> nat \<Rightarrow> nat \<Rightarrow> nat" where
  "clamp lo hi x = (if x < lo then lo else if x > hi then hi else x)"

definition min_signed_bytes :: "u64 \<Rightarrow> nat" where
  "min_signed_bytes val =
     (if val = 0 \<or> val = - 1 then 1
      else
        let abs_bits = (if 0 \<le> sint val then 64 - leading_zeros val else 64 - leading_zeros (NOT val))
        in clamp 1 8 (div_ceil (abs_bits + 1) 8))"

definition min_unsigned_bytes :: "u64 \<Rightarrow> nat" where
  "min_unsigned_bytes val =
     (if val = 0 then 1 else clamp 1 8 (div_ceil (64 - leading_zeros val) 8))"

definition u64_to_le :: "u64 \<Rightarrow> byte list" where
  "u64_to_le w = map (\<lambda>i. ucast (drop_bit (8 * i) w)) [0..<8]"

definition write_le_bytes :: "u64 \<Rightarrow> nat \<Rightarrow> byte list" where
  "write_le_bytes val n = take (min n 8) (u64_to_le val)"

lemma zeros_from_le: "zeros_from n w \<le> n"
  by (induction n) auto

lemma zeros_from_bits: "n - zeros_from n w \<le> k \<Longrightarrow> k < n \<Longrightarrow> \<not> bit w k"
  by (induction n) (auto simp: less_Suc_eq split: if_splits)

lemma zeros_from_top: "zeros_from n w < n \<Longrightarrow> bit w (n - 1 - zeros_from n w)"
  by (induction n) (auto split: if_splits)

lemma zeros_from_full: "zeros_from n w = n \<Longrightarrow> k < n \<Longrightarrow> \<not> bit w k"
  using zeros_from_bits [of n w k] by simp

lemma clear_above: "64 - leading_zeros w \<le> k \<longleftrightarrow> (\<forall>n \<ge> k. \<not> bit w n)"
proof
  assume *: "64 - leading_zeros w \<le> k"
  show "\<forall>n \<ge> k. \<not> bit w n"
  proof (intro allI impI)
    fix n assume "k \<le> n"
    with * show "\<not> bit w n"
      using zeros_from_bits [of 64 w n] bit_imp_le_length [of w n] by (cases "n < 64") (auto simp: leading_zeros_def)
  qed
next
  assume *: "\<forall>n \<ge> k. \<not> bit w n"
  show "64 - leading_zeros w \<le> k"
  proof (rule ccontr)
    assume "\<not> 64 - leading_zeros w \<le> k"
    then have "zeros_from 64 w < 64" "k \<le> 64 - 1 - zeros_from 64 w" unfolding leading_zeros_def by linarith+
    with * zeros_from_top [of 64 w] show False by blast
  qed
qed

lemma div_ceil_le: "0 < b \<Longrightarrow> div_ceil a b \<le> k \<longleftrightarrow> a \<le> b * k"
proof -
  assume b: "0 < b"
  have a: "a = b * (a div b) + a mod b" by simp
  show ?thesis
  proof (cases "a mod b = 0")
    case True
    then show ?thesis using b a by (metis add.right_neutral div_ceil_def nat_mult_le_cancel1)
  next
    case False
    have "a div b < k \<longleftrightarrow> a \<le> b * k"
    proof
      assume "a div b < k" then show "a \<le> b * k" using b by (metis div_less_iff_less_mult less_or_eq_imp_le mult.commute)
    next
      assume "a \<le> b * k"
      moreover have "a \<noteq> b * k" using False by auto
      ultimately show "a div b < k" using b by (simp add: less_mult_imp_div_less mult.commute)
    qed
    then show ?thesis using False by (simp add: div_ceil_def Suc_le_eq)
  qed
qed

lemma clamp_le: "lo \<le> hi \<Longrightarrow> x \<le> hi \<Longrightarrow> lo \<le> k \<Longrightarrow> clamp lo hi x \<le> k \<longleftrightarrow> x \<le> k"
  by (auto simp: clamp_def)

lemma min_unsigned_iff: "1 \<le> k \<Longrightarrow> min_unsigned_bytes v \<le> k \<longleftrightarrow> take_bit (8 * k) v = v"
proof -
  assume k: "1 \<le> k"
  have "take_bit (8 * k) v = v \<longleftrightarrow> (\<forall>n \<ge> 8 * k. \<not> bit v n)"
    using bit_imp_le_length [of v] by (auto simp: bit_eq_iff bit_take_bit_iff not_less) (metis not_less)+
  also have "\<dots> \<longleftrightarrow> 64 - leading_zeros v \<le> 8 * k" by (simp add: clear_above)
  also have "\<dots> \<longleftrightarrow> min_unsigned_bytes v \<le> k"
    using k clear_above [of 0 0] div_ceil_le [of 8 "64 - leading_zeros v" 8] div_ceil_le [of 8 "64 - leading_zeros v" k]
    by (auto simp: min_unsigned_bytes_def clamp_le leading_zeros_def clear_above)
  finally show ?thesis by simp
qed

lemma min_unsigned_range: "1 \<le> min_unsigned_bytes v \<and> min_unsigned_bytes v \<le> 8"
  by (auto simp: min_unsigned_bytes_def clamp_def)

lemma min_signed_range: "1 \<le> min_signed_bytes v \<and> min_signed_bytes v \<le> 8"
  by (auto simp: min_signed_bytes_def clamp_def Let_def)

lemma signed_take_bit_id: "n < 64 \<Longrightarrow> signed_take_bit n (v :: u64) = v \<longleftrightarrow> (\<forall>m. n \<le> m \<and> m < 64 \<longrightarrow> bit v m = bit v n)"
  by (auto simp: bit_eq_iff bit_signed_take_bit_iff min_def)

lemma min_signed_iff:
  assumes k: "1 \<le> k" "k \<le> 8"
  shows "min_signed_bytes v \<le> k \<longleftrightarrow> signed_take_bit (8 * k - 1) v = v"
proof (cases "v = 0 \<or> v = - 1")
  case True
  then show ?thesis using k by (auto simp: min_signed_bytes_def)
next
  case False
  define u where "u = (if 0 \<le> sint v then v else NOT v)"
  have u: "bit u m \<longleftrightarrow> bit v m \<noteq> bit v 63" if "m < 64" for m
    using that bit_last_iff [of v] by (auto simp: u_def bit_not_iff not_less)
  have "signed_take_bit (8 * k - 1) v = v \<longleftrightarrow> (\<forall>m. 8 * k - 1 \<le> m \<and> m < 64 \<longrightarrow> \<not> bit u m)"
  proof -
    have r: "8 * k - 1 < 64" "8 * k - 1 \<le> 63" "(63 :: nat) < 64" using k by linarith+
    show ?thesis unfolding signed_take_bit_id [OF r(1)] using u r by (metis order_refl)
  qed
  also have "\<dots> \<longleftrightarrow> (\<forall>m \<ge> 8 * k - 1. \<not> bit u m)" using bit_imp_le_length [of u] by auto
  also have "\<dots> \<longleftrightarrow> 64 - leading_zeros u + 1 \<le> 8 * k" using k unfolding clear_above [symmetric] by linarith
  also have "\<dots> \<longleftrightarrow> min_signed_bytes v \<le> k"
  proof -
    have "\<not> bit u 63" using u [of 63] by simp
    then have "\<not> bit u n" if "63 \<le> n" for n using that bit_imp_le_length [of u n] by (cases "n = 63") auto
    then have "64 - leading_zeros u \<le> 63" unfolding clear_above by blast
    then have "clamp 1 8 (div_ceil (64 - leading_zeros u + 1) 8) \<le> k \<longleftrightarrow> div_ceil (64 - leading_zeros u + 1) 8 \<le> k"
      using k by (intro clamp_le) (simp_all add: div_ceil_le)
    then show ?thesis using False by (simp add: min_signed_bytes_def u_def Let_def div_ceil_le split: if_splits)
  qed
  finally show ?thesis by simp
qed


section \<open>Reading numbers\<close>

definition wrapping_shl :: "u64 \<Rightarrow> nat \<Rightarrow> u64" where
  "wrapping_shl w n = push_bit (n mod 64) w"

definition wrapping_shr_signed :: "u64 \<Rightarrow> nat \<Rightarrow> u64" where
  "wrapping_shr_signed w n = signed_drop_bit (n mod 64) w"

text \<open>The loop the three readers share; they differ in the shift of a byte.\<close>

definition read_le_at ::
  "deps \<Rightarrow> byte list \<Rightarrow> nat \<Rightarrow> string \<Rightarrow> (nat \<Rightarrow> DexError + nat) \<Rightarrow> nat \<Rightarrow> DexError + u64" where
  "read_le_at D data pos ctx shift_of n =
     foldE (\<lambda>val i.
        bindE (safe_add pos i ctx) (\<lambda>p.
        bindE (read_u8 D data p) (\<lambda>b.
        bindE (shift_of i) (\<lambda>shift_bits.
        Inr (val OR wrapping_shl (ucast b) shift_bits)))))
       0 [0..<n]"

definition read_int :: "deps \<Rightarrow> byte list \<Rightarrow> nat \<Rightarrow> nat \<Rightarrow> DexError + u64" where
  "read_int D data pos n =
     bindE (read_le_at D data pos ''annotation:read_int:pos+i'' (\<lambda>i. safe_mul i 8 ''annotation:read_int:shift'') n) (\<lambda>val.
     bindE (safe_mul (8 - n) 8 ''annotation:read_int:signext_shift'') (\<lambda>shift.
     Inr (wrapping_shr_signed (wrapping_shl val shift) shift)))"

definition read_uint :: "deps \<Rightarrow> byte list \<Rightarrow> nat \<Rightarrow> nat \<Rightarrow> DexError + u64" where
  "read_uint D data pos n =
     read_le_at D data pos ''annotation:read_uint:pos+i'' (\<lambda>i. safe_mul i 8 ''annotation:read_uint:shift'') n"

definition read_uint_right_extend :: "deps \<Rightarrow> byte list \<Rightarrow> nat \<Rightarrow> nat \<Rightarrow> DexError + u64" where
  "read_uint_right_extend D data pos n =
     read_le_at D data pos ''annotation:read_uint_right_extend:pos+i''
       (\<lambda>i. bindE (safe_add (8 - n) i ''annotation:read_uint_right_extend:byte_pos'') (\<lambda>byte_pos.
            safe_mul byte_pos 8 ''annotation:read_uint_right_extend:shift'')) n"

definition check_value_arg_size :: "string \<Rightarrow> nat \<Rightarrow> nat \<Rightarrow> DexError + unit" where
  "check_value_arg_size variant n max_n = (if n > max_n then Inl (EncodedValueSize variant n) else Inr ())"

text \<open>The little-endian number in a byte list.\<close>

primrec le_value :: "byte list \<Rightarrow> u64" where
  "le_value [] = 0"
| "le_value (b # bs) = ucast b OR push_bit 8 (le_value bs)"

lemma bit_le_value: "bit (le_value bs) n \<longleftrightarrow> n < 64 \<and> n div 8 < length bs \<and> bit (bs ! (n div 8)) (n mod 8)"
proof (induction bs arbitrary: n)
  case (Cons b bs)
  show ?case
  proof (cases "n < 8")
    case True
    then show ?thesis by (simp add: bit_or_iff bit_push_bit_iff bit_ucast_iff)
  next
    case False
    then have "n div 8 = Suc ((n - 8) div 8)" "(n - 8) mod 8 = n mod 8" by (simp_all add: le_div_geq le_mod_geq)
    with False Cons.IH [of "n - 8"] show ?thesis by (auto simp: bit_or_iff bit_push_bit_iff bit_ucast_iff dest: bit_byte_lt)
  qed
qed simp

lemma le_value_snoc:
  "length bs < 8 \<Longrightarrow> le_value (bs @ [b]) = le_value bs OR push_bit (8 * length bs) (ucast b)"
proof (intro bit_eqI)
  fix n assume "length bs < 8" and "possible_bit TYPE(u64) n"
  show "bit (le_value (bs @ [b])) n = bit (le_value bs OR push_bit (8 * length bs) (ucast b)) n"
  proof (cases "n div 8 = length bs")
    case True
    then have "8 * length bs \<le> n" "n - 8 * length bs = n mod 8" by (auto simp: minus_div_mult_eq_mod [symmetric])
    with True show ?thesis by (auto simp: bit_le_value bit_or_iff bit_push_bit_iff bit_ucast_iff dest: bit_imp_le_length)
  next
    case False
    then have "\<not> (8 * length bs \<le> n \<and> n - 8 * length bs < 8)" by auto
    with False show ?thesis
      by (auto simp: bit_le_value bit_or_iff bit_push_bit_iff bit_ucast_iff nth_append dest: bit_byte_lt bit_imp_le_length)
  qed
qed


lemma le_value_write: "n \<le> 8 \<Longrightarrow> le_value (write_le_bytes v n) = take_bit (8 * n) v"
proof (intro bit_eqI)
  fix k assume n: "n \<le> 8" and "possible_bit TYPE(u64) k"
  have "k div 8 < n \<longleftrightarrow> k < 8 * n" by (simp add: div_less_iff_less_mult mult.commute)
  moreover have "8 * (k div 8) + k mod 8 = k" by simp
  ultimately show "bit (le_value (write_le_bytes v n)) k = bit (take_bit (8 * n) v) k" using n
    by (auto simp: bit_le_value write_le_bytes_def u64_to_le_def bit_take_bit_iff bit_ucast_iff bit_drop_bit_eq dest: bit_imp_le_length)
qed

lemma length_write_le_bytes [simp]: "n \<le> 8 \<Longrightarrow> length (write_le_bytes v n) = n"
  by (simp add: write_le_bytes_def u64_to_le_def)

context scroll_reader
begin

lemma read_le_at_bytes:
  assumes "fits data" and "at_off data pos bs"
    and "\<And>i. i < length bs \<Longrightarrow> shift_of i = Inr (8 * (pad + i))" and "pad + length bs \<le> 8"
  shows "read_le_at D data pos ctx shift_of (length bs) = Inr (push_bit (8 * pad) (le_value bs))"
  using assms
proof (induction bs rule: rev_induct)
  case (snoc b bs)
  have at: "at_off data pos bs" "at_off data (pos + length bs) [b]" using snoc.prems(2) by (simp_all add: at_off_append)
  have "read_u8 D data (pos + length bs) = Inr b" using read_u8_at [OF snoc.prems(1) at(2)] .
  moreover have "pos + length bs < 18446744073709551616" using at_off_len [OF at(2)] snoc.prems(1) by (simp add: fits_def)
  moreover have "8 * (pad + length bs) < 64" using snoc.prems(4) by simp
  ultimately show ?case using snoc.IH [OF snoc.prems(1) at(1)] snoc.prems(3, 4)
    by (simp add: read_le_at_def foldE_append wrapping_shl_def le_value_snoc push_bit_or push_bit_push_bit algebra_simps)
qed (simp add: read_le_at_def)

lemma read_uint_at:
  "fits data \<Longrightarrow> at_off data pos (write_le_bytes v n) \<Longrightarrow> n \<le> 8 \<Longrightarrow> read_uint D data pos n = Inr (take_bit (8 * n) v)"
  using read_le_at_bytes [of data pos "write_le_bytes v n" _ 0] by (simp add: read_uint_def le_value_write)

lemma read_int_at:
  "fits data \<Longrightarrow> at_off data pos (write_le_bytes v n) \<Longrightarrow> 1 \<le> n \<Longrightarrow> n \<le> 8 \<Longrightarrow>
   read_int D data pos n = Inr (signed_take_bit (8 * n - 1) v)"
proof -
  assume a: "fits data" "at_off data pos (write_le_bytes v n)" "1 \<le> n" "n \<le> 8"
  let ?s = "(8 - n) * 8"
  have "signed_drop_bit ?s (push_bit ?s (take_bit (8 * n) v)) = signed_take_bit (8 * n - 1) v"
  proof (intro bit_eqI)
    fix k assume "possible_bit TYPE(u64) k"
    then have k: "k < 64" by simp
    have e: "63 - ?s = 8 * n - Suc 0" "64 - ?s = 8 * n" "8 * n - Suc 0 \<le> k \<Longrightarrow> k < 8 * n \<Longrightarrow> k = 8 * n - Suc 0"
      using a(3, 4) by linarith+
    show "bit (signed_drop_bit ?s (push_bit ?s (take_bit (8 * n) v))) k = bit (signed_take_bit (8 * n - 1) v) k"
      using k a(3, 4) e by (auto simp: bit_signed_drop_bit_iff bit_push_bit_iff bit_take_bit_iff bit_signed_take_bit_iff min_def)
  qed
  then show ?thesis using a read_le_at_bytes [of data pos "write_le_bytes v n" _ 0]
    by (simp add: read_int_def le_value_write wrapping_shl_def wrapping_shr_signed_def)
qed

end


section \<open>Decoding a primitive value\<close>

text \<open>An arm with a width check: \<open>check_value_arg_size(..)?\<close>, the read, the narrowing cast.\<close>

definition sized_arm ::
  "string \<Rightarrow> nat \<Rightarrow> nat \<Rightarrow> (nat \<Rightarrow> DexError + u64) \<Rightarrow> (u64 \<Rightarrow> EncodedValue) \<Rightarrow> DexError + EncodedValue" where
  "sized_arm variant n max_n rd mk =
     bindE (check_value_arg_size variant n max_n) (\<lambda>_. bindE (rd n) (\<lambda>v. Inr (mk v)))"

definition decode_payload :: "deps \<Rightarrow> byte list \<Rightarrow> nat \<Rightarrow> nat \<Rightarrow> byte \<Rightarrow> nat \<Rightarrow> DexError + EncodedValue" where
  "decode_payload D data start_pos after_hdr value_type n =
     (let int_at = read_int D data after_hdr; uint_at = read_uint D data after_hdr;
          right_at = read_uint_right_extend D data after_hdr
      in if value_type = 0x00 then sized_arm ''Byte'' n 1 int_at (\<lambda>v. EV_Byte (ucast v))
         else if value_type = 0x02 then sized_arm ''Short'' n 2 int_at (\<lambda>v. EV_Short (ucast v))
         else if value_type = 0x03 then sized_arm ''Char'' n 2 uint_at (\<lambda>v. EV_Char (ucast v))
         else if value_type = 0x04 then sized_arm ''Int'' n 4 int_at (\<lambda>v. EV_Int (ucast v))
         else if value_type = 0x06 then bindE (int_at n) (\<lambda>v. Inr (EV_Long v))
         else if value_type = 0x10 then sized_arm ''Float'' n 4 right_at (\<lambda>v. EV_Float (ucast (drop_bit 32 v)))
         else if value_type = 0x11 then bindE (right_at n) (\<lambda>v. Inr (EV_Double v))
         else if value_type = 0x15 then sized_arm ''MethodType'' n 4 uint_at (\<lambda>v. EV_MethodType (ProtoIdx (ucast v)))
         else if value_type = 0x16 then sized_arm ''MethodHandle'' n 4 uint_at (\<lambda>v. EV_MethodHandle (MethodHandleIdx (ucast v)))
         else if value_type = 0x17 then sized_arm ''String'' n 4 uint_at (\<lambda>v. EV_String (StringIdx (ucast v)))
         else if value_type = 0x18 then sized_arm ''Type'' n 4 uint_at (\<lambda>v. EV_Type (TypeIdx (ucast v)))
         else if value_type = 0x19 then sized_arm ''Field'' n 4 uint_at (\<lambda>v. EV_Field (FieldIdx (ucast v)))
         else if value_type = 0x1a then sized_arm ''Method'' n 4 uint_at (\<lambda>v. EV_Method (MethodIdx (ucast v)))
         else if value_type = 0x1b then sized_arm ''Enum'' n 4 uint_at (\<lambda>v. EV_Enum (FieldIdx (ucast v)))
         else Inl (UnknownOpcode value_type (of_nat start_pos)))"

text \<open>\<open>None\<close> tells the caller to handle an array or an annotation.\<close>

definition decode_primitive_encoded_value :: "deps \<Rightarrow> byte list \<Rightarrow> nat \<Rightarrow> DexError + (EncodedValue option \<times> nat)" where
  "decode_primitive_encoded_value D data pos =
     bindE (read_u8 D data pos) (\<lambda>header.
     let value_type = header AND 0x1F; value_arg = unat (drop_bit 5 header)
     in bindE (safe_add value_arg 1 ''annotation:encoded_value:size'') (\<lambda>n.
        bindE (safe_add pos 1 ''annotation:encoded_value:header'') (\<lambda>after_hdr.
        if value_type = 0x1C \<or> value_type = 0x1D then Inr (None, 0)
        else if value_type = 0x1E then Inr (Some EV_Null, 1)
        else if value_type = 0x1F then Inr (Some (EV_Boolean (value_arg \<noteq> 0)), 1)
        else
          bindE (decode_payload D data pos after_hdr value_type n) (\<lambda>value.
          bindE (safe_add 1 n ''annotation:encoded_value:primitive_total'') (\<lambda>total.
          Inr (Some value, total))))))"

section \<open>Emitting a primitive value\<close>

text \<open>\<open>VT_X | ((size - 1) as u8) << 5\<close>.\<close>

definition header_byte :: "byte \<Rightarrow> nat \<Rightarrow> byte" where
  "header_byte tag n = tag OR push_bit 5 (of_nat (n - 1))"

definition emit_signed :: "byte \<Rightarrow> u64 \<Rightarrow> byte list" where
  "emit_signed tag raw = (let n = min_signed_bytes raw in header_byte tag n # write_le_bytes raw n)"

definition emit_unsigned :: "byte \<Rightarrow> u64 \<Rightarrow> byte list" where
  "emit_unsigned tag raw = (let n = min_unsigned_bytes raw in header_byte tag n # write_le_bytes raw n)"

text \<open>The arms of \<open>emit_encoded_value\<close> for values without children; \<open>None\<close> for the two arms with children.\<close>

fun emit_primitive :: "EncodedValue \<Rightarrow> byte list option" where
  "emit_primitive (EV_Byte b) = Some [0x00, b]"
| "emit_primitive (EV_Short s) = Some (emit_signed 0x02 (scast s))"
| "emit_primitive (EV_Char c) = Some (emit_unsigned 0x03 (ucast c))"
| "emit_primitive (EV_Int i) = Some (emit_signed 0x04 (scast i))"
| "emit_primitive (EV_Long l) = Some (emit_signed 0x06 l)"
| "emit_primitive (EV_Float f) = Some (header_byte 0x10 4 # u32_to_le f)"
| "emit_primitive (EV_Double d) = Some (header_byte 0x11 8 # u64_to_le d)"
| "emit_primitive (EV_String s) = Some (emit_unsigned 0x17 (ucast (un_StringIdx s)))"
| "emit_primitive (EV_Type t) = Some (emit_unsigned 0x18 (ucast (un_TypeIdx t)))"
| "emit_primitive (EV_Field f) = Some (emit_unsigned 0x19 (ucast (un_FieldIdx f)))"
| "emit_primitive (EV_Method m) = Some (emit_unsigned 0x1a (ucast (un_MethodIdx m)))"
| "emit_primitive (EV_Enum f) = Some (emit_unsigned 0x1b (ucast (un_FieldIdx f)))"
| "emit_primitive EV_Null = Some [0x1e]"
| "emit_primitive (EV_Boolean b) = Some [0x1f OR push_bit 5 (if b then 1 else 0)]"
| "emit_primitive (EV_MethodType p) = Some (emit_unsigned 0x15 (ucast (un_ProtoIdx p)))"
| "emit_primitive (EV_MethodHandle h) = Some (emit_unsigned 0x16 (ucast (un_MethodHandleIdx h)))"
| "emit_primitive (EV_Array _) = None"
| "emit_primitive (EV_Annotation _) = None"

text \<open>Tag, raw bits, least and greatest width of a value whose width can be chosen.\<close>

fun width_params :: "EncodedValue \<Rightarrow> (byte \<times> u64 \<times> nat \<times> nat) option" where
  "width_params (EV_Short s) = Some (0x02, scast s, min_signed_bytes (scast s), 2)"
| "width_params (EV_Char c) = Some (0x03, ucast c, min_unsigned_bytes (ucast c), 2)"
| "width_params (EV_Int i) = Some (0x04, scast i, min_signed_bytes (scast i), 4)"
| "width_params (EV_Long l) = Some (0x06, l, min_signed_bytes l, 8)"
| "width_params (EV_String s) = Some (0x17, ucast (un_StringIdx s), min_unsigned_bytes (ucast (un_StringIdx s)), 4)"
| "width_params (EV_Type t) = Some (0x18, ucast (un_TypeIdx t), min_unsigned_bytes (ucast (un_TypeIdx t)), 4)"
| "width_params (EV_Field f) = Some (0x19, ucast (un_FieldIdx f), min_unsigned_bytes (ucast (un_FieldIdx f)), 4)"
| "width_params (EV_Method m) = Some (0x1a, ucast (un_MethodIdx m), min_unsigned_bytes (ucast (un_MethodIdx m)), 4)"
| "width_params (EV_Enum f) = Some (0x1b, ucast (un_FieldIdx f), min_unsigned_bytes (ucast (un_FieldIdx f)), 4)"
| "width_params (EV_MethodType p) = Some (0x15, ucast (un_ProtoIdx p), min_unsigned_bytes (ucast (un_ProtoIdx p)), 4)"
| "width_params (EV_MethodHandle h) = Some (0x16, ucast (un_MethodHandleIdx h), min_unsigned_bytes (ucast (un_MethodHandleIdx h)), 4)"
| "width_params _ = None"

text \<open>Floats drop low-order zero bytes.\<close>

definition emit_trimmed :: "byte \<Rightarrow> nat \<Rightarrow> byte list \<Rightarrow> nat \<Rightarrow> byte list option" where
  "emit_trimmed tag full le n =
     (if n > full then None
      else
        let pad_count = full - min n full
        in if list_ex (\<lambda>b. b \<noteq> 0) (take pad_count le) then None
           else Some (header_byte tag n # drop pad_count le))"

definition emit_encoded_value_at_width :: "EncodedValue \<Rightarrow> byte \<Rightarrow> byte list option" where
  "emit_encoded_value_at_width val requested_width =
     (let n = unat requested_width
      in if \<not> (1 \<le> n \<and> n \<le> 8) then None
         else case val of
                EV_Float f \<Rightarrow> emit_trimmed 0x10 4 (u32_to_le f) n
              | EV_Double d \<Rightarrow> emit_trimmed 0x11 8 (u64_to_le d) n
              | _ \<Rightarrow> (case width_params val of
                       None \<Rightarrow> None
                     | Some (vt_tag, raw, min_width, max_width) \<Rightarrow>
                         if n > max_width \<or> n < min_width then None
                         else Some (header_byte vt_tag n # write_le_bytes raw n)))"

fun encoded_value_min_emit_width :: "EncodedValue \<Rightarrow> byte option" where
  "encoded_value_min_emit_width (EV_Byte _) = Some 1"
| "encoded_value_min_emit_width (EV_Short s) = Some (of_nat (min_signed_bytes (scast s)))"
| "encoded_value_min_emit_width (EV_Char c) = Some (of_nat (min_unsigned_bytes (ucast c)))"
| "encoded_value_min_emit_width (EV_Int i) = Some (of_nat (min_signed_bytes (scast i)))"
| "encoded_value_min_emit_width (EV_Long l) = Some (of_nat (min_signed_bytes l))"
| "encoded_value_min_emit_width (EV_Float _) = Some 4"
| "encoded_value_min_emit_width (EV_Double _) = Some 8"
| "encoded_value_min_emit_width (EV_String s) = Some (of_nat (min_unsigned_bytes (ucast (un_StringIdx s))))"
| "encoded_value_min_emit_width (EV_Type t) = Some (of_nat (min_unsigned_bytes (ucast (un_TypeIdx t))))"
| "encoded_value_min_emit_width (EV_Field f) = Some (of_nat (min_unsigned_bytes (ucast (un_FieldIdx f))))"
| "encoded_value_min_emit_width (EV_Method m) = Some (of_nat (min_unsigned_bytes (ucast (un_MethodIdx m))))"
| "encoded_value_min_emit_width (EV_Enum f) = Some (of_nat (min_unsigned_bytes (ucast (un_FieldIdx f))))"
| "encoded_value_min_emit_width (EV_MethodType p) = Some (of_nat (min_unsigned_bytes (ucast (un_ProtoIdx p))))"
| "encoded_value_min_emit_width (EV_MethodHandle h) = Some (of_nat (min_unsigned_bytes (ucast (un_MethodHandleIdx h))))"
| "encoded_value_min_emit_width (EV_Array _) = None"
| "encoded_value_min_emit_width (EV_Annotation _) = None"
| "encoded_value_min_emit_width EV_Null = None"
| "encoded_value_min_emit_width (EV_Boolean _) = None"

section \<open>Primitive round trips\<close>

lemma min_bytes_pos: "min_signed_bytes r \<noteq> 0" "min_unsigned_bytes r \<noteq> 0"
  using min_signed_range [of r] min_unsigned_range [of r] by linarith+

lemma length_emit_signed: "length (emit_signed tag r) = Suc (min_signed_bytes r)"
  and length_emit_unsigned: "length (emit_unsigned tag r) = Suc (min_unsigned_bytes r)"
  using min_signed_range [of r] min_unsigned_range [of r] by (simp_all add: emit_signed_def emit_unsigned_def Let_def)

lemma header_byte_parts:
  assumes "tag AND 0x1F = tag" and "1 \<le> n" "n \<le> 8"
  shows "header_byte tag n AND 0x1F = tag" "unat (drop_bit 5 (header_byte tag n)) = n - 1"
proof -
  have m: "n - 1 < 8" using assms by linarith
  then have u: "unat (of_nat (n - 1) :: byte) = n - 1" by (simp add: unat_of_nat)
  have t: "bit tag k \<Longrightarrow> k < 5" for k
    using arg_cong [OF assms(1), of "\<lambda>w. bit w k"] by (auto simp: bit_simps)
  show "header_byte tag n AND 0x1F = tag"
    by (rule bit_eqI) (auto simp: header_byte_def bit_simps dest: t)
  have "bit (of_nat (n - 1) :: byte) k \<Longrightarrow> k < 3" for k
    using m u take_bit_small [of "of_nat (n - 1) :: byte" 3] bit_take_bit_iff [of 3 "of_nat (n - 1) :: byte" k] by simp
  then have "drop_bit 5 (header_byte tag n) = of_nat (n - 1)"
    by (intro bit_eqI) (auto simp: header_byte_def bit_drop_bit_eq bit_or_iff bit_push_bit_iff dest: t)
  then show "unat (drop_bit 5 (header_byte tag n)) = n - 1" using u by simp
qed


lemma width_params_tag: "width_params v = Some (tag, raw, mn, mx) \<Longrightarrow> tag AND 0x1F = tag"
  by (cases v) auto

lemma signed_take_scast: "1 \<le> k \<Longrightarrow> k \<le> 8 \<Longrightarrow> LENGTH('a) \<le> 8 * k \<Longrightarrow> signed_take_bit (8 * k - 1) (scast (w :: 'a :: len word) :: u64) = scast w"
  by (rule bit_eqI) (auto simp: bit_signed_take_bit_iff bit_simps min_def)

lemma take_bit_ucast: "LENGTH('a) \<le> 8 * k \<Longrightarrow> take_bit (8 * k) (ucast (w :: 'a :: len word) :: u64) = ucast w"
  by (rule bit_eqI) (auto simp: bit_simps dest: bit_imp_le_length)

lemma min_bytes_cast:
  "min_signed_bytes (scast (h :: u16)) \<le> 2" "min_signed_bytes (scast (w :: u32)) \<le> 4"
  "min_unsigned_bytes (ucast (h :: u16)) \<le> 2" "min_unsigned_bytes (ucast (w :: u32)) \<le> 4"
  using signed_take_scast [of 2 h] signed_take_scast [of 4 w] take_bit_ucast [of 2 h] take_bit_ucast [of 4 w]
  by (simp_all add: min_signed_iff min_unsigned_iff)

lemma cast_back [simp]:
  "LENGTH('a) \<le> 64 \<Longrightarrow> ucast (scast (w :: 'a :: len word) :: u64) = w"
  "LENGTH('a) \<le> 64 \<Longrightarrow> ucast (ucast (w :: 'a :: len word) :: u64) = w"
  by (rule bit_eqI, auto simp: bit_simps dest: bit_imp_le_length)+

lemma width_params_range: "width_params v = Some (tag, raw, mn, mx) \<Longrightarrow> 1 \<le> mn \<and> mn \<le> mx \<and> mx \<le> 8"
  by (cases v) (use min_signed_range min_unsigned_range in \<open>auto simp: min_bytes_cast\<close>)

lemma emit_primitive_min: "width_params v = Some (tag, raw, mn, mx) \<Longrightarrow> emit_primitive v = Some (header_byte tag mn # write_le_bytes raw mn)"
  by (cases v) (auto simp: emit_signed_def emit_unsigned_def Let_def)

context scroll_reader
begin

lemma decode_header:
  assumes "fits data" and "at_off data pos (header_byte tag n # bs)" and "tag AND 0x1F = tag" and "1 \<le> n" "n \<le> 8" and "tag < 0x1C"
  shows "decode_primitive_encoded_value D data pos =
    bindE (decode_payload D data pos (pos + 1) tag n) (\<lambda>value. Inr (Some value, 1 + n))"
proof -
  have "pos < length data" using at_off_len [OF assms(2)] by simp
  then have "pos + 1 < 18446744073709551616" using assms(1) by (simp add: fits_def)
  then show ?thesis using read_u8_at [OF assms(1, 2)] header_byte_parts [OF assms(3-5)] assms(4-6)
    by (auto simp: decode_primitive_encoded_value_def Let_def)
qed

lemma decode_at_width:
  assumes "width_params v = Some (tag, raw, mn, mx)" and "mn \<le> n" "n \<le> mx"
    and "fits data" and "at_off data pos (header_byte tag n # write_le_bytes raw n)"
  shows "decode_primitive_encoded_value D data pos = Inr (Some v, 1 + n)"
proof -
  note r = width_params_range [OF assms(1)]
  have n: "1 \<le> n" "n \<le> 8" using r assms(2, 3) by linarith+
  have at: "at_off data (pos + 1) (write_le_bytes raw n)"
    using assms(5) at_off_append [of data pos "[header_byte tag n]" "write_le_bytes raw n"] by simp
  have tag: "tag < 0x1C" using assms(1) by (cases v) auto
  have "decode_payload D data pos (pos + 1) tag n = Inr v"
    using assms(1-3) n read_uint_at [OF assms(4) at n(2)] read_int_at [OF assms(4) at n]
      min_signed_iff [OF n, of raw] min_unsigned_iff [OF n(1), of raw]
    by (cases v) (auto simp: decode_payload_def Let_def sized_arm_def check_value_arg_size_def)
  then show ?thesis using decode_header [OF assms(4, 5) width_params_tag [OF assms(1)] n tag] by simp
qed

end


lemma le_value_zeros: "le_value (replicate k 0 @ bs) = push_bit (8 * k) (le_value bs)"
  by (induction k) (simp_all add: push_bit_push_bit)

lemma le_value_u32: "le_value (u32_to_le f) = ucast f"
proof (rule bit_eqI)
  fix k :: nat
  have "u32_to_le f = map (\<lambda>i. ucast (drop_bit (8 * i) f)) [0..<4]" by (simp add: u32_to_le_def upt_rec)
  moreover have "k div 8 < 4 \<longleftrightarrow> k < 32" "8 * (k div 8) + k mod 8 = k" by (simp_all add: div_less_iff_less_mult)
  ultimately show "bit (le_value (u32_to_le f)) k = bit (ucast f :: u64) k"
    by (auto simp: bit_le_value bit_simps dest: bit_imp_le_length)
qed

lemma le_value_u64: "le_value (u64_to_le d) = d"
  using le_value_write [of 8 d] take_bit_length_eq [of d] by (simp add: write_le_bytes_def u64_to_le_def)

lemma trimmed_value:
  assumes "emit_trimmed tag full le n = Some bs" and "length le = full"
  shows "bs = header_byte tag n # drop (full - n) le \<and> n \<le> full \<and> le_value le = push_bit (8 * (full - n)) (le_value (drop (full - n) le))"
proof -
  have b: "n \<le> full" "list_all (\<lambda>b. b = 0) (take (full - n) le)" "bs = header_byte tag n # drop (full - n) le"
    using assms by (auto simp: emit_trimmed_def Let_def list_all_iff list_ex_iff split: if_splits)
  then have "take (full - n) le = replicate (full - n) 0"
    using assms(2) by (intro replicate_eqI) (auto simp: list_all_iff)
  then show ?thesis using b le_value_zeros [of "full - n" "drop (full - n) le"] by (metis append_take_drop_id)
qed

lemma trimmed_full: "length le = full \<Longrightarrow> emit_trimmed tag full le full = Some (header_byte tag full # le)"
  by (simp add: emit_trimmed_def)

context scroll_reader
begin

lemma right_extend_at:
  assumes "fits data" and "at_off data pos bs" and "length bs \<le> 8"
  shows "read_uint_right_extend D data pos (length bs) = Inr (push_bit (8 * (8 - length bs)) (le_value bs))"
  using read_le_at_bytes [OF assms(1, 2), of _ "8 - length bs"] assms(3)
  by (simp add: read_uint_right_extend_def algebra_simps)

lemma decode_trimmed_float:
  assumes "emit_trimmed 0x10 4 (u32_to_le f) n = Some bs" and "1 \<le> n" and "fits data" and "at_off data pos bs"
  shows "decode_primitive_encoded_value D data pos = Inr (Some (EV_Float f), 1 + n) \<and> length bs = 1 + n"
proof -
  let ?b = "drop (4 - n) (u32_to_le f)"
  have t: "bs = header_byte 0x10 n # ?b" "n \<le> 4" "ucast f = push_bit (8 * (4 - n)) (le_value ?b)"
    using trimmed_value [OF assms(1)] by (simp_all add: le_value_u32)
  have l: "length ?b = n" using t(2) by simp
  have at: "at_off data (pos + 1) ?b" using assms(4) at_off_append [of data pos "[header_byte 0x10 n]" ?b] t(1) by simp
  have "push_bit (8 * (8 - n)) (le_value ?b) = push_bit 32 (ucast f)"
    unfolding t(3) push_bit_push_bit using t(2) by (simp add: algebra_simps)
  then have "read_uint_right_extend D data (pos + 1) n = Inr (push_bit 32 (ucast f))"
    using right_extend_at [OF assms(3) at] l t(2) by simp
  moreover have "ucast (drop_bit 32 (push_bit 32 (ucast f :: u64))) = f"
    by (rule bit_eqI) (auto simp: bit_simps dest: bit_imp_le_length)
  ultimately have "decode_payload D data pos (pos + 1) 0x10 n = Inr (EV_Float f)"
    using t(2) by (simp add: decode_payload_def Let_def sized_arm_def check_value_arg_size_def)
  then show ?thesis using decode_header [of data pos "0x10" n ?b] assms(2-4) t l by simp
qed

lemma decode_trimmed_double:
  assumes "emit_trimmed 0x11 8 (u64_to_le d) n = Some bs" and "1 \<le> n" and "fits data" and "at_off data pos bs"
  shows "decode_primitive_encoded_value D data pos = Inr (Some (EV_Double d), 1 + n) \<and> length bs = 1 + n"
proof -
  let ?b = "drop (8 - n) (u64_to_le d)"
  have t: "bs = header_byte 0x11 n # ?b" "n \<le> 8" "d = push_bit (8 * (8 - n)) (le_value ?b)"
    using trimmed_value [OF assms(1)] by (simp_all add: le_value_u64, simp_all add: u64_to_le_def)
  have l: "length ?b = n" using t(2) by (simp add: u64_to_le_def)
  have at: "at_off data (pos + 1) ?b" using assms(4) at_off_append [of data pos "[header_byte 0x11 n]" ?b] t(1) by simp
  have "read_uint_right_extend D data (pos + 1) n = Inr d" using right_extend_at [OF assms(3) at] l t(2, 3) by simp
  then have "decode_payload D data pos (pos + 1) 0x11 n = Inr (EV_Double d)" by (simp add: decode_payload_def Let_def)
  then show ?thesis using decode_header [of data pos "0x11" n ?b] assms(2-4) t l by simp
qed

lemma decode_emitted_at_width:
  assumes "emit_encoded_value_at_width v w = Some bs" and "fits data" and "at_off data pos bs"
  shows "decode_primitive_encoded_value D data pos = Inr (Some v, length bs) \<and> length bs = 1 + unat w"
proof -
  have n: "1 \<le> unat w" using assms(1) by (auto simp: emit_encoded_value_at_width_def Let_def split: if_splits)
  consider (float) f where "v = EV_Float f" "emit_trimmed 0x10 4 (u32_to_le f) (unat w) = Some bs"
    | (double) d where "v = EV_Double d" "emit_trimmed 0x11 8 (u64_to_le d) (unat w) = Some bs"
    | (wide) tag raw mn mx where "width_params v = Some (tag, raw, mn, mx)" "mn \<le> unat w" "unat w \<le> mx"
        "bs = header_byte tag (unat w) # write_le_bytes raw (unat w)"
    using assms(1) by (cases v) (auto simp: emit_encoded_value_at_width_def Let_def split: if_splits)
  then show ?thesis
  proof cases
    case float
    with decode_trimmed_float [OF _ n assms(2, 3)] show ?thesis by auto
  next
    case double
    with decode_trimmed_double [OF _ n assms(2, 3)] show ?thesis by auto
  next
    case wide
    have "unat w \<le> 8" using width_params_range [OF wide(1)] wide(3) by linarith
    with decode_at_width [OF wide(1-3) assms(2)] assms(3) wide(4) show ?thesis by simp
  qed
qed

lemma decode_emitted:
  assumes "emit_primitive v = Some bs" and "fits data" and "at_off data pos bs"
  shows "decode_primitive_encoded_value D data pos = Inr (Some v, length bs)"
proof (cases "width_params v")
  case (Some p)
  obtain tag raw mn mx where p: "width_params v = Some (tag, raw, mn, mx)" using Some by (cases p) auto
  note r = width_params_range [OF p]
  from emit_primitive_min [OF p] assms(1) have b: "bs = header_byte tag mn # write_le_bytes raw mn" by simp
  with decode_at_width [OF p order_refl _ assms(2)] r assms(3) show ?thesis by simp
next
  case None
  have pos: "pos < 9223372036854775807" if "bs \<noteq> []" using assms(2) at_off_len [OF assms(3)] that by (cases bs) (auto simp: fits_def)
  from None assms show ?thesis
  proof (cases v)
    case (EV_Byte b)
    then have bs: "bs = header_byte 0 1 # write_le_bytes (ucast b) 1" using assms(1) by (simp add: header_byte_def write_le_bytes_def u64_to_le_def upt_rec)
    have at: "at_off data (pos + 1) (write_le_bytes (ucast b) 1)"
      using assms(3) at_off_append [of data pos "[header_byte 0 1]" "write_le_bytes (ucast b) 1"] unfolding bs by simp
    have "(ucast (signed_take_bit 7 (ucast b :: u64)) :: byte) = b"
      by (rule bit_eqI) (auto simp: bit_simps min_def le_less less_Suc_eq eval_nat_numeral)
    then have "decode_payload D data pos (pos + 1) 0 1 = Inr (EV_Byte b)"
      using read_int_at [OF assms(2) at] by (simp add: decode_payload_def Let_def sized_arm_def check_value_arg_size_def)
    then show ?thesis using decode_header [of data pos 0 1 "write_le_bytes (ucast b) 1"] assms(2, 3) bs EV_Byte by simp
  next
    case (EV_Float f)
    with decode_trimmed_float [OF trimmed_full _ assms(2)] assms(1, 3) show ?thesis by auto
  next
    case (EV_Double d)
    with decode_trimmed_double [OF trimmed_full _ assms(2)] assms(1, 3) show ?thesis by (auto simp: u64_to_le_def)
  qed (use assms pos read_u8_at [OF assms(2)] in \<open>auto simp: decode_primitive_encoded_value_def Let_def split: if_splits\<close>)
qed

end


section \<open>Properties\<close>

text \<open>C32 (min_width_least). The emitter's minimal widths are minimal: the signed one is the least number of bytes
  from which sign extension restores the value, the unsigned one the least from which zero extension
  does.\<close>

theorem min_width_least:
  "min_signed_bytes v = (LEAST k. 1 \<le> k \<and> signed_take_bit (8 * k - 1) v = v)
   \<and> min_unsigned_bytes v = (LEAST k. 1 \<le> k \<and> take_bit (8 * k) v = v)"
proof -
  let ?s = "min_signed_bytes v" and ?u = "min_unsigned_bytes v"
  note s = min_signed_range [of v] and u = min_unsigned_range [of v]
  have "(LEAST k. 1 \<le> k \<and> signed_take_bit (8 * k - 1) v = v) = ?s"
  proof (rule Least_equality)
    show "1 \<le> ?s \<and> signed_take_bit (8 * ?s - 1) v = v" using s min_signed_iff [of ?s v] by simp
    show "?s \<le> k" if "1 \<le> k \<and> signed_take_bit (8 * k - 1) v = v" for k
      using that s min_signed_iff [of k v] by (cases "k \<le> 8") auto
  qed
  moreover have "(LEAST k. 1 \<le> k \<and> take_bit (8 * k) v = v) = ?u"
    by (rule Least_equality) (use u min_unsigned_iff [of _ v] in auto)
  ultimately show ?thesis by simp
qed

text \<open>C33 (min_emit_width_lockstep). The width table that counts divergences is in step with the emitter: it gives the
  number of payload bytes the emitter writes, and nothing exactly for values with children and for those
  that are a header byte only.\<close>

theorem min_emit_width_lockstep:
  "encoded_value_min_emit_width v =
     Option.bind (emit_primitive v) (\<lambda>bs. if length bs = 1 then None else Some (of_nat (length bs - 1)))"
  by (cases v) (simp_all add: length_emit_signed length_emit_unsigned min_bytes_pos u64_to_le_def)

end
