(* ===== verification/Dex_Value_Tree.thy ===== *)
theory Dex_Value_Tree
  imports Dex_Value
begin

text \<open>
  Emission of nested encoded values (\<open>src/src/emit_dex.rs\<close>): the work-stack emitter
  \<open>emit_encoded_value\<close> with its cap, and the recursive emitter that replays given widths. The relation
  \<open>encodes\<close> is the file format: which byte sequences, with which widths of their primitive values, stand for
  a value. Both emitters are shown to produce encodings, and the second one to reproduce the bytes of an encoding from
  its widths.
\<close>

section \<open>Values\<close>

text \<open>The element maps are ordered maps. The weight counts the tasks a value gives rise to.\<close>

fun value_ok :: "EncodedValue \<Rightarrow> bool" and ann_ok :: "EncodedAnnotation \<Rightarrow> bool" where
  "value_ok (EV_Array vs) \<longleftrightarrow> list_all value_ok vs"
| "value_ok (EV_Annotation a) \<longleftrightarrow> ann_ok a"
| "value_ok _ \<longleftrightarrow> True"
| "ann_ok (EncodedAnnotation t es) \<longleftrightarrow> btree_ok es \<and> list_all (\<lambda>e. value_ok (snd e)) es"

fun weight :: "EncodedValue \<Rightarrow> nat" and ann_weight :: "EncodedAnnotation \<Rightarrow> nat" where
  "weight (EV_Array vs) = 1 + sum_list (map weight vs)"
| "weight (EV_Annotation a) = 1 + ann_weight a"
| "weight _ = 1"
| "ann_weight (EncodedAnnotation t es) = 1 + sum_list (map (\<lambda>e. 1 + weight (snd e)) es)"

section \<open>The work-stack emitter\<close>

datatype EmitTask =
    TValue EncodedValue
  | TAnnBody EncodedAnnotation
  | TUleb128 u32

abbreviation EMIT_STACK_CAP :: nat where
  "EMIT_STACK_CAP \<equiv> 65536"

definition u32_count :: "string \<Rightarrow> string \<Rightarrow> nat \<Rightarrow> DexEmitError + u32" where
  "u32_count layer ctx n = (if n < 2 ^ 32 then Inr (of_nat n) else Inl (SizeOverflow layer ctx))"

definition push_elements :: "EmitTask list \<Rightarrow> (StringIdx \<times> EncodedValue) list \<Rightarrow> DexEmitError + EmitTask list" where
  "push_elements stack es =
     foldE (\<lambda>st (name, v).
        if length st + 2 > EMIT_STACK_CAP
        then Inl (UnrepresentableIR ''encoded_annotation emit work-stack exceeded cap (hand-built IR too deeply nested)'')
        else Inr (TUleb128 (un_StringIdx name) # TValue v # st))
       stack (rev es)"

definition push_items :: "EmitTask list \<Rightarrow> EncodedValue list \<Rightarrow> DexEmitError + EmitTask list" where
  "push_items stack vs =
     foldE (\<lambda>st v.
        if length st \<ge> EMIT_STACK_CAP
        then Inl (UnrepresentableIR ''encoded_array emit work-stack exceeded cap (hand-built IR too deeply nested)'')
        else Inr (TValue v # st))
       stack (rev vs)"

fun emit_task :: "deps \<Rightarrow> EmitTask \<Rightarrow> EmitTask list \<Rightarrow> DexEmitError + (byte list \<times> EmitTask list)" where
  "emit_task D (TUleb128 v) stack = Inr (common_write_uleb128 D v, stack)"
| "emit_task D (TAnnBody (EncodedAnnotation t es)) stack =
     bindE (u32_count ''encoded_annotation'' ''element count exceeds u32'' (length es)) (\<lambda>n.
     bindE (push_elements stack es) (\<lambda>stack'.
     Inr (common_write_uleb128 D (un_TypeIdx t) @ common_write_uleb128 D n, stack')))"
| "emit_task D (TValue (EV_Array items)) stack =
     bindE (u32_count ''encoded_array'' ''length exceeds u32'' (length items)) (\<lambda>n.
     bindE (push_items stack items) (\<lambda>stack'.
     Inr (0x1C # common_write_uleb128 D n, stack')))"
| "emit_task D (TValue (EV_Annotation ann)) stack =
     (if length stack \<ge> EMIT_STACK_CAP
      then Inl (UnrepresentableIR ''encoded_annotation emit work-stack exceeded cap (hand-built IR too deeply nested)'')
      else Inr ([0x1D], TAnnBody ann # stack))"
| "emit_task D (TValue v) stack = (case emit_primitive v of Some bs \<Rightarrow> Inr (bs, stack) | None \<Rightarrow> Inr ([], stack))"

definition element_tasks :: "(StringIdx \<times> EncodedValue) list \<Rightarrow> EmitTask list" where
  "element_tasks es = concat (map (\<lambda>(name, v). [TUleb128 (un_StringIdx name), TValue v]) es)"

lemma push_elements_Inr: "push_elements stack es = Inr st \<Longrightarrow> st = element_tasks es @ stack"
  unfolding push_elements_def
  by (induction es arbitrary: st) (auto simp: foldE_append element_tasks_def split: if_splits)

lemma push_items_Inr: "push_items stack vs = Inr st \<Longrightarrow> st = map TValue vs @ stack"
  unfolding push_items_def
  by (induction vs arbitrary: st) (auto simp: foldE_append split: if_splits)

lemma length_element_tasks: "length (element_tasks es) = 2 * length es"
  by (induction es) (auto simp: element_tasks_def)

lemma push_elements_ok: "length stack + 2 * length es \<le> EMIT_STACK_CAP \<Longrightarrow> push_elements stack es = Inr (element_tasks es @ stack)"
  unfolding push_elements_def
proof (induction es)
  case (Cons e es)
  have "length (element_tasks es) = 2 * length es" by (rule length_element_tasks)
  then show ?case using Cons by (cases e) (simp add: foldE_append element_tasks_def)
qed (simp add: element_tasks_def)

lemma push_items_ok: "length stack + length vs \<le> EMIT_STACK_CAP \<Longrightarrow> push_items stack vs = Inr (map TValue vs @ stack)"
  unfolding push_items_def by (induction vs) (auto simp: foldE_append)

lemma push_items_full:
  assumes "EMIT_STACK_CAP < length stack + length vs" and "vs \<noteq> []"
  shows "push_items stack vs = Inl (UnrepresentableIR ''encoded_array emit work-stack exceeded cap (hand-built IR too deeply nested)'')"
  using assms
proof (induction vs)
  case (Cons v vs)
  show ?case
  proof (cases "vs \<noteq> [] \<and> EMIT_STACK_CAP < length stack + length vs")
    case True
    then show ?thesis using Cons.IH by (simp add: push_items_def foldE_append)
  next
    case False
    then have f: "vs = [] \<or> length stack + length vs \<le> EMIT_STACK_CAP" by auto
    then have "push_items stack vs = Inr (map TValue vs @ stack)"
    proof
      assume "vs = []" then show ?thesis by (simp add: push_items_def)
    qed (rule push_items_ok)
    then show ?thesis using Cons.prems f by (auto simp: push_items_def foldE_append)
  qed
qed simp

fun task_weight :: "EmitTask \<Rightarrow> nat" where
  "task_weight (TValue v) = weight v"
| "task_weight (TAnnBody a) = ann_weight a"
| "task_weight (TUleb128 _) = 1"

lemma weight_pos: "0 < weight v" "0 < ann_weight a"
  by (cases v; simp) (cases a; simp)

lemma weight_element_tasks: "sum_list (map task_weight (element_tasks es)) = sum_list (map (\<lambda>e. 1 + weight (snd e)) es)"
  by (induction es) (auto simp: element_tasks_def)

lemma emit_task_weight:
  assumes "emit_task D t st = Inr (bs, st')"
  shows "sum_list (map task_weight st') < task_weight t + sum_list (map task_weight st)"
proof -
  from assms show ?thesis
    by (cases "(D, t, st)" rule: emit_task.cases)
      (auto dest!: push_elements_Inr push_items_Inr simp: weight_element_tasks comp_def split: if_splits)
qed

function emit_loop :: "deps \<Rightarrow> EmitTask list \<Rightarrow> byte list \<Rightarrow> DexEmitError + byte list" where
  "emit_loop D [] out = Inr out"
| "emit_loop D (t # stack) out = bindE (emit_task D t stack) (\<lambda>(bs, stack'). emit_loop D stack' (out @ bs))"
  by pat_completeness auto
termination
  by (relation "measure (\<lambda>(_, stack, _). sum_list (map task_weight stack))") (auto dest: emit_task_weight)


definition emit_encoded_value :: "deps \<Rightarrow> EncodedValue \<Rightarrow> DexEmitError + byte list" where
  "emit_encoded_value D v = emit_loop D [TValue v] []"

definition emit_encoded_annotation :: "deps \<Rightarrow> EncodedAnnotation \<Rightarrow> DexEmitError + byte list" where
  "emit_encoded_annotation D ann =
     bindE (u32_count ''encoded_annotation'' ''element count exceeds u32'' (length (elements ann))) (\<lambda>n.
     bindE (mapE (\<lambda>(name, val). bindE (emit_encoded_value D val) (\<lambda>bs. Inr (common_write_uleb128 D (un_StringIdx name) @ bs))) (elements ann)) (\<lambda>bss.
     Inr (common_write_uleb128 D (un_TypeIdx (ann_type_idx ann)) @ common_write_uleb128 D n @ concat bss)))"

section \<open>The format\<close>

text \<open>An encoding is a pair of its bytes and the payload widths of its primitive values, in pre-order.\<close>

definition prim_widths :: "byte list \<Rightarrow> byte list" where
  "prim_widths bs = (if length bs = 1 then [] else [of_nat (length bs - 1)])"

inductive encodes :: "deps \<Rightarrow> EncodedValue \<Rightarrow> byte list \<times> byte list \<Rightarrow> bool" for D where
  minimal: "emit_primitive v = Some bs \<Longrightarrow> encodes D v (bs, prim_widths bs)"
| wide: "emit_encoded_value_at_width v w = Some bs \<Longrightarrow> encodes D v (bs, [w])"
| array: "list_all2 (encodes D) vs ps \<Longrightarrow> length vs < 2 ^ 32 \<Longrightarrow>
    encodes D (EV_Array vs) (0x1C # common_write_uleb128 D (of_nat (length vs)) @ concat (map fst ps), concat (map snd ps))"
| annotation: "list_all2 (\<lambda>e p. \<exists>b. encodes D (snd e) (b, snd p) \<and> fst p = common_write_uleb128 D (un_StringIdx (fst e)) @ b) es ps \<Longrightarrow>
    btree_ok es \<Longrightarrow> length es < 2 ^ 32 \<Longrightarrow>
    encodes D (EV_Annotation (EncodedAnnotation t es))
      (0x1D # common_write_uleb128 D (un_TypeIdx t) @ common_write_uleb128 D (of_nat (length es)) @ concat (map fst ps),
       concat (map snd ps))"

definition enc_element :: "deps \<Rightarrow> StringIdx \<times> EncodedValue \<Rightarrow> byte list \<times> byte list \<Rightarrow> bool" where
  "enc_element D e p \<longleftrightarrow> (\<exists>b. encodes D (snd e) (b, snd p) \<and> fst p = common_write_uleb128 D (un_StringIdx (fst e)) @ b)"

fun enc_annotation :: "deps \<Rightarrow> EncodedAnnotation \<Rightarrow> byte list \<times> byte list \<Rightarrow> bool" where
  "enc_annotation D (EncodedAnnotation t es) p \<longleftrightarrow> btree_ok es \<and> length es < 2 ^ 32 \<and>
     (\<exists>ps. list_all2 (enc_element D) es ps
        \<and> p = (common_write_uleb128 D (un_TypeIdx t) @ common_write_uleb128 D (of_nat (length es)) @ concat (map fst ps),
               concat (map snd ps)))"

lemma encodes_annotation: "enc_annotation D a (bs, ws) \<Longrightarrow> encodes D (EV_Annotation a) (0x1D # bs, ws)"
  by (cases a) (auto simp: enc_element_def [abs_def] intro: encodes.annotation)

section \<open>The work-stack emitter meets the format\<close>

fun enc_task :: "deps \<Rightarrow> EmitTask \<Rightarrow> byte list \<times> byte list \<Rightarrow> bool" where
  "enc_task D (TValue v) p \<longleftrightarrow> encodes D v p"
| "enc_task D (TAnnBody a) p \<longleftrightarrow> enc_annotation D a p"
| "enc_task D (TUleb128 k) p \<longleftrightarrow> p = (common_write_uleb128 D k, [])"

fun task_ok :: "EmitTask \<Rightarrow> bool" where
  "task_ok (TValue v) \<longleftrightarrow> value_ok v"
| "task_ok (TAnnBody a) \<longleftrightarrow> ann_ok a"
| "task_ok (TUleb128 _) \<longleftrightarrow> True"

lemma u32_count_Inr [simp]: "u32_count l c n = Inr m \<longleftrightarrow> n < 2 ^ 32 \<and> m = of_nat n"
  by (auto simp: u32_count_def)

lemma enc_element_tasks:
  "list_all2 (enc_task D) (element_tasks es) ps \<Longrightarrow>
   \<exists>qs. list_all2 (enc_element D) es qs \<and> concat (map fst qs) = concat (map fst ps) \<and> concat (map snd qs) = concat (map snd ps)"
proof (induction es arbitrary: ps)
  case (Cons e es)
  obtain name v where e: "e = (name, v)" by (cases e)
  with Cons.prems obtain p1 p2 rest where r: "ps = p1 # p2 # rest" "enc_task D (TUleb128 (un_StringIdx name)) p1"
      "enc_task D (TValue v) p2" "list_all2 (enc_task D) (element_tasks es) rest"
    by (auto simp: element_tasks_def list_all2_Cons1)
  from Cons.IH [OF r(4)] obtain qs where q: "list_all2 (enc_element D) es qs"
    "concat (map fst qs) = concat (map fst rest)" "concat (map snd qs) = concat (map snd rest)" by blast
  have "enc_element D e (fst p1 @ fst p2, snd p2)" using r e by (simp add: enc_element_def)
  with q r(1, 2) show ?case by (intro exI [of _ "(fst p1 @ fst p2, snd p2) # qs"]) simp
qed (simp add: element_tasks_def)

lemma emit_task_enc:
  assumes "emit_task D t stack = Inr (bs, stack')" and "task_ok t"
  shows "\<exists>new. stack' = new @ stack \<and> list_all task_ok new
    \<and> (\<forall>ps. list_all2 (enc_task D) new ps \<longrightarrow> (\<exists>ws. enc_task D t (bs @ concat (map fst ps), ws)))"
proof (cases "(D, t, stack)" rule: emit_task.cases)
  case (2 D' ty es st)
  then have st: "stack' = element_tasks es @ stack" and bs: "length es < 2 ^ 32"
      "bs = common_write_uleb128 D (un_TypeIdx ty) @ common_write_uleb128 D (of_nat (length es))"
    using assms(1) by (auto dest!: push_elements_Inr)
  have "list_all task_ok (element_tasks es)" using assms(2) 2 by (auto simp: element_tasks_def list_all_iff)
  moreover have "\<exists>ws. enc_task D t (bs @ concat (map fst ps), ws)" if l: "list_all2 (enc_task D) (element_tasks es) ps" for ps
    using enc_element_tasks [OF l] assms(2) 2 bs by auto
  ultimately show ?thesis using st by blast
next
  case (3 D' items st)
  then have st: "stack' = map TValue items @ stack" and bs: "length items < 2 ^ 32"
      "bs = 0x1C # common_write_uleb128 D (of_nat (length items))"
    using assms(1) by (auto dest!: push_items_Inr)
  have "list_all task_ok (map TValue items)" using assms(2) 3 by (auto simp: list_all_iff)
  moreover have "\<exists>ws. enc_task D t (bs @ concat (map fst ps), ws)" if l: "list_all2 (enc_task D) (map TValue items) ps" for ps
  proof -
    have "list_all2 (encodes D) items ps" using l by (simp add: list_all2_map1)
    from encodes.array [OF this bs(1)] show ?thesis using 3 bs(2) by auto
  qed
  ultimately show ?thesis using st by blast
next
  case (4 D' ann st)
  then have "stack' = [TAnnBody ann] @ stack" "bs = [0x1D]" using assms(1) by (auto split: if_splits)
  then show ?thesis using 4 assms(2) by (intro exI [of _ "[TAnnBody ann]"]) (fastforce simp: list_all2_Cons1 intro: encodes_annotation)
qed (use assms in \<open>auto intro!: encodes.minimal exI\<close>)

lemma emit_loop_enc:
  "emit_loop D stack out = Inr out' \<Longrightarrow> list_all task_ok stack \<Longrightarrow>
   \<exists>ps. list_all2 (enc_task D) stack ps \<and> out' = out @ concat (map fst ps)"
proof (induction D stack out rule: emit_loop.induct)
  case (2 D t stack out)
  then obtain bs stack' where s: "emit_task D t stack = Inr (bs, stack')" "emit_loop D stack' (out @ bs) = Inr out'" by auto
  obtain new where n: "stack' = new @ stack" "list_all task_ok new"
      "\<And>ps. list_all2 (enc_task D) new ps \<Longrightarrow> \<exists>ws. enc_task D t (bs @ concat (map fst ps), ws)"
    using emit_task_enc [OF s(1)] "2.prems"(2) by auto
  from "2.IH" [OF s(1) refl s(2)] n(1, 2) "2.prems"(2) obtain ps where
    b: "list_all2 (enc_task D) (new @ stack) ps" "out' = (out @ bs) @ concat (map fst ps)" by auto
  from b(1) obtain p1 p2 where p: "ps = p1 @ p2" "list_all2 (enc_task D) new p1" "list_all2 (enc_task D) stack p2"
    by (auto simp: list_all2_append1)
  obtain ws where "enc_task D t (bs @ concat (map fst p1), ws)" using n(3) [OF p(2)] by blast
  then show ?case using p b(2) by (intro exI [of _ "(bs @ concat (map fst p1), ws) # p2"]) auto
qed simp

lemma emit_encodes: "emit_encoded_value D v = Inr bs \<Longrightarrow> value_ok v \<Longrightarrow> \<exists>ws. encodes D v (bs, ws)"
  using emit_loop_enc [of D "[TValue v]" "[]" bs] by (auto simp: emit_encoded_value_def list_all2_Cons1)

lemma emit_encoded_primitive: "emit_primitive v = Some bs \<Longrightarrow> emit_encoded_value D v = Inr bs"
  by (cases v) (auto simp: emit_encoded_value_def)

text \<open>Progress: a light tree is emitted.\<close>

lemma weight_len: "length st \<le> sum_list (map task_weight st)"
proof (induction st)
  case (Cons t st)
  have "0 < task_weight t" using weight_pos by (cases t) auto
  then show ?case using Cons by simp
qed simp

lemma emit_task_ok:
  assumes "task_weight t + sum_list (map task_weight stack) \<le> EMIT_STACK_CAP"
  shows "\<exists>r. emit_task D t stack = Inr r"
proof (cases "(D, t, stack)" rule: emit_task.cases)
  case (2 D' ty es st)
  have "2 * length es \<le> sum_list (map (\<lambda>e. 1 + weight (snd e)) es)"
    using weight_len [of "element_tasks es"] by (simp add: length_element_tasks weight_element_tasks)
  then have "length stack + 2 * length es < EMIT_STACK_CAP" using assms 2 weight_len [of stack] by simp
  then show ?thesis using 2 push_elements_ok [of stack es] by (simp add: u32_count_def)
next
  case (3 D' items st)
  have "length items \<le> sum_list (map weight items)" using weight_len [of "map TValue items"] by (simp add: comp_def)
  then have "length stack + length items < EMIT_STACK_CAP" using assms 3 weight_len [of stack] by simp
  then show ?thesis using 3 push_items_ok [of stack items] by (simp add: u32_count_def)
next
  case (4 D' ann st)
  then show ?thesis using assms weight_len [of stack] weight_pos(2) [of ann] by auto
qed (auto split: option.split)

lemma emit_loop_ok: "sum_list (map task_weight stack) \<le> EMIT_STACK_CAP \<Longrightarrow> \<exists>bs. emit_loop D stack out = Inr bs"
proof (induction D stack out rule: emit_loop.induct)
  case (2 D t stack out)
  then obtain bs stack' where s: "emit_task D t stack = Inr (bs, stack')" using emit_task_ok [of t stack D] by auto
  with "2.IH" [OF s refl] "2.prems" emit_task_weight [OF s] show ?case by simp
qed simp


section \<open>Emission with given widths\<close>

fun emit_encoded_value_deep_widths :: "deps \<Rightarrow> EncodedValue \<Rightarrow> byte list \<Rightarrow> DexEmitError + (byte list \<times> byte list)"
  and emit_items_deep_widths :: "deps \<Rightarrow> EncodedValue list \<Rightarrow> byte list \<Rightarrow> DexEmitError + (byte list \<times> byte list)"
  and emit_encoded_annotation_body_with_iter :: "deps \<Rightarrow> EncodedAnnotation \<Rightarrow> byte list \<Rightarrow> DexEmitError + (byte list \<times> byte list)"
  and emit_elements_deep_widths :: "deps \<Rightarrow> (StringIdx \<times> EncodedValue) list \<Rightarrow> byte list \<Rightarrow> DexEmitError + (byte list \<times> byte list)" where
  "emit_encoded_value_deep_widths D (EV_Array items) ws =
     bindE (u32_count ''encoded_array'' ''length exceeds u32'' (length items)) (\<lambda>n.
     bindE (emit_items_deep_widths D items ws) (\<lambda>(bs, ws').
     Inr (0x1C # common_write_uleb128 D n @ bs, ws')))"
| "emit_encoded_value_deep_widths D (EV_Annotation ann) ws =
     bindE (emit_encoded_annotation_body_with_iter D ann ws) (\<lambda>(bs, ws'). Inr (0x1D # bs, ws'))"
| "emit_encoded_value_deep_widths D EV_Null ws = bindE (emit_encoded_value D EV_Null) (\<lambda>bs. Inr (bs, ws))"
| "emit_encoded_value_deep_widths D (EV_Boolean b) ws = bindE (emit_encoded_value D (EV_Boolean b)) (\<lambda>bs. Inr (bs, ws))"
| "emit_encoded_value_deep_widths D v ws =
     (case ws of
        [] \<Rightarrow> bindE (emit_encoded_value D v) (\<lambda>bs. Inr (bs, []))
      | w # ws' \<Rightarrow> (case emit_encoded_value_at_width v w of
                      Some bs \<Rightarrow> Inr (bs, ws')
                    | None \<Rightarrow> bindE (emit_encoded_value D v) (\<lambda>bs. Inr (bs, ws'))))"
| "emit_items_deep_widths D [] ws = Inr ([], ws)"
| "emit_items_deep_widths D (v # vs) ws =
     bindE (emit_encoded_value_deep_widths D v ws) (\<lambda>(b, ws').
     bindE (emit_items_deep_widths D vs ws') (\<lambda>(bs, ws'').
     Inr (b @ bs, ws'')))"
| "emit_encoded_annotation_body_with_iter D (EncodedAnnotation t es) ws =
     bindE (u32_count ''encoded_annotation'' ''element count exceeds u32'' (length es)) (\<lambda>n.
     bindE (emit_elements_deep_widths D es ws) (\<lambda>(bs, ws').
     Inr (common_write_uleb128 D (un_TypeIdx t) @ common_write_uleb128 D n @ bs, ws')))"
| "emit_elements_deep_widths D [] ws = Inr ([], ws)"
| "emit_elements_deep_widths D ((name, v) # es) ws =
     bindE (emit_encoded_value_deep_widths D v ws) (\<lambda>(b, ws').
     bindE (emit_elements_deep_widths D es ws') (\<lambda>(bs, ws'').
     Inr (common_write_uleb128 D (un_StringIdx name) @ b @ bs, ws'')))"


definition emit_encoded_array_with_widths :: "deps \<Rightarrow> EncodedValue list \<Rightarrow> byte list option \<Rightarrow> DexEmitError + byte list" where
  "emit_encoded_array_with_widths D values widths =
     bindE (u32_count ''encoded_array_item'' ''array length exceeds u32'' (length values)) (\<lambda>n.
     bindE (case widths of
              None \<Rightarrow> bindE (mapE (emit_encoded_value D) values) (\<lambda>bss. Inr (concat bss))
            | Some ws \<Rightarrow> bindE (emit_items_deep_widths D values ws) (\<lambda>(bs, _). Inr bs)) (\<lambda>body.
     Inr (common_write_uleb128 D n @ body)))"

definition emit_encoded_array :: "deps \<Rightarrow> EncodedValue list \<Rightarrow> DexEmitError + byte list" where
  "emit_encoded_array D values = emit_encoded_array_with_widths D values None"

definition emit_encoded_annotation_with_widths :: "deps \<Rightarrow> EncodedAnnotation \<Rightarrow> byte list \<Rightarrow> DexEmitError + byte list" where
  "emit_encoded_annotation_with_widths D ann ws =
     bindE (emit_encoded_annotation_body_with_iter D ann ws) (\<lambda>(bs, _). Inr bs)"

definition emit_annotation_item_with_widths :: "deps \<Rightarrow> AnnotationItem \<Rightarrow> byte list \<Rightarrow> DexEmitError + byte list" where
  "emit_annotation_item_with_widths D item ws =
     bindE (emit_encoded_annotation_with_widths D (item_annotation item) ws) (\<lambda>bs. Inr (visibility item # bs))"

definition emit_annotation_item_bytes :: "deps \<Rightarrow> AnnotationItem \<Rightarrow> DexEmitError + byte list" where
  "emit_annotation_item_bytes D item =
     bindE (emit_encoded_annotation D (item_annotation item)) (\<lambda>bs. Inr (visibility item # bs))"

section \<open>Width preservation meets the format\<close>

lemma unat_small_byte: "n \<le> 8 \<Longrightarrow> unat (of_nat n :: byte) = n"
  by (simp add: unat_of_nat)

lemma at_min_width:
  assumes "width_params v = Some (tag, raw, mn, mx)" and "emit_primitive v = Some bs"
  shows "emit_encoded_value_at_width v (of_nat (length bs - 1)) = Some bs"
proof -
  note r = width_params_range [OF assms(1)]
  have bs: "bs = header_byte tag mn # write_le_bytes raw mn" using emit_primitive_min [OF assms(1)] assms(2) by simp
  moreover have "unat (of_nat mn :: byte) = mn" using r by (intro unat_small_byte) linarith
  ultimately show ?thesis using r assms(1) by (cases v) (auto simp: emit_encoded_value_at_width_def Let_def)
qed

lemma deep_minimal:
  assumes "emit_primitive v = Some bs"
  shows "emit_encoded_value_deep_widths D v (prim_widths bs @ rest) = Inr (bs, rest)"
proof (cases "width_params v")
  case (Some p)
  obtain tag raw mn mx where p: "width_params v = Some (tag, raw, mn, mx)" using Some by (cases p) auto
  note r = width_params_range [OF p]
  have bs: "bs = header_byte tag mn # write_le_bytes raw mn" using emit_primitive_min [OF p] assms by simp
  have "length bs \<noteq> 1" using r by (simp add: bs)
  with at_min_width [OF p assms] p show ?thesis by (cases v) (auto simp: prim_widths_def)
next
  case None
  have t: "emit_encoded_value_at_width (EV_Float f) 4 = Some (header_byte 16 4 # u32_to_le f)" for f
    using trimmed_full [of "u32_to_le f" 4 "0x10"] by (simp add: emit_encoded_value_at_width_def)
  have d: "emit_encoded_value_at_width (EV_Double x) 8 = Some (header_byte 17 8 # u64_to_le x)" for x
    using trimmed_full [of "u64_to_le x" 8 "0x11"] by (simp add: emit_encoded_value_at_width_def u64_to_le_def)
  show ?thesis using None assms emit_encoded_primitive [OF assms, of D] t d
    by (cases v) (auto simp: prim_widths_def emit_encoded_value_at_width_def u64_to_le_def)
qed

lemma deep_wide: "emit_encoded_value_at_width v w = Some bs \<Longrightarrow> emit_encoded_value_deep_widths D v (w # rest) = Inr (bs, rest)"
  by (cases v) (auto simp: emit_encoded_value_at_width_def Let_def split: if_splits)

lemma deep_items_replay:
  "list_all2 (\<lambda>v p. \<forall>rest. emit_encoded_value_deep_widths D v (snd p @ rest) = Inr (fst p, rest)) vs ps \<Longrightarrow>
   emit_items_deep_widths D vs (concat (map snd ps) @ rest) = Inr (concat (map fst ps), rest)"
  by (induction vs ps arbitrary: rest rule: list_all2_induct) auto

lemma deep_elements_replay:
  "list_all2 (\<lambda>e p. \<exists>b. (\<forall>rest. emit_encoded_value_deep_widths D (snd e) (snd p @ rest) = Inr (b, rest))
      \<and> fst p = common_write_uleb128 D (un_StringIdx (fst e)) @ b) es ps \<Longrightarrow>
   emit_elements_deep_widths D es (concat (map snd ps) @ rest) = Inr (concat (map fst ps), rest)"
  by (induction es ps arbitrary: rest rule: list_all2_induct) auto

lemma deep_replay: "encodes D v p \<Longrightarrow> emit_encoded_value_deep_widths D v (snd p @ rest) = Inr (fst p, rest)"
proof (induction v p arbitrary: rest rule: encodes.induct)
  case (minimal v bs)
  then show ?case by (simp add: deep_minimal)
next
  case (wide v w bs)
  then show ?case by (simp add: deep_wide)
next
  case (array vs ps)
  then have "list_all2 (\<lambda>v p. \<forall>rest. emit_encoded_value_deep_widths D v (snd p @ rest) = Inr (fst p, rest)) vs ps"
    by (auto elim: list_all2_mono)
  from deep_items_replay [OF this, of rest] array show ?case by simp
next
  case (annotation es ps t)
  have "list_all2 (\<lambda>e p. \<exists>b. (\<forall>rest. emit_encoded_value_deep_widths D (snd e) (snd p @ rest) = Inr (b, rest))
      \<and> fst p = common_write_uleb128 D (un_StringIdx (fst e)) @ b) es ps"
    using annotation(1) by (rule list_all2_mono) auto
  from deep_elements_replay [OF this, of rest] annotation(2, 3) show ?case by simp
qed

lemma deep_encodes:
  "emit_encoded_value_deep_widths D v ws = Inr (bs, ws') \<Longrightarrow> value_ok v \<Longrightarrow> \<exists>us. encodes D v (bs, us)"
  "emit_items_deep_widths D vs ws = Inr (bs, ws') \<Longrightarrow> list_all value_ok vs \<Longrightarrow>
     \<exists>ps. list_all2 (encodes D) vs ps \<and> bs = concat (map fst ps)"
  "emit_encoded_annotation_body_with_iter D a ws = Inr (bs, ws') \<Longrightarrow> ann_ok a \<Longrightarrow> \<exists>us. enc_annotation D a (bs, us)"
  "emit_elements_deep_widths D es ws = Inr (bs, ws') \<Longrightarrow> list_all (\<lambda>e. value_ok (snd e)) es \<Longrightarrow>
     \<exists>ps. list_all2 (enc_element D) es ps \<and> bs = concat (map fst ps)"
proof (induction D v ws and D vs ws and D a ws and D es ws arbitrary: bs ws' and bs ws' and bs ws' and bs ws'
    rule: emit_encoded_value_deep_widths_emit_items_deep_widths_emit_encoded_annotation_body_with_iter_emit_elements_deep_widths.induct)
  case (1 D items ws)
  then obtain body where b: "length items < 2 ^ 32" "emit_items_deep_widths D items ws = Inr (body, ws')"
    "bs = 0x1C # common_write_uleb128 D (of_nat (length items)) @ body" by auto
  with 1 obtain ps where p: "list_all2 (encodes D) items ps" "body = concat (map fst ps)" by fastforce
  from encodes.array [OF p(1) b(1)] show ?case using b(3) p(2) by auto
next
  case (2 D ann ws)
  then show ?case by (fastforce intro: encodes_annotation)
next
  case (7 D v vs ws)
  then obtain b ws1 bs1 where r: "emit_encoded_value_deep_widths D v ws = Inr (b, ws1)"
    "emit_items_deep_widths D vs ws1 = Inr (bs1, ws')" "bs = b @ bs1" by auto
  obtain us where u: "encodes D v (b, us)" using 7(1) [OF r(1)] 7(4) by auto
  obtain ps where p: "list_all2 (encodes D) vs ps" "bs1 = concat (map fst ps)" using 7(2) [OF r(1) refl r(2)] 7(4) by auto
  then show ?case using u r(3) by (intro exI [of _ "(b, us) # ps"]) simp
next
  case (8 D t es ws)
  then obtain body where b: "length es < 2 ^ 32" "emit_elements_deep_widths D es ws = Inr (body, ws')"
    "bs = common_write_uleb128 D (un_TypeIdx t) @ common_write_uleb128 D (of_nat (length es)) @ body" by auto
  with 8 obtain ps where "list_all2 (enc_element D) es ps" "body = concat (map fst ps)" by fastforce
  with b 8(3) show ?case by auto
next
  case (10 D name v es ws)
  then obtain b ws1 bs1 where r: "emit_encoded_value_deep_widths D v ws = Inr (b, ws1)"
    "emit_elements_deep_widths D es ws1 = Inr (bs1, ws')" "bs = common_write_uleb128 D (un_StringIdx name) @ b @ bs1" by auto
  obtain us where u: "encodes D v (b, us)" using 10(1) [OF r(1)] 10(4) by auto
  obtain ps where p: "list_all2 (enc_element D) es ps" "bs1 = concat (map fst ps)" using 10(2) [OF r(1) refl r(2)] 10(4) by auto
  have "enc_element D (name, v) (common_write_uleb128 D (un_StringIdx name) @ b, us)" using u by (simp add: enc_element_def)
  then show ?case using p r(3) by (intro exI [of _ "(common_write_uleb128 D (un_StringIdx name) @ b, us) # ps"]) simp
qed (auto split: list.splits option.splits simp: list_all2_Nil intro: encodes.wide dest: emit_encodes)

end
