(* ===== verification/Dex_Value_Parse.thy ===== *)
theory Dex_Value_Parse
  imports Dex_Value_Tree
begin

text \<open>
  The iterative parser of nested encoded values (\<open>src/src/annotation.rs\<close>): a loop over an explicit stack of
  collector frames. The loop is a partial function whose value \<open>None\<close> would be a run that never ends; the theory shows
  that every input gives a result, that every encoding in the sense of \<open>encodes\<close> is parsed back, and that
  parsed values are well-formed and inside the data.
\<close>

section \<open>The collector stack\<close>

datatype CollectorFrame =
    FArray nat nat "EncodedValue list"
  | FAnnotation nat nat u32 "(StringIdx \<times> EncodedValue) list" "StringIdx option"

abbreviation PARSE_STACK_FRAME_CAP :: nat where
  "PARSE_STACK_FRAME_CAP \<equiv> 65536"

fun frame_start_pos :: "CollectorFrame \<Rightarrow> nat" where
  "frame_start_pos (FArray start_pos _ _) = start_pos"
| "frame_start_pos (FAnnotation start_pos _ _ _ _) = start_pos"

fun frame_is_complete :: "CollectorFrame \<Rightarrow> bool" where
  "frame_is_complete (FArray _ remaining _) \<longleftrightarrow> remaining = 0"
| "frame_is_complete (FAnnotation _ remaining _ _ pending_name) \<longleftrightarrow> remaining = 0 \<and> pending_name = None"

fun assemble_frame :: "CollectorFrame \<Rightarrow> EncodedValue" where
  "assemble_frame (FArray _ _ children) = EV_Array children"
| "assemble_frame (FAnnotation _ _ type_idx es _) = EV_Annotation (EncodedAnnotation (TypeIdx type_idx) es)"

type_synonym cstate = "CollectorFrame list \<times> nat"

text \<open>The name of the next element, when the top frame waits for one: phase A of a turn and the end of
  \<open>deliver_to_top\<close>.\<close>

fun read_name :: "deps \<Rightarrow> byte list \<Rightarrow> string \<Rightarrow> cstate \<Rightarrow> DexError + cstate" where
  "read_name D data ctx (FAnnotation s remaining t es None # st, cur) =
     (if remaining > 0 then
        bindE (read_uleb128 D data cur) (\<lambda>(name_idx, ln).
        bindE (safe_add cur ln ctx) (\<lambda>cur'.
        Inr (FAnnotation s remaining t es (Some (StringIdx name_idx)) # st, cur')))
      else Inr (FAnnotation s remaining t es None # st, cur))"
| "read_name D data ctx (st, cur) = Inr (st, cur)"

fun put_child :: "EncodedValue \<Rightarrow> CollectorFrame list \<Rightarrow> DexError + CollectorFrame list" where
  "put_child val [] = Inl WorkStackExhausted"
| "put_child val (FArray s remaining children # st) = Inr (FArray s (remaining - 1) (children @ [val]) # st)"
| "put_child val (FAnnotation s remaining t es (Some name) # st) =
     Inr (FAnnotation s (remaining - 1) t (btree_insert name val es) None # st)"
| "put_child val (FAnnotation s remaining t es None # st) = Inl WorkStackExhausted"

definition deliver_to_top :: "deps \<Rightarrow> byte list \<Rightarrow> EncodedValue \<Rightarrow> cstate \<Rightarrow> DexError + cstate" where
  "deliver_to_top D data val st =
     bindE (put_child val (fst st)) (\<lambda>frames. read_name D data ''iterative:deliver:name_idx'' (frames, snd st))"

lemma read_name_length: "read_name D data ctx s = Inr s' \<Longrightarrow> length (fst s') = length (fst s)"
  by (cases "(D, data, ctx, s)" rule: read_name.cases) (auto split: if_splits)

lemma put_child_length: "put_child v st = Inr st' \<Longrightarrow> length st' = length st \<and> st \<noteq> []"
  by (cases "(v, st)" rule: put_child.cases) auto

lemma deliver_length: "deliver_to_top D data v s = Inr s' \<Longrightarrow> length (fst s') = length (fst s)"
  by (auto simp: deliver_to_top_def dest!: read_name_length put_child_length)

text \<open>Phase B: assemble complete frames and deliver them; a left result is the finished root value.\<close>

function complete_frames ::
  "deps \<Rightarrow> byte list \<Rightarrow> nat \<Rightarrow> cstate \<Rightarrow> DexError + ((EncodedValue \<times> nat) + cstate)" where
  "complete_frames D data root_start ([], cur) = Inr (Inr ([], cur))"
| "complete_frames D data root_start (f # st, cur) =
     (if frame_is_complete f then
        let val = assemble_frame f
        in if st = [] then Inr (Inl (val, cur - root_start))
           else bindE (deliver_to_top D data val (st, cur)) (\<lambda>s'. complete_frames D data root_start s')
      else Inr (Inr (f # st, cur)))"
  by pat_completeness auto
termination
  by (relation "measure (\<lambda>(_, _, _, s). length (fst s))") (auto dest: deliver_length)

text \<open>The frame for a composite header; the root and the nested case differ in the names of their checks.\<close>

record frame_ctx =
  fc_array_size :: string
  fc_array_count :: string
  fc_type_idx :: string
  fc_ann_size :: string
  fc_ann_count :: string

definition open_frame :: "deps \<Rightarrow> byte list \<Rightarrow> frame_ctx \<Rightarrow> nat \<Rightarrow> DexError + (CollectorFrame \<times> nat)" where
  "open_frame D data C pos =
     bindE (read_u8 D data pos) (\<lambda>header.
     let value_type = header AND 0x1F
     in bindE (safe_add pos 1 ''iterative:composite:header'') (\<lambda>after_header.
        if value_type = 0x1C then
          bindE (read_uleb128 D data after_header) (\<lambda>(arr_size, alen).
          bindE (safe_add after_header alen (fc_array_size C)) (\<lambda>body.
          bindE (bound_count D arr_size 1 (length data) (fc_array_count C)) (\<lambda>count.
          Inr (FArray pos count [], body))))
        else if value_type = 0x1D then
          bindE (read_uleb128 D data after_header) (\<lambda>(type_idx_val, l1).
          bindE (safe_add after_header l1 (fc_type_idx C)) (\<lambda>p2.
          bindE (read_uleb128 D data p2) (\<lambda>(sz, l2).
          bindE (safe_add p2 l2 (fc_ann_size C)) (\<lambda>body.
          bindE (bound_count D sz 2 (length data) (fc_ann_count C)) (\<lambda>element_count.
          Inr (FAnnotation pos element_count type_idx_val [] None, body))))))
        else Inl (UnknownOpcode value_type (of_nat pos))))"

definition nested_ctx :: frame_ctx where
  "nested_ctx = \<lparr>fc_array_size = ''iterative:array:body'', fc_array_count = ''iterative:array:count'',
     fc_type_idx = ''iterative:ann:type_idx'', fc_ann_size = ''iterative:ann:body'', fc_ann_count = ''iterative:ann:elements''\<rparr>"

definition root_ctx :: frame_ctx where
  "root_ctx = \<lparr>fc_array_size = ''iterative:array:size'', fc_array_count = ''iterative:array'',
     fc_type_idx = ''iterative:annotation:type_idx'', fc_ann_size = ''iterative:annotation:size'',
     fc_ann_count = ''iterative:annotation:elements''\<rparr>"

text \<open>Phase C: decode one value, or open a frame.\<close>

definition decode_next :: "deps \<Rightarrow> byte list \<Rightarrow> cstate \<Rightarrow> DexError + cstate" where
  "decode_next D data s =
     (case s of (stack, cur) \<Rightarrow>
        bindE (decode_primitive_encoded_value D data cur) (\<lambda>(maybe_prim, advance).
        case maybe_prim of
          Some prim \<Rightarrow>
            bindE (safe_add cur advance ''iterative:primitive:advance'') (\<lambda>cur'.
            deliver_to_top D data prim (stack, cur'))
        | None \<Rightarrow>
            if length stack \<ge> PARSE_STACK_FRAME_CAP then Inl WorkStackExhausted
            else bindE (open_frame D data nested_ctx cur) (\<lambda>(frame, body). Inr (frame # stack, body))))"

definition collector_turn :: "deps \<Rightarrow> byte list \<Rightarrow> nat \<Rightarrow> cstate \<Rightarrow> DexError + ((EncodedValue \<times> nat) + cstate)" where
  "collector_turn D data root_start s =
     bindE (read_name D data ''iterative:annotation:name_idx'' s) (\<lambda>s1.
     bindE (complete_frames D data root_start s1) (\<lambda>r.
     case r of
       Inl result \<Rightarrow> Inr (Inl result)
     | Inr s2 \<Rightarrow> bindE (decode_next D data s2) (\<lambda>s3. Inr (Inr s3))))"

partial_function (option) drive_loop ::
  "deps \<Rightarrow> byte list \<Rightarrow> nat \<Rightarrow> cstate \<Rightarrow> (DexError + (EncodedValue \<times> nat)) option" where
  "drive_loop D data root_start s =
     (case collector_turn D data root_start s of
        Inl e \<Rightarrow> Some (Inl e)
      | Inr r \<Rightarrow> (case r of
          Inl result \<Rightarrow> Some (Inr result)
        | Inr s' \<Rightarrow> drive_loop D data root_start s'))"

definition drive_collector_stack ::
  "deps \<Rightarrow> byte list \<Rightarrow> nat \<Rightarrow> CollectorFrame \<Rightarrow> (DexError + (EncodedValue \<times> nat)) option" where
  "drive_collector_stack D data body_start root = drive_loop D data (frame_start_pos root) ([root], body_start)"

text \<open>Failing steps before a loop that may not end.\<close>

definition bindL :: "'e + 'a \<Rightarrow> ('a \<Rightarrow> ('e + 'b) option) \<Rightarrow> ('e + 'b) option" where
  "bindL m f = (case m of Inl e \<Rightarrow> Some (Inl e) | Inr x \<Rightarrow> f x)"

definition bindR :: "('e + 'a) option \<Rightarrow> ('a \<Rightarrow> ('e + 'b) option) \<Rightarrow> ('e + 'b) option" where
  "bindR m f = Option.bind m (\<lambda>r. bindL r f)"

definition parse_encoded_value_composite :: "deps \<Rightarrow> byte list \<Rightarrow> nat \<Rightarrow> (DexError + (EncodedValue \<times> nat)) option" where
  "parse_encoded_value_composite D data pos =
     bindL (open_frame D data root_ctx pos) (\<lambda>(root, body_start). drive_collector_stack D data body_start root)"

definition parse_encoded_value :: "deps \<Rightarrow> byte list \<Rightarrow> nat \<Rightarrow> (DexError + (EncodedValue \<times> nat)) option" where
  "parse_encoded_value D data pos =
     bindL (decode_primitive_encoded_value D data pos) (\<lambda>(maybe_val, consumed).
     case maybe_val of
       Some val \<Rightarrow> Some (Inr (val, consumed))
     | None \<Rightarrow> parse_encoded_value_composite D data pos)"

definition parse_encoded_annotation :: "deps \<Rightarrow> byte list \<Rightarrow> nat \<Rightarrow> (DexError + (EncodedAnnotation \<times> nat)) option" where
  "parse_encoded_annotation D data pos =
     bindL (read_uleb128 D data pos) (\<lambda>(type_idx_val, l1).
     bindL (safe_add pos l1 ''annotation:encoded:type_idx'') (\<lambda>pos2.
     bindL (read_uleb128 D data pos2) (\<lambda>(sz, l2).
     bindL (safe_add pos2 l2 ''annotation:encoded:size'') (\<lambda>pos3.
     bindL (bound_count D sz 2 (length data) ''annotation_elements'') (\<lambda>element_count.
     bindR (drive_collector_stack D data pos3 (FAnnotation pos element_count type_idx_val [] None)) (\<lambda>(val, consumed).
     case val of
       EV_Annotation ann \<Rightarrow> Some (Inr (ann, consumed))
     | _ \<Rightarrow> Some (Inl WorkStackExhausted)))))))"

definition parse_annotation_item :: "deps \<Rightarrow> byte list \<Rightarrow> u32 \<Rightarrow> (DexError + AnnotationItem) option" where
  "parse_annotation_item D data offset =
     bindL (read_u8 D data (unat offset)) (\<lambda>vis.
     bindL (safe_add (unat offset) 1 ''annotation:item:visibility'') (\<lambda>pos.
     bindR (parse_encoded_annotation D data pos) (\<lambda>(ann, _).
     Some (Inr \<lparr>visibility = vis, item_annotation = ann\<rparr>))))"

primrec parse_values :: "deps \<Rightarrow> byte list \<Rightarrow> nat \<Rightarrow> nat \<Rightarrow> (DexError + (EncodedValue list \<times> byte list \<times> nat)) option" where
  "parse_values D data 0 pos = Some (Inr ([], [], pos))"
| "parse_values D data (Suc n) pos =
     bindR (parse_encoded_value D data pos) (\<lambda>(v, vlen).
     bindL (safe_add pos vlen ''encoded_array:elem'') (\<lambda>pos'.
     let raw_width = vlen - 1; width = (if raw_width < 256 then of_nat raw_width else 255)
     in bindR (parse_values D data n pos') (\<lambda>(vs, ws, end_pos). Some (Inr (v # vs, width # ws, end_pos)))))"

definition parse_encoded_array :: "deps \<Rightarrow> byte list \<Rightarrow> u32 \<Rightarrow> (DexError + (EncodedValue list \<times> byte list)) option" where
  "parse_encoded_array D data offset =
     bindL (read_uleb128 D data (unat offset)) (\<lambda>(sz, len).
     bindL (safe_add (unat offset) len ''encoded_array:size'') (\<lambda>pos.
     bindL (bound_count D sz 1 (length data) ''encoded_array_item'') (\<lambda>count.
     bindR (parse_values D data count pos) (\<lambda>(vs, ws, _). Some (Inr (vs, ws))))))"


section \<open>Turns of the loop\<close>

lemma read_name_Inr_ctx: "read_name D data c s = Inr s' \<Longrightarrow> read_name D data c' s = Inr s'"
  by (cases "(D, data, c, s)" rule: read_name.cases) (auto split: if_splits dest!: safe_add_InrD)

lemma read_name_idem: "read_name D data c s = Inr s' \<Longrightarrow> read_name D data c' s' = Inr s'"
  by (cases "(D, data, c, s)" rule: read_name.cases) (auto split: if_splits)

lemma drive_loop_turn: "collector_turn D data root s = collector_turn D data root s' \<Longrightarrow> drive_loop D data root s = drive_loop D data root s'"
  by (simp add: drive_loop.simps [of D data root s] drive_loop.simps [of D data root s'])

lemma drive_read_name:
  assumes "read_name D data c s = Inr s'"
  shows "drive_loop D data root s = drive_loop D data root s'"
  by (rule drive_loop_turn)
    (simp add: collector_turn_def read_name_Inr_ctx [OF assms] read_name_idem [OF assms])

lemma read_name_complete: "frame_is_complete f \<Longrightarrow> read_name D data c (f # st, cur) = Inr (f # st, cur)"
  by (cases f) auto

lemma drive_complete:
  assumes "frame_is_complete f" and "deliver_to_top D data (assemble_frame f) (st, cur) = Inr s'"
  shows "drive_loop D data root (f # st, cur) = drive_loop D data root s'"
proof (rule drive_loop_turn)
  have "st \<noteq> []" using assms(2) by (auto simp: deliver_to_top_def dest: put_child_length)
  then show "collector_turn D data root (f # st, cur) = collector_turn D data root s'"
    using assms read_name_complete [OF assms(1)]
    by (auto simp: collector_turn_def deliver_to_top_def read_name_idem)
qed

text \<open>The top frame waits for a value.\<close>

fun ready :: "CollectorFrame list \<Rightarrow> bool" where
  "ready (FArray _ remaining _ # _) \<longleftrightarrow> remaining > 0"
| "ready (FAnnotation _ _ _ _ pending_name # _) \<longleftrightarrow> pending_name \<noteq> None"
| "ready [] \<longleftrightarrow> False"

lemma drive_next:
  assumes "ready st" and "decode_next D data (st, cur) = Inr s'"
  shows "drive_loop D data root (st, cur) = drive_loop D data root s'"
proof -
  have "read_name D data c (st, cur) = Inr (st, cur)" for c using assms(1) by (cases st rule: ready.cases) auto
  moreover have "complete_frames D data root (st, cur) = Inr (Inr (st, cur))" using assms(1) by (cases st rule: ready.cases) auto
  ultimately have "collector_turn D data root (st, cur) = Inr (Inr s')" using assms(2) by (simp add: collector_turn_def)
  then show ?thesis by (simp add: drive_loop.simps [of D data root "(st, cur)"])
qed

lemma drive_root:
  assumes "frame_is_complete f"
  shows "drive_loop D data root ([f], cur) = Some (Inr (assemble_frame f, cur - root))"
  using assms read_name_complete [OF assms]
  by (simp add: drive_loop.simps [of D data root "([f], cur)"] collector_turn_def)

section \<open>Encodings are parsed back\<close>

fun depth :: "EncodedValue \<Rightarrow> nat" and ann_depth :: "EncodedAnnotation \<Rightarrow> nat" where
  "depth (EV_Array vs) = 1 + foldl max 0 (map depth vs)"
| "depth (EV_Annotation a) = ann_depth a"
| "depth _ = 0"
| "ann_depth (EncodedAnnotation t es) = 1 + foldl max 0 (map (\<lambda>e. depth (snd e)) es)"

lemma depth_child: "x \<in> set xs \<Longrightarrow> x \<le> foldl max (0 :: nat) xs"
  using foldl_max(2) [of x xs "\<lambda>x. x" 0] by simp

lemma emit_primitive_nonempty: "emit_primitive v = Some bs \<Longrightarrow> bs \<noteq> []"
  by (cases v) (auto simp: emit_signed_def emit_unsigned_def Let_def)

lemma at_width_nonempty: "emit_encoded_value_at_width v w = Some bs \<Longrightarrow> bs \<noteq> []"
  by (cases v) (auto simp: emit_encoded_value_at_width_def emit_trimmed_def Let_def split: if_splits)

lemma encodes_nonempty: "encodes D v p \<Longrightarrow> 0 < length (fst p)"
  by (induction rule: encodes.induct) (auto dest: emit_primitive_nonempty at_width_nonempty)

lemma concat_size: "list_all2 R xs ps \<Longrightarrow> (\<And>x p. R x p \<Longrightarrow> k \<le> length (fst p)) \<Longrightarrow> length xs * k \<le> length (concat (map fst ps))"
  by (induction rule: list_all2_induct) (auto simp: add_mono)

lemma btree_insert_append: "btree_ok (acc @ (k, v) # es) \<Longrightarrow> btree_insert k w acc = acc @ [(k, w)]"
  by (induction acc) (auto simp: btree_ok_def)

lemma at_off_tail: "at_off data pos (b # bs) \<Longrightarrow> at_off data (pos + 1) bs"
  using at_off_append [of data pos "[b]" bs] by simp

text \<open>Parsing the bytes of a value amounts to handing the value to the frame on top.\<close>

definition delivers :: "deps \<Rightarrow> byte list \<Rightarrow> nat \<Rightarrow> EncodedValue \<Rightarrow> byte list \<Rightarrow> bool" where
  "delivers D data root v bs \<longleftrightarrow>
     (\<forall>st cur st' c s'. ready st \<and> at_off data cur bs \<and> length st + depth v \<le> PARSE_STACK_FRAME_CAP
        \<and> put_child v st = Inr st' \<and> read_name D data c (st', cur + length bs) = Inr s'
        \<longrightarrow> drive_loop D data root (st, cur) = drive_loop D data root s')"

lemma deliversD:
  "delivers D data root v bs \<Longrightarrow> ready st \<Longrightarrow> at_off data cur bs \<Longrightarrow> length st + depth v \<le> PARSE_STACK_FRAME_CAP \<Longrightarrow>
   put_child v st = Inr st' \<Longrightarrow> read_name D data c (st', cur + length bs) = Inr s' \<Longrightarrow>
   drive_loop D data root (st, cur) = drive_loop D data root s'"
  unfolding delivers_def by blast

lemma drive_items:
  assumes "list_all2 (\<lambda>v p. delivers D data root v (fst p)) vs ps"
    and "at_off data cur (concat (map fst ps))" and "\<forall>v \<in> set vs. Suc (length st) + depth v \<le> PARSE_STACK_FRAME_CAP"
  shows "drive_loop D data root (FArray s (length vs) cs # st, cur)
    = drive_loop D data root (FArray s 0 (cs @ vs) # st, cur + length (concat (map fst ps)))"
  using assms
proof (induction vs ps arbitrary: cs cur rule: list_all2_induct)
  case (Cons v vs p ps)
  have at: "at_off data cur (fst p)" "at_off data (cur + length (fst p)) (concat (map fst ps))"
    using Cons.prems(1) by (simp_all add: at_off_append)
  have "drive_loop D data root (FArray s (Suc (length vs)) cs # st, cur)
      = drive_loop D data root (FArray s (length vs) (cs @ [v]) # st, cur + length (fst p))"
    by (rule deliversD [OF Cons.hyps(1) _ at(1)]) (use Cons.prems(2) in auto)
  with Cons.IH [OF at(2), of "cs @ [v]"] Cons.prems(2) show ?case by (simp add: add.assoc)
qed simp

text \<open>The cursor moves forward and stays inside the data.\<close>

definition moves :: "byte list \<Rightarrow> nat \<Rightarrow> nat \<Rightarrow> bool" where
  "moves data cur cur' \<longleftrightarrow> cur' = cur \<or> cur \<le> cur' \<and> cur' \<le> length data"

lemma moves_trans: "moves data a b \<Longrightarrow> moves data b c \<Longrightarrow> moves data a c"
  by (auto simp: moves_def)

text \<open>Values are built from ordered maps.\<close>

fun frame_ok :: "CollectorFrame \<Rightarrow> bool" where
  "frame_ok (FArray _ _ children) \<longleftrightarrow> list_all value_ok children"
| "frame_ok (FAnnotation _ _ _ es _) \<longleftrightarrow> btree_ok es \<and> list_all (\<lambda>e. value_ok (snd e)) es"

context dex_deps
begin

lemma at_off_uleb: "fits data \<Longrightarrow> at_off data cur (common_write_uleb128 D k @ bs) \<Longrightarrow>
   read_uleb128 D data cur = Inr (k, length (common_write_uleb128 D k))
   \<and> cur + length (common_write_uleb128 D k) < 18446744073709551616
   \<and> at_off data (cur + length (common_write_uleb128 D k)) bs"
  using at_off_len [of data cur "common_write_uleb128 D k @ bs"] by (simp add: at_off_append read_uleb128_at fits_def)

lemma name_readable:
  assumes "list_all2 (\<lambda>e p. \<exists>b. R e p b \<and> fst p = common_write_uleb128 D (un_StringIdx (fst e)) @ b) es ps"
    and "fits data" and "at_off data cur (concat (map fst ps))"
  shows "\<exists>s'. read_name D data c (FAnnotation s (length es) t acc None # st, cur) = Inr s'"
proof (cases es)
  case (Cons e es')
  with assms(1) obtain p ps' b where "ps = p # ps'" "fst p = common_write_uleb128 D (un_StringIdx (fst e)) @ b"
    by (auto simp: list_all2_Cons1)
  with assms(2, 3) Cons at_off_uleb [of data cur "un_StringIdx (fst e)" "b @ concat (map fst ps')"] show ?thesis by simp
qed simp

lemma drive_elements:
  assumes "list_all2 (\<lambda>e p. \<exists>b. delivers D data root (snd e) b \<and> fst p = common_write_uleb128 D (un_StringIdx (fst e)) @ b) es ps"
    and "fits data" and "at_off data cur (concat (map fst ps))"
    and "\<forall>e \<in> set es. Suc (length st) + depth (snd e) \<le> PARSE_STACK_FRAME_CAP" and "btree_ok (acc @ es)"
  shows "drive_loop D data root (FAnnotation s (length es) t acc None # st, cur)
    = drive_loop D data root (FAnnotation s 0 t (acc @ es) None # st, cur + length (concat (map fst ps)))"
  using assms
proof (induction es ps arbitrary: acc cur rule: list_all2_induct)
  case (Cons e es p ps)
  obtain k v where e: "e = (StringIdx k, v)" by (metis StringIdx.exhaust surj_pair)
  from Cons.hyps(1) e obtain b where b: "delivers D data root v b" "fst p = common_write_uleb128 D k @ b" by auto
  let ?u = "length (common_write_uleb128 D k)"
  have u: "read_uleb128 D data cur = Inr (k, ?u)" "cur + ?u < 18446744073709551616" "at_off data (cur + ?u) (b @ concat (map fst ps))"
    using at_off_uleb [OF Cons.prems(1), of cur k "b @ concat (map fst ps)"] Cons.prems(2) b(2) by simp_all
  have at: "at_off data (cur + ?u) b" "at_off data (cur + ?u + length b) (concat (map fst ps))"
    using u(3) by (simp_all add: at_off_append)
  let ?f = "FAnnotation s (Suc (length es)) t acc (Some (StringIdx k)) # st"
  let ?g = "FAnnotation s (length es) t (acc @ [e]) None # st"
  have "drive_loop D data root (FAnnotation s (length (e # es)) t acc None # st, cur) = drive_loop D data root (?f, cur + ?u)"
    by (rule drive_read_name [where c = "[]"]) (use u in simp)
  also have "\<dots> = drive_loop D data root (?g, cur + ?u + length b)"
  proof -
    have put: "put_child v ?f = Inr ?g" using btree_insert_append [of acc "StringIdx k" v es v] Cons.prems(4) e by simp
    obtain s' where s': "read_name D data [] (?g, cur + ?u + length b) = Inr s'"
      using name_readable [OF Cons.hyps(2) Cons.prems(1) at(2)] by blast
    have "drive_loop D data root (?f, cur + ?u) = drive_loop D data root s'"
      by (rule deliversD [OF b(1) _ at(1) _ put s']) (use Cons.prems(3) e in auto)
    also have "\<dots> = drive_loop D data root (?g, cur + ?u + length b)" by (rule drive_read_name [OF s', symmetric])
    finally show ?thesis .
  qed
  also have "\<dots> = drive_loop D data root (FAnnotation s 0 t (acc @ e # es) None # st, cur + length (concat (map fst (p # ps))))"
    using Cons.IH [OF Cons.prems(1) at(2), of "acc @ [e]"] Cons.prems(3, 4) b(2) by (simp add: add.assoc)
  finally show ?case .
qed simp

lemma decode_composite:
  assumes "fits data" and "at_off data pos (h # bs)" and "h = 0x1C \<or> h = 0x1D"
  shows "decode_primitive_encoded_value D data pos = Inr (None, 0)"
proof -
  have "pos + 1 < 18446744073709551616" using assms(1) at_off_len [OF assms(2)] by (simp add: fits_def)
  then show ?thesis using read_u8_at [OF assms(1, 2)] assms(3) by (auto simp: decode_primitive_encoded_value_def Let_def)
qed

lemma open_array:
  assumes "fits data" and "at_off data pos (0x1C # common_write_uleb128 D n @ bs)" and "unat n \<le> length bs"
  shows "open_frame D data C pos = Inr (FArray pos (unat n) [], pos + 1 + length (common_write_uleb128 D n))
    \<and> at_off data (pos + 1 + length (common_write_uleb128 D n)) bs"
proof -
  have at: "at_off data (pos + 1) (common_write_uleb128 D n @ bs)" by (rule at_off_tail [OF assms(2)])
  note u = at_off_uleb [OF assms(1) at]
  have "unat n \<le> length data" using assms(3) u at_off_len [of data "pos + 1 + length (common_write_uleb128 D n)" bs] by linarith
  then have "bound_count D n 1 (length data) c = Inr (unat n)" for c
    using bound_count_fits [of 1 "length data" n] assms(1) by (simp add: fits_def)
  then show ?thesis using read_u8_at [OF assms(1, 2)] u by (simp add: open_frame_def Let_def)
qed

lemma open_annotation:
  assumes "fits data" and "at_off data pos (0x1D # common_write_uleb128 D t @ common_write_uleb128 D n @ bs)" and "unat n * 2 \<le> length bs"
  shows "open_frame D data C pos = Inr (FAnnotation pos (unat n) t [] None,
      pos + 1 + length (common_write_uleb128 D t) + length (common_write_uleb128 D n))
    \<and> at_off data (pos + 1 + length (common_write_uleb128 D t) + length (common_write_uleb128 D n)) bs"
proof -
  have at: "at_off data (pos + 1) (common_write_uleb128 D t @ common_write_uleb128 D n @ bs)" by (rule at_off_tail [OF assms(2)])
  note u = at_off_uleb [OF assms(1) at]
  note v = at_off_uleb [OF assms(1) u [THEN conjunct2, THEN conjunct2]]
  have "unat n * 2 \<le> length data"
    using assms(3) v at_off_len [of data "pos + 1 + length (common_write_uleb128 D t) + length (common_write_uleb128 D n)" bs] by linarith
  then have "bound_count D n 2 (length data) c = Inr (unat n)" for c
    using bound_count_fits [of 2 "length data" n] assms(1) by (simp add: fits_def)
  then show ?thesis using read_u8_at [OF assms(1, 2)] u v by (simp add: open_frame_def Let_def)
qed

text \<open>A composite value opens a frame, collects its children there and leaves it complete.\<close>

lemma composite_delivers:
  assumes "fits data"
    and "\<And>cur. at_off data cur bs \<Longrightarrow> decode_primitive_encoded_value D data cur = Inr (None, 0)"
    and "\<And>cur C. at_off data cur bs \<Longrightarrow> \<exists>f body. open_frame D data C cur = Inr (f, body)
      \<and> (\<forall>st. length st + depth v \<le> PARSE_STACK_FRAME_CAP \<longrightarrow>
          (\<exists>g. frame_is_complete g \<and> assemble_frame g = v \<and>
            drive_loop D data root (f # st, body) = drive_loop D data root (g # st, cur + length bs)))"
    and "0 < depth v"
  shows "delivers D data root v bs"
  unfolding delivers_def
proof (intro allI impI, elim conjE)
  fix st cur st' c s'
  assume a: "ready st" "at_off data cur bs" "length st + depth v \<le> PARSE_STACK_FRAME_CAP" "put_child v st = Inr st'"
    "read_name D data c (st', cur + length bs) = Inr s'"
  obtain f body where f: "open_frame D data nested_ctx cur = Inr (f, body)"
    and g: "\<And>st. length st + depth v \<le> PARSE_STACK_FRAME_CAP \<Longrightarrow> \<exists>g. frame_is_complete g \<and> assemble_frame g = v \<and>
      drive_loop D data root (f # st, body) = drive_loop D data root (g # st, cur + length bs)"
    using assms(3) [OF a(2), of nested_ctx] by blast
  obtain g where g: "frame_is_complete g" "assemble_frame g = v"
    "drive_loop D data root (f # st, body) = drive_loop D data root (g # st, cur + length bs)"
    using g [OF a(3)] by blast
  have "drive_loop D data root (st, cur) = drive_loop D data root (f # st, body)"
    by (rule drive_next [OF a(1)]) (use assms(2) [OF a(2)] assms(4) a(3) f in \<open>simp add: decode_next_def\<close>)
  also have "\<dots> = drive_loop D data root (g # st, cur + length bs)" by (rule g(3))
  also have "\<dots> = drive_loop D data root s'"
    by (rule drive_complete [OF g(1)]) (use a(4) read_name_Inr_ctx [OF a(5)] g(2) in \<open>simp add: deliver_to_top_def\<close>)
  finally show "drive_loop D data root (st, cur) = drive_loop D data root s'" .
qed

lemma primitive_delivers:
  assumes "fits data" and "\<And>cur. at_off data cur bs \<Longrightarrow> decode_primitive_encoded_value D data cur = Inr (Some v, length bs)"
  shows "delivers D data root v bs"
  unfolding delivers_def
proof (intro allI impI, elim conjE)
  fix st cur st' c s'
  assume a: "ready st" "at_off data cur bs" "put_child v st = Inr st'" "read_name D data c (st', cur + length bs) = Inr s'"
  have "cur + length bs < 18446744073709551616" using at_off_len [OF a(2)] assms(1) by (simp add: fits_def)
  then show "drive_loop D data root (st, cur) = drive_loop D data root s'"
    by (intro drive_next [OF a(1)]) (use assms(2) [OF a(2)] a(3) read_name_Inr_ctx [OF a(4)] in \<open>simp add: decode_next_def deliver_to_top_def\<close>)
qed

lemma array_frame:
  assumes "fits data" and "list_all2 (\<lambda>v p. delivers D data root v (fst p)) vs ps" and "list_all2 (encodes D) vs ps" and "length vs < 2 ^ 32"
    and bs: "bs = 0x1C # common_write_uleb128 D (of_nat (length vs)) @ concat (map fst ps)" and at: "at_off data cur bs"
  shows "\<exists>f body. open_frame D data C cur = Inr (f, body)
      \<and> (\<forall>st. length st + depth (EV_Array vs) \<le> PARSE_STACK_FRAME_CAP \<longrightarrow>
          (\<exists>g. frame_is_complete g \<and> assemble_frame g = EV_Array vs \<and>
            drive_loop D data root (f # st, body) = drive_loop D data root (g # st, cur + length bs)))"
proof -
  have n: "unat (of_nat (length vs) :: u32) = length vs" using assms(4) by (rule unat_of_nat_u32)
  have "length vs * 1 \<le> length (concat (map fst ps))"
    by (rule concat_size [OF assms(3)]) (use encodes_nonempty in \<open>auto simp: Suc_le_eq\<close>)
  then have o: "open_frame D data C cur = Inr (FArray cur (length vs) [], cur + 1 + length (common_write_uleb128 D (of_nat (length vs))))"
    "at_off data (cur + 1 + length (common_write_uleb128 D (of_nat (length vs)))) (concat (map fst ps))"
    using open_array [OF assms(1) at [unfolded bs], of C] n by simp_all
  have d: "Suc (length st) + depth v \<le> PARSE_STACK_FRAME_CAP"
    if "v \<in> set vs" "length st + depth (EV_Array vs) \<le> PARSE_STACK_FRAME_CAP" for v and st :: "CollectorFrame list"
    using that depth_child [of "depth v" "map depth vs"] by simp
  show ?thesis
  proof (intro exI conjI allI impI)
    show "open_frame D data C cur = Inr (FArray cur (length vs) [], cur + 1 + length (common_write_uleb128 D (of_nat (length vs))))" by (rule o(1))
  next
    fix st :: "CollectorFrame list"
    assume "length st + depth (EV_Array vs) \<le> PARSE_STACK_FRAME_CAP"
    with d have "\<forall>v \<in> set vs. Suc (length st) + depth v \<le> PARSE_STACK_FRAME_CAP" by blast
    from drive_items [OF assms(2) o(2) this, of cur "[]"]
    show "drive_loop D data root (FArray cur (length vs) [] # st, cur + 1 + length (common_write_uleb128 D (of_nat (length vs))))
      = drive_loop D data root (FArray cur 0 vs # st, cur + length bs)" by (simp add: bs add.assoc)
  qed simp_all
qed

lemma elements_frame:
  assumes "fits data"
    and "list_all2 (\<lambda>e p. \<exists>b. (encodes D (snd e) (b, snd p) \<and> delivers D data root (snd e) b) \<and> fst p = common_write_uleb128 D (un_StringIdx (fst e)) @ b) es ps"
    and "btree_ok es" and "length es < 2 ^ 32"
    and "at_off data cur (concat (map fst ps))"
    and "length st + depth (EV_Annotation (EncodedAnnotation t' es)) \<le> PARSE_STACK_FRAME_CAP"
  shows "drive_loop D data root (FAnnotation s (length es) t [] None # st, cur)
    = drive_loop D data root (FAnnotation s 0 t es None # st, cur + length (concat (map fst ps)))"
proof -
  have "\<forall>e \<in> set es. Suc (length st) + depth (snd e) \<le> PARSE_STACK_FRAME_CAP"
  proof
    fix e assume "e \<in> set es"
    then show "Suc (length st) + depth (snd e) \<le> PARSE_STACK_FRAME_CAP"
      using assms(6) depth_child [of "depth (snd e)" "map (\<lambda>e. depth (snd e)) es"] by simp
  qed
  moreover have "list_all2 (\<lambda>e p. \<exists>b. delivers D data root (snd e) b \<and> fst p = common_write_uleb128 D (un_StringIdx (fst e)) @ b) es ps"
    using assms(2) by (rule list_all2_mono) blast
  ultimately show ?thesis using drive_elements [of data root es ps cur st "[]" s t] assms(1, 3, 5) by simp
qed

lemma elements_size:
  assumes "list_all2 (\<lambda>e p. \<exists>b. (encodes D (snd e) (b, snd p) \<and> P e b) \<and> fst p = common_write_uleb128 D (un_StringIdx (fst e)) @ b) es ps"
  shows "length es * 2 \<le> length (concat (map fst ps))"
proof (rule concat_size [OF assms])
  fix e :: "StringIdx \<times> EncodedValue" and p :: "byte list \<times> byte list"
  assume "\<exists>b. (encodes D (snd e) (b, snd p) \<and> P e b) \<and> fst p = common_write_uleb128 D (un_StringIdx (fst e)) @ b"
  then obtain b where b: "encodes D (snd e) (b, snd p)" "fst p = common_write_uleb128 D (un_StringIdx (fst e)) @ b" by blast
  have "0 < length b" using encodes_nonempty [OF b(1)] by simp
  moreover have "0 < length (common_write_uleb128 D (un_StringIdx (fst e)))" using write_uleb_length by blast
  ultimately show "2 \<le> length (fst p)" unfolding b(2) length_append by linarith
qed

lemma annotation_frame:
  assumes "fits data"
    and "list_all2 (\<lambda>e p. \<exists>b. (encodes D (snd e) (b, snd p) \<and> delivers D data root (snd e) b) \<and> fst p = common_write_uleb128 D (un_StringIdx (fst e)) @ b) es ps"
    and "btree_ok es" and "length es < 2 ^ 32"
    and bs: "bs = 0x1D # common_write_uleb128 D (un_TypeIdx t) @ common_write_uleb128 D (of_nat (length es)) @ concat (map fst ps)"
    and at: "at_off data cur bs"
  shows "\<exists>f body. open_frame D data C cur = Inr (f, body)
      \<and> (\<forall>st. length st + depth (EV_Annotation (EncodedAnnotation t es)) \<le> PARSE_STACK_FRAME_CAP \<longrightarrow>
          (\<exists>g. frame_is_complete g \<and> assemble_frame g = EV_Annotation (EncodedAnnotation t es) \<and>
            drive_loop D data root (f # st, body) = drive_loop D data root (g # st, cur + length bs)))"
proof -
  let ?body = "cur + 1 + length (common_write_uleb128 D (un_TypeIdx t)) + length (common_write_uleb128 D (of_nat (length es)))"
  have n: "unat (of_nat (length es) :: u32) = length es" using assms(4) by (rule unat_of_nat_u32)
  have o: "open_frame D data C cur = Inr (FAnnotation cur (length es) (un_TypeIdx t) [] None, ?body)"
    "at_off data ?body (concat (map fst ps))"
    using open_annotation [OF assms(1) at [unfolded bs], of C] elements_size [OF assms(2)] n by simp_all
  show ?thesis
  proof (intro exI conjI allI impI)
    show "open_frame D data C cur = Inr (FAnnotation cur (length es) (un_TypeIdx t) [] None, ?body)" by (rule o(1))
  next
    fix st :: "CollectorFrame list"
    assume "length st + depth (EV_Annotation (EncodedAnnotation t es)) \<le> PARSE_STACK_FRAME_CAP"
    from elements_frame [OF assms(1-4) o(2) this, of cur "un_TypeIdx t"]
    show "drive_loop D data root (FAnnotation cur (length es) (un_TypeIdx t) [] None # st, ?body)
      = drive_loop D data root (FAnnotation cur 0 (un_TypeIdx t) es None # st, cur + length bs)" by (simp add: bs add.assoc)
  qed simp_all
qed

lemma encodes_delivers: "encodes D v p \<Longrightarrow> fits data \<Longrightarrow> delivers D data root v (fst p)"
proof (induction v p rule: encodes.induct)
  case (minimal v bs)
  then show ?case by (auto intro!: primitive_delivers dest: decode_emitted)
next
  case (wide v w bs)
  then show ?case by (auto intro!: primitive_delivers dest: decode_emitted_at_width)
next
  case (array vs ps)
  have l: "list_all2 (encodes D) vs ps" "list_all2 (\<lambda>v p. delivers D data root v (fst p)) vs ps"
    using array(1, 3) by (auto elim!: list_all2_mono)
  show ?case unfolding fst_conv
    by (rule composite_delivers [OF array(3)]) (use decode_composite [OF array(3)] array_frame [OF array(3) l(2, 1) array(2) refl] in auto)
next
  case (annotation es ps t)
  have l: "list_all2 (\<lambda>e p. \<exists>b. (encodes D (snd e) (b, snd p) \<and> delivers D data root (snd e) b) \<and> fst p = common_write_uleb128 D (un_StringIdx (fst e)) @ b) es ps"
    using annotation(1) by (rule list_all2_mono) (use annotation(4) in auto)
  show ?case unfolding fst_conv
    by (rule composite_delivers [OF annotation(4)])
      (use decode_composite [OF annotation(4)] annotation_frame [OF annotation(4) l annotation(2, 3) refl] in auto)
qed

lemma open_frame_start: "open_frame D data C pos = Inr (f, body) \<Longrightarrow> frame_start_pos f = pos"
  by (auto simp: open_frame_def Let_def split: if_splits)

lemma parse_composite:
  assumes "decode_primitive_encoded_value D data pos = Inr (None, 0)"
    and "\<And>C. \<exists>f body. open_frame D data C pos = Inr (f, body)
      \<and> (\<forall>st. length st + depth v \<le> PARSE_STACK_FRAME_CAP \<longrightarrow>
          (\<exists>g. frame_is_complete g \<and> assemble_frame g = v \<and>
            drive_loop D data pos (f # st, body) = drive_loop D data pos (g # st, pos + n)))"
    and "depth v \<le> PARSE_STACK_FRAME_CAP"
  shows "parse_encoded_value D data pos = Some (Inr (v, n))"
proof -
  obtain f body g where f: "open_frame D data root_ctx pos = Inr (f, body)" and g: "frame_is_complete g" "assemble_frame g = v"
      "drive_loop D data pos ([f], body) = drive_loop D data pos ([g], pos + n)"
    using assms(2) [of root_ctx] assms(3) by (metis add_0 list.size(3))
  then show ?thesis using assms(1) open_frame_start [OF f] drive_root [OF g(1)]
    by (simp add: parse_encoded_value_def parse_encoded_value_composite_def drive_collector_stack_def bindL_def)
qed

lemma parse_encodes:
  assumes "encodes D v p" and "fits data" and "at_off data pos (fst p)" and "depth v \<le> PARSE_STACK_FRAME_CAP"
  shows "parse_encoded_value D data pos = Some (Inr (v, length (fst p)))"
  using assms(1)
proof cases
  case (minimal bs)
  with decode_emitted [OF minimal(2) assms(2)] assms(3) show ?thesis by (simp add: parse_encoded_value_def bindL_def)
next
  case (wide w bs)
  with decode_emitted_at_width [OF wide(2) assms(2)] assms(3) show ?thesis by (simp add: parse_encoded_value_def bindL_def)
next
  case (array vs ps)
  have l: "list_all2 (\<lambda>v p. delivers D data pos v (fst p)) vs ps"
    using array(3) by (rule list_all2_mono) (rule encodes_delivers [OF _ assms(2)])
  show ?thesis unfolding array(1, 2) fst_conv
    by (rule parse_composite [OF decode_composite [OF assms(2)] array_frame [OF assms(2) l array(3, 4) refl]])
      (use assms(3, 4) array(1, 2) in auto)
next
  case (annotation es ps t)
  have l: "list_all2 (\<lambda>e p. \<exists>b. (encodes D (snd e) (b, snd p) \<and> delivers D data pos (snd e) b) \<and> fst p = common_write_uleb128 D (un_StringIdx (fst e)) @ b) es ps"
    using annotation(3) by (rule list_all2_mono) (use encodes_delivers [OF _ assms(2)] in fastforce)
  show ?thesis unfolding annotation(1, 2) fst_conv
    by (rule parse_composite [OF decode_composite [OF assms(2)] annotation_frame [OF assms(2) l annotation(4, 5) refl]])
      (use assms(3, 4) annotation(1, 2) in auto)
qed

lemma parse_annotation_encodes:
  assumes "enc_annotation D a (bs, ws)" and "fits data" and "at_off data pos bs" and "ann_depth a \<le> PARSE_STACK_FRAME_CAP"
  shows "parse_encoded_annotation D data pos = Some (Inr (a, length bs))"
proof -
  obtain t es where a: "a = EncodedAnnotation t es" by (cases a)
  with assms(1) obtain ps where e: "btree_ok es" "length es < 2 ^ 32" "list_all2 (enc_element D) es ps"
    "bs = common_write_uleb128 D (un_TypeIdx t) @ common_write_uleb128 D (of_nat (length es)) @ concat (map fst ps)" by auto
  have l: "list_all2 (\<lambda>e p. \<exists>b. (encodes D (snd e) (b, snd p) \<and> delivers D data pos (snd e) b) \<and> fst p = common_write_uleb128 D (un_StringIdx (fst e)) @ b) es ps"
    using e(3) by (rule list_all2_mono) (use encodes_delivers [OF _ assms(2)] in \<open>fastforce simp: enc_element_def\<close>)
  note u = at_off_uleb [OF assms(2) assms(3) [unfolded e(4)]]
  note v = at_off_uleb [OF assms(2) u [THEN conjunct2, THEN conjunct2]]
  let ?body = "pos + length (common_write_uleb128 D (un_TypeIdx t)) + length (common_write_uleb128 D (of_nat (length es)))"
  have n: "unat (of_nat (length es) :: u32) = length es" using e(2) by (rule unat_of_nat_u32)
  have "length es * 2 \<le> length data"
    using elements_size [OF l] at_off_len [OF v [THEN conjunct2, THEN conjunct2]] by linarith
  then have c: "bound_count D (of_nat (length es)) 2 (length data) i = Inr (length es)" for i
    using bound_count_fits [of 2 "length data" "of_nat (length es)"] assms(2) n by (simp add: fits_def)
  have "drive_loop D data pos ([FAnnotation pos (length es) (un_TypeIdx t) [] None], ?body)
    = drive_loop D data pos ([FAnnotation pos 0 (un_TypeIdx t) es None], ?body + length (concat (map fst ps)))"
    by (rule elements_frame [OF assms(2) l e(1, 2) v [THEN conjunct2, THEN conjunct2], where t' = t]) (use assms(4) a in simp)
  then show ?thesis using u v c a e(4) drive_root [of "FAnnotation pos 0 (un_TypeIdx t) es None" D data pos]
    by (simp add: parse_encoded_annotation_def bindL_def bindR_def drive_collector_stack_def)
qed

lemma parse_values_encodes:
  assumes "list_all2 (encodes D) vs ps" and "fits data" and "at_off data pos (concat (map fst ps))" and "\<forall>v \<in> set vs. depth v \<le> PARSE_STACK_FRAME_CAP"
  shows "\<exists>ws. parse_values D data (length vs) pos = Some (Inr (vs, ws, pos + length (concat (map fst ps))))"
  using assms
proof (induction vs ps arbitrary: pos rule: list_all2_induct)
  case (Cons v vs p ps)
  have at: "at_off data pos (fst p)" "at_off data (pos + length (fst p)) (concat (map fst ps))"
    using Cons.prems(2) by (simp_all add: at_off_append)
  have "pos + length (fst p) < 18446744073709551616" using at_off_len [OF at(1)] Cons.prems(1) by (simp add: fits_def)
  moreover have "parse_encoded_value D data pos = Some (Inr (v, length (fst p)))"
    using parse_encodes [OF Cons.hyps(1) Cons.prems(1) at(1)] Cons.prems(3) by simp
  ultimately show ?case using Cons.IH [OF Cons.prems(1) at(2)] Cons.prems(3)
    by (auto simp: bindR_def bindL_def add.assoc Let_def)
qed simp

section \<open>Every input is parsed in finitely many turns\<close>

lemma read_le_at_bound: "read_le_at D data pos ctx sh n = Inr v \<Longrightarrow> 0 < n \<Longrightarrow> pos + n \<le> length data"
  by (cases n) (auto simp: read_le_at_def foldE_append dest!: safe_add_InrD read_u8_bound)

lemma decode_payload_bound: "decode_payload D data p0 pos vt n = Inr v \<Longrightarrow> 0 < n \<Longrightarrow> pos + n \<le> length data"
  by (auto simp: decode_payload_def sized_arm_def Let_def read_int_def read_uint_def read_uint_right_extend_def
      split: if_splits dest!: read_le_at_bound)

lemma decode_payload_value: "decode_payload D data p0 pos vt n = Inr v \<Longrightarrow> value_ok v"
  by (auto simp: decode_payload_def sized_arm_def Let_def split: if_splits)

lemma decode_primitive_bound:
  "decode_primitive_encoded_value D data pos = Inr (Some v, n) \<Longrightarrow> 0 < n \<and> pos + n \<le> length data \<and> value_ok v"
  by (auto simp: decode_primitive_encoded_value_def Let_def split: if_splits
      dest!: safe_add_InrD read_u8_bound dest: decode_payload_bound decode_payload_value)

lemma read_uleb128_bound: "read_uleb128 D data pos = Inr (k, n) \<Longrightarrow> 0 < n \<and> pos + n \<le> length data"
  by (auto simp: read_uleb128_def dest: read_uleb_bound)

lemma read_name_moves: "read_name D data c (st, cur) = Inr (st', cur') \<Longrightarrow> moves data cur cur'"
  by (cases "(D, data, c, (st, cur))" rule: read_name.cases)
    (auto simp: moves_def split: if_splits dest!: safe_add_InrD read_uleb128_bound)

lemma deliver_moves: "deliver_to_top D data v (st, cur) = Inr (st', cur') \<Longrightarrow> moves data cur cur'"
  by (auto simp: deliver_to_top_def dest: read_name_moves)

lemma complete_moves:
  "complete_frames D' data root s = Inr r \<Longrightarrow> D' = D \<Longrightarrow>
   case r of Inl res \<Rightarrow> \<exists>cur'. snd res = cur' - root \<and> moves data (snd s) cur' | Inr s' \<Rightarrow> moves data (snd s) (snd s')"
proof (induction D' data root s rule: complete_frames.induct)
  case (2 D' data root f st cur)
  show ?case
  proof (cases "frame_is_complete f \<and> st \<noteq> []")
    case True
    with "2.prems" obtain s' where d: "deliver_to_top D data (assemble_frame f) (st, cur) = Inr s'" "complete_frames D data root s' = Inr r"
      by (auto simp: Let_def)
    have "moves data cur (snd s')" using deliver_moves [of data "assemble_frame f" st cur "fst s'" "snd s'"] d(1) by simp
    moreover have "case r of Inl res \<Rightarrow> \<exists>cur'. snd res = cur' - root \<and> moves data (snd s') cur' | Inr s'' \<Rightarrow> moves data (snd s') (snd s'')"
      using "2.IH" [of "assemble_frame f" s'] True d "2.prems"(2) by simp
    ultimately show ?thesis by (auto split: sum.splits intro: moves_trans)
  qed (use "2.prems" in \<open>auto simp: moves_def Let_def split: if_splits\<close>)
qed (auto simp: moves_def)

lemma open_frame_bound: "open_frame D data C pos = Inr (f, body) \<Longrightarrow> pos < body \<and> body \<le> length data"
  by (auto simp: open_frame_def Let_def split: if_splits dest!: safe_add_InrD read_uleb128_bound)

lemma decode_next_bound:
  assumes "decode_next D data (st, cur) = Inr (st', cur')"
  shows "cur < cur' \<and> cur' \<le> length data"
proof -
  obtain mp adv where d: "decode_primitive_encoded_value D data cur = Inr (mp, adv)" using assms by (auto simp: decode_next_def)
  show ?thesis
  proof (cases mp)
    case None
    with assms d show ?thesis by (auto simp: decode_next_def split: if_splits dest: open_frame_bound)
  next
    case (Some v)
    have b: "0 < adv" "cur + adv \<le> length data" using decode_primitive_bound d Some by auto
    from assms d Some have "deliver_to_top D data v (st, cur + adv) = Inr (st', cur')"
      by (auto simp: decode_next_def dest!: safe_add_InrD)
    from deliver_moves [OF this] b show ?thesis by (auto simp: moves_def)
  qed
qed

lemma read_name_ok: "read_name D data c s = Inr s' \<Longrightarrow> list_all frame_ok (fst s) \<Longrightarrow> list_all frame_ok (fst s')"
  by (cases "(D, data, c, s)" rule: read_name.cases) (auto split: if_splits)

lemma put_child_ok: "put_child v st = Inr st' \<Longrightarrow> value_ok v \<Longrightarrow> list_all frame_ok st \<Longrightarrow> list_all frame_ok st'"
  by (cases "(v, st)" rule: put_child.cases)
    (auto simp: list_all_iff btree_insert_ok dest!: btree_insert_set, metis snd_conv)

lemma deliver_ok: "deliver_to_top D data v s = Inr s' \<Longrightarrow> value_ok v \<Longrightarrow> list_all frame_ok (fst s) \<Longrightarrow> list_all frame_ok (fst s')"
  by (auto simp: deliver_to_top_def dest!: read_name_ok dest: put_child_ok)

lemma assemble_frame_ok: "frame_ok f \<Longrightarrow> value_ok (assemble_frame f)"
  by (cases f) auto

lemma complete_ok:
  "complete_frames D' data root s = Inr r \<Longrightarrow> D' = D \<Longrightarrow> list_all frame_ok (fst s) \<Longrightarrow>
   case r of Inl res \<Rightarrow> value_ok (fst res) | Inr s' \<Rightarrow> list_all frame_ok (fst s')"
proof (induction D' data root s rule: complete_frames.induct)
  case (2 D' data root f st cur)
  have a: "value_ok (assemble_frame f)" using "2.prems"(3) by (simp add: assemble_frame_ok)
  show ?case
  proof (cases "frame_is_complete f \<and> st \<noteq> []")
    case True
    with "2.prems" obtain s' where d: "deliver_to_top D data (assemble_frame f) (st, cur) = Inr s'" "complete_frames D data root s' = Inr r"
      by (auto simp: Let_def)
    have "list_all frame_ok (fst s')" using deliver_ok [OF d(1) a] "2.prems"(3) by simp
    then show ?thesis using "2.IH" [of "assemble_frame f" s'] True d "2.prems"(2) by simp
  qed (use "2.prems" a in \<open>auto simp: Let_def split: if_splits\<close>)
qed auto

lemma open_frame_ok: "open_frame D data C pos = Inr (f, body) \<Longrightarrow> frame_ok f"
  by (auto simp: open_frame_def Let_def btree_ok_def split: if_splits)

lemma decode_next_ok:
  assumes "decode_next D data (st, cur) = Inr s'" and "list_all frame_ok st"
  shows "list_all frame_ok (fst s')"
proof -
  obtain mp adv where d: "decode_primitive_encoded_value D data cur = Inr (mp, adv)" using assms(1) by (auto simp: decode_next_def)
  show ?thesis
  proof (cases mp)
    case None
    with assms d show ?thesis by (auto simp: decode_next_def split: if_splits dest: open_frame_ok)
  next
    case (Some v)
    then have "value_ok v" using decode_primitive_bound d by auto
    with assms d Some show ?thesis by (auto simp: decode_next_def dest!: deliver_ok)
  qed
qed

lemma drive_total:
  assumes "root < cur" and "cur \<le> length data" and "list_all frame_ok st"
  shows "\<exists>r. drive_loop D data root (st, cur) = Some r \<and>
    (\<forall>v n. r = Inr (v, n) \<longrightarrow> value_ok v \<and> 0 < n \<and> root + n \<le> length data)"
  using assms
proof (induction "length data - cur" arbitrary: st cur rule: less_induct)
  case less
  note loop = drive_loop.simps [of D data root "(st, cur)"]
  show ?case
  proof (cases "collector_turn D data root (st, cur)")
    case (Inl e)
    then show ?thesis by (simp add: loop)
  next
    case (Inr r)
    then obtain s1 r1 where s1: "read_name D data ''iterative:annotation:name_idx'' (st, cur) = Inr s1"
      and r1: "complete_frames D data root s1 = Inr r1" by (auto simp: collector_turn_def)
    have m1: "moves data cur (snd s1)" using read_name_moves [of data _ st cur "fst s1" "snd s1"] s1 by simp
    note ok1 = complete_ok [OF r1 refl read_name_ok [OF s1]]
    show ?thesis
    proof (cases r1)
      case (Inl res)
      then have "r = Inl res" using Inr s1 r1 by (simp add: collector_turn_def)
      moreover obtain cur' where c: "snd res = cur' - root" "moves data (snd s1) cur'" using complete_moves [OF r1 refl] Inl by auto
      moreover have "value_ok (fst res)" using ok1 less.prems(3) Inl by simp
      moreover have "root < cur'" "cur' \<le> length data" using moves_trans [OF m1 c(2)] less.prems(1, 2) by (auto simp: moves_def)
      ultimately show ?thesis using Inr by (cases res) (simp add: loop)
    next
      case (Inr s2)
      then obtain s3 where s3: "decode_next D data s2 = Inr s3" "r = Inr s3"
        using \<open>collector_turn D data root (st, cur) = Inr r\<close> s1 r1 by (auto simp: collector_turn_def)
      have "moves data (snd s1) (snd s2)" using complete_moves [OF r1 refl] Inr by simp
      then have "cur \<le> snd s2" using m1 moves_trans by (fastforce simp: moves_def)
      moreover have b: "snd s2 < snd s3 \<and> snd s3 \<le> length data"
        using decode_next_bound [of data "fst s2" "snd s2" "fst s3" "snd s3"] s3 by simp
      moreover have "list_all frame_ok (fst s3)" using decode_next_ok [of data "fst s2" "snd s2" s3] s3(1) ok1 less.prems(3) Inr by simp
      ultimately have "\<exists>r. drive_loop D data root (fst s3, snd s3) = Some r \<and>
          (\<forall>v n. r = Inr (v, n) \<longrightarrow> value_ok v \<and> 0 < n \<and> root + n \<le> length data)"
        using less.prems(1) by (intro less.hyps) linarith+
      then show ?thesis using \<open>collector_turn D data root (st, cur) = Inr r\<close> s3(2) by (simp add: loop)
    qed
  qed
qed

lemma drive_collector_total:
  "open_frame D data C pos = Inr (f, body) \<Longrightarrow> \<exists>r. drive_collector_stack D data body f = Some r \<and>
    (\<forall>v n. r = Inr (v, n) \<longrightarrow> value_ok v \<and> 0 < n \<and> pos + n \<le> length data)"
  using drive_total [of pos body data "[f]"] open_frame_bound open_frame_ok open_frame_start
  by (simp add: drive_collector_stack_def)

lemma parse_total:
  "\<exists>r. parse_encoded_value D data pos = Some r \<and> (\<forall>v n. r = Inr (v, n) \<longrightarrow> value_ok v \<and> 0 < n \<and> pos + n \<le> length data)"
proof (cases "decode_primitive_encoded_value D data pos")
  case (Inr r)
  obtain mv n where r: "r = (mv, n)" by (cases r)
  show ?thesis
  proof (cases mv)
    case None
    show ?thesis
    proof (cases "open_frame D data root_ctx pos")
      case (Inr fb)
      obtain f body where "fb = (f, body)" by (cases fb)
      then show ?thesis using drive_collector_total [of data root_ctx pos f body] Inr None \<open>decode_primitive_encoded_value D data pos = Inr r\<close> r
        by (simp add: parse_encoded_value_def parse_encoded_value_composite_def bindL_def)
    qed (use Inr r None in \<open>simp add: parse_encoded_value_def parse_encoded_value_composite_def bindL_def\<close>)
  next
    case (Some v)
    then show ?thesis using Inr r decode_primitive_bound [of data pos v n] by (simp add: parse_encoded_value_def bindL_def)
  qed
qed (simp add: parse_encoded_value_def bindL_def)

end

section \<open>The size of an emitted value\<close>

lemma emit_primitive_sizes:
  "length (emit_signed tag r) \<le> 10" "length (emit_unsigned tag r) \<le> 10" "length (u64_to_le d) \<le> 9"
  using min_signed_range [of r] min_unsigned_range [of r] by (simp_all add: length_emit_signed length_emit_unsigned u64_to_le_def)

context leb128_codec
begin

lemma emit_task_size: "emit_task D t st = Inr (bs, st') \<Longrightarrow> length bs \<le> 10"
proof (cases "(D, t, st)" rule: emit_task.cases)
  have u: "length (common_write_uleb128 D k) \<le> 5" for k using write_uleb_length by blast
  assume e: "emit_task D t st = Inr (bs, st')"
  {
    case (1 D' v st)
    then show ?thesis using e u [of v] by simp
  next
    case (2 D' ty es st)
    then show ?thesis using e u [of "un_TypeIdx ty"] u [of "of_nat (length es)"] by auto
  next
    case (3 D' items st)
    then show ?thesis using e u [of "of_nat (length items)"] by auto
  next
    case (4 D' ann st)
    then show ?thesis using e by (auto split: if_splits)
  }
qed (auto simp: emit_primitive_sizes)

lemma emit_loop_size:
  "emit_loop D' st out = Inr bs \<Longrightarrow> D' = D \<Longrightarrow> length bs \<le> length out + 10 * sum_list (map task_weight st)"
proof (induction D' st out rule: emit_loop.induct)
  case (2 D' t st out)
  then obtain b st' where e: "emit_task D t st = Inr (b, st')" "emit_loop D st' (out @ b) = Inr bs" by auto
  with "2.IH" [of "(b, st')" b st'] "2.prems"(2) have "length bs \<le> length (out @ b) + 10 * sum_list (map task_weight st')" by simp
  then show ?case using emit_task_size [OF e(1)] emit_task_weight [OF e(1)] by simp
qed simp

lemma emit_size: "emit_encoded_value D v = Inr bs \<Longrightarrow> length bs \<le> 10 * weight v"
  using emit_loop_size [of D "[TValue v]" "[]" bs] by (simp add: emit_encoded_value_def)

end

section \<open>Properties\<close>

lemma foldl_max_sum:
  fixes f g :: "'a \<Rightarrow> nat"
  shows "(\<And>x. x \<in> set xs \<Longrightarrow> f x \<le> g x) \<Longrightarrow> foldl max n (map f xs) \<le> n + sum_list (map g xs)"
proof (induction xs arbitrary: n)
  case (Cons x xs)
  have "foldl max (max n (f x)) (map f xs) \<le> max n (f x) + sum_list (map g xs)" using Cons by simp
  moreover have "max n (f x) \<le> n + g x" using Cons.prems by (simp add: trans_le_add2)
  ultimately show ?case by simp
qed simp

lemma depth_weight: "depth v \<le> weight v" "ann_depth a \<le> ann_weight a"
proof (induction v and a rule: depth_ann_depth.induct)
  case (1 vs)
  then show ?case using foldl_max_sum [of vs depth weight 0] by simp
next
  case (4 t es)
  then show ?case using foldl_max_sum [of es "\<lambda>e. depth (snd e)" "\<lambda>e. 1 + weight (snd e)" 0] by (simp add: le_SucI)
qed auto

text \<open>C35 (value_parse_total). Parsing an encoded value ends on every input, whatever the nesting and however malformed: the
  loop gives an error or a value; a value has its element names in order and without duplicates, takes at
  least one byte and lies inside the data.\<close>

theorem value_parse_total:
  assumes "dex_deps D"
  shows "\<exists>r. parse_encoded_value D data pos = Some r \<and>
    (\<forall>v n. r = Inr (v, n) \<longrightarrow> value_ok v \<and> 0 < n \<and> pos + n \<le> length data)"
  by (rule dex_deps.parse_total [OF assms])

text \<open>C34 (value_roundtrip). What the work-stack emitter writes for a value, the iterative parser reads back, at any
  position of a buffer, when the nesting does not exceed the frame cap.\<close>

theorem value_roundtrip:
  assumes "dex_deps D" and "emit_encoded_value D v = Inr bs" and "value_ok v" and "depth v \<le> PARSE_STACK_FRAME_CAP"
    and "fits data" and "at_off data pos bs"
  shows "parse_encoded_value D data pos = Some (Inr (v, length bs))"
proof -
  obtain ws where "encodes D v (bs, ws)" using emit_encodes [OF assms(2, 3)] by blast
  from dex_deps.parse_encodes [OF assms(1) this assms(5)] assms(4, 6) show ?thesis by simp
qed

text \<open>C36 (value_reemit). A parsed value of at most 65536 tasks can be emitted again, and the emitted bytes
  parse to the same value: the work-stack caps of the two sides do not cut off such values.\<close>

theorem value_reemit:
  assumes "dex_deps D" and "parse_encoded_value D data pos = Some (Inr (v, n))" and "weight v \<le> EMIT_STACK_CAP"
  shows "\<exists>bs. emit_encoded_value D v = Inr bs \<and> parse_encoded_value D bs 0 = Some (Inr (v, length bs))"
proof -
  have ok: "value_ok v" using dex_deps.parse_total [OF assms(1), of data pos] assms(2) by auto
  obtain bs where bs: "emit_encoded_value D v = Inr bs"
    using emit_loop_ok [of "[TValue v]" D "[]"] assms(3) by (auto simp: emit_encoded_value_def)
  obtain ws where e: "encodes D v (bs, ws)" using emit_encodes [OF bs ok] by blast
  have "length bs \<le> 10 * weight v" using leb128_codec.emit_size [OF dex_deps.axioms(3) [OF assms(1)] bs] .
  then have "fits bs" "at_off bs 0 bs" using assms(3) by (simp_all add: fits_def at_off_def)
  with dex_deps.parse_encodes [OF assms(1) e, of bs 0] depth_weight(1) [of v] assms(3) bs show ?thesis by simp
qed

text \<open>The emitter's cap counts siblings as well as nesting: a flat array value of more than 65536 elements is
  refused, although the parser, whose cap counts open frames only, accepts arrays of any length.\<close>

theorem flat_array_refused:
  assumes "EMIT_STACK_CAP < length items" and "length items < 2 ^ 32"
  shows "emit_encoded_value D (EV_Array items)
    = Inl (UnrepresentableIR ''encoded_array emit work-stack exceeded cap (hand-built IR too deeply nested)'')"
proof -
  have "items \<noteq> []" using assms(1) by auto
  then show ?thesis using push_items_full [of "[]" items] assms by (simp add: emit_encoded_value_def u32_count_def)
qed

section \<open>Witnesses\<close>

text \<open>An array that holds an annotation.\<close>

definition sample_value :: EncodedValue where
  "sample_value = EV_Array [EV_Int 0xFFFFFF00, EV_Annotation (EncodedAnnotation (TypeIdx 3)
     [(StringIdx 1, EV_String (StringIdx 300)), (StringIdx 7, EV_Boolean True)]), EV_Null]"

lemma sample_value_ok: "value_ok sample_value" "weight sample_value = 9" "depth sample_value = 2"
  by (simp_all add: sample_value_def btree_ok_def less_StringIdx_def)

lemma sample_value_bytes:
  obtains bs where "emit_encoded_value (std_deps h) sample_value = Inr bs" "fits (9 # bs)" "at_off (9 # bs) 1 bs"
proof -
  obtain bs where bs: "emit_encoded_value (std_deps h) sample_value = Inr bs"
    using emit_loop_ok [of "[TValue sample_value]" "std_deps h" "[]"] sample_value_ok(2) by (auto simp: emit_encoded_value_def)
  moreover have "fits (9 # bs)" using std.emit_size [OF bs] sample_value_ok(2) by (simp add: fits_def)
  moreover have "at_off (9 # bs) 1 bs" using at_offI [of "[9]" bs "[]"] by simp
  ultimately show thesis by (rule that)
qed

theorem value_parse_total_witness:
  "\<exists>r. parse_encoded_value (std_deps (\<lambda>_. [])) [0x1C, 0x02, 0x1D] 0 = Some r"
  using value_parse_total [OF std.dex_deps_axioms] by blast

theorem value_roundtrip_witness:
  "\<exists>bs. emit_encoded_value (std_deps (\<lambda>_. [])) sample_value = Inr bs
     \<and> parse_encoded_value (std_deps (\<lambda>_. [])) (9 # bs) 1 = Some (Inr (sample_value, length bs))"
proof -
  obtain bs where bs: "emit_encoded_value (std_deps (\<lambda>_. [])) sample_value = Inr bs" "fits (9 # bs)" "at_off (9 # bs) 1 bs"
    by (rule sample_value_bytes)
  from value_roundtrip [OF std.dex_deps_axioms bs(1) sample_value_ok(1) _ bs(2, 3)] bs(1) sample_value_ok(3) show ?thesis by simp
qed

theorem value_reemit_witness:
  "\<exists>bs. emit_encoded_value (std_deps (\<lambda>_. [])) (EV_Boolean True) = Inr bs
     \<and> parse_encoded_value (std_deps (\<lambda>_. [])) bs 0 = Some (Inr (EV_Boolean True, length bs))"
proof -
  have "parse_encoded_value (std_deps (\<lambda>_. [])) [0xFF] 0 = Some (Inr (EV_Boolean True, 1))"
    by (simp add: parse_encoded_value_def decode_primitive_encoded_value_def read_u8_def std_deps_def get_at_def bindL_def Let_def)
  from value_reemit [OF std.dex_deps_axioms this] show ?thesis by simp
qed

theorem flat_array_refused_witness:
  "emit_encoded_value (std_deps (\<lambda>_. [])) (EV_Array (replicate 65537 EV_Null))
    = Inl (UnrepresentableIR ''encoded_array emit work-stack exceeded cap (hand-built IR too deeply nested)'')"
  by (rule flat_array_refused) simp_all

end
