(* ===== verification/Dex_Annotation.thy ===== *)
theory Dex_Annotation
  imports Dex_Value_Parse Dex_Seq
begin

text \<open>
  The rest of \<open>src/src/annotation.rs\<close>: the walk that recovers the payload widths of a parsed value
  from its bytes, annotation sets and annotation directories, with their emitters in
  \<open>src/src/emit_dex.rs\<close>. The emitters that replay widths are in \<open>Dex_Value_Tree\<close>; here they meet
  the walk: an item emitted with any widths parses back, and emitting it again with the collected widths
  gives the same bytes.
\<close>

section \<open>Collecting payload widths\<close>

text \<open>The walk gives the position after the value and the widths it pushes.\<close>

fun walk_one_for_widths :: "deps \<Rightarrow> byte list \<Rightarrow> nat \<Rightarrow> EncodedValue \<Rightarrow> DexError + (nat \<times> byte list)"
  and walk_children :: "deps \<Rightarrow> byte list \<Rightarrow> nat \<Rightarrow> EncodedValue list \<Rightarrow> DexError + (nat \<times> byte list)"
  and walk_elements :: "deps \<Rightarrow> byte list \<Rightarrow> string \<Rightarrow> nat \<Rightarrow> (StringIdx \<times> EncodedValue) list \<Rightarrow> DexError + (nat \<times> byte list)" where
  "walk_one_for_widths D data pos val =
     bindE (read_u8 D data pos) (\<lambda>header.
     let value_arg = unat (drop_bit 5 header)
     in bindE (safe_add value_arg 1 ''widths:value_arg+1'') (\<lambda>sz.
     bindE (safe_add pos 1 ''widths:header'') (\<lambda>pos1.
     case val of
       EV_Null \<Rightarrow> Inr (pos1, [])
     | EV_Boolean _ \<Rightarrow> Inr (pos1, [])
     | EV_Array children \<Rightarrow>
         bindE (read_uleb128 D data pos1) (\<lambda>(_, len).
         bindE (safe_add pos1 len ''widths:array:size'') (\<lambda>pos2.
         walk_children D data pos2 children))
     | EV_Annotation (EncodedAnnotation _ es) \<Rightarrow>
         bindE (read_uleb128 D data pos1) (\<lambda>(_, l1).
         bindE (safe_add pos1 l1 ''widths:annotation:type_idx'') (\<lambda>pos2.
         bindE (read_uleb128 D data pos2) (\<lambda>(_, l2).
         bindE (safe_add pos2 l2 ''widths:annotation:size'') (\<lambda>pos3.
         walk_elements D data ''widths:annotation:name_idx'' pos3 es))))
     | _ \<Rightarrow>
         let w = (if sz < 256 then of_nat sz else 255)
         in bindE (safe_add pos1 sz ''widths:primitive_payload'') (\<lambda>pos2. Inr (pos2, [w])))))"
| "walk_children D data pos [] = Inr (pos, [])"
| "walk_children D data pos (v # vs) =
     bindE (walk_one_for_widths D data pos v) (\<lambda>(pos1, ws).
     bindE (walk_children D data pos1 vs) (\<lambda>(pos2, ws'). Inr (pos2, ws @ ws')))"
| "walk_elements D data ctx pos [] = Inr (pos, [])"
| "walk_elements D data ctx pos ((_, child) # es) =
     bindE (read_uleb128 D data pos) (\<lambda>(_, ln).
     bindE (safe_add pos ln ctx) (\<lambda>pos1.
     bindE (walk_one_for_widths D data pos1 child) (\<lambda>(pos2, ws).
     bindE (walk_elements D data ctx pos2 es) (\<lambda>(pos3, ws'). Inr (pos3, ws @ ws')))))"

declare walk_one_for_widths.simps [simp del]

definition collect_encoded_value_widths_pre_order :: "deps \<Rightarrow> byte list \<Rightarrow> u32 \<Rightarrow> EncodedValue \<Rightarrow> DexError + byte list" where
  "collect_encoded_value_widths_pre_order D data start root =
     bindE (walk_one_for_widths D data (unat start) root) (\<lambda>(_, widths). Inr widths)"

definition collect_annotation_item_widths :: "deps \<Rightarrow> byte list \<Rightarrow> u32 \<Rightarrow> EncodedAnnotation \<Rightarrow> DexError + byte list" where
  "collect_annotation_item_widths D data body_start ann =
     bindE (read_uleb128 D data (unat body_start)) (\<lambda>(_, l1).
     bindE (safe_add (unat body_start) l1 ''ann_item:widths:type_idx'') (\<lambda>pos1.
     bindE (read_uleb128 D data pos1) (\<lambda>(_, l2).
     bindE (safe_add pos1 l2 ''ann_item:widths:size'') (\<lambda>pos2.
     bindE (walk_elements D data ''ann_item:widths:name_idx'' pos2 (elements ann)) (\<lambda>(_, widths). Inr widths)))))"

definition collect_encoded_array_widths_pre_order :: "deps \<Rightarrow> byte list \<Rightarrow> u32 \<Rightarrow> EncodedValue list \<Rightarrow> DexError + byte list" where
  "collect_encoded_array_widths_pre_order D data start values =
     bindE (read_uleb128 D data (unat start)) (\<lambda>(_, len).
     bindE (safe_add (unat start) len ''encoded_array:widths:size'') (\<lambda>pos.
     bindE (walk_children D data pos values) (\<lambda>(_, widths). Inr widths)))"

section \<open>The walk follows the format\<close>

text \<open>A primitive is a header byte that holds the payload width, and the payload.\<close>

definition zero_payload :: "EncodedValue \<Rightarrow> bool" where
  "zero_payload v \<longleftrightarrow> (case v of EV_Null \<Rightarrow> True | EV_Boolean _ \<Rightarrow> True | _ \<Rightarrow> False)"

definition composite :: "EncodedValue \<Rightarrow> bool" where
  "composite v \<longleftrightarrow> (case v of EV_Array _ \<Rightarrow> True | EV_Annotation _ \<Rightarrow> True | _ \<Rightarrow> False)"

definition prim_shape :: "EncodedValue \<Rightarrow> byte list \<Rightarrow> byte list \<Rightarrow> bool" where
  "prim_shape v bs ws \<longleftrightarrow> \<not> composite v \<and> (\<exists>h pay. bs = h # pay \<and>
     (if zero_payload v then pay = [] \<and> ws = []
      else unat (drop_bit 5 h) + 1 = length pay \<and> ws = [of_nat (length pay)]))"

lemma prim_shapeI:
  assumes "tag AND 0x1F = tag" and "1 \<le> n" "n \<le> 8" and "length pay = n" and "\<not> composite v" and "\<not> zero_payload v"
  shows "prim_shape v (header_byte tag n # pay) [of_nat n]"
  using assms header_byte_parts(2) [OF assms(1, 2, 3)] by (auto simp: prim_shape_def)

lemma prim_shape_params:
  assumes "width_params v = Some (tag, raw, mn, mx)" and "1 \<le> n" "n \<le> 8"
  shows "prim_shape v (header_byte tag n # write_le_bytes raw n) [of_nat n]"
proof (rule prim_shapeI [OF width_params_tag [OF assms(1)] assms(2, 3)])
  show "\<not> composite v" "\<not> zero_payload v" using assms(1) by (auto simp: composite_def zero_payload_def split: EncodedValue.splits)
qed (simp add: length_write_le_bytes assms(3))

lemma prim_shape_minimal:
  assumes "emit_primitive v = Some bs"
  shows "prim_shape v bs (prim_widths bs)"
proof (cases "width_params v")
  case (Some p)
  obtain tag raw mn mx where p: "width_params v = Some (tag, raw, mn, mx)" using Some by (cases p) auto
  have bs: "bs = header_byte tag mn # write_le_bytes raw mn" using emit_primitive_min [OF p] assms by simp
  have r: "1 \<le> mn" "mn \<le> 8" using width_params_range [OF p] by auto
  then have "prim_widths bs = [of_nat mn]" by (auto simp: bs prim_widths_def length_write_le_bytes)
  then show ?thesis using prim_shape_params [OF p r] bs by simp
next
  case None
  show ?thesis
    using None assms prim_shapeI [of "0x10" 4 "u32_to_le f" "EV_Float f" for f] prim_shapeI [of "0x11" 8 "u64_to_le d" "EV_Double d" for d]
    by (cases v) (auto simp: prim_shape_def prim_widths_def u64_to_le_def composite_def zero_payload_def)
qed

lemma prim_shape_wide:
  assumes "emit_encoded_value_at_width v w = Some bs"
  shows "prim_shape v bs [w]"
proof -
  have n: "1 \<le> unat w" "unat w \<le> 8" "of_nat (unat w) = w"
    using assms by (auto simp: emit_encoded_value_at_width_def Let_def split: if_splits)
  show ?thesis
  proof (cases "width_params v")
    case (Some p)
    obtain tag raw mn mx where p: "width_params v = Some (tag, raw, mn, mx)" using Some by (cases p) auto
    have "bs = header_byte tag (unat w) # write_le_bytes raw (unat w)"
      using assms p by (cases v) (auto simp: emit_encoded_value_at_width_def Let_def split: if_splits)
    with prim_shape_params [OF p n(1, 2)] n(3) show ?thesis by simp
  next
    case None
    from None assms n consider (F) x where "v = EV_Float x" "emit_trimmed 0x10 4 (u32_to_le x) (unat w) = Some bs"
      | (Db) x where "v = EV_Double x" "emit_trimmed 0x11 8 (u64_to_le x) (unat w) = Some bs"
      by (cases v) (auto simp: emit_encoded_value_at_width_def)
    then show ?thesis
    proof cases
      case F
      from trimmed_value [OF F(2)] n F(1) prim_shapeI [of "0x10" "unat w" "drop (4 - unat w) (u32_to_le x)" v]
      show ?thesis by (simp add: composite_def zero_payload_def)
    next
      case Db
      have "length (u64_to_le x) = 8" by (simp add: u64_to_le_def)
      with trimmed_value [OF Db(2)] n Db(1) prim_shapeI [of "0x11" "unat w" "drop (8 - unat w) (u64_to_le x)" v]
      show ?thesis by (simp add: composite_def zero_payload_def)
    qed
  qed
qed

context dex_deps
begin

lemma walk_prim:
  assumes "prim_shape v bs ws" and "fits data" and "at_off data pos bs"
  shows "walk_one_for_widths D data pos v = Inr (pos + length bs, ws)"
proof -
  obtain h pay where bs: "bs = h # pay" and s: "if zero_payload v then pay = [] \<and> ws = []
      else unat (drop_bit 5 h) + 1 = length pay \<and> ws = [of_nat (length pay)]"
    using assms(1) by (auto simp: prim_shape_def)
  have r: "read_u8 D data pos = Inr h" using read_u8_at assms(2, 3) bs by blast
  have l: "pos + length bs < 2 ^ 63" using at_off_len [OF assms(3)] assms(2) by (simp add: fits_def)
  have "unat (drop_bit 5 h) = unat h div 32"
    by (simp only: unsigned_drop_bit_eq) (simp add: drop_bit_eq_div take_bit_nat_eq_self unat_byte_lt)
  then have u: "unat (drop_bit 5 h) < 8" using unat_byte_lt [of h] by simp
  have w: "unat (drop_bit 5 h) + 1 < 18446744073709551616" "pos + 1 < 18446744073709551616" using u l bs by simp_all
  show ?thesis using assms(1) s r l u w
    by (cases v) (auto simp: walk_one_for_widths.simps prim_shape_def zero_payload_def composite_def Let_def bs)
qed

lemma walk_children_at:
  "list_all2 (\<lambda>v p. \<forall>pos. at_off data pos (fst p) \<longrightarrow> walk_one_for_widths D data pos v = Inr (pos + length (fst p), snd p)) vs ps \<Longrightarrow>
   at_off data pos (concat (map fst ps)) \<Longrightarrow>
   walk_children D data pos vs = Inr (pos + length (concat (map fst ps)), concat (map snd ps))"
  by (induction vs ps arbitrary: pos rule: list_all2_induct) (auto simp: at_off_append add.assoc)

lemma walk_elements_at:
  "list_all2 (\<lambda>e p. \<exists>b. (\<forall>pos. at_off data pos b \<longrightarrow> walk_one_for_widths D data pos (snd e) = Inr (pos + length b, snd p))
      \<and> fst p = common_write_uleb128 D (un_StringIdx (fst e)) @ b) es ps \<Longrightarrow>
   fits data \<Longrightarrow> at_off data pos (concat (map fst ps)) \<Longrightarrow>
   walk_elements D data ctx pos es = Inr (pos + length (concat (map fst ps)), concat (map snd ps))"
proof (induction es ps arbitrary: pos rule: list_all2_induct)
  case (Cons e es p ps)
  obtain nm v where e: "e = (nm, v)" by (cases e)
  from Cons.hyps(1) e obtain b where b: "\<forall>pos. at_off data pos b \<longrightarrow> walk_one_for_widths D data pos v = Inr (pos + length b, snd p)"
    "fst p = common_write_uleb128 D (un_StringIdx nm) @ b" by auto
  let ?u = "common_write_uleb128 D (un_StringIdx nm)"
  have at: "at_off data pos ?u" "at_off data (pos + length ?u) b" "at_off data (pos + length ?u + length b) (concat (map fst ps))"
    using Cons.prems(2) b(2) by (simp_all add: at_off_append add.assoc)
  have "pos + length ?u < 2 ^ 63" using at_off_len [OF at(1)] Cons.prems(1) by (simp add: fits_def)
  with read_uleb128_at [OF Cons.prems(1) at(1)] b at(2) Cons.IH [OF Cons.prems(1) at(3)] e show ?case
    by (simp add: add.assoc)
qed simp

lemma walk_encodes:
  "encodes D v p \<Longrightarrow> fits data \<Longrightarrow> at_off data pos (fst p) \<Longrightarrow> walk_one_for_widths D data pos v = Inr (pos + length (fst p), snd p)"
proof (induction v p arbitrary: pos rule: encodes.induct)
  case (minimal v bs)
  then show ?case using walk_prim [OF prim_shape_minimal] by simp
next
  case (wide v w bs)
  then show ?case using walk_prim [OF prim_shape_wide] by simp
next
  case (array vs ps)
  let ?u = "common_write_uleb128 D (of_nat (length vs))"
  have l: "list_all2 (\<lambda>v p. \<forall>pos. at_off data pos (fst p) \<longrightarrow> walk_one_for_widths D data pos v = Inr (pos + length (fst p), snd p)) vs ps"
    using array(1) by (rule list_all2_mono) (use array.prems(1) in auto)
  have at: "at_off data pos (0x1C # ?u @ concat (map fst ps))" using array.prems(2) by simp
  note u = at_off_uleb [OF array.prems(1) at_off_tail [OF at]]
  have "pos + 1 < 2 ^ 63" using at_off_len [OF at] array.prems(1) by (simp add: fits_def)
  with read_u8_at [OF array.prems(1) at] u walk_children_at [OF l u [THEN conjunct2, THEN conjunct2]] show ?case
    by (simp add: walk_one_for_widths.simps Let_def add.assoc)
next
  case (annotation es ps t)
  let ?u = "common_write_uleb128 D (un_TypeIdx t)" and ?n = "common_write_uleb128 D (of_nat (length es))"
  have l: "list_all2 (\<lambda>e p. \<exists>b. (\<forall>pos. at_off data pos b \<longrightarrow> walk_one_for_widths D data pos (snd e) = Inr (pos + length b, snd p))
      \<and> fst p = common_write_uleb128 D (un_StringIdx (fst e)) @ b) es ps"
    using annotation(1) by (rule list_all2_mono) (use annotation.prems(1) in auto)
  have at: "at_off data pos (0x1D # ?u @ ?n @ concat (map fst ps))" using annotation.prems(2) by simp
  note u = at_off_uleb [OF annotation.prems(1) at_off_tail [OF at]]
  note n = at_off_uleb [OF annotation.prems(1) u [THEN conjunct2, THEN conjunct2]]
  have "pos + 1 < 2 ^ 63" using at_off_len [OF at] annotation.prems(1) by (simp add: fits_def)
  with read_u8_at [OF annotation.prems(1) at] u n walk_elements_at [OF l annotation.prems(1) n [THEN conjunct2, THEN conjunct2]] show ?case
    by (simp add: walk_one_for_widths.simps Let_def add.assoc)
qed

end

section \<open>Annotation sets\<close>

text \<open>A loop that reads one \<open>u32\<close> after the other.\<close>

definition read_word :: "deps \<Rightarrow> string \<Rightarrow> byte list \<Rightarrow> unit \<Rightarrow> nat \<Rightarrow> DexError + (u32 \<times> unit \<times> nat)" where
  "read_word D ctx data _ pos =
     bindE (read_u32 D data pos) (\<lambda>off. bindE (safe_add pos 4 ctx) (\<lambda>pos'. Inr (off, (), pos')))"

definition parse_annotation_set :: "deps \<Rightarrow> byte list \<Rightarrow> u32 \<Rightarrow> DexError + u32 list" where
  "parse_annotation_set D data offset =
     (if offset = 0 then Inr []
      else
        bindE (read_u32 D data (unat offset)) (\<lambda>sz.
        bindE (safe_add (unat offset) 4 ''annotation:set:size'') (\<lambda>pos.
        bindE (bound_count D sz 4 (length data) ''annotation_set'') (\<lambda>entry_count.
        bindE (read_seq (read_word D ''annotation:set:entry'' data) entry_count () pos) (\<lambda>(entries, _). Inr entries)))))"

text \<open>The count is cast to 32 bits.\<close>

definition emit_annotation_set_bytes :: "u32 list \<Rightarrow> byte list" where
  "emit_annotation_set_bytes absolute_offs = u32_to_le (of_nat (length absolute_offs)) @ words_to_le absolute_offs"

section \<open>Annotation directories\<close>

record FieldAnnotation =
  fa_field_idx :: FieldIdx
  fa_annotations_off :: u32

record MethodAnnotation =
  ma_method_idx :: MethodIdx
  ma_annotations_off :: u32

record ParameterAnnotation =
  pa_method_idx :: MethodIdx
  pa_annotations_off :: u32

record AnnotationDirectoryItem =
  class_annotations_off :: u32
  dir_fields :: "FieldAnnotation list"
  dir_methods :: "MethodAnnotation list"
  dir_parameters :: "ParameterAnnotation list"

text \<open>The three loops of the parser differ in the type they push: \<open>mk\<close> builds it.\<close>

definition read_dir_entry ::
  "deps \<Rightarrow> (u32 \<Rightarrow> u32 \<Rightarrow> 'a) \<Rightarrow> string \<Rightarrow> string \<Rightarrow> byte list \<Rightarrow> unit \<Rightarrow> nat \<Rightarrow> DexError + ('a \<times> unit \<times> nat)" where
  "read_dir_entry D mk idx_ctx off_ctx data _ pos =
     bindE (read_u32 D data pos) (\<lambda>idx.
     bindE (safe_add pos 4 idx_ctx) (\<lambda>pos1.
     bindE (read_u32 D data pos1) (\<lambda>off.
     bindE (safe_add pos1 4 off_ctx) (\<lambda>pos2.
     Inr (mk idx off, (), pos2)))))"

definition mk_field :: "u32 \<Rightarrow> u32 \<Rightarrow> FieldAnnotation" where
  "mk_field idx off = \<lparr>fa_field_idx = FieldIdx idx, fa_annotations_off = off\<rparr>"

definition mk_method :: "u32 \<Rightarrow> u32 \<Rightarrow> MethodAnnotation" where
  "mk_method idx off = \<lparr>ma_method_idx = MethodIdx idx, ma_annotations_off = off\<rparr>"

definition mk_parameter :: "u32 \<Rightarrow> u32 \<Rightarrow> ParameterAnnotation" where
  "mk_parameter idx off = \<lparr>pa_method_idx = MethodIdx idx, pa_annotations_off = off\<rparr>"

definition parse_annotation_directory :: "deps \<Rightarrow> byte list \<Rightarrow> u32 \<Rightarrow> DexError + AnnotationDirectoryItem" where
  "parse_annotation_directory D data offset =
     (let p0 = unat offset in
      bindE (read_u32 D data p0) (\<lambda>class_off.
      bindE (safe_add p0 4 ''annotation:dir:class_annotations_off'') (\<lambda>p1.
      bindE (read_u32 D data p1) (\<lambda>fields_size.
      bindE (safe_add p1 4 ''annotation:dir:fields_size'') (\<lambda>p2.
      bindE (read_u32 D data p2) (\<lambda>methods_size.
      bindE (safe_add p2 4 ''annotation:dir:methods_size'') (\<lambda>p3.
      bindE (read_u32 D data p3) (\<lambda>parameters_size.
      bindE (safe_add p3 4 ''annotation:dir:parameters_size'') (\<lambda>p4.
      let combined = unat fields_size + unat methods_size + unat parameters_size
      in if combined > length data div 8
         then Inl (AnnotationDirectoryAllocationCap combined (length data))
         else
           bindE (bound_count D fields_size 8 (length data) ''annotation_fields'') (\<lambda>fields_count.
           bindE (read_seq (read_dir_entry D mk_field ''annotation:dir:field_idx'' ''annotation:dir:field_annotations_off'' data)
                    fields_count () p4) (\<lambda>(fs, p5).
           bindE (bound_count D methods_size 8 (length data) ''annotation_methods'') (\<lambda>methods_count.
           bindE (read_seq (read_dir_entry D mk_method ''annotation:dir:method_idx'' ''annotation:dir:method_annotations_off'' data)
                    methods_count () p5) (\<lambda>(ms, p6).
           bindE (bound_count D parameters_size 8 (length data) ''annotation_parameters'') (\<lambda>parameters_count.
           bindE (read_seq (read_dir_entry D mk_parameter ''annotation:dir:param_method_idx'' ''annotation:dir:param_annotations_off'' data)
                    parameters_count () p6) (\<lambda>(ps, _).
           Inr \<lparr>class_annotations_off = class_off, dir_fields = fs, dir_methods = ms, dir_parameters = ps\<rparr>)))))))))))))))"

text \<open>The emitter takes the offsets from separate lists; \<open>zip\<close> stops at the shorter one, as in the source.\<close>

definition entry_bytes :: "u32 \<times> u32 \<Rightarrow> byte list" where
  "entry_bytes e = u32_to_le (fst e) @ u32_to_le (snd e)"

definition emit_annotation_directory_bytes ::
  "AnnotationDirectoryItem \<Rightarrow> u32 \<Rightarrow> u32 list \<Rightarrow> u32 list \<Rightarrow> u32 list \<Rightarrow> DexEmitError + byte list" where
  "emit_annotation_directory_bytes dir class_abs field_offs method_offs param_offs =
     bindE (u32_count ''annotation_directory'' ''fields_size exceeds u32'' (length (dir_fields dir))) (\<lambda>nf.
     bindE (u32_count ''annotation_directory'' ''methods_size exceeds u32'' (length (dir_methods dir))) (\<lambda>nm.
     bindE (u32_count ''annotation_directory'' ''parameters_size exceeds u32'' (length (dir_parameters dir))) (\<lambda>np.
     Inr (u32_to_le class_abs @ u32_to_le nf @ u32_to_le nm @ u32_to_le np
       @ concat (map entry_bytes (zip (map (un_FieldIdx \<circ> fa_field_idx) (dir_fields dir)) field_offs))
       @ concat (map entry_bytes (zip (map (un_MethodIdx \<circ> ma_method_idx) (dir_methods dir)) method_offs))
       @ concat (map entry_bytes (zip (map (un_MethodIdx \<circ> pa_method_idx) (dir_parameters dir)) param_offs))))))"

text \<open>The directory with the offsets an emission gave it.\<close>

definition retarget :: "AnnotationDirectoryItem \<Rightarrow> u32 \<Rightarrow> u32 list \<Rightarrow> u32 list \<Rightarrow> u32 list \<Rightarrow> AnnotationDirectoryItem" where
  "retarget dir class_abs field_offs method_offs param_offs =
     \<lparr>class_annotations_off = class_abs,
      dir_fields = map (\<lambda>(f, off). f\<lparr>fa_annotations_off := off\<rparr>) (zip (dir_fields dir) field_offs),
      dir_methods = map (\<lambda>(m, off). m\<lparr>ma_annotations_off := off\<rparr>) (zip (dir_methods dir) method_offs),
      dir_parameters = map (\<lambda>(p, off). p\<lparr>pa_annotations_off := off\<rparr>) (zip (dir_parameters dir) param_offs)\<rparr>"

context dex_deps
begin

lemma read_words_at:
  "fits data \<Longrightarrow> at_off data pos (words_to_le ws) \<Longrightarrow>
   read_seq (read_word D ctx data) (length ws) () pos = Inr (ws, pos + 4 * length ws)"
proof (induction ws arbitrary: pos)
  case (Cons w ws)
  then have at: "at_off data pos (u32_to_le w)" "at_off data (pos + 4) (words_to_le ws)"
    by (simp_all add: words_to_le_def at_off_append)
  have "pos + 4 < 2 ^ 63" using at_off_len [OF at(1)] Cons.prems(1) by (simp add: fits_def)
  with read_u32_at [OF Cons.prems(1) at(1)] Cons.IH [OF Cons.prems(1) at(2)] show ?case by (simp add: read_word_def)
qed simp

lemma annotation_set_at:
  assumes "fits data" and "at_off data (unat off) (emit_annotation_set_bytes es)" and "off \<noteq> 0" and "length es < 2 ^ 32"
  shows "parse_annotation_set D data off = Inr es"
proof -
  have at: "at_off data (unat off) (u32_to_le (of_nat (length es)))" "at_off data (unat off + 4) (words_to_le es)"
    using assms(2) by (simp_all add: emit_annotation_set_bytes_def at_off_append)
  have l: "unat off + 4 + 4 * length es < 2 ^ 63" "4 * length es \<le> length data"
    using at_off_len [OF at(2)] assms(1) by (simp_all add: fits_def)
  have "bound_count D (of_nat (length es)) 4 (length data) ''annotation_set'' = Inr (length es)"
    using bound_count_fits [of 4 "length data" "of_nat (length es)"] assms(1) l unat_of_nat_u32 [OF assms(4)]
    by (simp add: fits_def mult.commute)
  with read_u32_at [OF assms(1) at(1)] read_words_at [OF assms(1) at(2)] l assms(3) show ?thesis
    by (simp add: parse_annotation_set_def)
qed

lemma read_entries_at:
  "fits data \<Longrightarrow> at_off data pos (concat (map entry_bytes es)) \<Longrightarrow>
   read_seq (read_dir_entry D mk c c' data) (length es) () pos = Inr (map (\<lambda>(i, off). mk i off) es, pos + 8 * length es)"
proof (induction es arbitrary: pos)
  case (Cons e es)
  obtain i off where e: "e = (i, off)" by (cases e)
  from Cons.prems(2) have at: "at_off data pos (u32_to_le i)" "at_off data (pos + 4) (u32_to_le off)"
    "at_off data (pos + 8) (concat (map entry_bytes es))"
    using e entry_bytes_def [of e] by (simp_all add: at_off_append add.assoc)
  have "pos + 8 < 2 ^ 63" using at_off_len [OF at(2)] Cons.prems(1) by (simp add: fits_def)
  with read_u32_at [OF Cons.prems(1) at(1)] read_u32_at [OF Cons.prems(1) at(2)] Cons.IH [OF Cons.prems(1) at(3)] e
  show ?case by (simp add: read_dir_entry_def add.assoc)
qed simp

end

lemma length_entries [simp]: "length (concat (map entry_bytes es)) = 8 * length es"
  by (induction es) (simp_all add: entry_bytes_def)

lemma zip_mk:
  "map (\<lambda>(i, off). mk_field i off) (zip (map (un_FieldIdx \<circ> fa_field_idx) fs) offs) = map (\<lambda>(f, off). f\<lparr>fa_annotations_off := off\<rparr>) (zip fs offs)"
  "map (\<lambda>(i, off). mk_method i off) (zip (map (un_MethodIdx \<circ> ma_method_idx) ms) offs) = map (\<lambda>(m, off). m\<lparr>ma_annotations_off := off\<rparr>) (zip ms offs)"
  "map (\<lambda>(i, off). mk_parameter i off) (zip (map (un_MethodIdx \<circ> pa_method_idx) ps) offs) = map (\<lambda>(p, off). p\<lparr>pa_annotations_off := off\<rparr>) (zip ps offs)"
  by (auto simp: zip_map1 mk_field_def mk_method_def mk_parameter_def)

context dex_deps
begin

lemma directory_at:
  assumes "emit_annotation_directory_bytes dir c fo mo po = Inr bs" and "fits data" and "at_off data (unat off) bs"
    and len: "length fo = length (dir_fields dir)" "length mo = length (dir_methods dir)" "length po = length (dir_parameters dir)"
  shows "parse_annotation_directory D data off = Inr (retarget dir c fo mo po)"
proof -
  let ?F = "zip (map (un_FieldIdx \<circ> fa_field_idx) (dir_fields dir)) fo"
    and ?M = "zip (map (un_MethodIdx \<circ> ma_method_idx) (dir_methods dir)) mo"
    and ?P = "zip (map (un_MethodIdx \<circ> pa_method_idx) (dir_parameters dir)) po"
  let ?nf = "length (dir_fields dir)" and ?nm = "length (dir_methods dir)" and ?np = "length (dir_parameters dir)"
  let ?p = "unat off"
  have n: "?nf < 2 ^ 32" "?nm < 2 ^ 32" "?np < 2 ^ 32" and bs: "bs = u32_to_le c @ u32_to_le (of_nat ?nf) @ u32_to_le (of_nat ?nm)
      @ u32_to_le (of_nat ?np) @ concat (map entry_bytes ?F) @ concat (map entry_bytes ?M) @ concat (map entry_bytes ?P)"
    using assms(1) by (simp_all add: emit_annotation_directory_bytes_def)
  have l: "length ?F = ?nf" "length ?M = ?nm" "length ?P = ?np" using len by simp_all
  have at: "at_off data ?p (u32_to_le c)" "at_off data (?p + 4) (u32_to_le (of_nat ?nf))" "at_off data (?p + 8) (u32_to_le (of_nat ?nm))"
    "at_off data (?p + 12) (u32_to_le (of_nat ?np))" "at_off data (?p + 16) (concat (map entry_bytes ?F))"
    "at_off data (?p + 16 + 8 * ?nf) (concat (map entry_bytes ?M))" "at_off data (?p + 16 + 8 * ?nf + 8 * ?nm) (concat (map entry_bytes ?P))"
    using assms(3) l unfolding bs by (simp_all add: at_off_append add.assoc del: zip_map_map)
  have sz: "?p + 16 + 8 * ?nf + 8 * ?nm + 8 * ?np \<le> length data" using at_off_len [OF at(7)] l by simp
  have u: "unat (of_nat ?nf :: u32) = ?nf" "unat (of_nat ?nm :: u32) = ?nm" "unat (of_nat ?np :: u32) = ?np"
    using n by (simp_all only: unat_of_nat_u32)
  have bc: "bound_count D (of_nat ?nf) 8 (length data) i = Inr ?nf" "bound_count D (of_nat ?nm) 8 (length data) i = Inr ?nm"
    "bound_count D (of_nat ?np) 8 (length data) i = Inr ?np" for i
    using bound_count_fits [of 8 "length data" "of_nat ?nf"] bound_count_fits [of 8 "length data" "of_nat ?nm"]
      bound_count_fits [of 8 "length data" "of_nat ?np"] sz assms(2) u by (simp_all add: fits_def)
  have cap: "\<not> ?nf + ?nm + ?np > length data div 8" using sz by linarith
  have w: "?p + 16 < 2 ^ 63" using sz assms(2) by (simp add: fits_def)
  have sa: "safe_add ?p 4 i = Inr (?p + 4)" "safe_add (?p + 4) 4 i = Inr (?p + 8)" "safe_add (?p + 8) 4 i = Inr (?p + 12)"
    "safe_add (?p + 12) 4 i = Inr (?p + 16)" for i
    using w by (simp_all add: safe_add_def)
  note rd = read_u32_at [OF assms(2)]
  note e = read_entries_at [OF assms(2) at(5), of mk_field, unfolded l zip_mk] read_entries_at [OF assms(2) at(6), of mk_method, unfolded l zip_mk]
    read_entries_at [OF assms(2) at(7), of mk_parameter, unfolded l zip_mk]
  show ?thesis
    using cap
    by (simp add: parse_annotation_directory_def Let_def rd [OF at(1)] rd [OF at(2)] rd [OF at(3)] rd [OF at(4)] sa u bc e retarget_def
        del: safe_add_ok bindE_eq_Inr)
qed

end

section \<open>Properties\<close>

lemma enc_annotation_elements:
  assumes "enc_annotation D a (bs, us)"
  obtains ps where "list_all2 (enc_element D) (elements a) ps"
    "bs = common_write_uleb128 D (un_TypeIdx (ann_type_idx a)) @ common_write_uleb128 D (of_nat (length (elements a))) @ concat (map fst ps)"
    "us = concat (map snd ps)" "length (elements a) < 2 ^ 32"
  using assms by (cases a) auto

context dex_deps
begin

lemma element_walks:
  assumes "list_all2 (enc_element D) es ps" and "fits data" and "at_off data pos (concat (map fst ps))"
  shows "walk_elements D data ctx pos es = Inr (pos + length (concat (map fst ps)), concat (map snd ps))"
proof (rule walk_elements_at [OF _ assms(2, 3)])
  show "list_all2 (\<lambda>e p. \<exists>b. (\<forall>pos. at_off data pos b \<longrightarrow> walk_one_for_widths D data pos (snd e) = Inr (pos + length b, snd p))
      \<and> fst p = common_write_uleb128 D (un_StringIdx (fst e)) @ b) es ps"
    using assms(1) by (rule list_all2_mono) (use walk_encodes [OF _ assms(2)] in \<open>fastforce simp: enc_element_def\<close>)
qed

lemma annotation_widths_at:
  assumes "enc_annotation D a (bs, us)" and "fits data" and "at_off data (unat start) bs"
  shows "collect_annotation_item_widths D data start a = Inr us"
proof -
  obtain ps where p: "list_all2 (enc_element D) (elements a) ps"
    "bs = common_write_uleb128 D (un_TypeIdx (ann_type_idx a)) @ common_write_uleb128 D (of_nat (length (elements a))) @ concat (map fst ps)"
    "us = concat (map snd ps)" "length (elements a) < 2 ^ 32"
    using enc_annotation_elements [OF assms(1)] by blast
  note u = at_off_uleb [OF assms(2) assms(3) [unfolded p(2)]]
  note n = at_off_uleb [OF assms(2) u [THEN conjunct2, THEN conjunct2]]
  from u n element_walks [OF p(1) assms(2) n [THEN conjunct2, THEN conjunct2]] p(3) show ?thesis
    by (simp add: collect_annotation_item_widths_def)
qed

lemma array_widths_at:
  assumes "list_all2 (encodes D) vs ps" and "fits data"
    and "at_off data (unat start) (common_write_uleb128 D n @ concat (map fst ps))"
  shows "collect_encoded_array_widths_pre_order D data start vs = Inr (concat (map snd ps))"
proof -
  note u = at_off_uleb [OF assms(2, 3)]
  have "list_all2 (\<lambda>v p. \<forall>pos. at_off data pos (fst p) \<longrightarrow> walk_one_for_widths D data pos v = Inr (pos + length (fst p), snd p)) vs ps"
    using assms(1) by (rule list_all2_mono) (use walk_encodes [OF _ assms(2)] in auto)
  from u walk_children_at [OF this u [THEN conjunct2, THEN conjunct2]] show ?thesis
    by (simp add: collect_encoded_array_widths_pre_order_def)
qed

end

lemma deep_annotation_replay:
  assumes "enc_annotation D a (bs, us)"
  shows "emit_encoded_annotation_with_widths D a us = Inr bs"
  using deep_replay [OF encodes_annotation [OF assms], of "[]"] by (auto simp: emit_encoded_annotation_with_widths_def)

lemma array_encodes:
  assumes "emit_encoded_array_with_widths D vs ws = Inr bs" and "list_all value_ok vs"
  shows "\<exists>ps. list_all2 (encodes D) vs ps \<and> length vs < 2 ^ 32
    \<and> bs = common_write_uleb128 D (of_nat (length vs)) @ concat (map fst ps)"
proof (cases ws)
  case None
  then obtain bss where m: "mapE (emit_encoded_value D) vs = Inr bss" "length vs < 2 ^ 32"
    "bs = common_write_uleb128 D (of_nat (length vs)) @ concat bss"
    using assms(1) by (auto simp: emit_encoded_array_with_widths_def)
  have "list_all2 (\<lambda>v b. emit_encoded_value D v = Inr b) vs bss" using m(1) by (simp add: mapE_Inr_iff)
  then have "\<exists>ps. list_all2 (encodes D) vs ps \<and> bss = map fst ps"
    using assms(2)
  proof (induction vs bss rule: list_all2_induct)
    case (Cons v vs b bss)
    then obtain ps us where "list_all2 (encodes D) vs ps" "bss = map fst ps" "encodes D v (b, us)"
      using emit_encodes [of D v b] by auto
    then show ?case by (intro exI [of _ "(b, us) # ps"]) simp
  qed simp
  with m show ?thesis by auto
next
  case (Some us)
  then obtain body ws' where m: "emit_items_deep_widths D vs us = Inr (body, ws')" "length vs < 2 ^ 32"
    "bs = common_write_uleb128 D (of_nat (length vs)) @ body"
    using assms(1) by (auto simp: emit_encoded_array_with_widths_def)
  from deep_encodes(2) [OF m(1) assms(2)] m show ?thesis by auto
qed

lemma array_replay:
  assumes "list_all2 (encodes D) vs ps" and "length vs < 2 ^ 32"
  shows "emit_encoded_array_with_widths D vs (Some (concat (map snd ps)))
    = Inr (common_write_uleb128 D (of_nat (length vs)) @ concat (map fst ps))"
proof -
  have "list_all2 (\<lambda>v p. \<forall>rest. emit_encoded_value_deep_widths D v (snd p @ rest) = Inr (fst p, rest)) vs ps"
    using assms(1) by (rule list_all2_mono) (use deep_replay in blast)
  from deep_items_replay [OF this, of "[]"] assms(2) show ?thesis
    by (simp add: emit_encoded_array_with_widths_def u32_count_def)
qed

context dex_deps
begin

lemma parse_array_encodes:
  assumes "list_all2 (encodes D) vs ps" and "length vs < 2 ^ 32" and "fits data"
    and "at_off data (unat off) (common_write_uleb128 D (of_nat (length vs)) @ concat (map fst ps))"
    and "list_all (\<lambda>v. depth v \<le> PARSE_STACK_FRAME_CAP) vs"
  shows "\<exists>tops. parse_encoded_array D data off = Some (Inr (vs, tops))"
proof -
  note u = at_off_uleb [OF assms(3, 4)]
  have "list_all2 (\<lambda>v p. fst p \<noteq> []) vs ps" using assms(1) by (rule list_all2_mono) (auto dest: encodes_nonempty)
  then have "length vs \<le> length (concat (map fst ps))" by (induction rule: list_all2_induct) (auto simp: Suc_le_eq add_strict_increasing neq_Nil_conv)
  then have "length vs \<le> length data" using at_off_len [OF u [THEN conjunct2, THEN conjunct2]] by linarith
  then have "bound_count D (of_nat (length vs)) 1 (length data) i = Inr (length vs)" for i
    using bound_count_fits [of 1 "length data" "of_nat (length vs)"] assms(3) unat_of_nat_u32 [OF assms(2)] by (simp add: fits_def)
  moreover obtain tops where "parse_values D data (length vs) (unat off + length (common_write_uleb128 D (of_nat (length vs))))
      = Some (Inr (vs, tops, unat off + length (common_write_uleb128 D (of_nat (length vs))) + length (concat (map fst ps))))"
    using parse_values_encodes [OF assms(1, 3) u [THEN conjunct2, THEN conjunct2]] assms(5) by (auto simp: list_all_iff)
  ultimately show ?thesis using u by (auto simp: parse_encoded_array_def bindL_def bindR_def)
qed

end

text \<open>C37 (annotation_item_preserved). Emitting an annotation item with any list of widths gives bytes that parse back to
  the item; the widths collected from those bytes, used in a second emission, reproduce the bytes exactly,
  at any nesting and for every mix of preserved and minimal widths.\<close>

theorem annotation_item_preserved:
  assumes "dex_deps D" and "emit_annotation_item_with_widths D item ws = Inr bs" and "ann_ok (item_annotation item)"
    and "ann_depth (item_annotation item) \<le> PARSE_STACK_FRAME_CAP" and "fits data" and "at_off data (unat off) bs"
    and "unat off + 1 < 2 ^ 32"
  shows "parse_annotation_item D data off = Some (Inr item)
    \<and> (\<exists>us. collect_annotation_item_widths D data (off + 1) (item_annotation item) = Inr us
         \<and> emit_annotation_item_with_widths D item us = Inr bs)"
proof -
  let ?a = "item_annotation item"
  obtain body where b: "emit_encoded_annotation_with_widths D ?a ws = Inr body" "bs = visibility item # body"
    using assms(2) by (auto simp: emit_annotation_item_with_widths_def)
  then obtain us where e: "enc_annotation D ?a (body, us)"
    using deep_encodes(3) assms(3) by (fastforce simp: emit_encoded_annotation_with_widths_def)
  have o: "unat (off + 1) = unat off + 1" using unat_add_no_wrap [of off 1] assms(7) by simp
  have at: "at_off data (unat off) (visibility item # body)" using assms(6) b(2) by simp
  have l: "unat off + 1 < 2 ^ 64" using assms(7) by simp
  have "parse_annotation_item D data off = Some (Inr item)"
    using scroll_reader.read_u8_at [OF dex_deps.axioms(1) [OF assms(1)] assms(5) at] l
      dex_deps.parse_annotation_encodes [OF assms(1) e assms(5) at_off_tail [OF at] assms(4)]
    by (simp add: parse_annotation_item_def bindL_def bindR_def)
  moreover have "collect_annotation_item_widths D data (off + 1) ?a = Inr us"
    by (rule dex_deps.annotation_widths_at [OF assms(1) e assms(5)]) (use at_off_tail [OF at] o in simp)
  moreover have "emit_annotation_item_with_widths D item us = Inr bs"
    using deep_annotation_replay [OF e] b(2) by (simp add: emit_annotation_item_with_widths_def)
  ultimately show ?thesis by blast
qed

text \<open>The same for the array of initial static values: it parses back, and emitting the
  values with the collected widths reproduces its bytes.\<close>

theorem static_values_preserved:
  assumes "dex_deps D" and "emit_encoded_array_with_widths D vs ws = Inr bs" and "list_all value_ok vs"
    and "list_all (\<lambda>v. depth v \<le> PARSE_STACK_FRAME_CAP) vs" and "fits data" and "at_off data (unat off) bs"
  shows "(\<exists>tops. parse_encoded_array D data off = Some (Inr (vs, tops)))
    \<and> (\<exists>us. collect_encoded_array_widths_pre_order D data off vs = Inr us \<and> emit_encoded_array_with_widths D vs (Some us) = Inr bs)"
proof -
  obtain ps where p: "list_all2 (encodes D) vs ps" "length vs < 2 ^ 32"
    "bs = common_write_uleb128 D (of_nat (length vs)) @ concat (map fst ps)"
    using array_encodes [OF assms(2, 3)] by blast
  note at = assms(6) [unfolded p(3)]
  have "\<exists>tops. parse_encoded_array D data off = Some (Inr (vs, tops))"
    by (rule dex_deps.parse_array_encodes [OF assms(1) p(1, 2) assms(5) at assms(4)])
  moreover have "emit_encoded_array_with_widths D vs (Some (concat (map snd ps))) = Inr bs"
    using array_replay [OF p(1, 2)] p(3) by simp
  ultimately show ?thesis using dex_deps.array_widths_at [OF assms(1) p(1) assms(5) at] by blast
qed

section \<open>Witnesses\<close>

text \<open>An integer kept at three bytes, beside an array with a flag.\<close>

definition sample_item :: AnnotationItem where
  "sample_item = \<lparr>visibility = 1, item_annotation = EncodedAnnotation (TypeIdx 3)
     [(StringIdx 1, EV_Int 5), (StringIdx 7, EV_Array [EV_Boolean True])]\<rparr>"

definition sample_item_bytes :: "byte list" where
  "sample_item_bytes = [1, 3, 2, 1, 0x44, 5, 0, 0, 7, 0x1C, 1, 0x3F]"

lemma sample_ulebs: "push_uleb 1 = [1]" "push_uleb 2 = [2]" "push_uleb 3 = [3]" "push_uleb 7 = [7]"
  by (simp_all add: push_uleb.simps)

lemma sample_widths: "emit_encoded_value_at_width (EV_Int 5) 3 = Some [0x44, 5, 0, 0]" "emit_primitive (EV_Boolean True) = Some [0x3F]"
  by code_simp+

lemma sample_item_emits: "emit_annotation_item_with_widths (std_deps h) sample_item [3] = Inr sample_item_bytes"
  by (simp add: emit_annotation_item_with_widths_def emit_encoded_annotation_with_widths_def sample_item_def sample_item_bytes_def
      sample_widths u32_count_def emit_encoded_primitive std_deps_def sample_ulebs)

lemma sample_values_emit: "emit_encoded_array_with_widths (std_deps h) [EV_Int 5, EV_Boolean True] (Some [3]) = Inr [2, 0x44, 5, 0, 0, 0x3F]"
  by (simp add: emit_encoded_array_with_widths_def sample_widths u32_count_def emit_encoded_primitive std_deps_def sample_ulebs)

theorem annotation_item_preserved_witness:
  "parse_annotation_item (std_deps (\<lambda>_. [])) sample_item_bytes 0 = Some (Inr sample_item)
   \<and> (\<exists>us. collect_annotation_item_widths (std_deps (\<lambda>_. [])) sample_item_bytes 1 (item_annotation sample_item) = Inr us
        \<and> emit_annotation_item_with_widths (std_deps (\<lambda>_. [])) sample_item us = Inr sample_item_bytes)"
  using annotation_item_preserved [OF std.dex_deps_axioms sample_item_emits, of sample_item_bytes 0]
  by (simp add: sample_item_def sample_item_bytes_def btree_ok_def less_StringIdx_def fits_def at_off_def)

theorem static_values_preserved_witness:
  "\<exists>us. collect_encoded_array_widths_pre_order (std_deps (\<lambda>_. [])) [2, 0x44, 5, 0, 0, 0x3F] 0 [EV_Int 5, EV_Boolean True] = Inr us
     \<and> emit_encoded_array_with_widths (std_deps (\<lambda>_. [])) [EV_Int 5, EV_Boolean True] (Some us) = Inr [2, 0x44, 5, 0, 0, 0x3F]"
  using static_values_preserved [OF std.dex_deps_axioms sample_values_emit, of "[2, 0x44, 5, 0, 0, 0x3F]" 0]
  by (simp add: fits_def at_off_def)

end
