(* ===== verification/Dex_Sections.thy ===== *)
theory Dex_Sections
  imports Dex_Class_Data Dex_Code_Item Dex_Annotation
begin

text \<open>
  The data sections of \<open>src/src/emit_dex.rs\<close>: maps from old file offsets to items are written one item
  after the other, and each emitter returns the blob together with the map from old offsets to the new
  positions in the blob. References between sections are rewritten with those maps. The interface
  \<open>section_codec\<close> states what a reader needs of an item writer; the sections of the file interpret it.
\<close>

section \<open>Writing a section\<close>

text \<open>\<open>while !blob.len().is_multiple_of(align) { blob.push(0) }\<close>.\<close>

definition pad_to :: "nat \<Rightarrow> byte list \<Rightarrow> byte list" where
  "pad_to align blob = blob @ replicate ((align - length blob mod align) mod align) 0"

definition u32_offset :: "string \<Rightarrow> string \<Rightarrow> nat \<Rightarrow> DexEmitError + u32" where
  "u32_offset sec ctx n = (if n < 2 ^ 32 then Inr (of_nat n) else Inl (OffsetOverflow sec ctx))"

text \<open>The common loop of the section emitters. The writer of an item sees its old offset.\<close>

type_synonym remap = "(u32 \<times> u32) list"

definition section_step ::
  "nat \<Rightarrow> string \<Rightarrow> string \<Rightarrow> (u32 \<Rightarrow> 'a \<Rightarrow> DexEmitError + byte list) \<Rightarrow> byte list \<times> remap \<Rightarrow> u32 \<times> 'a \<Rightarrow> DexEmitError + (byte list \<times> remap)" where
  "section_step align sec ctx emit st entry =
     (case st of (blob, remap) \<Rightarrow> case entry of (original_off, x) \<Rightarrow>
        let blob1 = pad_to align blob
        in bindE (u32_offset sec ctx (length blob1)) (\<lambda>local.
           bindE (emit original_off x) (\<lambda>bs.
           Inr (blob1 @ bs, btree_insert original_off local remap))))"

definition emit_section ::
  "nat \<Rightarrow> string \<Rightarrow> string \<Rightarrow> (u32 \<Rightarrow> 'a \<Rightarrow> DexEmitError + byte list) \<Rightarrow> (u32 \<times> 'a) list \<Rightarrow> DexEmitError + (byte list \<times> remap)" where
  "emit_section align sec ctx emit m = foldE (section_step align sec ctx emit) ([], []) m"

text \<open>A reference into another section: 0 stays 0.\<close>

definition checked_add_u32 :: "u32 \<Rightarrow> u32 \<Rightarrow> DexEmitError \<Rightarrow> DexEmitError + u32" where
  "checked_add_u32 a b e = (if unat a + unat b < 2 ^ 32 then Inr (a + b) else Inl e)"

definition resolve_off :: "string \<Rightarrow> string \<Rightarrow> string \<Rightarrow> u32 \<Rightarrow> remap \<Rightarrow> u32 \<Rightarrow> DexEmitError + u32" where
  "resolve_off missing sec ctx base remap off =
     (if off = 0 then Inr 0
      else bindE (ok_or (map_of remap off) (UnrepresentableIR missing)) (\<lambda>local.
           checked_add_u32 base local (OffsetOverflow sec ctx)))"

section \<open>The sections\<close>

definition emit_type_list :: "TypeIdx list \<Rightarrow> DexEmitError + byte list" where
  "emit_type_list type_idxs =
     bindE (mapE (\<lambda>t. if unat (un_TypeIdx t) < 2 ^ 16 then Inr (ucast (un_TypeIdx t) :: u16)
                     else Inl (UnrepresentableIR ''type_list entry exceeds u16 type_id space (DEX 7.3 type_item is u16)''))
            type_idxs) (\<lambda>us.
     Inr (u32_to_le (of_nat (length type_idxs)) @ units_to_le us))"

text \<open>The type lists pad after an item with an odd count, except the last.\<close>

fun emit_type_lists :: "byte list \<times> remap \<Rightarrow> (u32 \<times> TypeIdx list) list \<Rightarrow> DexEmitError + (byte list \<times> remap)" where
  "emit_type_lists st [] = Inr st"
| "emit_type_lists (blob, remap) ((original_off, idxs) # rest) =
     bindE (u32_offset ''type_list_section'' ''type_list blob exceeds u32 byte offset'' (length blob)) (\<lambda>local.
     bindE (emit_type_list idxs) (\<lambda>bs.
     emit_type_lists (blob @ bs @ (if rest \<noteq> [] \<and> odd (length idxs) then [0, 0] else []), btree_insert original_off local remap) rest))"

definition emit_type_list_section :: "(u32 \<times> TypeIdx list) list \<Rightarrow> DexEmitError + (byte list \<times> remap)" where
  "emit_type_list_section tls = emit_type_lists ([], []) tls"

definition emit_code_entry :: "deps \<Rightarrow> u32 \<Rightarrow> CodeItem \<Rightarrow> DexEmitError + byte list" where
  "emit_code_entry D original_off ci =
     bindE (compute_insns_size (instructions ci) (payloads ci)) (\<lambda>insns_size.
     bindE (assemble_insn_stream (instructions ci) (payloads ci) insns_size) (\<lambda>insn_bytes.
     emit_code_item_container D (registers_size ci) (ins_size ci) (outs_size ci) 0 insn_bytes (tries ci) (catch_handlers ci)))"

definition emit_code_item_section :: "deps \<Rightarrow> (u32 \<times> CodeItem) list \<Rightarrow> DexEmitError + (byte list \<times> remap)" where
  "emit_code_item_section D code_items =
     emit_section 4 ''code_item_section'' ''code_item blob exceeds u32 byte offset'' (emit_code_entry D) code_items"

definition remap_method :: "u32 \<Rightarrow> remap \<Rightarrow> EncodedMethod \<Rightarrow> DexEmitError + EncodedMethod" where
  "remap_method code_item_base code_item_remap em =
     bindE (resolve_off ''encoded_method.code_off references code_item not in DexFile.code_items''
              ''class_data.code_off'' ''remapped code_off exceeds u32'' code_item_base code_item_remap (em_code_off em)) (\<lambda>new_code_off.
     Inr \<lparr>em_method_idx = em_method_idx em, em_access_flags = em_access_flags em, em_code_off = new_code_off\<rparr>)"

definition emit_class_data_entry :: "deps \<Rightarrow> remap \<Rightarrow> u32 \<Rightarrow> u32 \<Rightarrow> ClassData \<Rightarrow> DexEmitError + byte list" where
  "emit_class_data_entry D code_item_remap code_item_base original_off cd =
     bindE (mapE (remap_method code_item_base code_item_remap) (direct_methods cd)) (\<lambda>direct.
     bindE (mapE (remap_method code_item_base code_item_remap) (virtual_methods cd)) (\<lambda>virt.
     emit_class_data_item D (static_fields cd) (instance_fields cd) direct virt))"

definition emit_class_data_section ::
  "deps \<Rightarrow> (u32 \<times> ClassData) list \<Rightarrow> remap \<Rightarrow> u32 \<Rightarrow> DexEmitError + (byte list \<times> remap)" where
  "emit_class_data_section D class_datas code_item_remap code_item_base =
     emit_section 1 ''class_data_section'' ''class_data blob exceeds u32 byte offset''
       (emit_class_data_entry D code_item_remap code_item_base) class_datas"

definition emit_encoded_array_section_with_widths ::
  "deps \<Rightarrow> (u32 \<times> EncodedValue list) list \<Rightarrow> (u32 \<times> byte list) list option \<Rightarrow> DexEmitError + (byte list \<times> remap)" where
  "emit_encoded_array_section_with_widths D arrays widths =
     emit_section 1 ''encoded_array_section'' ''encoded_array blob exceeds u32 byte offset''
       (\<lambda>original_off values. emit_encoded_array_with_widths D values (Option.bind widths (\<lambda>w. map_of w original_off))) arrays"

definition emit_encoded_array_section :: "deps \<Rightarrow> (u32 \<times> EncodedValue list) list \<Rightarrow> DexEmitError + (byte list \<times> remap)" where
  "emit_encoded_array_section D arrays = emit_encoded_array_section_with_widths D arrays None"

definition emit_debug_info_section :: "(u32 \<times> byte list) list \<Rightarrow> DexEmitError + (byte list \<times> remap)" where
  "emit_debug_info_section raw_bytes =
     emit_section 1 ''debug_info_section'' ''debug_info blob exceeds u32 byte offset'' (\<lambda>_ raw. Inr raw) raw_bytes"

definition emit_annotation_item_section :: "deps \<Rightarrow> (u32 \<times> AnnotationItem) list \<Rightarrow> DexEmitError + (byte list \<times> remap)" where
  "emit_annotation_item_section D its =
     emit_section 1 ''annotation_item_section'' ''annotation_item blob exceeds u32 byte offset''
       (\<lambda>_ item. emit_annotation_item_bytes D item) its"

definition emit_set_entry :: "u32 \<Rightarrow> remap \<Rightarrow> u32 \<Rightarrow> u32 list \<Rightarrow> DexEmitError + byte list" where
  "emit_set_entry item_base item_remap original_off entries =
     bindE (mapE (resolve_off ''annotation_set references annotation_item not in DexFile.annotation_items''
                    ''annotation_set.annotation_off'' ''remapped annotation_item offset exceeds u32'' item_base item_remap) entries)
       (\<lambda>absolute. Inr (emit_annotation_set_bytes absolute))"

definition emit_annotation_set_section :: "(u32 \<times> u32 list) list \<Rightarrow> u32 \<Rightarrow> remap \<Rightarrow> DexEmitError + (byte list \<times> remap)" where
  "emit_annotation_set_section sets item_base item_remap =
     emit_section 4 ''annotation_set_section'' ''annotation_set blob exceeds u32 byte offset''
       (emit_set_entry item_base item_remap) sets"

definition emit_ref_list_entry :: "u32 \<Rightarrow> remap \<Rightarrow> u32 \<Rightarrow> u32 list \<Rightarrow> DexEmitError + byte list" where
  "emit_ref_list_entry set_base set_remap original_off entries =
     bindE (mapE (resolve_off ''annotation_set_ref_list references annotation_set not in DexFile.annotation_sets''
                    ''annotation_set_ref_list.annotations_off'' ''remapped annotation_set offset exceeds u32'' set_base set_remap) entries)
       (\<lambda>absolute. Inr (emit_annotation_set_bytes absolute))"

definition emit_annotation_set_ref_list_section :: "(u32 \<times> u32 list) list \<Rightarrow> u32 \<Rightarrow> remap \<Rightarrow> DexEmitError + (byte list \<times> remap)" where
  "emit_annotation_set_ref_list_section ref_lists set_base set_remap =
     emit_section 4 ''annotation_set_ref_list_section'' ''annotation_set_ref_list blob exceeds u32 byte offset''
       (emit_ref_list_entry set_base set_remap) ref_lists"

definition resolve_set :: "u32 \<Rightarrow> remap \<Rightarrow> u32 \<Rightarrow> DexEmitError + u32" where
  "resolve_set = resolve_off ''annotation_directory references annotation_set not in DexFile.annotation_sets''
     ''annotation_directory.annotations_off'' ''remapped annotation_set offset exceeds u32''"

definition resolve_ref_list :: "u32 \<Rightarrow> remap \<Rightarrow> u32 \<Rightarrow> DexEmitError + u32" where
  "resolve_ref_list = resolve_off ''annotation_directory parameters_off references annotation_set_ref_list not in DexFile.annotation_set_ref_lists''
     ''annotation_directory.parameters_off'' ''remapped annotation_set_ref_list offset exceeds u32''"

definition emit_directory_entry ::
  "u32 \<Rightarrow> remap \<Rightarrow> u32 \<Rightarrow> remap \<Rightarrow> u32 \<Rightarrow> AnnotationDirectoryItem \<Rightarrow> DexEmitError + byte list" where
  "emit_directory_entry set_base set_remap ref_list_base ref_list_remap original_off dir =
     bindE (resolve_set set_base set_remap (class_annotations_off dir)) (\<lambda>class_abs.
     bindE (mapE (\<lambda>f. resolve_set set_base set_remap (fa_annotations_off f)) (dir_fields dir)) (\<lambda>field_abs.
     bindE (mapE (\<lambda>m. resolve_set set_base set_remap (ma_annotations_off m)) (dir_methods dir)) (\<lambda>method_abs.
     bindE (mapE (\<lambda>p. resolve_ref_list ref_list_base ref_list_remap (pa_annotations_off p)) (dir_parameters dir)) (\<lambda>param_abs.
     emit_annotation_directory_bytes dir class_abs field_abs method_abs param_abs))))"

definition emit_annotation_directory_section ::
  "(u32 \<times> AnnotationDirectoryItem) list \<Rightarrow> u32 \<Rightarrow> remap \<Rightarrow> u32 \<Rightarrow> remap \<Rightarrow> DexEmitError + (byte list \<times> remap)" where
  "emit_annotation_directory_section directories set_base set_remap ref_list_base ref_list_remap =
     emit_section 4 ''annotation_directory_section'' ''annotation_directory blob exceeds u32 byte offset''
       (emit_directory_entry set_base set_remap ref_list_base ref_list_remap) directories"

section \<open>What a section emitter promises\<close>

text \<open>Every entry stands in the blob, aligned, where the map says.\<close>

definition section_holds ::
  "nat \<Rightarrow> (u32 \<Rightarrow> 'a \<Rightarrow> DexEmitError + byte list) \<Rightarrow> (u32 \<times> 'a) list \<Rightarrow> byte list \<Rightarrow> remap \<Rightarrow> bool" where
  "section_holds align emit m blob remap \<longleftrightarrow> map fst remap = map fst m \<and> btree_ok remap
     \<and> (\<forall>(k, x) \<in> set m. \<exists>local bs. map_of remap k = Some local \<and> emit k x = Inr bs
          \<and> at_off blob (unat local) bs \<and> align dvd unat local)"

lemma pad_to_aligned: "0 < align \<Longrightarrow> align dvd length (pad_to align blob)"
proof -
  assume a: "0 < align"
  let ?r = "length blob mod align"
  have l: "length (pad_to align blob) = align * (length blob div align) + (?r + (align - ?r) mod align)"
    by (simp add: pad_to_def)
  have "?r + (align - ?r) mod align = (if ?r = 0 then 0 else align)"
    using a mod_less_divisor [OF a, of "length blob"] by auto
  then show ?thesis unfolding l by (simp split: if_splits)
qed

lemma pad_to_1 [simp]: "pad_to 1 blob = blob" "pad_to (Suc 0) blob = blob"
  by (simp_all add: pad_to_def)

lemma at_off_extend: "at_off blob p bs \<Longrightarrow> at_off (blob @ ys) p bs"
  by (simp add: at_off_def)

lemma section_step_holds:
  assumes h: "section_holds align emit done blob remap" and s: "section_step align sec ctx emit (blob, remap) (k, x) = Inr (blob', remap')"
    and ok: "btree_ok (done @ [(k, x)])" and al: "0 < align"
  shows "section_holds align emit (done @ [(k, x)]) blob' remap'"
proof -
  obtain bs where e: "length (pad_to align blob) < 2 ^ 32" "emit k x = Inr bs" "blob' = pad_to align blob @ bs"
    "remap' = btree_insert k (of_nat (length (pad_to align blob))) remap"
    using s by (auto simp: section_step_def u32_offset_def Let_def split: if_splits)
  let ?l = "of_nat (length (pad_to align blob)) :: u32"
  have lt: "\<forall>j \<in> set (map fst done). j < k" using ok by (simp add: btree_ok_def sorted_wrt_append)
  have f: "map fst remap = map fst done" "btree_ok remap" using h by (simp_all add: section_holds_def)
  have r: "remap' = remap @ [(k, ?l)]"
    unfolding e(4) using lt f(1) by (induction remap arbitrary: "done") (auto simp: Cons_eq_map_conv dual_order.asym)
  have l: "unat ?l = length (pad_to align blob)" by (rule unat_of_nat_u32 [OF e(1)])
  have m: "map_of remap' = (map_of remap)(k \<mapsto> ?l)" unfolding e(4) by (rule map_of_btree_insert)
  have "\<exists>local bs. map_of remap' j = Some local \<and> emit j y = Inr bs \<and> at_off blob' (unat local) bs \<and> align dvd unat local"
    if "(j, y) \<in> set done" for j y
  proof -
    have "j \<noteq> k" using lt that by force
    with h that m e(3) show ?thesis
      by (fastforce simp: section_holds_def pad_to_def intro: at_off_extend)
  qed
  moreover have "at_off blob' (unat ?l) bs" unfolding e(3) l by (simp add: at_off_def)
  ultimately show ?thesis
    using e(2) m l r f pad_to_aligned [OF al, of blob] btree_insert_ok [OF f(2), of k ?l, folded e(4)]
    unfolding section_holds_def by (auto simp del: map_of_append)
qed

lemma emit_section_holds:
  assumes "emit_section align sec ctx emit m = Inr (blob, remap)" and "btree_ok m" and "0 < align"
  shows "section_holds align emit m blob remap"
proof -
  have "section_holds align emit (pre @ m) blob remap"
    if "foldE (section_step align sec ctx emit) st m = Inr (blob, remap)" "section_holds align emit pre (fst st) (snd st)" "btree_ok (pre @ m)" for pre st
    using that
  proof (induction m arbitrary: st pre)
    case (Cons e m)
    obtain k x where e: "e = (k, x)" by (cases e)
    obtain st' where st': "section_step align sec ctx emit st e = Inr st'" "foldE (section_step align sec ctx emit) st' m = Inr (blob, remap)"
      using Cons.prems(1) by auto
    have "btree_ok (pre @ [e])" using Cons.prems(3) by (auto simp: btree_ok_def sorted_wrt_append)
    then have "section_holds align emit (pre @ [e]) (fst st') (snd st')"
      using section_step_holds [of align emit pre "fst st" "snd st" sec ctx k x "fst st'" "snd st'"] Cons.prems(2) st'(1) e assms(3) by simp
    from Cons.IH [OF st'(2) this] Cons.prems(3) show ?case by simp
  qed simp
  from this [of "([], [])" "[]"] assms show ?thesis by (simp add: emit_section_def section_holds_def btree_ok_def)
qed

text \<open>The type lists, which pad behind odd lists, are a section with alignment 4 all the same.\<close>

lemma emit_type_list_length: "emit_type_list idxs = Inr bs \<Longrightarrow> length bs = 4 + 2 * length idxs"
  by (auto simp: emit_type_list_def dest: mapE_length)

lemma pad_to_4_even:
  assumes "4 dvd length blob" and "length bs = 4 + 2 * k"
  shows "pad_to 4 (blob @ bs) = blob @ bs @ (if odd k then [0, 0] else [])"
proof -
  obtain a where "length blob = 4 * a" using assms(1) by blast
  moreover have "(4 * a + 4 + 2 * k) mod 4 = (if odd k then 2 else 0)" by presburger
  ultimately have "(length blob + 4 + 2 * k) mod 4 = (if odd k then 2 else 0)" by simp
  moreover have "replicate 2 (0 :: byte) = [0, 0]" by (simp add: numeral_2_eq_2)
  ultimately show ?thesis using assms(2) by (simp add: pad_to_def add.assoc)
qed

lemma emit_type_lists_eq:
  "emit_type_lists (if m = [] then blob else pad_to 4 blob, remap) m
    = foldE (section_step 4 ''type_list_section'' ''type_list blob exceeds u32 byte offset'' (\<lambda>_. emit_type_list)) (blob, remap) m"
proof (induction m arbitrary: blob remap)
  case (Cons e m)
  obtain off idxs where e: "e = (off, idxs)" by (cases e)
  have "pad_to 4 blob @ bs @ (if m \<noteq> [] \<and> odd (length idxs) then [0, 0] else [])
      = (if m = [] then pad_to 4 blob @ bs else pad_to 4 (pad_to 4 blob @ bs))" if "emit_type_list idxs = Inr bs" for bs
    using pad_to_4_even [OF pad_to_aligned [of 4 blob] emit_type_list_length [OF that]] by simp
  then show ?case
    by (cases "emit_type_list idxs"; cases "u32_offset ''type_list_section'' ''type_list blob exceeds u32 byte offset'' (length (pad_to 4 blob))")
      (simp_all add: e section_step_def Let_def Cons.IH)
qed simp

lemma emit_type_list_section_eq:
  "emit_type_list_section m = emit_section 4 ''type_list_section'' ''type_list blob exceeds u32 byte offset'' (\<lambda>_. emit_type_list) m"
  using emit_type_lists_eq [of m "[]" "[]"] by (simp add: emit_type_list_section_def emit_section_def pad_to_def split: if_splits)

section \<open>Reading a section back\<close>

locale section_codec =
  fixes emit :: "u32 \<Rightarrow> 'a \<Rightarrow> DexEmitError + byte list"
    and reads :: "byte list \<Rightarrow> u32 \<Rightarrow> u32 \<Rightarrow> 'a \<Rightarrow> bool"
    and good :: "'a \<Rightarrow> bool"
  assumes item_reads: "emit k x = Inr bs \<Longrightarrow> good x \<Longrightarrow> fits data \<Longrightarrow> at_off data (unat off) bs \<Longrightarrow> off \<noteq> 0 \<Longrightarrow> reads data off k x"
begin

lemma section_reads:
  assumes "section_holds align emit m blob remap" and "list_all (\<lambda>(k, x). good x) m" and "length data < 2 ^ 32"
    and "at_off data (unat base) blob" and "base \<noteq> 0" and "(k, x) \<in> set m"
  shows "\<exists>local. map_of remap k = Some local \<and> unat (base + local) = unat base + unat local \<and> reads data (base + local) k x"
proof -
  obtain local bs where l: "map_of remap k = Some local" "emit k x = Inr bs" "at_off blob (unat local) bs"
    using assms(1, 6) by (fastforce simp: section_holds_def)
  have at: "at_off data (unat base + unat local) bs" using at_off_trans [OF assms(4) l(3)] .
  have u: "unat (base + local) = unat base + unat local"
    using unat_add_no_wrap at_off_len [OF at] assms(3) by simp
  have nz: "base + local \<noteq> 0" using u assms(5) by (metis add_is_0 unat_eq_zero)
  have "good x" using assms(2, 6) by (auto simp: list_all_iff)
  from item_reads [OF l(2) this _ _ nz, of data] at u assms(3) l(1) show ?thesis by (simp add: fits_def)
qed

end

text \<open>A rewritten reference.\<close>

definition linked :: "u32 \<Rightarrow> remap \<Rightarrow> u32 \<Rightarrow> u32 \<Rightarrow> bool" where
  "linked base remap a b \<longleftrightarrow> (if a = 0 then b = 0 else \<exists>local. map_of remap a = Some local \<and> b = base + local)"

lemma resolve_offD: "resolve_off missing sec ctx base remap a = Inr b \<Longrightarrow> linked base remap a b"
  by (auto simp: resolve_off_def checked_add_u32_def linked_def split: if_splits)

lemma mapE_linked: "mapE (\<lambda>x. resolve_off missing sec ctx base remap (f x)) xs = Inr ys \<Longrightarrow> list_all2 (\<lambda>x. linked base remap (f x)) xs ys"
  by (auto simp: mapE_Inr_iff elim!: list_all2_mono dest: resolve_offD)

lemma emit_annotation_encodes:
  assumes "emit_encoded_annotation D a = Inr bs" and "ann_ok a"
  shows "\<exists>us. enc_annotation D a (bs, us)"
proof -
  obtain t es where a: "a = EncodedAnnotation t es" by (cases a)
  have go: "\<exists>ps. list_all2 (enc_element D) es ps \<and> bss = map fst ps"
    if "list_all2 (\<lambda>e b. (\<lambda>(name, v). bindE (emit_encoded_value D v) (\<lambda>b. Inr (common_write_uleb128 D (un_StringIdx name) @ b))) e = Inr b) es bss"
      "list_all (\<lambda>e. value_ok (snd e)) es" for es bss
    using that
  proof (induction es bss rule: list_all2_induct)
    case (Cons e es b bss)
    then obtain ps where ps: "list_all2 (enc_element D) es ps" "bss = map fst ps" by auto
    obtain b' where b': "emit_encoded_value D (snd e) = Inr b'" "b = common_write_uleb128 D (un_StringIdx (fst e)) @ b'"
      using Cons.hyps(1) by (cases e) auto
    then obtain us where "encodes D (snd e) (b', us)" using emit_encodes Cons.prems by fastforce
    then have "enc_element D e (b, us)" using b'(2) by (simp add: enc_element_def)
    with ps show ?case by (intro exI [of _ "(b, us) # ps"]) simp
  qed simp
  from assms a show ?thesis
    by (fastforce simp: emit_encoded_annotation_def mapE_Inr_iff dest!: go)
qed

text \<open>The sections of the file meet the interface.\<close>

sublocale dex_deps \<subseteq> ann_items: section_codec "\<lambda>_ item. emit_annotation_item_bytes D item"
  "\<lambda>data off _ item. parse_annotation_item D data off = Some (Inr item)"
  "\<lambda>item. ann_ok (item_annotation item) \<and> ann_depth (item_annotation item) \<le> PARSE_STACK_FRAME_CAP"
proof (unfold_locales, elim conjE)
  fix item :: AnnotationItem and data :: "byte list" and off :: u32 and bs
  assume e: "emit_annotation_item_bytes D item = Inr bs" and f: "fits data" and at: "at_off data (unat off) bs"
    and ok: "ann_ok (item_annotation item)" and d: "ann_depth (item_annotation item) \<le> PARSE_STACK_FRAME_CAP"
  obtain body where b: "emit_encoded_annotation D (item_annotation item) = Inr body" "bs = visibility item # body"
    using e by (auto simp: emit_annotation_item_bytes_def)
  obtain us where u: "enc_annotation D (item_annotation item) (body, us)" using emit_annotation_encodes [OF b(1) ok] by blast
  have "unat off + 1 < 2 ^ 64" using at_off_len [OF at] f b(2) by (simp add: fits_def)
  with read_u8_at [OF f at [unfolded b(2)]] parse_annotation_encodes [OF u f at_off_tail [OF at [unfolded b(2)]] d]
  show "parse_annotation_item D data off = Some (Inr item)"
    by (simp add: parse_annotation_item_def bindL_def bindR_def)
qed

sublocale dex_deps \<subseteq> ann_sets: section_codec "emit_set_entry base remap"
  "\<lambda>data off _ entries. \<exists>abs. parse_annotation_set D data off = Inr abs \<and> list_all2 (linked base remap) entries abs"
  "\<lambda>entries. length entries < 2 ^ 32" for base remap
  by unfold_locales (auto simp: emit_set_entry_def dest!: mapE_linked [where f = "\<lambda>x. x"] annotation_set_at dest: list_all2_lengthD)

sublocale dex_deps \<subseteq> ref_lists: section_codec "emit_ref_list_entry base remap"
  "\<lambda>data off _ entries. \<exists>abs. parse_annotation_set D data off = Inr abs \<and> list_all2 (linked base remap) entries abs"
  "\<lambda>entries. length entries < 2 ^ 32" for base remap
  by unfold_locales (auto simp: emit_ref_list_entry_def dest!: mapE_linked [where f = "\<lambda>x. x"] annotation_set_at dest: list_all2_lengthD)

sublocale dex_deps \<subseteq> directories: section_codec "emit_directory_entry sb sr rb rr"
  "\<lambda>data off _ dir. \<exists>c fo mo po. parse_annotation_directory D data off = Inr (retarget dir c fo mo po)
     \<and> linked sb sr (class_annotations_off dir) c \<and> list_all2 (\<lambda>f. linked sb sr (fa_annotations_off f)) (dir_fields dir) fo
     \<and> list_all2 (\<lambda>m. linked sb sr (ma_annotations_off m)) (dir_methods dir) mo
     \<and> list_all2 (\<lambda>p. linked rb rr (pa_annotations_off p)) (dir_parameters dir) po"
  "\<lambda>_. True" for sb sr rb rr
proof unfold_locales
  fix dir k data and off :: u32 and bs
  assume e: "emit_directory_entry sb sr rb rr k dir = Inr bs" and f: "fits data" and at: "at_off data (unat off) bs"
  obtain c fo mo po where r: "resolve_set sb sr (class_annotations_off dir) = Inr c"
    "mapE (\<lambda>f. resolve_set sb sr (fa_annotations_off f)) (dir_fields dir) = Inr fo"
    "mapE (\<lambda>m. resolve_set sb sr (ma_annotations_off m)) (dir_methods dir) = Inr mo"
    "mapE (\<lambda>p. resolve_ref_list rb rr (pa_annotations_off p)) (dir_parameters dir) = Inr po"
    "emit_annotation_directory_bytes dir c fo mo po = Inr bs"
    using e by (auto simp: emit_directory_entry_def)
  have "parse_annotation_directory D data off = Inr (retarget dir c fo mo po)"
    by (rule directory_at [OF r(5) f at mapE_length [OF r(2)] mapE_length [OF r(3)] mapE_length [OF r(4)]])
  with r show "\<exists>c fo mo po. parse_annotation_directory D data off = Inr (retarget dir c fo mo po)
     \<and> linked sb sr (class_annotations_off dir) c \<and> list_all2 (\<lambda>f. linked sb sr (fa_annotations_off f)) (dir_fields dir) fo
     \<and> list_all2 (\<lambda>m. linked sb sr (ma_annotations_off m)) (dir_methods dir) mo
     \<and> list_all2 (\<lambda>p. linked rb rr (pa_annotations_off p)) (dir_parameters dir) po"
    unfolding resolve_set_def resolve_ref_list_def by (metis mapE_linked resolve_offD)
qed

section \<open>The annotation sections refine the annotation maps\<close>

text \<open>Following offsets through the file, and through the maps the file was written from.\<close>

definition ok_opt :: "('e + 'a) option \<Rightarrow> 'a option" where
  "ok_opt r = (case r of Some (Inr x) \<Rightarrow> Some x | _ \<Rightarrow> None)"

definition read_set :: "deps \<Rightarrow> byte list \<Rightarrow> u32 \<Rightarrow> AnnotationItem list option" where
  "read_set D data off = Option.bind (ok_opt (Some (parse_annotation_set D data off))) (\<lambda>offs.
     those (map (\<lambda>item_off. ok_opt (parse_annotation_item D data item_off)) offs))"

definition read_ref_list :: "deps \<Rightarrow> byte list \<Rightarrow> u32 \<Rightarrow> AnnotationItem list list option" where
  "read_ref_list D data off = Option.bind (ok_opt (Some (parse_annotation_set D data off))) (\<lambda>offs.
     those (map (read_set D data) offs))"

definition model_set :: "(u32 \<times> u32 list) list \<Rightarrow> (u32 \<times> AnnotationItem) list \<Rightarrow> u32 \<Rightarrow> AnnotationItem list option" where
  "model_set sets its off = (if off = 0 then Some [] else Option.bind (map_of sets off) (\<lambda>offs. those (map (map_of its) offs)))"

definition model_ref_list ::
  "(u32 \<times> u32 list) list \<Rightarrow> (u32 \<times> u32 list) list \<Rightarrow> (u32 \<times> AnnotationItem) list \<Rightarrow> u32 \<Rightarrow> AnnotationItem list list option" where
  "model_ref_list refs sets its off =
     (if off = 0 then Some [] else Option.bind (map_of refs off) (\<lambda>offs. those (map (model_set sets its) offs)))"

definition view_directory ::
  "(u32 \<Rightarrow> 'a) \<Rightarrow> (u32 \<Rightarrow> 'b) \<Rightarrow> AnnotationDirectoryItem \<Rightarrow> 'a \<times> (FieldIdx \<times> 'a) list \<times> (MethodIdx \<times> 'a) list \<times> (MethodIdx \<times> 'b) list" where
  "view_directory rs rl dir =
     (rs (class_annotations_off dir),
      map (\<lambda>f. (fa_field_idx f, rs (fa_annotations_off f))) (dir_fields dir),
      map (\<lambda>m. (ma_method_idx m, rs (ma_annotations_off m))) (dir_methods dir),
      map (\<lambda>p. (pa_method_idx p, rl (pa_annotations_off p))) (dir_parameters dir))"

lemma map_retarget:
  "list_all2 (\<lambda>f. linked sb sr (fa_annotations_off f)) fs fo \<Longrightarrow> (\<And>a b. linked sb sr a b \<Longrightarrow> r b = r' a) \<Longrightarrow>
     map (\<lambda>f. (fa_field_idx f, r (fa_annotations_off f))) (map (\<lambda>(f, off). f\<lparr>fa_annotations_off := off\<rparr>) (zip fs fo))
     = map (\<lambda>f. (fa_field_idx f, r' (fa_annotations_off f))) fs"
  "list_all2 (\<lambda>m. linked sb sr (ma_annotations_off m)) ms mo \<Longrightarrow> (\<And>a b. linked sb sr a b \<Longrightarrow> r b = r' a) \<Longrightarrow>
     map (\<lambda>m. (ma_method_idx m, r (ma_annotations_off m))) (map (\<lambda>(m, off). m\<lparr>ma_annotations_off := off\<rparr>) (zip ms mo))
     = map (\<lambda>m. (ma_method_idx m, r' (ma_annotations_off m))) ms"
  "list_all2 (\<lambda>p. linked rb rr (pa_annotations_off p)) ps po \<Longrightarrow> (\<And>a b. linked rb rr a b \<Longrightarrow> q b = q' a) \<Longrightarrow>
     map (\<lambda>p. (pa_method_idx p, q (pa_annotations_off p))) (map (\<lambda>(p, off). p\<lparr>pa_annotations_off := off\<rparr>) (zip ps po))
     = map (\<lambda>p. (pa_method_idx p, q' (pa_annotations_off p))) ps"
  by (induction rule: list_all2_induct; simp)+

lemma those_linked:
  assumes "list_all2 (linked base remap) offs offs'" and "\<And>a b. a \<in> set offs \<Longrightarrow> linked base remap a b \<Longrightarrow> g b = f a"
  shows "map g offs' = map f offs"
  using assms by (induction rule: list_all2_induct) auto

text \<open>A reference that was rewritten names an entry of the section.\<close>

lemma linkedD:
  assumes "linked base remap a b" and "a \<noteq> 0" and "section_holds align emit m blob remap" and "btree_ok m"
  obtains x local where "(a, x) \<in> set m" "map_of m a = Some x" "map_of remap a = Some local" "b = base + local"
proof -
  obtain local where l: "map_of remap a = Some local" "b = base + local" using assms(1, 2) by (auto simp: linked_def)
  have "map fst remap = map fst m" using assms(3) by (simp add: section_holds_def)
  moreover have "a \<in> set (map fst remap)" using map_of_SomeD [OF l(1)] by force
  ultimately obtain x where x: "(a, x) \<in> set m" by auto
  have "distinct (map fst m)" using assms(4) by (simp add: btree_ok_def strict_sorted_iff)
  with x that l show thesis by simp
qed

context dex_deps
begin

lemma read_set_linked:
  assumes its: "section_holds ai (\<lambda>_ item. emit_annotation_item_bytes D item) its iblob iremap" "btree_ok its"
    and good: "list_all (\<lambda>(k, item). ann_ok (item_annotation item) \<and> ann_depth (item_annotation item) \<le> PARSE_STACK_FRAME_CAP) its"
    and sets: "section_holds si (emit_set_entry ib iremap) sets sblob sremap" "btree_ok sets"
    and goods: "list_all (\<lambda>(k, entries). length entries < 2 ^ 32) sets" "list_all (\<lambda>(k, entries). 0 \<notin> set entries) sets"
    and data: "length data < 2 ^ 32" "at_off data (unat ib) iblob" "ib \<noteq> 0" "at_off data (unat sb) sblob" "sb \<noteq> 0"
    and l: "linked sb sremap a b"
  shows "read_set D data b = model_set sets its a"
proof (cases "a = 0")
  case True
  then show ?thesis using l by (simp add: linked_def read_set_def model_set_def parse_annotation_set_def ok_opt_def)
next
  case False
  obtain es local where s: "(a, es) \<in> set sets" "map_of sets a = Some es" "map_of sremap a = Some local" "b = sb + local"
    using linkedD [OF l False sets] by blast
  obtain abs where p: "parse_annotation_set D data b = Inr abs" "list_all2 (linked ib iremap) es abs"
    using ann_sets.section_reads [OF sets(1) goods(1) data(1, 4, 5) s(1)] s(3, 4) by auto
  have "ok_opt (parse_annotation_item D data y) = map_of its x" if m: "x \<in> set es" and k: "linked ib iremap x y" for x y
  proof -
    have "x \<noteq> 0" using goods(2) s(1) m by (auto simp: list_all_iff)
    then obtain it local where i: "(x, it) \<in> set its" "map_of its x = Some it" "map_of iremap x = Some local" "y = ib + local"
      using linkedD [OF k _ its] by blast
    from ann_items.section_reads [OF its(1) good data(1, 2, 3) i(1)] i show ?thesis by (auto simp: ok_opt_def)
  qed
  from those_linked [OF p(2) this] p(1) s(2) False show ?thesis by (simp add: read_set_def model_set_def ok_opt_def)
qed

lemma read_ref_list_linked:
  assumes refs: "section_holds ai (emit_ref_list_entry sb sremap) refs rblob rremap" "btree_ok refs"
    and goods: "list_all (\<lambda>(k, entries). length entries < 2 ^ 32) refs"
    and data: "length data < 2 ^ 32" "at_off data (unat rb) rblob" "rb \<noteq> 0"
    and set_ok: "\<And>a b. linked sb sremap a b \<Longrightarrow> read_set D data b = model_set sets its a"
    and l: "linked rb rremap a b"
  shows "read_ref_list D data b = model_ref_list refs sets its a"
proof (cases "a = 0")
  case True
  then show ?thesis using l by (simp add: linked_def read_ref_list_def model_ref_list_def parse_annotation_set_def ok_opt_def)
next
  case False
  obtain es local where s: "(a, es) \<in> set refs" "map_of refs a = Some es" "map_of rremap a = Some local" "b = rb + local"
    using linkedD [OF l False refs] by blast
  obtain abs where p: "parse_annotation_set D data b = Inr abs" "list_all2 (linked sb sremap) es abs"
    using ref_lists.section_reads [OF refs(1) goods data s(1)] s(3, 4) by auto
  from those_linked [OF p(2) set_ok] p(1) s(2) False show ?thesis by (simp add: read_ref_list_def model_ref_list_def ok_opt_def)
qed

lemma read_directory:
  assumes dirs: "section_holds ai (emit_directory_entry sb sr rb rr) dirs dblob dremap"
    and data: "length data < 2 ^ 32" "at_off data (unat db) dblob" "db \<noteq> 0" and k: "(k, dir) \<in> set dirs"
    and set_ok: "\<And>a b. linked sb sr a b \<Longrightarrow> rs b = ms a" and list_ok: "\<And>a b. linked rb rr a b \<Longrightarrow> rl b = ml a"
  shows "\<exists>local dir'. map_of dremap k = Some local \<and> parse_annotation_directory D data (db + local) = Inr dir'
    \<and> view_directory rs rl dir' = view_directory ms ml dir"
proof -
  have t: "list_all (\<lambda>(k, x). True) dirs" by (simp add: list_all_iff)
  obtain local c fo mo po where p: "map_of dremap k = Some local" "parse_annotation_directory D data (db + local) = Inr (retarget dir c fo mo po)"
    "linked sb sr (class_annotations_off dir) c" "list_all2 (\<lambda>f. linked sb sr (fa_annotations_off f)) (dir_fields dir) fo"
    "list_all2 (\<lambda>m. linked sb sr (ma_annotations_off m)) (dir_methods dir) mo" "list_all2 (\<lambda>p. linked rb rr (pa_annotations_off p)) (dir_parameters dir) po"
    using directories.section_reads [OF dirs t data k] by auto
  have "view_directory rs rl (retarget dir c fo mo po) = view_directory ms ml dir"
    using set_ok [OF p(3)] map_retarget(1) [OF p(4), of rs ms, OF set_ok]
      map_retarget(2) [OF p(5), of rs ms, OF set_ok] map_retarget(3) [OF p(6), of rl ml, OF list_ok]
    by (simp add: view_directory_def retarget_def)
  with p(1, 2) show ?thesis by blast
qed

end

section \<open>Class data and code\<close>

text \<open>A code item that came from a laid-out stream; the part of it that the code section keeps.\<close>

definition code_laid_out :: "CodeItem \<Rightarrow> bool" where
  "code_laid_out ci \<longleftrightarrow> (\<exists>its n. layout_ok its n \<and> instructions ci = codes its \<and> payloads ci = tables its \<and> list_all (try_ok n) (tries ci))"

definition code_body :: "CodeItem \<Rightarrow> CodeItem" where
  "code_body ci = ci\<lparr>debug_info_off := 0, invariant_violations := []\<rparr>"

definition read_code :: "deps \<Rightarrow> byte list \<Rightarrow> u32 \<Rightarrow> CodeItem option" where
  "read_code D data off = (if off = 0 then None else map_option code_body (ok_opt (Some (parse_code_item D data off))))"

definition model_code :: "(u32 \<times> CodeItem) list \<Rightarrow> u32 \<Rightarrow> CodeItem option" where
  "model_code cis off = (if off = 0 then None else map_option code_body (map_of cis off))"

definition view_methods :: "(u32 \<Rightarrow> 'a) \<Rightarrow> EncodedMethod list \<Rightarrow> (MethodIdx \<times> u32 \<times> 'a) list" where
  "view_methods rc ms = map (\<lambda>m. (em_method_idx m, em_access_flags m, rc (em_code_off m))) ms"

definition view_class_data :: "(u32 \<Rightarrow> 'a) \<Rightarrow> ClassData \<Rightarrow>
    EncodedField list \<times> EncodedField list \<times> (MethodIdx \<times> u32 \<times> 'a) list \<times> (MethodIdx \<times> u32 \<times> 'a) list" where
  "view_class_data rc cd =
     (static_fields cd, instance_fields cd, view_methods rc (direct_methods cd), view_methods rc (virtual_methods cd))"

definition method_linked :: "u32 \<Rightarrow> remap \<Rightarrow> EncodedMethod \<Rightarrow> EncodedMethod \<Rightarrow> bool" where
  "method_linked base remap m m' \<longleftrightarrow> em_method_idx m' = em_method_idx m \<and> em_access_flags m' = em_access_flags m
     \<and> linked base remap (em_code_off m) (em_code_off m')"

lemma remap_methods: "mapE (remap_method base remap) ms = Inr ms' \<Longrightarrow> list_all2 (method_linked base remap) ms ms'"
  by (auto simp: mapE_Inr_iff remap_method_def method_linked_def elim!: list_all2_mono dest: resolve_offD)

lemma view_methods_linked:
  assumes "list_all2 (method_linked base remap) ms ms'" and "\<And>a b. linked base remap a b \<Longrightarrow> rc b = mc a"
  shows "view_methods rc ms' = view_methods mc ms"
  using assms(1) by (induction rule: list_all2_induct) (auto simp: view_methods_def method_linked_def assms(2))

lemma flags_linked:
  assumes "list_all2 (method_linked base remap) ms ms'"
  shows "list_all (\<lambda>m. p (em_access_flags m)) ms' \<longleftrightarrow> list_all (\<lambda>m. p (em_access_flags m)) ms"
  using assms by (induction rule: list_all2_induct) (auto simp: method_linked_def)

sublocale dex_deps \<subseteq> code_items: section_codec "emit_code_entry D"
  "\<lambda>data off _ ci. read_code D data off = Some (code_body ci)" code_laid_out
proof unfold_locales
  fix ci data k and off :: u32 and bs
  assume e: "emit_code_entry D k ci = Inr bs" and g: "code_laid_out ci" and f: "fits data" and at: "at_off data (unat off) bs" and nz: "off \<noteq> 0"
  obtain its n where l: "layout_ok its n" "instructions ci = codes its" "payloads ci = tables its" "list_all (try_ok n) (tries ci)"
    using g by (auto simp: code_laid_out_def)
  obtain ib where b: "assemble_insn_stream (codes its) (tables its) n = Inr ib"
    "emit_code_item_container D (registers_size ci) (ins_size ci) (outs_size ci) 0 ib (tries ci) (catch_handlers ci) = Inr bs"
    using e l compute_layout_size [OF l(1)] by (auto simp: emit_code_entry_def)
  from code_item_codec [OF l(1, 4) b f at] nz l show "read_code D data off = Some (code_body ci)"
    by (cases ci) (auto simp: read_code_def ok_opt_def code_body_def)
qed

sublocale dex_deps \<subseteq> class_datas: section_codec "emit_class_data_entry D remap base"
  "\<lambda>data off _ cd. \<exists>cd' n. parse_class_data_with_consumed D data off = Inr (cd', n)
     \<and> static_fields cd' = static_fields cd \<and> instance_fields cd' = instance_fields cd
     \<and> list_all2 (method_linked base remap) (direct_methods cd) (direct_methods cd')
     \<and> list_all2 (method_linked base remap) (virtual_methods cd) (virtual_methods cd')" flags_ok for remap base
proof unfold_locales
  fix cd data k and off :: u32 and bs
  assume e: "emit_class_data_entry D remap base k cd = Inr bs" and g: "flags_ok cd" and f: "fits data" and at: "at_off data (unat off) bs"
  obtain dm vm where r: "mapE (remap_method base remap) (direct_methods cd) = Inr dm" "mapE (remap_method base remap) (virtual_methods cd) = Inr vm"
    "emit_class_data_item D (static_fields cd) (instance_fields cd) dm vm = Inr bs"
    using e by (auto simp: emit_class_data_entry_def)
  note m = remap_methods [OF r(1)] remap_methods [OF r(2)]
  have "flags_ok \<lparr>static_fields = static_fields cd, instance_fields = instance_fields cd, direct_methods = dm, virtual_methods = vm\<rparr>"
    using g flags_linked [OF m(1), of "\<lambda>f. validate f Method = Inr f"] flags_linked [OF m(2), of "\<lambda>f. validate f Method = Inr f"]
    by (simp add: flags_ok_def)
  from class_data_codec [OF r(3) f at this] m show "\<exists>cd' n. parse_class_data_with_consumed D data off = Inr (cd', n)
     \<and> static_fields cd' = static_fields cd \<and> instance_fields cd' = instance_fields cd
     \<and> list_all2 (method_linked base remap) (direct_methods cd) (direct_methods cd')
     \<and> list_all2 (method_linked base remap) (virtual_methods cd) (virtual_methods cd')" by auto
qed

context dex_deps
begin

lemma read_code_linked:
  assumes cis: "section_holds al (emit_code_entry D) cis blob remap" "btree_ok cis" "list_all (\<lambda>(k, ci). code_laid_out ci) cis"
    and data: "length data < 2 ^ 32" "at_off data (unat base) blob" "base \<noteq> 0" and l: "linked base remap a b"
  shows "read_code D data b = model_code cis a"
proof (cases "a = 0")
  case True
  then show ?thesis using l by (simp add: linked_def read_code_def model_code_def)
next
  case False
  obtain ci local where c: "(a, ci) \<in> set cis" "map_of cis a = Some ci" "map_of remap a = Some local" "b = base + local"
    using linkedD [OF l False cis(1, 2)] by blast
  from code_items.section_reads [OF cis(1, 3) data c(1)] c False show ?thesis by (auto simp: model_code_def)
qed

lemma read_class:
  assumes "section_holds al (emit_class_data_entry D cremap cb) cds blob remap" and "list_all (\<lambda>(k, cd). flags_ok cd) cds"
    and "length data < 2 ^ 32" and "at_off data (unat base) blob" and "base \<noteq> 0" and "(k, cd) \<in> set cds"
    and rc: "\<And>a b. linked cb cremap a b \<Longrightarrow> rc b = mc a"
  shows "\<exists>local cd' n. map_of remap k = Some local \<and> parse_class_data_with_consumed D data (base + local) = Inr (cd', n)
    \<and> view_class_data rc cd' = view_class_data mc cd"
proof -
  obtain local cd' n where p: "map_of remap k = Some local" "parse_class_data_with_consumed D data (base + local) = Inr (cd', n)"
    "static_fields cd' = static_fields cd" "instance_fields cd' = instance_fields cd"
    "list_all2 (method_linked cb cremap) (direct_methods cd) (direct_methods cd')"
    "list_all2 (method_linked cb cremap) (virtual_methods cd) (virtual_methods cd')"
    using class_datas.section_reads [OF assms(1-6)] by blast
  from p(3, 4) view_methods_linked [OF p(5) rc] view_methods_linked [OF p(6) rc] p(1, 2) show ?thesis
    by (auto simp: view_class_data_def)
qed

end

section \<open>Properties\<close>

text \<open>C38 (section_remap_sound). Each section emitter writes every entry of its map, aligned, at the place its returned map
  gives for the entry's old offset, and the returned map has exactly the old offsets as keys.\<close>

theorem section_remap_sound:
  assumes "emit_section align sec ctx emit m = Inr (blob, remap)" and "btree_ok m" and "0 < align"
  shows "map fst remap = map fst m \<and> list_all (\<lambda>(k, x). \<exists>local bs. map_of remap k = Some local \<and> emit k x = Inr bs
    \<and> at_off blob (unat local) bs \<and> align dvd unat local) m"
  using emit_section_holds [OF assms] by (auto simp: section_holds_def list_all_iff)

text \<open>C6 (class_code_refines). Code and class data sections that are written together keep their links: reading a class from
  the new file and following the code offsets of its methods gives the fields, flags and method bodies
  that the maps of the old file gave.\<close>

theorem class_code_refines:
  assumes "dex_deps D" and "emit_code_item_section D cis = Inr (cblob, cremap)" and "emit_class_data_section D cds cremap cb = Inr (dblob, dremap)"
    and "btree_ok cis" and "btree_ok cds" and "list_all (\<lambda>(k, ci). code_laid_out ci) cis" and "list_all (\<lambda>(k, cd). flags_ok cd) cds"
    and "length data < 2 ^ 32" and "at_off data (unat cb) cblob" and "cb \<noteq> 0" and "at_off data (unat db) dblob" and "db \<noteq> 0"
    and "(k, cd) \<in> set cds"
  shows "\<exists>local cd' n. map_of dremap k = Some local \<and> parse_class_data_with_consumed D data (db + local) = Inr (cd', n)
    \<and> view_class_data (read_code D data) cd' = view_class_data (model_code cis) cd"
proof -
  have ch: "section_holds 4 (emit_code_entry D) cis cblob cremap"
    using emit_section_holds assms(2, 4) unfolding emit_code_item_section_def by fastforce
  have dh: "section_holds 1 (emit_class_data_entry D cremap cb) cds dblob dremap"
    using emit_section_holds assms(3, 5) unfolding emit_class_data_section_def by fastforce
  note rc = dex_deps.read_code_linked [OF assms(1) ch assms(4, 6, 8, 9, 10)]
  show ?thesis by (rule dex_deps.read_class [OF assms(1) dh assms(7, 8, 11, 12, 13) rc])
qed

text \<open>C7 (annotations_refine). The four annotation sections that are written together keep their links: reading a directory
  from the new file and following set, reference-list and item offsets gives the annotations that the maps
  of the old file gave, for the class, its fields, its methods and their parameters.\<close>

theorem annotations_refine:
  assumes "dex_deps D" and "emit_annotation_item_section D its = Inr (iblob, iremap)" and "emit_annotation_set_section sets ib iremap = Inr (sblob, sremap)"
    and "emit_annotation_set_ref_list_section refs sb sremap = Inr (rblob, rremap)"
    and "emit_annotation_directory_section dirs sb sremap rb rremap = Inr (dblob, dremap)"
    and ok: "btree_ok its" "btree_ok sets" "btree_ok refs" "btree_ok dirs"
    and items: "list_all (\<lambda>(k, item). ann_ok (item_annotation item) \<and> ann_depth (item_annotation item) \<le> PARSE_STACK_FRAME_CAP) its"
    and lens: "list_all (\<lambda>(k, entries). length entries < 2 ^ 32) sets" "list_all (\<lambda>(k, entries). 0 \<notin> set entries) sets"
      "list_all (\<lambda>(k, entries). length entries < 2 ^ 32) refs"
    and data: "length data < 2 ^ 32" "at_off data (unat ib) iblob" "ib \<noteq> 0" "at_off data (unat sb) sblob" "sb \<noteq> 0"
      "at_off data (unat rb) rblob" "rb \<noteq> 0" "at_off data (unat db) dblob" "db \<noteq> 0"
    and "(k, dir) \<in> set dirs"
  shows "\<exists>local dir'. map_of dremap k = Some local \<and> parse_annotation_directory D data (db + local) = Inr dir'
    \<and> view_directory (read_set D data) (read_ref_list D data) dir' = view_directory (model_set sets its) (model_ref_list refs sets its) dir"
proof -
  have ih: "section_holds 1 (\<lambda>_ item. emit_annotation_item_bytes D item) its iblob iremap"
    using emit_section_holds assms(2) ok(1) unfolding emit_annotation_item_section_def by fastforce
  have sh: "section_holds 4 (emit_set_entry ib iremap) sets sblob sremap"
    using emit_section_holds assms(3) ok(2) unfolding emit_annotation_set_section_def by fastforce
  have rh: "section_holds 4 (emit_ref_list_entry sb sremap) refs rblob rremap"
    using emit_section_holds assms(4) ok(3) unfolding emit_annotation_set_ref_list_section_def by fastforce
  have dh: "section_holds 4 (emit_directory_entry sb sremap rb rremap) dirs dblob dremap"
    using emit_section_holds assms(5) ok(4) unfolding emit_annotation_directory_section_def by fastforce
  note rs = dex_deps.read_set_linked [OF assms(1) ih ok(1) items sh ok(2) lens(1, 2) data(1-5)]
  note rl = dex_deps.read_ref_list_linked [OF assms(1) rh ok(3) lens(3) data(1, 6, 7) rs]
  show ?thesis by (rule dex_deps.read_directory [OF assms(1) dh data(1, 8, 9) assms(23) rs rl])
qed

section \<open>Witnesses\<close>

theorem section_remap_sound_witness:
  "\<exists>blob remap. emit_section 4 ''debug_info_section'' ''debug_info blob exceeds u32 byte offset'' (\<lambda>_ raw. Inr raw) [(0x20, [1, 2, 3]), (0x30, [4])] = Inr (blob, remap)
     \<and> map fst remap = [0x20, 0x30]"
proof -
  have "emit_section 4 ''debug_info_section'' ''debug_info blob exceeds u32 byte offset'' (\<lambda>_ raw. Inr raw) [(0x20, [1, 2, 3]), (0x30, [4])]
      = Inr ([1, 2, 3, 0, 4], [(0x20, 0), (0x30, 4)])"
    by (simp add: emit_section_def section_step_def u32_offset_def pad_to_def Let_def)
  from section_remap_sound [OF this] this show ?thesis by (simp add: btree_ok_def)
qed

definition sample_ci :: CodeItem where
  "sample_ci = \<lparr>registers_size = 2, ins_size = 0, outs_size = 0, debug_info_off = 0x40, instructions = codes sample_items,
     tries = sample_tries, catch_handlers = sample_handlers, payloads = tables sample_items, invariant_violations = []\<rparr>"

definition sample_cd :: "u32 \<Rightarrow> ClassData" where
  "sample_cd code_off = \<lparr>static_fields = [\<lparr>ef_field_idx = FieldIdx 3, ef_access_flags = 0x19\<rparr>], instance_fields = [],
     direct_methods = [\<lparr>em_method_idx = MethodIdx 7, em_access_flags = 0x10001, em_code_off = code_off\<rparr>],
     virtual_methods = [\<lparr>em_method_idx = MethodIdx 9, em_access_flags = 0x401, em_code_off = 0\<rparr>]\<rparr>"

lemma sample_ci_ok: "code_laid_out sample_ci"
  unfolding code_laid_out_def sample_ci_def using sample_layout sample_tries_ok by auto

lemma sample_ci_emits:
  "\<exists>cblob. emit_code_item_section (std_deps (\<lambda>_. [])) [(0x100, sample_ci)] = Inr (cblob, [(0x100, 0)]) \<and> length cblob \<le> 120"
proof -
  obtain insn_bytes where a: "assemble_insn_stream (codes sample_items) (tables sample_items) 10 = Inr insn_bytes" "length insn_bytes = 20"
    using assemble_ok [OF sample_layout] by auto
  obtain bytes where b: "emit_code_item_container (std_deps (\<lambda>_. [])) 2 0 0 0 insn_bytes sample_tries sample_handlers = Inr bytes"
    "length bytes \<le> 120" using sample_emits [OF a(2)] a(2) by auto
  have "emit_code_entry (std_deps (\<lambda>_. [])) 0x100 sample_ci = Inr bytes"
    using a b compute_layout_size [OF sample_layout] by (simp add: emit_code_entry_def sample_ci_def)
  then show ?thesis using b(2) by (simp add: emit_code_item_section_def emit_section_def section_step_def u32_offset_def pad_to_def Let_def)
qed

lemma sample_cd_emits:
  "\<exists>dblob. emit_class_data_section (std_deps (\<lambda>_. [])) [(0x200, sample_cd 0x100)] [(0x100, 0)] 4 = Inr (dblob, [(0x200, 0)]) \<and> length dblob \<le> 60"
proof -
  let ?w = "common_write_uleb128 (std_deps (\<lambda>_. []))"
  define bytes where "bytes = ?w 1 @ ?w 0 @ ?w 1 @ ?w 1 @ ?w 3 @ ?w 0x19 @ ?w 7 @ ?w 0x10001 @ ?w 4 @ ?w 9 @ ?w 0x401 @ ?w 0"
  have "\<And>v. length (?w v) \<le> 5" using std.write_uleb_length by blast
  note le = this [of 1] this [of 0] this [of 3] this [of "0x19"] this [of 7] this [of "0x10001"] this [of 4] this [of 9] this [of "0x401"]
  have l: "length bytes \<le> 60" using le by (simp add: bytes_def)
  have "emit_class_data_entry (std_deps (\<lambda>_. [])) [(0x100, 0)] 4 0x200 (sample_cd 0x100) = Inr bytes"
    by (simp add: emit_class_data_entry_def remap_method_def resolve_off_def checked_add_u32_def sample_cd_def emit_class_data_item_def
        emit_encoded_field_list_def emit_encoded_method_list_def write_field_def write_method_def idx_diff_def list_size_def Let_def bytes_def)
  then show ?thesis using l by (simp add: emit_class_data_section_def emit_section_def section_step_def u32_offset_def Let_def)
qed

theorem class_code_refines_witness:
  "\<exists>data off cd' n. parse_class_data_with_consumed (std_deps (\<lambda>_. [])) data off = Inr (cd', n)
     \<and> view_class_data (read_code (std_deps (\<lambda>_. [])) data) cd' = view_class_data (model_code [(0x100, sample_ci)]) (sample_cd 0x100)"
proof -
  obtain cblob where c: "emit_code_item_section (std_deps (\<lambda>_. [])) [(0x100, sample_ci)] = Inr (cblob, [(0x100, 0)])" "length cblob \<le> 120"
    using sample_ci_emits by blast
  obtain dblob where d: "emit_class_data_section (std_deps (\<lambda>_. [])) [(0x200, sample_cd 0x100)] [(0x100, 0)] 4 = Inr (dblob, [(0x200, 0)])" "length dblob \<le> 60"
    using sample_cd_emits by blast
  define data where "data = [0, 0, 0, 0] @ cblob @ dblob"
  define db :: u32 where "db = of_nat (4 + length cblob)"
  have u: "unat db = 4 + length cblob" unfolding db_def by (rule unat_of_nat_u32) (use c(2) in simp)
  have u4: "unat (4 :: u32) = Suc (Suc (Suc (Suc 0)))" by simp
  have at: "at_off data (unat (4 :: u32)) cblob" "at_off data (unat db) dblob"
    using at_offI [of "[0, 0, 0, 0]" cblob dblob] at_offI [of "[0, 0, 0, 0] @ cblob" dblob "[]"] unfolding u u4 data_def
    by (simp_all add: eval_nat_numeral)
  have nz: "db \<noteq> 0" using u by auto
  have f: "flags_ok (sample_cd 0x100)" by (simp add: flags_ok_def sample_cd_def validate_def scope_mask_def)
  have "length data < 2 ^ 32" using c(2) d(2) by (simp add: data_def)
  from class_code_refines [OF std.dex_deps_axioms c(1) d(1) _ _ _ _ this at(1) _ at(2) nz, of "0x200" "sample_cd 0x100"]
  show ?thesis using sample_ci_ok f by (auto simp: btree_ok_def)
qed

definition sample_dir :: AnnotationDirectoryItem where
  "sample_dir = \<lparr>class_annotations_off = 6, dir_fields = [mk_field 4 6], dir_methods = [mk_method 5 0], dir_parameters = [mk_parameter 5 7]\<rparr>"

lemma sample_dir_words:
  "emit_annotation_set_section [(6, [5])] 4 [(5, 0)] = Inr (words_to_le [1, 4], [(6, 0)])"
  "emit_annotation_set_ref_list_section [(7, [6, 0])] 16 [(6, 0)] = Inr (words_to_le [2, 16, 0], [(7, 0)])"
  "emit_annotation_directory_section [(8, sample_dir)] 16 [(6, 0)] 24 [(7, 0)]
     = Inr (words_to_le [16, 1, 1, 1, 4, 16, 5, 0, 5, 24], [(8, 0)])"
  by (simp_all add: emit_annotation_set_section_def emit_annotation_set_ref_list_section_def emit_annotation_directory_section_def
      emit_section_def section_step_def u32_offset_def pad_to_def Let_def emit_set_entry_def emit_ref_list_entry_def emit_directory_entry_def
      resolve_set_def resolve_ref_list_def resolve_off_def checked_add_u32_def emit_annotation_set_bytes_def sample_dir_def
      emit_annotation_directory_bytes_def u32_count_def entry_bytes_def words_to_le_def mk_field_def mk_method_def mk_parameter_def)

lemma sample_item_minimal: "emit_annotation_item_section (std_deps h) [(5, sample_item)] = Inr ([1, 3, 2, 1, 4, 5, 7, 0x1C, 1, 0x3F], [(5, 0)])"
proof -
  have "emit_primitive (EV_Int 5) = Some [4, 5]" by code_simp
  moreover have "emit_encoded_value (std_deps h) (EV_Array [EV_Boolean True]) = Inr [0x1C, 1, 0x3F]"
    using sample_widths(2) by (simp add: emit_encoded_value_def push_items_def u32_count_def std_deps_def sample_ulebs)
  ultimately show ?thesis
    by (simp add: emit_annotation_item_section_def emit_section_def section_step_def u32_offset_def Let_def emit_annotation_item_bytes_def
        sample_item_def emit_encoded_annotation_def u32_count_def emit_encoded_primitive std_deps_def sample_ulebs)
qed

theorem annotations_refine_witness:
  "\<exists>dir'. parse_annotation_directory (std_deps (\<lambda>_. []))
       ([0, 0, 0, 0] @ [1, 3, 2, 1, 4, 5, 7, 0x1C, 1, 0x3F] @ [0, 0] @ words_to_le [1, 4] @ words_to_le [2, 16, 0]
        @ words_to_le [16, 1, 1, 1, 4, 16, 5, 0, 5, 24]) 36 = Inr dir'
     \<and> view_directory (read_set (std_deps (\<lambda>_. []))
           ([0, 0, 0, 0] @ [1, 3, 2, 1, 4, 5, 7, 0x1C, 1, 0x3F] @ [0, 0] @ words_to_le [1, 4] @ words_to_le [2, 16, 0]
            @ words_to_le [16, 1, 1, 1, 4, 16, 5, 0, 5, 24])) (\<lambda>_. ()) dir'
       = (Some [sample_item], [(FieldIdx 4, Some [sample_item])], [(MethodIdx 5, Some [])], [(MethodIdx 5, ())])"
proof -
  let ?data = "[0, 0, 0, 0] @ [1, 3, 2, 1, 4, 5, 7, 0x1C, 1, 0x3F] @ [0, 0] @ words_to_le [1, 4] @ words_to_le [2, 16, 0]
        @ words_to_le [16, 1, 1, 1, 4, 16, 5, 0, 5, 24] :: byte list"
  have at: "at_off ?data 4 [1, 3, 2, 1, 4, 5, 7, 0x1C, 1, 0x3F]" "at_off ?data 16 (words_to_le [1, 4])"
    "at_off ?data 24 (words_to_le [2, 16, 0])" "at_off ?data 36 (words_to_le [16, 1, 1, 1, 4, 16, 5, 0, 5, 24])"
    by (simp_all add: at_off_def)
  have ok: "ann_ok (item_annotation sample_item)" "ann_depth (item_annotation sample_item) \<le> PARSE_STACK_FRAME_CAP"
    by (simp_all add: sample_item_def btree_ok_def less_StringIdx_def)
  have "\<exists>local dir'. map_of [(8, 0)] (8 :: u32) = Some local \<and> parse_annotation_directory (std_deps (\<lambda>_. [])) ?data (36 + local) = Inr dir'
    \<and> view_directory (read_set (std_deps (\<lambda>_. [])) ?data) (read_ref_list (std_deps (\<lambda>_. [])) ?data) dir'
      = view_directory (model_set [(6, [5])] [(5, sample_item)]) (model_ref_list [(7, [6, 0])] [(6, [5])] [(5, sample_item)]) sample_dir"
    by (rule annotations_refine [OF std.dex_deps_axioms sample_item_minimal sample_dir_words]) (use at ok in \<open>simp_all add: btree_ok_def\<close>)
  then show ?thesis
    by (auto simp: view_directory_def sample_dir_def mk_field_def mk_method_def mk_parameter_def model_set_def)
qed

end
