(* ===== verification/Dex_Pools.thy ===== *)
theory Dex_Pools
  imports Dex_String Dex_Header Dex_Sections
begin

text \<open>
  The identifier pools of the file: the readers of \<open>src/src/parser/mod.rs\<close> and the writers of
  \<open>src/src/emit_dex.rs\<close>. All pools are arrays of fixed-size rows. The interface \<open>id_pool\<close> says what
  a row codec promises, and the pool of each row kind is an instance of it.
\<close>

section \<open>Row sizes\<close>

definition CLASS_DEF_ITEM_SIZE :: nat where "CLASS_DEF_ITEM_SIZE = 32"
definition PROTO_ID_ITEM_SIZE :: nat where "PROTO_ID_ITEM_SIZE = 12"
definition FIELD_ID_ITEM_SIZE :: nat where "FIELD_ID_ITEM_SIZE = 8"
definition METHOD_ID_ITEM_SIZE :: nat where "METHOD_ID_ITEM_SIZE = 8"
definition STRING_ID_ITEM_SIZE :: nat where "STRING_ID_ITEM_SIZE = 4"
definition TYPE_ID_ITEM_SIZE :: nat where "TYPE_ID_ITEM_SIZE = 4"
definition TYPE_LIST_ITEM_SIZE :: nat where "TYPE_LIST_ITEM_SIZE = 2"

lemmas row_sizes = CLASS_DEF_ITEM_SIZE_def PROTO_ID_ITEM_SIZE_def FIELD_ID_ITEM_SIZE_def METHOD_ID_ITEM_SIZE_def
  STRING_ID_ITEM_SIZE_def TYPE_ID_ITEM_SIZE_def TYPE_LIST_ITEM_SIZE_def

section \<open>Reading the pools\<close>

text \<open>The loop shared by the pool readers: row \<open>i\<close> is at \<open>base + i * stride\<close>.\<close>

definition read_pool ::
  "deps \<Rightarrow> byte list \<Rightarrow> u32 \<Rightarrow> u32 \<Rightarrow> nat \<Rightarrow> string \<Rightarrow> string \<Rightarrow> string \<Rightarrow> (nat \<Rightarrow> DexError + 'a) \<Rightarrow> DexError + 'a list" where
  "read_pool D data n_rows base stride item mul_ctx add_ctx row =
     bindE (bound_count D n_rows stride (length data) item) (\<lambda>count.
     mapE (\<lambda>i. bindE (safe_mul i stride mul_ctx) (\<lambda>step.
               bindE (safe_add (unat base) step add_ctx) row)) [0..<count])"

definition check_index :: "string \<Rightarrow> u32 \<Rightarrow> nat \<Rightarrow> DexError + unit" where
  "check_index pool idx pool_size =
     (if pool_size \<le> unat idx then Inl (IndexOob pool idx (of_nat pool_size)) else Inr ())"

text \<open>The first zero byte at or after a position.\<close>

definition nul_position :: "byte list \<Rightarrow> nat option" where
  "nul_position suffix = (let n = length (takeWhile (\<lambda>b. b \<noteq> 0) suffix) in if n < length suffix then Some n else None)"

definition string_entry :: "(byte list \<Rightarrow> nat + rstring) \<Rightarrow> byte list \<Rightarrow> u32 \<Rightarrow> bool \<Rightarrow> DexString" where
  "string_entry decode_mutf8 raw declared had_term =
     (case decode_mutf8 raw of
        Inr s \<Rightarrow> Decoded raw s declared had_term
      | Inl e \<Rightarrow> new_malformed_mutf8 raw e declared had_term)"

definition parse_string_data ::
  "deps \<Rightarrow> (byte list \<Rightarrow> nat + rstring) \<Rightarrow> byte list \<Rightarrow> u32 \<Rightarrow> DexError + (DexString \<times> u32)" where
  "parse_string_data D decode_mutf8 data data_pos =
     (let sdo = unat data_pos in
      if length data \<le> sdo then Inl (OffsetOutOfBounds data_pos (length data))
      else bindE (read_uleb128 D data sdo) (\<lambda>(declared, uleb_len).
           bindE (safe_add sdo uleb_len ''parse_string_pool:str_start'') (\<lambda>str_start.
           let nul_pos = nul_position (drop str_start data) in
           bindE (case nul_pos of Some p \<Rightarrow> safe_add str_start p ''parse_string_pool:str_end''
                                | None \<Rightarrow> Inr (length data)) (\<lambda>str_end.
           let raw = (case get_range data str_start str_end of Some r \<Rightarrow> r | None \<Rightarrow> []) in
           Inr (string_entry decode_mutf8 raw declared (nul_pos \<noteq> None), data_pos)))))"

definition parse_string_row ::
  "deps \<Rightarrow> (byte list \<Rightarrow> nat + rstring) \<Rightarrow> byte list \<Rightarrow> byte list \<Rightarrow> nat \<Rightarrow> DexError + (DexString \<times> u32)" where
  "parse_string_row D decode_mutf8 data ids off_pos = bindE (read_u32 D ids off_pos) (parse_string_data D decode_mutf8 data)"

definition parse_string_pool ::
  "deps \<Rightarrow> (byte list \<Rightarrow> nat + rstring) \<Rightarrow> byte list \<Rightarrow> DexHeader \<Rightarrow> DexError + (DexString list \<times> u32 list)" where
  "parse_string_pool D decode_mutf8 data h =
     bindE (read_pool D data (string_ids_size h) (string_ids_off h) STRING_ID_ITEM_SIZE ''string_ids''
              ''parse_string_pool:i*stride'' ''parse_string_pool:off_pos'' (parse_string_row D decode_mutf8 data data)) (\<lambda>rows.
     Inr (map fst rows, map snd rows))"

definition parse_type_row :: "deps \<Rightarrow> DexString list \<Rightarrow> byte list \<Rightarrow> nat \<Rightarrow> DexError + (rstring \<times> u32)" where
  "parse_type_row D strs data off =
     bindE (read_u32 D data off) (\<lambda>descriptor_idx.
     bindE (ok_or (get_at strs (unat descriptor_idx)) (IndexOob ''String'' descriptor_idx (of_nat (length strs)))) (\<lambda>s.
     Inr (as_str_lossy s, descriptor_idx)))"

definition parse_types :: "deps \<Rightarrow> byte list \<Rightarrow> DexHeader \<Rightarrow> DexString list \<Rightarrow> DexError + (rstring list \<times> u32 list)" where
  "parse_types D data h strs =
     bindE (read_pool D data (type_ids_size h) (type_ids_off h) TYPE_ID_ITEM_SIZE ''type_ids''
              ''parser:parse_types:i*4'' ''parser:parse_types:off'' (parse_type_row D strs data)) (\<lambda>rows.
     Inr (map fst rows, map snd rows))"

definition parse_proto_row :: "deps \<Rightarrow> nat \<Rightarrow> nat \<Rightarrow> byte list \<Rightarrow> nat \<Rightarrow> DexError + ProtoIdItem" where
  "parse_proto_row D string_count type_count data off =
     bindE (read_u32 D data off) (\<lambda>shorty.
     bindE (safe_add off 4 ''parser:parse_protos:off+4'') (\<lambda>off_ret.
     bindE (read_u32 D data off_ret) (\<lambda>ret.
     bindE (safe_add off 8 ''parser:parse_protos:off+8'') (\<lambda>off_params.
     bindE (read_u32 D data off_params) (\<lambda>params.
     bindE (check_index ''String'' shorty string_count) (\<lambda>_.
     bindE (check_index ''Type'' ret type_count) (\<lambda>_.
     Inr \<lparr>shorty_idx = StringIdx shorty, return_type_idx = TypeIdx ret, parameters_off = params\<rparr>)))))))"

definition parse_protos :: "deps \<Rightarrow> byte list \<Rightarrow> DexHeader \<Rightarrow> DexString list \<Rightarrow> nat \<Rightarrow> DexError + ProtoIdItem list" where
  "parse_protos D data h strs type_count =
     read_pool D data (proto_ids_size h) (proto_ids_off h) PROTO_ID_ITEM_SIZE ''proto_ids''
       ''parser:parse_protos:i*12'' ''parser:parse_protos:off'' (parse_proto_row D (length strs) type_count data)"

text \<open>A type list: a count and that many 16-bit type indices.\<close>

definition parse_type_item :: "deps \<Rightarrow> byte list \<Rightarrow> nat \<Rightarrow> nat \<Rightarrow> string \<Rightarrow> nat \<Rightarrow> DexError + TypeIdx" where
  "parse_type_item D data type_count base ctx j =
     bindE (safe_mul j 2 (''parser:'' @ ctx @ '':j*2'')) (\<lambda>j2.
     bindE (safe_add base 4 (''parser:'' @ ctx @ '':base+4'')) (\<lambda>base4.
     bindE (safe_add base4 j2 (''parser:'' @ ctx @ '':idx_off'')) (\<lambda>idx_off.
     bindE (read_u16 D data idx_off) (\<lambda>t.
     bindE (check_index ''Type'' (ucast t) type_count) (\<lambda>_.
     Inr (TypeIdx (ucast t)))))))"

definition parse_one_type_list ::
  "deps \<Rightarrow> byte list \<Rightarrow> nat \<Rightarrow> string \<Rightarrow> string \<Rightarrow> u32 \<Rightarrow> DexError + TypeIdx list" where
  "parse_one_type_list D data type_count item ctx off =
     bindE (read_u32 D data (unat off)) (\<lambda>size.
     bindE (bound_count D size TYPE_LIST_ITEM_SIZE (length data) item) (\<lambda>n.
     mapE (parse_type_item D data type_count (unat off) ctx) [0..<n]))"

definition type_lists_step ::
  "deps \<Rightarrow> byte list \<Rightarrow> nat \<Rightarrow> (u32 \<times> TypeIdx list) list \<Rightarrow> ProtoIdItem \<Rightarrow> DexError + (u32 \<times> TypeIdx list) list" where
  "type_lists_step D data type_count tls proto =
     (let off = parameters_off proto in
      if off = 0 \<or> map_of tls off \<noteq> None then Inr tls
      else bindE (parse_one_type_list D data type_count ''type_list'' ''parse_type_lists'' off) (\<lambda>params.
           Inr (btree_insert off params tls)))"

definition parse_type_lists ::
  "deps \<Rightarrow> byte list \<Rightarrow> ProtoIdItem list \<Rightarrow> nat \<Rightarrow> DexError + (u32 \<times> TypeIdx list) list" where
  "parse_type_lists D data protos type_count = foldE (type_lists_step D data type_count) [] protos"

text \<open>The interface lists of the classes use the same layout; a failure is recorded and the class goes
  without its list.\<close>

definition extend_one_interface_list ::
  "deps \<Rightarrow> byte list \<Rightarrow> u32 \<Rightarrow> nat \<Rightarrow> (u32 \<times> TypeIdx list) list \<Rightarrow> DexError + (u32 \<times> TypeIdx list) list" where
  "extend_one_interface_list D data off type_count out =
     bindE (parse_one_type_list D data type_count ''interface_list'' ''extend_type_lists'' off) (\<lambda>ifaces.
     Inr (btree_insert off ifaces out))"

definition parse_field_row :: "deps \<Rightarrow> nat \<Rightarrow> nat \<Rightarrow> byte list \<Rightarrow> nat \<Rightarrow> DexError + FieldIdItem" where
  "parse_field_row D type_count string_count data off =
     bindE (read_u16 D data off) (\<lambda>cls.
     bindE (safe_add off 2 ''parser:parse_fields:off+2'') (\<lambda>off_type.
     bindE (read_u16 D data off_type) (\<lambda>ty.
     bindE (safe_add off 4 ''parser:parse_fields:off+4'') (\<lambda>off_name.
     bindE (read_u32 D data off_name) (\<lambda>name.
     bindE (check_index ''Type'' (ucast cls) type_count) (\<lambda>_.
     bindE (check_index ''Type'' (ucast ty) type_count) (\<lambda>_.
     bindE (check_index ''String'' name string_count) (\<lambda>_.
     Inr \<lparr>fi_class_idx = TypeIdx (ucast cls), fi_type_idx = TypeIdx (ucast ty), fi_name_idx = StringIdx name\<rparr>))))))))"

definition parse_fields :: "deps \<Rightarrow> byte list \<Rightarrow> DexHeader \<Rightarrow> nat \<Rightarrow> nat \<Rightarrow> DexError + FieldIdItem list" where
  "parse_fields D data h type_count string_count =
     read_pool D data (field_ids_size h) (field_ids_off h) FIELD_ID_ITEM_SIZE ''field_ids''
       ''parser:parse_fields:i*8'' ''parser:parse_fields:off'' (parse_field_row D type_count string_count data)"

definition parse_method_row :: "deps \<Rightarrow> nat \<Rightarrow> nat \<Rightarrow> nat \<Rightarrow> byte list \<Rightarrow> nat \<Rightarrow> DexError + MethodIdItem" where
  "parse_method_row D type_count proto_count string_count data off =
     bindE (read_u16 D data off) (\<lambda>cls.
     bindE (safe_add off 2 ''parser:parse_methods:off+2'') (\<lambda>off_proto.
     bindE (read_u16 D data off_proto) (\<lambda>pr.
     bindE (safe_add off 4 ''parser:parse_methods:off+4'') (\<lambda>off_name.
     bindE (read_u32 D data off_name) (\<lambda>name.
     bindE (check_index ''Type'' (ucast cls) type_count) (\<lambda>_.
     bindE (check_index ''Proto'' (ucast pr) proto_count) (\<lambda>_.
     bindE (check_index ''String'' name string_count) (\<lambda>_.
     Inr \<lparr>mi_class_idx = TypeIdx (ucast cls), mi_proto_idx = ProtoIdx (ucast pr), mi_name_idx = StringIdx name\<rparr>))))))))"

definition parse_methods :: "deps \<Rightarrow> byte list \<Rightarrow> DexHeader \<Rightarrow> nat \<Rightarrow> nat \<Rightarrow> nat \<Rightarrow> DexError + MethodIdItem list" where
  "parse_methods D data h type_count proto_count string_count =
     read_pool D data (method_ids_size h) (method_ids_off h) METHOD_ID_ITEM_SIZE ''method_ids''
       ''parser:parse_methods:i*8'' ''parser:parse_methods:off'' (parse_method_row D type_count proto_count string_count data)"

definition class_word :: "deps \<Rightarrow> byte list \<Rightarrow> nat \<Rightarrow> nat \<Rightarrow> DexError + u32" where
  "class_word D data off field_off =
     bindE (safe_add off field_off ''parser:parse_class_defs:off+field_off'') (read_u32 D data)"

definition check_optional :: "string \<Rightarrow> u32 \<Rightarrow> nat \<Rightarrow> DexError + unit" where
  "check_optional pool raw pool_size = (if raw = NO_INDEX then Inr () else check_index pool raw pool_size)"

definition parse_class_row :: "deps \<Rightarrow> nat \<Rightarrow> nat \<Rightarrow> byte list \<Rightarrow> nat \<Rightarrow> DexError + ClassDefItem" where
  "parse_class_row D type_count string_count data off =
     bindE (class_word D data off 0) (\<lambda>cls.
     bindE (class_word D data off 4) (\<lambda>raw_flags.
     bindE (validate raw_flags Class) (\<lambda>flags.
     bindE (class_word D data off 8) (\<lambda>superclass_raw.
     bindE (class_word D data off 12) (\<lambda>ifaces.
     bindE (class_word D data off 16) (\<lambda>source_raw.
     bindE (class_word D data off 20) (\<lambda>annots.
     bindE (class_word D data off 24) (\<lambda>cdata.
     bindE (class_word D data off 28) (\<lambda>statics.
     bindE (check_index ''Type'' cls type_count) (\<lambda>_.
     bindE (check_optional ''Type'' superclass_raw type_count) (\<lambda>_.
     bindE (check_optional ''String'' source_raw string_count) (\<lambda>_.
     Inr \<lparr>cd_class_idx = TypeIdx cls, cd_access_flags = flags, superclass_idx = optional_type_idx superclass_raw,
          interfaces_off = ifaces, source_file_idx = optional_string_idx source_raw, annotations_off = annots,
          class_data_off = cdata, static_values_off = statics\<rparr>))))))))))))"

definition parse_class_defs :: "deps \<Rightarrow> byte list \<Rightarrow> DexHeader \<Rightarrow> nat \<Rightarrow> nat \<Rightarrow> DexError + ClassDefItem list" where
  "parse_class_defs D data h type_count string_count =
     read_pool D data (class_defs_size h) (class_defs_off h) CLASS_DEF_ITEM_SIZE ''class_defs''
       ''parser:parse_class_defs:i*32'' ''parser:parse_class_defs:off'' (parse_class_row D type_count string_count data)"

section \<open>Writing the pools\<close>

definition concat_rows :: "('a \<Rightarrow> DexEmitError + byte list) \<Rightarrow> 'a list \<Rightarrow> DexEmitError + byte list" where
  "concat_rows emit xs = bindE (mapE emit xs) (\<lambda>bss. Inr (concat bss))"

definition narrow_u16 :: "string \<Rightarrow> u32 \<Rightarrow> DexEmitError + u16" where
  "narrow_u16 why w = (if unat w < 2 ^ 16 then Inr (ucast w) else Inl (UnrepresentableIR why))"

text \<open>The string data starts at 0 here; the assembly shifts the offsets to the file.\<close>

definition string_pool_step :: "deps \<Rightarrow> byte list \<times> byte list \<Rightarrow> u32 \<times> byte list \<Rightarrow> byte list \<times> byte list" where
  "string_pool_step D st entry =
     (case st of (id_items, data_items) \<Rightarrow> case entry of (declared, bytes) \<Rightarrow>
        (id_items @ u32_to_le (of_nat (length data_items)),
         data_items @ common_write_uleb128 D declared @ bytes @ [0]))"

definition emit_string_pool :: "deps \<Rightarrow> (u32 \<times> byte list) list \<Rightarrow> byte list \<times> byte list" where
  "emit_string_pool D strs = foldl (string_pool_step D) ([], []) strs"

definition emit_type_pool :: "StringIdx list \<Rightarrow> byte list" where
  "emit_type_pool idxs = concat (map (\<lambda>i. u32_to_le (un_StringIdx i)) idxs)"

definition emit_proto_row :: "ProtoIdItem \<Rightarrow> byte list" where
  "emit_proto_row p = words_to_le [un_StringIdx (shorty_idx p), un_TypeIdx (return_type_idx p), parameters_off p]"

definition emit_proto_pool :: "ProtoIdItem list \<Rightarrow> byte list" where
  "emit_proto_pool protos = concat (map emit_proto_row protos)"

definition emit_field_row :: "FieldIdItem \<Rightarrow> DexEmitError + byte list" where
  "emit_field_row f =
     bindE (narrow_u16 ''field_id_item.class_idx exceeds u16 type_id space (DEX 7.8)'' (un_TypeIdx (fi_class_idx f))) (\<lambda>c.
     bindE (narrow_u16 ''field_id_item.type_idx exceeds u16 type_id space (DEX 7.8)'' (un_TypeIdx (fi_type_idx f))) (\<lambda>t.
     Inr (u16_to_le c @ u16_to_le t @ u32_to_le (un_StringIdx (fi_name_idx f)))))"

definition emit_field_pool :: "FieldIdItem list \<Rightarrow> DexEmitError + byte list" where
  "emit_field_pool fs = concat_rows emit_field_row fs"

definition emit_method_row :: "MethodIdItem \<Rightarrow> DexEmitError + byte list" where
  "emit_method_row m =
     bindE (narrow_u16 ''method_id_item.class_idx exceeds u16 type_id space (DEX 7.9)'' (un_TypeIdx (mi_class_idx m))) (\<lambda>c.
     bindE (narrow_u16 ''method_id_item.proto_idx exceeds u16 proto_id space (DEX 7.9)'' (un_ProtoIdx (mi_proto_idx m))) (\<lambda>p.
     Inr (u16_to_le c @ u16_to_le p @ u32_to_le (un_StringIdx (mi_name_idx m)))))"

definition emit_method_pool :: "MethodIdItem list \<Rightarrow> DexEmitError + byte list" where
  "emit_method_pool ms = concat_rows emit_method_row ms"

definition emit_class_row :: "ClassDefItem \<Rightarrow> DexEmitError + byte list" where
  "emit_class_row c =
     (if un_TypeIdx (cd_class_idx c) = NO_INDEX
      then Inl (UnrepresentableIR ''class_def_item.class_idx collides with NO_INDEX sentinel (DEX 7.10)'')
      else if superclass_idx c = Some (TypeIdx NO_INDEX)
      then Inl (UnrepresentableIR ''class_def.superclass_idx = Some(TypeIdx(NO_INDEX)) collides with None sentinel'')
      else if source_file_idx c = Some (StringIdx NO_INDEX)
      then Inl (UnrepresentableIR ''class_def.source_file_idx = Some(StringIdx(NO_INDEX)) collides with None sentinel'')
      else Inr (words_to_le [un_TypeIdx (cd_class_idx c), cd_access_flags c,
                  (case superclass_idx c of Some t \<Rightarrow> un_TypeIdx t | None \<Rightarrow> NO_INDEX), interfaces_off c,
                  (case source_file_idx c of Some s \<Rightarrow> un_StringIdx s | None \<Rightarrow> NO_INDEX), annotations_off c,
                  class_data_off c, static_values_off c]))"

definition emit_class_def_pool :: "ClassDefItem list \<Rightarrow> DexEmitError + byte list" where
  "emit_class_def_pool classes = concat_rows emit_class_row classes"


section \<open>What a pool reader guarantees\<close>

definition proto_ok :: "nat \<Rightarrow> nat \<Rightarrow> ProtoIdItem \<Rightarrow> bool" where
  "proto_ok string_count type_count p \<longleftrightarrow>
     unat (un_StringIdx (shorty_idx p)) < string_count \<and> unat (un_TypeIdx (return_type_idx p)) < type_count"

definition field_ok :: "nat \<Rightarrow> nat \<Rightarrow> FieldIdItem \<Rightarrow> bool" where
  "field_ok type_count string_count f \<longleftrightarrow>
     unat (un_TypeIdx (fi_class_idx f)) < type_count \<and> unat (un_TypeIdx (fi_type_idx f)) < type_count
     \<and> unat (un_StringIdx (fi_name_idx f)) < string_count"

definition method_ok :: "nat \<Rightarrow> nat \<Rightarrow> nat \<Rightarrow> MethodIdItem \<Rightarrow> bool" where
  "method_ok type_count proto_count string_count m \<longleftrightarrow>
     unat (un_TypeIdx (mi_class_idx m)) < type_count \<and> unat (un_ProtoIdx (mi_proto_idx m)) < proto_count
     \<and> unat (un_StringIdx (mi_name_idx m)) < string_count"

definition class_ok :: "nat \<Rightarrow> nat \<Rightarrow> ClassDefItem \<Rightarrow> bool" where
  "class_ok type_count string_count c \<longleftrightarrow>
     unat (un_TypeIdx (cd_class_idx c)) < type_count
     \<and> (case superclass_idx c of None \<Rightarrow> True | Some t \<Rightarrow> unat (un_TypeIdx t) < type_count)
     \<and> (case source_file_idx c of None \<Rightarrow> True | Some s \<Rightarrow> unat (un_StringIdx s) < string_count)
     \<and> validate (cd_access_flags c) Class = Inr (cd_access_flags c)"

definition type_list_ok :: "nat \<Rightarrow> TypeIdx list \<Rightarrow> bool" where
  "type_list_ok type_count ts \<longleftrightarrow> list_all (\<lambda>t. unat (un_TypeIdx t) < type_count) ts"

lemmas row_ok_defs = proto_ok_def field_ok_def method_ok_def class_ok_def type_list_ok_def

lemma check_index_Inr [simp]: "check_index pool idx n = Inr u \<longleftrightarrow> unat idx < n"
  by (auto simp: check_index_def)

lemma check_optional_Inr: "check_optional pool raw n = Inr u \<longleftrightarrow> raw = NO_INDEX \<or> unat raw < n"
  by (auto simp: check_optional_def)

lemma validate_idem: "validate raw scope = Inr flags \<Longrightarrow> validate flags scope = Inr flags"
  by (auto simp: validate_def split: if_splits)

section \<open>The interface of a pool\<close>

locale id_pool = count_guard D for D :: deps +
  fixes read_row :: "byte list \<Rightarrow> nat \<Rightarrow> DexError + 'a"
    and emit_row :: "'a \<Rightarrow> DexEmitError + byte list"
    and row_ok :: "'a \<Rightarrow> bool"
    and stride :: nat
  assumes stride_bounds: "0 < stride" "stride \<le> 32"
    and row_length: "emit_row x = Inr bs \<Longrightarrow> length bs = stride"
    and row_back: "emit_row x = Inr bs \<Longrightarrow> row_ok x \<Longrightarrow> fits data \<Longrightarrow> at_off data off bs \<Longrightarrow> read_row data off = Inr x"
    and row_valid: "read_row data off = Inr x \<Longrightarrow> row_ok x"
begin

lemma pool_valid: "read_pool D data n base stride item mc ac (read_row data) = Inr xs \<Longrightarrow> list_all row_ok xs"
  by (auto simp: read_pool_def list_all_iff dest!: mapE_set dest: row_valid)

lemma rows_at:
  assumes "mapE emit_row xs = Inr bss" and "at_off data off (concat bss)" and "i < length xs"
  shows "\<exists>bs. emit_row (xs ! i) = Inr bs \<and> at_off data (off + i * stride) bs"
  using assms
proof (induction xs arbitrary: bss off i)
  case (Cons x xs)
  then obtain b bs where b: "emit_row x = Inr b" "mapE emit_row xs = Inr bs" "bss = b # bs" by auto
  show ?case
  proof (cases i)
    case 0
    then show ?thesis using b Cons.prems(2) by (auto simp: at_off_append)
  next
    case (Suc j)
    have "at_off data (off + stride) (concat bs)" using Cons.prems(2) b(3) row_length [OF b(1)] by (simp add: at_off_append)
    from Cons.IH [OF b(2) this] Suc Cons.prems(3) show ?thesis by (auto simp: ac_simps)
  qed
qed simp

lemma rows_length: "mapE emit_row xs = Inr bss \<Longrightarrow> length (concat bss) = length xs * stride"
  by (induction xs arbitrary: bss) (auto simp: row_length)

lemma pool_back:
  assumes "concat_rows emit_row xs = Inr blob" and "list_all row_ok xs" and "fits data"
    and "at_off data (unat base) blob" and "unat n = length xs"
  shows "read_pool D data n base stride item mc ac (read_row data) = Inr xs"
proof -
  obtain bss where b: "mapE emit_row xs = Inr bss" "blob = concat bss" using assms(1) by (auto simp: concat_rows_def)
  have len: "length xs * stride \<le> length data" using at_off_len [OF assms(4)] rows_length [OF b(1)] b(2) by simp
  have "mapE (\<lambda>i. bindE (safe_mul i stride mc) (\<lambda>step. bindE (safe_add (unat base) step ac) (read_row data))) [0..<length xs] = Inr xs"
  proof (rule mapE_upt)
    fix i assume i: "i < length xs"
    obtain bs where bs: "emit_row (xs ! i) = Inr bs" "at_off data (unat base + i * stride) bs"
      using rows_at [OF b(1) assms(4) [unfolded b(2)] i] by blast
    have "row_ok (xs ! i)" using assms(2) i by (simp add: list_all_length)
    moreover have "unat base + i * stride < 2 ^ 63" using at_off_len [OF bs(2)] assms(3) by (simp add: fits_def)
    ultimately show "bindE (safe_mul i stride mc) (\<lambda>step. bindE (safe_add (unat base) step ac) (read_row data)) = Inr (xs ! i)"
      using row_back [OF bs(1) _ assms(3) bs(2)] by simp
  qed simp
  moreover have "bound_count D n stride (length data) item = Inr (length xs)"
    using bound_count_fits [of stride "length data" n item] stride_bounds(1) assms(3, 5) len by (simp add: fits_def)
  ultimately show ?thesis by (simp add: read_pool_def)
qed

end


lemma concat_rows_total: "concat_rows (\<lambda>x. Inr (f x)) xs = Inr (concat (map f xs))"
  by (induction xs) (auto simp: concat_rows_def)

section \<open>The pools of the file\<close>

text \<open>A row of words at a file position, read word by word.\<close>


context dex_deps begin

lemma word_at:
  "fits data \<Longrightarrow> at_off data off (words_to_le ws) \<Longrightarrow> k < length ws \<Longrightarrow>
     off + 4 * k < 2 ^ 63 \<and> read_u32 D data (off + 4 * k) = Inr (ws ! k)"
  using at_off_words_nth [of data off ws k] read_u32_at [of data "off + 4 * k" "ws ! k"] at_off_len [of data off "words_to_le ws"]
  by (simp add: fits_def)

lemma proto_row_back:
  assumes "proto_ok sc tc p" and "fits data" and "at_off data off (emit_proto_row p)"
  shows "parse_proto_row D sc tc data off = Inr p"
  using word_at [OF assms(2) assms(3) [unfolded emit_proto_row_def], of 0] word_at [OF assms(2) assms(3) [unfolded emit_proto_row_def], of 1]
    word_at [OF assms(2) assms(3) [unfolded emit_proto_row_def], of 2] assms(1)
  by (simp add: parse_proto_row_def proto_ok_def)

lemma class_row_back:
  assumes "emit_class_row c = Inr bs" and "class_ok tc sc c" and "fits data" and "at_off data off bs"
  shows "parse_class_row D tc sc data off = Inr c"
proof -
  let ?ws = "[un_TypeIdx (cd_class_idx c), cd_access_flags c,
                  (case superclass_idx c of Some t \<Rightarrow> un_TypeIdx t | None \<Rightarrow> NO_INDEX), interfaces_off c,
                  (case source_file_idx c of Some s \<Rightarrow> un_StringIdx s | None \<Rightarrow> NO_INDEX), annotations_off c,
                  class_data_off c, static_values_off c]"
  have bs: "bs = words_to_le ?ws" and n: "superclass_idx c \<noteq> Some (TypeIdx NO_INDEX)" "source_file_idx c \<noteq> Some (StringIdx NO_INDEX)"
    using assms(1) by (auto simp: emit_class_row_def split: if_splits)
  have w: "class_word D data off (4 * k) = Inr (?ws ! k)" if "k < 8" for k
    using word_at [OF assms(3) assms(4) [unfolded bs], of k] that by (simp add: class_word_def)
  have ws: "class_word D data off 0 = Inr (?ws ! 0)" "class_word D data off 4 = Inr (?ws ! 1)" "class_word D data off 8 = Inr (?ws ! 2)"
    "class_word D data off 12 = Inr (?ws ! 3)" "class_word D data off 16 = Inr (?ws ! 4)" "class_word D data off 20 = Inr (?ws ! 5)"
    "class_word D data off 24 = Inr (?ws ! 6)" "class_word D data off 28 = Inr (?ws ! 7)"
    using w [of 0] w [of 1] w [of 2] w [of 3] w [of 4] w [of 5] w [of 6] w [of 7] by simp_all
  have opt: "optional_type_idx (?ws ! 2) = superclass_idx c" "optional_string_idx (?ws ! 4) = source_file_idx c"
    "check_optional ''Type'' (?ws ! 2) tc = Inr ()" "check_optional ''String'' (?ws ! 4) sc = Inr ()"
    using n assms(2) by (auto simp: optional_type_idx_def optional_string_idx_def check_optional_Inr class_ok_def
        TypeIdx.expand StringIdx.expand split: option.splits)
  show ?thesis
    using assms(2) opt by (simp add: parse_class_row_def ws class_ok_def)
qed

lemma half_words_at:
  assumes "fits data" and "at_off data off (u16_to_le a @ u16_to_le b @ u32_to_le c)"
  shows "off + 8 < 2 ^ 63 + 1" "read_u16 D data off = Inr a" "read_u16 D data (off + 2) = Inr b" "read_u32 D data (off + 4) = Inr c"
  using assms at_off_len [OF assms(2)]
  by (auto simp: at_off_append fits_def add.assoc simp del: add_2_eq_Suc add_2_eq_Suc' intro!: read_u16_at read_u32_at)

lemma narrow_back: "narrow_u16 why w = Inr v \<Longrightarrow> ucast v = w"
  by (auto simp: narrow_u16_def ucast_u16_u32 split: if_splits)

lemma field_row_back:
  assumes "emit_field_row f = Inr bs" and "field_ok tc sc f" and "fits data" and "at_off data off bs"
  shows "parse_field_row D tc sc data off = Inr f"
proof -
  obtain a b where r: "ucast a = un_TypeIdx (fi_class_idx f)" "ucast b = un_TypeIdx (fi_type_idx f)"
    "bs = u16_to_le a @ u16_to_le b @ u32_to_le (un_StringIdx (fi_name_idx f))"
    using assms(1) by (auto simp: emit_field_row_def dest!: narrow_back)
  from half_words_at [OF assms(3) assms(4) [unfolded r(3)]] assms(2) show ?thesis
    by (simp add: parse_field_row_def field_ok_def r(1, 2))
qed

lemma method_row_back:
  assumes "emit_method_row m = Inr bs" and "method_ok tc pc sc m" and "fits data" and "at_off data off bs"
  shows "parse_method_row D tc pc sc data off = Inr m"
proof -
  obtain a b where r: "ucast a = un_TypeIdx (mi_class_idx m)" "ucast b = un_ProtoIdx (mi_proto_idx m)"
    "bs = u16_to_le a @ u16_to_le b @ u32_to_le (un_StringIdx (mi_name_idx m))"
    using assms(1) by (auto simp: emit_method_row_def dest!: narrow_back)
  from half_words_at [OF assms(3) assms(4) [unfolded r(3)]] assms(2) show ?thesis
    by (simp add: parse_method_row_def method_ok_def r(1, 2))
qed

lemma type_row_back:
  "unat i < length strs \<Longrightarrow> fits data \<Longrightarrow> at_off data off (u32_to_le i) \<Longrightarrow>
     parse_type_row D strs data off = Inr (as_str_lossy (strs ! unat i), i)"
  by (simp add: parse_type_row_def read_u32_at get_at_def)

end

definition type_row_ok :: "DexString list \<Rightarrow> rstring \<times> u32 \<Rightarrow> bool" where
  "type_row_ok strs row \<longleftrightarrow> unat (snd row) < length strs \<and> fst row = as_str_lossy (strs ! unat (snd row))"

lemma type_row_valid: "parse_type_row D strs data off = Inr row \<Longrightarrow> type_row_ok strs row"
  by (auto simp: parse_type_row_def type_row_ok_def get_at_def split: if_splits)

lemma proto_row_valid: "parse_proto_row D sc tc data off = Inr p \<Longrightarrow> proto_ok sc tc p"
  by (auto simp: parse_proto_row_def proto_ok_def)

lemma field_row_valid: "parse_field_row D tc sc data off = Inr f \<Longrightarrow> field_ok tc sc f"
  by (auto simp: parse_field_row_def field_ok_def)

lemma method_row_valid: "parse_method_row D tc pc sc data off = Inr m \<Longrightarrow> method_ok tc pc sc m"
  by (auto simp: parse_method_row_def method_ok_def)

lemma class_row_valid: "parse_class_row D tc sc data off = Inr c \<Longrightarrow> class_ok tc sc c"
  by (auto simp: parse_class_row_def class_ok_def check_optional_Inr optional_type_idx_def optional_string_idx_def
      dest: validate_idem)

lemma row_lengths:
  "length (emit_proto_row p) = 12"
  "emit_field_row f = Inr bs \<Longrightarrow> length bs = 8"
  "emit_method_row m = Inr bs \<Longrightarrow> length bs = 8"
  "emit_class_row c = Inr bs \<Longrightarrow> length bs = 32"
  by (auto simp: emit_proto_row_def emit_field_row_def emit_method_row_def emit_class_row_def split: if_splits)

sublocale dex_deps \<subseteq> type_pool: id_pool D "parse_type_row D strs" "\<lambda>row. Inr (u32_to_le (snd row))" "type_row_ok strs" TYPE_ID_ITEM_SIZE for strs
  by unfold_locales (auto simp: row_sizes type_row_ok_def intro: type_row_valid [unfolded type_row_ok_def] dest: type_row_valid
    simp: type_row_back prod_eq_iff)

sublocale dex_deps \<subseteq> proto_pool: id_pool D "parse_proto_row D sc tc" "\<lambda>p. Inr (emit_proto_row p)" "proto_ok sc tc" PROTO_ID_ITEM_SIZE for sc tc
  by unfold_locales (auto simp: row_sizes row_lengths proto_row_back proto_row_valid)

sublocale dex_deps \<subseteq> field_pool: id_pool D "parse_field_row D tc sc" emit_field_row "field_ok tc sc" FIELD_ID_ITEM_SIZE for tc sc
  by unfold_locales (auto simp: row_sizes row_lengths field_row_back field_row_valid)

sublocale dex_deps \<subseteq> method_pool: id_pool D "parse_method_row D tc pc sc" emit_method_row "method_ok tc pc sc" METHOD_ID_ITEM_SIZE for tc pc sc
  by unfold_locales (auto simp: row_sizes row_lengths method_row_back method_row_valid)

sublocale dex_deps \<subseteq> class_pool: id_pool D "parse_class_row D tc sc" emit_class_row "class_ok tc sc" CLASS_DEF_ITEM_SIZE for tc sc
  by unfold_locales (auto simp: row_sizes row_lengths class_row_back class_row_valid)


sublocale dex_deps \<subseteq> string_pool: id_pool D "parse_string_row D dec data" "\<lambda>row. Inr (u32_to_le (snd row))"
  "\<lambda>row. parse_string_data D dec data (snd row) = Inr row" STRING_ID_ITEM_SIZE for dec data
  by unfold_locales
    (auto simp: row_sizes parse_string_row_def parse_string_data_def read_u32_at Let_def split: if_splits)

lemma nul_position_at: "list_all (\<lambda>b. b \<noteq> 0) raw \<Longrightarrow> at_off data off (raw @ [0]) \<Longrightarrow> nul_position (drop off data) = Some (length raw)"
  by (auto simp: at_off_split nul_position_def list_all_iff takeWhile_append2)

context dex_deps begin

lemma string_data_at:
  assumes "fits data" and "at_off data (unat off) (common_write_uleb128 D declared @ raw @ [0])" and "list_all (\<lambda>b. b \<noteq> 0) raw"
  shows "parse_string_data D dec data off = Inr (string_entry dec raw declared True, off)"
proof -
  let ?u = "common_write_uleb128 D declared"
  have u: "at_off data (unat off) ?u" and r: "at_off data (unat off + length ?u) (raw @ [0])"
    using assms(2) by (simp_all add: at_off_append)
  have l: "unat off + length ?u + length raw + 1 \<le> length data" "length data < 2 ^ 63" "0 < length ?u"
    using at_off_len [OF r] assms(1) write_uleb_length by (auto simp: fits_def)
  have "get_range data (unat off + length ?u) (unat off + length ?u + length raw) = Some raw"
    using r by (intro get_range_at) (simp_all add: at_off_append)
  then show ?thesis
    using read_uleb128_at [OF assms(1) u] nul_position_at [OF assms(3) r] l
    by (simp add: parse_string_data_def Let_def)
qed

lemma type_list_back:
  assumes "emit_type_list ts = Inr bs" and "type_list_ok tc ts" and "length ts < 2 ^ 32" and "fits data" and "at_off data (unat off) bs"
  shows "parse_one_type_list D data tc item ctx off = Inr ts"
proof -
  obtain us where u: "list_all2 (\<lambda>t u. (if unat (un_TypeIdx t) < 2 ^ 16 then Inr (ucast (un_TypeIdx t) :: u16)
        else Inl (UnrepresentableIR ''type_list entry exceeds u16 type_id space (DEX 7.3 type_item is u16)'')) = Inr u) ts us"
    "bs = u32_to_le (of_nat (length ts)) @ units_to_le us"
    using assms(1) by (auto simp: emit_type_list_def mapE_Inr_iff)
  have us: "list_all2 (\<lambda>t u. unat (un_TypeIdx t) < 2 ^ 16 \<and> u = ucast (un_TypeIdx t)) ts us"
    by (rule list_all2_mono [OF u(1)]) (auto split: if_splits)
  have len: "length us = length ts" using us by (simp add: list_all2_lengthD)
  have at: "at_off data (unat off) (u32_to_le (of_nat (length ts)))" "at_off data (unat off + 4) (units_to_le us)"
    using assms(5) by (simp_all add: u(2) at_off_append)
  have l: "unat off + 4 + 2 * length ts \<le> length data" "length data < 2 ^ 63"
    using at_off_len [OF at(2)] len assms(4) by (simp_all add: fits_def)
  have n: "unat (of_nat (length ts) :: u32) = length ts" by (rule unat_of_nat_u32 [OF assms(3)])
  have "parse_type_item D data tc (unat off) ctx j = Inr (ts ! j)" if j: "j < length ts" for j
  proof -
    have u: "unat (un_TypeIdx (ts ! j)) < 2 ^ 16" "us ! j = ucast (un_TypeIdx (ts ! j))" "unat (un_TypeIdx (ts ! j)) < tc"
      using list_all2_nthD [OF us j] assms(2) j by (auto simp: type_list_ok_def list_all_length)
    have "read_u16 D data (unat off + 4 + j * 2) = Inr (us ! j)"
      using at_off_units_nth [OF at(2), of j] read_u16_at [OF assms(4)] j len by (simp add: ac_simps)
    with u l j show ?thesis by (simp add: parse_type_item_def ucast_u16_u32)
  qed
  then have "mapE (parse_type_item D data tc (unat off) ctx) [0..<length ts] = Inr ts" by (intro mapE_upt) simp_all
  moreover have "bound_count D (of_nat (length ts)) TYPE_LIST_ITEM_SIZE (length data) item = Inr (length ts)"
    using bound_count_fits [of 2 "length data" "of_nat (length ts)" item] l n by (simp add: row_sizes)
  ultimately show ?thesis using read_u32_at [OF assms(4) at(1)] by (simp add: parse_one_type_list_def)
qed

end

sublocale dex_deps \<subseteq> type_lists: section_codec "\<lambda>_. emit_type_list"
  "\<lambda>data off _ ts. parse_one_type_list D data tc item ctx off = Inr ts" "\<lambda>ts. type_list_ok tc ts \<and> length ts < 2 ^ 32" for tc item ctx
  by unfold_locales (auto intro: type_list_back)


text \<open>The string pool: the identifiers are the positions of the string data.\<close>

lemma words_to_le_snoc: "words_to_le (ws @ [w]) = words_to_le ws @ u32_to_le w"
  by (simp add: words_to_le_def)

lemma emit_string_pool_layout:
  assumes "emit_string_pool D strs = (ids, items)" and "length items < 2 ^ 32"
  shows "\<exists>offs. ids = words_to_le offs \<and>
    list_all2 (\<lambda>(declared, raw) p. at_off items (unat p) (common_write_uleb128 D declared @ raw @ [0])) strs offs"
  using assms
proof (induction strs arbitrary: ids items rule: rev_induct)
  case Nil
  then show ?case by (simp add: emit_string_pool_def words_to_le_def)
next
  case (snoc e strs)
  obtain ids0 items0 where p: "emit_string_pool D strs = (ids0, items0)" by (cases "emit_string_pool D strs")
  obtain d raw where e: "e = (d, raw)" by (cases e)
  let ?p = "of_nat (length items0) :: u32"
  let ?b = "common_write_uleb128 D d @ raw @ [0]"
  have n: "ids = ids0 @ u32_to_le ?p" "items = items0 @ ?b"
    using snoc.prems(1) p by (simp_all add: e emit_string_pool_def string_pool_step_def)
  obtain offs where o: "ids0 = words_to_le offs"
    "list_all2 (\<lambda>(declared, raw) p. at_off items0 (unat p) (common_write_uleb128 D declared @ raw @ [0])) strs offs"
    using snoc.IH [OF p] snoc.prems(2) n(2) by auto
  have "list_all2 (\<lambda>(declared, raw) p. at_off items (unat p) (common_write_uleb128 D declared @ raw @ [0])) strs offs"
    by (rule list_all2_mono [OF o(2)]) (auto simp: n(2) at_off_def)
  moreover have "at_off items (unat ?p) ?b"
    using snoc.prems(2) by (simp add: n(2) unat_of_nat_u32 at_off_def)
  ultimately show ?case
    using o(1) by (intro exI [of _ "offs @ [?p]"]) (simp add: n(1) e words_to_le_snoc list_all2_appendI)
qed

end
