(* ===== verification/Dex_Conformance.thy ===== *)
theory Dex_Conformance
  imports Dex_Pools "HOL-Library.List_Lexorder" "HOL-Library.Product_Lexorder"
begin

text \<open>
  The checks of \<open>src/src/parser/mod.rs\<close> on a whole file: no two identifier sections share a byte (a hard
  gate), and the tolerant checks that only record a failure: pool order, duplicate class definitions,
  class order and reserved bits. The map list is read here because the last check scans its rows.
\<close>

section \<open>Recorded failures\<close>

datatype PoolKind = StringIds | TypeIds | ProtoIds | FieldIds | MethodIds

datatype ParseFailureKind =
    FAnnotationDirectory | FAnnotationSet | FAnnotationSetRefList | FAnnotationItem | FEncodedArray
  | FClassData | FCodeItem | FDebugInfo | FInterfaces | FMapList
  | DuplicateClassDef | OutOfOrder PoolKind | ClassDefOutOfTopologicalOrder | ReservedBitsNonZero

fun is_completeness :: "ParseFailureKind \<Rightarrow> bool" where
  "is_completeness DuplicateClassDef = False"
| "is_completeness (OutOfOrder _) = False"
| "is_completeness ClassDefOutOfTopologicalOrder = False"
| "is_completeness ReservedBitsNonZero = False"
| "is_completeness _ = True"

record ParseFailure =
  pf_kind :: ParseFailureKind
  pf_offset :: u32

definition failure :: "ParseFailureKind \<Rightarrow> u32 \<Rightarrow> ParseFailure" where
  "failure k off = \<lparr>pf_kind = k, pf_offset = off\<rparr>"

text \<open>\<open>u32::try_from(i).unwrap_or(u32::MAX)\<close>.\<close>

definition index_u32 :: "nat \<Rightarrow> u32" where
  "index_u32 i = (if i < 2 ^ 32 then of_nat i else 0xFFFFFFFF)"

section \<open>Overlapping sections\<close>

type_synonym id_section = "string \<times> u32 \<times> u32 \<times> nat"

definition id_sections :: "DexHeader \<Rightarrow> id_section list" where
  "id_sections h =
     [(''string_ids'', string_ids_off h, string_ids_size h, STRING_ID_ITEM_SIZE),
      (''type_ids'', type_ids_off h, type_ids_size h, TYPE_ID_ITEM_SIZE),
      (''proto_ids'', proto_ids_off h, proto_ids_size h, PROTO_ID_ITEM_SIZE),
      (''field_ids'', field_ids_off h, field_ids_size h, FIELD_ID_ITEM_SIZE),
      (''method_ids'', method_ids_off h, method_ids_size h, METHOD_ID_ITEM_SIZE),
      (''class_defs'', class_defs_off h, class_defs_size h, CLASS_DEF_ITEM_SIZE)]"

text \<open>64-bit saturating arithmetic, on numbers.\<close>

definition sat64 :: "nat \<Rightarrow> nat" where
  "sat64 n = min n (2 ^ 64 - 1)"

type_synonym interval = "string \<times> u32 \<times> nat \<times> nat"

definition section_interval :: "id_section \<Rightarrow> interval" where
  "section_interval s =
     (case s of (name, off, count, stride) \<Rightarrow> (name, off, unat off, sat64 (unat off + sat64 (unat count * stride))))"

definition section_intervals :: "DexHeader \<Rightarrow> interval list" where
  "section_intervals h = map section_interval (filter (\<lambda>(name, off, count, stride). count \<noteq> 0) (id_sections h))"

fun overlaps :: "interval \<Rightarrow> interval \<Rightarrow> bool" where
  "overlaps (na, oa, sa, ea) (nb, ob, sb, eb) \<longleftrightarrow> sa < eb \<and> sb < ea"

fun overlap_error :: "bool \<Rightarrow> interval \<Rightarrow> interval \<Rightarrow> DexError" where
  "overlap_error mp (na, oa, sa, ea) (nb, ob, sb, eb) =
     (if sa \<le> sb then SectionOverlap na oa (of_nat ea) nb ob (of_nat eb) mp
      else SectionOverlap nb ob (of_nat eb) na oa (of_nat ea) mp)"

fun find_overlap :: "bool \<Rightarrow> interval list \<Rightarrow> DexError + unit" where
  "find_overlap mp [] = Inr ()"
| "find_overlap mp (a # rest) =
     (case find (overlaps a) rest of Some b \<Rightarrow> Inl (overlap_error mp a b) | None \<Rightarrow> find_overlap mp rest)"

definition check_id_section_overlap :: "DexHeader \<Rightarrow> DexError + unit" where
  "check_id_section_overlap h = find_overlap (map_off h \<noteq> 0) (section_intervals h)"

section \<open>Pool order\<close>

text \<open>The key of a string: its code points, with every continuation byte read as it is and 0 read past the end.\<close>

definition assemble_low_surrogate :: "byte list \<Rightarrow> u32 \<Rightarrow> u32 option" where
  "assemble_low_surrogate bs hi =
     (case bs of [] \<Rightarrow> None
      | b3 # _ \<Rightarrow>
        if b3 AND 0xF0 \<noteq> 0xE0 then None
        else let b4 = safe_get bs 1; b5 = safe_get bs 2;
                 lo = push_bit 12 (ucast (b3 AND 0x0F)) OR push_bit 6 (ucast (b4 AND 0x3F)) OR ucast (b5 AND 0x3F)
             in if 0xDC00 \<le> lo \<and> lo \<le> 0xDFFF
                then Some (0x10000 + push_bit 10 (hi - 0xD800) + (lo - 0xDC00)) else None)"

function mutf8_ordering_key :: "byte list \<Rightarrow> u32 list" where
  "mutf8_ordering_key [] = []"
| "mutf8_ordering_key (b0 # bs) =
     (if b0 AND 0x80 = 0 then ucast b0 # mutf8_ordering_key bs
      else let b1 = safe_get bs 0 in
      if b0 AND 0x20 = 0
      then (push_bit 6 (ucast (b0 AND 0x1F)) OR ucast (b1 AND 0x3F)) # mutf8_ordering_key (drop 1 bs)
      else let b2 = safe_get bs 1;
               cp = push_bit 12 (ucast (b0 AND 0x0F)) OR push_bit 6 (ucast (b1 AND 0x3F)) OR ucast (b2 AND 0x3F)
           in case (if 0xD800 \<le> cp \<and> cp \<le> 0xDBFF then assemble_low_surrogate (drop 2 bs) cp else None) of
                Some sp \<Rightarrow> sp # mutf8_ordering_key (drop 5 bs)
              | None \<Rightarrow> cp # mutf8_ordering_key (drop 2 bs))"
  by pat_completeness auto
termination by (relation "measure length") auto

fun first_inversion_from :: "nat \<Rightarrow> 'a :: linorder option \<Rightarrow> 'a list \<Rightarrow> nat option" where
  "first_inversion_from i prev [] = None"
| "first_inversion_from i prev (cur # rest) =
     (case prev of
        Some p \<Rightarrow> if cur \<le> p then Some i else first_inversion_from (i + 1) (Some cur) rest
      | None \<Rightarrow> first_inversion_from (i + 1) (Some cur) rest)"

definition first_inversion :: "'a :: linorder list \<Rightarrow> nat option" where
  "first_inversion keys = first_inversion_from 0 None keys"

type_synonym type_list_map = "(u32 \<times> TypeIdx list) list"

definition proto_key :: "type_list_map \<Rightarrow> ProtoIdItem \<Rightarrow> TypeIdx \<times> TypeIdx list" where
  "proto_key tls p = (return_type_idx p, case map_of tls (parameters_off p) of Some ts \<Rightarrow> ts | None \<Rightarrow> [])"

definition field_key :: "FieldIdItem \<Rightarrow> TypeIdx \<times> StringIdx \<times> TypeIdx" where
  "field_key f = (fi_class_idx f, fi_name_idx f, fi_type_idx f)"

definition method_key :: "MethodIdItem \<Rightarrow> TypeIdx \<times> StringIdx \<times> ProtoIdx" where
  "method_key m = (mi_class_idx m, mi_name_idx m, mi_proto_idx m)"

definition pool_inversions ::
  "DexString list \<Rightarrow> u32 list \<Rightarrow> ProtoIdItem list \<Rightarrow> type_list_map \<Rightarrow> FieldIdItem list \<Rightarrow> MethodIdItem list \<Rightarrow> (PoolKind \<times> nat option) list" where
  "pool_inversions strs type_idxs protos tls fs ms =
     [(StringIds, first_inversion (map (\<lambda>s. mutf8_ordering_key (raw_bytes s)) strs)),
      (TypeIds, first_inversion type_idxs),
      (ProtoIds, first_inversion (map (proto_key tls) protos)),
      (FieldIds, first_inversion (map field_key fs)),
      (MethodIds, first_inversion (map method_key ms))]"

definition collect_pool_ordering_violations ::
  "DexString list \<Rightarrow> u32 list \<Rightarrow> ProtoIdItem list \<Rightarrow> type_list_map \<Rightarrow> FieldIdItem list \<Rightarrow> MethodIdItem list
     \<Rightarrow> ParseFailure list \<Rightarrow> ParseFailure list" where
  "collect_pool_ordering_violations strs type_idxs protos tls fs ms parse_errors =
     parse_errors @ concat (map (\<lambda>(pool, idx). case idx of Some i \<Rightarrow> [failure (OutOfOrder pool) (index_u32 i)] | None \<Rightarrow> [])
       (pool_inversions strs type_idxs protos tls fs ms))"

section \<open>The class index\<close>

definition index_step :: "u32 option list \<times> u32 list \<Rightarrow> nat \<times> ClassDefItem \<Rightarrow> u32 option list \<times> u32 list" where
  "index_step st row =
     (case st of (idx, duplicates) \<Rightarrow> case row of (i, cd) \<Rightarrow>
        let t = unat (un_TypeIdx (cd_class_idx cd)) in
        if t < length idx \<and> i < 2 ^ 32 then
          (case idx ! t of None \<Rightarrow> (idx[t := Some (of_nat i)], duplicates) | Some _ \<Rightarrow> (idx, duplicates @ [of_nat i]))
        else (idx, duplicates))"

definition rebuild_class_def_index ::
  "nat \<Rightarrow> ClassDefItem list \<Rightarrow> ParseFailure list \<Rightarrow> u32 option list \<times> ParseFailure list" where
  "rebuild_class_def_index type_count class_defs parse_errors =
     (case foldl index_step (replicate type_count None, []) (enumerate 0 class_defs) of
        (idx, duplicates) \<Rightarrow> (idx, parse_errors @ map (failure DuplicateClassDef) duplicates))"

primrec find_position :: "('a \<Rightarrow> bool) \<Rightarrow> 'a list \<Rightarrow> nat option" where
  "find_position P [] = None"
| "find_position P (x # xs) = (if P x then Some 0 else map_option Suc (find_position P xs))"

definition class_defs_row_of :: "nat \<Rightarrow> ClassDefItem list \<Rightarrow> u32 option list \<Rightarrow> TypeIdx \<Rightarrow> nat option" where
  "class_defs_row_of type_count class_defs index t =
     (if length index = type_count then Option.bind (get_at index (unat (un_TypeIdx t))) (\<lambda>slot. map_option unat slot)
      else find_position (\<lambda>cd. cd_class_idx cd = t) class_defs)"

definition row_at_least :: "(TypeIdx \<Rightarrow> nat option) \<Rightarrow> nat \<Rightarrow> TypeIdx \<Rightarrow> bool" where
  "row_at_least row_of i t = (case row_of t of Some j \<Rightarrow> i \<le> j | None \<Rightarrow> False)"

definition class_out_of_order :: "(TypeIdx \<Rightarrow> nat option) \<Rightarrow> type_list_map \<Rightarrow> nat \<Rightarrow> ClassDefItem \<Rightarrow> bool" where
  "class_out_of_order row_of tls i cd \<longleftrightarrow>
     (case superclass_idx cd of Some t \<Rightarrow> row_at_least row_of i t | None \<Rightarrow> False)
     \<or> (case map_of tls (interfaces_off cd) of Some ifaces \<Rightarrow> list_ex (row_at_least row_of i) ifaces | None \<Rightarrow> False)"

definition collect_class_def_topo_violations ::
  "(TypeIdx \<Rightarrow> nat option) \<Rightarrow> type_list_map \<Rightarrow> ClassDefItem list \<Rightarrow> ParseFailure list \<Rightarrow> ParseFailure list" where
  "collect_class_def_topo_violations row_of tls class_defs parse_errors =
     (case find (\<lambda>(i, cd). class_out_of_order row_of tls i cd) (enumerate 0 class_defs) of
        Some (i, _) \<Rightarrow> parse_errors @ [failure ClassDefOutOfTopologicalOrder (index_u32 i)]
      | None \<Rightarrow> parse_errors)"

section \<open>The map list\<close>

record MapEntry =
  me_type_code :: u16
  me_size :: u32
  me_offset :: u32

text \<open>\<open>let Some(..) = .. else break\<close>: rows up to the first that cannot be read.\<close>

fun map_while :: "('b \<Rightarrow> 'a option) \<Rightarrow> 'b list \<Rightarrow> 'a list" where
  "map_while f [] = []"
| "map_while f (x # xs) = (case f x of None \<Rightarrow> [] | Some y \<Rightarrow> y # map_while f xs)"

definition checked_usize :: "nat \<Rightarrow> nat option" where
  "checked_usize n = (if n < 2 ^ 64 then Some n else None)"

definition map_row :: "deps \<Rightarrow> byte list \<Rightarrow> nat \<Rightarrow> nat \<Rightarrow> MapEntry option" where
  "map_row D data base i =
     Option.bind (checked_usize (i * 12)) (\<lambda>step.
     Option.bind (checked_usize (step + 4)) (\<lambda>pre.
     Option.bind (checked_usize (base + pre)) (\<lambda>row_off.
     Option.bind (pread_u16 D data row_off) (\<lambda>type_code.
     Option.bind (checked_usize (row_off + 4)) (\<lambda>size_off.
     Option.bind (pread_u32 D data size_off) (\<lambda>sz.
     Option.bind (checked_usize (row_off + 8)) (\<lambda>off_off.
     Option.bind (pread_u32 D data off_off) (\<lambda>off.
     Some \<lparr>me_type_code = type_code, me_size = sz, me_offset = off\<rparr>))))))))"

definition read_map_list :: "deps \<Rightarrow> byte list \<Rightarrow> u32 \<Rightarrow> DexError + MapEntry list" where
  "read_map_list D data map_offset =
     (if map_offset = 0 then Inr []
      else bindE (read_u32 D data (unat map_offset)) (\<lambda>count.
           Inr (map_while (map_row D data (unat map_offset)) [0..<unat count])))"

record MethodHandleItem =
  mh_kind :: u16
  mh_field_or_method_id :: u16

definition TYPE_CALL_SITE_ID_ITEM :: u16 where "TYPE_CALL_SITE_ID_ITEM = 0x0007"
definition TYPE_METHOD_HANDLE_ITEM :: u16 where "TYPE_METHOD_HANDLE_ITEM = 0x0008"

definition method_handle_row :: "deps \<Rightarrow> byte list \<Rightarrow> nat \<Rightarrow> nat \<Rightarrow> MethodHandleItem option" where
  "method_handle_row D data base i =
     Option.bind (checked_usize (i * 8)) (\<lambda>step.
     Option.bind (checked_usize (base + step)) (\<lambda>row_off.
     Option.bind (pread_u16 D data row_off) (\<lambda>k.
     Option.bind (checked_usize (row_off + 4)) (\<lambda>fmi_off.
     Option.bind (pread_u16 D data fmi_off) (\<lambda>f.
     Some \<lparr>mh_kind = k, mh_field_or_method_id = f\<rparr>)))))"

definition call_site_row :: "deps \<Rightarrow> byte list \<Rightarrow> nat \<Rightarrow> nat \<Rightarrow> u32 option" where
  "call_site_row D data base i =
     Option.bind (checked_usize (i * 4)) (\<lambda>step.
     Option.bind (checked_usize (base + step)) (\<lambda>row_off. pread_u32 D data row_off))"

definition map_driven_step ::
  "deps \<Rightarrow> byte list \<Rightarrow> MethodHandleItem list \<times> u32 list \<Rightarrow> MapEntry \<Rightarrow> MethodHandleItem list \<times> u32 list" where
  "map_driven_step D data st e =
     (case st of (mhs, css) \<Rightarrow>
        if me_type_code e = TYPE_METHOD_HANDLE_ITEM
        then (mhs @ map_while (method_handle_row D data (unat (me_offset e))) [0..<unat (me_size e)], css)
        else if me_type_code e = TYPE_CALL_SITE_ID_ITEM
        then (mhs, css @ map_while (call_site_row D data (unat (me_offset e))) [0..<unat (me_size e)])
        else (mhs, css))"

definition parse_map_driven_sections :: "deps \<Rightarrow> byte list \<Rightarrow> DexHeader \<Rightarrow> MethodHandleItem list \<times> u32 list" where
  "parse_map_driven_sections D data h =
     (case read_map_list D data (map_off h) of
        Inl _ \<Rightarrow> ([], [])
      | Inr entries \<Rightarrow> foldl (map_driven_step D data) ([], []) entries)"

section \<open>Reserved bits\<close>

definition nonzero_at :: "deps \<Rightarrow> byte list \<Rightarrow> nat \<Rightarrow> ParseFailure option" where
  "nonzero_at D data off =
     (case pread_u16 D data off of
        Some unused \<Rightarrow> if unused \<noteq> 0 then Some (failure ReservedBitsNonZero (index_u32 off)) else None
      | None \<Rightarrow> None)"

text \<open>The first non-zero reserved field of a list of positions; a position that overflows ends the scan.\<close>

fun first_nonzero :: "deps \<Rightarrow> byte list \<Rightarrow> nat option list \<Rightarrow> ParseFailure list" where
  "first_nonzero D data [] = []"
| "first_nonzero D data (None # offs) = []"
| "first_nonzero D data (Some off # offs) =
     (case nonzero_at D data off of Some f \<Rightarrow> [f] | None \<Rightarrow> first_nonzero D data offs)"

definition map_unused_off :: "nat \<Rightarrow> nat \<Rightarrow> nat option" where
  "map_unused_off map_base i =
     Option.bind (checked_usize (i * 12)) (\<lambda>step. Option.bind (checked_usize (step + 4)) (\<lambda>pre.
     Option.bind (checked_usize (map_base + pre)) (\<lambda>row. checked_usize (row + 2))))"

definition handle_unused_off :: "nat \<Rightarrow> nat \<times> nat \<Rightarrow> nat option" where
  "handle_unused_off mh_base row =
     (case row of (i, fld) \<Rightarrow>
        Option.bind (checked_usize (i * 8)) (\<lambda>step. Option.bind (checked_usize (mh_base + step)) (\<lambda>row_off.
        checked_usize (row_off + fld))))"

definition collect_reserved_bits_violations ::
  "deps \<Rightarrow> byte list \<Rightarrow> u32 \<Rightarrow> MapEntry list \<Rightarrow> ParseFailure list \<Rightarrow> ParseFailure list" where
  "collect_reserved_bits_violations D data map_offset entries parse_errors =
     parse_errors
     @ first_nonzero D data (map (map_unused_off (unat map_offset)) [0..<length entries])
     @ (case find (\<lambda>e. me_type_code e = TYPE_METHOD_HANDLE_ITEM) entries of
          None \<Rightarrow> []
        | Some mh \<Rightarrow> first_nonzero D data (map (handle_unused_off (unat (me_offset mh)))
                      (concat (map (\<lambda>i. [(i, 2), (i, 6)]) [0..<unat (me_size mh)]))))"


section \<open>The overlap gate is exact\<close>

definition section_bytes :: "id_section \<Rightarrow> nat set" where
  "section_bytes s = (case s of (name, off, count, stride) \<Rightarrow> {unat off ..< unat off + unat count * stride})"

lemma sorted_wrt_filter_iff:
  "(\<And>x y. x \<in> set xs \<Longrightarrow> \<not> P x \<Longrightarrow> R x y \<and> R y x) \<Longrightarrow> sorted_wrt R (filter P xs) \<longleftrightarrow> sorted_wrt R xs"
proof (induction xs)
  case (Cons x xs)
  have "sorted_wrt R (filter P xs) \<longleftrightarrow> sorted_wrt R xs" using Cons.prems by (intro Cons.IH) auto
  with Cons.prems show ?case by (auto simp: list.set_intros)
qed simp

lemma sorted_wrt_equiv:
  "(\<And>x y. x \<in> set xs \<Longrightarrow> y \<in> set xs \<Longrightarrow> P x y \<longleftrightarrow> Q x y) \<Longrightarrow> sorted_wrt P xs \<longleftrightarrow> sorted_wrt Q xs"
  by (induction xs) auto

lemma find_overlap_ok: "find_overlap mp xs = Inr () \<longleftrightarrow> sorted_wrt (\<lambda>a b. \<not> overlaps a b) xs"
  by (induction xs) (auto simp: find_None_iff find_Some_iff split: option.splits)

lemma interval_overlap:
  assumes "stride \<le> 32" and "stride' \<le> 32" and "count \<noteq> 0" and "count' \<noteq> 0" and "0 < stride" and "0 < stride'"
  shows "overlaps (section_interval (n, off, count, stride)) (section_interval (n', off', count', stride'))
    \<longleftrightarrow> section_bytes (n, off, count, stride) \<inter> section_bytes (n', off', count', stride') \<noteq> {}"
proof -
  let ?a = "unat off" and ?b = "unat off + unat count * stride" and ?c = "unat off'" and ?d = "unat off' + unat count' * stride'"
  have bound: "unat o' + unat k * st < 2 ^ 64 - 1" if "st \<le> 32" for o' k :: u32 and st :: nat
  proof -
    have "unat k * st \<le> 4294967296 * 32" using unat_u32_lt [of k] that by (intro mult_mono) auto
    with unat_u32_lt [of o'] show ?thesis by simp
  qed
  have sat: "sat64 (unat o' + sat64 (unat k * st)) = unat o' + unat k * st" if "st \<le> 32" for o' k :: u32 and st :: nat
    using bound [OF that, of o' k] by (simp add: sat64_def)
  have ne: "?a < ?b" "?c < ?d" using assms(3-6) by (simp_all add: unat_gt_0)
  have "(?a < ?d \<and> ?c < ?b) \<longleftrightarrow> max ?a ?c \<in> {?a..<?b} \<inter> {?c..<?d}" using ne by auto
  then have "(?a < ?d \<and> ?c < ?b) \<longleftrightarrow> {?a..<?b} \<inter> {?c..<?d} \<noteq> {}" by auto
  then show ?thesis by (auto simp: section_interval_def section_bytes_def sat [OF assms(1)] sat [OF assms(2)])
qed

lemma strides_small: "(n, off, count, stride) \<in> set (id_sections h) \<Longrightarrow> 0 < stride \<and> stride \<le> 32"
  by (auto simp: id_sections_def row_sizes)

text \<open>C9 (id_section_gate_exact). The overlap check of the parser accepts a header exactly when no two of the six
  identifier sections of the header share a byte of the file.\<close>

theorem id_section_gate_exact:
  "check_id_section_overlap h = Inr () \<longleftrightarrow> sorted_wrt (\<lambda>a b. section_bytes a \<inter> section_bytes b = {}) (id_sections h)"
proof -
  let ?P = "\<lambda>(name, off, count, stride). count \<noteq> 0"
  let ?R = "\<lambda>a b. section_bytes a \<inter> section_bytes b = {}"
  have "check_id_section_overlap h = Inr () \<longleftrightarrow>
      sorted_wrt (\<lambda>a b. \<not> overlaps (section_interval a) (section_interval b)) (filter ?P (id_sections h))"
    by (simp add: check_id_section_overlap_def section_intervals_def find_overlap_ok sorted_wrt_map)
  also have "\<dots> \<longleftrightarrow> sorted_wrt ?R (filter ?P (id_sections h))"
    by (rule sorted_wrt_equiv) (auto simp: interval_overlap dest!: strides_small)
  also have "\<dots> \<longleftrightarrow> sorted_wrt ?R (id_sections h)"
    by (rule sorted_wrt_filter_iff) (auto simp: section_bytes_def)
  finally show ?thesis .
qed

section \<open>The order checks are exact\<close>

definition inversion_at :: "'a :: linorder list \<Rightarrow> nat \<Rightarrow> bool" where
  "inversion_at keys i \<longleftrightarrow> 0 < i \<and> i < length keys \<and> keys ! i \<le> keys ! (i - 1) \<and> sorted_wrt (<) (take i keys)"

lemma first_inversion_from_None: "first_inversion_from i (Some p) keys = None \<longleftrightarrow> sorted_wrt (<) (p # keys)"
  by (induction keys arbitrary: i p) (simp, auto simp: sorted_wrt2 simp del: sorted_wrt.simps(2))

lemma first_inversion_None: "first_inversion keys = None \<longleftrightarrow> sorted_wrt (<) keys"
  by (cases keys) (simp_all add: first_inversion_def first_inversion_from_None del: sorted_wrt.simps(2))


lemma first_inversion_from_Some:
  "first_inversion_from j (Some p) keys = Some i \<Longrightarrow> \<exists>k. i = j + k \<and> inversion_at (p # keys) (Suc k)"
proof (induction keys arbitrary: j p)
  case (Cons c keys)
  show ?case
  proof (cases "c \<le> p")
    case True
    with Cons.prems show ?thesis by (auto simp: inversion_at_def)
  next
    case False
    then obtain k where k: "i = j + 1 + k" "inversion_at (c # keys) (Suc k)" using Cons.IH [of "j + 1" c] Cons.prems by auto
    have "inversion_at (p # c # keys) (Suc (Suc k))"
      using k(2) False by (auto simp: inversion_at_def)
    with k(1) show ?thesis by (intro exI [of _ "Suc k"]) simp
  qed
qed simp

lemma first_inversion_Some: "first_inversion keys = Some i \<Longrightarrow> inversion_at keys i"
  using first_inversion_from_Some [of 1 _ _ i] by (cases keys) (fastforce simp: first_inversion_def)+

lemma inversion_unsorted: "inversion_at keys i \<Longrightarrow> \<not> sorted_wrt (<) keys"
  using sorted_wrt_nth_less [of "(<)" keys "i - 1" i] by (auto simp: inversion_at_def)

lemma inversion_unique: "inversion_at keys i \<Longrightarrow> inversion_at keys j \<Longrightarrow> i = j"
proof (induction i j rule: linorder_wlog)
  case (le i j)
  have "\<not> i < j"
  proof
    assume "i < j"
    then have "inversion_at (take j keys) i" using le by (auto simp: inversion_at_def min_def)
    with le(3) show False using inversion_unsorted [of "take j keys" i] by (simp add: inversion_at_def [of keys])
  qed
  with le(1) show ?case by simp
qed auto

lemma first_inversion_iff: "first_inversion keys = Some i \<longleftrightarrow> inversion_at keys i"
proof
  assume i: "inversion_at keys i"
  then obtain j where "first_inversion keys = Some j" using inversion_unsorted first_inversion_None by fastforce
  with first_inversion_Some inversion_unique [OF i] show "first_inversion keys = Some i" by metis
qed (rule first_inversion_Some)

lemma first_inversion_iff_sym: "Some i = first_inversion keys \<longleftrightarrow> inversion_at keys i"
  by (metis first_inversion_iff)

text \<open>Modified UTF-8 as the DEX format writes it: U+0000 in two bytes, a supplementary code point as the
  two surrogates, three bytes each. A text is a list of code points in which no high surrogate stands before a
  low one (such a pair would be the supplementary code point).\<close>

definition mutf8_unit :: "nat \<Rightarrow> byte list" where
  "mutf8_unit c = [of_nat (0xE0 + c div 4096), of_nat (0x80 + c div 64 mod 64), of_nat (0x80 + c mod 64)]"

definition mutf8_char :: "nat \<Rightarrow> byte list" where
  "mutf8_char c =
     (if 0 < c \<and> c < 0x80 then [of_nat c]
      else if c < 0x800 then [of_nat (0xC0 + c div 64), of_nat (0x80 + c mod 64)]
      else if c < 0x10000 then mutf8_unit c
      else mutf8_unit (0xD800 + (c - 0x10000) div 1024) @ mutf8_unit (0xDC00 + (c - 0x10000) mod 1024))"

definition mutf8_encode :: "nat list \<Rightarrow> byte list" where
  "mutf8_encode cs = concat (map mutf8_char cs)"

fun mutf8_text :: "nat list \<Rightarrow> bool" where
  "mutf8_text [] \<longleftrightarrow> True"
| "mutf8_text (c # cs) \<longleftrightarrow> c < 0x110000 \<and> mutf8_text cs
     \<and> \<not> (0xD800 \<le> c \<and> c < 0xDC00 \<and> (\<exists>d ds. cs = d # ds \<and> 0xDC00 \<le> d \<and> d < 0xE000))"

lemma all_below: "(\<forall>x \<in> set [0..<n]. P x) \<Longrightarrow> x < n \<Longrightarrow> P x"
  by simp

lemma continuation_byte: "x < 64 \<Longrightarrow> (of_nat (0x80 + x) :: byte) AND 0x3F = of_nat x"
  by (rule all_below [of 64 "\<lambda>x. (of_nat (0x80 + x) :: byte) AND 0x3F = of_nat x"]) (simp add: upt_rec)+

lemma lead2_byte: "x < 32 \<Longrightarrow> (of_nat (0xC0 + x) :: byte) AND 0x80 \<noteq> 0 \<and> (of_nat (0xC0 + x) :: byte) AND 0x20 = 0
    \<and> (of_nat (0xC0 + x) :: byte) AND 0xF0 \<noteq> 0xE0 \<and> (of_nat (0xC0 + x) :: byte) AND 0x1F = of_nat x"
  by (rule all_below [of 32 "\<lambda>x. (of_nat (0xC0 + x) :: byte) AND 0x80 \<noteq> 0 \<and> (of_nat (0xC0 + x) :: byte) AND 0x20 = 0
    \<and> (of_nat (0xC0 + x) :: byte) AND 0xF0 \<noteq> 0xE0 \<and> (of_nat (0xC0 + x) :: byte) AND 0x1F = of_nat x"]) (simp add: upt_rec)+

lemma lead3_byte: "x < 16 \<Longrightarrow> (of_nat (0xE0 + x) :: byte) AND 0x80 \<noteq> 0 \<and> (of_nat (0xE0 + x) :: byte) AND 0x20 \<noteq> 0
    \<and> (of_nat (0xE0 + x) :: byte) AND 0xF0 = 0xE0 \<and> (of_nat (0xE0 + x) :: byte) AND 0x0F = of_nat x"
  by (rule all_below [of 16 "\<lambda>x. (of_nat (0xE0 + x) :: byte) AND 0x80 \<noteq> 0 \<and> (of_nat (0xE0 + x) :: byte) AND 0x20 \<noteq> 0
    \<and> (of_nat (0xE0 + x) :: byte) AND 0xF0 = 0xE0 \<and> (of_nat (0xE0 + x) :: byte) AND 0x0F = of_nat x"]) (simp add: upt_rec)+

lemma lead1_byte:
  assumes "x < 128"
  shows "(of_nat x :: byte) AND 0x80 = 0" "(of_nat x :: byte) AND 0xF0 \<noteq> 0xE0"
proof -
  show z: "(of_nat x :: byte) AND 0x80 = 0"
    by (rule all_below [of 128 "\<lambda>x. (of_nat x :: byte) AND 0x80 = 0", OF _ assms]) (simp add: upt_rec)
  show "(of_nat x :: byte) AND 0xF0 \<noteq> 0xE0"
  proof
    assume "(of_nat x :: byte) AND 0xF0 = 0xE0"
    then have "((of_nat x :: byte) AND 0xF0) AND 0x80 = 0x80" by simp
    moreover have "((of_nat x :: byte) AND 0xF0) AND 0x80 = of_nat x AND 0x80" unfolding and.assoc by simp
    ultimately show False using z by simp
  qed
qed

lemma ucast_small: "x < 256 \<Longrightarrow> ucast (of_nat x :: byte) = (of_nat x :: u32)"
  by (simp add: word_unat_eq_iff unat_ucast_up unat_of_nat take_bit_nat_eq_self)

lemma or_units:
  assumes "y < 2 ^ n"
  shows "push_bit n (of_nat x :: u32) OR of_nat y = of_nat (x * 2 ^ n + y)"
proof -
  have "\<not> bit y m" if "n \<le> m" for m
    using assms that by (metis bit_take_bit_iff linorder_not_le take_bit_nat_eq_self)
  then have "push_bit n (of_nat x :: u32) AND of_nat y = 0"
    by (intro bit_eqI) (auto simp: bit_simps)
  then show ?thesis by (simp flip: disjunctive_add_eq_or add: push_bit_eq_mult)
qed

text \<open>One, two and three bytes of the key, and the second surrogate.\<close>

lemma key_bytes:
  "b0 AND 0x80 = 0 \<Longrightarrow> mutf8_ordering_key (b0 # rest) = ucast b0 # mutf8_ordering_key rest"
  "b0 AND 0x80 \<noteq> 0 \<Longrightarrow> b0 AND 0x20 = 0 \<Longrightarrow> mutf8_ordering_key (b0 # b1 # rest)
     = (push_bit 6 (ucast (b0 AND 0x1F)) OR ucast (b1 AND 0x3F)) # mutf8_ordering_key rest"
  "b0 AND 0x80 \<noteq> 0 \<Longrightarrow> b0 AND 0x20 \<noteq> 0 \<Longrightarrow>
     push_bit 12 (ucast (b0 AND 0x0F)) OR push_bit 6 (ucast (b1 AND 0x3F)) OR ucast (b2 AND 0x3F) = cp \<Longrightarrow>
     mutf8_ordering_key (b0 # b1 # b2 # rest) =
       (case if 0xD800 \<le> cp \<and> cp \<le> 0xDBFF then assemble_low_surrogate rest cp else None of
          Some sp \<Rightarrow> sp # mutf8_ordering_key (drop 3 rest) | None \<Rightarrow> cp # mutf8_ordering_key rest)"
  by (simp_all add: safe_get_def split: option.split)

lemma low_bytes:
  "b3 AND 0xF0 \<noteq> 0xE0 \<Longrightarrow> assemble_low_surrogate (b3 # bs) hi = None"
  "b3 AND 0xF0 = 0xE0 \<Longrightarrow>
     push_bit 12 (ucast (b3 AND 0x0F)) OR push_bit 6 (ucast (b4 AND 0x3F)) OR ucast (b5 AND 0x3F) = lo \<Longrightarrow>
     assemble_low_surrogate (b3 # b4 # b5 # rest) hi =
       (if 0xDC00 \<le> lo \<and> lo \<le> 0xDFFF then Some (0x10000 + push_bit 10 (hi - 0xD800) + (lo - 0xDC00)) else None)"
  by (simp_all add: assemble_low_surrogate_def safe_get_def)

text \<open>The value three bytes stand for.\<close>

lemma unit_value:
  assumes "c < 0x10000"
  shows "push_bit 12 (ucast ((of_nat (0xE0 + c div 4096) :: byte) AND 0x0F))
      OR push_bit 6 (ucast ((of_nat (0x80 + c div 64 mod 64) :: byte) AND 0x3F))
      OR ucast ((of_nat (0x80 + c mod 64) :: byte) AND 0x3F) = (of_nat c :: u32)"
proof -
  have l: "c div 4096 < 16" "c div 64 mod 64 < 64" "c mod 64 < 64" using assms by (simp_all add: less_mult_imp_div_less)
  have c4: "c div 4096 = c div 64 div 64" using div_mult2_eq [of c 64 64] by simp
  have "push_bit 6 (of_nat (c div 64 mod 64) :: u32) OR of_nat (c mod 64) = of_nat (c div 64 mod 64 * 64 + c mod 64)"
    using or_units [of "c mod 64" 6 "c div 64 mod 64"] by simp
  also have "push_bit 12 (of_nat (c div 4096) :: u32) OR \<dots> = of_nat (c div 4096 * 4096 + (c div 64 mod 64 * 64 + c mod 64))"
    using or_units [of "c div 64 mod 64 * 64 + c mod 64" 12 "c div 4096"] l by simp
  also have "c div 4096 * 4096 + (c div 64 mod 64 * 64 + c mod 64) = c"
    using div_mult_mod_eq [of c 64] div_mult_mod_eq [of "c div 64" 64] c4 by linarith
  finally show ?thesis
    using lead3_byte [OF l(1)] continuation_byte [OF l(2)] continuation_byte [OF l(3)] l by (simp only: ucast_small)
qed

lemma drop_unit: "length (mutf8_unit c) = 3"
  by (simp add: mutf8_unit_def)

lemma key_unit:
  assumes "c < 0x10000"
  shows "mutf8_ordering_key (mutf8_unit c @ rest) =
    (case if 0xD800 \<le> c \<and> c < 0xDC00 then assemble_low_surrogate rest (of_nat c) else None of
       Some sp \<Rightarrow> sp # mutf8_ordering_key (drop 3 rest) | None \<Rightarrow> of_nat c # mutf8_ordering_key rest)"
proof -
  have l: "c div 4096 < 16" using assms by (simp add: less_mult_imp_div_less)
  have u: "unat (of_nat c :: u32) = c" using assms by (intro unat_of_nat_u32) simp
  have r: "0xD800 \<le> (of_nat c :: u32) \<and> of_nat c \<le> (0xDBFF :: u32) \<longleftrightarrow> 0xD800 \<le> c \<and> c < 0xDC00"
    using u by (auto simp: word_le_nat_alt)
  note b = lead3_byte [OF l, THEN conjunct1] lead3_byte [OF l, THEN conjunct2, THEN conjunct1]
  from key_bytes(3) [OF b unit_value [OF assms], of rest] show ?thesis
    unfolding mutf8_unit_def append_Cons append_Nil r .
qed

lemma low_surrogate:
  assumes "d < 0x10000"
  shows "assemble_low_surrogate (mutf8_unit d @ rest) hi =
    (if 0xDC00 \<le> d \<and> d < 0xE000 then Some (0x10000 + push_bit 10 (hi - 0xD800) + (of_nat d - 0xDC00)) else None)"
proof -
  have l: "d div 4096 < 16" using assms by (simp add: less_mult_imp_div_less)
  have u: "unat (of_nat d :: u32) = d" using assms by (intro unat_of_nat_u32) simp
  have r: "0xDC00 \<le> (of_nat d :: u32) \<and> of_nat d \<le> (0xDFFF :: u32) \<longleftrightarrow> 0xDC00 \<le> d \<and> d < 0xE000"
    using u by (auto simp: word_le_nat_alt)
  note b = lead3_byte [OF l, THEN conjunct2, THEN conjunct2, THEN conjunct1]
  from low_bytes(2) [OF b unit_value [OF assms], of rest hi] show ?thesis
    unfolding mutf8_unit_def append_Cons append_Nil r .
qed

text \<open>No low surrogate follows where the text has none.\<close>

lemma no_low_surrogate:
  assumes "mutf8_text cs" and "\<not> (\<exists>d ds. cs = d # ds \<and> 0xDC00 \<le> d \<and> d < 0xE000)"
  shows "assemble_low_surrogate (mutf8_encode cs) hi = None"
proof (cases cs)
  case (Cons d ds)
  have d: "d < 0x110000" "\<not> (0xDC00 \<le> d \<and> d < 0xE000)" using assms Cons by auto
  show ?thesis
  proof (cases "d < 0x800")
    case True
    then have "d div 64 < 32" by (simp add: less_mult_imp_div_less)
    then have "(of_nat (0xC0 + d div 64) :: byte) AND 0xF0 \<noteq> 0xE0" using lead2_byte by blast
    then show ?thesis using lead1_byte [of d] True
      by (simp add: Cons mutf8_encode_def mutf8_char_def low_bytes)
  next
    case False
    have "d - 0x10000 < 1024 * 1024" using d(1) by simp
    then have "(d - 0x10000) div 1024 < 1024" by (simp add: less_mult_imp_div_less)
    then show ?thesis using False d by (auto simp: Cons mutf8_encode_def mutf8_char_def low_surrogate)
  qed
qed (simp add: mutf8_encode_def assemble_low_surrogate_def)

lemma key_supplementary:
  assumes "0x10000 \<le> c" and "c < 0x110000"
  shows "mutf8_ordering_key (mutf8_char c @ rest) = of_nat c # mutf8_ordering_key rest"
proof -
  let ?h = "(c - 0x10000) div 1024" and ?l = "(c - 0x10000) mod 1024"
  have h: "?h < 1024" using assms by (simp add: less_mult_imp_div_less)
  have "0x10000 + (?h * 1024 + ?l) = c" using assms(1) by simp
  then have "of_nat (0x10000 + (?h * 1024 + ?l)) = (of_nat c :: u32)" by (rule arg_cong)
  then have v: "(0x10000 :: u32) + push_bit 10 (of_nat (0xD800 + ?h) - 0xD800) + (of_nat (0xDC00 + ?l) - 0xDC00) = of_nat c"
    by (simp only: of_nat_add of_nat_mult of_nat_numeral push_bit_eq_mult add_diff_cancel_left' add.assoc power_numeral Num.pow.simps Num.sqr.simps) simp
  have "mutf8_char c = mutf8_unit (0xD800 + ?h) @ mutf8_unit (0xDC00 + ?l)" using assms by (simp add: mutf8_char_def)
  then show ?thesis using h v by (simp add: key_unit low_surrogate drop_unit)
qed

text \<open>The ordering key of an encoded text is the text.\<close>

lemma ordering_key_encode: "mutf8_text cs \<Longrightarrow> mutf8_ordering_key (mutf8_encode cs) = map of_nat cs"
proof (induction cs)
  case (Cons c cs)
  have e: "mutf8_encode (c # cs) = mutf8_char c @ mutf8_encode cs" by (simp add: mutf8_encode_def)
  have IH: "mutf8_ordering_key (mutf8_encode cs) = map of_nat cs" and t: "mutf8_text cs" "c < 0x110000" using Cons by auto
  consider "0 < c" "c < 0x80" | "c = 0 \<or> 0x80 \<le> c" "c < 0x800" | "0x800 \<le> c" "c < 0x10000" | "0x10000 \<le> c" by linarith
  then show ?case
  proof cases
    case 1
    then show ?thesis using lead1_byte [of c] IH by (simp add: e mutf8_char_def ucast_small key_bytes(1) del: mutf8_ordering_key.simps)
  next
    case 2
    then have l: "c div 64 < 32" by (simp add: less_mult_imp_div_less)
    have v: "push_bit 6 (of_nat (c div 64) :: u32) OR of_nat (c mod 64) = of_nat c"
      using or_units [of "c mod 64" 6 "c div 64"] by simp
    have "mutf8_char c = [of_nat (0xC0 + c div 64), of_nat (0x80 + c mod 64)]" using 2 by (auto simp: mutf8_char_def)
    moreover have "mutf8_ordering_key (of_nat (0xC0 + c div 64) # of_nat (0x80 + c mod 64) # mutf8_encode cs)
        = of_nat c # mutf8_ordering_key (mutf8_encode cs)"
      using lead2_byte [OF l] continuation_byte [of "c mod 64"] l v by (subst key_bytes(2)) (simp_all only: ucast_small, simp_all)
    ultimately show ?thesis using IH by (simp only: e append_Cons append_Nil list.map)
  next
    case 3
    then have "mutf8_char c = mutf8_unit c" by (simp add: mutf8_char_def)
    moreover have "(if 0xD800 \<le> c \<and> c < 0xDC00 then assemble_low_surrogate (mutf8_encode cs) (of_nat c) else None) = None"
      using Cons.prems no_low_surrogate [OF t(1)] by auto
    ultimately show ?thesis using key_unit [OF 3(2), of "mutf8_encode cs"] IH by (simp add: e)
  next
    case 4
    then show ?thesis using key_supplementary t(2) IH by (simp add: e)
  qed
qed (simp add: mutf8_encode_def)

text \<open>What the format orders each pool by, as rows of numbers compared lexicographically: strings by their code
  points, types by the index of their descriptor, prototypes by return type and then parameter
  types, fields by class, name and type, methods by class, name and prototype.\<close>

fun pool_rows ::
  "nat list list \<Rightarrow> u32 list \<Rightarrow> ProtoIdItem list \<Rightarrow> type_list_map \<Rightarrow> FieldIdItem list \<Rightarrow> MethodIdItem list \<Rightarrow> PoolKind \<Rightarrow> nat list list" where
  "pool_rows texts type_idxs protos tls fs ms StringIds = texts"
| "pool_rows texts type_idxs protos tls fs ms TypeIds = map (\<lambda>t. [unat t]) type_idxs"
| "pool_rows texts type_idxs protos tls fs ms ProtoIds = map (\<lambda>p. unat (un_TypeIdx (return_type_idx p))
     # (case map_of tls (parameters_off p) of Some ts \<Rightarrow> map (\<lambda>t. unat (un_TypeIdx t)) ts | None \<Rightarrow> [])) protos"
| "pool_rows texts type_idxs protos tls fs ms FieldIds = map (\<lambda>f. [unat (un_TypeIdx (fi_class_idx f)),
     unat (un_StringIdx (fi_name_idx f)), unat (un_TypeIdx (fi_type_idx f))]) fs"
| "pool_rows texts type_idxs protos tls fs ms MethodIds = map (\<lambda>m. [unat (un_TypeIdx (mi_class_idx m)),
     unat (un_StringIdx (mi_name_idx m)), unat (un_ProtoIdx (mi_proto_idx m))]) ms"

lemma inversion_at_rows:
  fixes keys :: "'a :: linorder list" and rows :: "'b :: linorder list"
  assumes "length keys = length rows" and "\<And>i j. i < length rows \<Longrightarrow> j < length rows \<Longrightarrow> keys ! i < keys ! j \<longleftrightarrow> rows ! i < rows ! j"
  shows "inversion_at keys = inversion_at rows"
  using assms by (intro ext) (auto simp: inversion_at_def sorted_wrt_iff_nth_less simp flip: not_less)

lemma inversion_at_map:
  fixes f :: "'a \<Rightarrow> 'b :: linorder" and g :: "'a \<Rightarrow> 'c :: linorder"
  assumes "\<And>x y. f x < f y \<longleftrightarrow> g x < g y"
  shows "inversion_at (map f xs) = inversion_at (map g xs)"
  by (rule inversion_at_rows) (simp_all add: assms)

lemma idx_order:
  "a < b \<longleftrightarrow> unat (un_TypeIdx a) < unat (un_TypeIdx b)" "x < y \<longleftrightarrow> unat (un_StringIdx x) < unat (un_StringIdx y)"
  "p < q \<longleftrightarrow> unat (un_ProtoIdx p) < unat (un_ProtoIdx q)" "a = b \<longleftrightarrow> unat (un_TypeIdx a) = unat (un_TypeIdx b)"
  "x = y \<longleftrightarrow> unat (un_StringIdx x) = unat (un_StringIdx y)"
  by (auto simp: less_TypeIdx_def less_StringIdx_def less_ProtoIdx_def word_less_nat_alt TypeIdx.expand StringIdx.expand
      simp flip: word_unat_eq_iff)

lemma map_less_map:
  fixes f :: "'a :: linorder \<Rightarrow> 'b :: linorder"
  shows "(\<And>x y. x \<in> set xs \<Longrightarrow> y \<in> set ys \<Longrightarrow> (f x < f y \<longleftrightarrow> x < y) \<and> (f x = f y \<longleftrightarrow> x = y)) \<Longrightarrow> map f xs < map f ys \<longleftrightarrow> xs < ys"
proof (induction xs arbitrary: ys)
  case Nil
  then show ?case by (cases ys) simp_all
next
  case (Cons x xs)
  show ?case
  proof (cases ys)
    case (Cons y ys')
    then show ?thesis using Cons.IH [of ys'] Cons.prems by simp
  qed simp
qed

lemma texts_order:
  assumes "mutf8_text cs" and "mutf8_text ds"
  shows "map of_nat cs < (map of_nat ds :: u32 list) \<longleftrightarrow> cs < ds"
proof (rule map_less_map)
  have b: "mutf8_text xs \<Longrightarrow> x \<in> set xs \<Longrightarrow> unat (of_nat x :: u32) = x" for xs x
    by (induction xs) (auto intro: unat_of_nat_u32)
  show "(of_nat x < (of_nat y :: u32) \<longleftrightarrow> x < y) \<and> (of_nat x = (of_nat y :: u32) \<longleftrightarrow> x = y)" if "x \<in> set cs" "y \<in> set ds" for x y
    using b [OF assms(1) that(1)] b [OF assms(2) that(2)] by (metis word_less_nat_alt)
qed

lemma pool_keys:
  "inversion_at type_idxs = inversion_at (pool_rows texts type_idxs protos tls fs ms TypeIds)"
  "inversion_at (map (proto_key tls) protos) = inversion_at (pool_rows texts type_idxs protos tls fs ms ProtoIds)"
  "inversion_at (map field_key fs) = inversion_at (pool_rows texts type_idxs protos tls fs ms FieldIds)"
  "inversion_at (map method_key ms) = inversion_at (pool_rows texts type_idxs protos tls fs ms MethodIds)"
  "map raw_bytes strs = map mutf8_encode texts \<Longrightarrow> list_all mutf8_text texts \<Longrightarrow>
   inversion_at (map (\<lambda>s. mutf8_ordering_key (raw_bytes s)) strs) = inversion_at (pool_rows texts type_idxs protos tls fs ms StringIds)"
proof -
  show "inversion_at type_idxs = inversion_at (pool_rows texts type_idxs protos tls fs ms TypeIds)"
    by (rule inversion_at_rows) (simp_all add: word_less_nat_alt)
  have e: "ts = us \<longleftrightarrow> map (\<lambda>t. unat (un_TypeIdx t)) ts = map (\<lambda>t. unat (un_TypeIdx t)) us" for ts us
    by (rule inj_map_eq_map [symmetric]) (auto simp: inj_def idx_order)
  have m: "ts < us \<longleftrightarrow> map (\<lambda>t. unat (un_TypeIdx t)) ts < map (\<lambda>t. unat (un_TypeIdx t)) us" for ts us
    by (rule map_less_map [symmetric]) (simp add: idx_order)
  show "inversion_at (map (proto_key tls) protos) = inversion_at (pool_rows texts type_idxs protos tls fs ms ProtoIds)"
    unfolding pool_rows.simps
    by (rule inversion_at_map) (auto simp: proto_key_def less_prod_def' idx_order m split: option.splits)
  show "inversion_at (map field_key fs) = inversion_at (pool_rows texts type_idxs protos tls fs ms FieldIds)"
    unfolding pool_rows.simps by (rule inversion_at_map) (auto simp: field_key_def less_prod_def' idx_order)
  show "inversion_at (map method_key ms) = inversion_at (pool_rows texts type_idxs protos tls fs ms MethodIds)"
    unfolding pool_rows.simps by (rule inversion_at_map) (auto simp: method_key_def less_prod_def' idx_order)
  assume t: "map raw_bytes strs = map mutf8_encode texts" "list_all mutf8_text texts"
  then have "map (\<lambda>s. mutf8_ordering_key (raw_bytes s)) strs = map (\<lambda>cs. mutf8_ordering_key (mutf8_encode cs)) texts"
    by (metis (no_types, lifting) map_map comp_def map_eq_conv)
  also have "\<dots> = map (map of_nat) texts" using t(2) by (simp add: ordering_key_encode list_all_iff)
  finally show "inversion_at (map (\<lambda>s. mutf8_ordering_key (raw_bytes s)) strs) = inversion_at (pool_rows texts type_idxs protos tls fs ms StringIds)"
    using t(2) by (simp only: pool_rows.simps) (rule inversion_at_rows, simp_all add: texts_order list_all_length)
qed

lemma inversion_exists: "(\<exists>i. inversion_at keys i) \<longleftrightarrow> \<not> sorted_wrt (<) keys"
  by (simp flip: first_inversion_iff first_inversion_None)

lemma failure_inj [simp]: "failure k off = failure k' off' \<longleftrightarrow> k = k' \<and> off = off'"
  by (simp add: failure_def)

lemma set_option_failure:
  "x \<in> set (case idx of Some i \<Rightarrow> [failure k (index_u32 i)] | None \<Rightarrow> []) \<longleftrightarrow> (\<exists>i. idx = Some i \<and> x = failure k (index_u32 i))"
  by (cases idx) auto


text \<open>Three strings, \<open>B\<close>, \<open>A\<close> and U+10400 (two surrogates): the pool is unsorted from index 1.\<close>

definition sample_texts :: "nat list list" where
  "sample_texts = [[66], [65], [0x10400]]"


section \<open>The class index agrees with the scan\<close>

lemma find_position_snoc:
  "find_position P (xs @ [x]) = (case find_position P xs of Some i \<Rightarrow> Some i | None \<Rightarrow> if P x then Some (length xs) else None)"
  by (induction xs) (auto split: option.splits)

lemma find_position_None: "find_position P xs = None \<longleftrightarrow> \<not> list_ex P xs"
  by (induction xs) auto

lemma find_position_Some:
  "find_position P xs = Some i \<Longrightarrow> i < length xs \<and> P (xs ! i) \<and> (\<forall>j < i. \<not> P (xs ! j))"
  by (induction xs arbitrary: i) (auto simp: less_Suc_eq_0_disj split: if_splits)

definition class_row_type :: "ClassDefItem \<Rightarrow> nat" where
  "class_row_type cd = unat (un_TypeIdx (cd_class_idx cd))"

lemma class_row_type_eq: "class_row_type c = unat (un_TypeIdx t) \<longleftrightarrow> cd_class_idx c = t" "class_row_type c = class_row_type d \<longleftrightarrow> cd_class_idx c = cd_class_idx d"
  by (auto simp: class_row_type_def TypeIdx.expand simp flip: word_unat_eq_iff)

definition duplicate_rows :: "nat \<Rightarrow> ClassDefItem list \<Rightarrow> nat list" where
  "duplicate_rows n cds = filter (\<lambda>i. class_row_type (cds ! i) < n
     \<and> list_ex (\<lambda>cd. cd_class_idx cd = cd_class_idx (cds ! i)) (take i cds)) [0..<length cds]"

lemma index_rows:
  assumes "length cds \<le> 2 ^ 32" and "foldl index_step (replicate n None, []) (enumerate 0 cds) = (idx, dups)"
  shows "length idx = n \<and> (\<forall>t < n. idx ! t = map_option of_nat (find_position (\<lambda>cd. class_row_type cd = t) cds))
    \<and> dups = map of_nat (duplicate_rows n cds)"
  using assms
proof (induction cds arbitrary: idx dups rule: rev_induct)
  case Nil
  then show ?case by (auto simp: duplicate_rows_def)
next
  case (snoc cd cds)
  obtain idx0 dups0 where f: "foldl index_step (replicate n None, []) (enumerate 0 cds) = (idx0, dups0)" by fastforce
  then have ih: "length idx0 = n" "\<forall>t < n. idx0 ! t = map_option of_nat (find_position (\<lambda>cd. class_row_type cd = t) cds)"
    "dups0 = map of_nat (duplicate_rows n cds)" using snoc.IH snoc.prems(1) by auto
  have st: "(idx, dups) = index_step (idx0, dups0) (length cds, cd)" using snoc.prems(2) f by (simp add: enumerate_append_eq)
  have "filter (\<lambda>i. class_row_type ((cds @ [cd]) ! i) < n \<and> list_ex (\<lambda>c. cd_class_idx c = cd_class_idx ((cds @ [cd]) ! i)) (take i (cds @ [cd]))) [0..<length cds]
      = duplicate_rows n cds" unfolding duplicate_rows_def by (rule filter_cong) (auto simp: nth_append)
  then have dup: "duplicate_rows n (cds @ [cd]) = duplicate_rows n cds
      @ (if class_row_type cd < n \<and> list_ex (\<lambda>c. cd_class_idx c = cd_class_idx cd) cds then [length cds] else [])"
    by (simp add: duplicate_rows_def)
  have none: "find_position (\<lambda>c. class_row_type c = class_row_type cd) cds = None \<longleftrightarrow> \<not> list_ex (\<lambda>c. cd_class_idx c = cd_class_idx cd) cds"
    by (simp add: find_position_None class_row_type_eq)
  show ?case
    using st ih snoc.prems(1) none unfolding dup
    by (auto simp: index_step_def Let_def find_position_snoc nth_list_update class_row_type_def [of cd, symmetric]
        split: option.splits if_splits)
qed


text \<open>C11 (class_index_first). When every class of a file has its type in the type pool, the lookup through the
  rebuilt class index finds the first class definition with the wanted type, as the linear scan does, and the
  recorded duplicates are exactly the rows whose type an earlier row already has.\<close>

theorem class_index_first:
  assumes "rebuild_class_def_index n cds pe = (idx, pe')" and "length cds \<le> 2 ^ 32" and "list_all (\<lambda>cd. class_row_type cd < n) cds"
  shows "class_defs_row_of n cds idx t = find_position (\<lambda>cd. cd_class_idx cd = t) cds
    \<and> pe' = pe @ map (\<lambda>i. failure DuplicateClassDef (of_nat i)) (filter (\<lambda>i. list_ex (\<lambda>cd. cd_class_idx cd = cd_class_idx (cds ! i)) (take i cds)) [0..<length cds])"
proof -
  obtain dups where d: "foldl index_step (replicate n None, []) (enumerate 0 cds) = (idx, dups)" "pe' = pe @ map (failure DuplicateClassDef) dups"
    using assms(1) by (auto simp: rebuild_class_def_index_def split: prod.splits)
  note r = index_rows [OF assms(2) d(1)]
  have dup: "duplicate_rows n cds = filter (\<lambda>i. list_ex (\<lambda>cd. cd_class_idx cd = cd_class_idx (cds ! i)) (take i cds)) [0..<length cds]"
    unfolding duplicate_rows_def by (rule filter_cong) (use assms(3) in \<open>auto simp: list_all_length\<close>)
  have "class_defs_row_of n cds idx t = find_position (\<lambda>cd. cd_class_idx cd = t) cds"
  proof (cases "unat (un_TypeIdx t) < n")
    case True
    have "unat (of_nat i :: u32) = i" if "find_position (\<lambda>cd. cd_class_idx cd = t) cds = Some i" for i
      using find_position_Some [OF that] assms(2) by (intro unat_of_nat_u32) simp
    then have "map_option (\<lambda>i. unat (of_nat i :: u32)) (find_position (\<lambda>cd. cd_class_idx cd = t) cds) = find_position (\<lambda>cd. cd_class_idx cd = t) cds"
      by (cases "find_position (\<lambda>cd. cd_class_idx cd = t) cds") auto
    with r True show ?thesis by (simp add: class_defs_row_of_def get_at_def class_row_type_eq option.map_comp comp_def)
  next
    case False
    then have "\<not> list_ex (\<lambda>cd. cd_class_idx cd = t) cds"
      using assms(3) by (auto simp: list_all_iff list_ex_iff class_row_type_def)
    with r False show ?thesis by (simp add: class_defs_row_of_def get_at_def flip: find_position_None)
  qed
  with r d(2) dup show ?thesis by simp
qed

definition sample_class :: "u32 \<Rightarrow> u32 option \<Rightarrow> ClassDefItem" where
  "sample_class c sp = \<lparr>cd_class_idx = TypeIdx c, cd_access_flags = 1, superclass_idx = map_option TypeIdx sp, interfaces_off = 0,
     source_file_idx = None, annotations_off = 0, class_data_off = 0, static_values_off = 0\<rparr>"

theorem class_index_first_witness:
  "class_defs_row_of 3 [sample_class 1 None, sample_class 2 (Some 1), sample_class 1 None] [None, Some 0, Some 1] (TypeIdx 1) = Some 0
   \<and> [failure DuplicateClassDef 2] = map (\<lambda>i. failure DuplicateClassDef (of_nat i)) [2]"
proof -
  let ?cds = "[sample_class 1 None, sample_class 2 (Some 1), sample_class 1 None]"
  have "rebuild_class_def_index 3 ?cds [] = ([None, Some 0, Some 1], [failure DuplicateClassDef 2])"
    by (simp add: rebuild_class_def_index_def index_step_def sample_class_def Let_def numeral_3_eq_3)
  from class_index_first [OF this, of "TypeIdx 1"] show ?thesis
    by (simp add: class_row_type_def sample_class_def)
qed

end
