(* ===== verification/Dex_Debug.thy ===== *)
theory Dex_Debug
  imports Dex_String Dex_Seq Dex_Oracle_Io
begin

text \<open>
  Debug information (\<open>src/src/debug.rs\<close>): the state machine that decodes a \<open>debug_info_item\<close>, the
  scanner that finds its extent so that the emitter can copy it, and the queries on the result. Of the
  parsed file the decoder reads the string pool and the type descriptors only; these are its arguments.
\<close>

section \<open>Data\<close>

record LocalVar =
  lv_register :: u16
  lv_name :: "rstring option"
  lv_type_desc :: "rstring option"
  lv_start_addr :: u32
  lv_end_addr :: "u32 option"

record DebugInfo =
  di_line_start :: u32
  parameter_names :: "rstring option list"
  di_locals :: "LocalVar list"
  line_table :: "(u32 \<times> u32) list"

definition narrow_register :: "u32 \<Rightarrow> u16 \<Rightarrow> DexError + u16" where
  "narrow_register uleb_value registers_n =
     (if unat uleb_value < 2 ^ 16 \<and> (ucast uleb_value :: u16) < registers_n then Inr (ucast uleb_value)
      else Inl (InvalidDebugRegister uleb_value registers_n))"

section \<open>The state machine\<close>

text \<open>One ULEB128 or SLEB128 operand, and the position after it.\<close>

definition uleb_arg :: "deps \<Rightarrow> byte list \<Rightarrow> string \<Rightarrow> nat \<Rightarrow> DexError + (u32 \<times> nat)" where
  "uleb_arg D data ctx pos =
     bindE (read_uleb128 D data pos) (\<lambda>(v, len). bindE (safe_add pos len ctx) (\<lambda>pos'. Inr (v, pos')))"

definition sleb_arg :: "deps \<Rightarrow> byte list \<Rightarrow> string \<Rightarrow> nat \<Rightarrow> DexError + (u32 \<times> nat)" where
  "sleb_arg D data ctx pos =
     bindE (read_sleb128 D data pos) (\<lambda>(v, len). bindE (safe_add pos len ctx) (\<lambda>pos'. Inr (v, pos')))"

text \<open>Names are stored as an index plus one, 0 for none; an index out of range gives no name.\<close>

definition opt_name :: "DexString list \<Rightarrow> u32 \<Rightarrow> rstring option" where
  "opt_name strs idx = (if idx = 0 then None else result_ok (get_string strs (StringIdx (idx - 1))))"

definition opt_type :: "rstring list \<Rightarrow> u32 \<Rightarrow> rstring option" where
  "opt_type types idx = (if idx = 0 then None else result_ok (get_type_descriptor types (TypeIdx (idx - 1))))"

definition read_param_name :: "deps \<Rightarrow> DexString list \<Rightarrow> byte list \<Rightarrow> unit \<Rightarrow> nat \<Rightarrow> DexError + (rstring option \<times> unit \<times> nat)" where
  "read_param_name D strs data _ pos =
     bindE (uleb_arg D data ''debug:param_idx'' pos) (\<lambda>(idx_plus_one, pos'). Inr (opt_name strs idx_plus_one, (), pos'))"

record dstate =
  d_pos :: nat
  address :: u32
  d_line :: u32
  active :: "(u16 \<times> LocalVar) list"
  d_locals :: "LocalVar list"
  d_table :: "(u32 \<times> u32) list"

text \<open>An opcode ends the sequence, or the machine goes on.\<close>

datatype dstep = Break dstate | Continue dstate

definition checked_add_addr :: "u32 \<Rightarrow> u32 \<Rightarrow> u32 option" where
  "checked_add_addr a b = (if unat a + unat b < 2 ^ 32 then Some (a + b) else None)"

text \<open>\<open>i32::checked_add\<close>.\<close>

definition checked_add_line :: "u32 \<Rightarrow> u32 \<Rightarrow> u32 option" where
  "checked_add_line a b =
     (let s = sint a + sint b in if - (2 ^ 31) \<le> s \<and> s < 2 ^ 31 then Some (word_of_int s) else None)"

definition btree_remove :: "'k \<Rightarrow> ('k \<times> 'v) list \<Rightarrow> ('k \<times> 'v) list" where
  "btree_remove k m = filter (\<lambda>e. fst e \<noteq> k) m"

text \<open>\<open>if line >= 0 { line_table.push((address, line as u32)) }\<close>.\<close>

definition push_line :: "dstate \<Rightarrow> dstate" where
  "push_line st = (if 0 \<le> sint (d_line st) then st\<lparr>d_table := d_table st @ [(address st, d_line st)]\<rparr> else st)"

text \<open>End the local that is active in a register, if any.\<close>

definition end_local :: "u16 \<Rightarrow> dstate \<Rightarrow> dstate" where
  "end_local reg st =
     (case map_of (active st) reg of
        None \<Rightarrow> st
      | Some l \<Rightarrow> st\<lparr>active := btree_remove reg (active st), d_locals := d_locals st @ [l\<lparr>lv_end_addr := Some (address st)\<rparr>]\<rparr>)"

definition start_local :: "u16 \<Rightarrow> rstring option \<Rightarrow> rstring option \<Rightarrow> dstate \<Rightarrow> dstate" where
  "start_local reg nm ty st =
     (let st1 = end_local reg st
      in st1\<lparr>active := btree_insert reg \<lparr>lv_register = reg, lv_name = nm, lv_type_desc = ty,
                        lv_start_addr = address st1, lv_end_addr = None\<rparr> (active st1)\<rparr>)"

definition restart_local :: "u16 \<Rightarrow> dstate \<Rightarrow> dstate" where
  "restart_local reg st =
     (case find (\<lambda>l. lv_register l = reg) (rev (d_locals st)) of
        None \<Rightarrow> st
      | Some prev \<Rightarrow> st\<lparr>active := btree_insert reg \<lparr>lv_register = reg, lv_name = lv_name prev, lv_type_desc = lv_type_desc prev,
                        lv_start_addr = address st, lv_end_addr = None\<rparr> (active st)\<rparr>)"

text \<open>A special opcode advances line and address; \<open>adjusted\<close> is at most 245.\<close>

definition special_step :: "byte \<Rightarrow> dstate \<Rightarrow> dstep" where
  "special_step opcode st =
     (let adjusted = unat opcode - 10;
          line_delta = word_of_int (- 4 + int (adjusted mod 15));
          addr_delta = of_nat (adjusted div 15)
      in case checked_add_line (d_line st) line_delta of
           None \<Rightarrow> Break st
         | Some new_line \<Rightarrow>
             (let st1 = st\<lparr>d_line := new_line\<rparr>
              in case checked_add_addr (address st1) addr_delta of
                   None \<Rightarrow> Break st1
                 | Some new_address \<Rightarrow> Continue (push_line (st1\<lparr>address := new_address\<rparr>))))"

definition debug_step ::
  "deps \<Rightarrow> DexString list \<Rightarrow> rstring list \<Rightarrow> u16 \<Rightarrow> byte list \<Rightarrow> byte \<Rightarrow> dstate \<Rightarrow> DexError + dstep" where
  "debug_step D strs types registers_n data opcode st =
     (let pos = d_pos st in
      if opcode = 0x00 then Inr (Break st)
      else if opcode = 0x01 then
        bindE (uleb_arg D data ''debug:advance_pc:len'' pos) (\<lambda>(delta, pos1).
        case checked_add_addr (address st) delta of
          None \<Rightarrow> Inr (Break (st\<lparr>d_pos := pos1\<rparr>))
        | Some new_address \<Rightarrow> Inr (Continue (st\<lparr>d_pos := pos1, address := new_address\<rparr>)))
      else if opcode = 0x02 then
        bindE (sleb_arg D data ''debug:advance_line:len'' pos) (\<lambda>(delta, pos1).
        case checked_add_line (d_line st) delta of
          None \<Rightarrow> Inr (Break (st\<lparr>d_pos := pos1\<rparr>))
        | Some new_line \<Rightarrow> Inr (Continue (push_line (st\<lparr>d_pos := pos1, d_line := new_line\<rparr>))))
      else if opcode = 0x03 then
        bindE (uleb_arg D data ''debug:start_local:register'' pos) (\<lambda>(reg_raw, pos1).
        bindE (narrow_register reg_raw registers_n) (\<lambda>reg.
        bindE (uleb_arg D data ''debug:start_local:name_idx'' pos1) (\<lambda>(name_idx, pos2).
        bindE (uleb_arg D data ''debug:start_local:type_idx'' pos2) (\<lambda>(type_idx, pos3).
        Inr (Continue (start_local reg (opt_name strs name_idx) (opt_type types type_idx) (st\<lparr>d_pos := pos3\<rparr>)))))))
      else if opcode = 0x04 then
        bindE (uleb_arg D data ''debug:start_local_ext:register'' pos) (\<lambda>(reg_raw, pos1).
        bindE (narrow_register reg_raw registers_n) (\<lambda>reg.
        bindE (uleb_arg D data ''debug:start_local_ext:name_idx'' pos1) (\<lambda>(name_idx, pos2).
        bindE (uleb_arg D data ''debug:start_local_ext:type_idx'' pos2) (\<lambda>(type_idx, pos3).
        bindE (uleb_arg D data ''debug:start_local_ext:sig_idx'' pos3) (\<lambda>(_, pos4).
        Inr (Continue (start_local reg (opt_name strs name_idx) (opt_type types type_idx) (st\<lparr>d_pos := pos4\<rparr>))))))))
      else if opcode = 0x05 then
        bindE (uleb_arg D data ''debug:end_local:register'' pos) (\<lambda>(reg_raw, pos1).
        bindE (narrow_register reg_raw registers_n) (\<lambda>reg.
        Inr (Continue (end_local reg (st\<lparr>d_pos := pos1\<rparr>)))))
      else if opcode = 0x06 then
        bindE (uleb_arg D data ''debug:restart_local:register'' pos) (\<lambda>(reg_raw, pos1).
        bindE (narrow_register reg_raw registers_n) (\<lambda>reg.
        Inr (Continue (restart_local reg (st\<lparr>d_pos := pos1\<rparr>)))))
      else if opcode = 0x07 \<or> opcode = 0x08 then Inr (Continue st)
      else if opcode = 0x09 then
        bindE (uleb_arg D data ''debug:set_file:name_idx'' pos) (\<lambda>(_, pos1). Inr (Continue (st\<lparr>d_pos := pos1\<rparr>)))
      else Inr (special_step opcode st))"

lemma uleb_arg_pos: "uleb_arg D data ctx pos = Inr (v, pos') \<Longrightarrow> pos \<le> pos'"
  by (auto simp: uleb_arg_def dest!: safe_add_InrD)

lemma sleb_arg_pos: "sleb_arg D data ctx pos = Inr (v, pos') \<Longrightarrow> pos \<le> pos'"
  by (auto simp: sleb_arg_def dest!: safe_add_InrD)

lemma local_pos [simp]:
  "d_pos (push_line st) = d_pos st" "d_pos (end_local reg st) = d_pos st"
  "d_pos (start_local reg nm ty st) = d_pos st" "d_pos (restart_local reg st) = d_pos st"
  by (auto simp: push_line_def end_local_def start_local_def restart_local_def Let_def split: option.splits)

lemma special_step_pos: "special_step opcode st = Continue st' \<Longrightarrow> d_pos st' = d_pos st"
  by (auto simp: special_step_def Let_def split: option.splits)

lemma debug_step_pos: "debug_step D strs types rn data opcode st = Inr (Continue st') \<Longrightarrow> d_pos st \<le> d_pos st'"
  unfolding debug_step_def Let_def
  by (auto split: if_splits option.splits dest!: uleb_arg_pos sleb_arg_pos special_step_pos)

function debug_loop ::
  "deps \<Rightarrow> DexString list \<Rightarrow> rstring list \<Rightarrow> u16 \<Rightarrow> byte list \<Rightarrow> dstate \<Rightarrow> DexError + dstate" where
  "debug_loop D strs types registers_n data st =
     (case get_at data (d_pos st) of
        None \<Rightarrow> Inr st
      | Some opcode \<Rightarrow>
          bindE (safe_add (d_pos st) 1 ''debug:opcode'') (\<lambda>pos.
          bindE (debug_step D strs types registers_n data opcode (st\<lparr>d_pos := pos\<rparr>)) (\<lambda>r.
          case r of Break st' \<Rightarrow> Inr st' | Continue st' \<Rightarrow> debug_loop D strs types registers_n data st')))"
  by pat_completeness auto
termination
proof (relation "measure (\<lambda>(D, strs, types, rn, data, st). length data - d_pos st)")
  fix D strs types rn data st opcode pos r st'
  assume a: "get_at data (d_pos st) = Some opcode" "safe_add (d_pos st) 1 ''debug:opcode'' = Inr pos"
    "debug_step D strs types rn data opcode (st\<lparr>d_pos := pos\<rparr>) = Inr r" "r = Continue st'"
  have "d_pos st < length data" using a(1) by (simp add: get_at_def split: if_splits)
  moreover have "d_pos st < d_pos st'" using debug_step_pos [OF a(3) [unfolded a(4)]] safe_add_InrD [OF a(2)] by simp
  ultimately show "((D, strs, types, rn, data, st'), D, strs, types, rn, data, st) \<in> measure (\<lambda>(D, strs, types, rn, data, st). length data - d_pos st)"
    by simp
qed simp

declare debug_loop.simps [simp del]

definition parse_debug_info ::
  "deps \<Rightarrow> DexString list \<Rightarrow> rstring list \<Rightarrow> byte list \<Rightarrow> u32 \<Rightarrow> u16 \<Rightarrow> DexError + DebugInfo" where
  "parse_debug_info D strs types data offset registers_n =
     bindE (uleb_arg D data ''debug:line_start'' (unat offset)) (\<lambda>(ln_start, pos1).
     bindE (uleb_arg D data ''debug:params_size'' pos1) (\<lambda>(params_size, pos2).
     bindE (bound_count D params_size 1 (length data) ''debug_parameter_names'') (\<lambda>params_count.
     bindE (read_seq (read_param_name D strs data) params_count () pos2) (\<lambda>(params, pos3).
     bindE (debug_loop D strs types registers_n data
              \<lparr>d_pos = pos3, address = 0, d_line = ln_start, active = [], d_locals = [], d_table = [(0, ln_start)]\<rparr>) (\<lambda>st.
     Inr \<lparr>di_line_start = ln_start, parameter_names = params,
          di_locals = d_locals st @ map (\<lambda>(_, l). l\<lparr>lv_end_addr := None\<rparr>) (active st), line_table = d_table st\<rparr>)))))"

section \<open>Queries\<close>

definition line_at :: "DebugInfo \<Rightarrow> u32 \<Rightarrow> u32 option" where
  "line_at debug pc = map_option snd (find (\<lambda>(entry_pc, _). entry_pc \<le> pc) (rev (line_table debug)))"

definition local_name_at :: "DebugInfo \<Rightarrow> u16 \<Rightarrow> u32 \<Rightarrow> rstring option" where
  "local_name_at debug reg pc =
     Option.bind (find (\<lambda>l. lv_register l = reg \<and> lv_start_addr l \<le> pc
        \<and> (case lv_end_addr l of None \<Rightarrow> True | Some e \<Rightarrow> pc < e) \<and> lv_name l \<noteq> Some [0x74, 0x68, 0x69, 0x73]) (rev (di_locals debug)))
     lv_name"

definition checked_add_u16 :: "u16 \<Rightarrow> u16 \<Rightarrow> u16 option" where
  "checked_add_u16 a b = (if unat a + unat b < 2 ^ 16 then Some (a + b) else None)"

definition build_name_map :: "DebugInfo \<Rightarrow> u16 \<Rightarrow> u16 \<Rightarrow> bool \<Rightarrow> (u16 \<times> rstring) list" where
  "build_name_map debug registers_n ins_n is_static =
     (let first_param_reg = (if ins_n \<le> registers_n then registers_n - ins_n else 0);
          param_reg_offset = (if is_static then 0 else 1 :: u16);
          names = foldl (\<lambda>names (i, name).
              case name of None \<Rightarrow> names
              | Some n \<Rightarrow> (case checked_add_u16 first_param_reg param_reg_offset of None \<Rightarrow> names
                | Some offset_reg \<Rightarrow> (case checked_add_u16 offset_reg (of_nat i) of None \<Rightarrow> names
                  | Some reg \<Rightarrow> btree_insert reg n names)))
            [] (zip [0..<length (parameter_names debug)] (parameter_names debug))
      in foldl (\<lambda>names l. case lv_name l of None \<Rightarrow> names
           | Some name \<Rightarrow> if name \<noteq> [0x74, 0x68, 0x69, 0x73] then btree_insert (lv_register l) name names else names)
         names (di_locals debug))"

section \<open>The scanner\<close>

definition skip_uleb128 :: "deps \<Rightarrow> byte list \<Rightarrow> nat \<Rightarrow> DexError + nat" where
  "skip_uleb128 D data pos = bindE (uleb_arg D data ''debug:scan:uleb128'' pos) (\<lambda>(_, pos'). Inr pos')"

definition skip_sleb128 :: "deps \<Rightarrow> byte list \<Rightarrow> nat \<Rightarrow> DexError + nat" where
  "skip_sleb128 D data pos = bindE (sleb_arg D data ''debug:scan:sleb128'' pos) (\<lambda>(_, pos'). Inr pos')"

primrec skip_ulebs :: "deps \<Rightarrow> byte list \<Rightarrow> nat \<Rightarrow> nat \<Rightarrow> DexError + nat" where
  "skip_ulebs D data 0 pos = Inr pos"
| "skip_ulebs D data (Suc n) pos = bindE (skip_uleb128 D data pos) (skip_ulebs D data n)"

text \<open>The operands of an opcode other than the end marker.\<close>

definition scan_step :: "deps \<Rightarrow> byte list \<Rightarrow> byte \<Rightarrow> nat \<Rightarrow> DexError + nat" where
  "scan_step D data opcode pos =
     (if opcode = 0x01 then skip_uleb128 D data pos
      else if opcode = 0x02 then skip_sleb128 D data pos
      else if opcode = 0x03 then skip_ulebs D data 3 pos
      else if opcode = 0x04 then skip_ulebs D data 4 pos
      else if opcode = 0x05 \<or> opcode = 0x06 then skip_uleb128 D data pos
      else if opcode = 0x07 \<or> opcode = 0x08 then Inr pos
      else if opcode = 0x09 then skip_uleb128 D data pos
      else Inr pos)"

lemma skip_pos:
  "skip_uleb128 D data pos = Inr pos' \<Longrightarrow> pos \<le> pos'" "skip_sleb128 D data pos = Inr pos' \<Longrightarrow> pos \<le> pos'"
  by (auto simp: skip_uleb128_def skip_sleb128_def dest: uleb_arg_pos sleb_arg_pos)

lemma skip_ulebs_pos: "skip_ulebs D data n pos = Inr pos' \<Longrightarrow> pos \<le> pos'"
  by (induction n arbitrary: pos) (auto dest!: skip_pos intro: order_trans)

lemma scan_step_pos: "scan_step D data opcode pos = Inr pos' \<Longrightarrow> pos \<le> pos'"
  by (auto simp: scan_step_def split: if_splits dest: skip_pos skip_ulebs_pos)

function scan_loop :: "deps \<Rightarrow> byte list \<Rightarrow> nat \<Rightarrow> DexError + nat" where
  "scan_loop D data pos =
     (if pos \<ge> length data then Inl (Truncated pos 1 0)
      else bindE (ok_or (get_at data pos) (Truncated pos 1 0)) (\<lambda>opcode.
           bindE (safe_add pos 1 ''debug:scan:opcode'') (\<lambda>pos1.
           if opcode = 0x00 then Inr pos1
           else bindE (scan_step D data opcode pos1) (\<lambda>pos2. scan_loop D data pos2))))"
  by pat_completeness auto
termination
proof (relation "measure (\<lambda>(D, data, pos). length data - pos)")
  fix D data pos opcode pos1 pos2
  assume a: "\<not> length data \<le> pos" "safe_add pos 1 ''debug:scan:opcode'' = Inr pos1" "scan_step D data opcode pos1 = Inr pos2"
  show "((D, data, pos2), D, data, pos) \<in> measure (\<lambda>(D, data, pos). length data - pos)"
    using a(1) safe_add_InrD [OF a(2)] scan_step_pos [OF a(3)] by simp
qed simp

declare scan_loop.simps [simp del]

definition scan_debug_info_bytes :: "deps \<Rightarrow> byte list \<Rightarrow> u32 \<Rightarrow> DexError + byte list" where
  "scan_debug_info_bytes D data offset =
     (let start = unat offset in
      if start > length data then Inl (OffsetOutOfBounds offset (length data))
      else
        bindE (skip_uleb128 D data start) (\<lambda>pos1.
        bindE (uleb_arg D data ''debug:scan:params_size'' pos1) (\<lambda>(params_size, pos2).
        bindE (bound_count D params_size 1 (length data) ''debug_scan_parameter_names'') (\<lambda>params_count.
        bindE (skip_ulebs D data params_count pos2) (\<lambda>pos3.
        bindE (scan_loop D data pos3) (\<lambda>end_pos.
        ok_or (get_range data start end_pos) (Truncated start (end_pos - start) (length data - start))))))))"

section \<open>The machine keeps its tables in order\<close>

text \<open>The line table is ordered by address and nothing in it lies beyond the current address; locals end
  after they start; registers are in range.\<close>

definition local_ok :: "u16 \<Rightarrow> u32 \<Rightarrow> LocalVar \<Rightarrow> bool" where
  "local_ok rn addr l \<longleftrightarrow> lv_register l < rn \<and> lv_start_addr l \<le> addr
     \<and> (case lv_end_addr l of None \<Rightarrow> True | Some e \<Rightarrow> lv_start_addr l \<le> e \<and> e \<le> addr)"

definition debug_inv :: "u16 \<Rightarrow> u32 \<Rightarrow> dstate \<Rightarrow> bool" where
  "debug_inv rn ln st \<longleftrightarrow> (\<exists>t. d_table st = (0, ln) # t) \<and> sorted (map fst (d_table st))
     \<and> list_all (\<lambda>e. fst e \<le> address st) (d_table st)
     \<and> list_all (local_ok rn (address st)) (d_locals st)
     \<and> btree_ok (active st) \<and> list_all (\<lambda>(r, l). lv_register l = r \<and> lv_end_addr l = None \<and> local_ok rn (address st) l) (active st)"

lemma narrow_register_lt: "narrow_register v rn = Inr r \<Longrightarrow> r < rn"
  by (auto simp: narrow_register_def split: if_splits)

lemma local_ok_mono: "local_ok rn a l \<Longrightarrow> a \<le> b \<Longrightarrow> local_ok rn b l"
  by (auto simp: local_ok_def split: option.splits)

lemma debug_inv_pos [simp]: "debug_inv rn ln (st\<lparr>d_pos := p\<rparr>) \<longleftrightarrow> debug_inv rn ln st"
  "debug_inv rn ln (st\<lparr>d_line := l\<rparr>) \<longleftrightarrow> debug_inv rn ln st"
  by (simp_all add: debug_inv_def)

lemma debug_inv_push: "debug_inv rn ln st \<Longrightarrow> debug_inv rn ln (push_line st)"
  by (auto simp: debug_inv_def push_line_def sorted_append list_all_iff)

lemma debug_inv_advance: "debug_inv rn ln st \<Longrightarrow> address st \<le> a \<Longrightarrow> debug_inv rn ln (st\<lparr>address := a\<rparr>)"
  unfolding debug_inv_def by (fastforce simp: list_all_iff intro: local_ok_mono)

lemma checked_add_addr_le: "checked_add_addr a b = Some c \<Longrightarrow> a \<le> c"
  by (auto simp: checked_add_addr_def word_le_nat_alt unat_add_no_wrap split: if_splits)

lemma btree_remove_ok: "btree_ok m \<Longrightarrow> btree_ok (btree_remove k m)"
  unfolding btree_ok_def btree_remove_def by (induction m) auto

lemma debug_inv_end: "debug_inv rn ln st \<Longrightarrow> debug_inv rn ln (end_local reg st)"
proof (cases "map_of (active st) reg")
  case (Some l)
  assume i: "debug_inv rn ln st"
  from map_of_SomeD [OF Some] i have "local_ok rn (address st) l" by (auto simp: debug_inv_def list_all_iff)
  then have "local_ok rn (address st) (l\<lparr>lv_end_addr := Some (address st)\<rparr>)" by (simp add: local_ok_def)
  with i Some btree_remove_ok [of "active st" reg] show ?thesis
    by (auto simp: debug_inv_def end_local_def list_all_iff btree_remove_def)
qed (simp add: end_local_def)

lemma debug_inv_insert:
  assumes "debug_inv rn ln st" and "reg < rn"
  shows "debug_inv rn ln (st\<lparr>active := btree_insert reg \<lparr>lv_register = reg, lv_name = nm, lv_type_desc = ty,
     lv_start_addr = address st, lv_end_addr = None\<rparr> (active st)\<rparr>)"
proof -
  have "local_ok rn (address st) \<lparr>lv_register = reg, lv_name = nm, lv_type_desc = ty, lv_start_addr = address st, lv_end_addr = None\<rparr>"
    using assms(2) by (simp add: local_ok_def)
  with assms(1) show ?thesis
    unfolding debug_inv_def by (auto simp: list_all_iff btree_insert_ok dest!: btree_insert_set)
qed

lemma debug_inv_start: "debug_inv rn ln st \<Longrightarrow> reg < rn \<Longrightarrow> debug_inv rn ln (start_local reg nm ty st)"
  unfolding start_local_def Let_def by (rule debug_inv_insert [OF debug_inv_end])

lemma debug_inv_restart: "debug_inv rn ln st \<Longrightarrow> reg < rn \<Longrightarrow> debug_inv rn ln (restart_local reg st)"
  by (auto simp: restart_local_def debug_inv_insert split: option.splits)

fun dstep_state :: "dstep \<Rightarrow> dstate" where
  "dstep_state (Break st) = st" | "dstep_state (Continue st) = st"

lemma debug_inv_special: "debug_inv rn ln st \<Longrightarrow> debug_inv rn ln (dstep_state (special_step opcode st))"
  by (auto simp: special_step_def Let_def split: option.splits
      intro!: debug_inv_push debug_inv_advance dest: checked_add_addr_le)

lemma debug_inv_addr_pos:
  "debug_inv rn ln st \<Longrightarrow> checked_add_addr (address st) d = Some a \<Longrightarrow> debug_inv rn ln (st\<lparr>d_pos := p, address := a\<rparr>)"
  using debug_inv_advance [of rn ln "st\<lparr>d_pos := p\<rparr>" a] checked_add_addr_le by simp

lemma debug_inv_line_pos: "debug_inv rn ln st \<Longrightarrow> debug_inv rn ln (push_line (st\<lparr>d_pos := p, d_line := l\<rparr>))"
  by (intro debug_inv_push) simp

lemma debug_step_inv:
  assumes "debug_step D strs types rn data opcode st = Inr r" and i: "debug_inv rn ln st"
  shows "debug_inv rn ln (dstep_state r)"
proof -
  have "debug_inv rn ln (st\<lparr>d_pos := p, address := a\<rparr>)" if "checked_add_addr (address st) d = Some a" for p d a
    using debug_inv_addr_pos [OF i that] .
  with assms debug_inv_special [OF i, of opcode] show ?thesis unfolding debug_step_def Let_def
    by (auto split: if_splits option.splits dest!: narrow_register_lt
        intro!: debug_inv_line_pos debug_inv_start debug_inv_end debug_inv_restart)
qed

lemma debug_loop_inv: "debug_loop D strs types rn data st = Inr st' \<Longrightarrow> debug_inv rn ln st \<Longrightarrow> debug_inv rn ln st'"
proof (induction D strs types rn data st rule: debug_loop.induct)
  case (1 D strs types rn data st)
  show ?case
  proof (cases "get_at data (d_pos st)")
    case None
    with "1.prems" show ?thesis by (simp add: debug_loop.simps)
  next
    case (Some opcode)
    with "1.prems"(1) obtain pos r where r: "safe_add (d_pos st) 1 ''debug:opcode'' = Inr pos"
      "debug_step D strs types rn data opcode (st\<lparr>d_pos := pos\<rparr>) = Inr r"
      "(case r of Break st' \<Rightarrow> Inr st' | Continue st' \<Rightarrow> debug_loop D strs types rn data st') = Inr st'"
      by (subst (asm) debug_loop.simps) auto
    have i: "debug_inv rn ln (dstep_state r)" using debug_step_inv [OF r(2)] "1.prems"(2) by simp
    show ?thesis
    proof (cases r)
      case (Break s)
      with r(3) i show ?thesis by simp
    next
      case (Continue s)
      with "1.IH" [OF Some r(1, 2) Continue] r(3) i show ?thesis by simp
    qed
  qed
qed

lemma find_rev_sorted:
  assumes "sorted (map fst t)" and "find (\<lambda>(p, _). p \<le> pc) (rev t) = Some e"
  shows "e \<in> set t \<and> fst e \<le> pc \<and> (\<forall>e' \<in> set t. fst e' \<le> pc \<longrightarrow> fst e' \<le> fst e)"
  using assms
proof (induction t rule: rev_induct)
  case (snoc x t)
  show ?case
  proof (cases "fst x \<le> pc")
    case True
    with snoc.prems show ?thesis by (cases x) (auto simp: sorted_append)
  next
    case False
    with snoc show ?thesis by (cases x) (auto simp: sorted_append)
  qed
qed simp

section \<open>Moving debug information\<close>

text \<open>A window of the data, from \<open>start\<close> to \<open>stop\<close>, stands at another place of other data.\<close>

definition window :: "byte list \<Rightarrow> byte list \<Rightarrow> nat \<Rightarrow> nat \<Rightarrow> nat \<Rightarrow> bool" where
  "window data data' start off stop \<longleftrightarrow> start \<le> stop \<and> stop \<le> length data \<and> fits data' \<and> at_off data' off (take (stop - start) (drop start data))"

definition moved :: "nat \<Rightarrow> nat \<Rightarrow> nat \<Rightarrow> nat" where
  "moved start off p = p - start + off"

definition move_state :: "nat \<Rightarrow> nat \<Rightarrow> dstate \<Rightarrow> dstate" where
  "move_state start off st = st\<lparr>d_pos := moved start off (d_pos st)\<rparr>"

fun move_step :: "nat \<Rightarrow> nat \<Rightarrow> dstep \<Rightarrow> dstep" where
  "move_step start off (Break st) = Break (move_state start off st)"
| "move_step start off (Continue st) = Continue (move_state start off st)"

lemma move_state_simps [simp]:
  "address (move_state s f st) = address st" "d_line (move_state s f st) = d_line st" "d_pos (move_state s f st) = moved s f (d_pos st)"
  "d_locals (move_state s f st) = d_locals st" "active (move_state s f st) = active st" "d_table (move_state s f st) = d_table st"
  "(move_state s f st)\<lparr>d_pos := p\<rparr> = st\<lparr>d_pos := p\<rparr>" "(move_state s f st)\<lparr>address := a\<rparr> = move_state s f (st\<lparr>address := a\<rparr>)"
  "(move_state s f st)\<lparr>d_line := l\<rparr> = move_state s f (st\<lparr>d_line := l\<rparr>)"
  by (simp_all add: move_state_def)

lemma move_local [simp]:
  "push_line (move_state s f st) = move_state s f (push_line st)" "end_local reg (move_state s f st) = move_state s f (end_local reg st)"
  "start_local reg nm ty (move_state s f st) = move_state s f (start_local reg nm ty st)"
  "restart_local reg (move_state s f st) = move_state s f (restart_local reg st)"
  by (auto simp: push_line_def end_local_def start_local_def restart_local_def move_state_def Let_def split: option.splits)

lemma move_special: "special_step opcode (move_state s f st) = move_step s f (special_step opcode st)"
  by (simp add: special_step_def Let_def move_state_def push_line_def split: option.splits)

lemma map_sum_bindE [simp]: "map_sum id g (bindE m f) = bindE m (\<lambda>x. map_sum id g (f x))"
  by (cases m) auto

lemma move_pos: "st\<lparr>d_pos := moved s f p\<rparr> = move_state s f (st\<lparr>d_pos := p\<rparr>)"
  by (simp add: move_state_def)

lemma window_sub:
  assumes "window data data' start off stop" and "start \<le> p" and "p + n \<le> stop"
  shows "at_off data' (moved start off p) (take n (drop p data))"
proof -
  have l: "length (take (stop - start) (drop start data)) = stop - start" "length (take n (drop p data)) = n"
    using assms by (auto simp: window_def)
  have "at_off (take (stop - start) (drop start data)) (p - start) (take n (drop p data))"
    by (rule at_off_nthI) (unfold l, use assms in \<open>auto simp: window_def\<close>)
  then show ?thesis using at_off_trans assms(1) by (fastforce simp: window_def moved_def add.commute)
qed

lemma window_len: "window data data' start off stop \<Longrightarrow> start \<le> p \<Longrightarrow> p \<le> stop \<Longrightarrow> moved start off p \<le> length data'"
  using at_off_len [of data' off "take (stop - start) (drop start data)"] by (auto simp: window_def moved_def)

lemma uleb_arg_ctx: "uleb_arg D data c pos = Inr r \<Longrightarrow> uleb_arg D data c' pos = Inr r"
  by (auto simp: uleb_arg_def safe_add_def split: if_splits)

lemma sleb_arg_ctx: "sleb_arg D data c pos = Inr r \<Longrightarrow> sleb_arg D data c' pos = Inr r"
  by (auto simp: sleb_arg_def safe_add_def split: if_splits)

context leb128_codec
begin

lemma uleb_arg_bound: "uleb_arg D data c pos = Inr (v, p) \<Longrightarrow> pos < p \<and> p \<le> length data"
  by (auto simp: uleb_arg_def read_uleb128_def dest!: read_uleb_bound safe_add_InrD)

lemma uleb_arg_moved:
  assumes w: "window data data' start off stop" and "start \<le> pos" and r: "uleb_arg D data c pos = Inr (v, p)" and "p \<le> stop"
  shows "uleb_arg D data' c' (moved start off pos) = Inr (v, moved start off p)"
proof -
  obtain n where n: "common_read_uleb128 D data pos = Some (v, n)" "p = pos + n"
    using r by (auto simp: uleb_arg_def read_uleb128_def dest!: safe_add_InrD)
  have f: "fits data'" using w by (simp add: window_def)
  have at: "at_off data' (moved start off pos) (take n (drop pos data))" using window_sub [OF w assms(2)] assms(4) n(2) by simp
  have "moved start off pos + n \<le> length data'" "moved start off p = moved start off pos + n"
    using window_len [OF w, of p] assms(2, 4) n(2) by (simp_all add: moved_def)
  with read_uleb_local [OF n(1) f at] f show ?thesis by (simp add: uleb_arg_def read_uleb128_def fits_def)
qed

lemma sleb_arg_moved:
  assumes w: "window data data' start off stop" and "start \<le> pos" and r: "sleb_arg D data c pos = Inr (v, p)" and "p \<le> stop"
  shows "sleb_arg D data' c' (moved start off pos) = Inr (v, moved start off p)"
proof -
  obtain n where n: "common_read_sleb128 D data pos = Some (v, n)" "p = pos + n"
    using r by (auto simp: sleb_arg_def read_sleb128_def dest!: safe_add_InrD)
  have f: "fits data'" using w by (simp add: window_def)
  have at: "at_off data' (moved start off pos) (take n (drop pos data))" using window_sub [OF w assms(2)] assms(4) n(2) by simp
  have "moved start off pos + n \<le> length data'" "moved start off p = moved start off pos + n"
    using window_len [OF w, of p] assms(2, 4) n(2) by (simp_all add: moved_def)
  with read_sleb_local [OF n(1) f at] f show ?thesis by (simp add: sleb_arg_def read_sleb128_def fits_def)
qed

lemma skip_moved:
  assumes "window data data' start off stop" and "start \<le> pos" and "p \<le> stop"
  shows "skip_uleb128 D data pos = Inr p \<Longrightarrow> skip_uleb128 D data' (moved start off pos) = Inr (moved start off p)"
    "skip_sleb128 D data pos = Inr p \<Longrightarrow> skip_sleb128 D data' (moved start off pos) = Inr (moved start off p)"
  using uleb_arg_moved [OF assms(1, 2) _ assms(3)] sleb_arg_moved [OF assms(1, 2) _ assms(3)]
  by (fastforce simp: skip_uleb128_def skip_sleb128_def)+

lemma skip_ulebs_moved:
  assumes w: "window data data' start off stop" and "p \<le> stop"
  shows "start \<le> pos \<Longrightarrow> skip_ulebs D data n pos = Inr p \<Longrightarrow> skip_ulebs D data' n (moved start off pos) = Inr (moved start off p) \<and> pos + n \<le> p"
proof (induction n arbitrary: pos)
  case (Suc n)
  then obtain q where q: "skip_uleb128 D data pos = Inr q" "skip_ulebs D data n q = Inr p" by auto
  have "pos < q" "q \<le> p" using q skip_ulebs_pos [OF q(2)] by (auto simp: skip_uleb128_def dest: uleb_arg_bound)
  with skip_moved(1) [OF w Suc.prems(1) _ q(1)] Suc.IH [of q] Suc.prems q(2) assms(2) show ?case by fastforce
qed simp

lemma params_moved:
  assumes w: "window data data' start off stop" and "p \<le> stop"
  shows "start \<le> pos \<Longrightarrow> skip_ulebs D data n pos = Inr p \<Longrightarrow>
    \<exists>ns. read_seq (read_param_name D strs data) n () pos = Inr (ns, p)
       \<and> read_seq (read_param_name D strs data') n () (moved start off pos) = Inr (ns, moved start off p)"
proof (induction n arbitrary: pos)
  case (Suc n)
  then obtain v q where q: "uleb_arg D data ''debug:scan:uleb128'' pos = Inr (v, q)" "skip_ulebs D data n q = Inr p"
    by (auto simp: skip_uleb128_def)
  have "pos < q" "q \<le> p" using uleb_arg_bound [OF q(1)] skip_ulebs_pos [OF q(2)] by auto
  then obtain ns where "read_seq (read_param_name D strs data) n () q = Inr (ns, p)"
    "read_seq (read_param_name D strs data') n () (moved start off q) = Inr (ns, moved start off p)"
    using Suc.IH [of q] Suc.prems(1) q(2) by auto
  moreover have "read_param_name D strs data () pos = Inr (opt_name strs v, (), q)"
    using uleb_arg_ctx [OF q(1)] by (simp add: read_param_name_def)
  moreover have "read_param_name D strs data' () (moved start off pos) = Inr (opt_name strs v, (), moved start off q)"
    using uleb_arg_moved [OF w Suc.prems(1) q(1)] \<open>q \<le> p\<close> assms(2) by (simp add: read_param_name_def)
  ultimately show ?case by simp
qed simp

text \<open>An operand the scanner skips is read, at both places, whatever the error context.\<close>

lemma skip_uleb_arg:
  assumes w: "window data data' start off stop" and "start \<le> pos" and "skip_uleb128 D data pos = Inr p" and "p \<le> stop"
  shows "start \<le> p \<and> (\<exists>v. (\<forall>c. uleb_arg D data c pos = Inr (v, p)) \<and> (\<forall>c. uleb_arg D data' c (moved start off pos) = Inr (v, moved start off p)))"
proof -
  obtain v where v: "uleb_arg D data ''debug:scan:uleb128'' pos = Inr (v, p)" using assms(3) by (auto simp: skip_uleb128_def)
  with uleb_arg_ctx [OF v] uleb_arg_moved [OF w assms(2) v assms(4)] uleb_arg_bound [OF v] assms(2) show ?thesis by auto
qed

lemma skip_sleb_arg:
  assumes w: "window data data' start off stop" and "start \<le> pos" and "skip_sleb128 D data pos = Inr p" and "p \<le> stop"
  shows "\<exists>v. (\<forall>c. sleb_arg D data c pos = Inr (v, p)) \<and> (\<forall>c. sleb_arg D data' c (moved start off pos) = Inr (v, moved start off p))"
proof -
  obtain v where v: "sleb_arg D data ''debug:scan:sleb128'' pos = Inr (v, p)" using assms(3) by (auto simp: skip_sleb128_def)
  with sleb_arg_ctx [OF v] sleb_arg_moved [OF w assms(2) v assms(4)] show ?thesis by auto
qed

text \<open>One opcode: where the scanner finds its operands, the machine does the same at the new place, and goes
  on where the scanner goes on.\<close>

lemma debug_step_moved:
  assumes w: "window data data' start off stop" and b: "start \<le> d_pos st" and sc: "scan_step D data opcode (d_pos st) = Inr q"
    and e: "q \<le> stop"
  shows "debug_step D strs types rn data' opcode (move_state start off st)
      = map_sum id (move_step start off) (debug_step D strs types rn data opcode st)
    \<and> (\<forall>st'. debug_step D strs types rn data opcode st = Inr (Continue st') \<longrightarrow> d_pos st' = q)"
proof -
  consider (uleb) "opcode \<in> {1, 5, 6, 9}" "skip_uleb128 D data (d_pos st) = Inr q"
    | (line) "opcode = 2" "skip_sleb128 D data (d_pos st) = Inr q"
    | (start) "opcode = 3" "skip_ulebs D data 3 (d_pos st) = Inr q"
    | (ext) "opcode = 4" "skip_ulebs D data 4 (d_pos st) = Inr q"
    | (none) "opcode \<notin> {1, 2, 3, 4, 5, 6, 9}" "q = d_pos st"
    using sc by (auto simp: scan_step_def split: if_splits)
  then show ?thesis
  proof cases
    case uleb
    from skip_uleb_arg [OF w b uleb(2) e] uleb(1) show ?thesis
      by (auto simp: debug_step_def Let_def move_pos split: option.splits)
  next
    case line
    from skip_sleb_arg [OF w b line(2) e] line(1) show ?thesis
      by (auto simp: debug_step_def Let_def move_pos split: option.splits)
  next
    case start
    then obtain p1 p2 where p: "skip_uleb128 D data (d_pos st) = Inr p1" "skip_uleb128 D data p1 = Inr p2" "skip_uleb128 D data p2 = Inr q"
      by (auto simp: numeral_eq_Suc)
    have le: "p2 \<le> stop" "p1 \<le> stop" using skip_pos(1) [OF p(2)] skip_pos(1) [OF p(3)] e by linarith+
    note a1 = skip_uleb_arg [OF w b p(1) le(2)]
    note a2 = skip_uleb_arg [OF w a1 [THEN conjunct1] p(2) le(1)]
    note a3 = skip_uleb_arg [OF w a2 [THEN conjunct1] p(3) e]
    from a1 a2 a3 start(1) show ?thesis by (auto simp: debug_step_def Let_def move_pos)
  next
    case ext
    then obtain p1 p2 p3 where p: "skip_uleb128 D data (d_pos st) = Inr p1" "skip_uleb128 D data p1 = Inr p2" "skip_uleb128 D data p2 = Inr p3"
      "skip_uleb128 D data p3 = Inr q" by (auto simp: numeral_eq_Suc)
    have le: "p3 \<le> stop" "p2 \<le> stop" "p1 \<le> stop"
      using skip_pos(1) [OF p(2)] skip_pos(1) [OF p(3)] skip_pos(1) [OF p(4)] e by linarith+
    note a1 = skip_uleb_arg [OF w b p(1) le(3)]
    note a2 = skip_uleb_arg [OF w a1 [THEN conjunct1] p(2) le(2)]
    note a3 = skip_uleb_arg [OF w a2 [THEN conjunct1] p(3) le(1)]
    note a4 = skip_uleb_arg [OF w a3 [THEN conjunct1] p(4) e]
    from a1 a2 a3 a4 ext(1) show ?thesis by (auto simp: debug_step_def Let_def move_pos)
  next
    case none
    then show ?thesis by (auto simp: debug_step_def Let_def move_special dest: special_step_pos)
  qed
qed

lemma scan_step_moved:
  assumes w: "window data data' start off stop" and b: "start \<le> pos" and sc: "scan_step D data opcode pos = Inr q" and e: "q \<le> stop"
  shows "scan_step D data' opcode (moved start off pos) = Inr (moved start off q)"
  using sc skip_moved [OF w b e] skip_ulebs_moved [OF w e b] by (auto simp: scan_step_def split: if_splits)

lemma scan_loop_bound: "scan_loop D' data pos = Inr e \<Longrightarrow> pos < e \<and> e \<le> length data \<and> data ! (e - 1) = 0"
proof (induction D' data pos rule: scan_loop.induct)
  case (1 D' data pos)
  from "1.prems" obtain opcode pos1 where r: "\<not> length data \<le> pos" "get_at data pos = Some opcode" "safe_add pos 1 ''debug:scan:opcode'' = Inr pos1"
    and n: "if opcode = 0 then e = pos1 else \<exists>pos2. scan_step D' data opcode pos1 = Inr pos2 \<and> scan_loop D' data pos2 = Inr e"
    by (subst (asm) scan_loop.simps) (auto split: if_splits)
  have p: "pos1 = pos + 1" "pos < length data" "data ! pos = opcode" using r safe_add_InrD [OF r(3)] by (auto simp: get_at_def split: if_splits)
  show ?case
  proof (cases "opcode = 0")
    case True
    with n p show ?thesis by simp
  next
    case False
    with n obtain pos2 where q: "scan_step D' data opcode pos1 = Inr pos2" "scan_loop D' data pos2 = Inr e" by auto
    have "ok_or (get_at data pos) (Truncated pos 1 0) = Inr opcode" using r(2) by simp
    from "1.IH" [OF r(1) this r(3) False q] scan_step_pos [OF q(1)] p show ?thesis by simp
  qed
qed

lemma scan_loop_moved:
  "scan_loop D' data pos = Inr stop \<Longrightarrow> D' = D \<Longrightarrow> window data data' start off stop \<Longrightarrow> start \<le> pos \<Longrightarrow>
   scan_loop D data' (moved start off pos) = Inr (moved start off stop)
   \<and> (\<forall>st. d_pos st = pos \<longrightarrow> debug_loop D strs types rn data' (move_state start off st)
        = map_sum id (move_state start off) (debug_loop D strs types rn data st))"
proof (induction D' data pos rule: scan_loop.induct)
  case (1 D' data pos)
  note D = "1.prems"(2) and w = "1.prems"(3) and b = "1.prems"(4)
  from "1.prems"(1) obtain opcode pos1 where r: "\<not> length data \<le> pos" "get_at data pos = Some opcode" "safe_add pos 1 ''debug:scan:opcode'' = Inr pos1"
    and n: "if opcode = 0 then stop = pos1 else \<exists>pos2. scan_step D data opcode pos1 = Inr pos2 \<and> scan_loop D data pos2 = Inr stop"
    unfolding D by (subst (asm) scan_loop.simps) (auto split: if_splits)
  have p: "pos1 = pos + 1" "data ! pos = opcode" using r safe_add_InrD [OF r(3)] by (auto simp: get_at_def split: if_splits)
  have ps: "pos + 1 \<le> stop" using scan_loop_bound [OF "1.prems"(1)] by simp
  have m: "moved start off pos1 = moved start off pos + 1" using p(1) b by (simp add: moved_def)
  have l': "moved start off pos + 1 \<le> length data'" using window_len [OF w, of "pos + 1"] b ps m p(1) by simp
  have "at_off data' (moved start off pos) [opcode]"
    using window_sub [OF w b ps] p(2) r(1) by (simp add: take_Suc_conv_app_nth hd_drop_conv_nth take_Suc)
  then have g: "get_at data' (moved start off pos) = Some opcode"
    using at_off_nth [of data' "moved start off pos" "[opcode]" 0] l' by (simp add: get_at_def)
  have f: "fits data'" using w by (simp add: window_def)
  have sa: "safe_add (moved start off pos) 1 c = Inr (moved start off pos1)" for c
    using l' f by (simp add: m fits_def)
  have sd: "safe_add pos 1 c = Inr pos1" for c using safe_add_InrD [OF r(3)] p(1) by simp
  show ?case
  proof (cases "opcode = 0")
    case True
    with n g sa l' r sd m show ?thesis
      by (simp add: scan_loop.simps [of D data'] debug_loop.simps debug_step_def move_pos)
  next
    case False
    with n obtain pos2 where q: "scan_step D data opcode pos1 = Inr pos2" "scan_loop D data pos2 = Inr stop" by auto
    have "ok_or (get_at data pos) (Truncated pos 1 0) = Inr opcode" using r(2) by simp
    note IH = "1.IH" [OF r(1) this r(3) False, unfolded D, OF q refl w]
    have p2: "start \<le> pos1" "start \<le> pos2" "pos2 \<le> stop" using b p(1) scan_step_pos [OF q(1)] scan_loop_bound [OF q(2)] by auto
    have "scan_loop D data' (moved start off pos) = Inr (moved start off stop)"
      using g sa l' False scan_step_moved [OF w p2(1) q(1) p2(3)] IH [OF p2(2)] by (simp add: scan_loop.simps [of D data' "moved start off pos"])
    moreover have "debug_loop D strs types rn data' (move_state start off st) = map_sum id (move_state start off) (debug_loop D strs types rn data st)"
      if "d_pos st = pos" for st
    proof -
      note s = debug_step_moved [OF w _ _ p2(3), where st = "st\<lparr>d_pos := pos1\<rparr>" and opcode = opcode, simplified, OF p2(1) q(1)]
      show ?thesis
      proof (cases "debug_step D strs types rn data opcode (st\<lparr>d_pos := pos1\<rparr>)")
        case (Inl err)
        with s g sa r(2) sd that show ?thesis by (simp add: debug_loop.simps move_pos)
      next
        case (Inr x)
        with s g sa r(2) sd that IH [OF p2(2)] show ?thesis
          by (cases x) (simp_all add: debug_loop.simps [of D _ _ _ _ st] debug_loop.simps [of D _ _ _ _ "move_state start off st"] move_pos id_def)
      qed
    qed
    ultimately show ?thesis by blast
  qed
qed

end

context dex_deps
begin

lemma scan_parts:
  assumes "scan_debug_info_bytes D data off = Inr raw" and "fits data"
  obtains pos1 n pos2 pos3 stop where "skip_uleb128 D data (unat off) = Inr pos1" "uleb_arg D data ''debug:scan:params_size'' pos1 = Inr (n, pos2)"
    "bound_count D n 1 (length data) ''debug_scan_parameter_names'' = Inr (unat n)" "skip_ulebs D data (unat n) pos2 = Inr pos3"
    "scan_loop D data pos3 = Inr stop" "unat off \<le> stop" "stop \<le> length data" "raw = take (stop - unat off) (drop (unat off) data)"
proof -
  obtain pos1 n pos2 cnt pos3 stop where r: "skip_uleb128 D data (unat off) = Inr pos1" "uleb_arg D data ''debug:scan:params_size'' pos1 = Inr (n, pos2)"
    "bound_count D n 1 (length data) ''debug_scan_parameter_names'' = Inr cnt" "skip_ulebs D data cnt pos2 = Inr pos3"
    "scan_loop D data pos3 = Inr stop" "get_range data (unat off) stop = Some raw"
    using assms(1) by (auto simp: scan_debug_info_bytes_def Let_def split: if_splits)
  have "cnt = unat n" using bound_count_InrD [OF r(3)] assms(2) by (simp add: fits_def)
  with r show thesis using that by (auto simp: get_range_def split: if_splits)
qed

lemma debug_info_moved:
  assumes sc: "scan_debug_info_bytes D data off = Inr raw" and f: "fits data" and f': "fits data'" and at: "at_off data' (unat off') raw"
  shows "scan_debug_info_bytes D data' off' = Inr raw"
    and "parse_debug_info D strs types data' off' rn = parse_debug_info D strs types data off rn"
proof -
  obtain pos1 n pos2 pos3 stop where r: "skip_uleb128 D data (unat off) = Inr pos1" "uleb_arg D data ''debug:scan:params_size'' pos1 = Inr (n, pos2)"
    "bound_count D n 1 (length data) ''debug_scan_parameter_names'' = Inr (unat n)" "skip_ulebs D data (unat n) pos2 = Inr pos3"
    "scan_loop D data pos3 = Inr stop" "unat off \<le> stop" "stop \<le> length data" "raw = take (stop - unat off) (drop (unat off) data)"
    by (rule scan_parts [OF sc f])
  let ?s = "unat off" and ?f = "unat off'"
  have w: "window data data' ?s ?f stop" using r(6, 7, 8) f' at by (simp add: window_def)
  have le: "pos3 \<le> stop" "pos2 \<le> stop" "pos1 \<le> stop" "?s \<le> pos1" "?s \<le> pos2" "?s \<le> pos3"
    using scan_loop_bound [OF r(5)] skip_ulebs_pos [OF r(4)] uleb_arg_bound [OF r(2)] skip_pos(1) [OF r(1)] by linarith+
  obtain ln where a1: "\<And>c. uleb_arg D data c ?s = Inr (ln, pos1)" "\<And>c. uleb_arg D data' c ?f = Inr (ln, moved ?s ?f pos1)"
    using skip_uleb_arg [OF w le_refl r(1) le(3)] by (auto simp: moved_def)
  have a2: "uleb_arg D data c pos1 = Inr (n, pos2)" "uleb_arg D data' c (moved ?s ?f pos1) = Inr (n, moved ?s ?f pos2)" for c
    using uleb_arg_ctx [OF r(2)] uleb_arg_moved [OF w le(4) r(2) le(2)] by auto
  note k = skip_ulebs_moved [OF w le(1) le(5) r(4)]
  note l = scan_loop_moved [OF r(5) refl w le(6), of strs types rn]
  have bc: "bound_count D n 1 (length data) i = Inr (unat n)" for i
    using bound_count_fits [of 1 "length data" n] bound_count_InrD [OF r(3)] f by (simp add: fits_def)
  have "unat n \<le> length data'"
    using k [THEN conjunct2] window_len [OF w le(6) le(1)] le(5) unfolding moved_def by linarith
  then have bc': "bound_count D n 1 (length data') i = Inr (unat n)" for i
    using bound_count_fits [of 1 "length data'" n] f' by (simp add: fits_def)
  have lr: "length raw = stop - ?s" using r(6, 7, 8) by simp
  have "?f + length raw \<le> length data'" using at by (rule at_off_len)
  then have g: "get_range data' ?f (moved ?s ?f stop) = Some raw"
    using at lr r(6) by (simp add: get_range_def moved_def at_off_def add.commute)
  have "?f \<le> length data'" using \<open>?f + length raw \<le> length data'\<close> by simp
  then show "scan_debug_info_bytes D data' off' = Inr raw"
    using a1(2) a2(2) bc' k l g by (simp add: scan_debug_info_bytes_def skip_uleb128_def Let_def)
  obtain ns where p: "read_seq (read_param_name D strs data) (unat n) () pos2 = Inr (ns, pos3)"
    "read_seq (read_param_name D strs data') (unat n) () (moved ?s ?f pos2) = Inr (ns, moved ?s ?f pos3)"
    using params_moved [OF w le(1) le(5) r(4)] by blast
  let ?st = "\<lparr>d_pos = pos3, address = 0, d_line = ln, active = [], d_locals = [], d_table = [(0, ln)]\<rparr>"
  have "debug_loop D strs types rn data' (move_state ?s ?f ?st) = map_sum id (move_state ?s ?f) (debug_loop D strs types rn data ?st)"
    using l by simp
  then have d: "debug_loop D strs types rn data' (?st\<lparr>d_pos := moved ?s ?f pos3\<rparr>) = map_sum id (move_state ?s ?f) (debug_loop D strs types rn data ?st)"
    by (simp add: move_state_def)
  show "parse_debug_info D strs types data' off' rn = parse_debug_info D strs types data off rn"
    using d by (simp add: parse_debug_info_def a1 a2 bc bc' p del: One_nat_def) (cases "debug_loop D strs types rn data ?st"; simp)
qed

end

section \<open>Properties\<close>

text \<open>C39 (debug_info_relocated). Debug information that the scanner accepts can be copied: at any place of any other file its
  bytes are scanned with the same extent and decoded to the same result, error or tables.\<close>

theorem debug_info_relocated:
  assumes "dex_deps D" and "scan_debug_info_bytes D data off = Inr raw" and "fits data" and "fits data'" and "at_off data' (unat off') raw"
  shows "scan_debug_info_bytes D data' off' = Inr raw
    \<and> parse_debug_info D strs types data' off' rn = parse_debug_info D strs types data off rn"
  using dex_deps.debug_info_moved [OF assms] by blast

text \<open>C40 (debug_info_wf). Decoded debug information is well-formed: the line table starts with the first line at address
  0 and is ordered by address, so a lookup gives the entry with the greatest address that is not beyond the
  queried one; every local lies in a register of the method and ends, if it does, not before it starts.\<close>

theorem debug_info_wf:
  assumes "parse_debug_info D strs types data off rn = Inr info"
  shows "hd (line_table info) = (0, di_line_start info) \<and> sorted (map fst (line_table info))
    \<and> (\<exists>e. e \<in> set (line_table info) \<and> line_at info pc = Some (snd e) \<and> fst e \<le> pc
         \<and> (\<forall>e' \<in> set (line_table info). fst e' \<le> pc \<longrightarrow> fst e' \<le> fst e))
    \<and> list_all (\<lambda>l. lv_register l < rn \<and> (case lv_end_addr l of None \<Rightarrow> True | Some e \<Rightarrow> lv_start_addr l \<le> e)) (di_locals info)"
proof -
  obtain ln pos st where p: "debug_loop D strs types rn data \<lparr>d_pos = pos, address = 0, d_line = ln, active = [], d_locals = [], d_table = [(0, ln)]\<rparr> = Inr st"
    "di_line_start info = ln" "di_locals info = d_locals st @ map (\<lambda>(_, l). l\<lparr>lv_end_addr := None\<rparr>) (active st)" "line_table info = d_table st"
    using assms by (auto simp: parse_debug_info_def)
  have i: "debug_inv rn ln st" using debug_loop_inv [OF p(1), of ln] by (simp add: debug_inv_def btree_ok_def)
  then obtain t where t: "d_table st = (0, ln) # t" and s: "sorted (map fst (d_table st))" by (auto simp: debug_inv_def)
  have "find (\<lambda>(p, _). p \<le> pc) (rev (d_table st)) \<noteq> None" by (auto simp: find_None_iff t)
  then obtain e where e: "find (\<lambda>(p, _). p \<le> pc) (rev (d_table st)) = Some e" by blast
  have l: "list_all (\<lambda>l. lv_register l < rn \<and> (case lv_end_addr l of None \<Rightarrow> True | Some e \<Rightarrow> lv_start_addr l \<le> e)) (di_locals info)"
    unfolding p(3) using i by (fastforce simp: debug_inv_def local_ok_def list_all_iff split: option.splits)
  have h: "hd (line_table info) = (0, di_line_start info)" "sorted (map fst (line_table info))" using t s p(2, 4) by simp_all
  have "e \<in> set (line_table info) \<and> line_at info pc = Some (snd e) \<and> fst e \<le> pc
      \<and> (\<forall>e' \<in> set (line_table info). fst e' \<le> pc \<longrightarrow> fst e' \<le> fst e)"
    using find_rev_sorted [OF s e] e p(4) by (simp add: line_at_def)
  then have "\<exists>e. e \<in> set (line_table info) \<and> line_at info pc = Some (snd e) \<and> fst e \<le> pc
      \<and> (\<forall>e' \<in> set (line_table info). fst e' \<le> pc \<longrightarrow> fst e' \<le> fst e)"
    by (intro exI [of _ e])
  with h l show ?thesis by (intro conjI)
qed

section \<open>Witnesses\<close>

text \<open>Line 3, no parameters, a local in register 1, a special opcode, the end marker.\<close>

definition sample_debug :: "byte list" where
  "sample_debug = [3, 0, 3, 1, 0, 0, 0x1F, 0]"

lemma byte_low_bits: "(b :: byte) < 0x80 \<Longrightarrow> b AND 0x7F = b \<and> b AND 0x80 = 0"
proof -
  assume "b < 0x80"
  then have "take_bit 7 b = b" by (intro take_bit_small) (simp add: word_less_nat_alt)
  then have "bit b n \<Longrightarrow> n < 7" for n using bit_take_bit_iff [of 7 b n] by simp
  then show ?thesis by (auto intro!: bit_word_eqI simp: bit_simps) fastforce
qed

lemma std_uleb_small:
  assumes "get_at data pos = Some b" and "b < 0x80" and "pos < 2 ^ 63"
  shows "uleb_arg (std_deps h) data c pos = Inr (ucast b, pos + 1)"
proof -
  have "uleb_loop data pos 0 0 0 = Some (ucast b, 1)"
    using assms byte_low_bits [OF assms(2)] by (subst uleb_loop.simps) simp
  moreover have "\<not> (ucast b :: u64) > 0xFFFFFFFF" using unat_byte_lt [of b] by (simp add: word_less_nat_alt unat_ucast_up)
  moreover have "(ucast (ucast b :: u64) :: u32) = ucast b" by (rule bit_word_eqI) (auto simp: bit_simps)
  ultimately show ?thesis using assms(3) by (simp add: uleb_arg_def read_uleb128_def std_deps_def oracle_read_uleb128_def)
qed

lemma sample_debug_scan: "scan_debug_info_bytes (std_deps h) (sample_debug @ [7]) 0 = Inr sample_debug"
proof -
  let ?d = "[3, 0, 3, 1, 0, 0, 0x1F, 0, 7] :: byte list"
  have u: "uleb_arg (std_deps h) ?d c 0 = Inr (3, 1)" "uleb_arg (std_deps h) ?d c 1 = Inr (0, 2)" "uleb_arg (std_deps h) ?d c 3 = Inr (1, 4)"
    "uleb_arg (std_deps h) ?d c 4 = Inr (0, 5)" "uleb_arg (std_deps h) ?d c 5 = Inr (0, 6)" for c
    using std_uleb_small [of ?d 0 3 h c] std_uleb_small [of ?d 1 0 h c] std_uleb_small [of ?d 3 1 h c] std_uleb_small [of ?d 4 0 h c]
      std_uleb_small [of ?d 5 0 h c] by (simp_all add: get_at_def)
  have b: "bound_count (std_deps h) 0 1 n c = Inr 0" for n c
    by (simp add: bound_count_def std_deps_def oracle_bound_count_def)
  have "skip_ulebs (std_deps h) ?d (Suc (Suc (Suc 0))) 3 = Inr 6" by (simp add: skip_uleb128_def u)
  then have "skip_ulebs (std_deps h) ?d 3 3 = Inr 6" unfolding numeral_3_eq_3 [symmetric] .
  then have "scan_step (std_deps h) ?d 3 3 = Inr 6" by (simp add: scan_step_def)
  then have l: "scan_loop (std_deps h) ?d 2 = Inr 8"
    by (simp add: scan_loop.simps [of _ _ 2] scan_loop.simps [of _ _ 6] scan_loop.simps [of _ _ 7] get_at_def scan_step_def)
  show ?thesis
    by (simp add: scan_debug_info_bytes_def sample_debug_def skip_uleb128_def u b l Let_def get_range_def del: One_nat_def)
qed

lemma sample_debug_parse:
  "parse_debug_info (std_deps h) [] [] sample_debug 0 2 = Inr \<lparr>di_line_start = 3, parameter_names = [],
     di_locals = [\<lparr>lv_register = 1, lv_name = None, lv_type_desc = None, lv_start_addr = 0, lv_end_addr = None\<rparr>],
     line_table = [(0, 3), (1, 5)]\<rparr>"
proof -
  let ?d = "[3, 0, 3, 1, 0, 0, 0x1F, 0] :: byte list"
  have u: "uleb_arg (std_deps h) ?d c 0 = Inr (3, 1)" "uleb_arg (std_deps h) ?d c 1 = Inr (0, 2)" "uleb_arg (std_deps h) ?d c 3 = Inr (1, 4)"
    "uleb_arg (std_deps h) ?d c 4 = Inr (0, 5)" "uleb_arg (std_deps h) ?d c 5 = Inr (0, 6)" for c
    using std_uleb_small [of ?d 0 3 h c] std_uleb_small [of ?d 1 0 h c] std_uleb_small [of ?d 3 1 h c] std_uleb_small [of ?d 4 0 h c]
      std_uleb_small [of ?d 5 0 h c] by (simp_all add: get_at_def)
  have b: "bound_count (std_deps h) 0 1 n c = Inr 0" for n c
    by (simp add: bound_count_def std_deps_def oracle_bound_count_def)
  have "debug_loop (std_deps h) [] [] 2 ?d \<lparr>d_pos = 2, address = 0, d_line = 3, active = [], d_locals = [], d_table = [(0, 3)]\<rparr>
     = Inr \<lparr>d_pos = 8, address = 1, d_line = 5, active = [(1, \<lparr>lv_register = 1, lv_name = None, lv_type_desc = None, lv_start_addr = 0, lv_end_addr = None\<rparr>)],
         d_locals = [], d_table = [(0, 3), (1, 5)]\<rparr>"
    by (simp add: debug_loop.simps get_at_def debug_step_def u narrow_register_def start_local_def end_local_def opt_name_def opt_type_def
        special_step_def checked_add_line_def checked_add_addr_def push_line_def)
  then show ?thesis by (simp add: parse_debug_info_def sample_debug_def u b del: One_nat_def)
qed

theorem debug_info_relocated_witness:
  "scan_debug_info_bytes (std_deps (\<lambda>_. [])) (1 # 2 # sample_debug) 2 = Inr sample_debug
   \<and> parse_debug_info (std_deps (\<lambda>_. [])) [] [] (1 # 2 # sample_debug) 2 2 = parse_debug_info (std_deps (\<lambda>_. [])) [] [] (sample_debug @ [7]) 0 2"
proof -
  have "unat (2 :: u32) = length [1, 2 :: byte]" by simp
  then have "at_off (1 # 2 # sample_debug) (unat (2 :: u32)) sample_debug" using at_offI [of "[1, 2]" sample_debug "[]"] by (simp add: numeral_2_eq_2 [symmetric])
  then show ?thesis
    by (intro debug_info_relocated [OF std.dex_deps_axioms sample_debug_scan]) (simp_all add: fits_def sample_debug_def)
qed

theorem debug_info_wf_witness:
  "sorted (map fst [(0 :: u32, 3 :: u32), (1, 5)])
   \<and> line_at \<lparr>di_line_start = 3, parameter_names = [], di_locals = [\<lparr>lv_register = 1, lv_name = None, lv_type_desc = None,
       lv_start_addr = 0, lv_end_addr = None\<rparr>], line_table = [(0, 3), (1, 5)]\<rparr> 7 \<noteq> None"
  using debug_info_wf [OF sample_debug_parse [of "\<lambda>_. []"], of 7] by auto

end
