(* ===== verification/Dex_Walk.thy ===== *)
theory Dex_Walk
  imports Dex_Conformance Dex_Debug
begin

text \<open>
  The section walkers of \<open>src/src/parser/mod.rs\<close>: they cut the debug info section and the annotation set
  section into regions, adding the entries no reference led to, and the gauge checks that regions tile
  their section. Both walkers are one loop over an interface of the item kind: how an item is read at a
  position and how long it is.
\<close>

section \<open>Regions\<close>

datatype SectionRegion =
    Entry (region_off: u32) (region_len: u32)
  | Gap (region_off: u32) (region_len: u32)
  | UnparseableTail (region_off: u32) (region_len: u32) (region_reason: ParseFailureKind)

definition region_end :: "SectionRegion \<Rightarrow> u32" where
  "region_end r = (if unat (region_off r) + unat (region_len r) < 2 ^ 32 then region_off r + region_len r else 0xFFFFFFFF)"

definition region_is_empty :: "SectionRegion \<Rightarrow> bool" where
  "region_is_empty r \<longleftrightarrow> region_len r = 0"

fun is_unparseable_tail :: "SectionRegion \<Rightarrow> bool" where
  "is_unparseable_tail (UnparseableTail _ _ _) = True"
| "is_unparseable_tail _ = False"

fun is_entry :: "SectionRegion \<Rightarrow> bool" where
  "is_entry (Entry _ _) = True"
| "is_entry _ = False"

fun gauge_loop :: "string \<Rightarrow> u32 \<Rightarrow> SectionRegion list \<Rightarrow> DexError + u32" where
  "gauge_loop sec cur [] = Inr cur"
| "gauge_loop sec cur (r # rs) =
     (if region_off r \<noteq> cur then Inl (SectionLayoutGauge sec ''region offsets non-contiguous (gap or overlap)'')
      else if unat cur + unat (region_len r) < 2 ^ 32 then gauge_loop sec (cur + region_len r) rs
      else Inl (SectionLayoutGauge sec ''region end overflowed u32''))"

definition section_layout_gauge :: "string \<Rightarrow> u32 \<Rightarrow> u32 \<Rightarrow> SectionRegion list \<Rightarrow> DexError + unit" where
  "section_layout_gauge sec section_start section_end regions =
     (if regions = [] then
        (if section_start = section_end then Inr () else Inl (SectionLayoutGauge sec ''section non-empty but no regions''))
      else bindE (gauge_loop sec section_start regions) (\<lambda>cur.
        if cur \<noteq> section_end then Inl (SectionLayoutGauge sec ''final region does not end at section_end'') else Inr ()))"

section \<open>The walk\<close>

text \<open>What the loop needs of an item kind: the section's name, the failure kind of its tail, the reader, and
  the lengths of a stored, a re-read and a fresh item with their narrowing to 32 bits.\<close>

record 'v item_kind =
  ik_section :: string
  ik_reason :: ParseFailureKind
  ik_read :: "u32 \<Rightarrow> DexError + 'v"
  ik_stored_len :: "'v \<Rightarrow> DexError + u32"
  ik_rescan_len :: "'v \<Rightarrow> DexError + u32"
  ik_fresh_len :: "'v \<Rightarrow> DexError + u32"

definition gauge_error :: "'v item_kind \<Rightarrow> string \<Rightarrow> DexError" where
  "gauge_error K why = SectionLayoutGauge (ik_section K) why"

definition tail_region :: "'v item_kind \<Rightarrow> u32 \<Rightarrow> u32 \<Rightarrow> SectionRegion" where
  "tail_region K section_end p = UnparseableTail p (section_end - p) (ik_reason K)"

definition checked_next :: "'v item_kind \<Rightarrow> string \<Rightarrow> u32 \<Rightarrow> u32 \<Rightarrow> DexError + u32" where
  "checked_next K why p len = (if unat p + unat len < 2 ^ 32 then Inr (p + len) else Inl (gauge_error K why))"

text \<open>One entry: the walk ends with a tail, or goes on at a new position with the map it has.\<close>

datatype 'v walk_step = Halt | Advance u32 u32 "(u32 \<times> 'v) list"

definition walk_stored :: "'v item_kind \<Rightarrow> u32 \<Rightarrow> (u32 \<times> 'v) list \<Rightarrow> u32 \<Rightarrow> 'v \<Rightarrow> DexError + 'v walk_step" where
  "walk_stored K section_end m p stored =
     bindE (ik_stored_len K stored) (\<lambda>stored_len.
     case ik_read K p of
       Inl _ \<Rightarrow> Inr Halt
     | Inr raw \<Rightarrow>
         bindE (ik_rescan_len K raw) (\<lambda>scan_len.
         if scan_len \<noteq> stored_len then Inr Halt
         else bindE (checked_next K ''cursor overflow on dedupe path'' p stored_len) (\<lambda>next.
              if section_end < next then Inl (gauge_error K ''stored entry crosses section_end'')
              else Inr (Advance stored_len next m))))"

definition walk_fresh :: "'v item_kind \<Rightarrow> u32 \<Rightarrow> (u32 \<times> 'v) list \<Rightarrow> u32 \<Rightarrow> DexError + 'v walk_step" where
  "walk_fresh K section_end m p =
     (case ik_read K p of
        Inl _ \<Rightarrow> Inr Halt
      | Inr raw \<Rightarrow>
          bindE (ik_fresh_len K raw) (\<lambda>len.
          if len = 0 then Inr Halt
          else bindE (checked_next K ''cursor overflow during scan'' p len) (\<lambda>next.
               if section_end < next then Inr Halt
               else Inr (Advance len next (btree_insert p raw m)))))"

definition walk_entry :: "'v item_kind \<Rightarrow> u32 \<Rightarrow> (u32 \<times> 'v) list \<Rightarrow> u32 \<Rightarrow> DexError + 'v walk_step" where
  "walk_entry K section_end m p =
     (case map_of m p of Some stored \<Rightarrow> walk_stored K section_end m p stored | None \<Rightarrow> walk_fresh K section_end m p)"

function walk_loop ::
  "'v item_kind \<Rightarrow> u32 \<Rightarrow> u32 \<Rightarrow> (u32 \<times> 'v) list \<Rightarrow> SectionRegion list \<Rightarrow> u32 \<Rightarrow> u32
     \<Rightarrow> DexError + (SectionRegion list \<times> (u32 \<times> 'v) list)" where
  "walk_loop K section_end target_count m regions p walked =
     (if p < section_end \<and> walked < target_count then
        bindE (walk_entry K section_end m p) (\<lambda>st. case st of
          Halt \<Rightarrow> Inr (regions @ [tail_region K section_end p], m)
        | Advance len next m' \<Rightarrow> walk_loop K section_end target_count m' (regions @ [Entry p len]) next (walked + 1))
      else if walked = target_count \<and> p < section_end then Inr (regions @ [Gap p (section_end - p)], m)
      else Inr (regions, m))"
  by pat_completeness auto
termination
proof (relation "measure (\<lambda>(K, e, target_count, m, rs, p, walked). unat target_count - unat walked)", goal_cases)
  case (2 K section_end target_count m regions p walked x)
  then have "unat walked < unat target_count" by (simp add: word_less_nat_alt)
  moreover from this have "unat (walked + 1) = unat walked + 1" using unat_u32_lt [of target_count] by (simp add: unat_word_ariths)
  ultimately show ?case by simp
qed simp

declare walk_loop.simps [simp del]

definition section_bounds :: "MapEntry list \<Rightarrow> u32 \<Rightarrow> MapEntry \<Rightarrow> u32 \<times> u32" where
  "section_bounds entries fsize entry =
     (me_offset entry,
      case find (\<lambda>e. me_offset entry < me_offset e) (sort_key me_offset entries) of Some e \<Rightarrow> me_offset e | None \<Rightarrow> fsize)"

definition walk_section ::
  "'v item_kind \<Rightarrow> string \<Rightarrow> u16 \<Rightarrow> MapEntry list \<Rightarrow> u32 \<Rightarrow> (u32 \<times> 'v) list \<Rightarrow> DexError + (SectionRegion list \<times> (u32 \<times> 'v) list)" where
  "walk_section K why code entries fsize m =
     (case find (\<lambda>e. me_type_code e = code) entries of
        None \<Rightarrow> Inr ([], m)
      | Some entry \<Rightarrow>
          (case section_bounds entries fsize entry of (section_start, section_end) \<Rightarrow>
             if section_end < section_start then Inl (gauge_error K why)
             else walk_loop K section_end (me_size entry) m [] section_start 0))"

definition len_u32 :: "string \<Rightarrow> string \<Rightarrow> nat \<Rightarrow> DexError + u32" where
  "len_u32 sec why n = (if n < 2 ^ 32 then Inr (of_nat n) else Inl (SectionLayoutGauge sec why))"

definition DEBUG_INFO_ITEM :: u16 where "DEBUG_INFO_ITEM = 0x2003"
definition ANNOTATION_SET_ITEM :: u16 where "ANNOTATION_SET_ITEM = 0x1003"

definition debug_kind :: "deps \<Rightarrow> byte list \<Rightarrow> byte list item_kind" where
  "debug_kind D data =
     \<lparr>ik_section = ''debug_info'', ik_reason = FDebugInfo, ik_read = scan_debug_info_bytes D data,
      ik_stored_len = \<lambda>raw. len_u32 ''debug_info'' ''stored raw bytes length exceeds u32::MAX'' (length raw),
      ik_rescan_len = \<lambda>raw. len_u32 ''debug_info'' ''scan raw bytes length exceeds u32::MAX'' (length raw),
      ik_fresh_len = \<lambda>raw. len_u32 ''debug_info'' ''scanned entry length exceeds u32::MAX'' (length raw)\<rparr>"

definition walk_debug_info_section_full ::
  "deps \<Rightarrow> byte list \<Rightarrow> MapEntry list \<Rightarrow> u32 \<Rightarrow> (u32 \<times> byte list) list \<Rightarrow> DexError + (SectionRegion list \<times> (u32 \<times> byte list) list)" where
  "walk_debug_info_section_full D data entries fsize raw =
     walk_section (debug_kind D data) ''section_end < section_start (map_entries out of order)'' DEBUG_INFO_ITEM entries fsize raw"

text \<open>The byte length of an annotation set, with \<open>usize\<close> saturation.\<close>

definition set_byte_len :: "u32 list \<Rightarrow> nat" where
  "set_byte_len offs = sat64 (4 + sat64 (length offs * 4))"

definition set_kind :: "deps \<Rightarrow> byte list \<Rightarrow> u32 list item_kind" where
  "set_kind D data =
     \<lparr>ik_section = ''annotation_set'', ik_reason = FAnnotationSet, ik_read = parse_annotation_set D data,
      ik_stored_len = \<lambda>offs. len_u32 ''annotation_set'' ''stored entry byte length exceeds u32'' (set_byte_len offs),
      ik_rescan_len = \<lambda>offs. Inr (index_u32 (set_byte_len offs)),
      ik_fresh_len = \<lambda>offs. len_u32 ''annotation_set'' ''parsed entry byte length exceeds u32'' (set_byte_len offs)\<rparr>"

definition walk_annotation_set_section_full ::
  "deps \<Rightarrow> byte list \<Rightarrow> MapEntry list \<Rightarrow> u32 \<Rightarrow> (u32 \<times> u32 list) list \<Rightarrow> DexError + (SectionRegion list \<times> (u32 \<times> u32 list) list)" where
  "walk_annotation_set_section_full D data entries fsize sets =
     walk_section (set_kind D data) ''section_end < section_start'' ANNOTATION_SET_ITEM entries fsize sets"

section \<open>A walk tiles its section\<close>

lemma gauge_loop_append: "gauge_loop sec c (rs @ rs') = bindE (gauge_loop sec c rs) (\<lambda>c'. gauge_loop sec c' rs')"
  by (induction rs arbitrary: c) auto

text \<open>\<open>tiled s p rs\<close>: the regions cover the bytes from \<open>s\<close> to \<open>p\<close>.\<close>

definition tiled :: "string \<Rightarrow> u32 \<Rightarrow> u32 \<Rightarrow> SectionRegion list \<Rightarrow> bool" where
  "tiled sec s p rs \<longleftrightarrow> gauge_loop sec s rs = Inr p"

lemma tiled_snoc: "tiled sec s p rs \<Longrightarrow> region_off r = p \<Longrightarrow> unat p + unat (region_len r) < 2 ^ 32 \<Longrightarrow> tiled sec s (p + region_len r) (rs @ [r])"
  by (simp add: tiled_def gauge_loop_append)

lemma tiled_close:
  assumes "tiled sec s p rs" and "p < e" and "region_off r = p" and "region_len r = e - p"
  shows "tiled sec s e (rs @ [r])"
proof -
  have "unat (e - p) = unat e - unat p" using assms(2) by (simp add: unat_sub less_imp_le)
  then have "unat p + unat (e - p) < 2 ^ 32" using assms(2) unat_u32_lt [of e] by (simp add: word_less_nat_alt)
  with tiled_snoc [OF assms(1, 3)] assms(4) show ?thesis by simp
qed

lemma tiled_gauge: "tiled sec s e rs \<Longrightarrow> section_layout_gauge sec s e rs = Inr ()"
  by (auto simp: tiled_def section_layout_gauge_def)

text \<open>Every entry region has its item in the map, with the length of the region.\<close>

definition entries_stored :: "'v item_kind \<Rightarrow> (u32 \<times> 'v) list \<Rightarrow> SectionRegion list \<Rightarrow> bool" where
  "entries_stored K m rs \<longleftrightarrow>
     (\<forall>off len. Entry off len \<in> set rs \<longrightarrow> (\<exists>v. map_of m off = Some v \<and> (ik_stored_len K v = Inr len \<or> ik_fresh_len K v = Inr len)))"

lemma walk_entry_Advance:
  assumes "walk_entry K e m p = Inr (Advance len next m')"
  shows "next = p + len" "unat p + unat len < 2 ^ 32" "next \<le> e" "map_of m \<subseteq>\<^sub>m map_of m'"
    "\<exists>v. map_of m' p = Some v \<and> (ik_stored_len K v = Inr len \<or> ik_fresh_len K v = Inr len)"
  using assms
  by (cases "ik_read K p"; cases "map_of m p";
      auto simp: walk_entry_def walk_stored_def walk_fresh_def checked_next_def map_of_btree_insert map_le_def not_less split: if_splits)+

lemma walk_loop_tiles:
  assumes "walk_loop K e n m rs p w = Inr (rs', m')" and "tiled sec s p rs" and "entries_stored K m rs" and "p \<le> e" and "w \<le> n"
  shows "tiled sec s e rs' \<and> entries_stored K m' rs' \<and> map_of m \<subseteq>\<^sub>m map_of m'"
  using assms
proof (induction K e n m rs p w rule: walk_loop.induct)
  case (1 K e n m rs p w)
  show ?case
  proof (cases "p < e \<and> w < n")
    case True
    then obtain st where st: "walk_entry K e m p = Inr st" using "1.prems"(1) by (auto simp: walk_loop.simps [of K e n m rs p w])
    show ?thesis
    proof (cases st)
      case Halt
      then have r: "rs' = rs @ [tail_region K e p]" "m' = m" using "1.prems"(1) True st by (auto simp: walk_loop.simps [of K e n m rs p w])
      then show ?thesis
        using tiled_close [OF "1.prems"(2), of e "tail_region K e p"] True "1.prems"(3) by (auto simp: tail_region_def entries_stored_def)
    next
      case (Advance len nxt m1)
      note a = walk_entry_Advance [OF st [unfolded Advance]]
      have l: "walk_loop K e n m1 (rs @ [Entry p len]) nxt (w + 1) = Inr (rs', m')"
        using "1.prems"(1) True st Advance by (auto simp: walk_loop.simps [of K e n m rs p w])
      have "entries_stored K m1 (rs @ [Entry p len])"
        using "1.prems"(3) a(4, 5) by (fastforce simp: entries_stored_def map_le_def dom_def)
      moreover have "w + 1 \<le> n" using True by (simp add: inc_le)
      ultimately have "tiled sec s e rs' \<and> entries_stored K m' rs' \<and> map_of m1 \<subseteq>\<^sub>m map_of m'"
        using "1.IH" [OF True st Advance l] tiled_snoc [OF "1.prems"(2), of "Entry p len"] a(1-3) by simp
      with a(4) show ?thesis using map_le_trans by blast
    qed
  next
    case False
    show ?thesis
    proof (cases "w = n \<and> p < e")
      case True
      then have "rs' = rs @ [Gap p (e - p)]" "m' = m" using "1.prems"(1) True by (auto simp: walk_loop.simps [of K e n m rs p n])
      then show ?thesis using tiled_close [OF "1.prems"(2), of e "Gap p (e - p)"] True "1.prems"(3) by (auto simp: entries_stored_def)
    next
      case no: False
      then have "rs' = rs" "m' = m" "p = e" using "1.prems"(1, 4, 5) False by (auto simp: walk_loop.simps [of K e n m rs p w] not_less)
      with "1.prems"(2, 3) show ?thesis by simp
    qed
  qed
qed


lemma walk_section_tiles:
  assumes "walk_section K why code entries fsize m = Inr (rs, m')" and "find (\<lambda>e. me_type_code e = code) entries = Some a"
    and "section_bounds entries fsize a = (s, e)"
  shows "section_layout_gauge sec s e rs = Inr () \<and> entries_stored K m' rs \<and> map_of m \<subseteq>\<^sub>m map_of m'"
proof -
  have "walk_loop K e (me_size a) m [] s 0 = Inr (rs, m')" "s \<le> e"
    using assms by (auto simp: walk_section_def not_less split: if_splits)
  from walk_loop_tiles [OF this(1), of sec s] this(2) show ?thesis
    using tiled_gauge by (auto simp: tiled_def entries_stored_def)
qed

lemma len_u32_Inr: "len_u32 sec why n = Inr w \<Longrightarrow> n = unat w"
  by (auto simp: len_u32_def unat_of_nat_u32 split: if_splits)

lemma set_byte_len_eq: "len_u32 sec why (set_byte_len offs) = Inr w \<Longrightarrow> unat w = 4 + 4 * length offs"
  using unat_u32_lt [of w] by (auto simp: set_byte_len_def sat64_def min_def dest!: len_u32_Inr split: if_splits)

text \<open>C8 (section_walks_tile). Whenever the two section walks of the parser succeed, the regions they return tile the
  section between its map entry and the next one, so the layout gauge accepts them; every entry region is an
  item of the section's map with the region's length, and no item found before the walk is lost.\<close>

theorem section_walks_tile:
  assumes "walk_debug_info_section_full D data entries fsize raw = Inr (rs, raw')"
    and "walk_annotation_set_section_full D data entries fsize sets = Inr (qs, sets')"
    and "find (\<lambda>e. me_type_code e = DEBUG_INFO_ITEM) entries = Some a" and "section_bounds entries fsize a = (s, e)"
    and "find (\<lambda>e. me_type_code e = ANNOTATION_SET_ITEM) entries = Some b" and "section_bounds entries fsize b = (t, f)"
  shows "section_layout_gauge ''debug_info'' s e rs = Inr () \<and> section_layout_gauge ''annotation_set'' t f qs = Inr ()
    \<and> list_all (\<lambda>r. is_entry r \<longrightarrow> (\<exists>bytes. map_of raw' (region_off r) = Some bytes \<and> length bytes = unat (region_len r))) rs
    \<and> list_all (\<lambda>r. is_entry r \<longrightarrow> (\<exists>offs. map_of sets' (region_off r) = Some offs \<and> 4 + 4 * length offs = unat (region_len r))) qs
    \<and> map_of raw \<subseteq>\<^sub>m map_of raw' \<and> map_of sets \<subseteq>\<^sub>m map_of sets'"
proof -
  note d = walk_section_tiles [OF assms(1) [unfolded walk_debug_info_section_full_def] assms(3, 4), of "''debug_info''"]
  note t = walk_section_tiles [OF assms(2) [unfolded walk_annotation_set_section_full_def] assms(5, 6), of "''annotation_set''"]
  have "list_all (\<lambda>r. is_entry r \<longrightarrow> (\<exists>bytes. map_of raw' (region_off r) = Some bytes \<and> length bytes = unat (region_len r))) rs"
    unfolding list_all_iff
  proof (intro ballI impI)
    fix r assume "r \<in> set rs" "is_entry r"
    with d show "\<exists>bytes. map_of raw' (region_off r) = Some bytes \<and> length bytes = unat (region_len r)"
      by (cases r) (fastforce simp: entries_stored_def debug_kind_def dest: len_u32_Inr)+
  qed
  moreover have "list_all (\<lambda>r. is_entry r \<longrightarrow> (\<exists>offs. map_of sets' (region_off r) = Some offs \<and> 4 + 4 * length offs = unat (region_len r))) qs"
    unfolding list_all_iff
  proof (intro ballI impI)
    fix r assume "r \<in> set qs" "is_entry r"
    with t show "\<exists>offs. map_of sets' (region_off r) = Some offs \<and> 4 + 4 * length offs = unat (region_len r)"
      by (cases r) (fastforce simp: entries_stored_def set_kind_def dest: set_byte_len_eq)+
  qed
  ultimately show ?thesis using d t by blast
qed

definition walk_data :: "byte list" where
  "walk_data = [0, 0, 0, 0, 0, 0, 0, 0, 0, 0, 0, 5]"

definition walk_entries :: "MapEntry list" where
  "walk_entries = [\<lparr>me_type_code = 0x1003, me_size = 1, me_offset = 4\<rparr>, \<lparr>me_type_code = 0x2003, me_size = 1, me_offset = 8\<rparr>]"

lemma walk_data_scan: "scan_debug_info_bytes (std_deps h) walk_data 8 = Inr [0, 0, 0]"
proof -
  have u: "uleb_arg (std_deps h) walk_data c 8 = Inr (0, 9)" "uleb_arg (std_deps h) walk_data c 9 = Inr (0, 10)" for c
    using std_uleb_small [of walk_data 8 0 h c] std_uleb_small [of walk_data 9 0 h c] by (simp_all add: get_at_def walk_data_def)
  have b: "bound_count (std_deps h) 0 1 n c = Inr 0" for n c
    by (simp add: bound_count_def std_deps_def oracle_bound_count_def)
  have l: "scan_loop (std_deps h) walk_data 10 = Inr 11"
    by (simp add: scan_loop.simps [of _ _ 10] get_at_def walk_data_def)
  show ?thesis
    by (simp add: scan_debug_info_bytes_def skip_uleb128_def u b l Let_def del: One_nat_def) (simp add: get_range_def walk_data_def)
qed

lemma walk_data_set: "parse_annotation_set (std_deps h) walk_data 4 = Inr []"
  by (simp add: parse_annotation_set_def read_u32_def std_deps_def read_le_u32_def get_range_def walk_data_def bound_count_def
      oracle_bound_count_def u32_of_le_def)

theorem section_walks_tile_witness:
  "section_layout_gauge ''debug_info'' 8 12 [Entry 8 3, Gap 11 1] = Inr () \<and> section_layout_gauge ''annotation_set'' 4 8 [Entry 4 4] = Inr ()"
proof -
  let ?D = "std_deps (\<lambda>_. [])"
  have k: "walk_entry (debug_kind ?D walk_data) 12 [] 8 = Inr (Advance 3 11 [(8, [0, 0, 0])])"
    "walk_entry (set_kind ?D walk_data) 8 [] 4 = Inr (Advance 4 8 [(4, [])])"
    by (simp_all add: walk_entry_def walk_fresh_def debug_kind_def set_kind_def walk_data_scan walk_data_set len_u32_def checked_next_def
        set_byte_len_def sat64_def)
  have "walk_debug_info_section_full ?D walk_data walk_entries 12 [] = Inr ([Entry 8 3, Gap 11 1], [(8, [0, 0, 0])])"
    "walk_annotation_set_section_full ?D walk_data walk_entries 12 [] = Inr ([Entry 4 4], [(4, [])])"
    by (simp_all add: walk_debug_info_section_full_def walk_annotation_set_section_full_def walk_section_def walk_entries_def DEBUG_INFO_ITEM_def
        ANNOTATION_SET_ITEM_def section_bounds_def k walk_loop.simps)
  from section_walks_tile [OF this, of "walk_entries ! 1" 8 12 "walk_entries ! 0" 4 8] show ?thesis
    by (simp add: walk_entries_def DEBUG_INFO_ITEM_def ANNOTATION_SET_ITEM_def section_bounds_def)
qed

end
