(* ===== verification/Dex_File.thy ===== *)
theory Dex_File
  imports Dex_Walk
begin

text \<open>
  The parser of a whole file, \<open>DexFile::parse_inner\<close> of \<open>src/src/parser/mod.rs\<close>: the hard gates and pools, then
  the tolerant phases that resolve every referenced subsection into a map or record a failure. The decoder of
  encoded values is a loop that is only shown to end elsewhere, so the parser gives an option.
\<close>

section \<open>The parsed file\<close>

record DexFile =
  df_header :: DexHeader
  df_strings :: "DexString list"
  df_string_data_offs :: "u32 list"
  df_type_descriptors :: "rstring list"
  df_protos :: "ProtoIdItem list"
  df_fields :: "FieldIdItem list"
  df_methods :: "MethodIdItem list"
  df_class_defs :: "ClassDefItem list"
  df_annotations :: "(u32 \<times> AnnotationDirectoryItem) list"
  df_type_lists :: type_list_map
  df_class_datas :: "(u32 \<times> ClassData) list"
  df_raw_class_data_bytes :: "(u32 \<times> byte list) list"
  df_code_items :: "(u32 \<times> CodeItem) list"
  df_debug_infos :: "(u32 \<times> DebugInfo) list"
  df_debug_info_raw_bytes :: "(u32 \<times> byte list) list"
  df_debug_info_section_layout :: "SectionRegion list"
  df_annotation_set_section_layout :: "SectionRegion list"
  df_input_checksums_canonical :: bool
  df_annotation_sets :: "(u32 \<times> u32 list) list"
  df_annotation_set_ref_lists :: "(u32 \<times> u32 list) list"
  df_annotation_items :: "(u32 \<times> AnnotationItem) list"
  df_annotation_item_widths :: "(u32 \<times> byte list) list"
  df_encoded_arrays :: "(u32 \<times> EncodedValue list) list"
  df_encoded_array_widths :: "(u32 \<times> byte list) list"
  df_method_handles :: "MethodHandleItem list"
  df_map_entries :: "MapEntry list"
  df_call_site_ids :: "u32 list"
  df_parse_errors :: "ParseFailure list"
  df_class_def_index :: "u32 option list"

text \<open>A loop whose body may not return.\<close>

fun foldO :: "('s \<Rightarrow> 'a \<Rightarrow> 's option) \<Rightarrow> 's \<Rightarrow> 'a list \<Rightarrow> 's option" where
  "foldO f s [] = Some s"
| "foldO f s (x # xs) = Option.bind (f s x) (\<lambda>s'. foldO f s' xs)"

section \<open>The tolerant phases\<close>

definition interface_step ::
  "deps \<Rightarrow> byte list \<Rightarrow> nat \<Rightarrow> type_list_map \<times> ParseFailure list \<Rightarrow> ClassDefItem \<Rightarrow> type_list_map \<times> ParseFailure list" where
  "interface_step D data type_count st cd =
     (case st of (out, pe) \<Rightarrow>
        let off = interfaces_off cd in
        if off = 0 \<or> map_of out off \<noteq> None then (out, pe)
        else (case extend_one_interface_list D data off type_count out of
                Inr out' \<Rightarrow> (out', pe)
              | Inl _ \<Rightarrow> (out, pe @ [failure FInterfaces off])))"

definition extend_type_lists_from_interfaces ::
  "deps \<Rightarrow> byte list \<Rightarrow> ClassDefItem list \<Rightarrow> nat \<Rightarrow> type_list_map \<Rightarrow> ParseFailure list \<Rightarrow> type_list_map \<times> ParseFailure list" where
  "extend_type_lists_from_interfaces D data class_defs type_count out pe = foldl (interface_step D data type_count) (out, pe) class_defs"

definition directory_step ::
  "deps \<Rightarrow> byte list \<Rightarrow> (u32 \<times> AnnotationDirectoryItem) list \<times> ParseFailure list \<Rightarrow> ClassDefItem
     \<Rightarrow> (u32 \<times> AnnotationDirectoryItem) list \<times> ParseFailure list" where
  "directory_step D data st cd =
     (case st of (dirs, pe) \<Rightarrow>
        let off = annotations_off cd in
        if off = 0 \<or> map_of dirs off \<noteq> None then (dirs, pe)
        else (case parse_annotation_directory D data off of
                Inr dir \<Rightarrow> (btree_insert off dir dirs, pe)
              | Inl _ \<Rightarrow> (dirs, pe @ [failure FAnnotationDirectory off])))"

record ann_state =
  as_ref_lists :: "(u32 \<times> u32 list) list"
  as_sets :: "(u32 \<times> u32 list) list"
  as_items :: "(u32 \<times> AnnotationItem) list"
  as_widths :: "(u32 \<times> byte list) list"
  as_errors :: "ParseFailure list"

definition fail_ann :: "ParseFailureKind \<Rightarrow> u32 \<Rightarrow> ann_state \<Rightarrow> ann_state" where
  "fail_ann k off st = st\<lparr>as_errors := as_errors st @ [failure k off]\<rparr>"

definition saturating_succ :: "u32 \<Rightarrow> u32" where
  "saturating_succ w = (if w = 0xFFFFFFFF then w else w + 1)"

definition item_step :: "deps \<Rightarrow> byte list \<Rightarrow> ann_state \<Rightarrow> u32 \<Rightarrow> ann_state option" where
  "item_step D data st item_off =
     (if item_off = 0 \<or> map_of (as_items st) item_off \<noteq> None then Some st
      else Option.bind (parse_annotation_item D data item_off) (\<lambda>r. case r of
             Inr item \<Rightarrow>
               let widths' = (case collect_annotation_item_widths D data (saturating_succ item_off) (item_annotation item) of
                                Inr ws \<Rightarrow> btree_insert item_off ws (as_widths st)
                              | Inl _ \<Rightarrow> as_widths st)
               in Some (st\<lparr>as_items := btree_insert item_off item (as_items st), as_widths := widths'\<rparr>)
           | Inl _ \<Rightarrow> Some (fail_ann FAnnotationItem item_off st)))"

definition set_step :: "deps \<Rightarrow> byte list \<Rightarrow> ann_state \<Rightarrow> u32 \<Rightarrow> ann_state option" where
  "set_step D data st set_off =
     (if map_of (as_sets st) set_off \<noteq> None then Some st
      else (case parse_annotation_set D data set_off of
              Inl _ \<Rightarrow> Some (fail_ann FAnnotationSet set_off st)
            | Inr entries \<Rightarrow> foldO (item_step D data) (st\<lparr>as_sets := btree_insert set_off entries (as_sets st)\<rparr>) entries))"

definition param_step :: "deps \<Rightarrow> byte list \<Rightarrow> ann_state \<times> u32 list \<Rightarrow> ParameterAnnotation \<Rightarrow> ann_state \<times> u32 list" where
  "param_step D data stp p =
     (case stp of (st, pending) \<Rightarrow>
        let off = pa_annotations_off p in
        if off = 0 \<or> map_of (as_ref_lists st) off \<noteq> None then (st, pending)
        else (case parse_annotation_set D data off of
                Inr refs \<Rightarrow> (st\<lparr>as_ref_lists := btree_insert off refs (as_ref_lists st)\<rparr>, pending @ filter (\<lambda>s. s \<noteq> 0) refs)
              | Inl _ \<Rightarrow> (fail_ann FAnnotationSetRefList off st, pending)))"

definition pending_of :: "AnnotationDirectoryItem \<Rightarrow> u32 list" where
  "pending_of dir = filter (\<lambda>s. s \<noteq> 0)
     (class_annotations_off dir # map fa_annotations_off (dir_fields dir) @ map ma_annotations_off (dir_methods dir))"

definition dir_walk_step :: "deps \<Rightarrow> byte list \<Rightarrow> ann_state \<Rightarrow> AnnotationDirectoryItem \<Rightarrow> ann_state option" where
  "dir_walk_step D data st dir =
     (case foldl (param_step D data) (st, pending_of dir) (dir_parameters dir) of
        (st1, pending) \<Rightarrow> foldO (set_step D data) st1 pending)"

type_synonym array_state = "(u32 \<times> EncodedValue list) list \<times> (u32 \<times> byte list) list \<times> ParseFailure list"

definition array_step :: "deps \<Rightarrow> byte list \<Rightarrow> array_state \<Rightarrow> u32 \<Rightarrow> array_state option" where
  "array_step D data st off =
     (case st of (arrays, widths, pe) \<Rightarrow>
        if off = 0 \<or> map_of arrays off \<noteq> None then Some st
        else Option.bind (parse_encoded_array D data off) (\<lambda>r. case r of
               Inr (arr, _) \<Rightarrow>
                 Some (btree_insert off arr arrays,
                       (case collect_encoded_array_widths_pre_order D data off arr of
                          Inr deep \<Rightarrow> btree_insert off deep widths | Inl _ \<Rightarrow> widths), pe)
             | Inl _ \<Rightarrow> Some (arrays, widths, pe @ [failure FEncodedArray off])))"

type_synonym code_state = "(u32 \<times> CodeItem) list \<times> ParseFailure list"

definition code_step :: "deps \<Rightarrow> byte list \<Rightarrow> code_state \<Rightarrow> EncodedMethod \<Rightarrow> code_state" where
  "code_step D data st em =
     (case st of (cis, pe) \<Rightarrow>
        let off = em_code_off em in
        if off = 0 \<or> map_of cis off \<noteq> None then (cis, pe)
        else (case parse_code_item D data off of
                Inr ci \<Rightarrow> (btree_insert off ci cis, pe)
              | Inl _ \<Rightarrow> (cis, pe @ [failure FCodeItem off])))"

type_synonym class_state = "(u32 \<times> ClassData) list \<times> (u32 \<times> byte list) list \<times> code_state"

definition class_data_step :: "deps \<Rightarrow> byte list \<Rightarrow> class_state \<Rightarrow> ClassDefItem \<Rightarrow> class_state" where
  "class_data_step D data st cd =
     (case st of (datas, raws, cis, pe) \<Rightarrow>
        let off = class_data_off cd in
        if off = 0 then st
        else (case parse_class_data_with_consumed D data off of
                Inl _ \<Rightarrow> (datas, raws, cis, pe @ [failure FClassData off])
              | Inr (cdata, consumed) \<Rightarrow>
                  let start = unat off;
                      raws' = (case get_range data start (sat64 (start + consumed)) of
                                 Some sl \<Rightarrow> if map_of raws off = None then btree_insert off sl raws else raws
                               | None \<Rightarrow> raws)
                  in (btree_insert off cdata datas, raws',
                      foldl (code_step D data) (cis, pe) (direct_methods cdata @ virtual_methods cdata))))"

type_synonym debug_state = "(u32 \<times> DebugInfo) list \<times> (u32 \<times> byte list) list \<times> ParseFailure list"

definition debug_info_step ::
  "deps \<Rightarrow> byte list \<Rightarrow> DexString list \<Rightarrow> rstring list \<Rightarrow> debug_state \<Rightarrow> u32 \<times> u16 \<Rightarrow> debug_state" where
  "debug_info_step D data strs types st ref =
     (case st of (infos, raws, pe) \<Rightarrow> case ref of (off, registers_n) \<Rightarrow>
        if map_of raws off \<noteq> None then st
        else (case scan_debug_info_bytes D data off of
                Inl _ \<Rightarrow> (infos, raws, pe @ [failure FDebugInfo off])
              | Inr raw \<Rightarrow>
                  ((case parse_debug_info D strs types data off registers_n of
                      Inr info \<Rightarrow> btree_insert off info infos | Inl _ \<Rightarrow> infos),
                   btree_insert off raw raws, pe)))"

definition debug_refs :: "(u32 \<times> CodeItem) list \<Rightarrow> (u32 \<times> u16) list" where
  "debug_refs cis = filter (\<lambda>(off, _). off \<noteq> 0) (map (\<lambda>(_, ci). (debug_info_off ci, registers_size ci)) cis)"

definition checksums_canonical :: "deps \<Rightarrow> byte list \<Rightarrow> DexHeader \<Rightarrow> bool" where
  "checksums_canonical D data h =
     (case get_range data 32 (unat (file_size h)) of Some sl \<Rightarrow> sha1_digest D sl = signature h | None \<Rightarrow> False)"

section \<open>The parser\<close>

text \<open>The pools, read behind the gates.\<close>

record pools =
  p_header :: DexHeader
  p_strings :: "DexString list"
  p_string_offs :: "u32 list"
  p_types :: "rstring list"
  p_type_idxs :: "u32 list"
  p_protos :: "ProtoIdItem list"
  p_type_lists :: type_list_map
  p_fields :: "FieldIdItem list"
  p_methods :: "MethodIdItem list"
  p_class_defs :: "ClassDefItem list"

definition parse_pools :: "deps \<Rightarrow> (byte list \<Rightarrow> nat + rstring) \<Rightarrow> byte list \<Rightarrow> DexError + pools" where
  "parse_pools D dec data =
     bindE (parse D data) (\<lambda>h.
     bindE (verify_checksum D h data) (\<lambda>_.
     bindE (check_id_section_overlap h) (\<lambda>_.
     bindE (parse_string_pool D dec data h) (\<lambda>(strs, offs).
     bindE (parse_types D data h strs) (\<lambda>(types, idxs).
     bindE (parse_protos D data h strs (length types)) (\<lambda>protos.
     bindE (parse_type_lists D data protos (length types)) (\<lambda>tls.
     bindE (parse_fields D data h (length types) (length strs)) (\<lambda>fs.
     bindE (parse_methods D data h (length types) (length protos) (length strs)) (\<lambda>ms.
     bindE (parse_class_defs D data h (length types) (length strs)) (\<lambda>cds.
     Inr \<lparr>p_header = h, p_strings = strs, p_string_offs = offs, p_types = types, p_type_idxs = idxs, p_protos = protos,
          p_type_lists = tls, p_fields = fs, p_methods = ms, p_class_defs = cds\<rparr>))))))))))"

text \<open>The subsections the pools lead to.\<close>

record subsections =
  s_type_lists :: type_list_map
  s_annotations :: "(u32 \<times> AnnotationDirectoryItem) list"
  s_ann :: ann_state
  s_arrays :: "(u32 \<times> EncodedValue list) list"
  s_array_widths :: "(u32 \<times> byte list) list"
  s_class_datas :: "(u32 \<times> ClassData) list"
  s_raw_class_data :: "(u32 \<times> byte list) list"
  s_code_items :: "(u32 \<times> CodeItem) list"
  s_method_handles :: "MethodHandleItem list"
  s_call_site_ids :: "u32 list"
  s_map_entries :: "MapEntry list"
  s_errors :: "ParseFailure list"

definition parse_subsections :: "deps \<Rightarrow> byte list \<Rightarrow> pools \<Rightarrow> subsections option" where
  "parse_subsections D data P =
     (let cds = p_class_defs P;
          (tls, pe1) = extend_type_lists_from_interfaces D data cds (length (p_types P)) (p_type_lists P) [];
          pe2 = collect_pool_ordering_violations (p_strings P) (p_type_idxs P) (p_protos P) tls (p_fields P) (p_methods P) pe1;
          (dirs, pe3) = foldl (directory_step D data) ([], pe2) cds
      in
      Option.bind (foldO (dir_walk_step D data) \<lparr>as_ref_lists = [], as_sets = [], as_items = [], as_widths = [], as_errors = pe3\<rparr> (map snd dirs)) (\<lambda>ann.
      Option.bind (foldO (array_step D data) ([], [], as_errors ann) (map static_values_off cds)) (\<lambda>(arrays, widths, pe4).
      let (datas, raws, cis, pe5) = foldl (class_data_step D data) ([], [], [], pe4) cds;
          (handles, call_sites) = parse_map_driven_sections D data (p_header P)
      in
      Option.bind (foldO (array_step D data) (arrays, widths, pe5) call_sites) (\<lambda>(arrays', widths', pe6).
      let (entries, pe7) = (case read_map_list D data (map_off (p_header P)) of
                              Inr v \<Rightarrow> (v, pe6)
                            | Inl _ \<Rightarrow> ([], pe6 @ [failure FMapList (map_off (p_header P))]))
      in
      Some \<lparr>s_type_lists = tls, s_annotations = dirs, s_ann = ann, s_arrays = arrays', s_array_widths = widths',
            s_class_datas = datas, s_raw_class_data = raws, s_code_items = cis, s_method_handles = handles,
            s_call_site_ids = call_sites, s_map_entries = entries, s_errors = pe7\<rparr>))))"

text \<open>The index, the recorded checks, the debug info and the two walks.\<close>

definition finish_file :: "deps \<Rightarrow> byte list \<Rightarrow> pools \<Rightarrow> subsections \<Rightarrow> DexError + DexFile" where
  "finish_file D data P S =
     (let cds = p_class_defs P; n = length (p_types P);
          (index, pe1) = rebuild_class_def_index n cds (s_errors S);
          pe2 = collect_class_def_topo_violations (class_defs_row_of n cds index) (s_type_lists S) cds pe1;
          pe3 = collect_reserved_bits_violations D data (map_off (p_header P)) (s_map_entries S) pe2;
          (infos, raws, pe4) = foldl (debug_info_step D data (p_strings P) (p_types P)) ([], [], pe3) (debug_refs (s_code_items S))
      in
      bindE (walk_debug_info_section_full D data (s_map_entries S) (file_size (p_header P)) raws) (\<lambda>(dlayout, raws').
      bindE (walk_annotation_set_section_full D data (s_map_entries S) (file_size (p_header P)) (as_sets (s_ann S))) (\<lambda>(alayout, sets').
      Inr \<lparr>df_header = p_header P, df_strings = p_strings P, df_string_data_offs = p_string_offs P, df_type_descriptors = p_types P,
           df_protos = p_protos P, df_fields = p_fields P, df_methods = p_methods P, df_class_defs = cds,
           df_annotations = s_annotations S, df_type_lists = s_type_lists S, df_class_datas = s_class_datas S,
           df_raw_class_data_bytes = s_raw_class_data S, df_code_items = s_code_items S, df_debug_infos = infos,
           df_debug_info_raw_bytes = raws', df_debug_info_section_layout = dlayout, df_annotation_set_section_layout = alayout,
           df_input_checksums_canonical = checksums_canonical D data (p_header P), df_annotation_sets = sets',
           df_annotation_set_ref_lists = as_ref_lists (s_ann S), df_annotation_items = as_items (s_ann S),
           df_annotation_item_widths = as_widths (s_ann S), df_encoded_arrays = s_arrays S, df_encoded_array_widths = s_array_widths S,
           df_method_handles = s_method_handles S, df_map_entries = s_map_entries S, df_call_site_ids = s_call_site_ids S,
           df_parse_errors = pe4, df_class_def_index = index\<rparr>)))"

definition parse_inner :: "deps \<Rightarrow> (byte list \<Rightarrow> nat + rstring) \<Rightarrow> byte list \<Rightarrow> (DexError + DexFile) option" where
  "parse_inner D dec data =
     bindL (parse_pools D dec data) (\<lambda>P. Option.bind (parse_subsections D data P) (\<lambda>S. Some (finish_file D data P S)))"

end
