(* ===== verification/Dex_File_Resolve.thy ===== *)
theory Dex_File_Resolve
  imports Dex_File
begin

text \<open>
  The tolerant phases of the whole-file parser drop no reference silently. The loops of these phases are folds
  whose states only grow; the interface \<open>growing\<close> proves the shared facts once, and each loop is an
  instance of it.
\<close>

section \<open>Loops over growing states\<close>

locale growing =
  fixes step :: "'s \<Rightarrow> 'a \<Rightarrow> 's option"
    and grows :: "'s \<Rightarrow> 's \<Rightarrow> bool"
  assumes grows_refl: "grows s s"
    and grows_trans: "grows a b \<Longrightarrow> grows b c \<Longrightarrow> grows a c"
    and step_grows: "step s x = Some s' \<Longrightarrow> grows s s'"
begin

lemma fold_grows: "foldO step s xs = Some s' \<Longrightarrow> grows s s'"
  by (induction xs arbitrary: s)
    (auto simp: grows_refl Option.bind_eq_Some_conv intro: grows_trans step_grows)

lemma fold_all:
  assumes "foldO step s xs = Some s'" and "\<And>s x s'. step s x = Some s' \<Longrightarrow> Q x s'"
    and "\<And>x s s'. grows s s' \<Longrightarrow> Q x s \<Longrightarrow> Q x s'"
  shows "list_all (\<lambda>x. Q x s') xs"
  using assms(1)
proof (induction xs arbitrary: s)
  case (Cons x xs)
  then obtain t where t: "step s x = Some t" "foldO step t xs = Some s'" by (auto simp: Option.bind_eq_Some_conv)
  have "Q x s'" using assms(2) [OF t(1)] assms(3) fold_grows [OF t(2)] by blast
  with Cons.IH [OF t(2)] show ?case by simp
qed simp

lemma fold_inv:
  assumes "foldO step s xs = Some s'" and "J s" and "\<And>s x s'. J s \<Longrightarrow> x \<in> set xs \<Longrightarrow> step s x = Some s' \<Longrightarrow> J s'"
  shows "J s'"
  using assms
proof (induction xs arbitrary: s)
  case (Cons x xs)
  obtain t where t: "step s x = Some t" "foldO step t xs = Some s'" using Cons.prems(1) by (auto simp: Option.bind_eq_Some_conv)
  have "J t" using Cons.prems(3) [OF Cons.prems(2) _ t(1)] by simp
  from Cons.IH [OF t(2) this] Cons.prems(3) show ?case by (meson list.set_intros(2))
qed simp

end

lemma foldO_total: "(\<And>s x. \<exists>s'. f s x = Some s') \<Longrightarrow> \<exists>s'. foldO f s xs = Some s'"
proof (induction xs arbitrary: s)
  case (Cons x xs)
  obtain t where "f s x = Some t" using Cons.prems by blast
  with Cons.IH [OF Cons.prems, of t] show ?case by simp
qed simp

text \<open>A loop whose body always returns.\<close>

definition always :: "('s \<Rightarrow> 'a \<Rightarrow> 's) \<Rightarrow> 's \<Rightarrow> 'a \<Rightarrow> 's option" where
  "always f s x = Some (f s x)"

lemma foldO_always: "foldO (always f) s xs = Some (foldl f s xs)"
  by (induction xs arbitrary: s) (auto simp: always_def)

section \<open>Resolved references\<close>

definition resolved :: "(u32 \<times> 'v) list \<Rightarrow> ParseFailureKind \<Rightarrow> ParseFailure list \<Rightarrow> u32 \<Rightarrow> bool" where
  "resolved m k pe off \<longleftrightarrow> off = 0 \<or> map_of m off \<noteq> None \<or> failure k off \<in> set pe"

definition grown :: "(u32 \<times> 'v) list \<times> ParseFailure list \<Rightarrow> (u32 \<times> 'v) list \<times> ParseFailure list \<Rightarrow> bool" where
  "grown a b \<longleftrightarrow> dom (map_of (fst a)) \<subseteq> dom (map_of (fst b)) \<and> set (snd a) \<subseteq> set (snd b)"

lemma grown_refl [simp]: "grown a a"
  by (simp add: grown_def)

lemma grown_trans: "grown a b \<Longrightarrow> grown b c \<Longrightarrow> grown a c"
  unfolding grown_def by blast

lemma resolved_grown: "resolved m k pe off \<Longrightarrow> grown (m, pe) (m', pe') \<Longrightarrow> resolved m' k pe' off"
  by (auto simp: resolved_def grown_def dom_def)

lemma grown_simps [simp]:
  "grown (m, pe) (btree_insert k v m, pe)" "grown (m, pe) (m, pe @ [f])"
  by (auto simp: grown_def map_of_btree_insert)

lemma resolved_simps [simp]:
  "resolved (btree_insert off v m) k pe off" "resolved m k (pe @ [failure k off]) off" "resolved m k pe 0"
  "map_of m off = Some v \<Longrightarrow> resolved m k pe off"
  by (auto simp: resolved_def map_of_btree_insert)

section \<open>The phases\<close>

interpretation interfaces: growing "always (interface_step D data n)" grown for D data n
  by unfold_locales (auto intro: grown_trans simp: always_def interface_step_def extend_one_interface_list_def Let_def split: sum.splits prod.splits if_splits)

interpretation directories: growing "always (directory_step D data)" grown for D data
  by unfold_locales (auto intro: grown_trans simp: always_def directory_step_def Let_def split: sum.splits prod.splits if_splits)

interpretation codes: growing "always (code_step D data)" grown for D data
  by unfold_locales (auto intro: grown_trans simp: always_def code_step_def Let_def split: sum.splits prod.splits if_splits)

definition array_grown :: "array_state \<Rightarrow> array_state \<Rightarrow> bool" where
  "array_grown a b \<longleftrightarrow> grown (fst a, snd (snd a)) (fst b, snd (snd b))"

lemma array_step_cases:
  assumes "array_step D data (arrays, widths, pe) off = Some (arrays', widths', pe')"
  obtains (kept) "off = 0 \<or> map_of arrays off \<noteq> None" "arrays' = arrays" "widths' = widths" "pe' = pe"
    | (found) arr tops where "parse_encoded_array D data off = Some (Inr (arr, tops))" "arrays' = btree_insert off arr arrays" "pe' = pe"
        "widths' = (case collect_encoded_array_widths_pre_order D data off arr of Inr deep \<Rightarrow> btree_insert off deep widths | Inl _ \<Rightarrow> widths)"
    | (failed) "arrays' = arrays" "widths' = widths" "pe' = pe @ [failure FEncodedArray off]"
  using assms
  by (cases "parse_encoded_array D data off") (auto simp: array_step_def split: sum.splits if_splits)

interpretation arrays: growing "array_step D data" array_grown for D data
proof (unfold_locales, goal_cases)
  case (3 st off st')
  obtain a w e a' w' e' where st: "st = (a, w, e)" "st' = (a', w', e')" by (cases st; cases st') auto
  with 3 have "array_step D data (a, w, e) off = Some (a', w', e')" by simp
  then show ?case unfolding st by (cases rule: array_step_cases) (auto simp: array_grown_def)
qed (auto simp: array_grown_def intro: grown_trans)

definition class_grown :: "class_state \<Rightarrow> class_state \<Rightarrow> bool" where
  "class_grown a b \<longleftrightarrow> grown (fst a, snd (snd (snd a))) (fst b, snd (snd (snd b))) \<and> grown (snd (snd a)) (snd (snd b))"

lemma code_fold_grown: "grown st (foldl (code_step D data) st ems)"
  using codes.fold_grows [of D data st ems] by (simp add: foldO_always)

interpretation class_datas: growing "always (class_data_step D data)" class_grown for D data
proof (unfold_locales, goal_cases)
  case (3 s cd s')
  obtain datas raws cis pe where s: "s = (datas, raws, cis, pe)" by (cases s) auto
  show ?case
  proof (cases "class_data_off cd = 0")
    case False
    show ?thesis
    proof (cases "parse_class_data_with_consumed D data (class_data_off cd)")
      case (Inr r)
      with 3 False s code_fold_grown [of "(cis, pe)" D data "direct_methods (fst r) @ virtual_methods (fst r)"] show ?thesis
        by (cases "foldl (code_step D data) (cis, pe) (direct_methods (fst r) @ virtual_methods (fst r))")
          (auto simp: always_def class_data_step_def class_grown_def Let_def grown_def map_of_btree_insert split: prod.splits)
    qed (use 3 False s in \<open>auto simp: always_def class_data_step_def class_grown_def Let_def\<close>)
  qed (use 3 s in \<open>auto simp: always_def class_data_step_def class_grown_def Let_def\<close>)
qed (auto simp: class_grown_def intro: grown_trans)

definition debug_grown :: "debug_state \<Rightarrow> debug_state \<Rightarrow> bool" where
  "debug_grown a b \<longleftrightarrow> grown (snd a) (snd b)"

interpretation debug_infos: growing "always (debug_info_step D data strs types)" debug_grown for D data strs types
  by unfold_locales
    (auto simp: debug_grown_def always_def debug_info_step_def split: sum.splits prod.splits if_splits intro: grown_trans)


section \<open>The annotation tree\<close>

text \<open>An annotation set is resolved when it is in the map together with its items, or its failure is recorded.\<close>

definition set_resolved :: "(u32 \<times> u32 list) list \<Rightarrow> (u32 \<times> AnnotationItem) list \<Rightarrow> ParseFailure list \<Rightarrow> u32 \<Rightarrow> bool" where
  "set_resolved sets items pe off \<longleftrightarrow> off = 0 \<or> failure FAnnotationSet off \<in> set pe
     \<or> (\<exists>entries. map_of sets off = Some entries \<and> list_all (resolved items FAnnotationItem pe) entries)"

definition ref_list_resolved ::
  "(u32 \<times> u32 list) list \<Rightarrow> (u32 \<times> u32 list) list \<Rightarrow> (u32 \<times> AnnotationItem) list \<Rightarrow> ParseFailure list \<Rightarrow> u32 \<Rightarrow> bool" where
  "ref_list_resolved refs sets items pe off \<longleftrightarrow> off = 0 \<or> failure FAnnotationSetRefList off \<in> set pe
     \<or> (\<exists>entries. map_of refs off = Some entries \<and> list_all (set_resolved sets items pe) entries)"

definition directory_resolved ::
  "(u32 \<times> u32 list) list \<Rightarrow> (u32 \<times> u32 list) list \<Rightarrow> (u32 \<times> AnnotationItem) list \<Rightarrow> ParseFailure list \<Rightarrow> AnnotationDirectoryItem \<Rightarrow> bool" where
  "directory_resolved refs sets items pe dir \<longleftrightarrow> list_all (set_resolved sets items pe) (pending_of dir)
     \<and> list_all (\<lambda>p. ref_list_resolved refs sets items pe (pa_annotations_off p)) (dir_parameters dir)"

abbreviation set_done :: "ann_state \<Rightarrow> u32 \<Rightarrow> bool" where
  "set_done st \<equiv> set_resolved (as_sets st) (as_items st) (as_errors st)"

abbreviation directory_done :: "ann_state \<Rightarrow> AnnotationDirectoryItem \<Rightarrow> bool" where
  "directory_done st \<equiv> directory_resolved (as_ref_lists st) (as_sets st) (as_items st) (as_errors st)"

definition ann_grown :: "ann_state \<Rightarrow> ann_state \<Rightarrow> bool" where
  "ann_grown a b \<longleftrightarrow> map_of (as_ref_lists a) \<subseteq>\<^sub>m map_of (as_ref_lists b) \<and> map_of (as_sets a) \<subseteq>\<^sub>m map_of (as_sets b)
     \<and> grown (as_items a, as_errors a) (as_items b, as_errors b)"

lemma ann_grown_refl [simp]: "ann_grown a a"
  by (simp add: ann_grown_def)

lemma ann_grown_trans: "ann_grown a b \<Longrightarrow> ann_grown b c \<Longrightarrow> ann_grown a c"
  unfolding ann_grown_def by (blast intro: map_le_trans grown_trans)

lemma btree_insert_le: "map_of m k = None \<Longrightarrow> map_of m \<subseteq>\<^sub>m map_of (btree_insert k v m)"
  by (auto simp: map_le_def map_of_btree_insert)

lemma set_resolved_mono:
  assumes "set_resolved sets items pe off" and "map_of sets \<subseteq>\<^sub>m map_of sets'" and "grown (items, pe) (items', pe')"
  shows "set_resolved sets' items' pe' off"
  using assms resolved_grown [OF _ assms(3)]
  by (auto simp: set_resolved_def map_le_def grown_def list_all_iff) (metis domI)

lemma ref_list_resolved_mono:
  assumes "ref_list_resolved refs sets items pe off" and "map_of refs \<subseteq>\<^sub>m map_of refs'" and "map_of sets \<subseteq>\<^sub>m map_of sets'"
    and "grown (items, pe) (items', pe')"
  shows "ref_list_resolved refs' sets' items' pe' off"
  using assms set_resolved_mono [OF _ assms(3, 4)]
  by (auto simp: ref_list_resolved_def map_le_def grown_def list_all_iff) (metis domI)

lemma directory_resolved_mono:
  assumes "directory_resolved refs sets items pe dir" and "map_of refs \<subseteq>\<^sub>m map_of refs'" and "map_of sets \<subseteq>\<^sub>m map_of sets'"
    and "grown (items, pe) (items', pe')"
  shows "directory_resolved refs' sets' items' pe' dir"
  using assms(1) set_resolved_mono [OF _ assms(3, 4)] ref_list_resolved_mono [OF _ assms(2-4)]
  by (auto simp: directory_resolved_def list_all_iff)

lemma fail_ann_simps [simp]:
  "as_ref_lists (fail_ann k off st) = as_ref_lists st" "as_sets (fail_ann k off st) = as_sets st"
  "as_items (fail_ann k off st) = as_items st" "as_errors (fail_ann k off st) = as_errors st @ [failure k off]"
  by (simp_all add: fail_ann_def)

lemma fail_ann_grown [simp]: "ann_grown st (fail_ann k off st)"
  by (simp add: ann_grown_def)

lemma item_step_cases:
  assumes "item_step D data st off = Some st'"
  obtains (kept) "off = 0 \<or> map_of (as_items st) off \<noteq> None" "st' = st"
    | (found) item ws where "st' = st\<lparr>as_items := btree_insert off item (as_items st), as_widths := ws\<rparr>"
    | (failed) "st' = fail_ann FAnnotationItem off st"
proof (cases "off = 0 \<or> map_of (as_items st) off \<noteq> None")
  case False
  then obtain r where "parse_annotation_item D data off = Some r" using assms by (auto simp: item_step_def Option.bind_eq_Some_conv)
  then show ?thesis using assms False that(2, 3) by (cases r) (auto simp: item_step_def Let_def)
next
  case True
  show ?thesis by (rule that(1) [OF True]) (use assms True in \<open>simp add: item_step_def\<close>)
qed

interpretation items: growing "item_step D data" ann_grown for D data
proof (unfold_locales, goal_cases)
  case (3 st off st')
  then show ?case by (cases rule: item_step_cases) (auto simp: ann_grown_def)
qed (auto intro: ann_grown_trans)

lemma item_step_resolves: "item_step D data st off = Some st' \<Longrightarrow> resolved (as_items st') FAnnotationItem (as_errors st') off"
  by (erule item_step_cases) auto

lemma item_fold_keeps:
  "foldO (item_step D data) st xs = Some st' \<Longrightarrow> as_sets st' = as_sets st \<and> as_ref_lists st' = as_ref_lists st"
  by (rule items.fold_inv [where J = "\<lambda>s. as_sets s = as_sets st \<and> as_ref_lists s = as_ref_lists st"]) (auto elim!: item_step_cases)

lemma item_fold_resolves:
  "foldO (item_step D data) st xs = Some st' \<Longrightarrow> list_all (resolved (as_items st') FAnnotationItem (as_errors st')) xs"
  by (erule items.fold_all) (auto simp: item_step_resolves ann_grown_def intro: resolved_grown)


text \<open>Every set in the map has its items resolved, and every reference list its sets, those still pending apart.\<close>

definition sets_closed :: "ann_state \<Rightarrow> bool" where
  "sets_closed st \<longleftrightarrow> (\<forall>off entries. map_of (as_sets st) off = Some entries \<longrightarrow>
     list_all (resolved (as_items st) FAnnotationItem (as_errors st)) entries)"

definition refs_closed :: "u32 list \<Rightarrow> ann_state \<Rightarrow> bool" where
  "refs_closed pending st \<longleftrightarrow> (\<forall>off entries. map_of (as_ref_lists st) off = Some entries \<longrightarrow>
     list_all (\<lambda>s. s \<in> set pending \<or> set_done st s) entries)"

lemma sets_closed_keep:
  "sets_closed st \<Longrightarrow> ann_grown st st' \<Longrightarrow> as_sets st' = as_sets st \<Longrightarrow> sets_closed st'"
  by (fastforce simp: sets_closed_def ann_grown_def list_all_iff intro: resolved_grown)

lemma set_step_cases:
  assumes "set_step D data st off = Some st'"
  obtains (kept) "map_of (as_sets st) off \<noteq> None" "st' = st"
    | (found) entries where "map_of (as_sets st) off = None"
        "foldO (item_step D data) (st\<lparr>as_sets := btree_insert off entries (as_sets st)\<rparr>) entries = Some st'"
    | (failed) "st' = fail_ann FAnnotationSet off st"
  using assms by (auto simp: set_step_def split: sum.splits if_splits)

lemma set_step_found:
  assumes "map_of (as_sets st) off = None" and "foldO (item_step D data) (st\<lparr>as_sets := btree_insert off entries (as_sets st)\<rparr>) entries = Some st'"
  shows "ann_grown st st'" "as_sets st' = btree_insert off entries (as_sets st)" "as_ref_lists st' = as_ref_lists st"
    "list_all (resolved (as_items st') FAnnotationItem (as_errors st')) entries"
proof -
  show "as_sets st' = btree_insert off entries (as_sets st)" "as_ref_lists st' = as_ref_lists st"
    using item_fold_keeps [OF assms(2)] by simp_all
  show "list_all (resolved (as_items st') FAnnotationItem (as_errors st')) entries" by (rule item_fold_resolves [OF assms(2)])
  have "ann_grown st (st\<lparr>as_sets := btree_insert off entries (as_sets st)\<rparr>)"
    using btree_insert_le [OF assms(1)] by (simp add: ann_grown_def)
  then show "ann_grown st st'" using items.fold_grows [OF assms(2)] ann_grown_trans by blast
qed

interpretation sets: growing "set_step D data" ann_grown for D data
proof (unfold_locales, goal_cases)
  case (3 st off st')
  then show ?case by (cases rule: set_step_cases) (auto intro: set_step_found)
qed (auto intro: ann_grown_trans)

lemma set_step_closed:
  assumes "set_step D data st off = Some st'" and "sets_closed st"
  shows "sets_closed st'" "set_done st' off" "as_ref_lists st' = as_ref_lists st"
proof -
  from assms(1) have "sets_closed st' \<and> set_done st' off \<and> as_ref_lists st' = as_ref_lists st"
  proof (cases rule: set_step_cases)
    case kept
    then show ?thesis using assms(2) by (auto simp: sets_closed_def set_resolved_def)
  next
    case (found entries)
    note f = set_step_found [OF found]
    have "resolved (as_items st') FAnnotationItem (as_errors st') i"
      if "map_of (as_sets st) k = Some es" "i \<in> set es" for k es i
      using that assms(2) f(1) by (fastforce simp: sets_closed_def ann_grown_def list_all_iff intro: resolved_grown)
    with f show ?thesis by (auto simp: sets_closed_def set_resolved_def map_of_btree_insert list_all_iff split: if_splits)
  next
    case failed
    then show ?thesis using assms(2) sets_closed_keep [OF assms(2), of st'] by (simp add: set_resolved_def)
  qed
  then show "sets_closed st'" "set_done st' off" "as_ref_lists st' = as_ref_lists st" by blast+
qed

lemma set_done_mono: "set_done st off \<Longrightarrow> ann_grown st st' \<Longrightarrow> set_done st' off"
  by (auto simp: ann_grown_def intro: set_resolved_mono)

lemma directory_done_mono: "directory_done st dir \<Longrightarrow> ann_grown st st' \<Longrightarrow> directory_done st' dir"
  by (auto simp: ann_grown_def intro: directory_resolved_mono)

lemma set_fold_closed:
  assumes "foldO (set_step D data) st pending = Some st'" and "sets_closed st"
  shows "sets_closed st'" "as_ref_lists st' = as_ref_lists st" "list_all (set_done st') pending"
proof -
  show "sets_closed st'" "as_ref_lists st' = as_ref_lists st"
    using sets.fold_inv [OF assms(1), of "\<lambda>s. sets_closed s \<and> as_ref_lists s = as_ref_lists st"] assms(2) set_step_closed by metis+
  show "list_all (set_done st') pending" using assms
  proof (induction pending arbitrary: st)
    case (Cons off pending)
    obtain t where t: "set_step D data st off = Some t" "foldO (set_step D data) t pending = Some st'"
      using Cons.prems(1) by (auto simp: Option.bind_eq_Some_conv)
    note c = set_step_closed [OF t(1) Cons.prems(2)]
    show ?case using Cons.IH [OF t(2) c(1)] set_done_mono [OF c(2) sets.fold_grows [OF t(2)]] by simp
  qed simp
qed


lemma param_step_cases:
  obtains (kept) "pa_annotations_off p = 0 \<or> map_of (as_ref_lists st) (pa_annotations_off p) \<noteq> None"
        "param_step D data (st, pending) p = (st, pending)"
    | (found) refs where "map_of (as_ref_lists st) (pa_annotations_off p) = None"
        "param_step D data (st, pending) p =
           (st\<lparr>as_ref_lists := btree_insert (pa_annotations_off p) refs (as_ref_lists st)\<rparr>, pending @ filter (\<lambda>s. s \<noteq> 0) refs)"
    | (failed) "param_step D data (st, pending) p = (fail_ann FAnnotationSetRefList (pa_annotations_off p) st, pending)"
proof (cases "pa_annotations_off p = 0 \<or> map_of (as_ref_lists st) (pa_annotations_off p) \<noteq> None")
  case True
  then have "param_step D data (st, pending) p = (st, pending)" by (auto simp: param_step_def Let_def)
  with True show ?thesis by (rule that(1))
next
  case False
  show ?thesis
  proof (cases "parse_annotation_set D data (pa_annotations_off p)")
    case (Inl e)
    show ?thesis by (rule that(3)) (use False Inl in \<open>simp add: param_step_def Let_def\<close>)
  next
    case (Inr refs)
    show ?thesis by (rule that(2) [of refs]) (use False Inr in \<open>simp_all add: param_step_def Let_def\<close>)
  qed
qed

text \<open>One parameter: what holds of the state and the pending sets before holds after, and the parameter's list is
  in the map or recorded.\<close>

lemma param_step_closed:
  assumes "param_step D data (st, pending) p = (st', pending')" and "sets_closed st" and "refs_closed pending st"
  shows "ann_grown st st'" "set pending \<subseteq> set pending'" "sets_closed st'" "refs_closed pending' st'"
    "resolved (as_ref_lists st') FAnnotationSetRefList (as_errors st') (pa_annotations_off p)"
proof -
  have "ann_grown st st' \<and> set pending \<subseteq> set pending' \<and> as_sets st' = as_sets st \<and> refs_closed pending' st'
    \<and> resolved (as_ref_lists st') FAnnotationSetRefList (as_errors st') (pa_annotations_off p)"
  proof (cases rule: param_step_cases [of p st D data pending])
    case kept
    then show ?thesis using assms by auto
  next
    case (found refs)
    have "ann_grown st st'" using found assms(1) btree_insert_le by (auto simp: ann_grown_def)
    moreover have "refs_closed pending' st'" using found assms(1, 3)
      by (auto simp: refs_closed_def map_of_btree_insert list_all_iff set_resolved_def)
    ultimately show ?thesis using found assms(1) by auto
  next
    case failed
    have "ann_grown st st'" using failed assms(1) by auto
    moreover have "refs_closed pending' st'" using failed assms(1, 3) set_done_mono [of st _ st'] calculation
      by (fastforce simp: refs_closed_def list_all_iff)
    ultimately show ?thesis using failed assms(1) by auto
  qed
  then show "ann_grown st st'" "set pending \<subseteq> set pending'" "sets_closed st'" "refs_closed pending' st'"
    "resolved (as_ref_lists st') FAnnotationSetRefList (as_errors st') (pa_annotations_off p)"
    using sets_closed_keep [OF assms(2)] by blast+
qed

lemma ref_resolved_grown: "resolved (as_ref_lists st) k (as_errors st) off \<Longrightarrow> ann_grown st st' \<Longrightarrow> resolved (as_ref_lists st') k (as_errors st') off"
  by (auto simp: ann_grown_def map_le_def resolved_def grown_def dom_def)

lemma param_fold_closed:
  assumes "foldl (param_step D data) (st, pending) ps = (st', pending')" and "sets_closed st" and "refs_closed pending st"
  shows "ann_grown st st' \<and> set pending \<subseteq> set pending' \<and> sets_closed st' \<and> refs_closed pending' st'
    \<and> list_all (\<lambda>p. resolved (as_ref_lists st') FAnnotationSetRefList (as_errors st') (pa_annotations_off p)) ps"
  using assms
proof (induction ps arbitrary: st pending)
  case (Cons p ps)
  obtain t q where t: "param_step D data (st, pending) p = (t, q)" by fastforce
  note c = param_step_closed [OF t Cons.prems(2, 3)]
  have "foldl (param_step D data) (t, q) ps = (st', pending')" using Cons.prems(1) t by simp
  note i = Cons.IH [OF this c(3, 4)]
  with c ref_resolved_grown [OF c(5)] ann_grown_trans [OF c(1)] show ?case by auto
qed auto

lemma dir_walk_closed:
  assumes "dir_walk_step D data st dir = Some st'" and "sets_closed st" and "refs_closed [] st"
  shows "ann_grown st st'" "sets_closed st'" "refs_closed [] st'" "directory_done st' dir"
proof -
  obtain t q where t: "foldl (param_step D data) (st, pending_of dir) (dir_parameters dir) = (t, q)" by fastforce
  then have f: "foldO (set_step D data) t q = Some st'" using assms(1) by (simp add: dir_walk_step_def)
  have "refs_closed (pending_of dir) st" using assms(3) by (auto simp: refs_closed_def list_all_iff)
  note p = param_fold_closed [OF t assms(2) this]
  then have "sets_closed t" by blast
  note s = set_fold_closed [OF f this]
  have g: "ann_grown t st'" by (rule sets.fold_grows [OF f])
  show "ann_grown st st'" using p g ann_grown_trans by blast
  show "sets_closed st'" by (rule s(1))
  show r: "refs_closed [] st'" using p s(2, 3) set_done_mono [OF _ g] by (fastforce simp: refs_closed_def list_all_iff)
  have "list_all (set_done st') (pending_of dir)" using p s(3) by (auto simp: list_all_iff)
  moreover have "ref_list_resolved (as_ref_lists st') (as_sets st') (as_items st') (as_errors st') (pa_annotations_off x)"
    if "x \<in> set (dir_parameters dir)" for x
  proof -
    have "resolved (as_ref_lists st') FAnnotationSetRefList (as_errors st') (pa_annotations_off x)"
      using p that ref_resolved_grown [OF _ g] by (auto simp: list_all_iff)
    then show ?thesis using r by (auto simp: ref_list_resolved_def resolved_def refs_closed_def)
  qed
  ultimately show "directory_done st' dir" by (simp add: directory_resolved_def list_all_iff)
qed

lemma dir_walk_fold:
  assumes "foldO (dir_walk_step D data) st dirs = Some st'" and "sets_closed st" and "refs_closed [] st"
  shows "ann_grown st st' \<and> list_all (directory_done st') dirs"
  using assms
proof (induction dirs arbitrary: st)
  case (Cons d dirs)
  obtain t where t: "dir_walk_step D data st d = Some t" "foldO (dir_walk_step D data) t dirs = Some st'"
    using Cons.prems(1) by (auto simp: Option.bind_eq_Some_conv)
  note c = dir_walk_closed [OF t(1) Cons.prems(2, 3)]
  from Cons.IH [OF t(2) c(2, 3)] c(1) directory_done_mono [OF c(4)] show ?case by (auto intro: ann_grown_trans)
qed simp


section \<open>What each loop resolves\<close>

lemma interface_fold:
  assumes "foldl (interface_step D data n) (m, pe) cds = (m', pe')"
  shows "grown (m, pe) (m', pe')" "list_all (\<lambda>cd. resolved m' FInterfaces pe' (interfaces_off cd)) cds"
proof -
  have f: "foldO (always (interface_step D data n)) (m, pe) cds = Some (m', pe')" using assms by (simp add: foldO_always)
  show "grown (m, pe) (m', pe')" by (rule interfaces.fold_grows [OF f])
  have "list_all (\<lambda>cd. resolved (fst (m', pe')) FInterfaces (snd (m', pe')) (interfaces_off cd)) cds"
    by (rule interfaces.fold_all [OF f])
      (auto simp: always_def interface_step_def extend_one_interface_list_def Let_def resolved_grown split: sum.splits prod.splits if_splits)
  then show "list_all (\<lambda>cd. resolved m' FInterfaces pe' (interfaces_off cd)) cds" by simp
qed

lemma directory_fold:
  assumes "foldl (directory_step D data) (m, pe) cds = (m', pe')"
  shows "grown (m, pe) (m', pe')" "list_all (\<lambda>cd. resolved m' FAnnotationDirectory pe' (annotations_off cd)) cds"
proof -
  have f: "foldO (always (directory_step D data)) (m, pe) cds = Some (m', pe')" using assms by (simp add: foldO_always)
  show "grown (m, pe) (m', pe')" by (rule directories.fold_grows [OF f])
  have "list_all (\<lambda>cd. resolved (fst (m', pe')) FAnnotationDirectory (snd (m', pe')) (annotations_off cd)) cds"
    by (rule directories.fold_all [OF f])
      (auto simp: always_def directory_step_def Let_def resolved_grown split: sum.splits prod.splits if_splits)
  then show "list_all (\<lambda>cd. resolved m' FAnnotationDirectory pe' (annotations_off cd)) cds" by simp
qed

lemma array_fold:
  assumes "foldO (array_step D data) (a, w, pe) offs = Some (a', w', pe')"
  shows "grown (a, pe) (a', pe')" "list_all (resolved a' FEncodedArray pe') offs"
proof -
  show "grown (a, pe) (a', pe')" using arrays.fold_grows [OF assms] by (simp add: array_grown_def)
  have "list_all (\<lambda>off. resolved (fst (a', w', pe')) FEncodedArray (snd (snd (a', w', pe'))) off) offs"
  proof (rule arrays.fold_all [OF assms], goal_cases)
    case (1 s off s')
    obtain a w e a' w' e' where st: "s = (a, w, e)" "s' = (a', w', e')" by (cases s; cases s') auto
    from 1 [unfolded st] show ?case unfolding st by (cases rule: array_step_cases) auto
  qed (auto simp: array_grown_def resolved_grown)
  then show "list_all (resolved a' FEncodedArray pe') offs" by simp
qed

lemma code_fold:
  assumes "foldl (code_step D data) (m, pe) ems = (m', pe')"
  shows "grown (m, pe) (m', pe')" "list_all (\<lambda>em. resolved m' FCodeItem pe' (em_code_off em)) ems"
proof -
  have f: "foldO (always (code_step D data)) (m, pe) ems = Some (m', pe')" using assms by (simp add: foldO_always)
  show "grown (m, pe) (m', pe')" by (rule codes.fold_grows [OF f])
  have "list_all (\<lambda>em. resolved (fst (m', pe')) FCodeItem (snd (m', pe')) (em_code_off em)) ems"
    by (rule codes.fold_all [OF f])
      (auto simp: always_def code_step_def Let_def resolved_grown split: sum.splits prod.splits if_splits)
  then show "list_all (\<lambda>em. resolved m' FCodeItem pe' (em_code_off em)) ems" by simp
qed

lemma set_btree_insert_subset: "set (btree_insert k v m) \<subseteq> insert (k, v) (set m)"
  by (induction k v m rule: btree_insert.induct) auto

definition methods_resolved :: "(u32 \<times> CodeItem) list \<Rightarrow> ParseFailure list \<Rightarrow> ClassData \<Rightarrow> bool" where
  "methods_resolved cis pe cdata \<longleftrightarrow>
     list_all (\<lambda>em. resolved cis FCodeItem pe (em_code_off em)) (direct_methods cdata @ virtual_methods cdata)"

lemma methods_resolved_grown: "methods_resolved m pe c \<Longrightarrow> grown (m, pe) (m', pe') \<Longrightarrow> methods_resolved m' pe' c"
  using resolved_grown by (fastforce simp: methods_resolved_def list_all_iff)

lemma class_data_step_closed:
  assumes "class_data_step D data (datas, raws, cis, pe) cd = (datas', raws', cis', pe')"
    and "\<forall>(off, c) \<in> set datas. methods_resolved cis pe c"
  shows "\<forall>(off, c) \<in> set datas'. methods_resolved cis' pe' c" "resolved datas' FClassData pe' (class_data_off cd)"
proof -
  have g: "grown (cis, pe) (cis', pe')"
    using class_datas.step_grows [of D data "(datas, raws, cis, pe)" cd] assms(1) by (auto simp: always_def class_grown_def)
  have old: "methods_resolved cis' pe' c" if "(off, c) \<in> set datas" for off c
    using assms(2) that methods_resolved_grown [OF _ g] by blast
  have "(\<forall>(off, c) \<in> set datas'. methods_resolved cis' pe' c) \<and> resolved datas' FClassData pe' (class_data_off cd)"
  proof (cases "class_data_off cd = 0 \<or> (\<exists>e. parse_class_data_with_consumed D data (class_data_off cd) = Inl e)")
    case True
    then show ?thesis using assms(1) old by (auto simp: class_data_step_def Let_def split: if_splits)
  next
    case False
    then obtain c n where c: "class_data_off cd \<noteq> 0" "parse_class_data_with_consumed D data (class_data_off cd) = Inr (c, n)"
      by (cases "parse_class_data_with_consumed D data (class_data_off cd)") auto
    have d: "datas' = btree_insert (class_data_off cd) c datas"
      and f: "foldl (code_step D data) (cis, pe) (direct_methods c @ virtual_methods c) = (cis', pe')"
      using assms(1) c by (auto simp: class_data_step_def Let_def)
    have "methods_resolved cis' pe' c" using code_fold [OF f] by (simp add: methods_resolved_def)
    then show ?thesis using old set_btree_insert_subset [of "class_data_off cd" c datas] by (auto simp: d)
  qed
  then show "\<forall>(off, c) \<in> set datas'. methods_resolved cis' pe' c" "resolved datas' FClassData pe' (class_data_off cd)" by blast+
qed

lemma class_fold:
  assumes "foldl (class_data_step D data) (datas, raws, cis, pe) cds = (datas', raws', cis', pe')"
    and "\<forall>(off, c) \<in> set datas. methods_resolved cis pe c"
  shows "(\<forall>(off, c) \<in> set datas'. methods_resolved cis' pe' c) \<and> class_grown (datas, raws, cis, pe) (datas', raws', cis', pe')
    \<and> list_all (\<lambda>cd. resolved datas' FClassData pe' (class_data_off cd)) cds"
  using assms
proof (induction cds arbitrary: datas raws cis pe)
  case (Cons cd cds)
  obtain d r c e where t: "class_data_step D data (datas, raws, cis, pe) cd = (d, r, c, e)"
    by (cases "class_data_step D data (datas, raws, cis, pe) cd") auto
  note s = class_data_step_closed [OF t Cons.prems(2)]
  have g: "class_grown (datas, raws, cis, pe) (d, r, c, e)" using class_datas.step_grows t by (metis always_def)
  have "foldl (class_data_step D data) (d, r, c, e) cds = (datas', raws', cis', pe')" using Cons.prems(1) t by simp
  note i = Cons.IH [OF this s(1)]
  then have "grown (d, e) (datas', pe')" by (simp add: class_grown_def)
  with i g s(2) show ?case by (auto intro: class_datas.grows_trans resolved_grown)
qed (auto simp: class_datas.grows_refl)

lemma debug_fold:
  assumes "foldl (debug_info_step D data strs types) (i, raws, pe) refs = (i', raws', pe')"
  shows "grown (raws, pe) (raws', pe')" "list_all (\<lambda>r. resolved raws' FDebugInfo pe' (fst r)) refs"
proof -
  have f: "foldO (always (debug_info_step D data strs types)) (i, raws, pe) refs = Some (i', raws', pe')" using assms by (simp add: foldO_always)
  show "grown (raws, pe) (raws', pe')" using debug_infos.fold_grows [OF f] by (simp add: debug_grown_def)
  have "list_all (\<lambda>r. resolved (fst (snd (i', raws', pe'))) FDebugInfo (snd (snd (i', raws', pe'))) (fst r)) refs"
    by (rule debug_infos.fold_all [OF f])
      (auto simp: always_def debug_info_step_def debug_grown_def resolved_grown split: sum.splits prod.splits if_splits)
  then show "list_all (\<lambda>r. resolved raws' FDebugInfo pe' (fst r)) refs" by simp
qed


section \<open>The walks only add entries\<close>

lemma walk_section_le:
  assumes "walk_section K why code es fs m = Inr (rs, m')"
  shows "map_of m \<subseteq>\<^sub>m map_of m'"
proof (cases "find (\<lambda>e. me_type_code e = code) es")
  case (Some a)
  obtain s e where "section_bounds es fs a = (s, e)" by fastforce
  from walk_section_tiles [OF assms Some this] show ?thesis by blast
qed (use assms in \<open>simp add: walk_section_def\<close>)

section \<open>Recorded failures are kept\<close>

lemma topo_keeps: "set pe \<subseteq> set (collect_class_def_topo_violations row_of tls cds pe)"
  by (auto simp: collect_class_def_topo_violations_def split: option.splits)

lemma index_keeps: "rebuild_class_def_index n cds pe = (index, pe') \<Longrightarrow> set pe \<subseteq> set pe'"
  by (auto simp: rebuild_class_def_index_def split: prod.splits)

lemma reserved_keeps: "set pe \<subseteq> set (collect_reserved_bits_violations D data off es pe)"
  by (simp add: collect_reserved_bits_violations_def)

lemma order_keeps: "set pe \<subseteq> set (collect_pool_ordering_violations strs ts ps tls fs ms pe)"
  by (auto simp: collect_pool_ordering_violations_def)

lemma resolved_keeps: "resolved m k pe off \<Longrightarrow> set pe \<subseteq> set pe' \<Longrightarrow> resolved m k pe' off"
  by (rule resolved_grown) (auto simp: grown_def)

section \<open>No reference is dropped\<close>

text \<open>Everything the file refers to is in its map, or a failure of that kind is recorded at that offset.\<close>

definition class_resolved :: "DexFile \<Rightarrow> ClassDefItem \<Rightarrow> bool" where
  "class_resolved f cd \<longleftrightarrow>
     resolved (df_type_lists f) FInterfaces (df_parse_errors f) (interfaces_off cd)
     \<and> resolved (df_annotations f) FAnnotationDirectory (df_parse_errors f) (annotations_off cd)
     \<and> resolved (df_encoded_arrays f) FEncodedArray (df_parse_errors f) (static_values_off cd)
     \<and> resolved (df_class_datas f) FClassData (df_parse_errors f) (class_data_off cd)"

definition nothing_dropped :: "DexFile \<Rightarrow> bool" where
  "nothing_dropped f \<longleftrightarrow>
     list_all (class_resolved f) (df_class_defs f)
     \<and> list_all (\<lambda>(_, dir). directory_resolved (df_annotation_set_ref_lists f) (df_annotation_sets f) (df_annotation_items f)
                              (df_parse_errors f) dir) (df_annotations f)
     \<and> list_all (\<lambda>(_, c). methods_resolved (df_code_items f) (df_parse_errors f) c) (df_class_datas f)
     \<and> list_all (\<lambda>(_, ci). resolved (df_debug_info_raw_bytes f) FDebugInfo (df_parse_errors f) (debug_info_off ci)) (df_code_items f)
     \<and> list_all (resolved (df_encoded_arrays f) FEncodedArray (df_parse_errors f)) (df_call_site_ids f)"

definition subsections_resolved :: "pools \<Rightarrow> subsections \<Rightarrow> bool" where
  "subsections_resolved P S \<longleftrightarrow>
     list_all (\<lambda>cd. resolved (s_type_lists S) FInterfaces (s_errors S) (interfaces_off cd)) (p_class_defs P)
     \<and> list_all (\<lambda>cd. resolved (s_annotations S) FAnnotationDirectory (s_errors S) (annotations_off cd)) (p_class_defs P)
     \<and> list_all (\<lambda>cd. resolved (s_arrays S) FEncodedArray (s_errors S) (static_values_off cd)) (p_class_defs P)
     \<and> list_all (\<lambda>cd. resolved (s_class_datas S) FClassData (s_errors S) (class_data_off cd)) (p_class_defs P)
     \<and> list_all (directory_resolved (as_ref_lists (s_ann S)) (as_sets (s_ann S)) (as_items (s_ann S)) (s_errors S)) (map snd (s_annotations S))
     \<and> list_all (methods_resolved (s_code_items S) (s_errors S)) (map snd (s_class_datas S))
     \<and> list_all (resolved (s_arrays S) FEncodedArray (s_errors S)) (s_call_site_ids S)"

lemma list_all_resolved_keeps:
  "list_all (\<lambda>x. resolved m k pe (g x)) xs \<Longrightarrow> grown (m, pe) (m', pe') \<Longrightarrow> list_all (\<lambda>x. resolved m' k pe' (g x)) xs"
  by (auto simp: list_all_iff intro: resolved_grown)

lemma parse_subsections_resolved:
  assumes "parse_subsections D data P = Some S"
  shows "subsections_resolved P S"
proof -
  define cds where "cds = p_class_defs P"
  obtain tls pe1 where i: "foldl (interface_step D data (length (p_types P))) (p_type_lists P, []) cds = (tls, pe1)" by fastforce
  define pe2 where "pe2 = collect_pool_ordering_violations (p_strings P) (p_type_idxs P) (p_protos P) tls (p_fields P) (p_methods P) pe1"
  obtain dirs pe3 where d: "foldl (directory_step D data) ([], pe2) cds = (dirs, pe3)" by fastforce
  obtain handles cs where mh: "parse_map_driven_sections D data (p_header P) = (handles, cs)" by fastforce
  define st0 where "st0 = \<lparr>as_ref_lists = [], as_sets = [], as_items = [], as_widths = [], as_errors = pe3\<rparr>"
  note unfolds = parse_subsections_def extend_type_lists_from_interfaces_def Let_def cds_def [symmetric] i d mh pe2_def [symmetric] st0_def [symmetric]
  obtain ann a w pe4 where w: "foldO (dir_walk_step D data) st0 (map snd dirs) = Some ann"
    and a: "foldO (array_step D data) ([], [], as_errors ann) (map static_values_off cds) = Some (a, w, pe4)"
    using assms by (auto simp: unfolds Option.bind_eq_Some_conv)
  obtain datas raws cis pe5 where c: "foldl (class_data_step D data) ([], [], [], pe4) cds = (datas, raws, cis, pe5)"
    by (metis surj_pair)
  obtain a' w' pe6 where b: "foldO (array_step D data) (a, w, pe5) cs = Some (a', w', pe6)"
    using assms by (auto simp: unfolds w a c Option.bind_eq_Some_conv)
  obtain es pe7 where e: "(case read_map_list D data (map_off (p_header P)) of
      Inr v \<Rightarrow> (v, pe6) | Inl _ \<Rightarrow> ([], pe6 @ [failure FMapList (map_off (p_header P))])) = (es, pe7)" by fastforce
  have S: "S = \<lparr>s_type_lists = tls, s_annotations = dirs, s_ann = ann, s_arrays = a', s_array_widths = w',
            s_class_datas = datas, s_raw_class_data = raws, s_code_items = cis, s_method_handles = handles,
            s_call_site_ids = cs, s_map_entries = es, s_errors = pe7\<rparr>"
    using assms by (simp add: unfolds w a c b e)
  have "sets_closed st0" "refs_closed [] st0" by (simp_all add: st0_def sets_closed_def refs_closed_def)
  note W = dir_walk_fold [OF w this]
  note A = array_fold [OF a] and B = array_fold [OF b] and C = class_fold [OF c, simplified]
  have s3: "set pe1 \<subseteq> set pe3" using order_keeps directory_fold(1) [OF d] by (fastforce simp: grown_def pe2_def)
  have s4: "set pe3 \<subseteq> set (as_errors ann)" using W by (simp add: ann_grown_def grown_def st0_def)
  have s5: "set (as_errors ann) \<subseteq> set pe4" "set pe5 \<subseteq> set pe6" using A(1) B(1) by (simp_all add: grown_def)
  have s6: "set pe4 \<subseteq> set pe5" using C by (simp add: class_grown_def grown_def)
  have s7: "set pe6 \<subseteq> set pe7" using e by (auto split: sum.splits)
  have g: "grown (m, pe) (m, pe7)" if "set pe \<subseteq> set pe6" for m :: "(u32 \<times> 'z) list" and pe using that s7 by (auto simp: grown_def)
  have ga: "grown (a, pe4) (a', pe7)" using B(1) s6 s7 by (auto simp: grown_def)
  have gb: "grown (a', pe6) (a', pe7)" by (rule g) simp
  have "list_all (\<lambda>cd. resolved tls FInterfaces pe7 (interfaces_off cd)) cds"
    using list_all_resolved_keeps [OF interface_fold(2) [OF i] g] s3 s4 s5 s6 by blast
  moreover have "list_all (\<lambda>cd. resolved dirs FAnnotationDirectory pe7 (annotations_off cd)) cds"
    using list_all_resolved_keeps [OF directory_fold(2) [OF d] g] s4 s5 s6 by blast
  moreover have "list_all (\<lambda>cd. resolved a' FEncodedArray pe7 (static_values_off cd)) cds"
    using list_all_resolved_keeps [OF A(2) ga] by (simp add: list_all_iff)
  moreover have "list_all (\<lambda>cd. resolved datas FClassData pe7 (class_data_off cd)) cds"
    using list_all_resolved_keeps [OF C [THEN conjunct2, THEN conjunct2] g] s5 by blast
  moreover have "list_all (directory_resolved (as_ref_lists ann) (as_sets ann) (as_items ann) pe7) (map snd dirs)"
    using W directory_resolved_mono [OF _ map_le_refl map_le_refl g] s5 s6 by (fastforce simp: list_all_iff)
  moreover have "list_all (methods_resolved cis pe7) (map snd datas)"
    using C methods_resolved_grown [OF _ g] s5 by (fastforce simp: list_all_iff)
  moreover have "list_all (resolved a' FEncodedArray pe7) cs"
    using list_all_resolved_keeps [OF B(2) gb] by simp
  ultimately show ?thesis by (simp add: subsections_resolved_def S cds_def)
qed


lemma grown_le: "map_of m \<subseteq>\<^sub>m map_of m' \<Longrightarrow> set pe \<subseteq> set pe' \<Longrightarrow> grown (m, pe) (m', pe')"
  by (auto simp: grown_def dest: map_le_implies_dom_le)

lemma finish_file_resolved:
  assumes "finish_file D data P S = Inr f" and "subsections_resolved P S"
  shows "nothing_dropped f"
proof -
  define cds n where "cds = p_class_defs P" and "n = length (p_types P)"
  obtain index pe1 where i: "rebuild_class_def_index n cds (s_errors S) = (index, pe1)" by fastforce
  define pe2 where "pe2 = collect_class_def_topo_violations (class_defs_row_of n cds index) (s_type_lists S) cds pe1"
  define pe3 where "pe3 = collect_reserved_bits_violations D data (map_off (p_header P)) (s_map_entries S) pe2"
  obtain infos raws pe4 where d: "foldl (debug_info_step D data (p_strings P) (p_types P)) ([], [], pe3) (debug_refs (s_code_items S)) = (infos, raws, pe4)"
    by (metis surj_pair)
  note unfolds = finish_file_def Let_def cds_def [symmetric] n_def [symmetric] i pe2_def [symmetric] pe3_def [symmetric] d
  obtain dl raws' al sets' where w: "walk_debug_info_section_full D data (s_map_entries S) (file_size (p_header P)) raws = Inr (dl, raws')"
    and v: "walk_annotation_set_section_full D data (s_map_entries S) (file_size (p_header P)) (as_sets (s_ann S)) = Inr (al, sets')"
    using assms(1) by (auto simp: unfolds)
  have f: "df_class_defs f = cds" "df_type_lists f = s_type_lists S" "df_annotations f = s_annotations S" "df_encoded_arrays f = s_arrays S"
    "df_class_datas f = s_class_datas S" "df_code_items f = s_code_items S" "df_call_site_ids f = s_call_site_ids S" "df_parse_errors f = pe4"
    "df_debug_info_raw_bytes f = raws'" "df_annotation_sets f = sets'" "df_annotation_items f = as_items (s_ann S)"
    "df_annotation_set_ref_lists f = as_ref_lists (s_ann S)"
    using assms(1) by (auto simp: unfolds w v)
  have le: "map_of raws \<subseteq>\<^sub>m map_of raws'" "map_of (as_sets (s_ann S)) \<subseteq>\<^sub>m map_of sets'"
    using w v walk_section_le by (auto simp: walk_debug_info_section_full_def walk_annotation_set_section_full_def)
  have e: "set (s_errors S) \<subseteq> set pe4"
    using index_keeps [OF i] topo_keeps [of pe1] reserved_keeps [of pe2] debug_fold(1) [OF d] by (fastforce simp: grown_def pe2_def pe3_def)
  have g: "grown (m, s_errors S) (m, pe4)" for m :: "(u32 \<times> 'z) list" using e by (simp add: grown_def)
  have "list_all (\<lambda>r. resolved raws' FDebugInfo pe4 (fst r)) (debug_refs (s_code_items S))"
    using list_all_resolved_keeps [OF debug_fold(2) [OF d] grown_le [OF le(1)]] by simp
  then have "list_all (\<lambda>(_, ci). resolved raws' FDebugInfo pe4 (debug_info_off ci)) (s_code_items S)"
    by (fastforce simp: list_all_iff debug_refs_def)
  moreover have "list_all (class_resolved f) cds"
    using assms(2) by (auto simp: subsections_resolved_def class_resolved_def f list_all_iff cds_def intro: resolved_keeps [OF _ e])
  moreover have "list_all (\<lambda>(_, dir). directory_resolved (as_ref_lists (s_ann S)) sets' (as_items (s_ann S)) pe4 dir) (s_annotations S)"
    using assms(2) directory_resolved_mono [OF _ map_le_refl le(2) g] by (fastforce simp: subsections_resolved_def list_all_iff)
  moreover have "list_all (\<lambda>(_, c). methods_resolved (s_code_items S) pe4 c) (s_class_datas S)"
    using assms(2) methods_resolved_grown [OF _ g] by (fastforce simp: subsections_resolved_def list_all_iff)
  moreover have "list_all (resolved (s_arrays S) FEncodedArray pe4) (s_call_site_ids S)"
    using assms(2) by (auto simp: subsections_resolved_def list_all_iff intro: resolved_keeps [OF _ e])
  ultimately show ?thesis by (simp add: nothing_dropped_def f)
qed

end
