(* ===== verification/Dex_File_Facts.thy ===== *)
theory Dex_File_Facts
  imports Dex_File_Resolve
begin

text \<open>
  What the whole-file parser promises: it ends on every input, the file it returns is well typed, and no referenced
  subsection is dropped silently.
\<close>

section \<open>The parser ends\<close>

lemma bindL_total: "(\<And>x. m = Inr x \<Longrightarrow> \<exists>r. f x = Some r) \<Longrightarrow> \<exists>r. bindL m f = Some r"
  by (cases m) (auto simp: bindL_def)

lemma bindR_total: "\<exists>r. m = Some r \<Longrightarrow> (\<And>x. \<exists>r. f x = Some r) \<Longrightarrow> \<exists>r. bindR m f = Some r"
  by (auto simp: bindR_def intro!: bindL_total)

lemma bind_total: "\<exists>r. m = Some r \<Longrightarrow> (\<And>x. \<exists>r. f x = Some r) \<Longrightarrow> \<exists>r. Option.bind m f = Some r"
  by auto

context dex_deps
begin

lemma encoded_annotation_total: "\<exists>r. parse_encoded_annotation D data pos = Some r"
proof -
  have "\<exists>r. drive_collector_stack D data p3 (FAnnotation pos n t [] None) = Some r"
    if "read_uleb128 D data pos = Inr (t, l1)" "safe_add pos l1 c = Inr p2" "read_uleb128 D data p2 = Inr (sz, l2)" "safe_add p2 l2 c' = Inr p3"
    for t l1 p2 sz l2 p3 n c c'
    using drive_total [of pos p3 data "[FAnnotation pos n t [] None]"] that
    by (auto simp: drive_collector_stack_def btree_ok_def dest!: safe_add_InrD read_uleb128_bound)
  then show ?thesis unfolding parse_encoded_annotation_def
    by (intro bindL_total) (auto intro!: bindL_total bindR_total split: EncodedValue.splits)
qed

lemma annotation_item_total: "\<exists>r. parse_annotation_item D data off = Some r"
  unfolding parse_annotation_item_def by (intro bindL_total bindR_total encoded_annotation_total) auto

lemma parse_values_total: "\<exists>r. parse_values D data n pos = Some r"
proof (induction n arbitrary: pos)
  case (Suc n)
  have "\<exists>r. parse_encoded_value D data pos = Some r" using parse_total by blast
  then show ?case by (auto simp: Let_def intro!: bindR_total bindL_total Suc)
qed simp

lemma encoded_array_total: "\<exists>r. parse_encoded_array D data off = Some r"
  unfolding parse_encoded_array_def by (auto intro!: bindL_total bindR_total parse_values_total)

lemma step_totals:
  "\<exists>s'. item_step D data st off = Some s'" "\<exists>s'. set_step D data st off = Some s'" "\<exists>s'. dir_walk_step D data st dir = Some s'"
  "\<exists>s'. array_step D data ar off = Some s'"
proof -
  show item: "\<exists>s'. item_step D data st off = Some s'" for st off
    using annotation_item_total [of data off] by (auto simp: item_step_def Let_def split: sum.splits)
  show set_total: "\<exists>s'. set_step D data st off = Some s'" for st off
    using foldO_total [of "item_step D data", OF item] by (auto simp: set_step_def split: sum.splits)
  show "\<exists>s'. dir_walk_step D data st dir = Some s'"
    using foldO_total [of "set_step D data", OF set_total] by (auto simp: dir_walk_step_def split: prod.splits)
  show "\<exists>s'. array_step D data ar off = Some s'"
    using encoded_array_total [of data off] by (auto simp: array_step_def split: sum.splits prod.splits)
qed

lemma parse_subsections_total: "\<exists>S. parse_subsections D data P = Some S"
  using foldO_total [of "dir_walk_step D data", OF step_totals(3)] foldO_total [of "array_step D data", OF step_totals(4)]
  by (auto simp: parse_subsections_def Let_def intro!: bind_total split: prod.splits sum.splits)

end

text \<open>C4 (parse_file_total). Parsing a whole file ends on every input: it returns a file or an error, however the
  offsets, counts and nested values of the input are chosen.\<close>

theorem parse_file_total:
  assumes "dex_deps D"
  shows "\<exists>r. parse_inner D dec data = Some r"
  unfolding parse_inner_def
  by (intro bindL_total bind_total dex_deps.parse_subsections_total [OF assms]) simp

theorem parse_file_total_witness: "\<exists>r. parse_inner (std_deps (\<lambda>_. [])) (\<lambda>bs. Inl 0) [1, 2, 3] = Some r"
  by (rule parse_file_total [OF std.dex_deps_axioms])


section \<open>The parsed file is well typed\<close>

definition index_slot_ok :: "nat \<Rightarrow> u32 option \<Rightarrow> bool" where
  "index_slot_ok n slot = (case slot of None \<Rightarrow> True | Some row \<Rightarrow> unat row < n)"

definition file_typed :: "DexFile \<Rightarrow> bool" where
  "file_typed f \<longleftrightarrow>
     (let strings = length (df_strings f); types = length (df_type_descriptors f); protos = length (df_protos f) in
      length (df_string_data_offs f) = strings
      \<and> list_all (\<lambda>d. d \<in> as_str_lossy ` set (df_strings f)) (df_type_descriptors f)
      \<and> list_all (proto_ok strings types) (df_protos f)
      \<and> list_all (field_ok types strings) (df_fields f)
      \<and> list_all (method_ok types protos strings) (df_methods f)
      \<and> list_all (class_ok types strings) (df_class_defs f)
      \<and> list_all (\<lambda>(_, ts). type_list_ok types ts) (df_type_lists f)
      \<and> list_all (\<lambda>p. parameters_off p = 0 \<or> map_of (df_type_lists f) (parameters_off p) \<noteq> None) (df_protos f)
      \<and> length (df_class_def_index f) = types
      \<and> list_all (index_slot_ok (length (df_class_defs f))) (df_class_def_index f))"

lemma index_bound:
  assumes "foldl index_step (replicate n None, []) (enumerate 0 cds) = (idx, dups)"
  shows "length idx = n \<and> list_all (index_slot_ok (length cds)) idx"
  using assms
proof (induction cds arbitrary: idx dups rule: rev_induct)
  case Nil
  then show ?case by (auto simp: index_slot_ok_def list_all_iff)
next
  case (snoc cd cds)
  obtain i d where f: "foldl index_step (replicate n None, []) (enumerate 0 cds) = (i, d)" by fastforce
  note ih = snoc.IH [OF f]
  then have old: "list_all (index_slot_ok (length (cds @ [cd]))) i" by (auto simp: list_all_iff index_slot_ok_def split: option.splits)
  have st: "(idx, dups) = index_step (i, d) (length cds, cd)" using snoc.prems f by (simp add: enumerate_append_eq)
  then have "idx = i \<or> (length cds < 2 ^ 32 \<and> (\<exists>t. idx = i[t := Some (of_nat (length cds))]))"
    by (auto simp: index_step_def Let_def split: option.splits if_splits)
  then show ?case
  proof (elim disjE conjE exE)
    fix t assume "length cds < 2 ^ 32" "idx = i[t := Some (of_nat (length cds))]"
    moreover from this have "index_slot_ok (length (cds @ [cd])) (Some (of_nat (length cds)))"
      by (simp add: index_slot_ok_def unat_of_nat_u32)
    ultimately show ?thesis using ih old set_update_subset_insert [of i t "Some (of_nat (length cds))"] by (fastforce simp: list_all_iff)
  qed (use ih old in auto)
qed

lemma one_type_list_ok: "parse_one_type_list D data n item c off = Inr ts \<Longrightarrow> type_list_ok n ts"
  by (auto simp: parse_one_type_list_def type_list_ok_def list_all_iff parse_type_item_def dest!: mapE_set)

definition lists_ok :: "nat \<Rightarrow> type_list_map \<Rightarrow> bool" where
  "lists_ok n tls \<longleftrightarrow> list_all (\<lambda>(_, ts). type_list_ok n ts) tls"

lemma lists_ok_insert: "lists_ok n tls \<Longrightarrow> type_list_ok n ts \<Longrightarrow> lists_ok n (btree_insert off ts tls)"
  using set_btree_insert_subset [of off ts tls] by (fastforce simp: lists_ok_def list_all_iff)

lemma interface_fold_ok:
  assumes "foldl (interface_step D data n) (m, pe) cds = (m', pe')" and "lists_ok n m"
  shows "lists_ok n m'"
proof -
  have f: "foldO (always (interface_step D data n)) (m, pe) cds = Some (m', pe')" using assms by (simp add: foldO_always)
  have "lists_ok n (fst (m', pe'))"
  proof (rule interfaces.fold_inv [OF f], goal_cases)
    case (2 s cd s')
    then show ?case using lists_ok_insert [OF _ one_type_list_ok]
      by (fastforce simp: always_def interface_step_def extend_one_interface_list_def Let_def split: sum.splits prod.splits if_splits)
  qed (use assms(2) in simp)
  then show ?thesis by simp
qed

lemma type_lists_fold:
  assumes "foldE (type_lists_step D data n) tls ps = Inr tls'" and "lists_ok n tls"
  shows "lists_ok n tls' \<and> dom (map_of tls) \<subseteq> dom (map_of tls')
    \<and> list_all (\<lambda>p. parameters_off p = 0 \<or> map_of tls' (parameters_off p) \<noteq> None) ps"
  using assms
proof (induction ps arbitrary: tls)
  case (Cons p ps)
  obtain t where t: "type_lists_step D data n tls p = Inr t" "foldE (type_lists_step D data n) t ps = Inr tls'" using Cons.prems(1) by auto
  then have s: "lists_ok n t \<and> dom (map_of tls) \<subseteq> dom (map_of t) \<and> (parameters_off p = 0 \<or> parameters_off p \<in> dom (map_of t))"
    using Cons.prems(2) by (auto simp: type_lists_step_def Let_def map_of_btree_insert split: if_splits dest: one_type_list_ok intro: lists_ok_insert)
  with Cons.IH [OF t(2)] show ?case by (simp add: domIff [symmetric]) blast
qed simp

definition pools_typed :: "pools \<Rightarrow> bool" where
  "pools_typed P \<longleftrightarrow>
     (let ns = length (p_strings P); nt = length (p_types P) in
      length (p_string_offs P) = ns \<and> list_all (\<lambda>d. d \<in> as_str_lossy ` set (p_strings P)) (p_types P)
      \<and> list_all (proto_ok ns nt) (p_protos P) \<and> list_all (field_ok nt ns) (p_fields P)
      \<and> list_all (method_ok nt (length (p_protos P)) ns) (p_methods P) \<and> list_all (class_ok nt ns) (p_class_defs P)
      \<and> lists_ok nt (p_type_lists P)
      \<and> list_all (\<lambda>p. parameters_off p = 0 \<or> map_of (p_type_lists P) (parameters_off p) \<noteq> None) (p_protos P))"

context dex_deps
begin

lemma parse_pools_typed:
  assumes "parse_pools D dec data = Inr P"
  shows "pools_typed P"
proof -
  obtain h strs offs types idxs protos tls fs ms cds where
    p: "parse_string_pool D dec data h = Inr (strs, offs)" "parse_types D data h strs = Inr (types, idxs)"
      "parse_protos D data h strs (length types) = Inr protos" "parse_type_lists D data protos (length types) = Inr tls"
      "parse_fields D data h (length types) (length strs) = Inr fs"
      "parse_methods D data h (length types) (length protos) (length strs) = Inr ms"
      "parse_class_defs D data h (length types) (length strs) = Inr cds"
    and P: "P = \<lparr>p_header = h, p_strings = strs, p_string_offs = offs, p_types = types, p_type_idxs = idxs, p_protos = protos,
          p_type_lists = tls, p_fields = fs, p_methods = ms, p_class_defs = cds\<rparr>"
    using assms by (auto simp: parse_pools_def)
  have "length offs = length strs" using p(1) by (auto simp: parse_string_pool_def)
  moreover have "list_all (\<lambda>d. d \<in> as_str_lossy ` set strs) types"
    using p(2) type_pool.pool_valid by (fastforce simp: parse_types_def list_all_iff type_row_ok_def)
  moreover have "list_all (proto_ok (length strs) (length types)) protos" using p(3) proto_pool.pool_valid by (auto simp: parse_protos_def)
  moreover have "list_all (field_ok (length types) (length strs)) fs" using p(5) field_pool.pool_valid by (auto simp: parse_fields_def)
  moreover have "list_all (method_ok (length types) (length protos) (length strs)) ms"
    using p(6) method_pool.pool_valid by (auto simp: parse_methods_def)
  moreover have "list_all (class_ok (length types) (length strs)) cds" using p(7) class_pool.pool_valid by (auto simp: parse_class_defs_def)
  ultimately show ?thesis using type_lists_fold [OF p(4) [unfolded parse_type_lists_def]] by (simp add: P pools_typed_def lists_ok_def)
qed

end

text \<open>C3 (parse_file_typed). A file that parses is well typed: every type name comes from the string pool, every
  string, type and proto index of the protos, fields, methods and classes is in range (superclass and source
  file where present), every type list holds types of the pool, every proto finds its parameter list, and the
  class index has a slot for each type that names an existing class.\<close>

theorem parse_file_typed:
  assumes "dex_deps D" and "parse_inner D dec data = Some (Inr f)"
  shows "file_typed f"
proof -
  obtain P S where P: "parse_pools D dec data = Inr P" and S: "parse_subsections D data P = Some S" and F: "finish_file D data P S = Inr f"
    using assms(2) by (auto simp: parse_inner_def bindL_def Option.bind_eq_Some_conv split: sum.splits)
  have t: "pools_typed P" by (rule dex_deps.parse_pools_typed [OF assms(1) P])
  obtain tls pe where i: "foldl (interface_step D data (length (p_types P))) (p_type_lists P, []) (p_class_defs P) = (tls, pe)" by fastforce
  then have s: "s_type_lists S = tls"
    using S by (auto simp: parse_subsections_def extend_type_lists_from_interfaces_def Let_def Option.bind_eq_Some_conv case_prod_beta)
  obtain idx dups where x: "foldl index_step (replicate (length (p_types P)) None, []) (enumerate 0 (p_class_defs P)) = (idx, dups)" by fastforce
  have f: "df_strings f = p_strings P" "df_string_data_offs f = p_string_offs P" "df_type_descriptors f = p_types P" "df_protos f = p_protos P"
    "df_fields f = p_fields P" "df_methods f = p_methods P" "df_class_defs f = p_class_defs P" "df_type_lists f = tls" "df_class_def_index f = idx"
    using F s by (auto simp: finish_file_def Let_def rebuild_class_def_index_def x split: prod.splits)
  have "lists_ok (length (p_types P)) tls" using interface_fold_ok [OF i] t by (simp add: pools_typed_def Let_def)
  moreover have "dom (map_of (p_type_lists P)) \<subseteq> dom (map_of tls)" using interface_fold(1) [OF i] by (simp add: grown_def)
  ultimately show ?thesis using t index_bound [OF x]
    by (simp add: file_typed_def pools_typed_def Let_def f lists_ok_def list_all_iff domIff [symmetric]) blast
qed

text \<open>C2 (no_silent_drop). Tolerant parsing drops nothing silently. In a file that parses, every reference of a
  class to its interfaces, annotations, static values and class data, every annotation set, reference list and
  annotation item reached from a directory, every code item of a method, every debug info of a code item and
  every call site is either in its map or recorded as a parse failure of its kind at its offset.\<close>

theorem no_silent_drop:
  assumes "parse_inner D dec data = Some (Inr f)"
  shows "nothing_dropped f"
proof -
  obtain P S where "parse_subsections D data P = Some S" "finish_file D data P S = Inr f"
    using assms by (auto simp: parse_inner_def bindL_def Option.bind_eq_Some_conv split: sum.splits)
  then show ?thesis using finish_file_resolved parse_subsections_resolved by blast
qed


section \<open>Pools laid out in a file are read back\<close>

text \<open>A proto whose parameter list, if it has one, lies in the file where the proto says.\<close>

definition params_at :: "byte list \<Rightarrow> nat \<Rightarrow> (u32 \<Rightarrow> TypeIdx list option) \<Rightarrow> ProtoIdItem \<Rightarrow> bool" where
  "params_at data type_count lookup p \<longleftrightarrow> parameters_off p = 0 \<or>
     (\<exists>ts bs. lookup (parameters_off p) = Some ts \<and> type_list_ok type_count ts \<and> length ts < 2 ^ 32
        \<and> emit_type_list ts = Inr bs \<and> at_off data (unat (parameters_off p)) bs)"

text \<open>The pools \<open>P\<close> lie in the file where the header says; \<open>entries\<close> are the strings with their declared lengths.\<close>

definition pools_at :: "deps \<Rightarrow> byte list \<Rightarrow> (u32 \<times> byte list) list \<Rightarrow> pools \<Rightarrow> bool" where
  "pools_at D data entries P \<longleftrightarrow>
     (let h = p_header P; ns = length entries; nt = length (p_type_idxs P); np = length (p_protos P) in
      at_off data (unat (string_ids_off h)) (words_to_le (p_string_offs P)) \<and> unat (string_ids_size h) = ns
      \<and> list_all2 (\<lambda>(declared, raw) off. list_all (\<lambda>b. b \<noteq> 0) raw
            \<and> at_off data (unat off) (common_write_uleb128 D declared @ raw @ [0])) entries (p_string_offs P)
      \<and> at_off data (unat (type_ids_off h)) (words_to_le (p_type_idxs P)) \<and> unat (type_ids_size h) = nt
      \<and> list_all2 (\<lambda>i d. unat i < ns \<and> d = as_str_lossy (p_strings P ! unat i)) (p_type_idxs P) (p_types P)
      \<and> at_off data (unat (proto_ids_off h)) (emit_proto_pool (p_protos P)) \<and> unat (proto_ids_size h) = np
      \<and> list_all (proto_ok ns nt) (p_protos P)
      \<and> (\<exists>bs. emit_field_pool (p_fields P) = Inr bs \<and> at_off data (unat (field_ids_off h)) bs)
      \<and> unat (field_ids_size h) = length (p_fields P) \<and> list_all (field_ok nt ns) (p_fields P)
      \<and> (\<exists>bs. emit_method_pool (p_methods P) = Inr bs \<and> at_off data (unat (method_ids_off h)) bs)
      \<and> unat (method_ids_size h) = length (p_methods P) \<and> list_all (method_ok nt np ns) (p_methods P)
      \<and> (\<exists>bs. emit_class_def_pool (p_class_defs P) = Inr bs \<and> at_off data (unat (class_defs_off h)) bs)
      \<and> unat (class_defs_size h) = length (p_class_defs P) \<and> list_all (class_ok nt ns) (p_class_defs P))"

context dex_deps
begin

lemma type_list_at: "params_at data n lookup p \<Longrightarrow> parameters_off p \<noteq> 0 \<Longrightarrow> fits data \<Longrightarrow>
  \<exists>ts. lookup (parameters_off p) = Some ts \<and> parse_one_type_list D data n item c (parameters_off p) = Inr ts"
  unfolding params_at_def using type_list_back by blast

lemma type_lists_back:
  assumes "list_all (params_at data n lookup) protos" and "fits data" and "map_of m \<subseteq>\<^sub>m lookup"
  shows "\<exists>tls. foldE (type_lists_step D data n) m protos = Inr tls \<and> map_of tls \<subseteq>\<^sub>m lookup
    \<and> dom (map_of m) \<subseteq> dom (map_of tls) \<and> (\<forall>p \<in> set protos. parameters_off p = 0 \<or> parameters_off p \<in> dom (map_of tls))"
  using assms(1, 3)
proof (induction protos arbitrary: m)
  case (Cons p protos)
  have "\<exists>m'. type_lists_step D data n m p = Inr m' \<and> map_of m' \<subseteq>\<^sub>m lookup \<and> dom (map_of m) \<subseteq> dom (map_of m')
    \<and> (parameters_off p = 0 \<or> parameters_off p \<in> dom (map_of m'))"
  proof (cases "parameters_off p = 0 \<or> map_of m (parameters_off p) \<noteq> None")
    case False
    obtain ts where "lookup (parameters_off p) = Some ts" "parse_one_type_list D data n ''type_list'' ''parse_type_lists'' (parameters_off p) = Inr ts"
      using type_list_at [of data n lookup p] Cons.prems(1) False assms(2) by fastforce
    with False Cons.prems(2) show ?thesis by (auto simp: type_lists_step_def Let_def map_of_btree_insert map_le_def)
  qed (use Cons.prems(2) in \<open>auto simp: type_lists_step_def Let_def\<close>)
  then obtain m' where m': "type_lists_step D data n m p = Inr m'" "map_of m' \<subseteq>\<^sub>m lookup" "dom (map_of m) \<subseteq> dom (map_of m')"
    "parameters_off p = 0 \<or> parameters_off p \<in> dom (map_of m')" by blast
  obtain tls where "foldE (type_lists_step D data n) m' protos = Inr tls" "map_of tls \<subseteq>\<^sub>m lookup" "dom (map_of m') \<subseteq> dom (map_of tls)"
    "\<forall>p \<in> set protos. parameters_off p = 0 \<or> parameters_off p \<in> dom (map_of tls)"
    using Cons.IH [of m'] Cons.prems(1) m'(2) by auto
  with m' show ?case by (intro exI [of _ tls]) auto
qed simp

lemma string_pool_back:
  assumes "fits data" and "at_off data (unat (string_ids_off h)) (words_to_le offs)" and "unat (string_ids_size h) = length entries"
    and "list_all2 (\<lambda>(declared, raw) off. list_all (\<lambda>b. b \<noteq> 0) raw
            \<and> at_off data (unat off) (common_write_uleb128 D declared @ raw @ [0])) entries offs"
  shows "parse_string_pool D dec data h = Inr (map (\<lambda>(declared, raw). string_entry dec raw declared True) entries, offs)"
proof -
  let ?rows = "zip (map (\<lambda>(declared, raw). string_entry dec raw declared True) entries) offs"
  have len: "length offs = length entries" using assms(4) by (simp add: list_all2_lengthD)
  have c: "concat_rows (\<lambda>row. Inr (u32_to_le (snd row))) ?rows = Inr (words_to_le offs)"
    using len by (simp add: concat_rows_total words_to_le_def flip: map_map [of u32_to_le snd, unfolded comp_def])
  have "list_all (\<lambda>row. parse_string_data D dec data (snd row) = Inr row) ?rows"
    using assms(4) string_data_at [OF assms(1)] by (auto simp: list_all_length list_all2_conv_all_nth case_prod_beta)
  from string_pool.pool_back [OF c this assms(1, 2)] assms(3) len show ?thesis by (simp add: parse_string_pool_def)
qed

lemma type_pool_back:
  assumes "fits data" and "at_off data (unat (type_ids_off h)) (words_to_le idxs)" and "unat (type_ids_size h) = length idxs"
    and "list_all2 (\<lambda>i d. unat i < length strs \<and> d = as_str_lossy (strs ! unat i)) idxs types"
  shows "parse_types D data h strs = Inr (types, idxs)"
proof -
  have len: "length types = length idxs" using assms(4) by (simp add: list_all2_lengthD)
  have c: "concat_rows (\<lambda>row. Inr (u32_to_le (snd row))) (zip types idxs) = Inr (words_to_le idxs)"
    using len by (simp add: concat_rows_total words_to_le_def flip: map_map [of u32_to_le snd, unfolded comp_def])
  have "list_all (type_row_ok strs) (zip types idxs)"
    using assms(4) by (auto simp: list_all_length list_all2_conv_all_nth type_row_ok_def)
  from type_pool.pool_back [OF c this assms(1, 2)] assms(3) len show ?thesis by (simp add: parse_types_def)
qed

lemma parse_pools_back:
  assumes "fits data" and "pools_at D data entries P" and "parse D data = Inr (p_header P)" and "verify_checksum D (p_header P) data = Inr ()"
    and "check_id_section_overlap (p_header P) = Inr ()"
    and "p_strings P = map (\<lambda>(declared, raw). string_entry dec raw declared True) entries"
    and "list_all (params_at data (length (p_type_idxs P)) lookup) (p_protos P)"
  shows "\<exists>tls. parse_pools D dec data = Inr (P\<lparr>p_type_lists := tls\<rparr>) \<and> map_of tls \<subseteq>\<^sub>m lookup
    \<and> (\<forall>p \<in> set (p_protos P). parameters_off p = 0 \<or> parameters_off p \<in> dom (map_of tls))"
proof -
  let ?h = "p_header P"
  note at = assms(2) [unfolded pools_at_def Let_def]
  have len: "length (p_strings P) = length entries" "length (p_types P) = length (p_type_idxs P)"
    using assms(6) at by (auto simp: list_all2_lengthD)
  have "parse_string_pool D dec data ?h = Inr (p_strings P, p_string_offs P)"
    unfolding assms(6) by (rule string_pool_back [OF assms(1)]) (use at in auto)
  moreover have "parse_types D data ?h (p_strings P) = Inr (p_types P, p_type_idxs P)"
    by (rule type_pool_back [OF assms(1)]) (use at len in auto)
  moreover have "parse_protos D data ?h (p_strings P) (length (p_types P)) = Inr (p_protos P)"
    unfolding parse_protos_def by (rule proto_pool.pool_back [OF _ _ assms(1)]) (use at len in \<open>auto simp: concat_rows_total emit_proto_pool_def\<close>)
  moreover have "parse_fields D data ?h (length (p_types P)) (length (p_strings P)) = Inr (p_fields P)"
    unfolding parse_fields_def using at len field_pool.pool_back [OF _ _ assms(1)] by (auto simp: emit_field_pool_def)
  moreover have "parse_methods D data ?h (length (p_types P)) (length (p_protos P)) (length (p_strings P)) = Inr (p_methods P)"
    unfolding parse_methods_def using at len method_pool.pool_back [OF _ _ assms(1)] by (auto simp: emit_method_pool_def)
  moreover have "parse_class_defs D data ?h (length (p_types P)) (length (p_strings P)) = Inr (p_class_defs P)"
    unfolding parse_class_defs_def using at len class_pool.pool_back [OF _ _ assms(1)] by (auto simp: emit_class_def_pool_def)
  moreover obtain tls where "parse_type_lists D data (p_protos P) (length (p_types P)) = Inr tls" "map_of tls \<subseteq>\<^sub>m lookup"
    "\<forall>p \<in> set (p_protos P). parameters_off p = 0 \<or> parameters_off p \<in> dom (map_of tls)"
    using type_lists_back [OF assms(7, 1), of "[]"] len by (auto simp: parse_type_lists_def)
  ultimately show ?thesis using assms(3-5) by (intro exI [of _ tls]) (simp add: parse_pools_def)
qed

end


section \<open>A file with a dangling reference\<close>

text \<open>One string, one type and one class, whose annotation directory is far outside the file.\<close>

definition sample_body :: "byte list" where
  "sample_body = words_to_le [152] @ words_to_le [0]
     @ words_to_le [0, 1, NO_INDEX, 0, NO_INDEX, 0xFFFF0000, 0, 0] @ [1, 0x49, 0]"

definition sample_file_layout :: HeaderLayout where
  "sample_file_layout =
     \<lparr>hl_version = [0x30, 0x33, 0x35], hl_file_size = 155, hl_map_off = 0,
      hl_string_ids_size = 1, hl_string_ids_off = 112, hl_type_ids_size = 1, hl_type_ids_off = 116,
      hl_proto_ids_size = 0, hl_proto_ids_off = 0, hl_field_ids_size = 0, hl_field_ids_off = 0,
      hl_method_ids_size = 0, hl_method_ids_off = 0, hl_class_defs_size = 1, hl_class_defs_off = 120,
      hl_data_size = 0, hl_data_off = 0\<rparr>"

definition sample_class_def :: ClassDefItem where
  "sample_class_def = \<lparr>cd_class_idx = TypeIdx 0, cd_access_flags = 1, superclass_idx = None, interfaces_off = 0,
     source_file_idx = None, annotations_off = 0xFFFF0000, class_data_off = 0, static_values_off = 0\<rparr>"

definition sample_pools :: "DexHeader \<Rightarrow> pools" where
  "sample_pools h = \<lparr>p_header = h, p_strings = [Decoded [0x49] [0x49] 1 True], p_string_offs = [152], p_types = [[0x49]], p_type_idxs = [0],
     p_protos = [], p_type_lists = [], p_fields = [], p_methods = [], p_class_defs = [sample_class_def]\<rparr>"

abbreviation sample_deps :: deps where
  "sample_deps \<equiv> std_deps (\<lambda>_. replicate 20 7)"

lemma sample_pools_at:
  assumes "drop 112 data = sample_body" and "h = layout_header sample_file_layout ck sg"
  shows "pools_at sample_deps data [(1, [0x49])] (sample_pools h)"
proof -
  have len: "length sample_body = 43" by (simp add: sample_body_def)
  have "length data - 112 = 43" using assms(1) len by (metis length_drop)
  then have "at_off data 112 sample_body" using assms(1) len by (simp add: at_off_def)
  then have at: "at_off data 112 (words_to_le [152])" "at_off data 116 (words_to_le [0])"
    "at_off data 120 (words_to_le [0, 1, NO_INDEX, 0, NO_INDEX, 0xFFFF0000, 0, 0])" "at_off data 152 [1, 0x49, 0]"
    unfolding sample_body_def by (simp_all only: at_off_append length_words_to_le) (simp_all add: at_off_append)
  have u: "common_write_uleb128 sample_deps 1 = [1]" by code_simp
  have c: "emit_class_def_pool [sample_class_def] = Inr (words_to_le [0, 1, NO_INDEX, 0, NO_INDEX, 0xFFFF0000, 0, 0])"
    by (simp add: emit_class_def_pool_def concat_rows_def emit_class_row_def sample_class_def_def NO_INDEX_def)
  have k: "class_ok 1 1 sample_class_def" by (simp add: class_ok_def sample_class_def_def validate_def)
  show ?thesis
    using at c k at_off_len [OF at(1)]
    by (simp add: pools_at_def Let_def sample_pools_def assms(2) layout_header_def sample_file_layout_def u
        emit_proto_pool_def emit_field_pool_def emit_method_pool_def concat_rows_def)
qed


lemma sample_file_parses:
  assumes "fits data" and "drop 112 data = sample_body" and "h = layout_header sample_file_layout ck sg"
    and "parse sample_deps data = Inr h" and "verify_checksum sample_deps h data = Inr ()"
  shows "\<exists>f. parse_inner sample_deps Inr data = Some (Inr f) \<and> df_class_defs f = [sample_class_def] \<and> df_annotations f = []"
proof -
  let ?P = "sample_pools h"
  have "check_id_section_overlap h = Inr ()"
    by (simp add: check_id_section_overlap_def section_intervals_def section_interval_def id_sections_def assms(3) layout_header_def
        sample_file_layout_def row_sizes sat64_def)
  then obtain tls where "parse_pools sample_deps Inr data = Inr (?P\<lparr>p_type_lists := tls\<rparr>)" "map_of tls \<subseteq>\<^sub>m Map.empty"
    using std.parse_pools_back [OF assms(1) sample_pools_at [OF assms(2, 3)], of Inr Map.empty] assms(4, 5)
    by (auto simp: sample_pools_def string_entry_def)
  then have "parse_pools sample_deps Inr data = Inr ?P"
    using map_le_antisym [of "map_of tls" Map.empty] by (simp add: sample_pools_def)
  moreover obtain S where S: "parse_subsections sample_deps data ?P = Some S" using std.parse_subsections_total by blast
  have len: "length data \<le> 155" using arg_cong [OF assms(2), of length] by (simp add: sample_body_def)
  have "parse_annotation_directory sample_deps data 0xFFFF0000 = Inl (ScrollRead 0xFFFF0000)"
    using std.pread_u32_out [of data "0xFFFF0000"] len by (simp add: parse_annotation_directory_def Let_def read_u32_def)
  then have "s_annotations S = []"
    using S by (auto simp: parse_subsections_def Let_def Option.bind_eq_Some_conv case_prod_beta sample_pools_def directory_step_def sample_class_def_def)
  moreover have "s_map_entries S = []"
    using S by (auto simp: parse_subsections_def Let_def Option.bind_eq_Some_conv case_prod_beta sample_pools_def assms(3)
        read_map_list_def layout_header_def sample_file_layout_def)
  ultimately show ?thesis using S
    by (simp add: parse_inner_def bindL_def finish_file_def Let_def walk_debug_info_section_full_def walk_annotation_set_section_full_def
        walk_section_def sample_pools_def case_prod_beta)
qed

lemma sample_file:
  "\<exists>out f. finalize_checksums sample_deps (emit_header sample_file_layout @ sample_body) = Inr out
    \<and> parse_inner sample_deps Inr out = Some (Inr f) \<and> df_class_defs f = [sample_class_def] \<and> df_annotations f = []"
proof -
  let ?b = "emit_header sample_file_layout @ sample_body"
  have l: "length (emit_header sample_file_layout) = 112" "length sample_body = 43"
    by (simp_all add: emit_header_length sample_file_layout_def sample_body_def)
  have f: "fits ?b" "hl_version sample_file_layout \<in> set SUPPORTED_VERSIONS" "unat (hl_file_size sample_file_layout) = length ?b"
    "\<And>bs. length (sha1_digest sample_deps bs) = 20"
    using l by (simp_all add: fits_def sample_file_layout_def SUPPORTED_VERSIONS_def std_deps_def)
  obtain out where out: "finalize_checksums sample_deps ?b = Inr out" "drop 32 out = drop 32 ?b"
    "parse sample_deps out = Inr (layout_header sample_file_layout (adler32_slice sample_deps (drop 12 out)) (sha1_digest sample_deps (drop 32 out)))"
    "verify_checksum sample_deps (layout_header sample_file_layout (adler32_slice sample_deps (drop 12 out)) (sha1_digest sample_deps (drop 32 out))) out = Inr ()"
    using std.finalized_header [OF f] by blast
  have "drop 80 (drop 32 out) = drop 80 (drop 32 ?b)" using out(2) by simp
  then have d: "drop 112 out = sample_body" using l by simp
  then have "length out - 112 = 43" using l by (metis length_drop)
  then have "fits out" by (simp add: fits_def)
  from sample_file_parses [OF this d refl out(3, 4)] out(1) show ?thesis by blast
qed


theorem parse_file_typed_witness:
  "\<exists>out f. finalize_checksums sample_deps (emit_header sample_file_layout @ sample_body) = Inr out
    \<and> parse_inner sample_deps Inr out = Some (Inr f) \<and> df_class_defs f = [sample_class_def] \<and> file_typed f"
  using sample_file parse_file_typed [OF std.dex_deps_axioms] by blast

theorem no_silent_drop_witness:
  "\<exists>out f. finalize_checksums sample_deps (emit_header sample_file_layout @ sample_body) = Inr out
    \<and> parse_inner sample_deps Inr out = Some (Inr f) \<and> nothing_dropped f
    \<and> failure FAnnotationDirectory 0xFFFF0000 \<in> set (df_parse_errors f)"
proof -
  obtain out f where f: "finalize_checksums sample_deps (emit_header sample_file_layout @ sample_body) = Inr out"
    "parse_inner sample_deps Inr out = Some (Inr f)" "df_class_defs f = [sample_class_def]" "df_annotations f = []"
    using sample_file by blast
  have "nothing_dropped f" by (rule no_silent_drop [OF f(2)])
  then show ?thesis using f
    by (auto simp: nothing_dropped_def class_resolved_def resolved_def sample_class_def_def)
qed

end
