(* ===== verification/Dex_Emit_File.thy ===== *)
theory Dex_Emit_File
  imports Dex_File_Facts
begin

text \<open>
  The canonical path of \<open>emit_dex_inner\<close> of \<open>src/src/emit_dex.rs\<close>: all sections are laid out one after the other,
  references are rewritten to the new offsets, and the header is finalized. The path that keeps the layout of
  the input is not modelled.
\<close>

unbundle bit_operations_syntax

section \<open>Configuration and observations\<close>

record EmitConfig =
  permit_partial_ir :: bool
  preserve_map_list_order :: bool
  preserve_encoded_value_width :: bool
  preserve_data_section_layout :: bool
  preserve_input_checksums :: bool

datatype AlignmentSection = ACodeItem | AAnnotationSet | AAnnotationSetRefList | AAnnotationDirectory | ATypeList | AMapList

datatype CanonicalTransform =
    DebugInfoStripped | StringPoolReordered | AlignmentPaddingInserted AlignmentSection u32 | MapListReordered
  | EncodedValueReencoded u32 | DataSectionLayoutReordered | InputChecksumNormalized

definition HEADER_ITEM :: u16 where "HEADER_ITEM = 0x0000"
definition STRING_ID_ITEM :: u16 where "STRING_ID_ITEM = 0x0001"
definition TYPE_ID_ITEM :: u16 where "TYPE_ID_ITEM = 0x0002"
definition PROTO_ID_ITEM :: u16 where "PROTO_ID_ITEM = 0x0003"
definition FIELD_ID_ITEM :: u16 where "FIELD_ID_ITEM = 0x0004"
definition METHOD_ID_ITEM :: u16 where "METHOD_ID_ITEM = 0x0005"
definition CLASS_DEF_ITEM :: u16 where "CLASS_DEF_ITEM = 0x0006"
definition CALL_SITE_ID_ITEM :: u16 where "CALL_SITE_ID_ITEM = 0x0007"
definition METHOD_HANDLE_ITEM :: u16 where "METHOD_HANDLE_ITEM = 0x0008"
definition MAP_LIST :: u16 where "MAP_LIST = 0x1000"
definition TYPE_LIST :: u16 where "TYPE_LIST = 0x1001"
definition ANNOTATION_SET_REF_LIST :: u16 where "ANNOTATION_SET_REF_LIST = 0x1002"
definition CLASS_DATA_ITEM :: u16 where "CLASS_DATA_ITEM = 0x2000"
definition CODE_ITEM :: u16 where "CODE_ITEM = 0x2001"
definition STRING_DATA_ITEM :: u16 where "STRING_DATA_ITEM = 0x2002"
definition ANNOTATION_ITEM :: u16 where "ANNOTATION_ITEM = 0x2004"
definition ENCODED_ARRAY_ITEM :: u16 where "ENCODED_ARRAY_ITEM = 0x2005"
definition ANNOTATION_DIRECTORY_ITEM :: u16 where "ANNOTATION_DIRECTORY_ITEM = 0x2006"

lemmas item_codes = HEADER_ITEM_def STRING_ID_ITEM_def TYPE_ID_ITEM_def PROTO_ID_ITEM_def FIELD_ID_ITEM_def METHOD_ID_ITEM_def
  CLASS_DEF_ITEM_def CALL_SITE_ID_ITEM_def METHOD_HANDLE_ITEM_def MAP_LIST_def TYPE_LIST_def ANNOTATION_SET_REF_LIST_def
  CLASS_DATA_ITEM_def CODE_ITEM_def STRING_DATA_ITEM_def ANNOTATION_ITEM_def ENCODED_ARRAY_ITEM_def ANNOTATION_DIRECTORY_ITEM_def
  DEBUG_INFO_ITEM_def ANNOTATION_SET_ITEM_def

fun map_type_code :: "AlignmentSection \<Rightarrow> u16 option" where
  "map_type_code ACodeItem = Some 0x2001"
| "map_type_code AAnnotationSet = Some 0x1003"
| "map_type_code AAnnotationSetRefList = Some 0x1002"
| "map_type_code AAnnotationDirectory = Some 0x2006"
| "map_type_code ATypeList = Some 0x1001"
| "map_type_code AMapList = Some 0x1000"

definition input_section_offset :: "DexFile \<Rightarrow> AlignmentSection \<Rightarrow> u32 option" where
  "input_section_offset dex sec =
     Option.bind (map_type_code sec) (\<lambda>t. map_option me_offset (find (\<lambda>e. me_type_code e = t) (df_map_entries dex)))"

record MapItem =
  it_type_code :: u16
  it_size :: u32
  it_offset :: u32

text \<open>A hash map from type codes: a later item with the same code replaces an earlier one.\<close>

definition by_type :: "MapItem list \<Rightarrow> MapItem list" where
  "by_type its = foldl (\<lambda>m it. filter (\<lambda>x. it_type_code x \<noteq> it_type_code it) m @ [it]) [] its"

fun pick_by_type :: "MapItem list \<Rightarrow> MapEntry list \<Rightarrow> MapItem list \<times> MapItem list" where
  "pick_by_type m [] = ([], m)"
| "pick_by_type m (e # es) =
     (case find (\<lambda>x. it_type_code x = me_type_code e) m of
        None \<Rightarrow> pick_by_type m es
      | Some it \<Rightarrow> (case pick_by_type (filter (\<lambda>x. it_type_code x \<noteq> me_type_code e) m) es of (picked, rest) \<Rightarrow> (it # picked, rest)))"

text \<open>What the input did not list comes out in the iteration order of the hash map, a parameter.\<close>

definition reorder_map_items_to_input ::
  "(MapItem list \<Rightarrow> MapItem list) \<Rightarrow> MapItem list \<Rightarrow> MapEntry list \<Rightarrow> MapItem list" where
  "reorder_map_items_to_input hash_order its entries =
     (case pick_by_type (by_type its) entries of (picked, rest) \<Rightarrow> picked @ hash_order rest)"

definition map_list_order_diverged :: "MapItem list \<Rightarrow> MapEntry list \<Rightarrow> bool" where
  "map_list_order_diverged its entries =
     (let emit_types = map it_type_code its; input_types = map me_type_code entries;
          emit_filtered = filter (\<lambda>t. t \<in> set input_types) emit_types;
          input_filtered = filter (\<lambda>t. t \<in> set emit_types) input_types
      in if emit_filtered = [] then False else emit_filtered \<noteq> input_filtered)"

definition canonical_order :: "u16 list" where
  "canonical_order = [STRING_DATA_ITEM, CODE_ITEM, DEBUG_INFO_ITEM, CLASS_DATA_ITEM, ANNOTATION_ITEM, ANNOTATION_SET_ITEM,
     ANNOTATION_SET_REF_LIST, ANNOTATION_DIRECTORY_ITEM, ENCODED_ARRAY_ITEM, TYPE_LIST, MAP_LIST]"

definition data_section_order_diverges_from_emit :: "DexFile \<Rightarrow> bool" where
  "data_section_order_diverges_from_emit dex =
     (let input_data_order = filter (\<lambda>t. t \<in> set canonical_order) (map me_type_code (sort_key me_offset (df_map_entries dex)))
      in input_data_order \<noteq> filter (\<lambda>t. t \<in> set input_data_order) canonical_order)"

section \<open>The map list\<close>

definition emit_map_item :: "MapItem \<Rightarrow> byte list" where
  "emit_map_item m = u16_to_le (it_type_code m) @ u16_to_le 0 @ u32_to_le (it_size m) @ u32_to_le (it_offset m)"

definition emit_map_list :: "MapItem list \<Rightarrow> bool \<Rightarrow> DexEmitError + byte list" where
  "emit_map_list its permit_unsorted =
     (if \<not> length its < 2 ^ 32 then Inl (SizeOverflow ''map_list'' ''map_item count exceeds u32'')
      else if \<not> permit_unsorted \<and> \<not> successively (\<lambda>a b. it_offset a < it_offset b) its
      then Inl (UnrepresentableIR ''map_list: items must be strictly ascending by offset (DEX 7.18); duplicate or descending offset rejected'')
      else Inr (u32_to_le (of_nat (length its)) @ concat (map emit_map_item its)))"

definition emit_call_site_id_section :: "u32 list \<Rightarrow> DexEmitError + byte list" where
  "emit_call_site_id_section offs = Inr (words_to_le offs)"

definition emit_method_handle_section :: "MethodHandleItem list \<Rightarrow> DexEmitError + byte list" where
  "emit_method_handle_section handles =
     Inr (concat (map (\<lambda>mh. units_to_le [mh_kind mh, 0, mh_field_or_method_id mh, 0]) handles))"

section \<open>Offsets\<close>

definition align_up_u32 :: "u32 \<Rightarrow> u32 \<Rightarrow> u32 option" where
  "align_up_u32 v align =
     (let mask = align - 1 in if unat v + unat mask < 2 ^ 32 then Some ((v + mask) AND NOT mask) else None)"

definition sat_sub_u32 :: "u32 \<Rightarrow> u32 \<Rightarrow> u32" where
  "sat_sub_u32 a b = (if b \<le> a then a - b else 0)"

definition advance :: "string \<Rightarrow> string \<Rightarrow> u32 \<Rightarrow> nat \<Rightarrow> DexEmitError + u32" where
  "advance sec ctx off n = (if n < 2 ^ 32 then Inr (sat_add off n) else Inl (OffsetOverflow sec ctx))"

definition advance_rows :: "string \<Rightarrow> string \<Rightarrow> u32 \<Rightarrow> nat \<Rightarrow> nat \<Rightarrow> DexEmitError + u32" where
  "advance_rows sec ctx off count stride =
     (if count < 2 ^ 32 \<and> count * stride < 2 ^ 32 then Inr (sat_add off (count * stride)) else Inl (OffsetOverflow sec ctx))"

definition off_if :: "bool \<Rightarrow> u32 \<Rightarrow> u32" where
  "off_if present off = (if present then off else 0)"

text \<open>The next multiple of 4, the padding before it, and the observation when the section moved.\<close>

definition align_section ::
  "DexFile \<Rightarrow> AlignmentSection \<Rightarrow> string \<Rightarrow> string \<Rightarrow> u32 \<Rightarrow> DexEmitError + (u32 \<times> u32 \<times> CanonicalTransform list)" where
  "align_section dex s sec ctx off =
     bindE (ok_or (align_up_u32 off 4) (OffsetOverflow sec ctx)) (\<lambda>base.
     let pad = sat_sub_u32 base off
     in Inr (base, pad, if 0 < pad \<and> input_section_offset dex s \<noteq> Some base then [AlignmentPaddingInserted s pad] else []))"

section \<open>Pools and leaf sections\<close>

text \<open>The index of a string by its lossy view; a later string with the same view replaces an earlier one.\<close>

definition string_to_idx :: "DexString list \<Rightarrow> rstring \<Rightarrow> StringIdx option" where
  "string_to_idx strs desc =
     map_of (rev (map (\<lambda>(i, s). (as_str_lossy s, StringIdx (of_nat i))) (enumerate 0 strs))) desc"

definition resolve_type_idxs :: "DexFile \<Rightarrow> DexEmitError + StringIdx list" where
  "resolve_type_idxs dex =
     mapE (\<lambda>desc. ok_or (string_to_idx (df_strings dex) desc)
            (UnrepresentableIR ''emit_dex: type_descriptor not found in strings pool (IR is internally inconsistent)''))
       (df_type_descriptors dex)"

definition from_verified :: "'a :: linorder list \<Rightarrow> nat + 'a list" where
  "from_verified xs =
     (case find (\<lambda>i. xs ! i < xs ! (i - 1)) [1..<length xs] of Some i \<Rightarrow> Inl i | None \<Rightarrow> Inr xs)"

record leaf_blobs =
  lb_type_lists :: "byte list"
  lb_type_list_remap :: remap
  lb_code :: "byte list"
  lb_code_remap :: remap
  lb_debug :: "byte list"
  lb_debug_remap :: remap
  lb_string_ids :: "byte list"
  lb_string_data :: "byte list"
  lb_types :: "byte list"
  lb_fields :: "byte list"
  lb_methods :: "byte list"

definition emit_leaf_blobs :: "deps \<Rightarrow> DexFile \<Rightarrow> DexEmitError + leaf_blobs" where
  "emit_leaf_blobs D dex =
     bindE (resolve_type_idxs dex) (\<lambda>type_idxs.
     bindE (emit_type_list_section (df_type_lists dex)) (\<lambda>(tl_bytes, tl_remap).
     bindE (emit_code_item_section D (df_code_items dex)) (\<lambda>(ci_bytes, ci_remap).
     bindE (emit_debug_info_section (df_debug_info_raw_bytes dex)) (\<lambda>(di_bytes, di_remap).
     let (sid, sdata) = emit_string_pool D (map (\<lambda>s. (declared_chars s, raw_bytes s)) (df_strings dex)) in
     bindE (case from_verified type_idxs of
              Inr idxs \<Rightarrow> Inr idxs
            | Inl _ \<Rightarrow> Inl (UnrepresentableIR
                ''dex.type_descriptors not in canonical order; parser accepts; emit rejects to avoid silent index miscompile'')) (\<lambda>idxs.
     bindE (emit_field_pool (df_fields dex)) (\<lambda>fb.
     bindE (emit_method_pool (df_methods dex)) (\<lambda>mb.
     Inr \<lparr>lb_type_lists = tl_bytes, lb_type_list_remap = tl_remap, lb_code = ci_bytes, lb_code_remap = ci_remap,
          lb_debug = di_bytes, lb_debug_remap = di_remap, lb_string_ids = sid, lb_string_data = sdata,
          lb_types = emit_type_pool idxs, lb_fields = fb, lb_methods = mb\<rparr>)))))))"

section \<open>The identifier sections\<close>

record id_layout =
  il_string_ids_off :: u32
  il_type_ids_off :: u32
  il_proto_ids_off :: u32
  il_field_ids_off :: u32
  il_method_ids_off :: u32
  il_class_defs_off :: u32
  il_call_site_ids_off :: u32
  il_method_handles_off :: u32
  il_data_off :: u32

definition layout_ids :: "DexFile \<Rightarrow> leaf_blobs \<Rightarrow> DexEmitError + id_layout" where
  "layout_ids dex B =
     (let o0 = DEX_HEADER_SIZE in
     bindE (advance ''string_ids'' ''string_ids section exceeds u32 byte offset'' o0 (length (lb_string_ids B))) (\<lambda>o1.
     bindE (advance ''type_ids'' ''type_ids offset overflow'' o1 (length (lb_types B))) (\<lambda>o2.
     bindE (advance_rows ''proto_ids'' ''proto_ids byte size exceeds u32'' o2 (length (df_protos dex)) 12) (\<lambda>o3.
     bindE (advance ''field_ids'' ''field_ids offset overflow'' o3 (length (lb_fields B))) (\<lambda>o4.
     bindE (advance ''method_ids'' ''method_ids offset overflow'' o4 (length (lb_methods B))) (\<lambda>o5.
     bindE (advance_rows ''class_defs'' ''class_defs byte size exceeds u32'' o5 (length (df_class_defs dex)) 32) (\<lambda>o6.
     bindE (advance_rows ''call_site_ids'' ''call_site_ids byte size exceeds u32'' o6 (length (df_call_site_ids dex)) 4) (\<lambda>o7.
     bindE (advance_rows ''method_handles'' ''method_handles byte size exceeds u32'' o7 (length (df_method_handles dex)) 8) (\<lambda>o8.
     Inr \<lparr>il_string_ids_off = off_if (lb_string_ids B \<noteq> []) o0, il_type_ids_off = off_if (lb_types B \<noteq> []) o1,
          il_proto_ids_off = off_if (df_protos dex \<noteq> []) o2, il_field_ids_off = off_if (lb_fields B \<noteq> []) o3,
          il_method_ids_off = off_if (lb_methods B \<noteq> []) o4, il_class_defs_off = off_if (df_class_defs dex \<noteq> []) o5,
          il_call_site_ids_off = off_if (df_call_site_ids dex \<noteq> []) o6, il_method_handles_off = off_if (df_method_handles dex \<noteq> []) o7,
          il_data_off = o8\<rparr>)))))))))"

section \<open>The data section\<close>

definition new_debug_off :: "u32 \<Rightarrow> remap \<Rightarrow> CodeItem \<Rightarrow> u32" where
  "new_debug_off debug_base debug_remap ci =
     (if debug_info_off ci = 0 then 0
      else (case map_of debug_remap (debug_info_off ci) of
              Some local \<Rightarrow> if unat debug_base + unat local < 2 ^ 32 then debug_base + local else 0
            | None \<Rightarrow> 0))"

definition patch_debug_off :: "DexFile \<Rightarrow> u32 \<Rightarrow> remap \<Rightarrow> byte list \<Rightarrow> u32 \<times> u32 \<Rightarrow> DexEmitError + byte list" where
  "patch_debug_off dex debug_base debug_remap blob entry =
     (case entry of (orig_off, local) \<Rightarrow>
        (case map_of (df_code_items dex) orig_off of
           None \<Rightarrow> Inr blob
         | Some ci \<Rightarrow>
             let dst_start = sat64 (unat local + 8); dst_end = sat64 (dst_start + 4)
             in if length blob < dst_end
                then Inl (InvariantViolated ''code_item blob shorter than expected container header; debug_info_off rewrite OOB'')
                else Inr (take dst_start blob @ u32_to_le (new_debug_off debug_base debug_remap ci) @ drop dst_end blob)))"

record data_layout =
  dl_code_base :: u32
  dl_code_pad :: u32
  dl_code :: "byte list"
  dl_debug_base :: u32
  dl_class_base :: u32
  dl_class :: "byte list"
  dl_class_remap :: remap
  dl_item_base :: u32
  dl_item :: "byte list"
  dl_set_base :: u32
  dl_set_pad :: u32
  dl_set :: "byte list"
  dl_ref_base :: u32
  dl_ref_pad :: u32
  dl_ref :: "byte list"
  dl_dir_base :: u32
  dl_dir_pad :: u32
  dl_dir :: "byte list"
  dl_dir_remap :: remap
  dl_array_base :: u32
  dl_array :: "byte list"
  dl_array_remap :: remap
  dl_call_sites :: "u32 list"
  dl_list_base :: u32
  dl_list_pad :: u32
  dl_map_off :: u32
  dl_map_pad :: u32
  dl_transforms :: "CanonicalTransform list"

definition layout_data :: "deps \<Rightarrow> DexFile \<Rightarrow> EmitConfig \<Rightarrow> leaf_blobs \<Rightarrow> u32 \<Rightarrow> DexEmitError + data_layout" where
  "layout_data D dex config B data_start =
     bindE (advance ''string_data'' ''string_data offset overflow'' data_start (length (lb_string_data B))) (\<lambda>a0.
     bindE (align_section dex ACodeItem ''code_item_section'' ''alignment padding overflowed u32'' a0) (\<lambda>(code_base, code_pad, t1).
     bindE (advance ''code_item_section'' ''code_item_section offset overflow'' code_base (length (lb_code B))) (\<lambda>debug_base.
     bindE (advance ''debug_info_section'' ''debug_info_section offset overflow'' debug_base (length (lb_debug B))) (\<lambda>class_base.
     bindE (foldE (patch_debug_off dex debug_base (lb_debug_remap B)) (lb_code B) (lb_code_remap B)) (\<lambda>code.
     bindE (emit_class_data_section D (df_class_datas dex) (lb_code_remap B) code_base) (\<lambda>(class, class_remap).
     bindE (advance ''class_data_section'' ''class_data_section offset overflow'' class_base (length class)) (\<lambda>item_base.
     bindE (emit_annotation_item_section D (df_annotation_items dex)) (\<lambda>(item, item_remap).
     bindE (advance ''annotation_item_section'' ''annotation_item_section offset overflow'' item_base (length item)) (\<lambda>a1.
     bindE (align_section dex AAnnotationSet ''annotation_set_section'' ''alignment padding overflowed u32'' a1) (\<lambda>(set_base, set_pad, t2).
     bindE (emit_annotation_set_section (df_annotation_sets dex) item_base item_remap) (\<lambda>(sets, set_remap).
     bindE (advance ''annotation_set_section'' ''annotation_set_section offset overflow'' set_base (length sets)) (\<lambda>a2.
     bindE (align_section dex AAnnotationSetRefList ''annotation_set_ref_list_section'' ''alignment padding overflowed u32'' a2) (\<lambda>(ref_base, ref_pad, t3).
     bindE (emit_annotation_set_ref_list_section (df_annotation_set_ref_lists dex) set_base set_remap) (\<lambda>(refs, ref_remap).
     bindE (advance ''annotation_set_ref_list_section'' ''annotation_set_ref_list_section offset overflow'' ref_base (length refs)) (\<lambda>a3.
     bindE (align_section dex AAnnotationDirectory ''annotation_directory_section'' ''alignment padding overflowed u32'' a3) (\<lambda>(dir_base, dir_pad, t4).
     bindE (emit_annotation_directory_section (df_annotations dex) set_base set_remap ref_base ref_remap) (\<lambda>(dirs, dir_remap).
     bindE (advance ''annotation_directory_section'' ''annotation_directory_section offset overflow'' dir_base (length dirs)) (\<lambda>array_base.
     bindE (emit_encoded_array_section_with_widths D (df_encoded_arrays dex)
              (if preserve_encoded_value_width config then Some (df_encoded_array_widths dex) else None)) (\<lambda>(arrays, array_remap).
     bindE (advance ''encoded_array_section'' ''encoded_array_section offset overflow'' array_base (length arrays)) (\<lambda>a4.
     bindE (mapE (resolve_off ''call_site_id references encoded_array not in dex.encoded_arrays'' ''call_site_id'' ''absolute offset overflow''
                    array_base array_remap) (df_call_site_ids dex)) (\<lambda>call_sites.
     bindE (align_section dex ATypeList ''type_list_section'' ''alignment padding overflowed u32'' a4) (\<lambda>(list_base, list_pad, t5).
     bindE (advance ''type_list_section'' ''type_list_section offset overflow'' list_base (length (lb_type_lists B))) (\<lambda>a5.
     bindE (align_section dex AMapList ''map_list'' ''map_list alignment overflow'' a5) (\<lambda>(map_offset, map_pad, t6).
     Inr \<lparr>dl_code_base = code_base, dl_code_pad = code_pad, dl_code = code, dl_debug_base = debug_base, dl_class_base = class_base,
          dl_class = class, dl_class_remap = class_remap, dl_item_base = item_base, dl_item = item,
          dl_set_base = set_base, dl_set_pad = set_pad, dl_set = sets, dl_ref_base = ref_base, dl_ref_pad = ref_pad, dl_ref = refs,
          dl_dir_base = dir_base, dl_dir_pad = dir_pad, dl_dir = dirs, dl_dir_remap = dir_remap,
          dl_array_base = array_base, dl_array = arrays, dl_array_remap = array_remap, dl_call_sites = call_sites,
          dl_list_base = list_base, dl_list_pad = list_pad, dl_map_off = map_offset, dl_map_pad = map_pad,
          dl_transforms = t1 @ t2 @ t3 @ t4 @ t5 @ t6\<rparr>))))))))))))))))))))))))"

section \<open>The map items\<close>

definition item_if :: "nat \<Rightarrow> u16 \<Rightarrow> u32 \<Rightarrow> MapItem list" where
  "item_if n code off = (if 0 < n then [\<lparr>it_type_code = code, it_size = of_nat n, it_offset = off\<rparr>] else [])"

definition build_map_items :: "DexFile \<Rightarrow> leaf_blobs \<Rightarrow> id_layout \<Rightarrow> data_layout \<Rightarrow> MapItem list" where
  "build_map_items dex B I L =
     [\<lparr>it_type_code = HEADER_ITEM, it_size = 1, it_offset = 0\<rparr>]
     @ item_if (length (lb_string_ids B) div 4) STRING_ID_ITEM (il_string_ids_off I)
     @ item_if (length (lb_types B) div 4) TYPE_ID_ITEM (il_type_ids_off I)
     @ item_if (length (df_protos dex)) PROTO_ID_ITEM (il_proto_ids_off I)
     @ item_if (length (lb_fields B) div 8) FIELD_ID_ITEM (il_field_ids_off I)
     @ item_if (length (lb_methods B) div 8) METHOD_ID_ITEM (il_method_ids_off I)
     @ item_if (length (df_class_defs dex)) CLASS_DEF_ITEM (il_class_defs_off I)
     @ item_if (length (df_call_site_ids dex)) CALL_SITE_ID_ITEM (il_call_site_ids_off I)
     @ item_if (length (df_method_handles dex)) METHOD_HANDLE_ITEM (il_method_handles_off I)
     @ item_if (length (df_strings dex)) STRING_DATA_ITEM (il_data_off I)
     @ item_if (length (df_code_items dex)) CODE_ITEM (dl_code_base L)
     @ item_if (length (df_class_datas dex)) CLASS_DATA_ITEM (dl_class_base L)
     @ item_if (length (df_annotation_items dex)) ANNOTATION_ITEM (dl_item_base L)
     @ item_if (length (df_annotation_sets dex)) ANNOTATION_SET_ITEM (dl_set_base L)
     @ item_if (length (df_annotation_set_ref_lists dex)) ANNOTATION_SET_REF_LIST (dl_ref_base L)
     @ item_if (length (df_annotations dex)) ANNOTATION_DIRECTORY_ITEM (dl_dir_base L)
     @ item_if (length (df_encoded_arrays dex)) ENCODED_ARRAY_ITEM (dl_array_base L)
     @ item_if (length (df_debug_info_raw_bytes dex)) DEBUG_INFO_ITEM (dl_debug_base L)
     @ item_if (length (df_type_lists dex)) TYPE_LIST (dl_list_base L)
     @ [\<lparr>it_type_code = MAP_LIST, it_size = 1, it_offset = dl_map_off L\<rparr>]"

definition order_map_items ::
  "(MapItem list \<Rightarrow> MapItem list) \<Rightarrow> DexFile \<Rightarrow> EmitConfig \<Rightarrow> MapItem list \<Rightarrow> MapItem list \<times> CanonicalTransform list" where
  "order_map_items hash_order dex config its =
     (if preserve_map_list_order config then (reorder_map_items_to_input hash_order its (df_map_entries dex), [])
      else let sorted_items = sort_key it_offset its
           in (sorted_items, if map_list_order_diverged sorted_items (df_map_entries dex) then [MapListReordered] else []))"

section \<open>Rewritten rows\<close>

definition remap_proto :: "u32 \<Rightarrow> remap \<Rightarrow> ProtoIdItem \<Rightarrow> DexEmitError + ProtoIdItem" where
  "remap_proto list_base list_remap p =
     bindE (resolve_off ''proto.parameters_off references type_list not in DexFile.type_lists'' ''proto.parameters_off''
              ''remapped type_list offset exceeds u32'' list_base list_remap (parameters_off p)) (\<lambda>off.
     Inr (p\<lparr>parameters_off := off\<rparr>))"

definition remap_class :: "remap \<Rightarrow> data_layout \<Rightarrow> ClassDefItem \<Rightarrow> DexEmitError + ClassDefItem" where
  "remap_class list_remap L c =
     bindE (resolve_off ''class.interfaces_off references type_list not in DexFile.type_lists'' ''class.interfaces_off''
              ''remapped interfaces offset exceeds u32'' (dl_list_base L) list_remap (interfaces_off c)) (\<lambda>ifaces.
     bindE (resolve_off ''class.class_data_off references class_data not in DexFile.class_datas'' ''class.class_data_off''
              ''remapped class_data offset exceeds u32'' (dl_class_base L) (dl_class_remap L) (class_data_off c)) (\<lambda>cdata.
     bindE (resolve_off ''class.annotations_off references annotation_directory not in DexFile.annotations'' ''class.annotations_off''
              ''remapped annotation_directory offset exceeds u32'' (dl_dir_base L) (dl_dir_remap L) (annotations_off c)) (\<lambda>annots.
     bindE (resolve_off ''class.static_values_off references encoded_array not in DexFile.encoded_arrays'' ''class.static_values_off''
              ''remapped encoded_array offset exceeds u32'' (dl_array_base L) (dl_array_remap L) (static_values_off c)) (\<lambda>statics.
     Inr (c\<lparr>interfaces_off := ifaces, annotations_off := annots, class_data_off := cdata, static_values_off := statics\<rparr>)))))"

fun lift_string_ids :: "u32 \<Rightarrow> byte list \<Rightarrow> byte list" where
  "lift_string_ids base (a # b # c # d # rest) = u32_to_le (sat_add base (unat (u32_of_le a b c d))) @ lift_string_ids base rest"
| "lift_string_ids base _ = []"

definition header_count :: "string \<Rightarrow> nat \<Rightarrow> DexEmitError + u32" where
  "header_count ctx n = (if n < 2 ^ 32 then Inr (of_nat n) else Inl (SizeOverflow ''header'' ctx))"

definition make_header_layout :: "DexFile \<Rightarrow> id_layout \<Rightarrow> u32 \<Rightarrow> u32 \<Rightarrow> DexEmitError + HeaderLayout" where
  "make_header_layout dex I fsize map_offset =
     bindE (header_count ''string_ids_size exceeds u32'' (length (df_strings dex))) (\<lambda>n_strings.
     bindE (header_count ''type_ids_size exceeds u32'' (length (df_type_descriptors dex))) (\<lambda>n_types.
     bindE (header_count ''proto_ids_size exceeds u32'' (length (df_protos dex))) (\<lambda>n_protos.
     bindE (header_count ''field_ids_size exceeds u32'' (length (df_fields dex))) (\<lambda>n_fields.
     bindE (header_count ''method_ids_size exceeds u32'' (length (df_methods dex))) (\<lambda>n_methods.
     bindE (header_count ''class_defs_size exceeds u32'' (length (df_class_defs dex))) (\<lambda>n_classes.
     Inr \<lparr>hl_version = take 3 (drop 4 (magic (df_header dex))), hl_file_size = fsize, hl_map_off = map_offset,
          hl_string_ids_size = n_strings, hl_string_ids_off = il_string_ids_off I,
          hl_type_ids_size = n_types, hl_type_ids_off = il_type_ids_off I,
          hl_proto_ids_size = n_protos, hl_proto_ids_off = il_proto_ids_off I,
          hl_field_ids_size = n_fields, hl_field_ids_off = il_field_ids_off I,
          hl_method_ids_size = n_methods, hl_method_ids_off = il_method_ids_off I,
          hl_class_defs_size = n_classes, hl_class_defs_off = il_class_defs_off I,
          hl_data_size = sat_sub_u32 fsize (il_data_off I), hl_data_off = il_data_off I\<rparr>))))))"

definition apply_preserve_input_checksums :: "byte list \<Rightarrow> DexFile \<Rightarrow> EmitConfig \<Rightarrow> DexEmitError + byte list" where
  "apply_preserve_input_checksums out dex config =
     (if \<not> preserve_input_checksums config then Inr out
      else if length out < 32 then Inl (OffsetOverflow ''header'' ''preserve_input_checksums: output shorter than 32 bytes'')
      else Inr (take 8 out @ u32_to_le (checksum (df_header dex)) @ signature (df_header dex) @ drop 32 out))"

section \<open>The emitter\<close>

text \<open>The gate on dropped subsections. A failure is reported with the name of its kind.\<close>

fun kind_name :: "ParseFailureKind \<Rightarrow> string" where
  "kind_name FAnnotationDirectory = ''AnnotationDirectory''"
| "kind_name FAnnotationSet = ''AnnotationSet''"
| "kind_name FAnnotationSetRefList = ''AnnotationSetRefList''"
| "kind_name FAnnotationItem = ''AnnotationItem''"
| "kind_name FEncodedArray = ''EncodedArray''"
| "kind_name FClassData = ''ClassData''"
| "kind_name FCodeItem = ''CodeItem''"
| "kind_name FDebugInfo = ''DebugInfo''"
| "kind_name FInterfaces = ''Interfaces''"
| "kind_name FMapList = ''MapList''"
| "kind_name _ = ''''"

definition partial_ir_gate :: "DexFile \<Rightarrow> EmitConfig \<Rightarrow> DexEmitError + unit" where
  "partial_ir_gate dex config =
     (if permit_partial_ir config then Inr ()
      else (case filter (\<lambda>f. is_completeness (pf_kind f)) (df_parse_errors dex) of
              [] \<Rightarrow> Inr ()
            | f # fs \<Rightarrow> Inl (PartialIR (length (f # fs)) (kind_name (pf_kind f)) (pf_offset f))))"

definition assemble_file ::
  "leaf_blobs \<Rightarrow> id_layout \<Rightarrow> data_layout \<Rightarrow> byte list \<Rightarrow> byte list \<Rightarrow> byte list \<Rightarrow> byte list \<Rightarrow> byte list \<Rightarrow> byte list \<Rightarrow> byte list" where
  "assemble_file B I L hdr protos classes call_sites handles map_list =
     hdr @ lift_string_ids (il_data_off I) (lb_string_ids B) @ lb_types B @ protos @ lb_fields B @ lb_methods B @ classes
     @ call_sites @ handles @ lb_string_data B @ replicate (unat (dl_code_pad L)) 0 @ dl_code L @ lb_debug B @ dl_class L @ dl_item L
     @ replicate (unat (dl_set_pad L)) 0 @ dl_set L @ replicate (unat (dl_ref_pad L)) 0 @ dl_ref L
     @ replicate (unat (dl_dir_pad L)) 0 @ dl_dir L @ dl_array L @ replicate (unat (dl_list_pad L)) 0 @ lb_type_lists B
     @ replicate (unat (dl_map_pad L)) 0 @ map_list"

definition emit_canonical ::
  "deps \<Rightarrow> (MapItem list \<Rightarrow> MapItem list) \<Rightarrow> DexFile \<Rightarrow> EmitConfig \<Rightarrow> DexEmitError + (byte list \<times> CanonicalTransform list)" where
  "emit_canonical D hash_order dex config =
     bindE (partial_ir_gate dex config) (\<lambda>_.
     bindE (emit_leaf_blobs D dex) (\<lambda>B.
     bindE (layout_ids dex B) (\<lambda>I.
     bindE (layout_data D dex config B (il_data_off I)) (\<lambda>L.
     let (its, t_map) = order_map_items hash_order dex config (build_map_items dex B I L);
         t_data = (if data_section_order_diverges_from_emit dex then [DataSectionLayoutReordered] else []) in
     bindE (emit_map_list its (preserve_map_list_order config)) (\<lambda>map_list.
     bindE (advance ''map_list'' ''map_list offset overflow'' (dl_map_off L) (length map_list)) (\<lambda>fsize.
     bindE (mapE (remap_proto (dl_list_base L) (lb_type_list_remap B)) (df_protos dex)) (\<lambda>protos.
     bindE (mapE (remap_class (lb_type_list_remap B) L) (df_class_defs dex)) (\<lambda>classes.
     bindE (emit_class_def_pool classes) (\<lambda>class_items.
     bindE (emit_call_site_id_section (dl_call_sites L)) (\<lambda>call_sites.
     bindE (emit_method_handle_section (df_method_handles dex)) (\<lambda>handles.
     bindE (make_header_layout dex I fsize (dl_map_off L)) (\<lambda>H.
     let out = assemble_file B I L (emit_header H) (emit_proto_pool protos) class_items call_sites handles map_list in
     if length out \<noteq> unat fsize
     then Inl (InvariantViolated ''emit_dex layout arithmetic disagrees with concatenated buffer length'')
     else bindE (finalize_checksums D out) (\<lambda>out1.
          bindE (apply_preserve_input_checksums out1 dex config) (\<lambda>out2.
          Inr (out2, dl_transforms L @ t_map @ t_data)))))))))))))))"

end
