(* ===== verification/Dex_Emit_Layout.thy ===== *)
theory Dex_Emit_Layout
  imports Dex_Emit_File
begin

text \<open>
  The layout arithmetic of the canonical emitter. It uses saturating additions; whenever a file is returned, no
  addition saturated and every section lies at its base offset.
\<close>

section \<open>Offset arithmetic\<close>

lemma sat_add_le: "unat (sat_add a b) \<le> unat a + b"
proof -
  have "unat (sat_add a b) = min (unat a + b) (2 ^ 32 - 1)"
    unfolding sat_add_def by (rule unat_of_nat_u32) (simp add: min_def)
  then show ?thesis by simp
qed

lemma advance_le: "advance sec ctx off n = Inr off' \<Longrightarrow> unat off' \<le> unat off + n"
  using sat_add_le by (auto simp: advance_def split: if_splits)

lemma advance_rows_le: "advance_rows sec ctx off count stride = Inr off' \<Longrightarrow> unat off' \<le> unat off + count * stride"
  using sat_add_le by (auto simp: advance_rows_def split: if_splits)

lemma and_not_mask: "(x :: u32) AND NOT (mask n) = push_bit n (drop_bit n x)"
  by (rule bit_word_eqI) (auto simp: bit_simps)

lemma align_up_4:
  assumes "align_up_u32 v 4 = Some w"
  shows "v \<le> w" "4 dvd unat w"
proof -
  have w: "w = (v + 3) AND NOT 3" and lt: "unat v + 3 < 2 ^ 32"
    using assms by (auto simp: align_up_u32_def Let_def split: if_splits)
  have m: "unat w = (unat v + 3) div 4 * 4"
  proof -
    have three: "(3 :: u32) = mask 2" by (simp add: mask_eq_exp_minus_1)
    have "w = push_bit 2 (drop_bit 2 (v + 3))" unfolding w by (subst (2) three) (rule and_not_mask)
    then have "unat w = unat (drop_bit 2 (v + 3)) * 4 mod 2 ^ 32"
      by (simp add: push_bit_eq_mult unat_word_ariths)
    moreover have "unat (drop_bit 2 (v + 3)) = (unat v + 3) div 4"
      using lt by (simp add: unat_drop_bit_eq drop_bit_eq_div unat_word_ariths)
    moreover have "(unat v + 3) div 4 * 4 < 2 ^ 32" using lt by linarith
    ultimately show ?thesis by simp
  qed
  show "v \<le> w" unfolding word_le_nat_alt m by linarith
  show "4 dvd unat w" unfolding m by simp
qed

lemma align_section_le:
  assumes "align_section dex s sec ctx off = Inr (base, pad, t)"
  shows "unat base = unat off + unat pad" "4 dvd unat base"
  using assms align_up_4 [of off base]
  by (auto simp: align_section_def sat_sub_u32_def unat_sub Let_def word_le_nat_alt)

section \<open>Lengths\<close>

lemma lift_string_ids_words: "lift_string_ids base (words_to_le ws) = words_to_le (map (\<lambda>w. sat_add base (unat w)) ws)"
  by (induction ws) (auto simp: words_to_le_def u32_to_le_def)

lemma patch_debug_off_eq:
  "patch_debug_off dex b r blob (k, l) =
     (case map_of (df_code_items dex) k of
        None \<Rightarrow> Inr blob
      | Some ci \<Rightarrow>
          if length blob < unat l + 12
          then Inl (InvariantViolated ''code_item blob shorter than expected container header; debug_info_off rewrite OOB'')
          else Inr (take (unat l + 8) blob @ u32_to_le (new_debug_off b r ci) @ drop (unat l + 12) blob))"
  using unat_u32_lt [of l] by (simp add: patch_debug_off_def Let_def sat64_def add.commute [of _ 12] split: option.split)

lemma patch_debug_length: "patch_debug_off dex b r blob e = Inr blob' \<Longrightarrow> length blob' = length blob"
  by (cases e) (auto simp: patch_debug_off_eq split: prod.splits option.splits if_splits)

lemma patch_debug_fold_length: "foldE (patch_debug_off dex b r) blob es = Inr blob' \<Longrightarrow> length blob' = length blob"
  by (rule foldE_inv [where P = "\<lambda>s. length s = length blob"]) (auto dest: patch_debug_length)

lemma emit_pool_lengths:
  "length (emit_proto_pool ps) = 12 * length ps"
  "emit_class_def_pool cs = Inr bs \<Longrightarrow> length bs = 32 * length cs"
  "emit_call_site_id_section offs = Inr bs' \<Longrightarrow> length bs' = 4 * length offs"
  "emit_method_handle_section hs = Inr bs'' \<Longrightarrow> length bs'' = 8 * length hs"
proof -
  show "length (emit_proto_pool ps) = 12 * length ps"
    by (induction ps) (auto simp: emit_proto_pool_def row_lengths)
  show "emit_class_def_pool cs = Inr bs \<Longrightarrow> length bs = 32 * length cs"
    by (induction cs arbitrary: bs) (auto simp: emit_class_def_pool_def concat_rows_def row_lengths)
  show "emit_call_site_id_section offs = Inr bs' \<Longrightarrow> length bs' = 4 * length offs"
    by (auto simp: emit_call_site_id_section_def)
  show "emit_method_handle_section hs = Inr bs'' \<Longrightarrow> length bs'' = 8 * length hs"
    by (induction hs arbitrary: bs'') (auto simp: emit_method_handle_section_def)
qed


section \<open>What the stages computed\<close>

lemma layout_idsD:
  assumes "layout_ids dex B = Inr I"
  obtains o1 o2 o3 o4 o5 o6 o7 where
    "unat o1 \<le> 112 + length (lb_string_ids B)" "unat o2 \<le> unat o1 + length (lb_types B)" "unat o3 \<le> unat o2 + length (df_protos dex) * 12"
    "unat o4 \<le> unat o3 + length (lb_fields B)" "unat o5 \<le> unat o4 + length (lb_methods B)" "unat o6 \<le> unat o5 + length (df_class_defs dex) * 32"
    "unat o7 \<le> unat o6 + length (df_call_site_ids dex) * 4" "unat (il_data_off I) \<le> unat o7 + length (df_method_handles dex) * 8"
    "il_string_ids_off I = off_if (lb_string_ids B \<noteq> []) 112" "il_type_ids_off I = off_if (lb_types B \<noteq> []) o1"
    "il_proto_ids_off I = off_if (df_protos dex \<noteq> []) o2" "il_field_ids_off I = off_if (lb_fields B \<noteq> []) o3"
    "il_method_ids_off I = off_if (lb_methods B \<noteq> []) o4" "il_class_defs_off I = off_if (df_class_defs dex \<noteq> []) o5"
    "il_call_site_ids_off I = off_if (df_call_site_ids dex \<noteq> []) o6" "il_method_handles_off I = off_if (df_method_handles dex \<noteq> []) o7"
proof -
  obtain o1 o2 o3 o4 o5 o6 o7 where o:
    "advance ''string_ids'' ''string_ids section exceeds u32 byte offset'' 112 (length (lb_string_ids B)) = Inr o1"
    "advance ''type_ids'' ''type_ids offset overflow'' o1 (length (lb_types B)) = Inr o2"
    "advance_rows ''proto_ids'' ''proto_ids byte size exceeds u32'' o2 (length (df_protos dex)) 12 = Inr o3"
    "advance ''field_ids'' ''field_ids offset overflow'' o3 (length (lb_fields B)) = Inr o4"
    "advance ''method_ids'' ''method_ids offset overflow'' o4 (length (lb_methods B)) = Inr o5"
    "advance_rows ''class_defs'' ''class_defs byte size exceeds u32'' o5 (length (df_class_defs dex)) 32 = Inr o6"
    "advance_rows ''call_site_ids'' ''call_site_ids byte size exceeds u32'' o6 (length (df_call_site_ids dex)) 4 = Inr o7"
    "advance_rows ''method_handles'' ''method_handles byte size exceeds u32'' o7 (length (df_method_handles dex)) 8 = Inr (il_data_off I)"
    and I: "I = \<lparr>il_string_ids_off = off_if (lb_string_ids B \<noteq> []) 112, il_type_ids_off = off_if (lb_types B \<noteq> []) o1,
          il_proto_ids_off = off_if (df_protos dex \<noteq> []) o2, il_field_ids_off = off_if (lb_fields B \<noteq> []) o3,
          il_method_ids_off = off_if (lb_methods B \<noteq> []) o4, il_class_defs_off = off_if (df_class_defs dex \<noteq> []) o5,
          il_call_site_ids_off = off_if (df_call_site_ids dex \<noteq> []) o6, il_method_handles_off = off_if (df_method_handles dex \<noteq> []) o7,
          il_data_off = il_data_off I\<rparr>"
    using assms by (auto simp: layout_ids_def Let_def DEX_HEADER_SIZE_def)
  show ?thesis
    by (rule that [of o1 o2 o3 o4 o5 o6 o7], (use advance_le [OF o(1)] in simp),
        rule advance_le [OF o(2)], rule advance_rows_le [OF o(3)], rule advance_le [OF o(4)], rule advance_le [OF o(5)],
        rule advance_rows_le [OF o(6)], rule advance_rows_le [OF o(7)], rule advance_rows_le [OF o(8)]) (subst I, simp)+
qed

text \<open>The sections of the data part, and the chain of their bases.\<close>

definition data_chain :: "leaf_blobs \<Rightarrow> nat \<Rightarrow> data_layout \<Rightarrow> bool" where
  "data_chain B data_start L \<longleftrightarrow>
     unat (dl_code_base L) \<le> data_start + length (lb_string_data B) + unat (dl_code_pad L)
     \<and> unat (dl_debug_base L) \<le> unat (dl_code_base L) + length (dl_code L)
     \<and> unat (dl_class_base L) \<le> unat (dl_debug_base L) + length (lb_debug B)
     \<and> unat (dl_item_base L) \<le> unat (dl_class_base L) + length (dl_class L)
     \<and> unat (dl_set_base L) \<le> unat (dl_item_base L) + length (dl_item L) + unat (dl_set_pad L)
     \<and> unat (dl_ref_base L) \<le> unat (dl_set_base L) + length (dl_set L) + unat (dl_ref_pad L)
     \<and> unat (dl_dir_base L) \<le> unat (dl_ref_base L) + length (dl_ref L) + unat (dl_dir_pad L)
     \<and> unat (dl_array_base L) \<le> unat (dl_dir_base L) + length (dl_dir L)
     \<and> unat (dl_list_base L) \<le> unat (dl_array_base L) + length (dl_array L) + unat (dl_list_pad L)
     \<and> unat (dl_map_off L) \<le> unat (dl_list_base L) + length (lb_type_lists B) + unat (dl_map_pad L)"

record data_remaps =
  dr_item :: remap
  dr_set :: remap
  dr_ref :: remap

definition data_sections :: "deps \<Rightarrow> DexFile \<Rightarrow> EmitConfig \<Rightarrow> leaf_blobs \<Rightarrow> data_layout \<Rightarrow> data_remaps \<Rightarrow> bool" where
  "data_sections D dex config B L R \<longleftrightarrow>
     foldE (patch_debug_off dex (dl_debug_base L) (lb_debug_remap B)) (lb_code B) (lb_code_remap B) = Inr (dl_code L)
     \<and> emit_class_data_section D (df_class_datas dex) (lb_code_remap B) (dl_code_base L) = Inr (dl_class L, dl_class_remap L)
     \<and> emit_annotation_item_section D (df_annotation_items dex) = Inr (dl_item L, dr_item R)
     \<and> emit_annotation_set_section (df_annotation_sets dex) (dl_item_base L) (dr_item R) = Inr (dl_set L, dr_set R)
     \<and> emit_annotation_set_ref_list_section (df_annotation_set_ref_lists dex) (dl_set_base L) (dr_set R) = Inr (dl_ref L, dr_ref R)
     \<and> emit_annotation_directory_section (df_annotations dex) (dl_set_base L) (dr_set R) (dl_ref_base L) (dr_ref R) = Inr (dl_dir L, dl_dir_remap L)
     \<and> emit_encoded_array_section_with_widths D (df_encoded_arrays dex)
          (if preserve_encoded_value_width config then Some (df_encoded_array_widths dex) else None) = Inr (dl_array L, dl_array_remap L)
     \<and> mapE (resolve_off ''call_site_id references encoded_array not in dex.encoded_arrays'' ''call_site_id'' ''absolute offset overflow''
          (dl_array_base L) (dl_array_remap L)) (df_call_site_ids dex) = Inr (dl_call_sites L)"

lemma layout_dataD:
  assumes "layout_data D dex config B data_start = Inr L"
  obtains R where "data_sections D dex config B L R" "data_chain B (unat data_start) L"
proof -
  obtain a0 a1 a2 a3 a4 a5 t1 t2 t3 t4 t5 t6 item_remap set_remap ref_remap where
    s: "advance ''string_data'' ''string_data offset overflow'' data_start (length (lb_string_data B)) = Inr a0"
      "align_section dex ACodeItem ''code_item_section'' ''alignment padding overflowed u32'' a0 = Inr (dl_code_base L, dl_code_pad L, t1)"
      "advance ''code_item_section'' ''code_item_section offset overflow'' (dl_code_base L) (length (lb_code B)) = Inr (dl_debug_base L)"
      "advance ''debug_info_section'' ''debug_info_section offset overflow'' (dl_debug_base L) (length (lb_debug B)) = Inr (dl_class_base L)"
      "foldE (patch_debug_off dex (dl_debug_base L) (lb_debug_remap B)) (lb_code B) (lb_code_remap B) = Inr (dl_code L)"
      "emit_class_data_section D (df_class_datas dex) (lb_code_remap B) (dl_code_base L) = Inr (dl_class L, dl_class_remap L)"
      "advance ''class_data_section'' ''class_data_section offset overflow'' (dl_class_base L) (length (dl_class L)) = Inr (dl_item_base L)"
      "emit_annotation_item_section D (df_annotation_items dex) = Inr (dl_item L, item_remap)"
      "advance ''annotation_item_section'' ''annotation_item_section offset overflow'' (dl_item_base L) (length (dl_item L)) = Inr a1"
      "align_section dex AAnnotationSet ''annotation_set_section'' ''alignment padding overflowed u32'' a1 = Inr (dl_set_base L, dl_set_pad L, t2)"
      "emit_annotation_set_section (df_annotation_sets dex) (dl_item_base L) item_remap = Inr (dl_set L, set_remap)"
      "advance ''annotation_set_section'' ''annotation_set_section offset overflow'' (dl_set_base L) (length (dl_set L)) = Inr a2"
      "align_section dex AAnnotationSetRefList ''annotation_set_ref_list_section'' ''alignment padding overflowed u32'' a2 = Inr (dl_ref_base L, dl_ref_pad L, t3)"
      "emit_annotation_set_ref_list_section (df_annotation_set_ref_lists dex) (dl_set_base L) set_remap = Inr (dl_ref L, ref_remap)"
      "advance ''annotation_set_ref_list_section'' ''annotation_set_ref_list_section offset overflow'' (dl_ref_base L) (length (dl_ref L)) = Inr a3"
      "align_section dex AAnnotationDirectory ''annotation_directory_section'' ''alignment padding overflowed u32'' a3 = Inr (dl_dir_base L, dl_dir_pad L, t4)"
      "emit_annotation_directory_section (df_annotations dex) (dl_set_base L) set_remap (dl_ref_base L) ref_remap = Inr (dl_dir L, dl_dir_remap L)"
      "advance ''annotation_directory_section'' ''annotation_directory_section offset overflow'' (dl_dir_base L) (length (dl_dir L)) = Inr (dl_array_base L)"
      "emit_encoded_array_section_with_widths D (df_encoded_arrays dex)
         (if preserve_encoded_value_width config then Some (df_encoded_array_widths dex) else None) = Inr (dl_array L, dl_array_remap L)"
      "advance ''encoded_array_section'' ''encoded_array_section offset overflow'' (dl_array_base L) (length (dl_array L)) = Inr a4"
      "mapE (resolve_off ''call_site_id references encoded_array not in dex.encoded_arrays'' ''call_site_id'' ''absolute offset overflow''
         (dl_array_base L) (dl_array_remap L)) (df_call_site_ids dex) = Inr (dl_call_sites L)"
      "align_section dex ATypeList ''type_list_section'' ''alignment padding overflowed u32'' a4 = Inr (dl_list_base L, dl_list_pad L, t5)"
      "advance ''type_list_section'' ''type_list_section offset overflow'' (dl_list_base L) (length (lb_type_lists B)) = Inr a5"
      "align_section dex AMapList ''map_list'' ''map_list alignment overflow'' a5 = Inr (dl_map_off L, dl_map_pad L, t6)"
    using assms by (auto simp: layout_data_def)
  let ?R = "\<lparr>dr_item = item_remap, dr_set = set_remap, dr_ref = ref_remap\<rparr>"
  have "data_sections D dex config B L ?R" unfolding data_sections_def using s by simp
  moreover have "data_chain B (unat data_start) L"
    unfolding data_chain_def
    using advance_le [OF s(1)] align_section_le(1) [OF s(2)] advance_le [OF s(3)] advance_le [OF s(4)] patch_debug_fold_length [OF s(5)]
      advance_le [OF s(7)] advance_le [OF s(9)] align_section_le(1) [OF s(10)] advance_le [OF s(12)] align_section_le(1) [OF s(13)]
      advance_le [OF s(15)] align_section_le(1) [OF s(16)] advance_le [OF s(18)] advance_le [OF s(20)] align_section_le(1) [OF s(22)]
      advance_le [OF s(23)] align_section_le(1) [OF s(24)] by (intro conjI) linarith+
  ultimately show ?thesis by (rule that)
qed


lemma emit_canonicalD:
  assumes "emit_canonical D ho dex config = Inr (out, ts)" and "\<not> preserve_input_checksums config"
  obtains B I L its map_list fsize protos classes class_items call_sites handles H where
    "emit_leaf_blobs D dex = Inr B" "layout_ids dex B = Inr I" "layout_data D dex config B (il_data_off I) = Inr L"
    "its = fst (order_map_items ho dex config (build_map_items dex B I L))" "emit_map_list its (preserve_map_list_order config) = Inr map_list"
    "advance ''map_list'' ''map_list offset overflow'' (dl_map_off L) (length map_list) = Inr fsize"
    "mapE (remap_proto (dl_list_base L) (lb_type_list_remap B)) (df_protos dex) = Inr protos"
    "mapE (remap_class (lb_type_list_remap B) L) (df_class_defs dex) = Inr classes" "emit_class_def_pool classes = Inr class_items"
    "emit_call_site_id_section (dl_call_sites L) = Inr call_sites" "emit_method_handle_section (df_method_handles dex) = Inr handles"
    "make_header_layout dex I fsize (dl_map_off L) = Inr H"
    "length (assemble_file B I L (emit_header H) (emit_proto_pool protos) class_items call_sites handles map_list) = unat fsize"
    "finalize_checksums D (assemble_file B I L (emit_header H) (emit_proto_pool protos) class_items call_sites handles map_list) = Inr out"
  using assms
  by (auto simp: emit_canonical_def Let_def apply_preserve_input_checksums_def case_prod_beta split: if_splits)

section \<open>Positions in the file\<close>

definition id_positions ::
  "byte list \<Rightarrow> leaf_blobs \<Rightarrow> id_layout \<Rightarrow> byte list \<Rightarrow> byte list \<Rightarrow> byte list \<Rightarrow> byte list \<Rightarrow> bool" where
  "id_positions out B I protos classes call_sites handles \<longleftrightarrow>
     at_off out (unat (il_string_ids_off I)) (lift_string_ids (il_data_off I) (lb_string_ids B))
     \<and> at_off out (unat (il_type_ids_off I)) (lb_types B) \<and> at_off out (unat (il_proto_ids_off I)) protos
     \<and> at_off out (unat (il_field_ids_off I)) (lb_fields B) \<and> at_off out (unat (il_method_ids_off I)) (lb_methods B)
     \<and> at_off out (unat (il_class_defs_off I)) classes \<and> at_off out (unat (il_call_site_ids_off I)) call_sites
     \<and> at_off out (unat (il_method_handles_off I)) handles"

definition data_positions :: "byte list \<Rightarrow> leaf_blobs \<Rightarrow> u32 \<Rightarrow> data_layout \<Rightarrow> byte list \<Rightarrow> bool" where
  "data_positions out B data_start L map_list \<longleftrightarrow>
     at_off out (unat data_start) (lb_string_data B) \<and> at_off out (unat (dl_code_base L)) (dl_code L)
     \<and> at_off out (unat (dl_debug_base L)) (lb_debug B) \<and> at_off out (unat (dl_class_base L)) (dl_class L)
     \<and> at_off out (unat (dl_item_base L)) (dl_item L) \<and> at_off out (unat (dl_set_base L)) (dl_set L)
     \<and> at_off out (unat (dl_ref_base L)) (dl_ref L) \<and> at_off out (unat (dl_dir_base L)) (dl_dir L)
     \<and> at_off out (unat (dl_array_base L)) (dl_array L) \<and> at_off out (unat (dl_list_base L)) (lb_type_lists B)
     \<and> at_off out (unat (dl_map_off L)) map_list"

text \<open>The identifier sections follow each other without gaps.\<close>

definition id_chain :: "DexFile \<Rightarrow> leaf_blobs \<Rightarrow> id_layout \<Rightarrow> bool" where
  "id_chain dex B I \<longleftrightarrow> (\<exists>o1 o2 o3 o4 o5.
     unat o1 = 112 + length (lb_string_ids B) \<and> unat o2 = unat o1 + length (lb_types B) \<and> unat o3 = unat o2 + length (df_protos dex) * 12
     \<and> unat o4 = unat o3 + length (lb_fields B) \<and> unat o5 = unat o4 + length (lb_methods B)
     \<and> il_string_ids_off I = off_if (lb_string_ids B \<noteq> []) 112 \<and> il_type_ids_off I = off_if (lb_types B \<noteq> []) o1
     \<and> il_proto_ids_off I = off_if (df_protos dex \<noteq> []) o2 \<and> il_field_ids_off I = off_if (lb_fields B \<noteq> []) o3
     \<and> il_method_ids_off I = off_if (lb_methods B \<noteq> []) o4 \<and> il_class_defs_off I = off_if (df_class_defs dex \<noteq> []) o5)"

definition bases_set :: "data_layout \<Rightarrow> bool" where
  "bases_set L \<longleftrightarrow> dl_code_base L \<noteq> 0 \<and> dl_class_base L \<noteq> 0 \<and> dl_item_base L \<noteq> 0 \<and> dl_set_base L \<noteq> 0 \<and> dl_ref_base L \<noteq> 0
     \<and> dl_dir_base L \<noteq> 0 \<and> dl_array_base L \<noteq> 0 \<and> dl_list_base L \<noteq> 0"

lemma off_if_at: "at_off out (unat w) bs \<Longrightarrow> (\<not> present \<Longrightarrow> bs = []) \<Longrightarrow> at_off out (unat (off_if present w)) bs"
  by (auto simp: off_if_def at_off_def)

text \<open>Saturation can only lose bytes, and the final length check excludes every loss: each section lies at its base.\<close>

lemma assemble_positions:
  assumes I: "layout_ids dex B = Inr I" and chain: "data_chain B (unat (il_data_off I)) L"
    and f: "unat fsize \<le> unat (dl_map_off L) + length map_list"
    and len: "length hdr = 112" "length (lift_string_ids (il_data_off I) (lb_string_ids B)) = length (lb_string_ids B)"
      "length protos = 12 * length (df_protos dex)" "length classes = 32 * length (df_class_defs dex)"
      "length call_sites = 4 * length (df_call_site_ids dex)" "length handles = 8 * length (df_method_handles dex)"
    and out: "out = assemble_file B I L hdr protos classes call_sites handles map_list" and total: "length out = unat fsize"
  shows "id_positions out B I protos classes call_sites handles \<and> data_positions out B (il_data_off I) L map_list
    \<and> id_chain dex B I \<and> bases_set L"
proof -
  obtain o1 o2 o3 o4 o5 o6 o7 where
    o: "unat o1 \<le> 112 + length (lb_string_ids B)" "unat o2 \<le> unat o1 + length (lb_types B)" "unat o3 \<le> unat o2 + length (df_protos dex) * 12"
      "unat o4 \<le> unat o3 + length (lb_fields B)" "unat o5 \<le> unat o4 + length (lb_methods B)" "unat o6 \<le> unat o5 + length (df_class_defs dex) * 32"
      "unat o7 \<le> unat o6 + length (df_call_site_ids dex) * 4" "unat (il_data_off I) \<le> unat o7 + length (df_method_handles dex) * 8"
    and i: "il_string_ids_off I = off_if (lb_string_ids B \<noteq> []) 112" "il_type_ids_off I = off_if (lb_types B \<noteq> []) o1"
      "il_proto_ids_off I = off_if (df_protos dex \<noteq> []) o2" "il_field_ids_off I = off_if (lb_fields B \<noteq> []) o3"
      "il_method_ids_off I = off_if (lb_methods B \<noteq> []) o4" "il_class_defs_off I = off_if (df_class_defs dex \<noteq> []) o5"
      "il_call_site_ids_off I = off_if (df_call_site_ids dex \<noteq> []) o6" "il_method_handles_off I = off_if (df_method_handles dex \<noteq> []) o7"
    using layout_idsD [OF I] by metis
  have l: "length out = 112 + length (lb_string_ids B) + length (lb_types B) + length (df_protos dex) * 12 + length (lb_fields B)
      + length (lb_methods B) + length (df_class_defs dex) * 32 + length (df_call_site_ids dex) * 4 + length (df_method_handles dex) * 8
      + length (lb_string_data B) + unat (dl_code_pad L) + length (dl_code L) + length (lb_debug B) + length (dl_class L) + length (dl_item L)
      + unat (dl_set_pad L) + length (dl_set L) + unat (dl_ref_pad L) + length (dl_ref L) + unat (dl_dir_pad L) + length (dl_dir L)
      + length (dl_array L) + unat (dl_list_pad L) + length (lb_type_lists B) + unat (dl_map_pad L) + length map_list"
    by (simp add: out assemble_file_def len)
  note c = chain [unfolded data_chain_def]
  have eqs: "unat o1 = 112 + length (lb_string_ids B)" "unat o2 = unat o1 + length (lb_types B)" "unat o3 = unat o2 + length (df_protos dex) * 12"
      "unat o4 = unat o3 + length (lb_fields B)" "unat o5 = unat o4 + length (lb_methods B)" "unat o6 = unat o5 + length (df_class_defs dex) * 32"
      "unat o7 = unat o6 + length (df_call_site_ids dex) * 4" "unat (il_data_off I) = unat o7 + length (df_method_handles dex) * 8"
    using o c f total l by linarith+
  have ceqs: "unat (dl_code_base L) = unat (il_data_off I) + length (lb_string_data B) + unat (dl_code_pad L)"
     "unat (dl_debug_base L) = unat (dl_code_base L) + length (dl_code L)"
     "unat (dl_class_base L) = unat (dl_debug_base L) + length (lb_debug B)"
     "unat (dl_item_base L) = unat (dl_class_base L) + length (dl_class L)"
     "unat (dl_set_base L) = unat (dl_item_base L) + length (dl_item L) + unat (dl_set_pad L)"
     "unat (dl_ref_base L) = unat (dl_set_base L) + length (dl_set L) + unat (dl_ref_pad L)"
     "unat (dl_dir_base L) = unat (dl_ref_base L) + length (dl_ref L) + unat (dl_dir_pad L)"
     "unat (dl_array_base L) = unat (dl_dir_base L) + length (dl_dir L)"
     "unat (dl_list_base L) = unat (dl_array_base L) + length (dl_array L) + unat (dl_list_pad L)"
     "unat (dl_map_off L) = unat (dl_list_base L) + length (lb_type_lists B) + unat (dl_map_pad L)"
    using o c f total l by linarith+
  have "at_off out 0 (assemble_file B I L hdr protos classes call_sites handles map_list)" by (simp add: out at_off_def)
  then have at: "at_off out 112 (lift_string_ids (il_data_off I) (lb_string_ids B))" "at_off out (unat o1) (lb_types B)"
      "at_off out (unat o2) protos" "at_off out (unat o3) (lb_fields B)" "at_off out (unat o4) (lb_methods B)" "at_off out (unat o5) classes"
      "at_off out (unat o6) call_sites" "at_off out (unat o7) handles"
    and "data_positions out B (il_data_off I) L map_list"
    unfolding assemble_file_def data_positions_def eqs ceqs
    by (simp_all add: at_off_append len ac_simps)
  moreover from at have "id_positions out B I protos classes call_sites handles"
    unfolding id_positions_def i using len by (intro conjI off_if_at) auto
  moreover have "id_chain dex B I" unfolding id_chain_def using eqs i by blast
  moreover have nz: "w \<noteq> 0" if "112 \<le> unat w" for w :: u32 using that by auto
  have "bases_set L" unfolding bases_set_def by (intro conjI nz) (use eqs ceqs in linarith)+
  ultimately show ?thesis by blast
qed

end
