(* ===== verification/Dex_Emit_Code.thy ===== *)
theory Dex_Emit_Code
  imports Dex_Emit_Layout
begin

text \<open>
  Two sections of an emitted file: the static values, and the code items, whose debug offsets are rewritten in place
  after they were written.
\<close>

section \<open>Static values\<close>

sublocale dex_deps \<subseteq> arrays: section_codec
  "\<lambda>k vs. emit_encoded_array_with_widths D vs (Option.bind widths (\<lambda>w. map_of w k))"
  "\<lambda>data off _ vs. \<exists>tops. parse_encoded_array D data off = Some (Inr (vs, tops))"
  "\<lambda>vs. list_all value_ok vs \<and> list_all (\<lambda>v. depth v \<le> PARSE_STACK_FRAME_CAP) vs" for widths
proof unfold_locales
  fix k vs bs data and off :: u32
  assume e: "emit_encoded_array_with_widths D vs (Option.bind widths (\<lambda>w. map_of w k)) = Inr bs"
    and g: "list_all value_ok vs \<and> list_all (\<lambda>v. depth v \<le> PARSE_STACK_FRAME_CAP) vs" and f: "fits data" and at: "at_off data (unat off) bs"
  obtain ps where "list_all2 (encodes D) vs ps" "length vs < 2 ^ 32" "bs = common_write_uleb128 D (of_nat (length vs)) @ concat (map fst ps)"
    using array_encodes [OF e] g by blast
  with parse_array_encodes f at g show "\<exists>tops. parse_encoded_array D data off = Some (Inr (vs, tops))" by simp
qed

section \<open>The items of a section do not overlap\<close>

definition entry_span :: "(u32 \<Rightarrow> 'a \<Rightarrow> DexEmitError + byte list) \<Rightarrow> remap \<Rightarrow> u32 \<times> 'a \<Rightarrow> nat \<times> nat" where
  "entry_span emit remap e = (case e of (k, x) \<Rightarrow> (unat (the (map_of remap k)), length (projr (emit k x))))"

definition before :: "nat \<times> nat \<Rightarrow> nat \<times> nat \<Rightarrow> bool" where
  "before a b \<longleftrightarrow> fst a + snd a \<le> fst b"

definition spans_ok :: "(u32 \<Rightarrow> 'a \<Rightarrow> DexEmitError + byte list) \<Rightarrow> (u32 \<times> 'a) list \<Rightarrow> byte list \<Rightarrow> remap \<Rightarrow> bool" where
  "spans_ok emit m blob remap \<longleftrightarrow> sorted_wrt before (map (entry_span emit remap) m)
     \<and> list_all (\<lambda>e. fst (entry_span emit remap e) + snd (entry_span emit remap e) \<le> length blob) m"

lemma section_step_spans:
  assumes "spans_ok emit done blob remap" and s: "section_step align sec ctx emit (blob, remap) (k, x) = Inr (blob', remap')"
    and "btree_ok (done @ [(k, x)])"
  shows "spans_ok emit (done @ [(k, x)]) blob' remap'"
proof -
  obtain bs where e: "length (pad_to align blob) < 2 ^ 32" "emit k x = Inr bs" "blob' = pad_to align blob @ bs"
    "remap' = btree_insert k (of_nat (length (pad_to align blob))) remap"
    using s by (auto simp: section_step_def u32_offset_def Let_def split: if_splits)
  have p: "length blob \<le> length (pad_to align blob)" by (simp add: pad_to_def)
  have "\<forall>j \<in> set (map fst done). j < k" using assms(3) by (simp add: btree_ok_def sorted_wrt_append)
  then have old: "entry_span emit remap' d = entry_span emit remap d" if "d \<in> set done" for d
    using that by (fastforce simp: entry_span_def e(4) map_of_btree_insert split: prod.splits)
  have new: "entry_span emit remap' (k, x) = (length (pad_to align blob), length bs)"
    using e(1, 2) by (simp add: entry_span_def e(4) map_of_btree_insert unat_of_nat_u32)
  have m: "map (entry_span emit remap') done = map (entry_span emit remap) done" using old by simp
  have lim: "fst (entry_span emit remap d) + snd (entry_span emit remap d) \<le> length (pad_to align blob)" if "d \<in> set done" for d
    using assms(1) that p by (fastforce simp: spans_ok_def list_all_iff)
  then have "sorted_wrt before (map (entry_span emit remap') (done @ [(k, x)]))"
    using assms(1) by (auto simp: spans_ok_def sorted_wrt_append m new before_def)
  moreover have "list_all (\<lambda>e. fst (entry_span emit remap' e) + snd (entry_span emit remap' e) \<le> length blob') (done @ [(k, x)])"
    using lim old by (auto simp: list_all_iff new e(3) intro: trans_le_add1)
  ultimately show ?thesis by (simp add: spans_ok_def)
qed

lemma emit_section_spans:
  assumes "emit_section align sec ctx emit m = Inr (blob, remap)" and "btree_ok m"
  shows "spans_ok emit m blob remap"
proof -
  have "spans_ok emit (pre @ m) blob remap"
    if "foldE (section_step align sec ctx emit) st m = Inr (blob, remap)" "spans_ok emit pre (fst st) (snd st)" "btree_ok (pre @ m)" for pre st
    using that
  proof (induction m arbitrary: st pre)
    case (Cons e m)
    obtain k x where e: "e = (k, x)" by (cases e)
    obtain st' where st': "section_step align sec ctx emit st e = Inr st'" "foldE (section_step align sec ctx emit) st' m = Inr (blob, remap)"
      using Cons.prems(1) by auto
    have "btree_ok (pre @ [e])" using Cons.prems(3) by (auto simp: btree_ok_def sorted_wrt_append)
    then have "spans_ok emit (pre @ [e]) (fst st') (snd st')"
      using section_step_spans [of emit pre "fst st" "snd st" align sec ctx k x "fst st'" "snd st'"] Cons.prems(2) st'(1) e by simp
    from Cons.IH [OF st'(2) this] Cons.prems(3) show ?case by simp
  qed simp
  from this [of "([], [])" "[]"] assms show ?thesis by (simp add: emit_section_def spans_ok_def)
qed

lemma spans_disjoint:
  assumes "spans_ok emit m blob remap" and "e \<in> set m" and "e' \<in> set m" and "e \<noteq> e'"
  shows "before (entry_span emit remap e) (entry_span emit remap e') \<or> before (entry_span emit remap e') (entry_span emit remap e)"
proof -
  obtain i j where ij: "i < length m" "m ! i = e" "j < length m" "m ! j = e'" using assms(2, 3) by (auto simp: in_set_conv_nth)
  have "i \<noteq> j" using ij assms(4) by auto
  with assms(1) ij show ?thesis by (cases "i < j") (auto simp: spans_ok_def sorted_wrt_iff_nth_less)
qed

section \<open>The code section after its debug offsets are rewritten\<close>

definition code_entry :: "deps \<Rightarrow> (CodeItem \<Rightarrow> u32) \<Rightarrow> u32 \<Rightarrow> CodeItem \<Rightarrow> DexEmitError + byte list" where
  "code_entry D dbg k ci =
     bindE (compute_insns_size (instructions ci) (payloads ci)) (\<lambda>insns_size.
     bindE (assemble_insn_stream (instructions ci) (payloads ci) insns_size) (\<lambda>insn_bytes.
     emit_code_item_container D (registers_size ci) (ins_size ci) (outs_size ci) (dbg ci) insn_bytes (tries ci) (catch_handlers ci)))"

lemma if_Inl_eq_Inr: "(if c then Inl e else x) = Inr y \<longleftrightarrow> \<not> c \<and> x = Inr y"
  by simp

lemma container_patch:
  assumes "emit_code_item_container D r i w 0 ib ts hs = Inr bs"
  shows "emit_code_item_container D r i w d ib ts hs = Inr (take 8 bs @ u32_to_le d @ drop 12 bs)" "16 \<le> length bs"
proof -
  have "\<exists>A C. length A = 8 \<and> 4 \<le> length C \<and> bs = A @ u32_to_le 0 @ C \<and> emit_code_item_container D r i w d ib ts hs = Inr (A @ u32_to_le d @ C)"
  proof -
    obtain blob starts offs where c: "length ib mod 2 = 0" "\<not> 2 ^ 32 \<le> length ib div 2" "\<not> 2 ^ 16 \<le> length ts" "\<not> (ts = [] \<and> hs \<noteq> [])"
      "list_all (\<lambda>t. handler_idx t < length hs) ts" "(if ts = [] then Inr ([], []) else emit_handler_list D hs) = Inr (blob, starts)"
      "mapE (try_handler_off starts) ts = Inr offs"
      using assms unfolding emit_code_item_container_def if_Inl_eq_Inr bindE_eq_Inr by (auto split del: if_split)
    let ?A = "u16_to_le r @ u16_to_le i @ u16_to_le w @ u16_to_le (of_nat (length ts))"
    let ?n = "of_nat (length ib div 2) :: u32"
    let ?C = "u32_to_le ?n @ ib @ (if ts = [] then [] else (if ?n mod 2 \<noteq> 0 then [0, 0] else []) @ concat (map try_bytes (zip ts offs)) @ blob)"
    have e: "emit_code_item_container D r i w x ib ts hs = Inr (?A @ u32_to_le x @ ?C)" for x
      unfolding emit_code_item_container_def Let_def using c by (cases "ts = []") (simp_all split del: if_split)
    with assms have "bs = ?A @ u32_to_le 0 @ ?C" by simp
    with e show ?thesis by (intro exI [of _ ?A] exI [of _ ?C]) simp
  qed
  then show "emit_code_item_container D r i w d ib ts hs = Inr (take 8 bs @ u32_to_le d @ drop 12 bs)" "16 \<le> length bs" by auto
qed

lemma code_entry_patch:
  assumes "emit_code_entry D k ci = Inr bs"
  shows "code_entry D dbg k ci = Inr (take 8 bs @ u32_to_le (dbg ci) @ drop 12 bs)" "16 \<le> length bs"
  using assms container_patch by (fastforce simp: emit_code_entry_def code_entry_def)+

sublocale dex_deps \<subseteq> patched_code: section_codec "code_entry D dbg"
  "\<lambda>data off _ ci. read_code D data off = Some (code_body ci)" code_laid_out for dbg
proof unfold_locales
  fix ci data k and off :: u32 and bs
  assume e: "code_entry D dbg k ci = Inr bs" and g: "code_laid_out ci" and f: "fits data" and at: "at_off data (unat off) bs" and nz: "off \<noteq> 0"
  obtain its n where l: "layout_ok its n" "instructions ci = codes its" "payloads ci = tables its" "list_all (try_ok n) (tries ci)"
    using g by (auto simp: code_laid_out_def)
  obtain ib where b: "assemble_insn_stream (codes its) (tables its) n = Inr ib"
    "emit_code_item_container D (registers_size ci) (ins_size ci) (outs_size ci) (dbg ci) ib (tries ci) (catch_handlers ci) = Inr bs"
    using e l compute_layout_size [OF l(1)] by (auto simp: code_entry_def)
  from code_item_codec [OF l(1, 4) b f at] nz l show "read_code D data off = Some (code_body ci)"
    by (cases ci) (auto simp: read_code_def ok_opt_def code_body_def)
qed

text \<open>Overwriting four bytes inside one item, and outside it.\<close>

lemma overwrite_inside:
  assumes "at_off blob l bs" and "12 \<le> length bs" and "length w = 4"
  shows "at_off (take (l + 8) blob @ w @ drop (l + 12) blob) l (take 8 bs @ w @ drop 12 bs)"
proof -
  obtain pre post where "blob = pre @ bs @ post" "length pre = l" using assms(1) by (auto simp: at_off_split)
  moreover have "take (l + 8) (pre @ bs @ post) @ w @ drop (l + 12) (pre @ bs @ post) = pre @ (take 8 bs @ w @ drop 12 bs) @ post"
    if "length pre = l" using that assms(2) by simp
  ultimately show ?thesis by (auto simp: at_off_split)
qed

lemma overwrite_outside:
  assumes "at_off blob l bs" and "l + length bs \<le> p \<or> p + 4 \<le> l" and "p + 4 \<le> length blob" and "length w = 4"
  shows "at_off (take p blob @ w @ drop (p + 4) blob) l bs"
proof (rule at_off_nthI)
  show "l + length bs \<le> length (take p blob @ w @ drop (p + 4) blob)" using assms at_off_len [OF assms(1)] by auto
  fix i assume i: "i < length bs"
  have n: "blob ! (l + i) = bs ! i" by (rule at_off_nth [OF assms(1) i])
  show "(take p blob @ w @ drop (p + 4) blob) ! (l + i) = bs ! i"
    using assms(2, 3, 4) i n at_off_len [OF assms(1)] by (auto simp: nth_append nth_drop)
qed


text \<open>The item of a key while the loop runs: rewritten once its key was seen.\<close>

definition code_content :: "deps \<Rightarrow> u32 \<Rightarrow> remap \<Rightarrow> u32 set \<Rightarrow> u32 \<Rightarrow> CodeItem \<Rightarrow> byte list" where
  "code_content D db dr S k ci =
     (let bs = projr (emit_code_entry D k ci) in if k \<in> S then take 8 bs @ u32_to_le (new_debug_off db dr ci) @ drop 12 bs else bs)"

definition code_section :: "deps \<Rightarrow> DexFile \<Rightarrow> byte list \<Rightarrow> remap \<Rightarrow> bool" where
  "code_section D dex blob remap \<longleftrightarrow> section_holds 4 (emit_code_entry D) (df_code_items dex) blob remap
     \<and> spans_ok (emit_code_entry D) (df_code_items dex) blob remap \<and> btree_ok (df_code_items dex)"

abbreviation loc :: "remap \<Rightarrow> u32 \<Rightarrow> nat" where
  "loc remap k \<equiv> unat (the (map_of remap k))"

definition contents_at :: "deps \<Rightarrow> DexFile \<Rightarrow> u32 \<Rightarrow> remap \<Rightarrow> remap \<Rightarrow> u32 set \<Rightarrow> byte list \<Rightarrow> bool" where
  "contents_at D dex db dr remap S blob \<longleftrightarrow> (\<forall>(k, ci) \<in> set (df_code_items dex). at_off blob (loc remap k) (code_content D db dr S k ci))"

lemma contents_atD: "contents_at D dex db dr remap S blob \<Longrightarrow> (k, ci) \<in> set (df_code_items dex) \<Longrightarrow> at_off blob (loc remap k) (code_content D db dr S k ci)"
  by (auto simp: contents_at_def)

lemma code_item_at:
  assumes "code_section D dex blob0 remap" and "(k, ci) \<in> set (df_code_items dex)"
  shows "map_of (df_code_items dex) k = Some ci" "map_of remap k = Some (the (map_of remap k))" "4 dvd loc remap k"
    "emit_code_entry D k ci = Inr (projr (emit_code_entry D k ci))" "at_off blob0 (loc remap k) (projr (emit_code_entry D k ci))"
    "16 \<le> length (projr (emit_code_entry D k ci))" "length (code_content D db dr S k ci) = length (projr (emit_code_entry D k ci))"
proof -
  obtain l bs where l: "map_of remap k = Some l" "emit_code_entry D k ci = Inr bs" "at_off blob0 (unat l) bs" "4 dvd unat l"
    using assms by (fastforce simp: code_section_def section_holds_def)
  have "distinct (map fst (df_code_items dex))" using assms(1) by (simp add: code_section_def btree_ok_def strict_sorted_iff)
  with assms(2) show "map_of (df_code_items dex) k = Some ci" by simp
  show "map_of remap k = Some (the (map_of remap k))" "4 dvd loc remap k" "emit_code_entry D k ci = Inr (projr (emit_code_entry D k ci))"
    "at_off blob0 (loc remap k) (projr (emit_code_entry D k ci))" using l by simp_all
  show "16 \<le> length (projr (emit_code_entry D k ci))" using code_entry_patch(2) [OF l(2)] l(2) by simp
  then show "length (code_content D db dr S k ci) = length (projr (emit_code_entry D k ci))" by (simp add: code_content_def Let_def)
qed

lemma code_items_apart:
  assumes sec: "code_section D dex blob0 remap" and "(k, ci) \<in> set (df_code_items dex)" and "(j, cj) \<in> set (df_code_items dex)" and "j \<noteq> k"
  shows "loc remap j + length (code_content D db dr S j cj) \<le> loc remap k + 8 \<or> loc remap k + 12 \<le> loc remap j"
proof -
  have "before (entry_span (emit_code_entry D) remap (k, ci)) (entry_span (emit_code_entry D) remap (j, cj))
    \<or> before (entry_span (emit_code_entry D) remap (j, cj)) (entry_span (emit_code_entry D) remap (k, ci))"
    using spans_disjoint [OF _ assms(2, 3)] assms(4) sec by (auto simp: code_section_def)
  then show ?thesis using code_item_at(6) [OF sec assms(2)] code_item_at(7) [OF sec assms(3), of db dr S] by (auto simp: before_def entry_span_def)
qed

lemma patch_step_keeps:
  assumes sec: "code_section D dex blob0 remap" and p: "patch_debug_off dex db dr blob (k, l) = Inr blob'" and "map_of remap k = Some l" and "k \<notin> S"
    and k: "(k, ci) \<in> set (df_code_items dex)" and c: "contents_at D dex db dr remap S blob"
  shows "contents_at D dex db dr remap (insert k S) blob'"
  unfolding contents_at_def
proof (intro ballI, clarify)
  fix j cj assume j: "(j, cj) \<in> set (df_code_items dex)"
  have b: "blob' = take (loc remap k + 8) blob @ u32_to_le (new_debug_off db dr ci) @ drop (loc remap k + 12) blob" "loc remap k + 12 \<le> length blob"
    using p assms(3) code_item_at(1) [OF sec k] by (auto simp: patch_debug_off_eq split: if_splits)
  have at: "at_off blob (loc remap j) (code_content D db dr S j cj)" by (rule contents_atD [OF c j])
  show "at_off blob' (loc remap j) (code_content D db dr (insert k S) j cj)"
  proof (cases "j = k")
    case True
    then have "cj = ci" using code_item_at(1) [OF sec j] code_item_at(1) [OF sec k] by simp
    with True assms(4) at code_item_at(6) [OF sec k]
      overwrite_inside [of blob "loc remap k" "projr (emit_code_entry D k ci)" "u32_to_le (new_debug_off db dr ci)"]
    show ?thesis by (simp add: b(1) code_content_def Let_def)
  next
    case False
    then have "code_content D db dr (insert k S) j cj = code_content D db dr S j cj" by (simp add: code_content_def)
    moreover have "at_off (take (loc remap k + 8) blob @ u32_to_le (new_debug_off db dr ci) @ drop (loc remap k + 8 + 4) blob) (loc remap j) (code_content D db dr S j cj)"
      using code_items_apart [OF sec k j False, of db dr S] b(2) by (intro overwrite_outside [OF at]) auto
    ultimately show ?thesis by (simp add: b(1) add.commute)
  qed
qed

lemma patch_fold_keeps:
  assumes sec: "code_section D dex blob0 remap" and "foldE (patch_debug_off dex db dr) blob es = Inr blob'" and "distinct (map fst es)"
    and "\<forall>(k, l) \<in> set es. map_of remap k = Some l \<and> k \<notin> S" and "contents_at D dex db dr remap S blob"
  shows "contents_at D dex db dr remap (S \<union> fst ` set es) blob'"
  using assms(2-5)
proof (induction es arbitrary: blob S)
  case (Cons e es)
  obtain k l where e: "e = (k, l)" by (cases e)
  obtain b1 where b1: "patch_debug_off dex db dr blob (k, l) = Inr b1" "foldE (patch_debug_off dex db dr) b1 es = Inr blob'"
    using Cons.prems(1) e by auto
  have k: "map_of remap k = Some l" "k \<notin> S" using Cons.prems(3) e by auto
  have "k \<in> set (map fst remap)" using map_of_SomeD [OF k(1)] by force
  then have "k \<in> set (map fst (df_code_items dex))" using sec unfolding code_section_def section_holds_def by metis
  then obtain ci where ci: "(k, ci) \<in> set (df_code_items dex)" by auto
  have "distinct (map fst es)" "\<forall>(k', l') \<in> set es. map_of remap k' = Some l' \<and> k' \<notin> insert k S"
    using Cons.prems(2, 3) by (auto simp: e image_iff)
  from Cons.IH [OF b1(2) this patch_step_keeps [OF sec b1(1) k ci Cons.prems(4)]] show ?case by (simp add: e)
qed simp

lemma code_section_patched:
  assumes sec: "code_section D dex blob0 remap" and "foldE (patch_debug_off dex db dr) blob0 remap = Inr blob'"
  shows "section_holds 4 (code_entry D (new_debug_off db dr)) (df_code_items dex) blob' remap"
proof -
  have r: "map fst remap = map fst (df_code_items dex)" "btree_ok remap" using sec by (simp_all add: code_section_def section_holds_def)
  then have d: "distinct (map fst remap)" by (simp add: btree_ok_def strict_sorted_iff)
  have m: "\<forall>(k, l) \<in> set remap. map_of remap k = Some l \<and> k \<notin> {}" using d by auto
  have "contents_at D dex db dr remap {} blob0" using code_item_at(5) [OF sec] by (auto simp: contents_at_def code_content_def)
  then have c: "contents_at D dex db dr remap ({} \<union> fst ` set remap) blob'" by (rule patch_fold_keeps [OF sec assms(2) d m])
  have k: "j \<in> fst ` set remap" if "(j, cj) \<in> set (df_code_items dex)" for j cj
    using that r(1) by (metis image_set image_eqI fst_conv)
  have at: "at_off blob' (loc remap j) (take 8 (projr (emit_code_entry D j cj)) @ u32_to_le (new_debug_off db dr cj) @ drop 12 (projr (emit_code_entry D j cj)))"
    if "(j, cj) \<in> set (df_code_items dex)" for j cj
    using contents_atD [OF c that] k [OF that] by (simp add: code_content_def Let_def)
  have "\<exists>local bs. map_of remap k = Some local \<and> code_entry D (new_debug_off db dr) k ci = Inr bs \<and> at_off blob' (unat local) bs \<and> 4 dvd unat local"
    if "(k, ci) \<in> set (df_code_items dex)" for k ci
    by (intro exI conjI) (rule code_item_at(2) [OF sec that], rule code_entry_patch(1) [OF code_item_at(4) [OF sec that]],
        rule at [OF that], rule code_item_at(3) [OF sec that])
  then show ?thesis unfolding section_holds_def using r by blast
qed

end
