(* ===== verification/Dex_Emit_Pools.thy ===== *)
theory Dex_Emit_Pools
  imports Dex_Emit_Code
begin

text \<open>
  The pools of a file written by the canonical emitter are read back: the same strings, types, fields and methods, and
  the protos and classes with their offsets rewritten.
\<close>

section \<open>The pools\<close>

lemma string_to_idx_sound:
  assumes "string_to_idx strs desc = Some i" and "length strs < 2 ^ 32"
  shows "unat (un_StringIdx i) < length strs \<and> as_str_lossy (strs ! unat (un_StringIdx i)) = desc"
proof -
  obtain j s where "(j, s) \<in> set (enumerate 0 strs)" "desc = as_str_lossy s" "i = StringIdx (of_nat j)"
    using map_of_SomeD [OF assms(1) [unfolded string_to_idx_def]] by auto
  moreover from this have "j < length strs" "s = strs ! j" by (auto simp: in_set_enumerate_eq)
  ultimately show ?thesis using assms(2) by (simp add: unat_of_nat_u32)
qed

lemma from_verified_Inr: "from_verified xs = Inr ys \<Longrightarrow> ys = xs"
  by (auto simp: from_verified_def split: option.splits)

lemma from_verified_case: "(case from_verified xs of Inr ys \<Rightarrow> Inr ys | Inl _ \<Rightarrow> Inl e) = Inr zs \<longleftrightarrow> from_verified xs = Inr zs"
  by (simp split: sum.split)

lemma emit_leaf_blobsD:
  assumes "emit_leaf_blobs D dex = Inr B" and "length (df_strings dex) < 2 ^ 32"
  obtains idxs where "emit_type_list_section (df_type_lists dex) = Inr (lb_type_lists B, lb_type_list_remap B)"
    "emit_code_item_section D (df_code_items dex) = Inr (lb_code B, lb_code_remap B)"
    "emit_string_pool D (map (\<lambda>s. (declared_chars s, raw_bytes s)) (df_strings dex)) = (lb_string_ids B, lb_string_data B)"
    "lb_types B = words_to_le idxs"
    "list_all2 (\<lambda>i d. unat i < length (df_strings dex) \<and> d = as_str_lossy (df_strings dex ! unat i)) idxs (df_type_descriptors dex)"
    "emit_field_pool (df_fields dex) = Inr (lb_fields B)" "emit_method_pool (df_methods dex) = Inr (lb_methods B)"
proof -
  obtain sid sdata where sp: "emit_string_pool D (map (\<lambda>s. (declared_chars s, raw_bytes s)) (df_strings dex)) = (sid, sdata)" by fastforce
  obtain tidxs where t: "resolve_type_idxs dex = Inr tidxs" "lb_types B = emit_type_pool tidxs"
    and r: "emit_type_list_section (df_type_lists dex) = Inr (lb_type_lists B, lb_type_list_remap B)"
    "emit_code_item_section D (df_code_items dex) = Inr (lb_code B, lb_code_remap B)"
    "emit_string_pool D (map (\<lambda>s. (declared_chars s, raw_bytes s)) (df_strings dex)) = (lb_string_ids B, lb_string_data B)"
    "emit_field_pool (df_fields dex) = Inr (lb_fields B)" "emit_method_pool (df_methods dex) = Inr (lb_methods B)"
    using assms(1) by (auto simp: emit_leaf_blobs_def sp from_verified_case dest!: from_verified_Inr)
  have "list_all2 (\<lambda>d i. string_to_idx (df_strings dex) d = Some i) (df_type_descriptors dex) tidxs"
    using t(1) by (auto simp: resolve_type_idxs_def mapE_Inr_iff)
  then have "list_all2 (\<lambda>i d. unat i < length (df_strings dex) \<and> d = as_str_lossy (df_strings dex ! unat i)) (map un_StringIdx tidxs) (df_type_descriptors dex)"
    by (induction rule: list_all2_induct) (auto dest: string_to_idx_sound [OF _ assms(2)])
  moreover have "lb_types B = words_to_le (map un_StringIdx tidxs)" by (simp add: t(2) emit_type_pool_def words_to_le_def comp_def)
  ultimately show ?thesis using that r by blast
qed

lemma make_header_layoutD:
  assumes "make_header_layout dex I fsize m = Inr H"
  shows "hl_version H = take 3 (drop 4 (magic (df_header dex)))" "hl_file_size H = fsize" "hl_map_off H = m"
    "unat (hl_string_ids_size H) = length (df_strings dex)" "unat (hl_type_ids_size H) = length (df_type_descriptors dex)"
    "unat (hl_proto_ids_size H) = length (df_protos dex)" "unat (hl_field_ids_size H) = length (df_fields dex)"
    "unat (hl_method_ids_size H) = length (df_methods dex)" "unat (hl_class_defs_size H) = length (df_class_defs dex)"
    "hl_string_ids_off H = il_string_ids_off I" "hl_type_ids_off H = il_type_ids_off I" "hl_proto_ids_off H = il_proto_ids_off I"
    "hl_field_ids_off H = il_field_ids_off I" "hl_method_ids_off H = il_method_ids_off I" "hl_class_defs_off H = il_class_defs_off I"
  using assms by (auto simp: make_header_layout_def header_count_def unat_of_nat_u32 split: if_splits)

text \<open>The identifier sections of an emitted file follow each other, so they share no byte.\<close>

lemma sections_apart:
  "unat off + unat k * st \<le> unat off' \<Longrightarrow> \<not> overlaps (section_interval (n, off, k, st)) (section_interval (n', off', k', st'))"
  unfolding section_interval_def sat64_def prod.case overlaps.simps by linarith

fun chained :: "nat \<Rightarrow> id_section list \<Rightarrow> bool" where
  "chained start [] \<longleftrightarrow> True"
| "chained start ((name, off, k, st) # xs) \<longleftrightarrow> (k \<noteq> 0 \<longrightarrow> unat off = start) \<and> chained (start + unat k * st) xs"

lemma chained_from: "chained start xs \<Longrightarrow> (name, off, k, st) \<in> set xs \<Longrightarrow> k \<noteq> 0 \<Longrightarrow> start \<le> unat off"
  by (induction start xs rule: chained.induct) (auto dest: add_leD1)

lemma off_if_start:
  assumes "off = off_if (xs \<noteq> []) w" and "length xs = unat k * st" and "0 < st" and "k \<noteq> 0"
  shows "unat off = unat w"
  using assms by (auto simp: off_if_def unat_eq_0)

lemma chained_apart:
  "chained start xs \<Longrightarrow> sorted_wrt (\<lambda>a b. \<not> overlaps a b) (map section_interval (filter (\<lambda>(name, off, count, stride). count \<noteq> 0) xs))"
proof (induction start xs rule: chained.induct)
  case (2 start name off k st xs)
  have "\<not> overlaps (section_interval (name, off, k, st)) (section_interval s)"
    if "k \<noteq> 0" "s \<in> set xs" "case s of (name, off, count, stride) \<Rightarrow> count \<noteq> 0" for s
    using that 2(2) chained_from [of "start + unat k * st" xs] by (cases s) (auto intro!: sections_apart)
  with 2 show ?case by (auto simp: sorted_wrt_map)
qed simp

lemma emitted_sections_apart:
  assumes "id_chain dex B I" and H: "make_header_layout dex I fsize m = Inr H"
    and len: "length (lb_string_ids B) = 4 * length (df_strings dex)" "length (lb_types B) = 4 * length (df_type_descriptors dex)"
      "length (lb_fields B) = 8 * length (df_fields dex)" "length (lb_methods B) = 8 * length (df_methods dex)"
  shows "check_id_section_overlap (layout_header H ck sg) = Inr ()"
proof -
  obtain o1 o2 o3 o4 o5 where
    e: "unat o1 = 112 + length (lb_string_ids B)" "unat o2 = unat o1 + length (lb_types B)" "unat o3 = unat o2 + length (df_protos dex) * 12"
     "unat o4 = unat o3 + length (lb_fields B)" "unat o5 = unat o4 + length (lb_methods B)"
     and offs: "il_string_ids_off I = off_if (lb_string_ids B \<noteq> []) 112" "il_type_ids_off I = off_if (lb_types B \<noteq> []) o1"
     "il_proto_ids_off I = off_if (df_protos dex \<noteq> []) o2" "il_field_ids_off I = off_if (lb_fields B \<noteq> []) o3"
     "il_method_ids_off I = off_if (lb_methods B \<noteq> []) o4" "il_class_defs_off I = off_if (df_class_defs dex \<noteq> []) o5"
    using assms(1) unfolding id_chain_def by blast
  note h = make_header_layoutD [OF H]
  have sz: "STRING_ID_ITEM_SIZE = 4" "TYPE_ID_ITEM_SIZE = 4" "PROTO_ID_ITEM_SIZE = 12" "FIELD_ID_ITEM_SIZE = 8" "METHOD_ID_ITEM_SIZE = 8"
    "CLASS_DEF_ITEM_SIZE = 32" by (simp_all add: row_sizes)
  have "chained 112 (id_sections (layout_header H ck sg))"
    unfolding id_sections_def layout_header_def DexHeader.simps chained.simps sz
    by (intro conjI impI TrueI)
      (simp_all add: e h(4-9) len off_if_start [OF trans [OF h(10) offs(1)], of "hl_string_ids_size H" 4]
        off_if_start [OF trans [OF h(11) offs(2)], of "hl_type_ids_size H" 4] off_if_start [OF trans [OF h(12) offs(3)], of "hl_proto_ids_size H" 1]
        off_if_start [OF trans [OF h(13) offs(4)], of "hl_field_ids_size H" 8] off_if_start [OF trans [OF h(14) offs(5)], of "hl_method_ids_size H" 8]
        off_if_start [OF trans [OF h(15) offs(6)], of "hl_class_defs_size H" 1])
  from chained_apart [OF this] show ?thesis by (simp add: check_id_section_overlap_def section_intervals_def find_overlap_ok)
qed

section \<open>What a returned file consists of\<close>

definition emitted ::
  "deps \<Rightarrow> DexFile \<Rightarrow> EmitConfig \<Rightarrow> byte list \<Rightarrow> leaf_blobs \<Rightarrow> id_layout \<Rightarrow> data_layout \<Rightarrow> data_remaps \<Rightarrow> HeaderLayout
   \<Rightarrow> ProtoIdItem list \<Rightarrow> ClassDefItem list \<Rightarrow> bool" where
  "emitted D dex config out B I L R H protos classes \<longleftrightarrow>
     emit_leaf_blobs D dex = Inr B \<and> data_sections D dex config B L R \<and> length out < 2 ^ 32
     \<and> mapE (remap_proto (dl_list_base L) (lb_type_list_remap B)) (df_protos dex) = Inr protos
     \<and> mapE (remap_class (lb_type_list_remap B) L) (df_class_defs dex) = Inr classes
     \<and> (\<exists>fsize. make_header_layout dex I fsize (dl_map_off L) = Inr H) \<and> id_chain dex B I \<and> bases_set L
     \<and> (\<exists>class_items call_sites handles map_list. emit_class_def_pool classes = Inr class_items
          \<and> id_positions out B I (emit_proto_pool protos) class_items call_sites handles \<and> data_positions out B (il_data_off I) L map_list)"

lemma pool_blob_lengths:
  assumes "emit_leaf_blobs D dex = Inr B" and "length (df_strings dex) < 2 ^ 32" and "length (lb_string_data B) < 2 ^ 32"
  shows "length (lb_string_ids B) = 4 * length (df_strings dex)" "length (lb_types B) = 4 * length (df_type_descriptors dex)"
    "length (lb_fields B) = 8 * length (df_fields dex)" "length (lb_methods B) = 8 * length (df_methods dex)"
    "length (lift_string_ids base (lb_string_ids B)) = length (lb_string_ids B)"
proof -
  obtain idxs where b: "emit_string_pool D (map (\<lambda>s. (declared_chars s, raw_bytes s)) (df_strings dex)) = (lb_string_ids B, lb_string_data B)"
    "lb_types B = words_to_le idxs"
    "list_all2 (\<lambda>i d. unat i < length (df_strings dex) \<and> d = as_str_lossy (df_strings dex ! unat i)) idxs (df_type_descriptors dex)"
    "emit_field_pool (df_fields dex) = Inr (lb_fields B)" "emit_method_pool (df_methods dex) = Inr (lb_methods B)"
    by (rule emit_leaf_blobsD [OF assms(1, 2)])
  obtain offs where "lb_string_ids B = words_to_le offs" "length offs = length (df_strings dex)"
    using emit_string_pool_layout [OF b(1) assms(3)] by (auto dest: list_all2_lengthD)
  then show "length (lb_string_ids B) = 4 * length (df_strings dex)" "length (lift_string_ids base (lb_string_ids B)) = length (lb_string_ids B)"
    by (simp_all add: lift_string_ids_words)
  show "length (lb_types B) = 4 * length (df_type_descriptors dex)" using b(2, 3) by (simp add: list_all2_lengthD)
  have "emit_field_pool fs = Inr bs \<Longrightarrow> length bs = 8 * length fs" for fs bs
    by (induction fs arbitrary: bs) (auto simp: emit_field_pool_def concat_rows_def row_lengths)
  then show "length (lb_fields B) = 8 * length (df_fields dex)" using b(4) by blast
  have "emit_method_pool ms = Inr bs \<Longrightarrow> length bs = 8 * length ms" for ms bs
    by (induction ms arbitrary: bs) (auto simp: emit_method_pool_def concat_rows_def row_lengths)
  then show "length (lb_methods B) = 8 * length (df_methods dex)" using b(5) by blast
qed

text \<open>A string whose stored form is what the parser makes of its raw bytes.\<close>

definition string_ready :: "(byte list \<Rightarrow> nat + rstring) \<Rightarrow> DexString \<Rightarrow> bool" where
  "string_ready dec s \<longleftrightarrow> list_all (\<lambda>b. b \<noteq> 0) (raw_bytes s) \<and> string_entry dec (raw_bytes s) (declared_chars s) True = s"

context dex_deps
begin

lemma emit_canonical_emitted:
  assumes "emit_canonical D ho dex config = Inr (out, ts)" and "\<not> preserve_input_checksums config"
    and v: "take 3 (drop 4 (magic (df_header dex))) \<in> set SUPPORTED_VERSIONS" and sha: "\<And>bs. length (sha1_digest D bs) = 20"
  obtains B I L R H protos classes ck sg where "emitted D dex config out B I L R H protos classes"
    "parse D out = Inr (layout_header H ck sg)" "verify_checksum D (layout_header H ck sg) out = Inr ()"
proof -
  obtain B I L its map_list fsize protos classes class_items call_sites handles H where
    e: "emit_leaf_blobs D dex = Inr B" "layout_ids dex B = Inr I" "layout_data D dex config B (il_data_off I) = Inr L"
    "advance ''map_list'' ''map_list offset overflow'' (dl_map_off L) (length map_list) = Inr fsize"
    "mapE (remap_proto (dl_list_base L) (lb_type_list_remap B)) (df_protos dex) = Inr protos"
    "mapE (remap_class (lb_type_list_remap B) L) (df_class_defs dex) = Inr classes" "emit_class_def_pool classes = Inr class_items"
    "emit_call_site_id_section (dl_call_sites L) = Inr call_sites" "emit_method_handle_section (df_method_handles dex) = Inr handles"
    "make_header_layout dex I fsize (dl_map_off L) = Inr H"
    and all: "length (assemble_file B I L (emit_header H) (emit_proto_pool protos) class_items call_sites handles map_list) = unat fsize"
    "finalize_checksums D (assemble_file B I L (emit_header H) (emit_proto_pool protos) class_items call_sites handles map_list) = Inr out"
    by (rule emit_canonicalD [OF assms(1, 2)]) blast
  obtain R where R: "data_sections D dex config B L R" "data_chain B (unat (il_data_off I)) L" using layout_dataD [OF e(3)] by blast
  note h = make_header_layoutD [OF e(10)]
  have v': "hl_version H \<in> set SUPPORTED_VERSIONS" using v h(1) by simp
  define body where "body = assemble_file B I L [] (emit_proto_pool protos) class_items call_sites handles map_list"
  have a: "assemble_file B I L hdr (emit_proto_pool protos) class_items call_sites handles map_list = hdr @ body" for hdr
    by (simp add: body_def assemble_file_def)
  have l: "length (emit_header H) = 112" using emit_header_length supported_version_length [OF v'] by simp
  have len: "length (emit_header H @ body) = unat fsize" using all(1) a by simp
  have f: "fits (emit_header H @ body)" using len unat_u32_lt [of fsize] by (simp add: fits_def)
  obtain out' where o': "finalize_checksums D (emit_header H @ body) = Inr out'" "drop 32 out' = drop 32 (emit_header H @ body)"
    "parse D out' = Inr (layout_header H (adler32_slice D (drop 12 out')) (sha1_digest D (drop 32 out')))"
    "verify_checksum D (layout_header H (adler32_slice D (drop 12 out')) (sha1_digest D (drop 32 out'))) out' = Inr ()"
    using finalized_header [OF f v' _ sha] len h(2) by metis
  have "out' = out" using o'(1) all(2) unfolding a by (metis sum.inject(2))
  with o'(2-4) obtain ck sg where o: "drop 32 out = drop 32 (emit_header H @ body)" "parse D out = Inr (layout_header H ck sg)"
    "verify_checksum D (layout_header H ck sg) out = Inr ()" by blast
  have "drop 80 (drop 32 out) = drop 80 (drop 32 (emit_header H @ body))" using o(1) by simp
  then have d: "drop 112 out = body" using l by simp
  have lo: "length out = length (emit_header H @ body)" using arg_cong [OF o(1), of length] l by simp
  have out: "out = take 112 out @ body" "length (take 112 out) = 112"
    using append_take_drop_id [of 112 out, unfolded d] lo l by simp_all
  have sd: "length (lb_string_data B) < 2 ^ 32" using unat_u32_lt [of fsize] len by (simp add: body_def assemble_file_def)
  have ns: "length (df_strings dex) < 2 ^ 32" using h(4) unat_u32_lt [of "hl_string_ids_size H"] by simp
  note pl = pool_blob_lengths [OF e(1) ns sd]
  have cs: "length (dl_call_sites L) = length (df_call_site_ids dex)" using R(1) by (auto simp: data_sections_def dest: mapE_length)
  have "id_positions out B I (emit_proto_pool protos) class_items call_sites handles \<and> data_positions out B (il_data_off I) L map_list
    \<and> id_chain dex B I \<and> bases_set L"
    by (rule assemble_positions [OF e(2) R(2) advance_le [OF e(4)] out(2) pl(5), of "emit_proto_pool protos" class_items call_sites handles])
      (use emit_pool_lengths(2) [OF e(7)] emit_pool_lengths(3) [OF e(8)] emit_pool_lengths(4) [OF e(9)] mapE_length [OF e(5)] mapE_length [OF e(6)] cs
         out(1) a lo len in \<open>simp_all add: emit_pool_lengths(1)\<close>)
  then have "emitted D dex config out B I L R H protos classes"
    unfolding emitted_def using e(1, 5, 6, 7, 10) R(1) lo len unat_u32_lt [of fsize] by auto
  from that [OF this o(2, 3)] show thesis .
qed

lemma emitted_leaf:
  assumes "emitted D dex config out B I L R H protos classes"
  obtains idxs where "emit_type_list_section (df_type_lists dex) = Inr (lb_type_lists B, lb_type_list_remap B)"
    "emit_code_item_section D (df_code_items dex) = Inr (lb_code B, lb_code_remap B)"
    "emit_string_pool D (map (\<lambda>s. (declared_chars s, raw_bytes s)) (df_strings dex)) = (lb_string_ids B, lb_string_data B)"
    "lb_types B = words_to_le idxs"
    "list_all2 (\<lambda>i d. unat i < length (df_strings dex) \<and> d = as_str_lossy (df_strings dex ! unat i)) idxs (df_type_descriptors dex)"
    "emit_field_pool (df_fields dex) = Inr (lb_fields B)" "emit_method_pool (df_methods dex) = Inr (lb_methods B)"
proof -
  obtain fsize where b: "emit_leaf_blobs D dex = Inr B" "make_header_layout dex I fsize (dl_map_off L) = Inr H"
    using assms by (auto simp: emitted_def)
  have "length (df_strings dex) < 2 ^ 32" using make_header_layoutD(4) [OF b(2)] unat_u32_lt [of "hl_string_ids_size H"] by simp
  from emit_leaf_blobsD [OF b(1) this that] show thesis .
qed

text \<open>An entry of a section, in the file that holds the section.\<close>

lemma entry_at:
  assumes "section_holds align emit m blob remap" and "at_off data (unat base) blob" and "length data < 2 ^ 32" and "btree_ok m"
    and "linked base remap a b" and "a \<noteq> 0"
  obtains x bs where "map_of m a = Some x" "(a, x) \<in> set m" "emit a x = Inr bs" "at_off data (unat b) bs"
proof -
  obtain x local where l: "(a, x) \<in> set m" "map_of m a = Some x" "map_of remap a = Some local" "b = base + local"
    using linkedD [OF assms(5, 6, 1, 4)] by blast
  obtain bs where bs: "emit a x = Inr bs" "at_off blob (unat local) bs" using assms(1) l(1, 3) by (fastforce simp: section_holds_def)
  have at: "at_off data (unat base + unat local) bs" by (rule at_off_trans [OF assms(2) bs(2)])
  have "unat b = unat base + unat local" using unat_add_no_wrap at_off_len [OF at] assms(3) l(4) by simp
  with at bs(1) l(1, 2) that show thesis by metis
qed

lemma lifted_strings_at:
  assumes "emit_string_pool D entries = (ids, items)" and "at_off out (unat base) items" and "length out < 2 ^ 32"
  obtains offs where "lift_string_ids base ids = words_to_le offs"
    "list_all2 (\<lambda>(declared, raw) off. at_off out (unat off) (common_write_uleb128 D declared @ raw @ [0])) entries offs"
proof -
  have "length items < 2 ^ 32" using at_off_len [OF assms(2)] assms(3) by simp
  then obtain rel where r: "ids = words_to_le rel"
    "list_all2 (\<lambda>(declared, raw) p. at_off items (unat p) (common_write_uleb128 D declared @ raw @ [0])) entries rel"
    using emit_string_pool_layout [OF assms(1)] by blast
  have up: "at_off out (unat (sat_add base (unat p))) bs" if "at_off items (unat p) bs" "bs \<noteq> []" for p :: u32 and bs
  proof -
    have at: "at_off out (unat base + unat p) bs" by (rule at_off_trans [OF assms(2) that(1)])
    moreover have "0 < length bs" using that(2) by simp
    ultimately have "unat base + unat p < 2 ^ 32" using at_off_len [OF at] assms(3) by linarith
    with at show ?thesis by (simp add: sat_add_ge)
  qed
  have "list_all2 (\<lambda>(declared, raw) off. at_off out (unat off) (common_write_uleb128 D declared @ raw @ [0])) entries (map (\<lambda>p. sat_add base (unat p)) rel)"
    unfolding list_all2_map2 by (rule list_all2_mono [OF r(2)]) (auto intro!: up)
  then show thesis by (rule that [OF lift_string_ids_words [of base rel, folded r(1)]])
qed

lemma emitted_params:
  assumes e: "emitted D dex config out B I L R H protos classes" and "btree_ok (df_type_lists dex)"
    and "lists_ok nt (df_type_lists dex)"
  shows "list_all (params_at out nt (\<lambda>off. ok_opt (Some (parse_one_type_list D out nt ''type_list'' ''parse_type_lists'' off)))) protos"
proof -
  have lt: "length out < 2 ^ 32" and f: "fits out" using e by (simp_all add: emitted_def fits_def)
  have "emit_type_list_section (df_type_lists dex) = Inr (lb_type_lists B, lb_type_list_remap B)"
    using emitted_leaf [OF e] by metis
  then have sec: "section_holds 4 (\<lambda>_. emit_type_list) (df_type_lists dex) (lb_type_lists B) (lb_type_list_remap B)"
    using emit_section_holds assms(2) unfolding emit_type_list_section_eq by fastforce
  have at: "at_off out (unat (dl_list_base L)) (lb_type_lists B)" using e by (auto simp: emitted_def data_positions_def)
  have "params_at out nt (\<lambda>off. ok_opt (Some (parse_one_type_list D out nt ''type_list'' ''parse_type_lists'' off))) q"
    if q: "remap_proto (dl_list_base L) (lb_type_list_remap B) p = Inr q" for p q
  proof (cases "parameters_off p = 0")
    case True
    then show ?thesis using q by (auto simp: remap_proto_def resolve_off_def params_at_def)
  next
    case False
    have k: "linked (dl_list_base L) (lb_type_list_remap B) (parameters_off p) (parameters_off q)"
      using q by (auto simp: remap_proto_def dest!: resolve_offD)
    obtain ts bs where t: "(parameters_off p, ts) \<in> set (df_type_lists dex)" "emit_type_list ts = Inr bs" "at_off out (unat (parameters_off q)) bs"
      by (rule entry_at [OF sec at lt assms(2) k False])
    have ok: "type_list_ok nt ts" using assms(3) t(1) by (auto simp: lists_ok_def list_all_iff)
    have n: "length ts < 2 ^ 32" using at_off_len [OF t(3)] emit_type_list_length [OF t(2)] lt by simp
    from type_list_back [OF t(2) ok n f t(3)] show ?thesis unfolding params_at_def using t(2, 3) ok n by (auto simp: ok_opt_def)
  qed
  moreover have "list_all2 (\<lambda>p q. remap_proto (dl_list_base L) (lb_type_list_remap B) p = Inr q) (df_protos dex) protos"
    using e by (auto simp: emitted_def mapE_Inr_iff)
  ultimately show ?thesis by (auto simp: list_all2_conv_all_nth list_all_length)
qed

lemma remapped_rows_ok:
  assumes e: "emitted D dex config out B I L R H protos classes"
  shows "length protos = length (df_protos dex)" "length classes = length (df_class_defs dex)"
    "list_all (proto_ok ns nt) (df_protos dex) \<Longrightarrow> list_all (proto_ok ns nt) protos"
    "list_all (class_ok nt ns) (df_class_defs dex) \<Longrightarrow> list_all (class_ok nt ns) classes"
proof -
  have p: "list_all2 (\<lambda>p q. remap_proto (dl_list_base L) (lb_type_list_remap B) p = Inr q) (df_protos dex) protos"
    and c: "list_all2 (\<lambda>c q. remap_class (lb_type_list_remap B) L c = Inr q) (df_class_defs dex) classes"
    using e by (auto simp: emitted_def mapE_Inr_iff)
  show "length protos = length (df_protos dex)" "length classes = length (df_class_defs dex)" using p c by (simp_all add: list_all2_lengthD)
  show "list_all (proto_ok ns nt) (df_protos dex) \<Longrightarrow> list_all (proto_ok ns nt) protos"
    using p by (induction rule: list_all2_induct) (auto simp: remap_proto_def proto_ok_def)
  show "list_all (class_ok nt ns) (df_class_defs dex) \<Longrightarrow> list_all (class_ok nt ns) classes"
    using c by (induction rule: list_all2_induct) (auto simp: remap_class_def class_ok_def)
qed

lemma emitted_pools:
  assumes e: "emitted D dex config out B I L R H protos classes"
    and hdr: "parse D out = Inr (layout_header H ck sg)" "verify_checksum D (layout_header H ck sg) out = Inr ()"
    and t: "file_typed dex" and s: "list_all (string_ready dec) (df_strings dex)" and l: "btree_ok (df_type_lists dex)"
  shows "\<exists>P. parse_pools D dec out = Inr P \<and> p_strings P = df_strings dex \<and> p_types P = df_type_descriptors dex
    \<and> p_fields P = df_fields dex \<and> p_methods P = df_methods dex \<and> p_protos P = protos \<and> p_class_defs P = classes"
proof -
  let ?h = "layout_header H ck sg" and ?entries = "map (\<lambda>s. (declared_chars s, raw_bytes s)) (df_strings dex)"
  let ?ns = "length (df_strings dex)" and ?nt = "length (df_type_descriptors dex)"
  obtain idxs where b: "emit_string_pool D ?entries = (lb_string_ids B, lb_string_data B)" "lb_types B = words_to_le idxs"
    "list_all2 (\<lambda>i d. unat i < ?ns \<and> d = as_str_lossy (df_strings dex ! unat i)) idxs (df_type_descriptors dex)"
    "emit_field_pool (df_fields dex) = Inr (lb_fields B)" "emit_method_pool (df_methods dex) = Inr (lb_methods B)"
    by (rule emitted_leaf [OF e])
  obtain fsize class_items call_sites handles map_list where
    H: "make_header_layout dex I fsize (dl_map_off L) = Inr H" and ci: "emit_class_def_pool classes = Inr class_items"
    and ip: "id_positions out B I (emit_proto_pool protos) class_items call_sites handles" and dp: "data_positions out B (il_data_off I) L map_list"
    and ch: "id_chain dex B I" and lb: "emit_leaf_blobs D dex = Inr B" and lt: "length out < 2 ^ 32"
    using e by (auto simp: emitted_def)
  note h = make_header_layoutD [OF H] and i = ip [unfolded id_positions_def] and r = remapped_rows_ok [OF e]
  have f: "fits out" using lt by (simp add: fits_def)
  have sd: "at_off out (unat (il_data_off I)) (lb_string_data B)" using dp by (simp add: data_positions_def)
  obtain offs where offs: "lift_string_ids (il_data_off I) (lb_string_ids B) = words_to_le offs"
    "list_all2 (\<lambda>(declared, raw) off. at_off out (unat off) (common_write_uleb128 D declared @ raw @ [0])) ?entries offs"
    by (rule lifted_strings_at [OF b(1) sd lt])
  have ok: "list_all (proto_ok ?ns ?nt) (df_protos dex)" "list_all (field_ok ?nt ?ns) (df_fields dex)"
    "list_all (method_ok ?nt (length (df_protos dex)) ?ns) (df_methods dex)" "list_all (class_ok ?nt ?ns) (df_class_defs dex)"
    "lists_ok ?nt (df_type_lists dex)"
    using t by (simp_all add: file_typed_def lists_ok_def Let_def)
  have ni: "length idxs = ?nt" using b(3) by (simp add: list_all2_lengthD)
  let ?P = "\<lparr>p_header = ?h, p_strings = df_strings dex, p_string_offs = offs, p_types = df_type_descriptors dex, p_type_idxs = idxs,
     p_protos = protos, p_type_lists = [], p_fields = df_fields dex, p_methods = df_methods dex, p_class_defs = classes\<rparr>"
  have "list_all2 (\<lambda>(declared, raw) off. list_all (\<lambda>b. b \<noteq> 0) raw
      \<and> at_off out (unat off) (common_write_uleb128 D declared @ raw @ [0])) ?entries offs"
    using offs(2) s by (auto simp: list_all2_conv_all_nth list_all_length string_ready_def)
  then have pools: "pools_at D out ?entries ?P"
    using i offs(1) b ci ok r h ni by (simp add: pools_at_def layout_header_def)
  have strs: "p_strings ?P = map (\<lambda>(declared, raw). string_entry dec raw declared True) ?entries"
    using s by (simp add: list_all_iff string_ready_def comp_def cong: map_cong)
  have sdl: "length (lb_string_data B) < 2 ^ 32" using at_off_len [OF sd] lt by simp
  have "?ns < 2 ^ 32" using h(4) unat_u32_lt [of "hl_string_ids_size H"] by simp
  from emitted_sections_apart [OF ch H pool_blob_lengths(1-4) [OF lb this sdl]]
  have gap: "check_id_section_overlap (p_header ?P) = Inr ()" by simp
  have par: "list_all (params_at out (length (p_type_idxs ?P)) (\<lambda>off. ok_opt (Some (parse_one_type_list D out ?nt ''type_list'' ''parse_type_lists'' off)))) (p_protos ?P)"
    using emitted_params [OF e l ok(5)] ni by simp
  from parse_pools_back [OF f pools _ _ gap strs par] hdr show ?thesis by auto
qed

end

end
