(* ===== verification/Dex_Emit_Facts.thy ===== *)
theory Dex_Emit_Facts
  imports Dex_Emit_Pools
begin

text \<open>
  A file written by the canonical emitter refines the file it was written from: its pools parse back, and following the
  offsets of every proto and class gives the type lists, annotations, members, code and static values that the maps
  of the original gave.
\<close>

section \<open>Views of a file\<close>

text \<open>What an offset leads to in the bytes, and in the maps.\<close>

definition read_types :: "deps \<Rightarrow> byte list \<Rightarrow> nat \<Rightarrow> u32 \<Rightarrow> TypeIdx list option" where
  "read_types D data nt off = (if off = 0 then None else ok_opt (Some (parse_one_type_list D data nt ''type_list'' ''parse_type_lists'' off)))"

definition model_types :: "DexFile \<Rightarrow> u32 \<Rightarrow> TypeIdx list option" where
  "model_types dex off = (if off = 0 then None else map_of (df_type_lists dex) off)"

definition read_values :: "deps \<Rightarrow> byte list \<Rightarrow> u32 \<Rightarrow> EncodedValue list option" where
  "read_values D data off = (if off = 0 then None else map_option fst (ok_opt (parse_encoded_array D data off)))"

definition model_values :: "DexFile \<Rightarrow> u32 \<Rightarrow> EncodedValue list option" where
  "model_values dex off = (if off = 0 then None else map_of (df_encoded_arrays dex) off)"

definition read_annotations where
  "read_annotations D data off =
     (if off = 0 then None
      else map_option (view_directory (read_set D data) (read_ref_list D data)) (ok_opt (Some (parse_annotation_directory D data off))))"

definition model_annotations where
  "model_annotations dex off =
     (if off = 0 then None
      else map_option (view_directory (model_set (df_annotation_sets dex) (df_annotation_items dex))
             (model_ref_list (df_annotation_set_ref_lists dex) (df_annotation_sets dex) (df_annotation_items dex))) (map_of (df_annotations dex) off))"

definition read_members where
  "read_members D data off =
     (if off = 0 then None
      else map_option (\<lambda>r. view_class_data (read_code D data) (fst r)) (ok_opt (Some (parse_class_data_with_consumed D data off))))"

definition model_members where
  "model_members dex off =
     (if off = 0 then None else map_option (view_class_data (model_code (df_code_items dex))) (map_of (df_class_datas dex) off))"

definition view_proto :: "(u32 \<Rightarrow> 'a) \<Rightarrow> ProtoIdItem \<Rightarrow> StringIdx \<times> TypeIdx \<times> 'a" where
  "view_proto types p = (shorty_idx p, return_type_idx p, types (parameters_off p))"

definition view_class ::
  "(u32 \<Rightarrow> 'a) \<Rightarrow> (u32 \<Rightarrow> 'b) \<Rightarrow> (u32 \<Rightarrow> 'c) \<Rightarrow> (u32 \<Rightarrow> 'd) \<Rightarrow> ClassDefItem
   \<Rightarrow> (TypeIdx \<times> u32 \<times> TypeIdx option \<times> StringIdx option) \<times> 'a \<times> 'b \<times> 'c \<times> 'd" where
  "view_class types annots members values c =
     ((cd_class_idx c, cd_access_flags c, superclass_idx c, source_file_idx c),
      types (interfaces_off c), annots (annotations_off c), members (class_data_off c), values (static_values_off c))"

text \<open>What the maps of a file must satisfy for its content to be representable.\<close>

definition maps_ready :: "DexFile \<Rightarrow> bool" where
  "maps_ready dex \<longleftrightarrow>
     btree_ok (df_type_lists dex) \<and> btree_ok (df_code_items dex) \<and> btree_ok (df_class_datas dex) \<and> btree_ok (df_annotation_items dex)
     \<and> btree_ok (df_annotation_sets dex) \<and> btree_ok (df_annotation_set_ref_lists dex) \<and> btree_ok (df_annotations dex) \<and> btree_ok (df_encoded_arrays dex)
     \<and> list_all (\<lambda>(k, ci). code_laid_out ci) (df_code_items dex) \<and> list_all (\<lambda>(k, cd). flags_ok cd) (df_class_datas dex)
     \<and> list_all (\<lambda>(k, item). ann_ok (item_annotation item) \<and> ann_depth (item_annotation item) \<le> PARSE_STACK_FRAME_CAP) (df_annotation_items dex)
     \<and> list_all (\<lambda>(k, entries). 0 \<notin> set entries) (df_annotation_sets dex)
     \<and> list_all (\<lambda>(k, vs). list_all value_ok vs \<and> list_all (\<lambda>v. depth v \<le> PARSE_STACK_FRAME_CAP) vs) (df_encoded_arrays dex)"

definition file_ready :: "(byte list \<Rightarrow> nat + rstring) \<Rightarrow> DexFile \<Rightarrow> bool" where
  "file_ready dec dex \<longleftrightarrow> file_typed dex \<and> maps_ready dex \<and> list_all (string_ready dec) (df_strings dex)
     \<and> take 3 (drop 4 (magic (df_header dex))) \<in> set SUPPORTED_VERSIONS"

section \<open>References of the emitted file\<close>

text \<open>A list that was written at a place of the file is shorter than the file.\<close>

lemma entry_short:
  assumes "section_holds align emit m blob remap" and "at_off data (unat base) blob" and "length data < 2 ^ 32"
    and "\<And>k x bs. emit k x = Inr bs \<Longrightarrow> length x \<le> length bs"
  shows "list_all (\<lambda>(k, x). length x < 2 ^ 32) m"
proof -
  have "length x < 2 ^ 32" if x: "(k, x) \<in> set m" for k x
  proof -
    obtain local :: u32 and bs where b: "emit k x = Inr bs" "at_off blob (unat local) bs" using assms(1) x unfolding section_holds_def by blast
    have "length bs \<le> length blob" "length blob \<le> length data" using at_off_len [OF b(2)] at_off_len [OF assms(2)] by simp_all
    with assms(4) [OF b(1)] assms(3) show ?thesis by linarith
  qed
  then show ?thesis by (auto simp: list_all_iff)
qed

lemma set_entry_length: "emit_set_entry ib ir k es = Inr bs \<Longrightarrow> length es \<le> length bs"
  by (auto simp: emit_set_entry_def emit_annotation_set_bytes_def dest: mapE_length)

lemma ref_entry_length: "emit_ref_list_entry ib ir k es = Inr bs \<Longrightarrow> length es \<le> length bs"
  by (auto simp: emit_ref_list_entry_def emit_annotation_set_bytes_def dest: mapE_length)

lemma type_entry_length: "emit_type_list ts = Inr bs \<Longrightarrow> length ts \<le> length bs"
  by (auto dest: emit_type_list_length)

context section_codec
begin

lemma linked_reads:
  assumes "section_holds align emit m blob remap" and "btree_ok m" and "list_all (\<lambda>(k, x). good x) m" and "length data < 2 ^ 32"
    and "at_off data (unat base) blob" and "base \<noteq> 0" and "linked base remap a b" and "a \<noteq> 0"
  obtains x where "map_of m a = Some x" "b \<noteq> 0" "reads data b a x"
proof -
  obtain x local where x: "(a, x) \<in> set m" "map_of m a = Some x" "map_of remap a = Some local" "b = base + local"
    using linkedD [OF assms(7, 8, 1, 2)] by blast
  have r: "unat b = unat base + unat local" "reads data b a x" using section_reads [OF assms(1, 3-6) x(1)] x(3, 4) by auto
  have "b \<noteq> 0" using r(1) assms(6) by (metis add_is_0 unat_eq_zero)
  from that [OF x(2) this r(2)] show thesis .
qed

end

context dex_deps
begin

lemma types_linked:
  assumes e: "emitted D dex config out B I L R H protos classes" and "maps_ready dex" and "lists_ok nt (df_type_lists dex)"
    and l: "linked (dl_list_base L) (lb_type_list_remap B) a b"
  shows "read_types D out nt b = model_types dex a"
proof (cases "a = 0")
  case False
  have lt: "length out < 2 ^ 32" and nz: "dl_list_base L \<noteq> 0" and at: "at_off out (unat (dl_list_base L)) (lb_type_lists B)"
    using e by (auto simp: emitted_def bases_set_def data_positions_def)
  have ok: "btree_ok (df_type_lists dex)" using assms(2) by (simp add: maps_ready_def)
  have "emit_type_list_section (df_type_lists dex) = Inr (lb_type_lists B, lb_type_list_remap B)" by (rule emitted_leaf [OF e])
  then have sec: "section_holds 4 (\<lambda>_. emit_type_list) (df_type_lists dex) (lb_type_lists B) (lb_type_list_remap B)"
    using emit_section_holds ok unfolding emit_type_list_section_eq by fastforce
  have g: "list_all (\<lambda>(k, ts). type_list_ok nt ts \<and> length ts < 2 ^ 32) (df_type_lists dex)"
    using entry_short [OF sec at lt type_entry_length] assms(3) by (auto simp: lists_ok_def list_all_iff)
  obtain ts where "map_of (df_type_lists dex) a = Some ts" "b \<noteq> 0" "parse_one_type_list D out nt ''type_list'' ''parse_type_lists'' b = Inr ts"
    by (rule type_lists.linked_reads [OF sec ok g lt at nz l False])
  with False show ?thesis by (simp add: read_types_def model_types_def ok_opt_def)
qed (use l in \<open>simp add: linked_def read_types_def model_types_def\<close>)

lemma values_linked:
  assumes e: "emitted D dex config out B I L R H protos classes" and m: "maps_ready dex"
    and l: "linked (dl_array_base L) (dl_array_remap L) a b"
  shows "read_values D out b = model_values dex a"
proof (cases "a = 0")
  case False
  have lt: "length out < 2 ^ 32" and nz: "dl_array_base L \<noteq> 0" and at: "at_off out (unat (dl_array_base L)) (dl_array L)"
    using e by (auto simp: emitted_def bases_set_def data_positions_def)
  let ?w = "if preserve_encoded_value_width config then Some (df_encoded_array_widths dex) else None"
  have "emit_encoded_array_section_with_widths D (df_encoded_arrays dex) ?w = Inr (dl_array L, dl_array_remap L)"
    using e by (simp add: emitted_def data_sections_def)
  then have sec: "section_holds 1 (\<lambda>k vs. emit_encoded_array_with_widths D vs (Option.bind ?w (\<lambda>w. map_of w k))) (df_encoded_arrays dex)
      (dl_array L) (dl_array_remap L)"
    using emit_section_holds m unfolding emit_encoded_array_section_with_widths_def maps_ready_def by fastforce
  obtain vs tops where "map_of (df_encoded_arrays dex) a = Some vs" "b \<noteq> 0" "parse_encoded_array D out b = Some (Inr (vs, tops))"
    by (rule arrays.linked_reads [OF sec _ _ lt at nz l False]) (use m in \<open>auto simp: maps_ready_def\<close>)
  with False show ?thesis by (simp add: read_values_def model_values_def ok_opt_def)
qed (use l in \<open>simp add: linked_def read_values_def model_values_def\<close>)

lemma code_linked:
  assumes e: "emitted D dex config out B I L R H protos classes" and m: "maps_ready dex"
    and l: "linked (dl_code_base L) (lb_code_remap B) a b"
  shows "read_code D out b = model_code (df_code_items dex) a"
proof (cases "a = 0")
  case False
  have lt: "length out < 2 ^ 32" and nz: "dl_code_base L \<noteq> 0" and at: "at_off out (unat (dl_code_base L)) (dl_code L)"
    and p: "foldE (patch_debug_off dex (dl_debug_base L) (lb_debug_remap B)) (lb_code B) (lb_code_remap B) = Inr (dl_code L)"
    using e by (auto simp: emitted_def bases_set_def data_positions_def data_sections_def)
  have ok: "btree_ok (df_code_items dex)" "list_all (\<lambda>(k, ci). code_laid_out ci) (df_code_items dex)" using m by (simp_all add: maps_ready_def)
  have c: "emit_section 4 ''code_item_section'' ''code_item blob exceeds u32 byte offset'' (emit_code_entry D) (df_code_items dex) = Inr (lb_code B, lb_code_remap B)"
    unfolding emit_code_item_section_def [symmetric] by (rule emitted_leaf [OF e])
  have "code_section D dex (lb_code B) (lb_code_remap B)"
    unfolding code_section_def using emit_section_holds [OF c ok(1)] emit_section_spans [OF c ok(1)] ok(1) by simp
  note sec = code_section_patched [OF this p]
  obtain ci where "map_of (df_code_items dex) a = Some ci" "read_code D out b = Some (code_body ci)"
    by (rule patched_code.linked_reads [OF sec ok lt at nz l False])
  with False show ?thesis by (simp add: model_code_def)
qed (use l in \<open>simp add: linked_def read_code_def model_code_def\<close>)

lemma members_linked:
  assumes e: "emitted D dex config out B I L R H protos classes" and m: "maps_ready dex"
    and l: "linked (dl_class_base L) (dl_class_remap L) a b"
  shows "read_members D out b = model_members dex a"
proof (cases "a = 0")
  case False
  have lt: "length out < 2 ^ 32" and nz: "dl_class_base L \<noteq> 0" and at: "at_off out (unat (dl_class_base L)) (dl_class L)"
    and c: "emit_class_data_section D (df_class_datas dex) (lb_code_remap B) (dl_code_base L) = Inr (dl_class L, dl_class_remap L)"
    using e by (auto simp: emitted_def bases_set_def data_positions_def data_sections_def)
  have ok: "btree_ok (df_class_datas dex)" "list_all (\<lambda>(k, cd). flags_ok cd) (df_class_datas dex)" using m by (simp_all add: maps_ready_def)
  have sec: "section_holds 1 (emit_class_data_entry D (lb_code_remap B) (dl_code_base L)) (df_class_datas dex) (dl_class L) (dl_class_remap L)"
    using emit_section_holds c ok(1) unfolding emit_class_data_section_def by fastforce
  obtain cd local where x: "(a, cd) \<in> set (df_class_datas dex)" "map_of (df_class_datas dex) a = Some cd" "map_of (dl_class_remap L) a = Some local"
    "b = dl_class_base L + local" using linkedD [OF l False sec ok(1)] by blast
  obtain cd' n where r: "parse_class_data_with_consumed D out b = Inr (cd', n)"
    "view_class_data (read_code D out) cd' = view_class_data (model_code (df_code_items dex)) cd"
    using read_class [OF sec ok(2) lt at nz x(1), of "read_code D out" "model_code (df_code_items dex)"] code_linked [OF e m] x(3, 4) by auto
  have "b \<noteq> 0" by (rule class_datas.linked_reads [OF sec ok lt at nz l False])
  with False r x(2) show ?thesis by (simp add: read_members_def model_members_def ok_opt_def)
qed (use l in \<open>simp add: linked_def read_members_def model_members_def\<close>)

lemma annotations_linked:
  assumes e: "emitted D dex config out B I L R H protos classes" and m: "maps_ready dex"
    and l: "linked (dl_dir_base L) (dl_dir_remap L) a b"
  shows "read_annotations D out b = model_annotations dex a"
proof (cases "a = 0")
  case False
  have lt: "length out < 2 ^ 32" and nz: "dl_item_base L \<noteq> 0" "dl_set_base L \<noteq> 0" "dl_ref_base L \<noteq> 0" "dl_dir_base L \<noteq> 0"
    and at: "at_off out (unat (dl_item_base L)) (dl_item L)" "at_off out (unat (dl_set_base L)) (dl_set L)"
      "at_off out (unat (dl_ref_base L)) (dl_ref L)" "at_off out (unat (dl_dir_base L)) (dl_dir L)"
    and c: "emit_annotation_item_section D (df_annotation_items dex) = Inr (dl_item L, dr_item R)"
      "emit_annotation_set_section (df_annotation_sets dex) (dl_item_base L) (dr_item R) = Inr (dl_set L, dr_set R)"
      "emit_annotation_set_ref_list_section (df_annotation_set_ref_lists dex) (dl_set_base L) (dr_set R) = Inr (dl_ref L, dr_ref R)"
      "emit_annotation_directory_section (df_annotations dex) (dl_set_base L) (dr_set R) (dl_ref_base L) (dr_ref R) = Inr (dl_dir L, dl_dir_remap L)"
    using e by (auto simp: emitted_def bases_set_def data_positions_def data_sections_def)
  have ok: "btree_ok (df_annotation_items dex)" "btree_ok (df_annotation_sets dex)" "btree_ok (df_annotation_set_ref_lists dex)" "btree_ok (df_annotations dex)"
    and items: "list_all (\<lambda>(k, item). ann_ok (item_annotation item) \<and> ann_depth (item_annotation item) \<le> PARSE_STACK_FRAME_CAP) (df_annotation_items dex)"
    and ne: "list_all (\<lambda>(k, entries). 0 \<notin> set entries) (df_annotation_sets dex)"
    using m by (simp_all add: maps_ready_def)
  have ih: "section_holds 1 (\<lambda>_ item. emit_annotation_item_bytes D item) (df_annotation_items dex) (dl_item L) (dr_item R)"
    using emit_section_holds c(1) ok(1) unfolding emit_annotation_item_section_def by fastforce
  have sh: "section_holds 4 (emit_set_entry (dl_item_base L) (dr_item R)) (df_annotation_sets dex) (dl_set L) (dr_set R)"
    using emit_section_holds c(2) ok(2) unfolding emit_annotation_set_section_def by fastforce
  have rh: "section_holds 4 (emit_ref_list_entry (dl_set_base L) (dr_set R)) (df_annotation_set_ref_lists dex) (dl_ref L) (dr_ref R)"
    using emit_section_holds c(3) ok(3) unfolding emit_annotation_set_ref_list_section_def by fastforce
  have dh: "section_holds 4 (emit_directory_entry (dl_set_base L) (dr_set R) (dl_ref_base L) (dr_ref R)) (df_annotations dex) (dl_dir L) (dl_dir_remap L)"
    using emit_section_holds c(4) ok(4) unfolding emit_annotation_directory_section_def by fastforce
  let ?ms = "model_set (df_annotation_sets dex) (df_annotation_items dex)"
  let ?ml = "model_ref_list (df_annotation_set_ref_lists dex) (df_annotation_sets dex) (df_annotation_items dex)"
  have short: "list_all (\<lambda>(k, es). length es < 2 ^ 32) (df_annotation_sets dex)" "list_all (\<lambda>(k, es). length es < 2 ^ 32) (df_annotation_set_ref_lists dex)"
    by (rule entry_short [OF sh at(2) lt], erule set_entry_length) (rule entry_short [OF rh at(3) lt], erule ref_entry_length)
  have rs: "read_set D out y = ?ms x" if "linked (dl_set_base L) (dr_set R) x y" for x y
    by (rule read_set_linked [OF ih ok(1) items sh ok(2) short(1) ne lt at(1) nz(1) at(2) nz(2) that])
  have rl: "read_ref_list D out y = ?ml x" if "linked (dl_ref_base L) (dr_ref R) x y" for x y
    by (rule read_ref_list_linked [OF rh ok(3) short(2) lt at(3) nz(3) rs that])
  obtain dir local where x: "(a, dir) \<in> set (df_annotations dex)" "map_of (df_annotations dex) a = Some dir" "map_of (dl_dir_remap L) a = Some local"
    "b = dl_dir_base L + local" using linkedD [OF l False dh ok(4)] by blast
  obtain dir' where r: "parse_annotation_directory D out b = Inr dir'"
    "view_directory (read_set D out) (read_ref_list D out) dir' = view_directory ?ms ?ml dir"
    using read_directory [OF dh lt at(4) nz(4) x(1), of "read_set D out" ?ms "read_ref_list D out" ?ml] rs rl x(3, 4) by auto
  have "b \<noteq> 0" by (rule directories.linked_reads [OF dh ok(4) _ lt at(4) nz(4) l False]) (auto simp: list_all_iff)
  with False r x(2) show ?thesis by (simp add: read_annotations_def model_annotations_def ok_opt_def)
qed (use l in \<open>simp add: linked_def read_annotations_def model_annotations_def\<close>)

end

section \<open>The emitted file\<close>

lemma view_protos_linked:
  assumes "mapE (remap_proto base remap) ps = Inr qs" and "\<And>a b. linked base remap a b \<Longrightarrow> rt b = mt a"
  shows "map (view_proto rt) qs = map (view_proto mt) ps"
proof -
  have "list_all2 (\<lambda>p q. remap_proto base remap p = Inr q) ps qs" using assms(1) by (simp add: mapE_Inr_iff)
  then show ?thesis by (induction rule: list_all2_induct) (auto simp: view_proto_def remap_proto_def dest!: resolve_offD assms(2))
qed

lemma view_classes_linked:
  assumes "mapE (remap_class remap L) cs = Inr ds" and "\<And>a b. linked (dl_list_base L) remap a b \<Longrightarrow> rt b = mt a"
    and "\<And>a b. linked (dl_dir_base L) (dl_dir_remap L) a b \<Longrightarrow> ra b = ma a" and "\<And>a b. linked (dl_class_base L) (dl_class_remap L) a b \<Longrightarrow> rm b = mm a"
    and "\<And>a b. linked (dl_array_base L) (dl_array_remap L) a b \<Longrightarrow> rv b = mv a"
  shows "map (view_class rt ra rm rv) ds = map (view_class mt ma mm mv) cs"
proof -
  have "list_all2 (\<lambda>p q. remap_class remap L p = Inr q) cs ds" using assms(1) by (simp add: mapE_Inr_iff)
  then show ?thesis
    by (induction rule: list_all2_induct) (auto simp: view_class_def remap_class_def dest!: resolve_offD intro!: assms(2-5))
qed

text \<open>C1 (emit_file_refines). A file written by the canonical emitter refines its original. For every well-formed file the emitter
  accepts, the bytes it returns pass the header, checksum and overlap gates and their pools parse back to the same
  strings, types, fields and methods; the protos and classes have new offsets, and following these offsets through the bytes
  gives the parameter lists, interfaces, annotations, fields, methods with their code, and static values
  that the maps of the original gave.\<close>

theorem emit_file_refines:
  assumes D: "dex_deps D" "\<forall>bs. length (sha1_digest D bs) = 20" and ready: "file_ready dec dex"
    and emit: "emit_canonical D hash_order dex config = Inr (out, transforms)" and "\<not> preserve_input_checksums config"
  shows "\<exists>P. parse_pools D dec out = Inr P \<and> p_strings P = df_strings dex \<and> p_types P = df_type_descriptors dex
    \<and> p_fields P = df_fields dex \<and> p_methods P = df_methods dex
    \<and> map (view_proto (read_types D out (length (p_types P)))) (p_protos P) = map (view_proto (model_types dex)) (df_protos dex)
    \<and> map (view_class (read_types D out (length (p_types P))) (read_annotations D out) (read_members D out) (read_values D out)) (p_class_defs P)
      = map (view_class (model_types dex) (model_annotations dex) (model_members dex) (model_values dex)) (df_class_defs dex)"
proof -
  note r = ready [unfolded file_ready_def]
  obtain B I L R H protos classes ck sg where e: "emitted D dex config out B I L R H protos classes"
    and h: "parse D out = Inr (layout_header H ck sg)" "verify_checksum D (layout_header H ck sg) out = Inr ()"
    by (rule dex_deps.emit_canonical_emitted [OF D(1) emit assms(5)]) (use r D(2) in auto)
  have m: "maps_ready dex" and lk: "lists_ok (length (df_type_descriptors dex)) (df_type_lists dex)"
    using r by (simp_all add: file_typed_def lists_ok_def Let_def)
  obtain P where P: "parse_pools D dec out = Inr P" "p_strings P = df_strings dex" "p_types P = df_type_descriptors dex"
    "p_fields P = df_fields dex" "p_methods P = df_methods dex" "p_protos P = protos" "p_class_defs P = classes"
    using dex_deps.emitted_pools [OF D(1) e h] r by (auto simp: maps_ready_def)
  note links = dex_deps.types_linked [OF D(1) e m lk] dex_deps.annotations_linked [OF D(1) e m] dex_deps.members_linked [OF D(1) e m]
    dex_deps.values_linked [OF D(1) e m]
  have mp: "mapE (remap_proto (dl_list_base L) (lb_type_list_remap B)) (df_protos dex) = Inr protos"
    "mapE (remap_class (lb_type_list_remap B) L) (df_class_defs dex) = Inr classes" using e by (simp_all add: emitted_def)
  have "map (view_proto (read_types D out (length (p_types P)))) (p_protos P) = map (view_proto (model_types dex)) (df_protos dex)"
    unfolding P(3, 6) by (rule view_protos_linked [OF mp(1)], rule links(1))
  moreover have "map (view_class (read_types D out (length (p_types P))) (read_annotations D out) (read_members D out) (read_values D out)) (p_class_defs P)
      = map (view_class (model_types dex) (model_annotations dex) (model_members dex) (model_values dex)) (df_class_defs dex)"
    unfolding P(3, 7) by (rule view_classes_linked [OF mp(2)], erule links(1), erule links(2), erule links(3), erule links(4))
  ultimately show ?thesis using P(1-5) by blast
qed

section \<open>Witness\<close>

text \<open>One type, one proto with a parameter, and one class with an interface and a static value.\<close>

definition sample_dex :: DexFile where
  "sample_dex = \<lparr>df_header = layout_header sample_file_layout 0 [], df_strings = [Decoded [0x49] [0x49] 1 True], df_string_data_offs = [152],
     df_type_descriptors = [[0x49]],
     df_protos = [\<lparr>shorty_idx = StringIdx 0, return_type_idx = TypeIdx 0, parameters_off = 8\<rparr>], df_fields = [], df_methods = [],
     df_class_defs = [\<lparr>cd_class_idx = TypeIdx 0, cd_access_flags = 1, superclass_idx = None, interfaces_off = 8,
       source_file_idx = None, annotations_off = 0, class_data_off = 0, static_values_off = 5\<rparr>],
     df_annotations = [], df_type_lists = [(8, [TypeIdx 0])], df_class_datas = [], df_raw_class_data_bytes = [], df_code_items = [],
     df_debug_infos = [], df_debug_info_raw_bytes = [], df_debug_info_section_layout = [], df_annotation_set_section_layout = [],
     df_input_checksums_canonical = True, df_annotation_sets = [], df_annotation_set_ref_lists = [], df_annotation_items = [],
     df_annotation_item_widths = [], df_encoded_arrays = [(5, [EV_Int 5])], df_encoded_array_widths = [], df_method_handles = [],
     df_map_entries = [], df_call_site_ids = [], df_parse_errors = [], df_class_def_index = [Some 0]\<rparr>"

definition sample_config :: EmitConfig where
  "sample_config = \<lparr>permit_partial_ir = False, preserve_map_list_order = False, preserve_encoded_value_width = False,
     preserve_data_section_layout = False, preserve_input_checksums = False\<rparr>"



definition sample_blobs :: leaf_blobs where
  "sample_blobs = \<lparr>lb_type_lists = [1, 0, 0, 0, 0, 0], lb_type_list_remap = [(8, 0)], lb_code = [], lb_code_remap = [], lb_debug = [],
     lb_debug_remap = [], lb_string_ids = [0, 0, 0, 0], lb_string_data = [1, 0x49, 0], lb_types = [0, 0, 0, 0], lb_fields = [], lb_methods = []\<rparr>"

definition sample_ids :: id_layout where
  "sample_ids = \<lparr>il_string_ids_off = 112, il_type_ids_off = 116, il_proto_ids_off = 120, il_field_ids_off = 0, il_method_ids_off = 0,
     il_class_defs_off = 132, il_call_site_ids_off = 0, il_method_handles_off = 0, il_data_off = 164\<rparr>"

definition sample_data :: data_layout where
  "sample_data = \<lparr>dl_code_base = 168, dl_code_pad = 1, dl_code = [], dl_debug_base = 168, dl_class_base = 168, dl_class = [],
     dl_class_remap = [], dl_item_base = 168, dl_item = [], dl_set_base = 168, dl_set_pad = 0, dl_set = [], dl_ref_base = 168,
     dl_ref_pad = 0, dl_ref = [], dl_dir_base = 168, dl_dir_pad = 0, dl_dir = [], dl_dir_remap = [], dl_array_base = 168,
     dl_array = [1, 4, 5], dl_array_remap = [(5, 0)], dl_call_sites = [], dl_list_base = 172, dl_list_pad = 1, dl_map_off = 180, dl_map_pad = 2,
     dl_transforms = [AlignmentPaddingInserted ACodeItem 1, AlignmentPaddingInserted ATypeList 1, AlignmentPaddingInserted AMapList 2]\<rparr>"

lemma sample_uleb: "common_write_uleb128 sample_deps 1 = [1]" by code_simp

lemma sample_words: "u32_to_le 1 = [1, 0, 0, 0]" "u32_to_le 0 = [0, 0, 0, 0]" "u16_to_le 0 = [0, 0]"
  by code_simp+

lemma sample_sums:
  "sat_add 112 (Suc (Suc (Suc (Suc 0)))) = 116" "sat_add 116 (Suc (Suc (Suc (Suc 0)))) = 120" "sat_add 120 12 = 132" "sat_add 132 0 = 132" "sat_add 132 32 = 164" "sat_add 164 0 = 164"
  "sat_add 164 (Suc (Suc (Suc 0))) = 167" "sat_add 168 0 = 168" "sat_add 168 (Suc (Suc (Suc 0))) = 171"
  "sat_add 172 (Suc (Suc (Suc (Suc (Suc (Suc 0)))))) = 178" "sat_add 180 112 = 292"
  by (simp_all add: sat_add_def)

lemma sample_leaf: "emit_leaf_blobs sample_deps sample_dex = Inr sample_blobs"
  by (simp add: emit_leaf_blobs_def resolve_type_idxs_def string_to_idx_def emit_type_list_section_def emit_type_list_def u32_offset_def
      emit_code_item_section_def emit_section_def emit_debug_info_section_def emit_string_pool_def string_pool_step_def from_verified_def
      emit_field_pool_def emit_method_pool_def concat_rows_def emit_type_pool_def sample_dex_def sample_blobs_def sample_uleb sample_words)

lemma sample_layout_ids: "layout_ids sample_dex sample_blobs = Inr sample_ids"
  by (simp add: layout_ids_def DEX_HEADER_SIZE_def advance_def advance_rows_def off_if_def sample_sums sample_dex_def sample_blobs_def sample_ids_def)

lemma sample_array: "emit_encoded_array_section_with_widths sample_deps [(5, [EV_Int 5])] None = Inr ([1, 4, 5], [(5, 0)])"
proof -
  have "emit_primitive (EV_Int 5) = Some [4, 5]" by code_simp
  then show ?thesis
    by (simp add: emit_encoded_array_section_with_widths_def emit_section_def section_step_def u32_offset_def Let_def
      emit_encoded_array_with_widths_def emit_encoded_array_def u32_count_def emit_encoded_primitive sample_uleb)
qed

lemma sample_align:
  "align_up_u32 167 4 = Some 168" "align_up_u32 168 4 = Some 168" "align_up_u32 171 4 = Some 172" "align_up_u32 178 4 = Some 180"
  by (simp_all add: align_up_u32_def Let_def)

lemma sample_layout_data: "layout_data sample_deps sample_dex sample_config sample_blobs 164 = Inr sample_data"
  by (simp add: layout_data_def advance_def align_section_def sample_align sample_sums sat_sub_u32_def sample_array
      emit_class_data_section_def emit_annotation_item_section_def emit_annotation_set_section_def emit_annotation_set_ref_list_section_def
      emit_annotation_directory_section_def emit_section_def input_section_offset_def sample_dex_def sample_blobs_def sample_data_def sample_config_def del: bindE_eq_Inr)

lemma sample_map_items:
  "\<exists>its. order_map_items id sample_dex sample_config (build_map_items sample_dex sample_blobs sample_ids sample_data) = (its, [])
    \<and> length its = 9 \<and> successively (\<lambda>a b. it_offset a < it_offset b) its"
  by (simp add: order_map_items_def build_map_items_def item_if_def sample_dex_def sample_blobs_def sample_ids_def sample_data_def sample_config_def
      map_list_order_diverged_def)

definition sample_row :: ClassDefItem where
  "sample_row = \<lparr>cd_class_idx = TypeIdx 0, cd_access_flags = 1, superclass_idx = None, interfaces_off = 172, source_file_idx = None,
     annotations_off = 0, class_data_off = 0, static_values_off = 168\<rparr>"

lemma map_list_length: "length (concat (map emit_map_item its)) = 12 * length its"
  by (induction its) (simp_all add: emit_map_item_def)

lemma sample_file_emits:
  "\<exists>out ts. emit_canonical sample_deps id sample_dex sample_config = Inr (out, ts)"
proof -
  obtain its where its: "order_map_items id sample_dex sample_config (build_map_items sample_dex sample_blobs sample_ids sample_data) = (its, [])"
    "length its = 9" "successively (\<lambda>a b. it_offset a < it_offset b) its" using sample_map_items by blast
  obtain ml where ml: "emit_map_list its False = Inr ml" "length ml = 112"
    using its map_list_length [of its] by (simp add: emit_map_list_def)
  obtain protos where p: "mapE (remap_proto 172 [(8, 0)]) (df_protos sample_dex) = Inr protos" "length protos = 1"
    by (simp add: sample_dex_def remap_proto_def resolve_off_def checked_add_u32_def)
  have c: "mapE (remap_class [(8, 0)] sample_data) (df_class_defs sample_dex) = Inr [sample_row]"
    by (simp add: sample_dex_def remap_class_def resolve_off_def checked_add_u32_def sample_data_def sample_row_def)
  obtain ci where ci: "emit_class_def_pool [sample_row] = Inr ci" "length ci = 32"
    by (simp add: emit_class_def_pool_def concat_rows_def emit_class_row_def sample_row_def NO_INDEX_def)
  obtain H where H: "make_header_layout sample_dex sample_ids 292 180 = Inr H" "length (hl_version H) = 3"
    by (simp add: make_header_layout_def header_count_def sample_dex_def layout_header_def DEX_MAGIC_def sample_file_layout_def)
  let ?file = "assemble_file sample_blobs sample_ids sample_data (emit_header H) (emit_proto_pool protos) ci [] [] ml"
  have len: "length ?file = 292"
    using p(2) ci(2) ml(2) emit_header_length [OF H(2)]
    by (simp add: assemble_file_def sample_blobs_def sample_data_def emit_pool_lengths(1))
  then obtain out where out: "finalize_checksums sample_deps ?file = Inr out" by (simp add: finalize_checksums_def Let_def)
  have dl: "il_data_off sample_ids = 164" "dl_map_off sample_data = 180" "dl_list_base sample_data = 172" "lb_type_list_remap sample_blobs = [(8, 0)]"
    "dl_call_sites sample_data = []" "df_method_handles sample_dex = []" "\<not> preserve_map_list_order sample_config" "\<not> preserve_input_checksums sample_config"
    by (simp_all add: sample_ids_def sample_data_def sample_blobs_def sample_dex_def sample_config_def)
  have "partial_ir_gate sample_dex sample_config = Inr ()" by (simp add: partial_ir_gate_def sample_dex_def)
  then show ?thesis
    using its(1) ml p(1) c ci(1) H(1) len out dl sample_leaf sample_layout_ids sample_layout_data
    by (simp add: emit_canonical_def advance_def sample_sums emit_call_site_id_section_def emit_method_handle_section_def words_to_le_def
        apply_preserve_input_checksums_def del: bindE_eq_Inr)
qed

lemma sample_file_ready: "file_ready Inr sample_dex"
  by (simp add: file_ready_def file_typed_def maps_ready_def string_ready_def string_entry_def sample_dex_def row_ok_defs validate_def index_slot_ok_def
      btree_ok_def layout_header_def DEX_MAGIC_def sample_file_layout_def SUPPORTED_VERSIONS_def)

theorem emit_file_refines_witness:
  "\<exists>out P. parse_pools sample_deps Inr out = Inr P \<and> p_types P = [[0x49]]
     \<and> map (view_proto (read_types sample_deps out 1)) (p_protos P) = [(StringIdx 0, TypeIdx 0, Some [TypeIdx 0])]
     \<and> map (view_class (read_types sample_deps out 1) (\<lambda>_. ()) (\<lambda>_. ()) (read_values sample_deps out)) (p_class_defs P)
       = [((TypeIdx 0, 1, None, None), Some [TypeIdx 0], (), (), Some [EV_Int 5])]"
proof -
  have "\<forall>bs. length (sha1_digest sample_deps bs) = 20" "\<not> preserve_input_checksums sample_config"
    by (simp_all add: std_deps_def sample_config_def)
  then obtain out P where "parse_pools sample_deps Inr out = Inr P" "p_types P = df_type_descriptors sample_dex"
    "map (view_proto (read_types sample_deps out (length (p_types P)))) (p_protos P) = map (view_proto (model_types sample_dex)) (df_protos sample_dex)"
    "map (view_class (read_types sample_deps out (length (p_types P))) (read_annotations sample_deps out) (read_members sample_deps out)
       (read_values sample_deps out)) (p_class_defs P)
      = map (view_class (model_types sample_dex) (model_annotations sample_dex) (model_members sample_dex) (model_values sample_dex)) (df_class_defs sample_dex)"
    using sample_file_emits emit_file_refines [OF std.dex_deps_axioms _ sample_file_ready] by metis
  then show ?thesis
    by (intro exI [of _ out] exI [of _ P]) (auto simp: sample_dex_def model_types_def model_values_def view_proto_def view_class_def Cons_eq_map_conv)
qed

end
