(* ===== verification/Spec2Isabelle.thy ===== *)
theory Spec2Isabelle
  imports Dex_Header Dex_Cfg_Graph Dex_Emit_Facts
begin

text \<open>
  Verification of droidsaw-dex, a parser, emitter and analyser for Android DEX files.

  \<^bold>\<open>The program.\<close> \<open>src/src/parser/mod.rs\<close> reads a file in two layers. A hard layer checks the header, its checksum
  and the identifier sections and reads the string, type, proto, field, method and class pools; an error
  ends the parse. A tolerant layer follows the offsets of classes and directories and puts every subsection it can read
  into a map keyed by its file offset; a subsection it cannot read is recorded as a failure. \<open>src/src/emit_dex.rs\<close> writes
  such a file back: the sections are laid out anew, each returns a map from old to new offsets, references are rewritten
  through these maps, and the header is finalized. \<open>src/src/cfg.rs\<close> builds a control flow graph of the instructions of a method.

  \<^bold>\<open>Theories and sources.\<close>
  \<^item> \<open>Dex_Prelude\<close>: machine words, little-endian bytes, results as sums, ordered association lists for \<open>BTreeMap\<close>, byte ranges
    of a buffer (\<open>at_off\<close>). \<open>Dex_Error\<close>: \<open>error.rs\<close>, the checked arithmetic, and the record \<open>deps\<close> of functions of other
    crates with the locales that state what the code relies on. \<open>Dex_Oracle_Io\<close>: the readers of
    \<open>parser_oracle.rs\<close> and \<open>cfg_oracle.rs\<close>; with them \<open>dex_deps\<close> is interpreted, so its laws can hold.
  \<^item> \<open>Dex_Ids\<close> (\<open>ids.rs\<close>, \<open>access_flags.rs\<close>), \<open>Dex_Header\<close> (\<open>header.rs\<close> and \<open>emit_header\<close>), \<open>Dex_Opcodes\<close> (\<open>opcodes.rs\<close>, the
    mnemonics of \<open>smali.rs\<close>), \<open>Dex_Insn\<close>, \<open>Dex_Decode\<close>, \<open>Dex_Stream\<close> (\<open>decode.rs\<close>: one instruction, the decode loop),
    \<open>Dex_Emit_Insn\<close> (the instruction emitter), with \<open>Dex_Insn_Codec\<close> and \<open>Dex_Assemble\<close> for the laws between them.
  \<^item> \<open>Dex_Seq\<close>, \<open>Dex_Class_Data\<close>, \<open>Dex_Code_Item\<close>: class data and code items, parsed and emitted. \<open>Dex_Cfg\<close> and
    \<open>Dex_Cfg_Graph\<close>: \<open>cfg.rs\<close> and what its graph promises. \<open>Dex_Debug\<close>: \<open>debug.rs\<close>.
  \<^item> \<open>Dex_Value\<close>, \<open>Dex_Value_Tree\<close>, \<open>Dex_Value_Parse\<close>, \<open>Dex_Annotation\<close>: encoded values and annotations (\<open>annotation.rs\<close>
    and their emitters). \<open>Dex_Sections\<close>: the section emitters with their offset maps.
  \<^item> \<open>Dex_String\<close> (\<open>dex_string.rs\<close>), \<open>Dex_Pools\<close>, \<open>Dex_Conformance\<close>, \<open>Dex_Walk\<close>, \<open>Dex_File\<close>: the phases of
    \<open>DexFile::parse_inner\<close> and the file they give; \<open>Dex_File_Resolve\<close> and \<open>Dex_File_Facts\<close>: what the parser promises.
  \<^item> \<open>Dex_Emit_File\<close>: the canonical path of \<open>emit_dex_inner\<close>. \<open>Dex_Emit_Layout\<close>, \<open>Dex_Emit_Code\<close>, \<open>Dex_Emit_Pools\<close> and
    \<open>Dex_Emit_Facts\<close>: the layout arithmetic, the rewriting of debug offsets, and that the emitted file
    refines its original.

  \<^bold>\<open>State and operations.\<close> A Rust struct is a record, an enum a datatype, a fallible function returns \<open>'e + 'a\<close>. A loop is
  a recursive function or a fold; a loop whose end is not evident (the frame stack of nested values) is defined with
  \<open>partial_function\<close> and proved to end on every input. Integers keep their width; saturating and
  checked operations are written out. Ordered maps are lists sorted by key.

  \<^bold>\<open>Interfaces.\<close> \<open>scroll_reader\<close>, \<open>count_guard\<close> and \<open>leb128_codec\<close> (together \<open>dex_deps\<close>) state the behaviour of the byte
  readers of other crates; \<open>seq_codec\<close>, \<open>id_pool\<close> and \<open>section_codec\<close> connect a writer with its reader and carry the round
  trips from one item to lists, pools and sections; \<open>growing\<close> is the shape of the tolerant phases, \<open>graph_view\<close>
  that of the two views of a graph. Each is interpreted on the operations of the model.

  \<^bold>\<open>What is shown.\<close> The parser ends on every input, returns a well-typed file and drops no reference silently. The gates and
  recorded checks are exact. Instructions, method bodies, code items, class data, encoded values,
  annotations, pools and sections that are written are read back unchanged, under the well-formedness conditions each theorem names. A file that the
  canonical emitter returns parses back to the same pools, and following its new offsets gives the content
  of the original. Every code item that parses has a well-formed graph that is cut exactly at the
  block starts of the instruction set; where no block starts inside an instruction, its edges are the control
  transfers of the instructions, exceptions included.

  \<^bold>\<open>Bounds.\<close> Emitted files are shorter than \<open>2 ^ 32\<close> bytes: the emitter's own length check guarantees it. Inputs of the parser are
  bounded by \<open>fits\<close> (\<open>usize\<close> of 64 bits). The caps of the code on nesting and on pending tasks are kept as
  they are. No fuel is used.

  \<^bold>\<open>Not modelled.\<close> The layout-preserving emitter (a second copy of the canonical path that places the same sections at the input's
  offsets), the MUTF-8 decoder and the hash functions (other crates), the SSA builder (an adapter to another
  crate) with the type inference, optimizer, structuring and source generation that work on its output, the signature and R8
  heuristics, and the reporting over parsed files. The manifest gives the reason for each.
\<close>

section \<open>From the parser to the control flow graph\<close>

lemma parsed_stream_ok:
  assumes "parse_code_item D data off = Inr c"
  shows "stream_ok c \<and> list_all (\<lambda>t. handler_idx t < length (catch_handlers c)) (tries c)"
proof -
  obtain n tn dv pv ws where p: "decode_insns D data (unat off + 16) n = Inr (instructions c, payloads c, dv)"
    "parse_tries D data (unat off + 16) n tn dv = Inr (tries c, catch_handlers c, pv)"
    using parse_code_item_parts [OF assms] by blast
  have "0 < insn_size i" if "insn_wf i" for i using that format_size_pos unfolding insn_wf_def by metis
  then show ?thesis
    using insns_laid [OF p(1)] parse_tries_inv [OF p(2)] unfolding stream_ok_def list_all_iff by blast
qed

text \<open>The side condition on tries that the flow of the graph needs holds for every parsed code item.\<close>

lemma parsed_tries_fit:
  assumes "parse_code_item D data off = Inr c"
  shows "tries_fit c"
proof -
  obtain n tn dv pv where "parse_tries D data (unat off + 16) n tn dv = Inr (tries c, catch_handlers c, pv)"
    using parse_code_item_parts [OF assms] by blast
  then have t: "\<forall>t \<in> set (tries c). unat (start_addr t) + unat (insn_count t) \<le> max (unat (start_addr t)) (unat n)"
    using parse_tries_inv unfolding try_kept_def by blast
  have "max (unat a) (unat n) < 2 ^ 32" for a :: u32 using unat_u32_lt [of a] unat_u32_lt [of n] by simp
  with t show ?thesis unfolding tries_fit_def by (meson le_less_trans)
qed

text \<open>C5 (parsed_code_graph). For every code item the parser accepts, however malformed, the graph builder runs without
  an out-of-bounds access, and the graph it gives is well-formed and keeps every instruction exactly
  once, in order.\<close>

theorem parsed_code_graph:
  assumes "parse_code_item D data off = Inr c"
  shows "\<exists>cfg. build c = Inr cfg \<and> cfg_wf cfg \<and> concat (map bb_insns (blocks cfg)) = instructions c"
proof -
  note p = parsed_stream_ok [OF assms]
  obtain cfg where c: "build c = Inr cfg" "cfg_wf cfg" using build_ok p by blast
  moreover have "concat (map bb_insns (blocks cfg)) = instructions c"
    using build_partition [OF c(1)] p by blast
  ultimately show ?thesis by blast
qed

theorem parsed_code_graph_witness:
  "\<exists>bytes c cfg. parse_code_item (std_deps (\<lambda>_. [])) bytes 0 = Inr c \<and> tries c = sample_tries
     \<and> build c = Inr cfg \<and> cfg_wf cfg \<and> concat (map bb_insns (blocks cfg)) = instructions c"
proof -
  obtain insn_bytes where a: "assemble_insn_stream (codes sample_items) (tables sample_items) 10 = Inr insn_bytes" "length insn_bytes = 20"
    using assemble_ok [OF sample_layout] by auto
  obtain bytes where b: "emit_code_item_container (std_deps (\<lambda>_. [])) 2 0 0 0 insn_bytes sample_tries sample_handlers = Inr bytes"
    "length bytes \<le> 120" using sample_emits [OF a(2)] a(2) by auto
  then have "fits bytes" "at_off bytes (unat 0) bytes" by (simp_all add: fits_def at_off_def)
  from std.code_item_codec [OF sample_layout sample_tries_ok a(1) b(1) this]
  obtain c where c: "parse_code_item (std_deps (\<lambda>_. [])) bytes 0 = Inr c" "tries c = sample_tries" by auto
  with parsed_code_graph [OF c(1)] show ?thesis by blast
qed

end
